(* ===== verification/Rust_Prelude.thy ===== *)
theory Rust_Prelude
  imports
    Main
    "HOL-Library.Char_ord"
    "HOL-Library.List_Lexorder"
    "HOL-Library.Option_ord"
    "HOL-Library.Product_Lexorder"
    "HOL-Library.Multiset"
    "HOL-Library.Word"
begin

text \<open>
  The parts of the Rust standard library that every component of the framework uses, written
  once: three-way comparison (\<open>Ordering\<close>, \<open>then_with\<close>), the stable \<open>sort_by\<close>, index search
  (\<open>position\<close>), \<open>dedup\<close>, results (\<open>Result\<close> as a sum, \<open>Inl\<close> for the error) and panics.
  Strings are the bytes of the UTF-8 text, so the lexicographic order on \<open>char list\<close> is the
  order of Rust's \<open>str\<close>.

  The locale \<open>comparator\<close> is the contract that a \<open>sort_by\<close> closure must satisfy (a total
  preorder); its extension \<open>strict_comparator\<close> adds that equal elements are identical, which is
  what makes a sorted listing independent of the order of its input.
\<close>

section \<open>Collections of facts\<close>

named_theorems panic_free \<open>the operations that are proved never to panic\<close>
named_theorems cmp_simps \<open>comparators written as comparisons of keys\<close>

section \<open>Three-way comparison\<close>

datatype ordering = Less | Equal | Greater

type_synonym u32 = "32 word"
type_synonym u64 = "64 word"
type_synonym type_id = nat

definition cmp :: "'a::linorder \<Rightarrow> 'a \<Rightarrow> ordering" where
  "cmp a b = (if a < b then Less else if a = b then Equal else Greater)"

fun then_with :: "ordering \<Rightarrow> ordering \<Rightarrow> ordering" where
  "then_with Equal o2 = o2"
| "then_with o1 o2 = o1"

fun reverse_ordering :: "ordering \<Rightarrow> ordering" where
  "reverse_ordering Less = Greater"
| "reverse_ordering Equal = Equal"
| "reverse_ordering Greater = Less"

text \<open>Every comparator of the program is the comparison of a key in a linear order.\<close>

definition cmp_on :: "('a \<Rightarrow> 'k::linorder) \<Rightarrow> 'a \<Rightarrow> 'a \<Rightarrow> ordering" where
  "cmp_on key a b = cmp (key a) (key b)"

lemma cmp_eq_Less [simp]: "cmp a b = Less \<longleftrightarrow> a < b"
  by (simp add: cmp_def)

lemma cmp_eq_Equal [simp]: "cmp a b = Equal \<longleftrightarrow> a = b"
  by (simp add: cmp_def)

lemma cmp_eq_Greater [simp]: "cmp a b = Greater \<longleftrightarrow> b < a"
  by (auto simp: cmp_def)

lemma cmp_refl [simp]: "cmp a a = Equal"
  by simp

lemma then_with_eq_Less: "then_with o1 o2 = Less \<longleftrightarrow> o1 = Less \<or> (o1 = Equal \<and> o2 = Less)"
  by (cases o1) auto

lemma then_with_eq_Greater:
  "then_with o1 o2 = Greater \<longleftrightarrow> o1 = Greater \<or> (o1 = Equal \<and> o2 = Greater)"
  by (cases o1) auto

lemma then_with_eq_Equal: "then_with o1 o2 = Equal \<longleftrightarrow> o1 = Equal \<and> o2 = Equal"
  by (cases o1) auto

text \<open>\<open>a.cmp(b).then_with(|| c.cmp(d))\<close> is the comparison of the pairs.\<close>

lemma then_with_cmp [cmp_simps]: "then_with (cmp a b) (cmp c d) = cmp (a, c) (b, d)"
  by (auto simp: cmp_def)

lemma cmp_option:
  "cmp x y =
     (case (x, y) of
        (Some a, Some b) \<Rightarrow> cmp a b
      | (None, Some _) \<Rightarrow> Less
      | (Some _, None) \<Rightarrow> Greater
      | (None, None) \<Rightarrow> Equal)"
  by (auto simp: cmp_def split: option.splits)

section \<open>Stable sorting\<close>

fun insert_by :: "('a \<Rightarrow> 'a \<Rightarrow> ordering) \<Rightarrow> 'a \<Rightarrow> 'a list \<Rightarrow> 'a list" where
  "insert_by order x [] = [x]"
| "insert_by order x (y # ys) =
     (if order x y \<noteq> Greater then x # y # ys else y # insert_by order x ys)"

definition sort_by :: "('a \<Rightarrow> 'a \<Rightarrow> ordering) \<Rightarrow> 'a list \<Rightarrow> 'a list" where
  "sort_by order xs = foldr (insert_by order) xs []"

lemma sort_by_Nil [simp]: "sort_by order [] = []"
  by (simp add: sort_by_def)

lemma sort_by_Cons [simp]: "sort_by order (x # xs) = insert_by order x (sort_by order xs)"
  by (simp add: sort_by_def)

lemma mset_insert_by [simp]: "mset (insert_by order x xs) = add_mset x (mset xs)"
  by (induction xs) auto

lemma mset_sort_by [simp]: "mset (sort_by order xs) = mset xs"
  by (induction xs) auto

lemma set_sort_by [simp]: "set (sort_by order xs) = set xs"
  by (rule mset_eq_setD) simp

lemma length_sort_by [simp]: "length (sort_by order xs) = length xs"
  using mset_eq_length mset_sort_by by blast

lemma sort_by_eq_Nil [simp]: "sort_by order xs = [] \<longleftrightarrow> xs = []"
  by (metis length_0_conv length_sort_by)

lemma distinct_sort_by [simp]: "distinct (sort_by order xs) = distinct xs"
  by (rule mset_eq_imp_distinct_iff) simp

lemma distinct_map_sort_by [simp]: "distinct (map f (sort_by order xs)) = distinct (map f xs)"
  by (rule mset_eq_imp_distinct_iff) simp

lemma insert_by_cmp_on: "insert_by (cmp_on key) x xs = insort_key key x xs"
  by (induction xs) (auto simp: cmp_on_def not_less)

lemma sort_by_cmp_on [cmp_simps]: "sort_by (cmp_on key) xs = sort_key key xs"
  by (induction xs) (auto simp: sort_key_def insert_by_cmp_on)

locale comparator =
  fixes order :: "'a \<Rightarrow> 'a \<Rightarrow> ordering"
  assumes order_swap: "order b a = reverse_ordering (order a b)"
    and order_trans: "order a b \<noteq> Greater \<Longrightarrow> order b c \<noteq> Greater \<Longrightarrow> order a c \<noteq> Greater"
begin

lemma order_refl: "order a a = Equal"
  using order_swap [of a a] by (cases "order a a") auto

lemma order_total: "order a b \<noteq> Greater \<or> order b a \<noteq> Greater"
  using order_swap [of a b] by (cases "order a b") auto

lemma insert_by_sorted:
  "sorted_wrt (\<lambda>a b. order a b \<noteq> Greater) xs \<Longrightarrow>
   sorted_wrt (\<lambda>a b. order a b \<noteq> Greater) (insert_by order x xs)"
proof (induction xs)
  case Nil
  then show ?case by simp
next
  case (Cons y ys)
  have set: "set (insert_by order x ys) = insert x (set ys)"
    by (metis mset_insert_by set_mset_add_mset_insert set_mset_mset)
  show ?case
  proof (cases "order x y = Greater")
    case True
    then have "order y x \<noteq> Greater" using order_total [of x y] by simp
    with True Cons show ?thesis by (auto simp: set)
  next
    case False
    with Cons.prems show ?thesis using order_trans [OF False] by auto
  qed
qed

lemma sort_by_sorted: "sorted_wrt (\<lambda>a b. order a b \<noteq> Greater) (sort_by order xs)"
  by (induction xs) (auto intro: insert_by_sorted)

lemma filter_insert_by:
  "sorted_wrt (\<lambda>a b. order a b \<noteq> Greater) xs \<Longrightarrow>
   filter (\<lambda>y. order z y = Equal) (insert_by order x xs) =
   filter (\<lambda>y. order z y = Equal) (x # xs)"
proof (induction xs)
  case Nil
  then show ?case by simp
next
  case (Cons y ys)
  show ?case
  proof (cases "order x y = Greater \<and> order z x = Equal \<and> order z y = Equal")
    case True
    then have "order x z = Equal" using order_swap [where a = z and b = x] by simp
    with True have "order x y \<noteq> Greater" using order_trans [of x z y] by simp
    with True show ?thesis by simp
  next
    case False
    with Cons show ?thesis by auto
  qed
qed

text \<open>Elements that compare equal keep their input order.\<close>

lemma sort_by_stable:
  "filter (\<lambda>y. order z y = Equal) (sort_by order xs) = filter (\<lambda>y. order z y = Equal) xs"
  by (induction xs) (simp_all add: filter_insert_by sort_by_sorted)

lemma sorted_unique:
  assumes "sorted_wrt (\<lambda>a b. order a b \<noteq> Greater) xs"
    and "sorted_wrt (\<lambda>a b. order a b \<noteq> Greater) ys"
    and "mset xs = mset ys"
    and "\<And>a b. a \<in> set xs \<Longrightarrow> b \<in> set xs \<Longrightarrow> order a b = Equal \<Longrightarrow> a = b"
  shows "xs = ys"
  using assms
proof (induction xs arbitrary: ys)
  case Nil
  then show ?case by simp
next
  case (Cons x xs)
  from Cons.prems(3) obtain y ys' where ys: "ys = y # ys'" by (cases ys) auto
  have mem: "x \<in> set ys" "y \<in> set (x # xs)"
    using Cons.prems(3) ys by (metis list.set_intros(1) mset_eq_setD)+
  then have "order x y \<noteq> Greater" "order y x \<noteq> Greater"
    using Cons.prems(1,2) ys order_refl by auto
  then have "order x y = Equal" using order_swap [of y x] by (cases "order x y") auto
  then have "x = y" using Cons.prems(4) mem(2) by simp
  with Cons ys show ?case by simp
qed

text \<open>
  The sorted listing depends only on the multiset of the elements, as far as the comparator
  tells them apart.
\<close>

lemma sort_by_canonical_on:
  assumes "mset xs = mset ys"
    and "\<And>a b. a \<in> set xs \<Longrightarrow> b \<in> set xs \<Longrightarrow> order a b = Equal \<Longrightarrow> a = b"
  shows "sort_by order xs = sort_by order ys"
  by (rule sorted_unique) (use assms in \<open>auto intro: sort_by_sorted\<close>)

end

locale strict_comparator = comparator +
  assumes order_antisym: "order a b = Equal \<Longrightarrow> a = b"
begin

lemma sort_by_canonical: "mset xs = mset ys \<Longrightarrow> sort_by order xs = sort_by order ys"
  by (rule sort_by_canonical_on) (auto intro: order_antisym)

end

lemma comparator_cmp_on: "comparator (cmp_on key)"
  by unfold_locales (auto simp: cmp_on_def cmp_def split: if_splits)

lemma strict_comparator_cmp_on: "inj key \<Longrightarrow> strict_comparator (cmp_on key)"
  unfolding strict_comparator_def strict_comparator_axioms_def
  by (auto simp: comparator_cmp_on cmp_on_def inj_eq)

interpretation natural: strict_comparator "cmp :: 'a::linorder \<Rightarrow> 'a \<Rightarrow> ordering"
proof -
  have "strict_comparator (cmp_on (\<lambda>x::'a. x))" by (rule strict_comparator_cmp_on) simp
  moreover have "cmp_on (\<lambda>x::'a. x) = cmp" by (simp add: cmp_on_def fun_eq_iff)
  ultimately show "strict_comparator (cmp :: 'a \<Rightarrow> 'a \<Rightarrow> ordering)" by simp
qed

section \<open>Slices\<close>

text \<open>\<open>iter().position(p)\<close> and \<open>iter().find(p)\<close> (\<open>find\<close> is HOL's \<open>List.find\<close>).\<close>

fun position :: "('a \<Rightarrow> bool) \<Rightarrow> 'a list \<Rightarrow> nat option" where
  "position p [] = None"
| "position p (x # xs) = (if p x then Some 0 else map_option Suc (position p xs))"

lemma position_SomeD: "position p xs = Some i \<Longrightarrow> i < length xs \<and> p (xs ! i)"
  by (induction xs arbitrary: i) (auto split: if_splits)

lemma position_Some_first: "position p xs = Some i \<Longrightarrow> j < i \<Longrightarrow> \<not> p (xs ! j)"
proof (induction xs arbitrary: i j)
  case (Cons x xs)
  then show ?case by (cases j) (auto split: if_splits)
qed simp

lemma position_None_iff: "position p xs = None \<longleftrightarrow> (\<forall>x\<in>set xs. \<not> p x)"
  by (induction xs) auto

lemma position_exists: "x \<in> set xs \<Longrightarrow> p x \<Longrightarrow> \<exists>i. position p xs = Some i"
  by (metis not_None_eq position_None_iff)

lemma position_unique:
  assumes "i < length xs" and "p (xs ! i)"
    and "\<And>j. j < length xs \<Longrightarrow> p (xs ! j) \<Longrightarrow> j = i"
  shows "position p xs = Some i"
proof -
  obtain k where k: "position p xs = Some k"
    using position_exists [of "xs ! i" xs p] assms(1,2) by auto
  then show ?thesis using position_SomeD [OF k] assms(3) by simp
qed

text \<open>Position by a key that is distinct on the list is the index itself.\<close>

lemma position_key:
  assumes "distinct (map f xs)" and "i < length xs"
  shows "position (\<lambda>x. f x = f (xs ! i)) xs = Some i"
proof (rule position_unique)
  fix j assume "j < length xs" "f (xs ! j) = f (xs ! i)"
  then show "j = i" using assms by (metis length_map nth_eq_iff_index_eq nth_map)
qed (use assms in auto)

lemma find_SomeD: "find p xs = Some x \<Longrightarrow> x \<in> set xs \<and> p x"
  by (auto simp: find_Some_iff)

lemma list_ex_key: "list_ex (\<lambda>x. f x = y) xs \<longleftrightarrow> y \<in> f ` set xs"
  by (force simp: list_ex_iff)

text \<open>\<open>dedup_by\<close> removes an element that equals its retained predecessor.\<close>

fun dedup_by :: "('a \<Rightarrow> 'a \<Rightarrow> bool) \<Rightarrow> 'a list \<Rightarrow> 'a list" where
  "dedup_by same [] = []"
| "dedup_by same [x] = [x]"
| "dedup_by same (x # y # ys) =
     (if same y x then dedup_by same (x # ys) else x # dedup_by same (y # ys))"

lemma dedup_by_eq_Nil [simp]: "dedup_by same xs = [] \<longleftrightarrow> xs = []"
  by (induction same xs rule: dedup_by.induct) auto

lemma set_dedup_by: "set (dedup_by same xs) \<subseteq> set xs"
  by (induction same xs rule: dedup_by.induct) auto

text \<open>On a list sorted by a key, removing equal neighbours leaves strictly ascending keys.\<close>

lemma dedup_by_strict:
  fixes key :: "'a \<Rightarrow> 'k::linorder"
  assumes "sorted (map key xs)"
  shows "sorted_wrt (<) (map key (dedup_by (\<lambda>a b. key a = key b) xs))"
  using assms
proof (induction "\<lambda>a b. key a = key b" xs rule: dedup_by.induct)
  case (3 x y ys)
  show ?case
  proof (cases "key y = key x")
    case True
    then show ?thesis using 3 by simp
  next
    case False
    with 3(3) have "\<forall>z\<in>set (y # ys). key x < key z" by auto
    then have "\<forall>z\<in>set (dedup_by (\<lambda>a b. key a = key b) (y # ys)). key x < key z"
      using set_dedup_by [of "\<lambda>a b. key a = key b" "y # ys"] by blast
    with False 3 show ?thesis by auto
  qed
qed simp_all

lemma set_filter_map: "set (List.map_filter f xs) = {y. \<exists>x\<in>set xs. f x = Some y}"
  by (induction xs) (auto simp: List.map_filter_simps split: option.splits)

text \<open>\<open>max_by_key\<close>: the last of the greatest elements.\<close>

fun max_by_key_from :: "('a \<Rightarrow> nat) \<Rightarrow> 'a \<Rightarrow> 'a list \<Rightarrow> 'a" where
  "max_by_key_from key best [] = best"
| "max_by_key_from key best (x # xs) =
     max_by_key_from key (if key best \<le> key x then x else best) xs"

fun max_by_key :: "('a \<Rightarrow> nat) \<Rightarrow> 'a list \<Rightarrow> 'a option" where
  "max_by_key key [] = None"
| "max_by_key key (x # xs) = Some (max_by_key_from key x xs)"

lemma max_by_key_from_correct:
  "max_by_key_from key best xs \<in> insert best (set xs) \<and>
   (\<forall>y\<in>insert best (set xs). key y \<le> key (max_by_key_from key best xs))"
proof (induction xs arbitrary: best)
  case (Cons x xs)
  from this [of x] this [of best] show ?case by auto
qed simp

lemma max_by_key_SomeD:
  "max_by_key key xs = Some m \<Longrightarrow> m \<in> set xs \<and> (\<forall>y\<in>set xs. key y \<le> key m)"
  using max_by_key_from_correct [of key "hd xs" "tl xs"] by (cases xs) auto

lemma max_by_key_eq_None [simp]: "max_by_key key xs = None \<longleftrightarrow> xs = []"
  by (cases xs) auto

text \<open>
  The argument behind every worklist that releases a node when its predecessors are done: in a
  finite acyclic relation a set whose members all have a successor in the set is empty.
\<close>

lemma acyclic_remaining_empty:
  assumes "finite E" "acyclic E" "\<And>i. i \<in> R \<Longrightarrow> \<exists>j\<in>R. (i, j) \<in> E"
  shows "R = {}"
proof (rule ccontr)
  assume "R \<noteq> {}"
  have "wf (E\<inverse>)" using assms(1,2) by (simp add: finite_acyclic_wf_converse)
  then obtain m where m: "m \<in> R" "\<And>y. (y, m) \<in> E\<inverse> \<Longrightarrow> y \<notin> R"
    using \<open>R \<noteq> {}\<close> by (metis ex_in_conv wfE_min)
  with assms(3) [OF m(1)] show False by blast
qed

text \<open>Adding a node without predecessors keeps a relation acyclic.\<close>

lemma acyclic_add_source:
  assumes "acyclic R" "\<And>a. (a, i) \<notin> R" "(i, i) \<notin> S" "\<And>a b. (a, b) \<in> S \<Longrightarrow> a = i"
  shows "acyclic (R \<union> S)"
proof (rule acyclicI, clarify)
  fix x assume cyc: "(x, x) \<in> (R \<union> S)\<^sup>+"
  have range: "b \<noteq> i" if "(a, b) \<in> (R \<union> S)\<^sup>+" for a b
    using that by (induction rule: trancl_induct) (use assms in blast)+
  have "(a, b) \<in> R\<^sup>+" if "(a, b) \<in> (R \<union> S)\<^sup>+" "a \<noteq> i" for a b
    using that
  proof (induction rule: trancl_induct)
    case (base b)
    then show ?case using assms(4) by blast
  next
    case (step b c)
    have "b \<noteq> i" using range [OF step.hyps(1)] .
    with step assms(4) show ?case by (blast intro: trancl_into_trancl)
  qed
  with cyc range [OF cyc] have "(x, x) \<in> R\<^sup>+" by blast
  with assms(1) show False by (simp add: acyclic_def)
qed

lemma path_rtrancl:
  assumes "\<forall>k. Suc k < length st \<longrightarrow> (st ! k, st ! Suc k) \<in> E" "i \<le> j" "j < length st"
  shows "(st ! i, st ! j) \<in> E\<^sup>*"
  using assms(2,3)
proof (induction j)
  case (Suc j)
  then show ?case
    using assms(1) by (cases "i = Suc j") (auto intro: rtrancl_into_rtrancl)
qed simp

section \<open>Results and panics\<close>

text \<open>
  A \<open>Result\<close> is a sum with the error on the left. \<open>and_then\<close> is the \<open>?\<close> operator: the first
  error ends the computation. A function that can panic (a failed \<open>expect\<close>, \<open>assert\<close> or index)
  returns a sum with \<open>panic\<close> on the left; the model's own recursion bound is \<open>OutOfFuel\<close>.
\<close>

datatype panic = OutOfFuel | Panic string

fun and_then :: "'e + 'a \<Rightarrow> ('a \<Rightarrow> 'e + 'b) \<Rightarrow> 'e + 'b" where
  "and_then (Inl e) k = Inl e"
| "and_then (Inr x) k = k x"

fun expect :: "string \<Rightarrow> 'a option \<Rightarrow> panic + 'a" where
  "expect message None = Inl (Panic message)"
| "expect message (Some x) = Inr x"

fun ok_or :: "'e \<Rightarrow> 'a option \<Rightarrow> 'e + 'a" where
  "ok_or e None = Inl e"
| "ok_or e (Some x) = Inr x"

lemma and_then_eq_Inr: "and_then r k = Inr y \<longleftrightarrow> (\<exists>x. r = Inr x \<and> k x = Inr y)"
  by (cases r) auto

lemma ok_or_eq_Inr: "ok_or e x = Inr y \<longleftrightarrow> x = Some y"
  by (cases x) auto

lemma ok_or_eq_Inl: "ok_or e x = Inl e' \<longleftrightarrow> x = None \<and> e' = e"
  by (cases x) auto

lemma and_then_eq_Inl:
  "and_then r k = Inl e \<longleftrightarrow> r = Inl e \<or> (\<exists>x. r = Inr x \<and> k x = Inl e)"
  by (cases r) auto

lemma and_then_cong [fundef_cong]:
  "r = r' \<Longrightarrow> (\<And>x. r' = Inr x \<Longrightarrow> k x = k' x) \<Longrightarrow> and_then r k = and_then r' k'"
  by (cases r') auto

lemma expect_eq_Inr [simp]: "expect message v = Inr x \<longleftrightarrow> v = Some x"
  by (cases v) auto

text \<open>A loop whose body can fail (\<open>for x in xs { \<dots>? }\<close>, \<open>collect::<Result<_>>\<close>).\<close>

fun try_fold :: "('a \<Rightarrow> 's \<Rightarrow> 'e + 's) \<Rightarrow> 'a list \<Rightarrow> 's \<Rightarrow> 'e + 's" where
  "try_fold f [] s = Inr s"
| "try_fold f (x # xs) s = and_then (f x s) (try_fold f xs)"

fun try_map :: "('a \<Rightarrow> 'e + 'b) \<Rightarrow> 'a list \<Rightarrow> 'e + 'b list" where
  "try_map f [] = Inr []"
| "try_map f (x # xs) = and_then (f x) (\<lambda>y. and_then (try_map f xs) (\<lambda>ys. Inr (y # ys)))"

lemma try_fold_append: "try_fold f (xs @ ys) s = and_then (try_fold f xs s) (try_fold f ys)"
proof (induction xs arbitrary: s)
  case (Cons x xs)
  then show ?case by (cases "f x s") auto
qed simp

lemma try_fold_keeps:
  "try_fold f xs s = Inr s' \<Longrightarrow> P s \<Longrightarrow> (\<And>x t t'. x \<in> set xs \<Longrightarrow> f x t = Inr t' \<Longrightarrow> P t \<Longrightarrow> P t') \<Longrightarrow> P s'"
proof (induction xs arbitrary: s)
  case (Cons x xs)
  from Cons.prems(1) obtain t where t: "f x s = Inr t" "try_fold f xs t = Inr s'" by (cases "f x s") auto
  show ?case
  proof (rule Cons.IH [OF t(2)])
    show "P t" by (rule Cons.prems(3) [OF _ t(1) Cons.prems(2)]) simp
  qed (rule Cons.prems(3), simp_all)
qed simp

lemma try_fold_failed: "try_fold f xs s = Inl e \<Longrightarrow> \<exists>x t. f x t = Inl e"
proof (induction xs arbitrary: s)
  case (Cons x xs)
  then show ?case by (cases "f x s") auto
qed simp

text \<open>An invariant that every body keeps, with the body never failing under it.\<close>

lemma try_fold_invariant:
  assumes "I [] s"
    and "\<And>ys x zs t. xs = ys @ x # zs \<Longrightarrow> I ys t \<Longrightarrow> \<exists>t'. f x t = Inr t' \<and> I (ys @ [x]) t'"
  shows "\<exists>s'. try_fold f xs s = Inr s' \<and> I xs s'"
proof -
  have "\<exists>s'. try_fold f zs t = Inr s' \<and> I xs s'" if "xs = ys @ zs" "I ys t" for ys zs t
    using that
  proof (induction zs arbitrary: ys t)
    case (Cons z zs)
    then obtain t' where "f z t = Inr t'" "I (ys @ [z]) t'" using assms(2) by blast
    with Cons.IH [of "ys @ [z]" t'] Cons.prems(1) show ?case by simp
  qed simp
  from this [of "[]" xs s] assms(1) show ?thesis by simp
qed

lemma try_map_InrD:
  "try_map f xs = Inr ys \<Longrightarrow> list_all2 (\<lambda>x y. f x = Inr y) xs ys"
  by (induction xs arbitrary: ys) (auto simp: and_then_eq_Inr)

section \<open>Text\<close>

fun join_with :: "string \<Rightarrow> string list \<Rightarrow> string" where
  "join_with sep [] = []"
| "join_with sep [x] = x"
| "join_with sep (x # y # ys) = x @ sep @ join_with sep (y # ys)"

fun strip_prefix :: "string \<Rightarrow> string \<Rightarrow> string option" where
  "strip_prefix [] s = Some s"
| "strip_prefix (p # ps) [] = None"
| "strip_prefix (p # ps) (c # cs) = (if p = c then strip_prefix ps cs else None)"

definition starts_with :: "string \<Rightarrow> string \<Rightarrow> bool" where
  "starts_with p s \<longleftrightarrow> take (length p) s = p"

definition strip_suffix :: "string \<Rightarrow> string \<Rightarrow> string option" where
  "strip_suffix p s = map_option rev (strip_prefix (rev p) (rev s))"

definition str_contains :: "string \<Rightarrow> string \<Rightarrow> bool" where
  "str_contains needle s \<longleftrightarrow>
     list_ex (\<lambda>i. starts_with needle (drop i s)) [0 ..< Suc (length s)]"

fun nat_digits :: "nat \<Rightarrow> string" where
  "nat_digits n =
     (if n < 10 then [char_of (48 + n)] else nat_digits (n div 10) @ [char_of (48 + n mod 10)])"

declare nat_digits.simps [simp del]

text \<open>\<open>str::parse\<close> to an unsigned type: decimal digits after an optional plus sign, below \<open>2 ^ bits\<close>.\<close>

definition is_digit :: "char \<Rightarrow> bool" where
  "is_digit c \<longleftrightarrow> 48 \<le> (of_char c :: nat) \<and> (of_char c :: nat) \<le> 57"

definition digits_value :: "string \<Rightarrow> nat" where
  "digits_value s = foldl (\<lambda>n c. 10 * n + (of_char c - 48)) 0 s"

definition parse_unsigned :: "nat \<Rightarrow> string \<Rightarrow> nat option" where
  "parse_unsigned bits s =
     (let digits = (case s of c # rest \<Rightarrow> if c = CHR ''+'' then rest else s | [] \<Rightarrow> []) in
      if digits = [] \<or> \<not> list_all is_digit digits \<or> digits_value digits \<ge> 2 ^ bits then None
      else Some (digits_value digits))"

lemma digit_char: "(n::nat) < 10 \<Longrightarrow> is_digit (char_of (48 + n)) \<and> of_char (char_of (48 + n)) - 48 = n"
  by (simp add: is_digit_def)

lemma digits_value_snoc: "digits_value (s @ [c]) = 10 * digits_value s + (of_char c - 48)"
  by (simp add: digits_value_def)

text \<open>The same on integers, whose numerals evaluate fast.\<close>

lemma digits_value_int:
  "list_all is_digit s \<Longrightarrow> int (digits_value s) = foldl (\<lambda>n c. 10 * n + (of_char c - 48)) 0 s"
proof (induction s rule: rev_induct)
  case (snoc c s)
  then have "48 \<le> (of_char c :: nat)" by (simp add: is_digit_def)
  then have "int (of_char c - 48) = of_char c - 48" by (simp add: of_nat_of_char)
  with snoc show ?case by (simp add: digits_value_snoc)
qed (simp add: digits_value_def)

lemma parse_unsigned_code [code]:
  "parse_unsigned bits s =
     (let digits = (case s of c # rest \<Rightarrow> if c = CHR ''+'' then rest else s | [] \<Rightarrow> []);
          n = foldl (\<lambda>n c. 10 * n + (of_char c - 48)) (0 :: int) digits in
      if digits = [] \<or> \<not> list_all is_digit digits \<or> 2 ^ bits \<le> n then None else Some (nat n))"
proof -
  let ?digits = "case s of c # rest \<Rightarrow> if c = CHR ''+'' then rest else s | [] \<Rightarrow> []"
  show ?thesis
  proof (cases "list_all is_digit ?digits")
    case True
    from digits_value_int [OF True] show ?thesis by (simp add: parse_unsigned_def Let_def flip: digits_value_int [OF True])
  qed (simp add: parse_unsigned_def Let_def)
qed

lemma nat_digits_correct:
  "list_all is_digit (nat_digits n) \<and> digits_value (nat_digits n) = n \<and> nat_digits n \<noteq> []"
proof (induction n rule: nat_digits.induct)
  case (1 n)
  show ?case
  proof (cases "n < 10")
    case True
    then show ?thesis
      using digit_char [OF True] by (subst (1 2 3) nat_digits.simps) (simp add: digits_value_def)
  next
    case False
    with 1 digit_char [of "n mod 10"] show ?thesis
      by (subst (1 2 3) nat_digits.simps) (simp add: digits_value_snoc)
  qed
qed

lemma parse_unsigned_digits: "n < 2 ^ bits \<Longrightarrow> parse_unsigned bits (nat_digits n) = Some n"
proof -
  assume n: "n < 2 ^ bits"
  obtain c cs where s: "nat_digits n = c # cs" using nat_digits_correct by (metis list.exhaust)
  with nat_digits_correct [of n] have "is_digit c" by simp
  then have "c \<noteq> CHR ''+''" by (auto simp: is_digit_def)
  then show ?thesis
    using nat_digits_correct [of n] s n by (simp add: parse_unsigned_def Let_def)
qed

lemma parse_unsigned_below: "parse_unsigned bits s = Some n \<Longrightarrow> n < 2 ^ bits"
  by (auto simp: parse_unsigned_def Let_def split: if_splits)

lemma join_with_Cons: "join_with sep (x # xs) = x @ concat (map (\<lambda>y. sep @ y) xs)"
  by (induction xs arbitrary: x) auto

lemma strip_prefix_eq: "strip_prefix p s = Some t \<longleftrightarrow> s = p @ t"
  by (induction p s rule: strip_prefix.induct) auto

lemma strip_suffix_eq: "strip_suffix p s = Some t \<longleftrightarrow> s = t @ p"
proof -
  have "strip_suffix p s = Some t \<longleftrightarrow> rev s = rev p @ rev t"
    by (auto simp: strip_suffix_def strip_prefix_eq rev_swap)
  then show ?thesis by (metis rev_append rev_rev_ident)
qed

lemma starts_with_iff: "starts_with p s \<longleftrightarrow> (\<exists>t. s = p @ t)"
  unfolding starts_with_def by (metis append_eq_conv_conj append_take_drop_id)

lemma str_contains_iff: "str_contains needle s \<longleftrightarrow> (\<exists>a b. s = a @ needle @ b)"
proof
  assume "str_contains needle s"
  then obtain i where "starts_with needle (drop i s)"
    unfolding str_contains_def list_ex_iff by blast
  then obtain b where "drop i s = needle @ b" by (auto simp: starts_with_iff)
  then have "s = take i s @ needle @ b" by (metis append_take_drop_id)
  then show "\<exists>a b. s = a @ needle @ b" by blast
next
  assume "\<exists>a b. s = a @ needle @ b"
  then obtain a b where s: "s = a @ needle @ b" by blast
  then have "starts_with needle (drop (length a) s)" by (simp add: starts_with_iff)
  moreover have "length a \<in> set [0 ..< Suc (length s)]" using s by (simp del: upt_Suc)
  ultimately show "str_contains needle s"
    unfolding str_contains_def list_ex_iff by blast
qed

text \<open>\<open>str::split\<close> with one character.\<close>

fun split_on :: "char \<Rightarrow> string \<Rightarrow> string list" where
  "split_on c [] = [[]]"
| "split_on c (x # xs) =
     (if x = c then [] # split_on c xs
      else case split_on c xs of [] \<Rightarrow> [[x]] | y # ys \<Rightarrow> (x # y) # ys)"

lemma split_on_nonempty [simp]: "split_on c s \<noteq> []"
  by (cases s) (auto split: list.splits)

lemma split_on_free: "c \<notin> set s \<Longrightarrow> split_on c s = [s]"
  by (induction s) auto

lemma split_on_append: "c \<notin> set s \<Longrightarrow> split_on c (s @ c # t) = s # split_on c t"
  by (induction s) auto

text \<open>Splitting undoes joining of pieces without the separator.\<close>

lemma split_on_join:
  "xs \<noteq> [] \<Longrightarrow> \<forall>x\<in>set xs. c \<notin> set x \<Longrightarrow> split_on c (join_with [c] xs) = xs"
  by (induction "[c]" xs rule: join_with.induct) (auto simp: split_on_free split_on_append)

end
