(* ===== verification/Diagnostics.thy ===== *)
theory Diagnostics
  imports Rust_Prelude
begin

text \<open>
  Structured diagnostics and framework errors (\<open>crates/mads-core/src/diagnostic.rs\<close>): the
  builder functions of \<open>Diagnostic\<close>, the constructors and readers of \<open>Error\<close>, and the text both
  print. \<open>Error::diagnostic\<close> indexes the first diagnostic, so the invariant of an error is that
  it carries at least one; every constructor establishes it.
\<close>

section \<open>Codes and locations\<close>

datatype diagnostic_code = DiagnosticCode (as_str: string)

definition "MADS001 = DiagnosticCode ''MADS001''"
definition "MADS002 = DiagnosticCode ''MADS002''"
definition "MADS003 = DiagnosticCode ''MADS003''"
definition "MADS004 = DiagnosticCode ''MADS004''"
definition "MADS005 = DiagnosticCode ''MADS005''"
definition "MADS006 = DiagnosticCode ''MADS006''"
definition "MADS007 = DiagnosticCode ''MADS007''"
definition "MADS008 = DiagnosticCode ''MADS008''"
definition "MADS009 = DiagnosticCode ''MADS009''"
definition "MADS010 = DiagnosticCode ''MADS010''"
definition "MADS011 = DiagnosticCode ''MADS011''"
definition "MADS020 = DiagnosticCode ''MADS020''"
definition "MADS030 = DiagnosticCode ''MADS030''"

lemmas mads_codes = MADS001_def MADS002_def MADS003_def MADS004_def MADS005_def MADS006_def
  MADS007_def MADS008_def MADS009_def MADS010_def MADS011_def MADS020_def MADS030_def

datatype source_location = SourceLocation (loc_file: string) (loc_line: u32) (loc_column: u32)

definition location_key :: "source_location \<Rightarrow> string \<times> u32 \<times> u32" where
  "location_key l = (loc_file l, loc_line l, loc_column l)"

definition location_order :: "source_location \<Rightarrow> source_location \<Rightarrow> ordering" where
  "location_order left right =
     then_with (cmp (loc_file left) (loc_file right))
       (then_with (cmp (loc_line left) (loc_line right)) (cmp (loc_column left) (loc_column right)))"

definition optional_location_order ::
    "source_location option \<Rightarrow> source_location option \<Rightarrow> ordering" where
  "optional_location_order left right =
     (case (left, right) of
        (Some left, Some right) \<Rightarrow> location_order left right
      | (None, Some _) \<Rightarrow> Less
      | (Some _, None) \<Rightarrow> Greater
      | (None, None) \<Rightarrow> Equal)"

lemma inj_location_key: "inj location_key"
  by (auto simp: inj_def location_key_def intro: source_location.expand)

lemma location_order_eq [cmp_simps]:
  "location_order l r = cmp (location_key l) (location_key r)"
  by (simp add: location_order_def location_key_def cmp_simps)

lemma optional_location_order_eq [cmp_simps]:
  "optional_location_order l r = cmp (map_option location_key l) (map_option location_key r)"
  by (auto simp: optional_location_order_def location_order_eq cmp_option split: option.splits)

lemma location_order_cmp_on: "location_order = cmp_on location_key"
  by (simp add: fun_eq_iff cmp_on_def location_order_eq)

interpretation locations: strict_comparator location_order
  unfolding location_order_cmp_on by (rule strict_comparator_cmp_on [OF inj_location_key])

section \<open>Diagnostics\<close>

record diagnostic =
  diag_code :: diagnostic_code
  diag_title :: string
  diag_message :: string
  diag_subject :: "string option"
  diag_location :: "source_location option"
  diag_suggestions :: "string list"

definition diagnostic_new :: "diagnostic_code \<Rightarrow> string \<Rightarrow> string \<Rightarrow> diagnostic" where
  "diagnostic_new c t m =
     \<lparr>diag_code = c, diag_title = t, diag_message = m, diag_subject = None, diag_location = None, diag_suggestions = []\<rparr>"

definition with_subject :: "string \<Rightarrow> diagnostic \<Rightarrow> diagnostic" where
  "with_subject s d = d\<lparr>diag_subject := Some s\<rparr>"

definition with_location :: "source_location \<Rightarrow> diagnostic \<Rightarrow> diagnostic" where
  "with_location l d = d\<lparr>diag_location := Some l\<rparr>"

definition with_suggestion :: "string \<Rightarrow> diagnostic \<Rightarrow> diagnostic" where
  "with_suggestion s d = d\<lparr>diag_suggestions := diag_suggestions d @ [s]\<rparr>"

lemmas diagnostic_builders =
  diagnostic_new_def with_subject_def with_location_def with_suggestion_def

abbreviation newline :: string where
  "newline \<equiv> [CHR 0x0A]"

definition show_u32 :: "u32 \<Rightarrow> string" where
  "show_u32 w = nat_digits (unat w)"

definition display_diagnostic :: "diagnostic \<Rightarrow> string" where
  "display_diagnostic d =
     ''error['' @ as_str (diag_code d) @ '']: '' @ diag_title d
     @ (case diag_location d of
          None \<Rightarrow> []
        | Some l \<Rightarrow> newline @ ''  --> '' @ loc_file l @ '':'' @ show_u32 (loc_line l) @ '':''
            @ show_u32 (loc_column l))
     @ (case diag_subject d of None \<Rightarrow> [] | Some s \<Rightarrow> newline @ ''  = subject: '' @ s)
     @ newline @ ''  = '' @ diag_message d
     @ concat (map (\<lambda>s. newline @ ''  help: '' @ s) (diag_suggestions d))"

section \<open>Errors\<close>

text \<open>A cause is a framework error or an error of another library, known by its text.\<close>

datatype error = Error (err_diagnostics: "diagnostic list") (err_source: "error_source option")
  and error_source = FrameworkSource error | ForeignSource string

definition error_new :: "diagnostic \<Rightarrow> error" where
  "error_new d = Error [d] None"

definition from_diagnostics :: "diagnostic \<Rightarrow> diagnostic list \<Rightarrow> error" where
  "from_diagnostics primary related = Error (primary # related) None"

definition with_related_diagnostics :: "diagnostic list \<Rightarrow> error \<Rightarrow> error" where
  "with_related_diagnostics related e = Error (err_diagnostics e @ related) (err_source e)"

definition with_source :: "diagnostic \<Rightarrow> error_source \<Rightarrow> error" where
  "with_source d cause = Error [d] (Some cause)"

lemmas error_builders =
  error_new_def from_diagnostics_def with_related_diagnostics_def with_source_def

definition error_diagnostic :: "error \<Rightarrow> panic + diagnostic" where
  "error_diagnostic e =
     (case err_diagnostics e of [] \<Rightarrow> Inl (Panic ''index out of bounds'') | d # _ \<Rightarrow> Inr d)"

definition error_code :: "error \<Rightarrow> panic + diagnostic_code" where
  "error_code e = and_then (error_diagnostic e) (\<lambda>d. Inr (diag_code d))"

definition display_error :: "error \<Rightarrow> string" where
  "display_error e =
     concat (map (\<lambda>(index, d). (if 0 < index then newline @ newline else []) @ display_diagnostic d)
       (List.enumerate 0 (err_diagnostics e)))"

definition error_ok :: "error \<Rightarrow> bool" where
  "error_ok e \<longleftrightarrow> err_diagnostics e \<noteq> []"

lemma error_ok_builders [intro, simp]:
  "error_ok (error_new d)"
  "error_ok (from_diagnostics d ds)"
  "error_ok (with_source d cause)"
  "error_ok e \<Longrightarrow> error_ok (with_related_diagnostics ds e)"
  by (simp_all add: error_ok_def error_builders)

lemma error_code_ok [panic_free]: "error_ok e \<Longrightarrow> error_code e = Inr (diag_code (hd (err_diagnostics e)))"
  by (auto simp: error_ok_def error_code_def error_diagnostic_def split: list.splits)

lemma error_code_builders [simp]:
  "error_code (error_new d) = Inr (diag_code d)"
  "error_code (from_diagnostics d ds) = Inr (diag_code d)"
  "error_code (with_source d cause) = Inr (diag_code d)"
  by (simp_all add: error_code_def error_diagnostic_def error_builders)

lemma error_code_related: "error_ok e \<Longrightarrow> error_code (with_related_diagnostics ds e) = error_code e"
  by (auto simp: error_ok_def error_code_def error_diagnostic_def error_builders split: list.splits)

lemma concat_enumerate_join:
  "concat (map (\<lambda>(i, d). (if 0 < i then sep else []) @ f d) (List.enumerate (Suc n) ds)) =
     concat (map (\<lambda>d. sep @ f d) ds)"
  by (induction ds arbitrary: n) auto

lemma concat_join: "x @ concat (map (\<lambda>d. sep @ f d) ds) = join_with sep (x # map f ds)"
  by (simp add: join_with_Cons comp_def)

text \<open>An error prints its diagnostics in report order, separated by an empty line.\<close>

lemma display_error_join:
  "display_error e = join_with (newline @ newline) (map display_diagnostic (err_diagnostics e))"
proof (cases "err_diagnostics e")
  case (Cons d ds)
  then show ?thesis
    using concat_enumerate_join [of "newline @ newline" display_diagnostic 0 ds]
      concat_join [of "display_diagnostic d" "newline @ newline" display_diagnostic ds]
    by (simp add: display_error_def)
qed (simp add: display_error_def)

section \<open>Failing computations\<close>

text \<open>
  A function that returns \<open>Result<_, Error>\<close> and contains an \<open>expect\<close> can fail in two ways.
\<close>

datatype failure = Panicked panic | Failed error

definition or_panic :: "panic + 'a \<Rightarrow> failure + 'a" where
  "or_panic r = (case r of Inl p \<Rightarrow> Inl (Panicked p) | Inr x \<Rightarrow> Inr x)"

definition or_error :: "error + 'a \<Rightarrow> failure + 'a" where
  "or_error r = (case r of Inl e \<Rightarrow> Inl (Failed e) | Inr x \<Rightarrow> Inr x)"

text \<open>\<open>return Err(e)\<close> where computing \<open>e\<close> can itself panic.\<close>

definition fail_with :: "panic + error \<Rightarrow> failure + 'a" where
  "fail_with r = (case r of Inl p \<Rightarrow> Inl (Panicked p) | Inr e \<Rightarrow> Inl (Failed e))"

lemma or_simps [simp]:
  "or_panic (Inl p) = Inl (Panicked p)" "or_panic (Inr x) = Inr x"
  "or_error (Inl e) = Inl (Failed e)" "or_error (Inr x) = Inr x"
  "fail_with (Inl p) = Inl (Panicked p)" "fail_with (Inr e) = Inl (Failed e)"
  by (simp_all add: or_panic_def or_error_def fail_with_def)

text \<open>An outcome that is no panic, and whose error is well formed.\<close>

fun outcome_ok :: "failure + 'a \<Rightarrow> bool" where
  "outcome_ok (Inl (Panicked p)) = False"
| "outcome_ok (Inl (Failed e)) = error_ok e"
| "outcome_ok (Inr x) = True"

end
