(* ===== verification/Auto_Report.thy ===== *)
theory Auto_Report
  imports Diagnostics
begin

text \<open>
  Public reports of auto-configuration decisions
  (\<open>crates/mads-core/src/auto_configuration/report.rs\<close>). A report must not carry a configured
  value, so both texts that an integration supplies, the explanation and the source label, are
  replaced by one of a fixed set of texts before they are stored (\<open>report_public\<close>).
\<close>

definition "REDACTED = ''<redacted>''"

text \<open>\<open>Path::file_name\<close> on a Unix path: the last component, unless it is a parent directory.\<close>

definition path_file_name :: "string \<Rightarrow> string option" where
  "path_file_name path =
     (case rev (filter (\<lambda>c. c \<noteq> [] \<and> c \<noteq> ''.'') (split_on (CHR ''/'') path)) of
        [] \<Rightarrow> None
      | c # _ \<Rightarrow> if c = ''..'' then None else Some c)"

definition safe_source_label :: "string \<Rightarrow> string" where
  "safe_source_label value =
     (if value = ''defaults'' then ''defaults''
      else if value = ''environment'' then ''environment''
      else if value = ''mads.toml'' then ''mads.toml''
      else if value = ''test'' then ''test''
      else if path_file_name value = Some ''mads.toml'' then ''mads.toml''
      else REDACTED)"

datatype auto_status = Active | Skipped | Overridden | FailedStatus

datatype reason_code = ReasonCode (reason_str: string)

definition safe_explanation :: "reason_code \<Rightarrow> string \<Rightarrow> string" where
  "safe_explanation reason explanation =
     (if explanation = ''Database is required and configured''
      then ''Database is required and configured''
      else if explanation = ''Database is required and configured with startup migrations disabled''
      then ''Database is required and configured with startup migrations disabled''
      else if reason_str reason = ''conditions_matched'' then ''Auto-configuration conditions matched''
      else if reason_str reason = ''requirement_absent''
      then ''No provider requires this auto-configuration''
      else if reason_str reason = ''user_override''
      then ''An application provider overrides this auto-configuration''
      else if reason_str reason = ''missing_configuration'' then ''Required configuration is missing''
      else if reason_str reason = ''invalid_configuration'' then ''Required configuration is invalid''
      else if reason_str reason = ''missing_migration_source''
      then ''A required migration source is missing''
      else if reason_str reason = ''provisioning_failed''
      then ''Auto-configuration provisioning failed''
      else if reason_str reason = ''duplicate_identifier''
      then ''An auto-configuration identifier is duplicated''
      else if reason_str reason = ''conflicting_default'' then ''Auto-configuration defaults conflict''
      else REDACTED)"

record auto_requirement =
  ar_provider_type_name :: string
  ar_location :: "source_location option"

record auto_evidence =
  ev_key :: string
  ev_source :: "string option"

definition evidence_new :: "string \<Rightarrow> string option \<Rightarrow> auto_evidence" where
  "evidence_new key label = \<lparr>ev_key = key, ev_source = map_option safe_source_label label\<rparr>"

record auto_report =
  rep_identifier :: string
  rep_output_type_name :: string
  rep_status :: auto_status
  rep_reason_code :: reason_code
  rep_explanation :: string
  rep_requirements :: "auto_requirement list"
  rep_configuration :: "auto_evidence list"

definition report_new ::
    "string \<Rightarrow> string \<Rightarrow> auto_status \<Rightarrow> reason_code \<Rightarrow> string \<Rightarrow> auto_requirement list \<Rightarrow>
     auto_evidence list \<Rightarrow> auto_report" where
  "report_new identifier output_type_name status reason explanation requirements configuration =
     \<lparr>rep_identifier = identifier, rep_output_type_name = output_type_name, rep_status = status,
      rep_reason_code = reason, rep_explanation = safe_explanation reason explanation,
      rep_requirements = requirements, rep_configuration = configuration\<rparr>"

section \<open>Redaction\<close>

definition public_labels :: "string set" where
  "public_labels = {''defaults'', ''environment'', ''mads.toml'', ''test'', REDACTED}"

definition public_explanations :: "string set" where
  "public_explanations =
     {''Database is required and configured'',
      ''Database is required and configured with startup migrations disabled'',
      ''Auto-configuration conditions matched'',
      ''No provider requires this auto-configuration'',
      ''An application provider overrides this auto-configuration'',
      ''Required configuration is missing'', ''Required configuration is invalid'',
      ''A required migration source is missing'', ''Auto-configuration provisioning failed'',
      ''An auto-configuration identifier is duplicated'',
      ''Auto-configuration defaults conflict'', REDACTED}"

lemma safe_source_label_public: "safe_source_label v \<in> public_labels"
  by (simp add: safe_source_label_def public_labels_def)

lemma safe_explanation_public: "safe_explanation r e \<in> public_explanations"
  by (simp add: safe_explanation_def public_explanations_def)

text \<open>
  Two reports that differ in the supplied texts differ in public texts only: nothing else of the
  supplied explanation and label can be read from a report.
\<close>

definition report_public :: "auto_report \<Rightarrow> bool" where
  "report_public r \<longleftrightarrow>
     rep_explanation r \<in> public_explanations \<and>
     (\<forall>e\<in>set (rep_configuration r). \<forall>l. ev_source e = Some l \<longrightarrow> l \<in> public_labels)"

text \<open>
  A public report shows none of the texts an integration supplies: its explanation and the
  labels of its evidence come from fixed sets of public texts.
\<close>

theorem report_new_redacted:
  "report_public (report_new i t s r e reqs (map (\<lambda>(k, l). evidence_new k l) evidence))"
  by (auto simp: report_public_def report_new_def safe_explanation_public evidence_new_def
      safe_source_label_public)

end
