(* ===== verification/BTree.thy ===== *)
theory BTree
  imports Rust_Prelude
begin

text \<open>
  \<open>BTreeMap\<close> and \<open>BTreeSet\<close> of the Rust standard library, as lists kept in strictly ascending
  key order, which is the order their iterators give. The locales \<open>ordered_map\<close> and
  \<open>min_queue\<close> are the contracts the components rely on; the lists are interpreted as both.
\<close>

section \<open>Sorted association lists\<close>

type_synonym ('k, 'v) btree_map = "('k \<times> 'v) list"

definition bmap_get :: "'k \<Rightarrow> ('k, 'v) btree_map \<Rightarrow> 'v option" where
  "bmap_get k m = map_of m k"

fun bmap_insert :: "'k::linorder \<Rightarrow> 'v \<Rightarrow> ('k, 'v) btree_map \<Rightarrow> ('k, 'v) btree_map" where
  "bmap_insert k v [] = [(k, v)]"
| "bmap_insert k v (e # m) =
     (if fst e < k then e # bmap_insert k v m
      else if fst e = k then (k, v) # m
      else (k, v) # e # m)"

definition bmap_remove :: "'k \<Rightarrow> ('k, 'v) btree_map \<Rightarrow> ('k, 'v) btree_map" where
  "bmap_remove k m = filter (\<lambda>e. fst e \<noteq> k) m"

definition bmap_ok :: "('k::linorder, 'v) btree_map \<Rightarrow> bool" where
  "bmap_ok m \<longleftrightarrow> sorted_wrt (<) (map fst m)"

definition bmap_keys :: "('k, 'v) btree_map \<Rightarrow> 'k list" where
  "bmap_keys m = map fst m"

definition bmap_of_list :: "('k::linorder \<times> 'v) list \<Rightarrow> ('k, 'v) btree_map" where
  "bmap_of_list kvs = fold (\<lambda>(k, v) m. bmap_insert k v m) kvs []"

locale ordered_map =
  fixes empty :: "'m"
    and insert :: "'k::linorder \<Rightarrow> 'v \<Rightarrow> 'm \<Rightarrow> 'm"
    and remove :: "'k \<Rightarrow> 'm \<Rightarrow> 'm"
    and get :: "'k \<Rightarrow> 'm \<Rightarrow> 'v option"
    and entries :: "'m \<Rightarrow> ('k \<times> 'v) list"
    and ok :: "'m \<Rightarrow> bool"
  assumes ok_empty: "ok empty"
    and ok_insert: "ok m \<Longrightarrow> ok (insert k v m)"
    and ok_remove: "ok m \<Longrightarrow> ok (remove k m)"
    and get_empty: "get k empty = None"
    and get_insert: "ok m \<Longrightarrow> get j (insert k v m) = (if j = k then Some v else get j m)"
    and get_remove: "ok m \<Longrightarrow> get j (remove k m) = (if j = k then None else get j m)"
    and get_entries: "ok m \<Longrightarrow> get k m = Some v \<longleftrightarrow> (k, v) \<in> set (entries m)"
    and entries_sorted: "ok m \<Longrightarrow> sorted_wrt (<) (map fst (entries m))"
begin

definition insert_all :: "('k \<times> 'v) list \<Rightarrow> 'm \<Rightarrow> 'm" where
  "insert_all kvs m = fold (\<lambda>(k, v). insert k v) kvs m"

lemma ok_insert_all: "ok m \<Longrightarrow> ok (insert_all kvs m)"
  unfolding insert_all_def by (induction kvs arbitrary: m) (auto simp: ok_insert)

text \<open>Inserting a sequence: the last value for a key wins.\<close>

lemma get_insert_all:
  "ok m \<Longrightarrow> get j (insert_all kvs m) =
     (case map_of (rev kvs) j of Some v \<Rightarrow> Some v | None \<Rightarrow> get j m)"
  unfolding insert_all_def
proof (induction kvs arbitrary: m)
  case (Cons kv kvs)
  obtain k v where kv: "kv = (k, v)" by (cases kv)
  from Cons.prems have "ok (insert k v m)" by (rule ok_insert)
  from Cons.IH [OF this] show ?case
    by (auto simp: kv get_insert Cons.prems map_add_def split: option.splits)
qed simp

lemma entries_ext:
  assumes "ok m" "ok n" "\<And>k. get k m = get k n"
  shows "entries m = entries n"
proof -
  have "set (entries m) = set (entries n)"
    using get_entries [OF assms(1)] get_entries [OF assms(2)] assms(3)
    by (auto simp: set_eq_iff)
  moreover have "inj_on fst (set (entries n))"
    using get_entries [OF assms(2)] by (auto simp: inj_on_def) (metis option.inject)
  ultimately show ?thesis
    using entries_sorted [OF assms(1)] entries_sorted [OF assms(2)]
    by (metis list.set_map strict_sorted_equal map_injective inj_on_map_eq_map
        sup.idem)
qed

end

lemma bmap_ok_distinct: "bmap_ok m \<Longrightarrow> distinct (map fst m)"
  by (simp add: bmap_ok_def strict_sorted_iff)

lemma fst_set_bmap_insert: "fst ` set (bmap_insert k v m) = insert k (fst ` set m)"
  by (induction m) auto

lemma bmap_ok_insert: "bmap_ok m \<Longrightarrow> bmap_ok (bmap_insert k v m)"
  by (induction m) (auto simp: bmap_ok_def fst_set_bmap_insert less_trans)

lemma bmap_get_insert:
  "bmap_ok m \<Longrightarrow> bmap_get j (bmap_insert k v m) = (if j = k then Some v else bmap_get j m)"
proof (induction m)
  case (Cons e m)
  then have "bmap_ok m" by (simp add: bmap_ok_def)
  with Cons.IH show ?case by (cases e) (auto simp: bmap_get_def)
qed (simp add: bmap_get_def)

lemma bmap_get_remove: "bmap_get j (bmap_remove k m) = (if j = k then None else bmap_get j m)"
  by (induction m) (auto simp: bmap_get_def bmap_remove_def)

lemma bmap_ok_remove: "bmap_ok m \<Longrightarrow> bmap_ok (bmap_remove k m)"
  unfolding bmap_ok_def bmap_remove_def
  by (induction m) auto

lemma bmap_get_entries: "bmap_ok m \<Longrightarrow> bmap_get k m = Some v \<longleftrightarrow> (k, v) \<in> set m"
  by (simp add: bmap_get_def bmap_ok_distinct)

interpretation bmap: ordered_map "[]" bmap_insert bmap_remove bmap_get "\<lambda>m. m" bmap_ok
  by unfold_locales
    (simp_all add: bmap_get_insert bmap_get_remove bmap_ok_insert bmap_ok_remove
      bmap_get_entries, simp_all add: bmap_get_def bmap_ok_def)

lemma bmap_of_list_insert_all: "bmap_of_list kvs = bmap.insert_all kvs []"
  by (simp add: bmap_of_list_def bmap.insert_all_def)

lemma bmap_ok_of_list [simp]: "bmap_ok (bmap_of_list kvs)"
  by (simp add: bmap_of_list_insert_all bmap.ok_insert_all bmap.ok_empty)

lemma bmap_get_of_list: "bmap_get j (bmap_of_list kvs) = map_of (rev kvs) j"
  using bmap.get_insert_all [OF bmap.ok_empty, of j kvs] bmap.get_empty [of j]
  by (simp add: bmap_of_list_insert_all split: option.splits)

section \<open>Sorted sets and \<open>pop_first\<close>\<close>

type_synonym 'a btree_set = "'a list"

fun bset_insert :: "'a::linorder \<Rightarrow> 'a btree_set \<Rightarrow> 'a btree_set" where
  "bset_insert x [] = [x]"
| "bset_insert x (y # ys) =
     (if y < x then y # bset_insert x ys else if y = x then y # ys else x # y # ys)"

fun bset_pop_first :: "'a btree_set \<Rightarrow> ('a \<times> 'a btree_set) option" where
  "bset_pop_first [] = None"
| "bset_pop_first (x # xs) = Some (x, xs)"

definition bset_ok :: "'a::linorder btree_set \<Rightarrow> bool" where
  "bset_ok s \<longleftrightarrow> sorted_wrt (<) s"

definition bset_of_list :: "'a::linorder list \<Rightarrow> 'a btree_set" where
  "bset_of_list xs = fold bset_insert xs []"

locale min_queue =
  fixes empty :: "'q"
    and push :: "'a::linorder \<Rightarrow> 'q \<Rightarrow> 'q"
    and pop :: "'q \<Rightarrow> ('a \<times> 'q) option"
    and elems :: "'q \<Rightarrow> 'a set"
    and ok :: "'q \<Rightarrow> bool"
  assumes ok_empty: "ok empty"
    and ok_push: "ok q \<Longrightarrow> ok (push x q)"
    and ok_pop: "ok q \<Longrightarrow> pop q = Some (x, q') \<Longrightarrow> ok q'"
    and elems_empty: "elems empty = {}"
    and elems_push: "elems (push x q) = insert x (elems q)"
    and elems_finite: "finite (elems q)"
    and pop_None: "pop q = None \<longleftrightarrow> elems q = {}"
    and pop_min: "ok q \<Longrightarrow> pop q = Some (x, q') \<Longrightarrow>
      x \<in> elems q \<and> (\<forall>y\<in>elems q. x \<le> y) \<and> elems q' = elems q - {x}"
begin

definition push_all :: "'a list \<Rightarrow> 'q \<Rightarrow> 'q" where
  "push_all xs q = fold push xs q"

lemma ok_push_all: "ok q \<Longrightarrow> ok (push_all xs q)"
  unfolding push_all_def by (induction xs arbitrary: q) (auto intro: ok_push)

lemma elems_push_all: "elems (push_all xs q) = set xs \<union> elems q"
  unfolding push_all_def by (induction xs arbitrary: q) (auto simp: elems_push)

lemma pop_is_Min:
  assumes "ok q" "pop q = Some (x, q')"
  shows "x = Min (elems q)"
  using pop_min [OF assms] elems_finite [of q] by (metis Min_eqI)

end

lemma set_bset_insert [simp]: "set (bset_insert x s) = insert x (set s)"
  by (induction s) auto

lemma bset_ok_insert: "bset_ok s \<Longrightarrow> bset_ok (bset_insert x s)"
  unfolding bset_ok_def by (induction s) auto

lemma length_bset_insert_le: "length (bset_insert x s) \<le> Suc (length s)"
  by (induction s) auto

lemma bset_ok_distinct: "bset_ok s \<Longrightarrow> distinct s"
  by (simp add: bset_ok_def strict_sorted_iff)

lemma bset_pop_first_None [simp]: "bset_pop_first s = None \<longleftrightarrow> s = []"
  by (cases s) auto

lemma bset_pop_first_Some [simp]: "bset_pop_first s = Some (x, s') \<longleftrightarrow> s = x # s'"
  by (cases s) auto

interpretation bset: min_queue "[]" bset_insert bset_pop_first set bset_ok
  by unfold_locales (auto simp: bset_ok_insert, auto simp: bset_ok_def less_imp_le)

lemma set_bset_of_list [simp]: "set (bset_of_list xs) = set xs"
  using bset.elems_push_all [of xs "[]"] by (simp add: bset_of_list_def bset.push_all_def)

lemma bset_ok_of_list [simp]: "bset_ok (bset_of_list xs)"
  using bset.ok_push_all [OF bset.ok_empty, of xs] by (simp add: bset_of_list_def bset.push_all_def)

text \<open>A sorted set is determined by its elements.\<close>

lemma bset_ext: "bset_ok s \<Longrightarrow> bset_ok t \<Longrightarrow> set s = set t \<Longrightarrow> s = t"
  unfolding bset_ok_def by (rule strict_sorted_equal) auto

end
