(* ===== verification/Catalog.thy ===== *)
theory Catalog
  imports Diagnostics BTree
begin

text \<open>
  Static metadata (\<open>crates/mads-core/src/descriptor.rs\<close>), its deterministic listing and lookup
  (\<open>catalog.rs\<close>) and the typed store of constructed values (\<open>registry.rs\<close>).

  A \<open>TypeId\<close> is a number; a factory \<open>fn() -> TypeId\<close> is the identifier it returns. A provider
  constructor is a function pointer: user code that the builder calls, given to the model of the
  builder as a parameter. What \<open>inventory\<close> links into the program is the list \<open>registered\<close>.
\<close>

section \<open>Descriptors\<close>

datatype provider_kind = Service | Repository | Provider

datatype provider_visibility = Public | Private

fun kind_rank :: "provider_kind \<Rightarrow> nat" where
  "kind_rank Service = 0"
| "kind_rank Repository = 1"
| "kind_rank Provider = 2"

lemma kind_rank_inject [simp]: "kind_rank a = kind_rank b \<longleftrightarrow> a = b"
  by (cases a; cases b) simp_all

instantiation provider_kind :: linorder
begin

definition less_eq_provider_kind :: "provider_kind \<Rightarrow> provider_kind \<Rightarrow> bool" where
  "less_eq_provider_kind a b \<longleftrightarrow> kind_rank a \<le> kind_rank b"

definition less_provider_kind :: "provider_kind \<Rightarrow> provider_kind \<Rightarrow> bool" where
  "less_provider_kind a b \<longleftrightarrow> kind_rank a < kind_rank b"

instance
  by standard (auto simp: less_eq_provider_kind_def less_provider_kind_def)

end

record module_import_descriptor =
  imp_type_name :: string
  imp_type_id :: type_id

record dependency_descriptor =
  dep_type_name :: string
  dep_type_id :: type_id

type_synonym constructor_ref = nat

record provider_descriptor =
  pd_kind :: provider_kind
  pd_type_name :: string
  pd_type_id :: type_id
  pd_runtime_type_name :: "string option"
  pd_namespace :: "string option"
  pd_dependencies :: "dependency_descriptor list"
  pd_visibility :: provider_visibility
  pd_location :: source_location
  pd_constructor :: constructor_ref

definition provider_descriptor_new ::
    "provider_kind \<Rightarrow> string \<Rightarrow> type_id \<Rightarrow> dependency_descriptor list \<Rightarrow> provider_visibility
     \<Rightarrow> source_location \<Rightarrow> constructor_ref \<Rightarrow> provider_descriptor" where
  "provider_descriptor_new kind type_name type_id dependencies visibility location constructor =
     \<lparr>pd_kind = kind, pd_type_name = type_name, pd_type_id = type_id,
      pd_runtime_type_name = None, pd_namespace = None, pd_dependencies = dependencies,
      pd_visibility = visibility, pd_location = location, pd_constructor = constructor\<rparr>"

definition with_runtime_type_name :: "string \<Rightarrow> provider_descriptor \<Rightarrow> provider_descriptor" where
  "with_runtime_type_name n d = d\<lparr>pd_runtime_type_name := Some n\<rparr>"

definition provider_with_namespace :: "string \<Rightarrow> provider_descriptor \<Rightarrow> provider_descriptor" where
  "provider_with_namespace n d = d\<lparr>pd_namespace := Some n\<rparr>"

record module_descriptor =
  md_type_name :: string
  md_type_id :: type_id
  md_namespace :: "string option"
  md_imports :: "module_import_descriptor list"
  md_location :: source_location

definition module_descriptor_new :: "string \<Rightarrow> type_id \<Rightarrow> source_location \<Rightarrow> module_descriptor" where
  "module_descriptor_new type_name type_id location =
     \<lparr>md_type_name = type_name, md_type_id = type_id, md_namespace = None, md_imports = [],
      md_location = location\<rparr>"

definition module_with_namespace :: "string \<Rightarrow> module_descriptor \<Rightarrow> module_descriptor" where
  "module_with_namespace n d = d\<lparr>md_namespace := Some n\<rparr>"

definition module_with_imports ::
    "module_import_descriptor list \<Rightarrow> module_descriptor \<Rightarrow> module_descriptor" where
  "module_with_imports imports d = d\<lparr>md_imports := imports\<rparr>"

section \<open>The catalog\<close>

definition descriptor_order :: "provider_descriptor \<Rightarrow> provider_descriptor \<Rightarrow> ordering" where
  "descriptor_order left right =
     then_with (cmp (pd_type_name left) (pd_type_name right))
       (then_with (cmp (pd_kind left) (pd_kind right))
         (location_order (pd_location left) (pd_location right)))"

definition module_order :: "module_descriptor \<Rightarrow> module_descriptor \<Rightarrow> ordering" where
  "module_order left right =
     then_with (cmp (md_type_name left) (md_type_name right))
       (location_order (md_location left) (md_location right))"

definition catalog_providers :: "provider_descriptor list \<Rightarrow> provider_descriptor list" where
  "catalog_providers registered = sort_by descriptor_order registered"

definition catalog_modules :: "module_descriptor list \<Rightarrow> module_descriptor list" where
  "catalog_modules registered = sort_by module_order registered"

definition exact_identity :: "provider_descriptor \<Rightarrow> provider_descriptor \<Rightarrow> bool" where
  "exact_identity left right \<longleftrightarrow>
     pd_type_id left = pd_type_id right
     \<and> pd_kind left = pd_kind right
     \<and> pd_type_name left = pd_type_name right
     \<and> pd_namespace left = pd_namespace right
     \<and> pd_visibility left = pd_visibility right
     \<and> pd_location left = pd_location right
     \<and> length (pd_dependencies left) = length (pd_dependencies right)
     \<and> list_all (\<lambda>(l, r). dep_type_id l = dep_type_id r)
         (zip (pd_dependencies left) (pd_dependencies right))"

definition module_exact_identity :: "module_descriptor \<Rightarrow> module_descriptor \<Rightarrow> bool" where
  "module_exact_identity left right \<longleftrightarrow>
     md_type_id left = md_type_id right
     \<and> md_type_name left = md_type_name right
     \<and> md_namespace left = md_namespace right
     \<and> md_location left = md_location right
     \<and> length (md_imports left) = length (md_imports right)
     \<and> list_all (\<lambda>(l, r). imp_type_id l = imp_type_id r \<and> imp_type_name l = imp_type_name r)
         (zip (md_imports left) (md_imports right))"

definition catalog_error :: "diagnostic_code \<Rightarrow> string \<Rightarrow> string \<Rightarrow> string \<Rightarrow> error" where
  "catalog_error c t m type_name = error_new (with_subject type_name (diagnostic_new c t m))"

definition module_for ::
    "module_descriptor list \<Rightarrow> type_id \<Rightarrow> string \<Rightarrow> error + module_descriptor" where
  "module_for registered type_id type_name =
     (case filter (\<lambda>d. md_type_id d = type_id) (catalog_modules registered) of
        [] \<Rightarrow> Inl (catalog_error MADS003 ''missing module metadata''
                 ''no statically declared module exists for this type'' type_name)
      | [m] \<Rightarrow> Inr m
      | first # rest \<Rightarrow>
          if list_all (module_exact_identity first) rest
          then Inl (catalog_error MADS001 ''duplicate module declaration''
                 ''the same module declaration was registered more than once'' type_name)
          else Inl (catalog_error MADS002 ''ambiguous module declaration''
                 ''multiple module declarations describe the same module type'' type_name))"

definition provider_for ::
    "provider_descriptor list \<Rightarrow> type_id \<Rightarrow> string \<Rightarrow> error + provider_descriptor" where
  "provider_for registered type_id type_name =
     (case filter (\<lambda>d. pd_type_id d = type_id) (catalog_providers registered) of
        [] \<Rightarrow> Inl (catalog_error MADS003 ''missing provider''
                 ''no statically declared provider exists for this type'' type_name)
      | [p] \<Rightarrow> Inr p
      | first # rest \<Rightarrow>
          if list_all (exact_identity first) rest
          then Inl (catalog_error MADS001 ''duplicate provider declaration''
                 ''the same provider declaration was registered more than once'' type_name)
          else Inl (catalog_error MADS002 ''ambiguous provider binding''
                 ''multiple provider declarations produce the same concrete type'' type_name))"

subsection \<open>Order and identity\<close>

lemma descriptor_order_cmp_on:
  "descriptor_order = cmp_on (\<lambda>d. (pd_type_name d, pd_kind d, location_key (pd_location d)))"
  by (simp add: fun_eq_iff descriptor_order_def cmp_on_def cmp_simps)

lemma module_order_cmp_on:
  "module_order = cmp_on (\<lambda>d. (md_type_name d, location_key (md_location d)))"
  by (simp add: fun_eq_iff module_order_def cmp_on_def cmp_simps)

interpretation providers: comparator descriptor_order
  unfolding descriptor_order_cmp_on by (rule comparator_cmp_on)

interpretation modules: comparator module_order
  unfolding module_order_cmp_on by (rule comparator_cmp_on)

lemma list_all_zip_map:
  "length xs = length ys \<Longrightarrow>
   list_all (\<lambda>(l, r). f l = f r) (zip xs ys) \<longleftrightarrow> map f xs = map f ys"
  by (induction xs ys rule: list_induct2) auto

definition identity_key ::
    "provider_descriptor \<Rightarrow> type_id \<times> provider_kind \<times> string \<times> string option
       \<times> provider_visibility \<times> source_location \<times> type_id list" where
  "identity_key d = (pd_type_id d, pd_kind d, pd_type_name d, pd_namespace d, pd_visibility d,
     pd_location d, map dep_type_id (pd_dependencies d))"

lemma exact_identity_iff: "exact_identity a b \<longleftrightarrow> identity_key a = identity_key b"
  using list_all_zip_map [of "pd_dependencies a" "pd_dependencies b" dep_type_id]
  by (auto simp: exact_identity_def identity_key_def dest: map_eq_imp_length_eq)

lemma exact_identity_refl [simp]: "exact_identity a a"
  by (simp add: exact_identity_iff)

lemma exact_identity_type_id: "exact_identity a b \<Longrightarrow> pd_type_id a = pd_type_id b"
  by (simp add: exact_identity_def)

subsection \<open>Lookup\<close>

lemma mset_filter_sort_by:
  "mset (filter p (sort_by order xs)) = mset (filter p xs)"
  by simp

lemma filter_sort_by_singleton:
  "filter p (sort_by order xs) = [x] \<longleftrightarrow> filter p xs = [x]"
  by (metis mset_filter_sort_by mset_single_iff_right mset_single_iff)

lemma filter_sort_by_Nil: "filter p (sort_by order xs) = [] \<longleftrightarrow> filter p xs = []"
  by (simp add: filter_empty_conv)

lemma provider_for_Ok:
  "provider_for registered t n = Inr d \<longleftrightarrow> filter (\<lambda>d. pd_type_id d = t) registered = [d]"
  unfolding provider_for_def catalog_providers_def
  using filter_sort_by_singleton [of "\<lambda>d. pd_type_id d = t" descriptor_order registered d]
  by (auto split: list.splits)

section \<open>The provider registry\<close>

text \<open>
  An erased value knows its own type, which is what \<open>Arc::downcast\<close> compares. The order of the
  \<open>HashMap\<close> is never observed, so the finite map is kept sorted here.
\<close>

record 'v erased_provider =
  er_type_id :: type_id
  er_value :: 'v

type_synonym 'v registry = "(type_id, 'v erased_provider) btree_map"

definition registry_new :: "'v registry" where
  "registry_new = []"

definition registry_contains :: "type_id \<Rightarrow> 'v registry \<Rightarrow> bool" where
  "registry_contains t r \<longleftrightarrow> bmap_get t r \<noteq> None"

definition insert_erased ::
    "type_id \<Rightarrow> string \<Rightarrow> 'v erased_provider \<Rightarrow> 'v registry \<Rightarrow> error + 'v registry" where
  "insert_erased t type_name v r =
     (if registry_contains t r
      then Inl (catalog_error MADS001 ''duplicate provider''
             ''an application-scoped provider is already registered for this type'' type_name)
      else Inr (bmap_insert t v r))"

definition registry_insert :: "type_id \<Rightarrow> string \<Rightarrow> 'v \<Rightarrow> 'v registry \<Rightarrow> error + 'v registry" where
  "registry_insert t type_name v r =
     insert_erased t type_name \<lparr>er_type_id = t, er_value = v\<rparr> r"

definition resolve :: "type_id \<Rightarrow> string \<Rightarrow> 'v registry \<Rightarrow> error + 'v" where
  "resolve t type_name r =
     (case bmap_get t r of
        None \<Rightarrow> Inl (catalog_error MADS003 ''missing provider''
                  ''no application-scoped provider is registered for this type'' type_name)
      | Some p \<Rightarrow>
          if er_type_id p = t then Inr (er_value p)
          else Inl (catalog_error MADS004 ''provider type mismatch''
            ''the provider registry contains a value that does not match its type identifier''
            type_name))"

definition registry_len :: "'v registry \<Rightarrow> nat" where
  "registry_len r = length r"

definition registry_is_empty :: "'v registry \<Rightarrow> bool" where
  "registry_is_empty r \<longleftrightarrow> r = []"

text \<open>The invariant: a map, and every value is stored under its own type.\<close>

definition registry_ok :: "'v registry \<Rightarrow> bool" where
  "registry_ok r \<longleftrightarrow> bmap_ok r"

definition registry_typed :: "'v registry \<Rightarrow> bool" where
  "registry_typed r \<longleftrightarrow> (\<forall>(t, p)\<in>set r. er_type_id p = t)"

lemma registry_ok_new [simp]: "registry_ok registry_new" "registry_typed registry_new"
  by (simp_all add: registry_ok_def registry_new_def bmap_ok_def registry_typed_def)

lemma insert_erased_ok: "registry_ok r \<Longrightarrow> insert_erased t n v r = Inr r' \<Longrightarrow> registry_ok r'"
  by (auto simp: insert_erased_def registry_ok_def bmap_ok_insert split: if_splits)

lemma insert_erased_get:
  "registry_ok r \<Longrightarrow> insert_erased t n v r = Inr r' \<Longrightarrow>
   bmap_get t r = None \<and> (\<forall>u. bmap_get u r' = (if u = t then Some v else bmap_get u r))"
  by (auto simp: insert_erased_def registry_ok_def registry_contains_def bmap.get_insert
      split: if_splits)

lemma registry_typed_get:
  "registry_ok r \<Longrightarrow> registry_typed r \<longleftrightarrow> (\<forall>t p. bmap_get t r = Some p \<longrightarrow> er_type_id p = t)"
  by (auto simp: registry_typed_def registry_ok_def bmap.get_entries)

lemma insert_erased_typed:
  assumes "registry_ok r" "registry_typed r" "er_type_id v = t" "insert_erased t n v r = Inr r'"
  shows "registry_typed r'"
  using insert_erased_get [OF assms(1,4)] insert_erased_ok [OF assms(1,4)] assms(1-3)
  by (auto simp: registry_typed_get)

lemma insert_erased_len:
  "registry_ok r \<Longrightarrow> insert_erased t n v r = Inr r' \<Longrightarrow> registry_len r' = Suc (registry_len r)"
proof -
  have "k \<notin> fst ` set m \<Longrightarrow> length (bmap_insert k w m) = Suc (length m)"
    for k :: type_id and w :: "'v erased_provider" and m
    by (induction m) auto
  then show "registry_ok r \<Longrightarrow> insert_erased t n v r = Inr r' \<Longrightarrow> ?thesis"
    by (auto simp: insert_erased_def registry_contains_def bmap_get_def registry_len_def
        map_of_eq_None_iff split: if_splits)
qed

section \<open>Samples\<close>

text \<open>A small catalog to which the properties of the graph components are applied.\<close>

definition sample_location :: source_location where
  "sample_location = SourceLocation ''app.rs'' 1 1"

definition sample_descriptor :: "type_id \<Rightarrow> string \<Rightarrow> type_id list \<Rightarrow> provider_descriptor" where
  "sample_descriptor t name ts =
     provider_descriptor_new Service name t (map (\<lambda>u. \<lparr>dep_type_name = ''T'', dep_type_id = u\<rparr>) ts)
       Public sample_location t"

lemma sample_descriptor_simps [simp]:
  "pd_type_id (sample_descriptor t name ts) = t"
  "pd_type_name (sample_descriptor t name ts) = name"
  "pd_kind (sample_descriptor t name ts) = Service"
  "pd_namespace (sample_descriptor t name ts) = None"
  "pd_visibility (sample_descriptor t name ts) = Public"
  "pd_dependencies (sample_descriptor t name ts) =
     map (\<lambda>u. \<lparr>dep_type_name = ''T'', dep_type_id = u\<rparr>) ts"
  by (simp_all add: sample_descriptor_def provider_descriptor_new_def)

end
