(* ===== verification/Graph_Model.thy ===== *)
theory Graph_Model
  imports Catalog
begin

text \<open>
  The immutable provider graph (\<open>crates/mads-core/src/graph/model.rs\<close>): how a provider enters
  the graph, its node, the resolved dependency edges and the steps of a construction plan.

  \<open>graph_ok\<close> is the invariant the graph builder establishes: one node per type, edges between
  nodes of the graph, and only planned nodes, which have a location, declare dependencies.
  \<open>depends\<close> is the dependency relation between types and \<open>index_depends\<close> the same relation
  between positions of the provider list.
\<close>

section \<open>Origins and states\<close>

datatype provider_origin =
  Origin_Provided | Origin_AutoConfiguration | Origin_Service | Origin_Repository | Origin_Provider

fun origin_rank :: "provider_origin \<Rightarrow> nat" where
  "origin_rank Origin_Provided = 0"
| "origin_rank Origin_AutoConfiguration = 1"
| "origin_rank Origin_Service = 2"
| "origin_rank Origin_Repository = 3"
| "origin_rank Origin_Provider = 4"

lemma origin_rank_inject [simp]: "origin_rank a = origin_rank b \<longleftrightarrow> a = b"
  by (cases a; cases b) simp_all

instantiation provider_origin :: linorder
begin

definition less_eq_provider_origin :: "provider_origin \<Rightarrow> provider_origin \<Rightarrow> bool" where
  "less_eq_provider_origin a b \<longleftrightarrow> origin_rank a \<le> origin_rank b"

definition less_provider_origin :: "provider_origin \<Rightarrow> provider_origin \<Rightarrow> bool" where
  "less_provider_origin a b \<longleftrightarrow> origin_rank a < origin_rank b"

instance
  by standard (auto simp: less_eq_provider_origin_def less_provider_origin_def)

end

fun origin_of_kind :: "provider_kind \<Rightarrow> provider_origin" where
  "origin_of_kind Service = Origin_Service"
| "origin_of_kind Repository = Origin_Repository"
| "origin_of_kind Provider = Origin_Provider"

datatype provider_state =
  State_Provided | State_Preconstructed | State_AutoConfigured | State_Planned

record satisfied_provider =
  sp_type_id :: type_id
  sp_type_name :: string
  sp_state :: provider_state

definition satisfied_provided :: "type_id \<Rightarrow> string \<Rightarrow> satisfied_provider" where
  "satisfied_provided t n = \<lparr>sp_type_id = t, sp_type_name = n, sp_state = State_Provided\<rparr>"

definition satisfied_preconstructed :: "type_id \<Rightarrow> string \<Rightarrow> satisfied_provider" where
  "satisfied_preconstructed t n =
     \<lparr>sp_type_id = t, sp_type_name = n, sp_state = State_Preconstructed\<rparr>"

definition satisfied_auto_configured :: "type_id \<Rightarrow> string \<Rightarrow> satisfied_provider" where
  "satisfied_auto_configured t n =
     \<lparr>sp_type_id = t, sp_type_name = n, sp_state = State_AutoConfigured\<rparr>"

section \<open>The graph\<close>

record provider_node =
  pn_type_id :: type_id
  pn_type_name :: string
  pn_origin :: provider_origin
  pn_visibility :: provider_visibility
  pn_state :: provider_state
  pn_location :: "source_location option"
  pn_declared_dependencies :: "dependency_descriptor list"

record dependency_edge =
  de_provider_type_id :: type_id
  de_provider_type_name :: string
  de_dependency_type_id :: type_id
  de_dependency_type_name :: string

record application_graph =
  ag_providers :: "provider_node list"
  ag_dependencies :: "dependency_edge list"

definition graph_provider :: "application_graph \<Rightarrow> type_id \<Rightarrow> provider_node option" where
  "graph_provider g t = find (\<lambda>p. pn_type_id p = t) (ag_providers g)"

record construction_step =
  cs_type_id :: type_id
  cs_type_name :: string
  cs_origin :: provider_origin
  cs_location :: source_location
  cs_descriptor :: provider_descriptor

type_synonym construction_plan = "construction_step list"

text \<open>
  The comparison of two nodes by position, used by the cycle detector and by the error path of
  the builder (\<open>node_order\<close> in \<open>cycle.rs\<close>, \<open>provider_order\<close> in \<open>builder.rs\<close>).
\<close>

definition node_order :: "application_graph \<Rightarrow> nat \<Rightarrow> nat \<Rightarrow> ordering" where
  "node_order g left right =
     (let left = ag_providers g ! left; right = ag_providers g ! right in
      then_with (cmp (pn_type_name left) (pn_type_name right))
        (then_with (cmp (pn_origin left) (pn_origin right))
          (optional_location_order (pn_location left) (pn_location right))))"

text \<open>The direct dependencies of a node, by position, in node order.\<close>

definition outgoing :: "application_graph \<Rightarrow> nat \<Rightarrow> nat list" where
  "outgoing g provider =
     (let provider_type_id = pn_type_id (ag_providers g ! provider) in
      sort_by (node_order g)
        (List.map_filter
          (\<lambda>edge. position (\<lambda>node. pn_type_id node = de_dependency_type_id edge) (ag_providers g))
          (filter (\<lambda>edge. de_provider_type_id edge = provider_type_id) (ag_dependencies g))))"

section \<open>Well-formed graphs and the dependency relation\<close>

definition node_key ::
    "provider_node \<Rightarrow> string \<times> provider_origin \<times> (string \<times> u32 \<times> u32) option" where
  "node_key p = (pn_type_name p, pn_origin p, map_option location_key (pn_location p))"

lemma node_order_cmp_on: "node_order g = cmp_on (\<lambda>i. node_key (ag_providers g ! i))"
  by (simp add: fun_eq_iff node_order_def cmp_on_def node_key_def Let_def cmp_simps)

interpretation nodes: comparator "node_order g"
  unfolding node_order_cmp_on by (rule comparator_cmp_on)

definition graph_ok :: "application_graph \<Rightarrow> bool" where
  "graph_ok g \<longleftrightarrow>
     distinct (map pn_type_id (ag_providers g)) \<and>
     (\<forall>e\<in>set (ag_dependencies g).
        (\<exists>p\<in>set (ag_providers g). pn_type_id p = de_provider_type_id e \<and>
           pn_state p = State_Planned \<and> pn_location p \<noteq> None) \<and>
        (\<exists>p\<in>set (ag_providers g). pn_type_id p = de_dependency_type_id e))"

definition depends :: "application_graph \<Rightarrow> (type_id \<times> type_id) set" where
  "depends g = (\<lambda>e. (de_provider_type_id e, de_dependency_type_id e)) ` set (ag_dependencies g)"

definition node_type :: "application_graph \<Rightarrow> nat \<Rightarrow> type_id" where
  "node_type g i = pn_type_id (ag_providers g ! i)"

abbreviation graph_size :: "application_graph \<Rightarrow> nat" where
  "graph_size g \<equiv> length (ag_providers g)"

definition index_depends :: "application_graph \<Rightarrow> (nat \<times> nat) set" where
  "index_depends g =
     {(i, j). i < graph_size g \<and> j < graph_size g \<and> (node_type g i, node_type g j) \<in> depends g}"

lemma graph_ok_distinct: "graph_ok g \<Longrightarrow> distinct (map pn_type_id (ag_providers g))"
  by (simp add: graph_ok_def)

lemma node_type_inj:
  "graph_ok g \<Longrightarrow> i < graph_size g \<Longrightarrow> j < graph_size g \<Longrightarrow> node_type g i = node_type g j \<longleftrightarrow> i = j"
  using nth_eq_iff_index_eq [OF graph_ok_distinct, of g i j] by (simp add: node_type_def)

lemma position_node_type:
  "graph_ok g \<Longrightarrow> i < graph_size g \<Longrightarrow>
   position (\<lambda>node. pn_type_id node = node_type g i) (ag_providers g) = Some i"
  unfolding node_type_def by (intro position_key graph_ok_distinct)

lemma graph_ok_edge:
  assumes "graph_ok g" "e \<in> set (ag_dependencies g)"
  obtains i j where "i < graph_size g" "j < graph_size g"
    "de_provider_type_id e = node_type g i" "de_dependency_type_id e = node_type g j"
    "pn_state (ag_providers g ! i) = State_Planned" "pn_location (ag_providers g ! i) \<noteq> None"
  using assms unfolding graph_ok_def node_type_def by (metis in_set_conv_nth)

lemma dependsD:
  assumes "graph_ok g" "(a, b) \<in> depends g"
  obtains i j where "a = node_type g i" "b = node_type g j" "(i, j) \<in> index_depends g"
proof -
  obtain e where e: "e \<in> set (ag_dependencies g)" "a = de_provider_type_id e"
      "b = de_dependency_type_id e"
    using assms(2) by (auto simp: depends_def)
  from graph_ok_edge [OF assms(1) e(1)] obtain i j where "i < graph_size g" "j < graph_size g"
    "a = node_type g i" "b = node_type g j" using e(2,3) by metis
  with assms(2) show thesis by (intro that [of i j]) (simp_all add: index_depends_def)
qed

lemma index_depends_planned:
  assumes "graph_ok g" "(i, j) \<in> index_depends g"
  shows "pn_state (ag_providers g ! i) = State_Planned" "pn_location (ag_providers g ! i) \<noteq> None"
proof -
  from assms(2) obtain e where e: "e \<in> set (ag_dependencies g)" "de_provider_type_id e = node_type g i"
    and i: "i < graph_size g"
    by (auto simp: index_depends_def depends_def)
  from graph_ok_edge [OF assms(1) e(1)] obtain k where "k < graph_size g"
    "de_provider_type_id e = node_type g k" "pn_state (ag_providers g ! k) = State_Planned"
    "pn_location (ag_providers g ! k) \<noteq> None" by metis
  with e(2) i node_type_inj [OF assms(1)]
  show "pn_state (ag_providers g ! i) = State_Planned" "pn_location (ag_providers g ! i) \<noteq> None"
    by metis+
qed

lemma index_depends_trancl:
  "(i, j) \<in> (index_depends g)\<^sup>+ \<Longrightarrow> (node_type g i, node_type g j) \<in> (depends g)\<^sup>+"
  by (induction rule: trancl_induct)
    (auto simp: index_depends_def intro: trancl_into_trancl)

lemma depends_trancl:
  assumes "graph_ok g" "(a, b) \<in> (depends g)\<^sup>+"
  shows "\<exists>i j. i < graph_size g \<and> j < graph_size g \<and> a = node_type g i \<and> b = node_type g j \<and>
    (i, j) \<in> (index_depends g)\<^sup>+"
  using assms(2)
proof (induction rule: trancl_induct)
  case (base b)
  then obtain i j where "a = node_type g i" "b = node_type g j" "(i, j) \<in> index_depends g"
    by (rule dependsD [OF assms(1)])
  then show ?case by (auto simp: index_depends_def)
next
  case (step b c)
  then obtain i j where ij: "i < graph_size g" "j < graph_size g" "a = node_type g i"
    "b = node_type g j" "(i, j) \<in> (index_depends g)\<^sup>+" by blast
  from step.hyps(2) obtain j' k where jk: "b = node_type g j'" "c = node_type g k"
    "(j', k) \<in> index_depends g" by (rule dependsD [OF assms(1)])
  then have "j' = j" using ij node_type_inj [OF assms(1), of j' j] by (auto simp: index_depends_def)
  then have "(i, k) \<in> (index_depends g)\<^sup>+" using ij(5) jk(3) by (auto intro: trancl_into_trancl)
  with ij jk show ?case by (auto simp: index_depends_def)
qed

lemma acyclic_index_depends:
  assumes "graph_ok g"
  shows "acyclic (index_depends g) \<longleftrightarrow> acyclic (depends g)"
proof
  assume *: "acyclic (index_depends g)"
  show "acyclic (depends g)"
  proof (rule acyclicI, clarify)
    fix t assume "(t, t) \<in> (depends g)\<^sup>+"
    then obtain i j where "i < graph_size g" "j < graph_size g" "t = node_type g i"
      "t = node_type g j" "(i, j) \<in> (index_depends g)\<^sup>+"
      using depends_trancl [OF assms] by blast
    with node_type_inj [OF assms, of i j] * show False by (auto simp: acyclic_def)
  qed
next
  assume *: "acyclic (depends g)"
  show "acyclic (index_depends g)"
  proof (rule acyclicI, clarify)
    fix i assume "(i, i) \<in> (index_depends g)\<^sup>+"
    from index_depends_trancl [OF this] * show False by (auto simp: acyclic_def)
  qed
qed

lemma finite_index_depends: "finite (index_depends g)"
  by (rule finite_subset [of _ "{..<graph_size g} \<times> {..<graph_size g}"])
    (auto simp: index_depends_def)

lemma outgoing_subset:
  assumes "i < graph_size g" "j \<in> set (outgoing g i)"
  shows "(i, j) \<in> index_depends g"
proof -
  from assms(2) obtain e where e: "e \<in> set (ag_dependencies g)"
    "de_provider_type_id e = pn_type_id (ag_providers g ! i)"
    "position (\<lambda>node. pn_type_id node = de_dependency_type_id e) (ag_providers g) = Some j"
    by (auto simp: outgoing_def Let_def set_filter_map)
  with position_SomeD [OF e(3)] assms(1) show ?thesis
    by (force simp: index_depends_def depends_def node_type_def)
qed

lemma set_outgoing:
  assumes "graph_ok g" "i < graph_size g"
  shows "set (outgoing g i) = {j. (i, j) \<in> index_depends g}"
proof (intro set_eqI iffI)
  fix j assume "j \<in> {j. (i, j) \<in> index_depends g}"
  then have j: "j < graph_size g" "(node_type g i, node_type g j) \<in> depends g"
    by (auto simp: index_depends_def)
  then obtain e where e: "e \<in> set (ag_dependencies g)" "de_provider_type_id e = node_type g i"
    "de_dependency_type_id e = node_type g j" by (auto simp: depends_def)
  with position_node_type [OF assms(1) j(1)] show "j \<in> set (outgoing g i)"
    by (auto simp: outgoing_def Let_def set_filter_map node_type_def)
qed (use outgoing_subset [OF assms(2)] in auto)

section \<open>Samples\<close>

definition sample_node :: "type_id \<Rightarrow> string \<Rightarrow> provider_node" where
  "sample_node t name =
     \<lparr>pn_type_id = t, pn_type_name = name, pn_origin = Origin_Service, pn_visibility = Private,
      pn_state = State_Planned, pn_location = Some sample_location, pn_declared_dependencies = []\<rparr>"

text \<open>Two planned providers with the given dependencies between them.\<close>

definition sample_graph :: "(type_id \<times> type_id) list \<Rightarrow> application_graph" where
  "sample_graph edges =
     \<lparr>ag_providers = [sample_node 1 ''A'', sample_node 2 ''B''],
      ag_dependencies = map (\<lambda>(a, b).
        \<lparr>de_provider_type_id = a, de_provider_type_name = ''A'', de_dependency_type_id = b,
         de_dependency_type_name = ''B''\<rparr>) edges\<rparr>"

lemma sample_graph_ok:
  "set edges \<subseteq> {1, 2} \<times> {1, 2} \<Longrightarrow> graph_ok (sample_graph edges)"
  by (auto simp: graph_ok_def sample_graph_def sample_node_def)

lemma acyclic_ascending: "(\<And>a b. (a, b) \<in> r \<Longrightarrow> a < (b :: nat)) \<Longrightarrow> acyclic r"
  by (rule acyclic_subset [OF wf_acyclic [OF wf_less_than]]) auto

lemma depends_sample_graph: "depends (sample_graph edges) = set edges"
  by (force simp: depends_def sample_graph_def)

end
