(* ===== verification/Module_Graph.thy ===== *)
theory Module_Graph
  imports Catalog
begin

text \<open>
  The rooted module graph (\<open>crates/mads-core/src/graph/module.rs\<close>): the modules reachable from a
  root through direct imports, in preorder, with one edge per direct import.

  \<open>visit_module\<close> is the recursive \<open>visit\<close> of the code with a recursion bound; the bound that
  \<open>build_module_graph\<close> passes is enough, and none of the \<open>expect\<close> calls can fail
  (\<open>build_module_graph_correct\<close>). The construction succeeds exactly for the catalogs
  \<open>catalog_ok\<close> accepts.
\<close>

section \<open>The graph\<close>

record module_node =
  mn_type_id :: type_id
  mn_type_name :: string
  mn_namespace :: string
  mn_location :: source_location

record module_import_edge =
  mi_importer :: nat
  mi_imported :: nat

record provider_ownership =
  po_provider_type_name :: string
  po_module_type_name :: "string option"

record module_graph =
  mg_root :: nat
  mg_modules :: "module_node list"
  mg_imports :: "module_import_edge list"
  mg_provider_ownership :: "provider_ownership list"

definition edge_importer :: "module_graph \<Rightarrow> module_import_edge \<Rightarrow> module_node" where
  "edge_importer g e = mg_modules g ! mi_importer e"

definition edge_imported :: "module_graph \<Rightarrow> module_import_edge \<Rightarrow> module_node" where
  "edge_imported g e = mg_modules g ! mi_imported e"

definition graph_root :: "module_graph \<Rightarrow> module_node" where
  "graph_root g = mg_modules g ! mg_root g"

definition namespace_contains :: "string \<Rightarrow> string \<Rightarrow> bool" where
  "namespace_contains parent child \<longleftrightarrow>
     child = parent \<or>
     (case strip_prefix parent child of
        None \<Rightarrow> False
      | Some suffix \<Rightarrow> starts_with ''::'' suffix)"

definition owner_for_namespace :: "module_graph \<Rightarrow> string \<Rightarrow> module_node option" where
  "owner_for_namespace g namespace =
     max_by_key (\<lambda>m. length (mn_namespace m))
       (filter (\<lambda>m. namespace_contains (mn_namespace m) namespace) (mg_modules g))"

definition directly_imports :: "module_graph \<Rightarrow> type_id \<Rightarrow> type_id \<Rightarrow> bool" where
  "directly_imports g importer imported \<longleftrightarrow>
     list_ex (\<lambda>e. mn_type_id (edge_importer g e) = importer \<and> mn_type_id (edge_imported g e) = imported)
       (mg_imports g)"

definition is_reachable :: "module_graph \<Rightarrow> type_id \<Rightarrow> bool" where
  "is_reachable g module \<longleftrightarrow> list_ex (\<lambda>m. mn_type_id m = module) (mg_modules g)"

definition set_provider_ownership :: "provider_ownership list \<Rightarrow> module_graph \<Rightarrow> module_graph" where
  "set_provider_ownership ownership g = g\<lparr>mg_provider_ownership := ownership\<rparr>"

section \<open>Errors of the construction\<close>

definition module_namespace_error ::
    "module_descriptor \<Rightarrow> module_descriptor list \<Rightarrow> panic + error" where
  "module_namespace_error descriptor conflicts =
     and_then (expect ''namespace collision candidates have namespace metadata''
         (md_namespace descriptor))
       (\<lambda>namespace. Inr (from_diagnostics
         (with_location (md_location descriptor) (with_subject namespace
           (diagnostic_new MADS008 ''ambiguous module namespace''
             ''multiple module declarations claim the same Rust namespace'')))
         (map (\<lambda>conflict. with_location (md_location conflict) (with_subject namespace
             (diagnostic_new MADS008 ''conflicting module namespace declaration''
               ''this module declaration claims the same namespace'')))
           conflicts)))"

definition missing_namespace_error :: "module_descriptor \<Rightarrow> error" where
  "missing_namespace_error descriptor =
     error_new (with_location (md_location descriptor) (with_subject (md_type_name descriptor)
       (diagnostic_new MADS008 ''missing module namespace''
         ''rooted module graphs require namespace metadata'')))"

definition require_descriptor :: "module_descriptor list \<Rightarrow> type_id \<Rightarrow> error + module_descriptor" where
  "require_descriptor descriptors type_id =
     (case sort_by module_order (filter (\<lambda>d. md_type_id d = type_id) descriptors) of
        [] \<Rightarrow> Inl (error_new (with_subject ''requested module''
                (diagnostic_new MADS008 ''missing module metadata''
                  ''a rooted module or direct import has no static module declaration'')))
      | [d] \<Rightarrow> Inr d
      | first # rest \<Rightarrow> Inl (from_diagnostics
          (with_location (md_location first) (with_subject (md_type_name first)
            (diagnostic_new MADS008 ''ambiguous module metadata''
              ''a module type has more than one static declaration'')))
          (map (\<lambda>d. with_location (md_location d) (with_subject (md_type_name d)
              (diagnostic_new MADS008 ''conflicting module declaration''
                ''this declaration describes the same module type'')))
            rest)))"

definition validate_unique_namespace ::
    "module_descriptor list \<Rightarrow> module_descriptor \<Rightarrow> failure + unit" where
  "validate_unique_namespace descriptors descriptor =
     (case md_namespace descriptor of
        None \<Rightarrow> Inl (Failed (missing_namespace_error descriptor))
      | Some namespace \<Rightarrow>
          let conflicts = filter (\<lambda>candidate. md_type_id candidate \<noteq> md_type_id descriptor \<and>
                md_namespace candidate = Some namespace) descriptors in
          if conflicts \<noteq> [] then fail_with (module_namespace_error descriptor conflicts)
          else Inr ())"

definition duplicate_import_error ::
    "module_descriptor \<Rightarrow> module_import_descriptor \<Rightarrow> error" where
  "duplicate_import_error descriptor import =
     error_new (with_location (md_location descriptor) (with_subject (md_type_name descriptor)
       (diagnostic_new MADS008 ''duplicate direct module import''
         (''module `'' @ imp_type_name import
           @ ''` appears more than once in the direct import list''))))"

fun duplicate_imports_from ::
    "module_descriptor \<Rightarrow> type_id list \<Rightarrow> module_import_descriptor list \<Rightarrow> error + unit" where
  "duplicate_imports_from descriptor seen [] = Inr ()"
| "duplicate_imports_from descriptor seen (import # imports) =
     (if imp_type_id import \<in> set seen then Inl (duplicate_import_error descriptor import)
      else duplicate_imports_from descriptor (seen @ [imp_type_id import]) imports)"

definition validate_duplicate_direct_imports :: "module_descriptor \<Rightarrow> error + unit" where
  "validate_duplicate_direct_imports descriptor =
     duplicate_imports_from descriptor [] (md_imports descriptor)"

definition validate_module_catalog :: "module_descriptor list \<Rightarrow> failure + unit" where
  "validate_module_catalog modules =
     try_fold
       (\<lambda>(index, descriptor) _.
         case md_namespace descriptor of
           None \<Rightarrow> Inr ()
         | Some namespace \<Rightarrow>
             let conflicts = map snd (filter (\<lambda>(candidate_index, candidate).
                   candidate_index \<noteq> index \<and> md_namespace candidate = Some namespace)
                   (List.enumerate 0 modules)) in
             if conflicts \<noteq> [] then fail_with (module_namespace_error descriptor conflicts)
             else Inr ())
       (List.enumerate 0 modules) ()"

section \<open>The traversal\<close>

record build_state =
  bs_visited :: "type_id set"
  bs_stack :: "type_id list"
  bs_modules :: "module_node list"
  bs_imports :: "module_import_edge list"

definition node_index :: "build_state \<Rightarrow> type_id \<Rightarrow> nat option" where
  "node_index s type_id = position (\<lambda>m. mn_type_id m = type_id) (bs_modules s)"

definition ensure_node :: "module_descriptor \<Rightarrow> build_state \<Rightarrow> error + nat \<times> build_state" where
  "ensure_node descriptor s =
     (case node_index s (md_type_id descriptor) of
        Some index \<Rightarrow> Inr (index, s)
      | None \<Rightarrow>
          (case md_namespace descriptor of
             None \<Rightarrow> Inl (missing_namespace_error descriptor)
           | Some namespace \<Rightarrow>
               Inr (length (bs_modules s),
                 s\<lparr>bs_modules := bs_modules s @
                   [\<lparr>mn_type_id = md_type_id descriptor, mn_type_name = md_type_name descriptor,
                     mn_namespace = namespace, mn_location = md_location descriptor\<rparr>]\<rparr>)))"

definition push_edge :: "nat \<Rightarrow> nat \<Rightarrow> build_state \<Rightarrow> build_state" where
  "push_edge importer imported s =
     s\<lparr>bs_imports := bs_imports s @ [\<lparr>mi_importer = importer, mi_imported = imported\<rparr>]\<rparr>"

definition descriptor_for_stack ::
    "module_descriptor list \<Rightarrow> type_id \<Rightarrow> module_descriptor option" where
  "descriptor_for_stack descriptors type_id = find (\<lambda>d. md_type_id d = type_id) descriptors"

definition module_cycle_error ::
    "module_descriptor list \<Rightarrow> type_id list \<Rightarrow> type_id \<Rightarrow> panic + error" where
  "module_cycle_error descriptors open_cycle repeated =
     (let chain = List.map_filter (descriptor_for_stack descriptors) open_cycle;
          chain = (case descriptor_for_stack descriptors repeated of
                     None \<Rightarrow> chain | Some r \<Rightarrow> chain @ [r]);
          path = join_with '' -> '' (map md_type_name chain) in
      case chain of
        [] \<Rightarrow> Inl (Panic ''cycle members were already resolved during traversal'')
      | first # _ \<Rightarrow> Inr (from_diagnostics
          (with_location (md_location first) (with_subject path
            (diagnostic_new MADS008 ''module import cycle''
              ''reachable module imports form a cycle'')))
          (map (\<lambda>d. with_location (md_location d) (with_subject path
              (diagnostic_new MADS008 ''module in import cycle''
                ''this module participates in the import cycle'')))
            (take (length chain - 2) (drop 1 chain)))))"

function (sequential)
  visit_module ::
    "module_descriptor list \<Rightarrow> nat \<Rightarrow> type_id \<Rightarrow> build_state \<Rightarrow> failure + build_state"
  and visit_imports ::
    "module_descriptor list \<Rightarrow> nat \<Rightarrow> nat \<Rightarrow> module_import_descriptor list \<Rightarrow> build_state \<Rightarrow>
     failure + build_state"
where
  "visit_module descriptors 0 module s = Inl (Panicked OutOfFuel)"
| "visit_module descriptors (Suc fuel) module s =
     (case position (\<lambda>id. id = module) (bs_stack s) of
        Some cycle_start \<Rightarrow>
          fail_with (module_cycle_error descriptors (drop cycle_start (bs_stack s)) module)
      | None \<Rightarrow>
          if module \<in> bs_visited s then Inr s
          else let s = s\<lparr>bs_visited := insert module (bs_visited s)\<rparr> in
            and_then (or_error (require_descriptor descriptors module)) (\<lambda>descriptor.
            and_then (validate_unique_namespace descriptors descriptor) (\<lambda>_.
            and_then (or_error (ensure_node descriptor s)) (\<lambda>(node, s).
            let s = s\<lparr>bs_stack := bs_stack s @ [module]\<rparr> in
            and_then (or_error (validate_duplicate_direct_imports descriptor)) (\<lambda>_.
            and_then (visit_imports descriptors fuel node (md_imports descriptor) s) (\<lambda>s.
            Inr (s\<lparr>bs_stack := butlast (bs_stack s)\<rparr>)))))))"
| "visit_imports descriptors fuel node [] s = Inr s"
| "visit_imports descriptors fuel node (import # imports) s =
     and_then (or_error (require_descriptor descriptors (imp_type_id import))) (\<lambda>imported.
     and_then (or_error (ensure_node imported s)) (\<lambda>(imported_node, s).
     and_then (visit_module descriptors fuel (imp_type_id import) (push_edge node imported_node s))
       (visit_imports descriptors fuel node imports)))"
  by pat_completeness auto
termination
  by (relation "measures [\<lambda>x. case x of Inl (d, fuel, _) \<Rightarrow> fuel | Inr (d, fuel, _) \<Rightarrow> fuel,
        \<lambda>x. case x of Inl _ \<Rightarrow> 0 | Inr (d, fuel, n, imports, _) \<Rightarrow> Suc (length imports)]") auto

definition build_module_graph ::
    "type_id \<Rightarrow> module_descriptor list \<Rightarrow> failure + module_graph" where
  "build_module_graph root_type_id modules =
     and_then (visit_module modules (Suc (length modules)) root_type_id
         \<lparr>bs_visited = {}, bs_stack = [], bs_modules = [], bs_imports = []\<rparr>)
       (\<lambda>s. and_then
         (or_panic (expect ''successful traversal records the root module'' (node_index s root_type_id)))
         (\<lambda>root. Inr \<lparr>mg_root = root, mg_modules = bs_modules s, mg_imports = bs_imports s,
           mg_provider_ownership = []\<rparr>))"

section \<open>Catalogs that have a module graph\<close>

definition imp_rel :: "module_descriptor list \<Rightarrow> (type_id \<times> type_id) set" where
  "imp_rel D = {(md_type_id d, imp_type_id i) | d i. d \<in> set D \<and> i \<in> set (md_imports d)}"

text \<open>One declaration, with a namespace of its own, that imports no module twice.\<close>

definition valid_module :: "module_descriptor list \<Rightarrow> type_id \<Rightarrow> bool" where
  "valid_module D t \<longleftrightarrow>
     (\<exists>d n. filter (\<lambda>d. md_type_id d = t) D = [d] \<and> md_namespace d = Some n \<and>
        (\<forall>c\<in>set D. md_type_id c \<noteq> t \<longrightarrow> md_namespace c \<noteq> Some n) \<and>
        distinct (map imp_type_id (md_imports d)))"

definition catalog_ok :: "module_descriptor list \<Rightarrow> type_id \<Rightarrow> bool" where
  "catalog_ok D root \<longleftrightarrow>
     (\<forall>t. (root, t) \<in> (imp_rel D)\<^sup>* \<longrightarrow> valid_module D t \<and> (t, t) \<notin> (imp_rel D)\<^sup>+)"

definition module_failure :: "failure + 'a \<Rightarrow> bool" where
  "module_failure r \<longleftrightarrow>
     (\<exists>e. r = Inl (Failed e) \<and> error_ok e \<and> (\<forall>d\<in>set (err_diagnostics e). diag_code d = MADS008))"

lemmas module_errors =
  module_failure_def error_builders diagnostic_builders error_ok_def

lemma require_descriptor_cases:
  obtains d where "require_descriptor D t = Inr d" "filter (\<lambda>d. md_type_id d = t) D = [d]"
  | e where "require_descriptor D t = Inl e" "module_failure (Inl (Failed e) :: failure + unit)" "\<not> valid_module D t"
proof (cases "sort_by module_order (filter (\<lambda>d. md_type_id d = t) D)" rule: remdups_adj.cases)
  case 1
  then show thesis
    by (intro that(2)) (auto simp: require_descriptor_def module_errors valid_module_def)
next
  case (2 d)
  then have "length (filter (\<lambda>d. md_type_id d = t) D) = 1" "set (filter (\<lambda>d. md_type_id d = t) D) = {d}"
    by (metis One_nat_def length_Cons length_sort_by list.size(3))
      (metis 2 list.set(1) list.simps(15) set_sort_by)
  then have "filter (\<lambda>d. md_type_id d = t) D = [d]"
    by (cases "filter (\<lambda>d. md_type_id d = t) D") auto
  with 2 show thesis by (intro that(1)) (simp_all add: require_descriptor_def)
next
  case (3 a b xs)
  then have "length (filter (\<lambda>d. md_type_id d = t) D) = Suc (Suc (length xs))"
    by (metis length_Cons length_sort_by)
  then have "\<not> valid_module D t" by (auto simp: valid_module_def)
  with 3 show thesis
    by (intro that(2)) (auto simp: require_descriptor_def module_errors)
qed

lemma duplicate_imports_from_Inr:
  "duplicate_imports_from d seen is = Inr () \<longleftrightarrow>
     distinct (map imp_type_id is) \<and> set (map imp_type_id is) \<inter> set seen = {}"
  by (induction "is" arbitrary: seen) auto

lemma duplicate_imports_from_Inl:
  "duplicate_imports_from d seen is = Inl e \<Longrightarrow> module_failure (Inl (Failed e) :: failure + unit)"
  by (induction "is" arbitrary: seen) (auto simp: duplicate_import_error_def module_errors split: if_splits)

lemma validate_imports_cases:
  obtains "validate_duplicate_direct_imports d = Inr ()" "distinct (map imp_type_id (md_imports d))"
  | e where "validate_duplicate_direct_imports d = Inl e" "module_failure (Inl (Failed e) :: failure + unit)"
    "\<not> distinct (map imp_type_id (md_imports d))"
proof (cases "validate_duplicate_direct_imports d")
  case (Inl e)
  then show thesis using duplicate_imports_from_Inr [of d "[]" "md_imports d"]
    by (intro that(2)) (auto simp: validate_duplicate_direct_imports_def duplicate_imports_from_Inl)
next
  case (Inr u)
  then show thesis using duplicate_imports_from_Inr [of d "[]" "md_imports d"]
    by (intro that(1)) (auto simp: validate_duplicate_direct_imports_def)
qed

lemma validate_namespace_cases:
  obtains n where "validate_unique_namespace D d = Inr ()" "md_namespace d = Some n"
    "\<forall>c\<in>set D. md_type_id c \<noteq> md_type_id d \<longrightarrow> md_namespace c \<noteq> Some n"
  | "module_failure (validate_unique_namespace D d)"
    "\<And>n. md_namespace d = Some n \<Longrightarrow>
       \<not> (\<forall>c\<in>set D. md_type_id c \<noteq> md_type_id d \<longrightarrow> md_namespace c \<noteq> Some n)"
proof (cases "md_namespace d")
  case None
  then show thesis
    by (intro that(2)) (auto simp: validate_unique_namespace_def missing_namespace_error_def module_errors)
next
  case (Some n)
  let ?conflicts = "filter (\<lambda>c. md_type_id c \<noteq> md_type_id d \<and> md_namespace c = Some n) D"
  show thesis
  proof (cases "?conflicts = []")
    case True
    with Some show thesis
      by (intro that(1)) (auto simp: validate_unique_namespace_def filter_empty_conv)
  next
    case False
    then obtain c where "c \<in> set D" "md_type_id c \<noteq> md_type_id d" "md_namespace c = Some n"
      by (auto simp: filter_empty_conv)
    with False Some show thesis
      by (intro that(2))
        (auto simp: validate_unique_namespace_def module_namespace_error_def module_errors)
  qed
qed

section \<open>The invariant of the traversal\<close>

definition module_ids :: "build_state \<Rightarrow> type_id set" where
  "module_ids s = mn_type_id ` set (bs_modules s)"

definition has_edge :: "build_state \<Rightarrow> type_id \<Rightarrow> type_id \<Rightarrow> bool" where
  "has_edge s a b \<longleftrightarrow>
     (\<exists>e\<in>set (bs_imports s). mn_type_id (bs_modules s ! mi_importer e) = a \<and>
        mn_type_id (bs_modules s ! mi_imported e) = b)"

definition finished :: "build_state \<Rightarrow> type_id set" where
  "finished s = bs_visited s - set (bs_stack s)"

definition node_of :: "module_descriptor list \<Rightarrow> module_node \<Rightarrow> bool" where
  "node_of D m \<longleftrightarrow>
     (\<exists>d\<in>set D. mn_type_id m = md_type_id d \<and> mn_type_name m = md_type_name d \<and>
        Some (mn_namespace m) = md_namespace d \<and> mn_location m = md_location d)"

definition nodes_ok :: "module_descriptor list \<Rightarrow> build_state \<Rightarrow> bool" where
  "nodes_ok D s \<longleftrightarrow>
     distinct (map mn_type_id (bs_modules s)) \<and> (\<forall>m\<in>set (bs_modules s). node_of D m) \<and>
     (\<forall>e\<in>set (bs_imports s). mi_importer e < length (bs_modules s) \<and>
        mi_imported e < length (bs_modules s) \<and>
        (mn_type_id (bs_modules s ! mi_importer e), mn_type_id (bs_modules s ! mi_imported e)) \<in> imp_rel D)"

definition search_ok :: "module_descriptor list \<Rightarrow> type_id \<Rightarrow> build_state \<Rightarrow> bool" where
  "search_ok D r s \<longleftrightarrow>
     distinct (bs_stack s) \<and> set (bs_stack s) \<subseteq> bs_visited s \<and>
     (\<forall>k. Suc k < length (bs_stack s) \<longrightarrow> (bs_stack s ! k, bs_stack s ! Suc k) \<in> imp_rel D) \<and>
     (\<forall>t\<in>bs_visited s. (r, t) \<in> (imp_rel D)\<^sup>* \<and> valid_module D t) \<and>
     bs_visited s \<subseteq> module_ids s \<and>
     (\<forall>a\<in>finished s. \<forall>b. (a, b) \<in> imp_rel D \<longrightarrow> b \<in> finished s \<and> has_edge s a b) \<and>
     acyclic {(a, b). a \<in> finished s \<and> (a, b) \<in> imp_rel D}"

definition mod_inv :: "module_descriptor list \<Rightarrow> type_id \<Rightarrow> build_state \<Rightarrow> bool" where
  "mod_inv D r s \<longleftrightarrow> nodes_ok D s \<and> search_ok D r s"

definition grows :: "build_state \<Rightarrow> build_state \<Rightarrow> bool" where
  "grows s t \<longleftrightarrow>
     bs_stack t = bs_stack s \<and> bs_visited s \<subseteq> bs_visited t \<and>
     (\<exists>ms. bs_modules t = bs_modules s @ ms) \<and> (\<exists>es. bs_imports t = bs_imports s @ es)"

definition unvisited :: "module_descriptor list \<Rightarrow> build_state \<Rightarrow> nat" where
  "unvisited D s = card (md_type_id ` set D - bs_visited s)"

lemma grows_refl [simp]: "grows s s"
  by (simp add: grows_def)

lemma grows_trans: "grows s t \<Longrightarrow> grows t u \<Longrightarrow> grows s u"
  by (fastforce simp: grows_def)

lemma grows_finished: "grows s t \<Longrightarrow> finished s \<subseteq> finished t"
  by (auto simp: grows_def finished_def)

lemma grows_node: "grows s t \<Longrightarrow> i < length (bs_modules s) \<Longrightarrow>
    i < length (bs_modules t) \<and> bs_modules t ! i = bs_modules s ! i"
  by (auto simp: grows_def nth_append)

lemma grows_edge:
  assumes "nodes_ok D s" "grows s t" "has_edge s a b"
  shows "has_edge t a b"
proof -
  obtain e where e: "e \<in> set (bs_imports s)" "mn_type_id (bs_modules s ! mi_importer e) = a"
    "mn_type_id (bs_modules s ! mi_imported e) = b" using assms(3) by (auto simp: has_edge_def)
  then have "mi_importer e < length (bs_modules s)" "mi_imported e < length (bs_modules s)"
    using assms(1) by (auto simp: nodes_ok_def)
  with grows_node [OF assms(2)] e assms(2) show ?thesis
    unfolding has_edge_def grows_def by (intro bexI [of _ e]) auto
qed

lemma grows_unvisited: "grows s t \<Longrightarrow> unvisited D t \<le> unvisited D s"
  unfolding unvisited_def by (rule card_mono) (auto simp: grows_def)

text \<open>Adding the node of a declared module.\<close>

lemma ensure_node_cases:
  assumes "nodes_ok D s" "d \<in> set D"
  obtains i t where "ensure_node d s = Inr (i, t)" "grows s t" "nodes_ok D t"
    "i < length (bs_modules t)" "mn_type_id (bs_modules t ! i) = md_type_id d"
    "bs_visited t = bs_visited s" "bs_imports t = bs_imports s"
    "module_ids t = insert (md_type_id d) (module_ids s)"
  | e where "ensure_node d s = Inl e" "module_failure (Inl (Failed e) :: failure + unit)" "md_namespace d = None"
proof (cases "node_index s (md_type_id d)")
  case (Some i)
  then have i: "i < length (bs_modules s)" "mn_type_id (bs_modules s ! i) = md_type_id d"
    unfolding node_index_def using position_SomeD by fastforce+
  then have "md_type_id d \<in> module_ids s" unfolding module_ids_def by (metis imageI nth_mem)
  with i Some assms(1) show thesis
    by (intro that(1) [of i s]) (auto simp: ensure_node_def)
next
  case None
  then have fresh: "md_type_id d \<notin> module_ids s"
    by (auto simp: node_index_def position_None_iff module_ids_def)
  show thesis
  proof (cases "md_namespace d")
    case None
    with \<open>node_index s (md_type_id d) = None\<close> show thesis
      by (intro that(2)) (auto simp: ensure_node_def missing_namespace_error_def module_errors)
  next
    case (Some n)
    let ?m = "\<lparr>mn_type_id = md_type_id d, mn_type_name = md_type_name d, mn_namespace = n,
        mn_location = md_location d\<rparr>"
    let ?t = "s\<lparr>bs_modules := bs_modules s @ [?m]\<rparr>"
    have "nodes_ok D ?t"
      using assms fresh Some by (auto simp: nodes_ok_def module_ids_def node_of_def nth_append)
    with Some None show thesis
      by (intro that(1) [of "length (bs_modules s)" ?t])
        (auto simp: ensure_node_def grows_def module_ids_def)
  qed
qed

lemma nodes_ok_push_edge:
  assumes "nodes_ok D s" "i < length (bs_modules s)" "j < length (bs_modules s)"
    and "(mn_type_id (bs_modules s ! i), mn_type_id (bs_modules s ! j)) \<in> imp_rel D"
  shows "nodes_ok D (push_edge i j s)"
  using assms by (auto simp: nodes_ok_def push_edge_def)

lemma push_edge_simps [simp]:
  "bs_stack (push_edge i j s) = bs_stack s" "bs_visited (push_edge i j s) = bs_visited s"
  "bs_modules (push_edge i j s) = bs_modules s" "module_ids (push_edge i j s) = module_ids s"
  "grows s (push_edge i j s)"
  by (simp_all add: push_edge_def module_ids_def grows_def)

lemma has_edge_push: "has_edge (push_edge i j s) (mn_type_id (bs_modules s ! i)) (mn_type_id (bs_modules s ! j))"
  by (auto simp: has_edge_def push_edge_def)

text \<open>Growing nodes and edges only keeps the search invariant.\<close>

lemma search_ok_grow:
  assumes "search_ok D r s" "nodes_ok D s" "grows s t" "bs_visited t = bs_visited s"
  shows "search_ok D r t"
proof -
  have "bs_stack t = bs_stack s" "finished t = finished s" "module_ids s \<subseteq> module_ids t"
    using assms(3,4) by (auto simp: grows_def finished_def module_ids_def)
  with assms(1,4) grows_edge [OF assms(2,3)] show ?thesis
    unfolding search_ok_def by (metis subset_trans)
qed

section \<open>Correctness of the traversal\<close>

definition visit_module_spec :: "module_descriptor list \<Rightarrow> type_id \<Rightarrow> nat \<Rightarrow> bool" where
  "visit_module_spec D r fuel \<longleftrightarrow>
     (\<forall>s m. mod_inv D r s \<longrightarrow> (r, m) \<in> (imp_rel D)\<^sup>* \<longrightarrow>
        (bs_stack s \<noteq> [] \<longrightarrow> (last (bs_stack s), m) \<in> imp_rel D) \<longrightarrow>
        module_ids s \<subseteq> insert m (bs_visited s) \<longrightarrow> unvisited D s < fuel \<longrightarrow>
        (\<exists>t. visit_module D fuel m s = Inr t \<and> mod_inv D r t \<and> grows s t \<and> m \<in> finished t \<and>
           module_ids t \<subseteq> bs_visited t) \<or>
        module_failure (visit_module D fuel m s) \<and> \<not> catalog_ok D r)"

definition visit_imports_spec :: "module_descriptor list \<Rightarrow> type_id \<Rightarrow> nat \<Rightarrow> bool" where
  "visit_imports_spec D r fuel \<longleftrightarrow>
     (\<forall>s node is. mod_inv D r s \<longrightarrow> bs_stack s \<noteq> [] \<longrightarrow> node < length (bs_modules s) \<longrightarrow>
        mn_type_id (bs_modules s ! node) = last (bs_stack s) \<longrightarrow>
        (\<forall>i\<in>set is. (last (bs_stack s), imp_type_id i) \<in> imp_rel D) \<longrightarrow>
        module_ids s \<subseteq> bs_visited s \<longrightarrow> unvisited D s < fuel \<longrightarrow>
        (\<exists>t. visit_imports D fuel node is s = Inr t \<and> mod_inv D r t \<and> grows s t \<and>
           module_ids t \<subseteq> bs_visited t \<and>
           (\<forall>i\<in>set is. imp_type_id i \<in> finished t \<and> has_edge t (last (bs_stack s)) (imp_type_id i))) \<or>
        module_failure (visit_imports D fuel node is s) \<and> \<not> catalog_ok D r)"

lemma module_failure_simps [simp]:
  "module_failure (Inl (Failed e)) = (error_ok e \<and> (\<forall>d\<in>set (err_diagnostics e). diag_code d = MADS008))"
  "\<not> module_failure (Inr x)" "\<not> module_failure (Inl (Panicked p))"
  by (auto simp: module_failure_def)

lemma module_failure_and_then [simp]: "module_failure r \<Longrightarrow> module_failure (and_then r k)"
  by (auto simp: module_failure_def)

lemma cycle_error_ok:
  assumes "D_member \<in> set D" "md_type_id D_member = m"
  shows "module_failure (fail_with (module_cycle_error D open_cycle m))"
proof -
  obtain d where d: "descriptor_for_stack D m = Some d"
    using assms unfolding descriptor_for_stack_def by (metis (mono_tags, lifting) find_None_iff not_None_eq)
  let ?chain = "List.map_filter (descriptor_for_stack D) open_cycle @ [d]"
  obtain x xs where "?chain = x # xs" by (cases ?chain) auto
  then show ?thesis
    by (auto simp: module_cycle_error_def d Let_def module_errors dest!: in_set_takeD)
qed

lemma valid_module_member:
  assumes "valid_module D t"
  obtains d where "d \<in> set D" "md_type_id d = t"
proof -
  obtain d where "filter (\<lambda>d. md_type_id d = t) D = [d]" using assms by (auto simp: valid_module_def)
  then have "d \<in> set (filter (\<lambda>d. md_type_id d = t) D)" by simp
  then show thesis by (intro that) auto
qed

lemma visit_cycle:
  assumes "mod_inv D r s" "(r, m) \<in> (imp_rel D)\<^sup>*" "(last (bs_stack s), m) \<in> imp_rel D"
    and "position (\<lambda>id. id = m) (bs_stack s) = Some k"
  shows "module_failure (visit_module D (Suc fuel) m s)" "\<not> catalog_ok D r"
proof -
  have k: "k < length (bs_stack s)" "bs_stack s ! k = m" using position_SomeD [OF assms(4)] by auto
  then have "m \<in> bs_visited s" using assms(1) by (auto simp: mod_inv_def search_ok_def)
  then have "valid_module D m" using assms(1) by (auto simp: mod_inv_def search_ok_def)
  then obtain d where "d \<in> set D" "md_type_id d = m" by (rule valid_module_member)
  with cycle_error_ok assms(4) show "module_failure (visit_module D (Suc fuel) m s)" by simp
  have "(bs_stack s ! k, bs_stack s ! (length (bs_stack s) - 1)) \<in> (imp_rel D)\<^sup>*"
    using assms(1) k(1) by (intro path_rtrancl) (auto simp: mod_inv_def search_ok_def)
  moreover have "last (bs_stack s) = bs_stack s ! (length (bs_stack s) - 1)"
    using k(1) by (intro last_conv_nth) auto
  ultimately have "(m, m) \<in> (imp_rel D)\<^sup>+" using assms(3) k(2) by (metis rtrancl_into_trancl1)
  with assms(2) show "\<not> catalog_ok D r" by (auto simp: catalog_ok_def)
qed

text \<open>The state in which the imports of a new module are visited.\<close>

lemma enter_ok:
  assumes inv: "mod_inv D r s" and reach: "(r, m) \<in> (imp_rel D)\<^sup>*" and valid: "valid_module D m"
    and top: "bs_stack s \<noteq> [] \<longrightarrow> (last (bs_stack s), m) \<in> imp_rel D"
    and ids: "module_ids s \<subseteq> insert m (bs_visited s)" and new: "m \<notin> bs_visited s"
    and t: "nodes_ok D t" "grows s0 t" "bs_visited t = insert m (bs_visited s)"
      "module_ids t = insert m (module_ids s)"
    and s0: "s0 = s\<lparr>bs_visited := insert m (bs_visited s)\<rparr>"
  defines "u \<equiv> t\<lparr>bs_stack := bs_stack t @ [m]\<rparr>"
  shows "mod_inv D r u" "module_ids u \<subseteq> bs_visited u" "unvisited D u < unvisited D s"
proof -
  have nodes_s0: "nodes_ok D s0" using inv by (simp add: mod_inv_def nodes_ok_def s0)
  have stack: "bs_stack u = bs_stack s @ [m]" "m \<notin> set (bs_stack s)"
    using t(2) inv new by (auto simp: grows_def u_def s0 mod_inv_def search_ok_def)
  have fin: "finished u = finished s"
    using t(3) stack new unfolding finished_def by (auto simp: u_def)
  have edges: "has_edge u a b" if "has_edge s a b" for a b
    using grows_edge [OF nodes_s0 t(2), of a b] that by (simp add: has_edge_def u_def s0)
  have path: "(bs_stack u ! k, bs_stack u ! Suc k) \<in> imp_rel D" if "Suc k < length (bs_stack u)" for k
  proof (cases "Suc k < length (bs_stack s)")
    case True
    then show ?thesis using inv by (simp add: stack nth_append mod_inv_def search_ok_def)
  next
    case False
    with that have k: "Suc k = length (bs_stack s)" by (simp add: stack)
    then have "bs_stack s ! k = last (bs_stack s)" "bs_stack s \<noteq> []"
      by (metis diff_Suc_1 last_conv_nth list.size(3) nat.distinct(1), auto)
    with top k show ?thesis by (simp add: stack nth_append)
  qed
  have u: "bs_visited u = insert m (bs_visited s)" "module_ids u = insert m (module_ids s)"
    using t(3,4) by (simp_all add: u_def module_ids_def)
  have s: "search_ok D r s" using inv by (simp add: mod_inv_def)
  have "search_ok D r u"
    unfolding search_ok_def fin u
  proof (intro conjI)
    show "distinct (bs_stack u)" "set (bs_stack u) \<subseteq> insert m (bs_visited s)"
      "\<forall>t\<in>insert m (bs_visited s). (r, t) \<in> (imp_rel D)\<^sup>* \<and> valid_module D t"
      "insert m (bs_visited s) \<subseteq> insert m (module_ids s)"
      "acyclic {(a, b). a \<in> finished s \<and> (a, b) \<in> imp_rel D}"
      using s stack reach valid unfolding search_ok_def by auto
    show "\<forall>a\<in>finished s. \<forall>b. (a, b) \<in> imp_rel D \<longrightarrow> b \<in> finished s \<and> has_edge u a b"
      using s edges unfolding search_ok_def by blast
  qed (use path in blast)
  with t(1) show "mod_inv D r u" by (simp add: mod_inv_def nodes_ok_def u_def)
  show "module_ids u \<subseteq> bs_visited u" using ids u by auto
  obtain d where "d \<in> set D" "md_type_id d = m" using valid by (rule valid_module_member)
  then show "unvisited D u < unvisited D s"
    using new unfolding unvisited_def u by (intro psubset_card_mono) auto
qed

text \<open>Leaving a module whose imports are all finished.\<close>

lemma leave_ok:
  assumes inv: "mod_inv D r t" and stack: "bs_stack t = st @ [m]"
    and deps: "\<And>b. (m, b) \<in> imp_rel D \<Longrightarrow> b \<in> finished t \<and> has_edge t m b"
  shows "mod_inv D r (t\<lparr>bs_stack := butlast (bs_stack t)\<rparr>)" (is "mod_inv D r ?u")
    and "m \<in> finished (t\<lparr>bs_stack := butlast (bs_stack t)\<rparr>)"
proof -
  have s: "search_ok D r t" "nodes_ok D t" using inv by (simp_all add: mod_inv_def)
  have st: "distinct (st @ [m])" "set (st @ [m]) \<subseteq> bs_visited t"
    using s(1) unfolding search_ok_def stack by auto
  then have fin: "finished ?u = insert m (finished t)" "m \<notin> finished t"
    by (auto simp: finished_def stack)
  have "m \<notin> finished t" using fin by simp
  then have "acyclic ({(a, b). a \<in> finished t \<and> (a, b) \<in> imp_rel D} \<union> {(a, b). a = m \<and> (a, b) \<in> imp_rel D})"
    using s(1) deps unfolding search_ok_def by (intro acyclic_add_source [where i = m]) auto
  also have "{(a, b). a \<in> finished t \<and> (a, b) \<in> imp_rel D} \<union> {(a, b). a = m \<and> (a, b) \<in> imp_rel D} =
      {(a, b). a \<in> finished ?u \<and> (a, b) \<in> imp_rel D}" unfolding fin(1) by blast
  finally have acyc: "acyclic {(a, b). a \<in> finished ?u \<and> (a, b) \<in> imp_rel D}" .
  have path: "(st ! k, st ! Suc k) \<in> imp_rel D" if "Suc k < length st" for k
  proof -
    have "(bs_stack t ! k, bs_stack t ! Suc k) \<in> imp_rel D"
      using s(1) that stack by (simp add: search_ok_def)
    then show ?thesis using that stack by (simp add: nth_append)
  qed
  have edge: "has_edge ?u a b = has_edge t a b" for a b by (simp add: has_edge_def)
  have "\<forall>a\<in>finished ?u. \<forall>b. (a, b) \<in> imp_rel D \<longrightarrow> b \<in> finished ?u \<and> has_edge ?u a b"
    using s(1) deps unfolding search_ok_def fin(1) edge by blast
  moreover have "bs_stack ?u = st" "bs_visited ?u = bs_visited t" "module_ids ?u = module_ids t"
    by (simp_all add: stack module_ids_def)
  ultimately have "search_ok D r ?u"
    using s(1) st path acyc unfolding search_ok_def by auto
  with s(2) show "mod_inv D r ?u" by (simp add: mod_inv_def nodes_ok_def)
  show "m \<in> finished ?u" using fin by simp
qed

lemma imp_rel_unique:
  assumes "filter (\<lambda>d. md_type_id d = t) D = [d]"
  shows "(t, b) \<in> imp_rel D \<longleftrightarrow> (\<exists>i\<in>set (md_imports d). b = imp_type_id i)"
proof -
  have "d' = d" if "d' \<in> set D" "md_type_id d' = t" for d'
  proof -
    have "d' \<in> set (filter (\<lambda>d. md_type_id d = t) D)" using that by simp
    then show ?thesis using assms by simp
  qed
  moreover have "d \<in> set (filter (\<lambda>d. md_type_id d = t) D)" using assms by simp
  ultimately show ?thesis by (auto simp: imp_rel_def)
qed

lemma not_catalog_ok: "(r, m) \<in> (imp_rel D)\<^sup>* \<Longrightarrow> \<not> valid_module D m \<Longrightarrow> \<not> catalog_ok D r"
  by (auto simp: catalog_ok_def)

text \<open>Entering a new module: an invalid one is an error, a valid one has its imports visited.\<close>

lemma visit_new_cases:
  assumes nodes: "nodes_ok D s" and new: "m \<notin> bs_visited s"
    and off: "position (\<lambda>id. id = m) (bs_stack s) = None"
  defines "s0 \<equiv> s\<lparr>bs_visited := insert m (bs_visited s)\<rparr>"
  obtains d i t where "filter (\<lambda>d. md_type_id d = m) D = [d]" "valid_module D m"
    "grows s0 t" "nodes_ok D t" "i < length (bs_modules t)" "mn_type_id (bs_modules t ! i) = m"
    "bs_visited t = insert m (bs_visited s)" "module_ids t = insert m (module_ids s)"
    "visit_module D (Suc fuel) m s =
       and_then (visit_imports D fuel i (md_imports d) (t\<lparr>bs_stack := bs_stack t @ [m]\<rparr>))
         (\<lambda>s. Inr (s\<lparr>bs_stack := butlast (bs_stack s)\<rparr>))"
  | "\<not> valid_module D m" "module_failure (visit_module D (Suc fuel) m s)"
proof (cases rule: require_descriptor_cases [of D m])
  case (2 e)
  with off new that(2) show thesis by simp
next
  case (1 d)
  have "d \<in> set (filter (\<lambda>d. md_type_id d = m) D)" using 1(2) by simp
  then have d: "d \<in> set D" "md_type_id d = m" by auto
  have uniq: "filter (\<lambda>d. md_type_id d = m) D = [d'] \<Longrightarrow> d' = d" for d' using 1(2) by simp
  have s0: "nodes_ok D s0" "bs_visited s0 = insert m (bs_visited s)" "module_ids s0 = module_ids s"
    using nodes by (simp_all add: nodes_ok_def s0_def module_ids_def)
  show thesis
  proof (cases rule: validate_namespace_cases [of D d])
    case fail: 2
    have "\<not> valid_module D m" using fail(2) uniq d(2) unfolding valid_module_def by metis
    with fail(1) 1 off new that(2) show thesis by (simp add: Let_def)
  next
    case name: (1 n)
    obtain i t where t: "ensure_node d s0 = Inr (i, t)" "grows s0 t" "nodes_ok D t"
      "i < length (bs_modules t)" "mn_type_id (bs_modules t ! i) = m"
      "bs_visited t = insert m (bs_visited s)" "module_ids t = insert m (module_ids s)"
      using ensure_node_cases [OF s0(1) d(1)] name(2) d(2) s0(2,3) by (metis option.distinct(1))
    show thesis
    proof (cases rule: validate_imports_cases [of d])
      case (2 e)
      have "\<not> valid_module D m" using 2(3) uniq unfolding valid_module_def by metis
      with 2 1 name t(1) off new that(2) show thesis by (simp add: Let_def s0_def)
    next
      case unique: 1
      have "valid_module D m" using 1(2) name d(2) unique(2) unfolding valid_module_def by blast
      with 1 name t off new unique(1) that(1) [of d t i] show thesis by (simp add: Let_def s0_def)
    qed
  qed
qed

lemma visit_valid:
  assumes spec: "visit_imports_spec D r fuel"
    and inv: "mod_inv D r s" and reach: "(r, m) \<in> (imp_rel D)\<^sup>*"
    and top: "bs_stack s \<noteq> [] \<longrightarrow> (last (bs_stack s), m) \<in> imp_rel D"
    and ids: "module_ids s \<subseteq> insert m (bs_visited s)" and fuel: "unvisited D s < Suc fuel"
    and new: "m \<notin> bs_visited s"
    and d: "filter (\<lambda>d. md_type_id d = m) D = [d]" and valid: "valid_module D m"
    and s0: "grows (s\<lparr>bs_visited := insert m (bs_visited s)\<rparr>) t"
    and t: "nodes_ok D t" "i < length (bs_modules t)" "mn_type_id (bs_modules t ! i) = m"
      "bs_visited t = insert m (bs_visited s)" "module_ids t = insert m (module_ids s)"
  shows "(\<exists>v. visit_imports D fuel i (md_imports d) (t\<lparr>bs_stack := bs_stack t @ [m]\<rparr>) = Inr v \<and>
      mod_inv D r (v\<lparr>bs_stack := butlast (bs_stack v)\<rparr>) \<and>
      grows s (v\<lparr>bs_stack := butlast (bs_stack v)\<rparr>) \<and>
      m \<in> finished (v\<lparr>bs_stack := butlast (bs_stack v)\<rparr>) \<and> module_ids v \<subseteq> bs_visited v) \<or>
    module_failure (visit_imports D fuel i (md_imports d) (t\<lparr>bs_stack := bs_stack t @ [m]\<rparr>)) \<and>
    \<not> catalog_ok D r"
proof -
  let ?u = "t\<lparr>bs_stack := bs_stack t @ [m]\<rparr>"
  have enter: "mod_inv D r ?u" "module_ids ?u \<subseteq> bs_visited ?u" "unvisited D ?u < unvisited D s"
    using enter_ok [OF inv reach valid top ids new t(1) s0 t(4,5)] by simp_all
  have u: "last (bs_stack ?u) = m" "bs_stack ?u \<noteq> []" "i < length (bs_modules ?u)"
    "mn_type_id (bs_modules ?u ! i) = last (bs_stack ?u)" "unvisited D ?u < fuel"
    using t(2,3) enter(3) fuel by simp_all
  have "\<forall>i\<in>set (md_imports d). (last (bs_stack ?u), imp_type_id i) \<in> imp_rel D"
    using imp_rel_unique [OF d] by auto
  then consider (returned) v where "visit_imports D fuel i (md_imports d) ?u = Inr v"
      "mod_inv D r v" "grows ?u v" "module_ids v \<subseteq> bs_visited v"
      "\<forall>i\<in>set (md_imports d). imp_type_id i \<in> finished v \<and> has_edge v m (imp_type_id i)"
    | (failed) "module_failure (visit_imports D fuel i (md_imports d) ?u)" "\<not> catalog_ok D r"
    using spec enter(1,2) u unfolding visit_imports_spec_def by metis
  then show ?thesis
  proof cases
    case returned
    have v: "bs_stack v = bs_stack s @ [m]" using returned(3) s0 by (simp add: grows_def)
    have edges: "b \<in> finished v \<and> has_edge v m b" if "(m, b) \<in> imp_rel D" for b
      using that returned(5) imp_rel_unique [OF d] by auto
    have "grows s (v\<lparr>bs_stack := butlast (bs_stack v)\<rparr>)"
      using returned(3) s0 v by (auto simp: grows_def)
    with leave_ok [OF returned(2) v edges] returned show ?thesis by blast
  qed simp
qed

lemma visit_from_imports:
  assumes "visit_imports_spec D r fuel"
  shows "visit_module_spec D r (Suc fuel)"
  unfolding visit_module_spec_def
proof (intro allI impI)
  fix s m
  assume inv: "mod_inv D r s" and reach: "(r, m) \<in> (imp_rel D)\<^sup>*"
    and top: "bs_stack s \<noteq> [] \<longrightarrow> (last (bs_stack s), m) \<in> imp_rel D"
    and ids: "module_ids s \<subseteq> insert m (bs_visited s)" and fuel: "unvisited D s < Suc fuel"
  let ?goal = "(\<exists>t. visit_module D (Suc fuel) m s = Inr t \<and> mod_inv D r t \<and> grows s t \<and>
      m \<in> finished t \<and> module_ids t \<subseteq> bs_visited t) \<or>
    module_failure (visit_module D (Suc fuel) m s) \<and> \<not> catalog_ok D r"
  consider (cycle) k where "position (\<lambda>id. id = m) (bs_stack s) = Some k"
    | (old) "position (\<lambda>id. id = m) (bs_stack s) = None" "m \<in> bs_visited s"
    | (new) "position (\<lambda>id. id = m) (bs_stack s) = None" "m \<notin> bs_visited s"
    by (cases "position (\<lambda>id. id = m) (bs_stack s)") auto
  then show ?goal
  proof cases
    case cycle
    then have "bs_stack s \<noteq> []" by auto
    with visit_cycle [OF inv reach _ cycle] top show ?goal by blast
  next
    case old
    then have "m \<in> finished s" by (auto simp: finished_def position_None_iff)
    with inv ids old show ?goal by auto
  next
    case new
    have nodes: "nodes_ok D s" using inv by (simp add: mod_inv_def)
    show ?goal
    proof (cases rule: visit_new_cases [OF nodes new(2,1), where fuel = fuel])
      case (1 d i t)
      from visit_valid [OF assms inv reach top ids fuel new(2) 1(1-8)] show ?goal
        unfolding 1(9) by (auto simp: module_ids_def)
    next
      case 2
      with not_catalog_ok [OF reach] show ?goal by blast
    qed
  qed
qed

lemma visit_one_import:
  assumes "visit_module_spec D r fuel"
    and s: "mod_inv D r s" "bs_stack s \<noteq> []" "node < length (bs_modules s)"
      "mn_type_id (bs_modules s ! node) = last (bs_stack s)" "module_ids s \<subseteq> bs_visited s"
      "unvisited D s < fuel"
    and imp: "(last (bs_stack s), imp_type_id import) \<in> imp_rel D"
  obtains t where "\<And>is. visit_imports D fuel node (import # is) s = visit_imports D fuel node is t"
    "mod_inv D r t" "grows s t" "module_ids t \<subseteq> bs_visited t"
    "imp_type_id import \<in> finished t" "has_edge t (last (bs_stack s)) (imp_type_id import)"
  | "\<And>is. module_failure (visit_imports D fuel node (import # is) s)" "\<not> catalog_ok D r"
proof -
  let ?m = "imp_type_id import"
  have "last (bs_stack s) \<in> bs_visited s" using s(1,2) by (auto simp: mod_inv_def search_ok_def)
  then have reach: "(r, ?m) \<in> (imp_rel D)\<^sup>*"
    using s(1) imp unfolding mod_inv_def search_ok_def by (meson rtrancl.rtrancl_into_rtrancl)
  have inv: "nodes_ok D s" "search_ok D r s" using s(1) by (simp_all add: mod_inv_def)
  show thesis
  proof (cases rule: require_descriptor_cases [of D ?m])
    case (2 e)
    with not_catalog_ok [OF reach] that(2) show thesis by simp
  next
    case (1 d)
    have "d \<in> set (filter (\<lambda>d. md_type_id d = ?m) D)" using 1(2) by simp
    then have d: "d \<in> set D" "md_type_id d = ?m" by auto
    show thesis
    proof (cases rule: ensure_node_cases [OF inv(1) d(1)])
      case (2 e)
      then have "\<not> valid_module D ?m" using 1(2) by (auto simp: valid_module_def)
      with 1 2 not_catalog_ok [OF reach] that(2) show thesis by simp
    next
      case t: (1 j t)
      let ?u = "push_edge node j t"
      have node: "node < length (bs_modules t)" "mn_type_id (bs_modules t ! node) = last (bs_stack s)"
        using grows_node [OF t(2) s(3)] s(4) by simp_all
      have grows: "grows s ?u" using t(2) push_edge_simps(5) by (rule grows_trans)
      have "nodes_ok D ?u" using nodes_ok_push_edge [OF t(3) node(1) t(4)] node(2) t(5) d(2) imp by simp
      moreover have "search_ok D r ?u" using search_ok_grow [OF inv(2,1) grows] t(6) by simp
      ultimately have u: "mod_inv D r ?u" by (simp add: mod_inv_def)
      have stack: "bs_stack ?u = bs_stack s" using grows by (simp add: grows_def)
      have edge: "has_edge ?u (last (bs_stack s)) ?m"
        using has_edge_push [of node j t] node(2) t(5) d(2) by simp
      have "module_ids ?u \<subseteq> insert ?m (bs_visited ?u)" using t(6,8) d(2) s(5) by auto
      moreover have "unvisited D ?u < fuel" using grows_unvisited [OF grows, of D] s(6) by simp
      ultimately consider (returned) v where "visit_module D fuel ?m ?u = Inr v" "mod_inv D r v"
          "grows ?u v" "?m \<in> finished v" "module_ids v \<subseteq> bs_visited v"
        | (failed) "module_failure (visit_module D fuel ?m ?u)" "\<not> catalog_ok D r"
        using assms(1) u reach imp stack unfolding visit_module_spec_def by metis
      then show thesis
      proof cases
        case returned
        have "has_edge v (last (bs_stack s)) ?m"
          using grows_edge [of D ?u v] u returned(3) edge unfolding mod_inv_def by blast
        with returned 1 t(1) grows_trans [OF grows returned(3)] show thesis by (intro that(1)) auto
      next
        case failed
        with 1 t(1) show thesis by (intro that(2)) auto
      qed
    qed
  qed
qed

lemma imports_from_visit:
  assumes spec: "visit_module_spec D r fuel"
  shows "visit_imports_spec D r fuel"
  unfolding visit_imports_spec_def
proof (intro allI impI)
  fix s node and "is" :: "module_import_descriptor list"
  assume "mod_inv D r s" "bs_stack s \<noteq> []" "node < length (bs_modules s)"
    "mn_type_id (bs_modules s ! node) = last (bs_stack s)"
    "\<forall>i\<in>set is. (last (bs_stack s), imp_type_id i) \<in> imp_rel D"
    "module_ids s \<subseteq> bs_visited s" "unvisited D s < fuel"
  then show "(\<exists>t. visit_imports D fuel node is s = Inr t \<and> mod_inv D r t \<and> grows s t \<and>
      module_ids t \<subseteq> bs_visited t \<and>
      (\<forall>i\<in>set is. imp_type_id i \<in> finished t \<and> has_edge t (last (bs_stack s)) (imp_type_id i))) \<or>
    module_failure (visit_imports D fuel node is s) \<and> \<not> catalog_ok D r"
  proof (induction "is" arbitrary: s)
    case (Cons i "is")
    have imp: "(last (bs_stack s), imp_type_id i) \<in> imp_rel D" using Cons.prems(5) by simp
    show ?case
    proof (cases rule: visit_one_import [OF spec Cons.prems(1-4) Cons.prems(6,7) imp])
      case (1 t)
      have stack: "bs_stack t = bs_stack s" using 1(3) by (simp add: grows_def)
      have node: "node < length (bs_modules t)" "mn_type_id (bs_modules t ! node) = last (bs_stack t)"
        using grows_node [OF 1(3) Cons.prems(3)] Cons.prems(4) stack by simp_all
      have "unvisited D t < fuel" using grows_unvisited [OF 1(3), of D] Cons.prems(7) by simp
      from Cons.IH [OF 1(2) _ node _ 1(4) this] Cons.prems(2,5)
      consider (returned) u where "visit_imports D fuel node is t = Inr u" "mod_inv D r u"
          "grows t u" "module_ids u \<subseteq> bs_visited u"
          "\<forall>i\<in>set is. imp_type_id i \<in> finished u \<and> has_edge u (last (bs_stack s)) (imp_type_id i)"
        | (failed) "module_failure (visit_imports D fuel node is t)" "\<not> catalog_ok D r"
        unfolding stack by auto
      then show ?thesis
      proof cases
        case returned
        have "nodes_ok D t" using 1(2) by (simp add: mod_inv_def)
        then have "has_edge u (last (bs_stack s)) (imp_type_id i)"
          using grows_edge [of D t u] returned(3) 1(6) by blast
        with returned 1(5) grows_trans [OF 1(3) returned(3)] grows_finished [OF returned(3)]
        show ?thesis unfolding 1(1) by auto
      next
        case failed
        then show ?thesis unfolding 1(1) by blast
      qed
    next
      case 2
      then show ?thesis by blast
    qed
  qed simp
qed

lemma visit_module_correct: "visit_module_spec D r fuel"
proof (induction fuel)
  case 0
  then show ?case by (simp add: visit_module_spec_def)
next
  case (Suc fuel)
  then show ?case by (intro visit_from_imports imports_from_visit)
qed

section \<open>The module graph\<close>

text \<open>What a module graph of a root promises: the reachable modules and their direct imports.\<close>

definition module_graph_ok :: "module_graph \<Rightarrow> bool" where
  "module_graph_ok g \<longleftrightarrow>
     distinct (map mn_type_id (mg_modules g)) \<and> mg_root g < length (mg_modules g) \<and>
     (\<forall>e\<in>set (mg_imports g).
        mi_importer e < length (mg_modules g) \<and> mi_imported e < length (mg_modules g))"

definition module_graph_of :: "module_descriptor list \<Rightarrow> type_id \<Rightarrow> module_graph \<Rightarrow> bool" where
  "module_graph_of D root g \<longleftrightarrow>
     module_graph_ok g \<and> mn_type_id (graph_root g) = root \<and>
     (\<forall>m\<in>set (mg_modules g). node_of D m) \<and>
     (\<forall>t. is_reachable g t \<longleftrightarrow> (root, t) \<in> (imp_rel D)\<^sup>*) \<and>
     (\<forall>a b. directly_imports g a b \<longleftrightarrow> (root, a) \<in> (imp_rel D)\<^sup>* \<and> (a, b) \<in> imp_rel D)"

lemma finished_closed:
  assumes "search_ok D r s" "(a, b) \<in> (imp_rel D)\<^sup>*" "a \<in> finished s"
  shows "b \<in> finished s"
  using assms(2,3)
proof (induction rule: rtrancl_induct)
  case (step b c)
  then have "b \<in> finished s" by simp
  moreover have "\<forall>a\<in>finished s. \<forall>b. (a, b) \<in> imp_rel D \<longrightarrow> b \<in> finished s \<and> has_edge s a b"
    using assms(1) by (simp add: search_ok_def)
  ultimately show ?case using step.hyps(2) by blast
qed simp

lemma finished_catalog_ok:
  assumes "search_ok D r s" "r \<in> finished s"
  shows "catalog_ok D r"
  unfolding catalog_ok_def
proof (intro allI impI conjI)
  fix t assume "(r, t) \<in> (imp_rel D)\<^sup>*"
  then have t: "t \<in> finished s" by (rule finished_closed [OF assms(1) _ assms(2)])
  then have "t \<in> bs_visited s" by (simp add: finished_def)
  then show "valid_module D t" using assms(1) by (simp add: search_ok_def)
  let ?E = "{(a, b). a \<in> finished s \<and> (a, b) \<in> imp_rel D}"
  have closed: "b \<in> finished s" if "a \<in> finished s" "(a, b) \<in> imp_rel D" for a b
    using that by (meson assms(1) finished_closed r_into_rtrancl)
  have "b \<in> finished s \<and> (t, b) \<in> ?E\<^sup>+" if "(t, b) \<in> (imp_rel D)\<^sup>+" for b
    using that
  proof (induction rule: trancl_induct)
    case (base b)
    with t closed show ?case by auto
  next
    case (step b c)
    then have "c \<in> finished s" "(b, c) \<in> ?E" using closed by auto
    with step.IH show ?case by (blast intro: trancl_into_trancl)
  qed
  moreover have "acyclic ?E" using assms(1) by (simp add: search_ok_def)
  ultimately show "(t, t) \<notin> (imp_rel D)\<^sup>+" by (auto simp: acyclic_def)
qed

lemma final_graph:
  assumes inv: "mod_inv D r s" and "bs_stack s = []" "r \<in> finished s" "module_ids s \<subseteq> bs_visited s"
    and root: "node_index s r = Some k"
  shows "module_graph_of D r \<lparr>mg_root = k, mg_modules = bs_modules s, mg_imports = bs_imports s,
    mg_provider_ownership = []\<rparr>" (is "module_graph_of D r ?g")
proof -
  have s: "search_ok D r s" "nodes_ok D s" using inv by (simp_all add: mod_inv_def)
  have fin: "finished s = bs_visited s" using assms(2) by (simp add: finished_def)
  have ids: "module_ids s = bs_visited s" using s(1) assms(4) by (auto simp: search_ok_def)
  have reach: "t \<in> bs_visited s \<longleftrightarrow> (r, t) \<in> (imp_rel D)\<^sup>*" for t
    using s(1) finished_closed [OF s(1), of r t] assms(3) fin by (auto simp: search_ok_def)
  have k: "k < length (bs_modules s)" "mn_type_id (bs_modules s ! k) = r"
    using position_SomeD [OF root [unfolded node_index_def]] by auto
  have "is_reachable ?g t \<longleftrightarrow> t \<in> module_ids s" for t
    by (auto simp: is_reachable_def list_ex_iff module_ids_def)
  moreover have "directly_imports ?g a b \<longleftrightarrow> has_edge s a b" for a b
    by (simp add: directly_imports_def has_edge_def list_ex_iff edge_importer_def edge_imported_def)
  moreover have "has_edge s a b \<longleftrightarrow> a \<in> bs_visited s \<and> (a, b) \<in> imp_rel D" for a b
  proof
    assume "has_edge s a b"
    then obtain e where e: "e \<in> set (bs_imports s)" "mn_type_id (bs_modules s ! mi_importer e) = a"
      "mn_type_id (bs_modules s ! mi_imported e) = b" by (auto simp: has_edge_def)
    with s(2) have "mi_importer e < length (bs_modules s)" "(a, b) \<in> imp_rel D"
      by (auto simp: nodes_ok_def)
    moreover from this e(2) have "a \<in> module_ids s" unfolding module_ids_def by (metis imageI nth_mem)
    ultimately show "a \<in> bs_visited s \<and> (a, b) \<in> imp_rel D" by (simp add: ids)
  next
    assume "a \<in> bs_visited s \<and> (a, b) \<in> imp_rel D"
    with s(1) show "has_edge s a b" unfolding search_ok_def fin by blast
  qed
  ultimately show ?thesis
    using s(2) k ids reach
    by (simp add: module_graph_of_def module_graph_ok_def nodes_ok_def graph_root_def)
qed

text \<open>
  The construction always returns, without a panic: with the module graph of the root when the
  catalog reachable from it is well formed, with a \<open>MADS008\<close> error otherwise.
\<close>

lemma build_module_graph_correct:
  "if catalog_ok D root
   then \<exists>g. build_module_graph root D = Inr g \<and> module_graph_of D root g
   else \<exists>e. build_module_graph root D = Inl (Failed e) \<and> error_ok e \<and>
     (\<forall>d\<in>set (err_diagnostics e). diag_code d = MADS008)"
proof -
  define start where "start = \<lparr>bs_visited = {}, bs_stack = [], bs_modules = [], bs_imports = []\<rparr>"
  have inv: "mod_inv D root start"
    by (simp add: mod_inv_def nodes_ok_def search_ok_def finished_def acyclic_def start_def)
  have fuel: "unvisited D start < Suc (length D)"
    using card_image_le [of "set D" md_type_id] card_length [of D] by (simp add: unvisited_def start_def)
  have ids: "module_ids start \<subseteq> insert root (bs_visited start)" by (simp add: module_ids_def start_def)
  have top: "bs_stack start \<noteq> [] \<Longrightarrow> (last (bs_stack start), root) \<in> imp_rel D" by (simp add: start_def)
  from visit_module_correct [unfolded visit_module_spec_def, rule_format, OF inv rtrancl_refl top ids fuel]
  consider (returned) t where
      "visit_module D (Suc (length D)) root start = Inr t" "mod_inv D root t" "grows start t"
      "root \<in> finished t" "module_ids t \<subseteq> bs_visited t"
    | (failed) "module_failure (visit_module D (Suc (length D)) root start)" "\<not> catalog_ok D root"
    by blast
  then show ?thesis
  proof cases
    case returned
    have "bs_visited t \<subseteq> module_ids t" using returned(2) by (simp add: mod_inv_def search_ok_def)
    then have "root \<in> module_ids t" using returned(4) by (auto simp: finished_def)
    then obtain m where "m \<in> set (bs_modules t)" "mn_type_id m = root" by (auto simp: module_ids_def)
    then obtain k where k: "node_index t root = Some k"
      using position_exists [of m "bs_modules t" "\<lambda>m. mn_type_id m = root"]
      by (auto simp: node_index_def)
    have "bs_stack t = []" using returned(3) by (simp add: grows_def start_def)
    with final_graph [OF returned(2) _ returned(4,5) k] returned(1) k
    have "\<exists>g. build_module_graph root D = Inr g \<and> module_graph_of D root g"
      by (simp add: build_module_graph_def start_def [symmetric] del: visit_module.simps)
    moreover have "catalog_ok D root"
      using finished_catalog_ok [of D root t] returned(2,4) by (simp add: mod_inv_def)
    ultimately show ?thesis by simp
  next
    case failed
    then obtain e where e: "visit_module D (Suc (length D)) root start = Inl (Failed e)" "error_ok e"
      "\<forall>d\<in>set (err_diagnostics e). diag_code d = MADS008" by (auto simp: module_failure_def)
    then have "build_module_graph root D = Inl (Failed e)"
      by (simp add: build_module_graph_def start_def [symmetric] del: visit_module.simps)
    with e failed(2) show ?thesis by simp
  qed
qed

section \<open>The property\<close>

text \<open>
  C5: The rooted module graph is built exactly for the catalogs in which every module reachable
  from the root is declared once, has a namespace of its own, imports no module twice and takes
  part in no import cycle; the graph then has one node per reachable module and an edge exactly
  where one imports another. Every other catalog gives an MADS008 error, and no panic.
\<close>

theorem rooted_graph_exact:
  "if catalog_ok D root
   then \<exists>g. build_module_graph root D = Inr g \<and> module_graph_of D root g
   else \<exists>e. build_module_graph root D = Inl (Failed e) \<and> error_ok e \<and>
     (\<forall>d\<in>set (err_diagnostics e). diag_code d = MADS008)"
  by (rule build_module_graph_correct)

theorem rooted_graph_exact_witness:
  "\<exists>e. build_module_graph 1 [] = Inl (Failed e) \<and> error_ok e \<and>
     (\<forall>d\<in>set (err_diagnostics e). diag_code d = MADS008)"
proof -
  have "\<not> catalog_ok [] 1"
    by (auto simp: catalog_ok_def valid_module_def intro!: exI [of _ 1])
  then show ?thesis using rooted_graph_exact [of "[]" 1] by simp
qed

end
