(* ===== verification/Config.thy ===== *)
theory Config
  imports Diagnostics BTree
begin

text \<open>
  Configuration sources and their merge (\<open>crates/mads-core/src/config.rs\<close>): documents of scalars
  and string arrays under dotted keys, the sources that produce them, the merge in source order,
  and the interpolation of values of the form \<open>${NAME}\<close>.

  What the code reads from outside is data of the model: the result of reading and parsing a TOML
  file, the entries a dotenv file gives, and the environment. A TOML value is the type of the
  \<open>toml\<close> crate that the code matches on; a float is given by the text it prints as.
\<close>

section \<open>Documents\<close>

record config_document =
  doc_scalars :: "(string, string) btree_map"
  doc_string_arrays :: "(string, string list) btree_map"
  doc_tables :: "string btree_set"

definition document_new :: config_document where
  "document_new = \<lparr>doc_scalars = [], doc_string_arrays = [], doc_tables = []\<rparr>"

definition from_scalars :: "(string, string) btree_map \<Rightarrow> config_document" where
  "from_scalars values = \<lparr>doc_scalars = values, doc_string_arrays = [], doc_tables = []\<rparr>"

definition doc_insert_scalar :: "string \<Rightarrow> string \<Rightarrow> config_document \<Rightarrow> config_document" where
  "doc_insert_scalar key v d =
     d\<lparr>doc_string_arrays := bmap_remove key (doc_string_arrays d),
       doc_scalars := bmap_insert key v (doc_scalars d)\<rparr>"

definition doc_insert_string_array :: "string \<Rightarrow> string list \<Rightarrow> config_document \<Rightarrow> config_document" where
  "doc_insert_string_array key vs d =
     d\<lparr>doc_scalars := bmap_remove key (doc_scalars d),
       doc_string_arrays := bmap_insert key vs (doc_string_arrays d)\<rparr>"

definition doc_insert_table :: "string \<Rightarrow> config_document \<Rightarrow> config_document" where
  "doc_insert_table key d = d\<lparr>doc_tables := bset_insert key (doc_tables d)\<rparr>"

definition doc_len :: "config_document \<Rightarrow> nat" where
  "doc_len d = length (doc_scalars d) + length (doc_string_arrays d)"

definition doc_is_empty :: "config_document \<Rightarrow> bool" where
  "doc_is_empty d \<longleftrightarrow> doc_scalars d = [] \<and> doc_string_arrays d = []"

section \<open>Map and environment sources\<close>

record map_source =
  ms_name :: string
  ms_scalars :: "(string, string) btree_map"
  ms_string_arrays :: "(string, string list) btree_map"

definition map_source_new :: "string \<Rightarrow> (string \<times> string) list \<Rightarrow> map_source" where
  "map_source_new name values =
     \<lparr>ms_name = name, ms_scalars = bmap_of_list values, ms_string_arrays = []\<rparr>"

definition with_string_array :: "string \<Rightarrow> string list \<Rightarrow> map_source \<Rightarrow> map_source" where
  "with_string_array key values s =
     s\<lparr>ms_scalars := bmap_remove key (ms_scalars s),
       ms_string_arrays := bmap_insert key values (ms_string_arrays s)\<rparr>"

definition map_source_document :: "map_source \<Rightarrow> config_document" where
  "map_source_document s =
     \<lparr>doc_scalars = ms_scalars s, doc_string_arrays = ms_string_arrays s, doc_tables = []\<rparr>"

text \<open>An \<open>OsString\<close> that is no UTF-8 text has no string value.\<close>

datatype os_string = Utf8 string | NotUtf8

fun os_to_str :: "os_string \<Rightarrow> string option" where
  "os_to_str (Utf8 s) = Some s"
| "os_to_str NotUtf8 = None"

definition ascii_lowercase :: "char \<Rightarrow> char" where
  "ascii_lowercase c =
     (if 65 \<le> (of_char c :: nat) \<and> (of_char c :: nat) \<le> 90 then char_of ((of_char c :: nat) + 32) else c)"

text \<open>\<open>replace("__", ".")\<close>: the matches from left to right, without overlap.\<close>

fun replace_double_underscore :: "string \<Rightarrow> string" where
  "replace_double_underscore [] = []"
| "replace_double_underscore [c] = [c]"
| "replace_double_underscore (c # d # cs) =
     (if c = CHR ''_'' \<and> d = CHR ''_'' then CHR ''.'' # replace_double_underscore cs
      else c # replace_double_underscore (d # cs))"

definition normalize_environment_key :: "string \<Rightarrow> string" where
  "normalize_environment_key key = replace_double_underscore (map ascii_lowercase key)"

record env_source =
  es_prefix :: string
  es_variables :: "(os_string \<times> os_string) list"

definition env_entry :: "string \<Rightarrow> os_string \<times> os_string \<Rightarrow> (string \<times> string) option" where
  "env_entry prefix = (\<lambda>(key, v).
     case os_to_str key of
       None \<Rightarrow> None
     | Some key \<Rightarrow>
         (case strip_prefix prefix key of
            None \<Rightarrow> None
          | Some key \<Rightarrow>
              (case os_to_str v of
                 None \<Rightarrow> None
               | Some v \<Rightarrow> Some (normalize_environment_key key, v))))"

definition env_load :: "env_source \<Rightarrow> (string, string) btree_map" where
  "env_load s = bmap_of_list (List.map_filter (env_entry (es_prefix s)) (es_variables s))"

section \<open>TOML\<close>

datatype toml_value =
  TomlString string
| TomlInteger int
| TomlFloat string
| TomlBoolean bool
| TomlArray "toml_value list"
| TomlDatetime
| TomlTable "(string \<times> toml_value) list"

datatype toml_item =
  ItemNone
| ItemInlineTable
| ItemValue
| ItemArrayOfTables
| ItemTable "(string \<times> toml_item) list"

datatype toml_array_mode = RejectArrays | StringOnly

definition config_error :: "string \<Rightarrow> string \<Rightarrow> string \<Rightarrow> error" where
  "config_error title message name =
     error_new (with_subject name (diagnostic_new MADS020 title message))"

definition unsupported_value :: "string \<Rightarrow> string \<Rightarrow> error" where
  "unsupported_value key kind =
     config_error ''unsupported configuration value''
       (''configuration value has unsupported type `'' @ kind @ ''`'') key"

definition join_key :: "string \<Rightarrow> string \<Rightarrow> string" where
  "join_key prefix segment = (if prefix = [] then segment else prefix @ ''.'' @ segment)"

definition show_int :: "int \<Rightarrow> string" where
  "show_int i = (if i < 0 then ''-'' @ nat_digits (nat (- i)) else nat_digits (nat i))"

definition show_bool :: "bool \<Rightarrow> string" where
  "show_bool b = (if b then ''true'' else ''false'')"

definition insert_scalar :: "string \<Rightarrow> string \<Rightarrow> config_document \<Rightarrow> error + config_document" where
  "insert_scalar key v output =
     (if key = [] then Inl (unsupported_value key ''root scalar'')
      else Inr (doc_insert_scalar key v output))"

definition string_element :: "string \<Rightarrow> toml_value \<Rightarrow> error + string" where
  "string_element prefix v =
     (case v of TomlString s \<Rightarrow> Inr s | _ \<Rightarrow> Inl (unsupported_value prefix ''non-string array''))"

fun flatten_toml ::
    "string \<Rightarrow> toml_value \<Rightarrow> toml_array_mode \<Rightarrow> config_document \<Rightarrow> error + config_document"
  and flatten_entries ::
    "string \<Rightarrow> (string \<times> toml_value) list \<Rightarrow> toml_array_mode \<Rightarrow> config_document \<Rightarrow>
     error + config_document" where
  "flatten_toml prefix (TomlTable table) array_mode output =
     (let output = (if prefix \<noteq> [] then doc_insert_table prefix output else output) in
      if prefix = [] \<and> table = [] then Inr output
      else flatten_entries prefix table array_mode output)"
| "flatten_toml prefix (TomlString v) array_mode output = insert_scalar prefix v output"
| "flatten_toml prefix (TomlInteger v) array_mode output = insert_scalar prefix (show_int v) output"
| "flatten_toml prefix (TomlFloat v) array_mode output = insert_scalar prefix v output"
| "flatten_toml prefix (TomlBoolean v) array_mode output = insert_scalar prefix (show_bool v) output"
| "flatten_toml prefix (TomlArray vs) array_mode output =
     (case array_mode of
        RejectArrays \<Rightarrow> Inl (unsupported_value prefix ''array'')
      | StringOnly \<Rightarrow>
          and_then (try_map (string_element prefix) vs)
            (\<lambda>vs. Inr (doc_insert_string_array prefix vs output)))"
| "flatten_toml prefix TomlDatetime array_mode output = Inl (unsupported_value prefix ''datetime'')"
| "flatten_entries prefix [] array_mode output = Inr output"
| "flatten_entries prefix ((segment, v) # table) array_mode output =
     and_then (flatten_toml (join_key prefix segment) v array_mode output)
       (flatten_entries prefix table array_mode)"

fun inline_table_key :: "string \<Rightarrow> (string \<times> toml_item) list \<Rightarrow> string option"
  and inline_item_key :: "string \<Rightarrow> toml_item \<Rightarrow> string option" where
  "inline_table_key prefix [] = None"
| "inline_table_key prefix ((segment, item) # table) =
     (case inline_item_key (join_key prefix segment) item of
        Some key \<Rightarrow> Some key
      | None \<Rightarrow> inline_table_key prefix table)"
| "inline_item_key key ItemInlineTable = Some key"
| "inline_item_key key (ItemTable nested) = inline_table_key key nested"
| "inline_item_key key ItemNone = None"
| "inline_item_key key ItemValue = None"
| "inline_item_key key ItemArrayOfTables = None"

text \<open>The results of the two parsers, of \<open>toml\<close> and of \<open>toml_edit\<close>, are given.\<close>

definition parse_toml_document ::
    "toml_value option \<Rightarrow> (string \<times> toml_item) list option \<Rightarrow> string \<Rightarrow> toml_array_mode \<Rightarrow>
     error + config_document" where
  "parse_toml_document parsed syntax source_name array_mode =
     (let invalid = config_error ''configuration file could not be parsed''
        (''configuration file `'' @ source_name @ ''` is not valid TOML'') source_name in
      and_then (ok_or invalid parsed) (\<lambda>parsed. and_then (ok_or invalid syntax) (\<lambda>syntax.
        case inline_table_key [] syntax of
          Some key \<Rightarrow> Inl (unsupported_value key ''inline table'')
        | None \<Rightarrow> flatten_toml [] parsed array_mode document_new)))"

datatype toml_file = TomlFile "toml_value option" "(string \<times> toml_item) list option"
  | FileNotFound string | FileUnreadable string

record toml_source =
  ts_path :: string
  ts_name :: string
  ts_required :: bool

definition unreadable_file :: "string \<Rightarrow> string \<Rightarrow> error" where
  "unreadable_file name cause =
     with_source (with_subject name (diagnostic_new MADS020 ''configuration file could not be read''
       (''could not read configuration file `'' @ name @ ''`''))) (ForeignSource cause)"

definition toml_source_parse :: "toml_source \<Rightarrow> toml_file \<Rightarrow> toml_array_mode \<Rightarrow> error + config_document" where
  "toml_source_parse s contents array_mode =
     (case contents of
        TomlFile parsed syntax \<Rightarrow> parse_toml_document parsed syntax (ts_name s) array_mode
      | FileNotFound cause \<Rightarrow>
          if \<not> ts_required s then Inr document_new else Inl (unreadable_file (ts_name s) cause)
      | FileUnreadable cause \<Rightarrow> Inl (unreadable_file (ts_name s) cause))"

section \<open>Interpolation\<close>

definition variable_opening :: string where
  "variable_opening = ''${''"

definition exact_variable_name :: "string \<Rightarrow> string option" where
  "exact_variable_name v =
     (case strip_prefix variable_opening v of
        None \<Rightarrow> None
      | Some rest \<Rightarrow>
          (case strip_suffix ''}'' rest of
             None \<Rightarrow> None
           | Some variable \<Rightarrow>
               if variable \<noteq> [] \<and> \<not> str_contains variable_opening variable
                  \<and> \<not> str_contains ''}'' variable \<and> \<not> str_contains '':-'' variable
               then Some variable else None))"

definition resolve_variable ::
    "string \<Rightarrow> string \<Rightarrow> (string, string) btree_map \<Rightarrow> error + string" where
  "resolve_variable key variable variables =
     ok_or (config_error ''configuration variable is missing''
         (''configuration variable `'' @ variable @ ''` is not defined'') key)
       (bmap_get variable variables)"

section \<open>The merge\<close>

record config_origin =
  co_label :: string
  co_relative_path_base :: "string option"

record config_value =
  cv_value :: string
  cv_origin :: config_origin

record config_string_array =
  ca_value :: "string list"
  ca_origin :: config_origin

record config =
  cfg_values :: "(string, config_value) btree_map"
  cfg_string_arrays :: "(string, config_string_array) btree_map"
  cfg_tables :: "(string, config_origin) btree_map"

definition config_empty :: config where
  "config_empty = \<lparr>cfg_values = [], cfg_string_arrays = [], cfg_tables = []\<rparr>"

text \<open>A source by its name, its base directory and the result of its \<open>load_document\<close>.\<close>

record config_source =
  src_name :: string
  src_relative_path_base :: "string option"
  src_document :: "error + config_document"

definition merge_scalar :: "config_origin \<Rightarrow> string \<times> string \<Rightarrow> config \<Rightarrow> config" where
  "merge_scalar origin = (\<lambda>(key, v) c.
     c\<lparr>cfg_string_arrays := bmap_remove key (cfg_string_arrays c),
       cfg_values := bmap_insert key \<lparr>cv_value = v, cv_origin = origin\<rparr> (cfg_values c)\<rparr>)"

definition merge_string_array :: "config_origin \<Rightarrow> string \<times> string list \<Rightarrow> config \<Rightarrow> config" where
  "merge_string_array origin = (\<lambda>(key, vs) c.
     c\<lparr>cfg_values := bmap_remove key (cfg_values c),
       cfg_string_arrays := bmap_insert key \<lparr>ca_value = vs, ca_origin = origin\<rparr> (cfg_string_arrays c)\<rparr>)"

definition merge_table :: "config_origin \<Rightarrow> string \<Rightarrow> config \<Rightarrow> config" where
  "merge_table origin key c = c\<lparr>cfg_tables := bmap_insert key origin (cfg_tables c)\<rparr>"

definition merge_document :: "config_origin \<Rightarrow> config_document \<Rightarrow> config \<Rightarrow> config" where
  "merge_document origin d c =
     fold (merge_table origin) (doc_tables d)
       (fold (merge_string_array origin) (doc_string_arrays d)
         (fold (merge_scalar origin) (doc_scalars d) c))"

definition source_origin :: "config_source \<Rightarrow> config_origin" where
  "source_origin s = \<lparr>co_label = src_name s, co_relative_path_base = src_relative_path_base s\<rparr>"

definition merge_source :: "config_source \<Rightarrow> config \<Rightarrow> error + config" where
  "merge_source s c = and_then (src_document s) (\<lambda>d. Inr (merge_document (source_origin s) d c))"

definition interpolate_element :: "(string, string) btree_map \<Rightarrow> string \<Rightarrow> string \<Rightarrow> error + string" where
  "interpolate_element variables key v =
     (case exact_variable_name v of
        None \<Rightarrow> Inr v
      | Some variable \<Rightarrow> resolve_variable key variable variables)"

definition interpolate_value ::
    "(string, string) btree_map \<Rightarrow> string \<times> config_value \<Rightarrow> error + string \<times> config_value" where
  "interpolate_value variables = (\<lambda>(key, v).
     and_then (interpolate_element variables key (cv_value v)) (\<lambda>x. Inr (key, v\<lparr>cv_value := x\<rparr>)))"

definition interpolate_array ::
    "(string, string) btree_map \<Rightarrow> string \<times> config_string_array \<Rightarrow> error + string \<times> config_string_array" where
  "interpolate_array variables = (\<lambda>(key, v).
     and_then (try_map (interpolate_element variables key) (ca_value v))
       (\<lambda>xs. Inr (key, v\<lparr>ca_value := xs\<rparr>)))"

text \<open>Opening a dotenv file and iterating over it: an entry is \<open>None\<close> where the syntax is wrong.\<close>

datatype dotenv_file = DotenvEntries "(string \<times> string) option list"
  | DotenvNotFound string | DotenvUnreadable string | DotenvInvalid

record dotenv_source =
  ds_name :: string
  ds_required :: bool
  ds_contents :: dotenv_file

definition dotenv_parse_error :: "dotenv_source \<Rightarrow> error" where
  "dotenv_parse_error s =
     config_error ''configuration variable file could not be parsed''
       (''configuration variable file `'' @ ds_name s @ ''` is not valid dotenv syntax'') (ds_name s)"

definition dotenv_unreadable :: "dotenv_source \<Rightarrow> string \<Rightarrow> error" where
  "dotenv_unreadable s cause =
     with_source (with_subject (ds_name s)
       (diagnostic_new MADS020 ''configuration variable file could not be read''
         (''could not read configuration variable file `'' @ ds_name s @ ''`''))) (ForeignSource cause)"

definition dotenv_variables ::
    "dotenv_source \<Rightarrow> (string, string) btree_map \<Rightarrow> error + (string, string) btree_map" where
  "dotenv_variables s variables =
     (case ds_contents s of
        DotenvEntries entries \<Rightarrow>
          try_fold (\<lambda>entry variables.
              and_then (ok_or (dotenv_parse_error s) entry)
                (\<lambda>(key, v). Inr (bmap_insert key v variables)))
            entries variables
      | DotenvNotFound cause \<Rightarrow>
          if \<not> ds_required s then Inr variables else Inl (dotenv_unreadable s cause)
      | DotenvUnreadable cause \<Rightarrow> Inl (dotenv_unreadable s cause)
      | DotenvInvalid \<Rightarrow> Inl (dotenv_parse_error s))"

definition environment_variables ::
    "(os_string \<times> os_string) list \<Rightarrow> (string, string) btree_map \<Rightarrow> (string, string) btree_map" where
  "environment_variables environment variables =
     fold (\<lambda>(key, v) variables.
         case (os_to_str key, os_to_str v) of
           (Some key, Some v) \<Rightarrow> bmap_insert key v variables
         | _ \<Rightarrow> variables)
       environment variables"

definition build_with_environment ::
    "dotenv_source list \<Rightarrow> config_source list \<Rightarrow> (os_string \<times> os_string) list \<Rightarrow> error + config" where
  "build_with_environment dotenv_sources sources environment =
     and_then (try_fold dotenv_variables dotenv_sources [])
       (\<lambda>variables.
         let variables = environment_variables environment variables in
         and_then (try_fold merge_source sources config_empty)
           (\<lambda>c. and_then (try_map (interpolate_value variables) (cfg_values c))
             (\<lambda>values. and_then (try_map (interpolate_array variables) (cfg_string_arrays c))
               (\<lambda>arrays. Inr (c\<lparr>cfg_values := values, cfg_string_arrays := arrays\<rparr>)))))"

section \<open>Reading a configuration\<close>

definition config_get :: "string \<Rightarrow> config \<Rightarrow> string option" where
  "config_get key c = map_option cv_value (bmap_get key (cfg_values c))"

definition source_of :: "string \<Rightarrow> config \<Rightarrow> string option" where
  "source_of key c = map_option (\<lambda>v. co_label (cv_origin v)) (bmap_get key (cfg_values c))"

definition contains_table :: "string \<Rightarrow> config \<Rightarrow> bool" where
  "contains_table key c \<longleftrightarrow> bmap_get key (cfg_tables c) \<noteq> None"

definition table_source :: "string \<Rightarrow> config \<Rightarrow> string option" where
  "table_source key c = map_option co_label (bmap_get key (cfg_tables c))"

definition get_string_array :: "string \<Rightarrow> config \<Rightarrow> string list option" where
  "get_string_array key c = map_option ca_value (bmap_get key (cfg_string_arrays c))"

definition source_of_string_array :: "string \<Rightarrow> config \<Rightarrow> string option" where
  "source_of_string_array key c =
     map_option (\<lambda>v. co_label (ca_origin v)) (bmap_get key (cfg_string_arrays c))"

text \<open>\<open>Path::join\<close> of a relative path on Unix.\<close>

definition path_join :: "string \<Rightarrow> string \<Rightarrow> string" where
  "path_join base path =
     (if base = [] \<or> last base = CHR ''/'' then base @ path else base @ ''/'' @ path)"

definition resolve_path :: "string option \<Rightarrow> string \<Rightarrow> config \<Rightarrow> string option" where
  "resolve_path current_dir key c =
     (case bmap_get key (cfg_values c) of
        None \<Rightarrow> None
      | Some v \<Rightarrow>
          if starts_with ''/'' (cv_value v) then Some (cv_value v)
          else
            (case (case co_relative_path_base (cv_origin v) of
                     Some base \<Rightarrow> Some base | None \<Rightarrow> current_dir) of
               None \<Rightarrow> None
             | Some base \<Rightarrow> Some (path_join base (cv_value v))))"

definition config_len :: "config \<Rightarrow> nat" where
  "config_len c = length (cfg_values c) + length (cfg_string_arrays c)"

definition config_is_empty :: "config \<Rightarrow> bool" where
  "config_is_empty c \<longleftrightarrow> cfg_values c = [] \<and> cfg_string_arrays c = []"

section \<open>Exact variables\<close>

lemma strip_append [simp]: "strip_prefix p (p @ t) = Some t" "strip_suffix p (t @ p) = Some t"
  by (simp_all add: strip_prefix_eq strip_suffix_eq)

lemma exact_variable_name_iff:
  "exact_variable_name v = Some name \<longleftrightarrow>
     v = variable_opening @ name @ ''}'' \<and> name \<noteq> [] \<and> \<not> str_contains variable_opening name \<and>
     CHR ''}'' \<notin> set name \<and> \<not> str_contains '':-'' name"
proof -
  have brace: "str_contains ''}'' x \<longleftrightarrow> CHR ''}'' \<in> set x" for x
    unfolding str_contains_iff by (metis append_Cons append_Nil in_set_conv_decomp)
  show ?thesis
    by (auto simp: exact_variable_name_def strip_prefix_eq strip_suffix_eq brace
        split: option.splits)
qed

section \<open>Environment keys\<close>

lemma starts_with_pair: "starts_with [a, b] (c # xs) \<longleftrightarrow> c = a \<and> xs \<noteq> [] \<and> hd xs = b"
  by (cases xs) (auto simp: starts_with_def)

lemma str_contains_Cons: "str_contains n (c # xs) \<longleftrightarrow> starts_with n (c # xs) \<or> str_contains n xs"
proof
  assume "str_contains n (c # xs)"
  then obtain a b where "c # xs = a @ n @ b" by (auto simp: str_contains_iff)
  then show "starts_with n (c # xs) \<or> str_contains n xs"
    by (cases a) (auto simp: starts_with_iff str_contains_iff)
next
  assume "starts_with n (c # xs) \<or> str_contains n xs"
  then show "str_contains n (c # xs)"
    unfolding starts_with_iff str_contains_iff by (metis append_Cons append_Nil)
qed

lemma replace_double_underscore_hd:
  "d \<noteq> CHR ''_'' \<Longrightarrow> hd (replace_double_underscore (d # cs)) = d"
  by (cases cs) auto

lemma replace_double_underscore_free:
  "\<not> str_contains ''__'' (replace_double_underscore s)"
proof (induction s rule: replace_double_underscore.induct)
  case 1
  then show ?case by (simp add: str_contains_iff)
next
  case (2 c)
  then show ?case by (auto simp: str_contains_iff append_eq_Cons_conv)
next
  case (3 c d cs)
  then show ?case
    using replace_double_underscore_hd [of d cs]
    by (auto simp: str_contains_Cons starts_with_pair)
qed

lemma ascii_lowercase_no_upper: "\<not> (65 \<le> (of_char (ascii_lowercase c) :: nat) \<and> (of_char (ascii_lowercase c) :: nat) \<le> 90)"
  by (auto simp: ascii_lowercase_def)

section \<open>The last source wins\<close>

datatype config_entry = ScalarEntry string config_origin | ArrayEntry "string list" config_origin

definition config_entry :: "config \<Rightarrow> string \<Rightarrow> config_entry option" where
  "config_entry c key =
     (case bmap_get key (cfg_string_arrays c) of
        Some a \<Rightarrow> Some (ArrayEntry (ca_value a) (ca_origin a))
      | None \<Rightarrow> map_option (\<lambda>v. ScalarEntry (cv_value v) (cv_origin v)) (bmap_get key (cfg_values c)))"

definition config_ok :: "config \<Rightarrow> bool" where
  "config_ok c \<longleftrightarrow>
     bmap_ok (cfg_values c) \<and> bmap_ok (cfg_string_arrays c) \<and>
     (\<forall>key. bmap_get key (cfg_values c) = None \<or> bmap_get key (cfg_string_arrays c) = None)"

definition document_ok :: "config_document \<Rightarrow> bool" where
  "document_ok d \<longleftrightarrow> bmap_ok (doc_scalars d) \<and> bmap_ok (doc_string_arrays d)"

definition document_entry :: "config_origin \<Rightarrow> config_document \<Rightarrow> string \<Rightarrow> config_entry option" where
  "document_entry origin d key =
     (case bmap_get key (doc_string_arrays d) of
        Some vs \<Rightarrow> Some (ArrayEntry vs origin)
      | None \<Rightarrow> map_option (\<lambda>v. ScalarEntry v origin) (bmap_get key (doc_scalars d)))"

fun last_entry :: "(config_origin \<times> config_document) list \<Rightarrow> string \<Rightarrow> config_entry option" where
  "last_entry [] key = None"
| "last_entry ((origin, d) # ds) key =
     (case last_entry ds key of Some e \<Rightarrow> Some e | None \<Rightarrow> document_entry origin d key)"

lemma merge_scalar_ok:
  assumes "config_ok c"
  shows "config_ok (merge_scalar origin (k, v) c)"
    and "config_entry (merge_scalar origin (k, v) c) key =
      (if key = k then Some (ScalarEntry v origin) else config_entry c key)"
  using assms
  by (auto simp: config_ok_def merge_scalar_def config_entry_def bmap.ok_insert bmap.ok_remove
      bmap.get_insert bmap.get_remove split: option.split)

lemma merge_string_array_ok:
  assumes "config_ok c"
  shows "config_ok (merge_string_array origin (k, v) c)"
    and "config_entry (merge_string_array origin (k, v) c) key =
      (if key = k then Some (ArrayEntry v origin) else config_entry c key)"
  using assms
  by (auto simp: config_ok_def merge_string_array_def config_entry_def bmap.ok_insert bmap.ok_remove
      bmap.get_insert bmap.get_remove split: option.split)

lemma merge_scalars_fold:
  "config_ok c \<Longrightarrow> distinct (map fst kvs) \<Longrightarrow>
   config_ok (fold (merge_scalar origin) kvs c) \<and>
   config_entry (fold (merge_scalar origin) kvs c) key =
     (case map_of kvs key of Some v \<Rightarrow> Some (ScalarEntry v origin) | None \<Rightarrow> config_entry c key)"
proof (induction kvs arbitrary: c)
  case (Cons kv kvs)
  obtain k v where kv: "kv = (k, v)" by (cases kv)
  note step = merge_scalar_ok [OF Cons.prems(1), of origin k v]
  have "map_of kvs k = None" using Cons.prems(2) by (simp add: kv map_of_eq_None_iff)
  with Cons.IH [OF step(1)] Cons.prems(2) step(2) show ?case by (auto simp: kv split: option.splits)
qed simp

lemma merge_string_arrays_fold:
  "config_ok c \<Longrightarrow> distinct (map fst kvs) \<Longrightarrow>
   config_ok (fold (merge_string_array origin) kvs c) \<and>
   config_entry (fold (merge_string_array origin) kvs c) key =
     (case map_of kvs key of Some v \<Rightarrow> Some (ArrayEntry v origin) | None \<Rightarrow> config_entry c key)"
proof (induction kvs arbitrary: c)
  case (Cons kv kvs)
  obtain k v where kv: "kv = (k, v)" by (cases kv)
  note step = merge_string_array_ok [OF Cons.prems(1), of origin k v]
  have "map_of kvs k = None" using Cons.prems(2) by (simp add: kv map_of_eq_None_iff)
  with Cons.IH [OF step(1)] Cons.prems(2) step(2) show ?case by (auto simp: kv split: option.splits)
qed simp

lemma merge_tables_fold:
  "cfg_values (fold (merge_table origin) ts c) = cfg_values c"
  "cfg_string_arrays (fold (merge_table origin) ts c) = cfg_string_arrays c"
  by (induction ts arbitrary: c) (simp_all add: merge_table_def)

lemma merge_document_ok:
  assumes "config_ok c" "document_ok d"
  shows "config_ok (merge_document origin d c)"
    and "config_entry (merge_document origin d c) key =
      (case document_entry origin d key of Some e \<Rightarrow> Some e | None \<Rightarrow> config_entry c key)"
proof -
  have d: "distinct (map fst (doc_scalars d))" "distinct (map fst (doc_string_arrays d))"
    using assms(2) by (simp_all add: document_ok_def bmap_ok_distinct)
  note scalars = merge_scalars_fold [OF assms(1) d(1), of origin]
  note arrays = merge_string_arrays_fold [OF conjunct1 [OF scalars] d(2), of origin]
  show "config_ok (merge_document origin d c)"
    using arrays by (simp add: merge_document_def config_ok_def merge_tables_fold)
  have "config_entry (merge_document origin d c) key =
      config_entry (fold (merge_string_array origin) (doc_string_arrays d)
        (fold (merge_scalar origin) (doc_scalars d) c)) key"
    by (simp add: merge_document_def config_entry_def merge_tables_fold split: option.split)
  with scalars arrays show "config_entry (merge_document origin d c) key =
      (case document_entry origin d key of Some e \<Rightarrow> Some e | None \<Rightarrow> config_entry c key)"
    by (auto simp: document_entry_def bmap_get_def split: option.splits)
qed

lemma merge_sources_ok:
  "list_all2 (\<lambda>s (origin, d). origin = source_origin s \<and> src_document s = Inr d \<and> document_ok d) sources ds \<Longrightarrow>
   config_ok c \<Longrightarrow>
   \<exists>c'. try_fold merge_source sources c = Inr c' \<and> config_ok c' \<and>
     (\<forall>key. config_entry c' key =
       (case last_entry ds key of Some e \<Rightarrow> Some e | None \<Rightarrow> config_entry c key))"
proof (induction sources ds arbitrary: c rule: list_all2_induct)
  case (Cons s sources od ds)
  obtain origin d where od: "od = (origin, d)" by (cases od)
  with Cons.hyps have "document_ok d" and merge: "merge_source s c = Inr (merge_document origin d c)"
    by (auto simp: merge_source_def)
  note step = merge_document_ok [OF Cons.prems this(1), of origin]
  from Cons.IH [OF step(1)] obtain c' where "try_fold merge_source sources (merge_document origin d c) = Inr c'"
    "config_ok c'" "\<forall>key. config_entry c' key = (case last_entry ds key of Some e \<Rightarrow> Some e
       | None \<Rightarrow> config_entry (merge_document origin d c) key)" by blast
  with step(2) merge show ?case by (auto simp: od split: option.splits)
qed simp

section \<open>Interpolation of the merged values\<close>

fun interpolate_entry :: "(string, string) btree_map \<Rightarrow> string \<Rightarrow> config_entry \<Rightarrow> error + config_entry" where
  "interpolate_entry variables key (ScalarEntry v origin) =
     and_then (interpolate_element variables key v) (\<lambda>x. Inr (ScalarEntry x origin))"
| "interpolate_entry variables key (ArrayEntry vs origin) =
     and_then (try_map (interpolate_element variables key) vs) (\<lambda>xs. Inr (ArrayEntry xs origin))"

text \<open>Mapping the values of a map, as far as no value fails.\<close>

lemma try_map_entries:
  assumes "bmap_ok m" "\<And>k v. f (k, v) = and_then (h k v) (\<lambda>x. Inr (k, x))"
  shows "(\<exists>m'. try_map f m = Inr m') \<longleftrightarrow> (\<forall>k v. bmap_get k m = Some v \<longrightarrow> (\<exists>x. h k v = Inr x))"
    and "try_map f m = Inr m' \<Longrightarrow> bmap_ok m' \<and>
      (\<forall>k. case bmap_get k m of None \<Rightarrow> bmap_get k m' = None
         | Some v \<Rightarrow> \<exists>x. h k v = Inr x \<and> bmap_get k m' = Some x)"
proof -
  have keys: "try_map f m = Inr m' \<Longrightarrow> map fst m' = map fst m \<and>
      (\<forall>k. case map_of m k of None \<Rightarrow> map_of m' k = None
         | Some v \<Rightarrow> \<exists>x. h k v = Inr x \<and> map_of m' k = Some x)" for m m'
  proof (induction m arbitrary: m')
    case (Cons e m)
    obtain k v where e: "e = (k, v)" by (cases e)
    from Cons.prems obtain x ms where x: "h k v = Inr x" "try_map f m = Inr ms" "m' = (k, x) # ms"
      by (auto simp: e assms(2) and_then_eq_Inr)
    note ih = Cons.IH [OF x(2)]
    have "case map_of (e # m) j of None \<Rightarrow> map_of m' j = None
         | Some v \<Rightarrow> \<exists>x. h j v = Inr x \<and> map_of m' j = Some x" for j
      using conjunct2 [OF ih, rule_format, of j] x(1,3)
      by (cases "map_of m j") (simp_all add: e)
    with ih x show ?case by (simp add: e)
  qed simp
  have total: "(\<exists>m'. try_map f m = Inr m') \<longleftrightarrow> (\<forall>(k, v)\<in>set m. \<exists>x. h k v = Inr x)" for m
    by (induction m) (auto simp: assms(2) and_then_eq_Inr)
  show "(\<exists>m'. try_map f m = Inr m') \<longleftrightarrow> (\<forall>k v. bmap_get k m = Some v \<longrightarrow> (\<exists>x. h k v = Inr x))"
    unfolding total by (auto simp: bmap.get_entries [OF assms(1)])
  show "try_map f m = Inr m' \<Longrightarrow> bmap_ok m' \<and>
      (\<forall>k. case bmap_get k m of None \<Rightarrow> bmap_get k m' = None
         | Some v \<Rightarrow> \<exists>x. h k v = Inr x \<and> bmap_get k m' = Some x)"
    using keys [of m m'] assms(1) unfolding bmap_ok_def bmap_get_def by simp
qed

definition interpolate_config :: "(string, string) btree_map \<Rightarrow> config \<Rightarrow> error + config" where
  "interpolate_config variables c =
     and_then (try_map (interpolate_value variables) (cfg_values c))
       (\<lambda>values. and_then (try_map (interpolate_array variables) (cfg_string_arrays c))
         (\<lambda>arrays. Inr (c\<lparr>cfg_values := values, cfg_string_arrays := arrays\<rparr>)))"

lemma interpolate_config_ok:
  assumes "config_ok c"
  shows "(\<exists>c'. interpolate_config variables c = Inr c') \<longleftrightarrow>
      (\<forall>k e. config_entry c k = Some e \<longrightarrow> (\<exists>x. interpolate_entry variables k e = Inr x))"
    and "interpolate_config variables c = Inr c' \<Longrightarrow> config_ok c' \<and>
      (\<forall>k. case config_entry c k of None \<Rightarrow> config_entry c' k = None
         | Some e \<Rightarrow> \<exists>x. interpolate_entry variables k e = Inr x \<and> config_entry c' k = Some x)"
proof -
  let ?hv = "\<lambda>k v. and_then (interpolate_element variables k (cv_value v)) (\<lambda>x. Inr (v\<lparr>cv_value := x\<rparr>))"
  let ?ha = "\<lambda>k v. and_then (try_map (interpolate_element variables k) (ca_value v)) (\<lambda>xs. Inr (v\<lparr>ca_value := xs\<rparr>))"
  have ok: "bmap_ok (cfg_values c)" "bmap_ok (cfg_string_arrays c)"
    "\<And>k. bmap_get k (cfg_values c) = None \<or> bmap_get k (cfg_string_arrays c) = None"
    using assms by (simp_all add: config_ok_def)
  have "interpolate_value variables (k, v) = and_then (?hv k v) (\<lambda>x. Inr (k, x))" for k v
    by (cases "interpolate_element variables k (cv_value v)") (simp_all add: interpolate_value_def)
  note vs = try_map_entries [OF ok(1) this]
  have "interpolate_array variables (k, v) = and_then (?ha k v) (\<lambda>x. Inr (k, x))" for k v
    by (cases "try_map (interpolate_element variables k) (ca_value v)") (simp_all add: interpolate_array_def)
  note as = try_map_entries [OF ok(2) this]
  have "(\<exists>c'. interpolate_config variables c = Inr c') \<longleftrightarrow>
      (\<exists>m. try_map (interpolate_value variables) (cfg_values c) = Inr m) \<and>
      (\<exists>m. try_map (interpolate_array variables) (cfg_string_arrays c) = Inr m)"
    by (auto simp: interpolate_config_def and_then_eq_Inr)
  also have "\<dots> \<longleftrightarrow> (\<forall>k e. config_entry c k = Some e \<longrightarrow> (\<exists>x. interpolate_entry variables k e = Inr x))"
  proof -
    have each: "((\<forall>v. bmap_get k (cfg_values c) = Some v \<longrightarrow> (\<exists>x. ?hv k v = Inr x)) \<and>
        (\<forall>v. bmap_get k (cfg_string_arrays c) = Some v \<longrightarrow> (\<exists>x. ?ha k v = Inr x))) \<longleftrightarrow>
      (\<forall>e. config_entry c k = Some e \<longrightarrow> (\<exists>x. interpolate_entry variables k e = Inr x))" for k
      using ok(3) [of k]
      by (cases "bmap_get k (cfg_values c)"; cases "bmap_get k (cfg_string_arrays c)")
        (simp_all add: config_entry_def and_then_eq_Inr)
    show ?thesis unfolding vs(1) as(1) using each by blast
  qed
  finally show "(\<exists>c'. interpolate_config variables c = Inr c') \<longleftrightarrow>
      (\<forall>k e. config_entry c k = Some e \<longrightarrow> (\<exists>x. interpolate_entry variables k e = Inr x))" .
  assume "interpolate_config variables c = Inr c'"
  then obtain m n where m: "try_map (interpolate_value variables) (cfg_values c) = Inr m"
    and n: "try_map (interpolate_array variables) (cfg_string_arrays c) = Inr n"
    and c': "c' = c\<lparr>cfg_values := m, cfg_string_arrays := n\<rparr>"
    by (auto simp: interpolate_config_def and_then_eq_Inr)
  have vk: "case bmap_get k (cfg_values c) of None \<Rightarrow> bmap_get k m = None
      | Some v \<Rightarrow> \<exists>x. ?hv k v = Inr x \<and> bmap_get k m = Some x" for k using vs(2) [OF m] by blast
  have ak: "case bmap_get k (cfg_string_arrays c) of None \<Rightarrow> bmap_get k n = None
      | Some v \<Rightarrow> \<exists>x. ?ha k v = Inr x \<and> bmap_get k n = Some x" for k using as(2) [OF n] by blast
  have "bmap_get k m = None \<or> bmap_get k n = None" for k
    using ok(3) [of k] vk [of k] ak [of k] by (auto split: option.splits)
  then have "config_ok c'" using vs(2) [OF m] as(2) [OF n] by (simp add: config_ok_def c')
  moreover have "case config_entry c k of None \<Rightarrow> config_entry c' k = None
      | Some e \<Rightarrow> \<exists>x. interpolate_entry variables k e = Inr x \<and> config_entry c' k = Some x" for k
    using ok(3) [of k] vk [of k] ak [of k]
    by (auto simp: config_entry_def c' and_then_eq_Inr split: option.splits)
  ultimately show "config_ok c' \<and>
      (\<forall>k. case config_entry c k of None \<Rightarrow> config_entry c' k = None
         | Some e \<Rightarrow> \<exists>x. interpolate_entry variables k e = Inr x \<and> config_entry c' k = Some x)" by blast
qed

section \<open>The documents of the sources\<close>

lemma document_ok_new [simp]: "document_ok document_new"
  by (simp add: document_ok_def document_new_def bmap.ok_empty)

lemma document_ok_insert:
  "document_ok d \<Longrightarrow> document_ok (doc_insert_scalar key v d)"
  "document_ok d \<Longrightarrow> document_ok (doc_insert_string_array key vs d)"
  "document_ok d \<Longrightarrow> document_ok (doc_insert_table key d)"
  by (simp_all add: document_ok_def doc_insert_scalar_def doc_insert_string_array_def
      doc_insert_table_def bmap.ok_insert bmap.ok_remove)

lemma insert_scalar_ok: "insert_scalar key v d = Inr d' \<Longrightarrow> document_ok d \<Longrightarrow> document_ok d'"
  by (auto simp: insert_scalar_def document_ok_insert split: if_splits)

lemma flatten_toml_ok:
  "flatten_toml prefix v mode d = Inr d' \<Longrightarrow> document_ok d \<Longrightarrow> document_ok d'"
  "flatten_entries prefix table mode d = Inr d' \<Longrightarrow> document_ok d \<Longrightarrow> document_ok d'"
proof (induction prefix v mode d and prefix table mode d arbitrary: d' and d'
    rule: flatten_toml_flatten_entries.induct)
  case (1 prefix table mode d)
  then show ?case by (auto simp: Let_def document_ok_insert split: if_splits)
qed (auto simp: insert_scalar_ok document_ok_insert and_then_eq_Inr
    split: toml_array_mode.splits)

lemma toml_document_ok:
  "toml_source_parse s contents mode = Inr d \<Longrightarrow> document_ok d"
  by (auto simp: toml_source_parse_def parse_toml_document_def Let_def and_then_eq_Inr
      dest: flatten_toml_ok(1) split: toml_file.splits if_splits option.splits)

lemma map_source_document_ok:
  "document_ok (map_source_document (map_source_new name values))"
  "document_ok (map_source_document s) \<Longrightarrow>
     document_ok (map_source_document (with_string_array key vs s))"
  by (simp_all add: document_ok_def map_source_document_def map_source_new_def with_string_array_def
      bmap.ok_insert bmap.ok_remove bmap.ok_empty)

lemma env_document_ok: "document_ok (from_scalars (env_load s))"
  by (simp add: document_ok_def from_scalars_def env_load_def bmap.ok_empty)

section \<open>The variables\<close>

definition env_pair :: "os_string \<times> os_string \<Rightarrow> (string \<times> string) option" where
  "env_pair = (\<lambda>(key, v). case (os_to_str key, os_to_str v) of
     (Some key, Some v) \<Rightarrow> Some (key, v) | _ \<Rightarrow> None)"

text \<open>The environment overrides the dotenv files, and its last entry for a name counts.\<close>

lemma environment_variables_get:
  "bmap_ok variables \<Longrightarrow> bmap_ok (environment_variables environment variables) \<and>
   bmap_get name (environment_variables environment variables) =
     (case map_of (rev (List.map_filter env_pair environment)) name of
        Some v \<Rightarrow> Some v
      | None \<Rightarrow> bmap_get name variables)"
  unfolding environment_variables_def
proof (induction environment arbitrary: variables)
  case (Cons entry environment)
  show ?case
  proof (cases "env_pair entry")
    case None
    then have "(case entry of (key, v) \<Rightarrow> \<lambda>variables. case (os_to_str key, os_to_str v) of
        (Some key, Some v) \<Rightarrow> bmap_insert key v variables | _ \<Rightarrow> variables) variables = variables"
      by (auto simp: env_pair_def split: prod.splits option.splits)
    with Cons None show ?thesis by (simp add: List.map_filter_simps)
  next
    case (Some kv)
    obtain k v where kv: "kv = (k, v)" by (cases kv)
    with Some have "(case entry of (key, v) \<Rightarrow> \<lambda>variables. case (os_to_str key, os_to_str v) of
        (Some key, Some v) \<Rightarrow> bmap_insert key v variables | _ \<Rightarrow> variables) variables =
        bmap_insert k v variables"
      by (auto simp: env_pair_def split: prod.splits option.splits)
    with Cons.IH [OF bmap.ok_insert [OF Cons.prems]] Some kv Cons.prems show ?thesis
      by (auto simp: List.map_filter_simps map_add_def bmap.get_insert split: option.splits)
  qed
qed (simp add: List.map_filter_simps)

section \<open>The last source wins, after interpolation\<close>

lemma build_with_environment_eq:
  assumes "try_fold dotenv_variables dotenvs [] = Inr variables"
    and "try_fold merge_source sources config_empty = Inr c"
  shows "build_with_environment dotenvs sources environment =
    interpolate_config (environment_variables environment variables) c"
  using assms by (simp add: build_with_environment_def interpolate_config_def Let_def)

lemma config_empty_ok: "config_ok config_empty" "config_entry config_empty key = None"
  by (simp_all add: config_ok_def config_empty_def config_entry_def bmap.ok_empty bmap_get_def)

lemma build_last_source:
  assumes "try_fold dotenv_variables dotenvs [] = Inr dotenv"
    and "list_all2 (\<lambda>s (origin, d). origin = source_origin s \<and> src_document s = Inr d \<and> document_ok d)
           sources ds"
  shows "let built = build_with_environment dotenvs sources environment;
             variables = environment_variables environment dotenv in
         ((\<exists>c. built = Inr c) \<longleftrightarrow>
            (\<forall>k e. last_entry ds k = Some e \<longrightarrow> (\<exists>x. interpolate_entry variables k e = Inr x))) \<and>
         (\<forall>c k. built = Inr c \<longrightarrow>
            config_entry c k =
              (case last_entry ds k of
                 None \<Rightarrow> None
               | Some e \<Rightarrow> (case interpolate_entry variables k e of Inr x \<Rightarrow> Some x | Inl _ \<Rightarrow> None)))"
proof -
  obtain c where c: "try_fold merge_source sources config_empty = Inr c" "config_ok c"
    "\<And>key. config_entry c key = last_entry ds key"
  proof -
    from merge_sources_ok [OF assms(2) config_empty_ok(1)] obtain c where
      c: "try_fold merge_source sources config_empty = Inr c" "config_ok c"
      and entry: "\<forall>key. config_entry c key =
        (case last_entry ds key of Some e \<Rightarrow> Some e | None \<Rightarrow> config_entry config_empty key)" by blast
    have "config_entry c key = last_entry ds key" for key
      using entry [rule_format, of key] by (simp add: config_empty_ok(2) split: option.splits)
    with c that show ?thesis by blast
  qed
  define variables where "variables = environment_variables environment dotenv"
  note built = build_with_environment_eq [OF assms(1) c(1), of environment, folded variables_def]
  note iff = interpolate_config_ok(1) [OF c(2), of variables]
  have entry: "config_entry c' k = (case last_entry ds k of None \<Rightarrow> None
      | Some e \<Rightarrow> (case interpolate_entry variables k e of Inr x \<Rightarrow> Some x | Inl _ \<Rightarrow> None))"
    if "interpolate_config variables c = Inr c'" for c' k
    using conjunct2 [OF interpolate_config_ok(2) [OF c(2) that], rule_format, of k]
    by (auto simp: c(3) split: option.splits)
  show ?thesis
    unfolding Let_def variables_def [symmetric] built
    using iff entry by (simp add: c(3))
qed

section \<open>The properties\<close>

text \<open>
  C13: A configuration is built exactly when every value that survives the merge can be
  interpolated. Each key then holds the value of the last source that sets it, as a scalar or as
  an array, with the origin of that source and every exact variable replaced.
\<close>

theorem build_last_source_wins:
  assumes "try_fold dotenv_variables dotenvs [] = Inr dotenv"
    and "list_all2 (\<lambda>s (origin, d). origin = source_origin s \<and> src_document s = Inr d \<and> document_ok d)
           sources ds"
  shows "let built = build_with_environment dotenvs sources environment;
             variables = environment_variables environment dotenv in
         ((\<exists>c. built = Inr c) \<longleftrightarrow>
            (\<forall>k e. last_entry ds k = Some e \<longrightarrow> (\<exists>x. interpolate_entry variables k e = Inr x))) \<and>
         (\<forall>c k. built = Inr c \<longrightarrow>
            config_entry c k =
              (case last_entry ds k of
                 None \<Rightarrow> None
               | Some e \<Rightarrow> (case interpolate_entry variables k e of Inr x \<Rightarrow> Some x | Inl _ \<Rightarrow> None)))"
  by (rule build_last_source [OF assms])

definition sample_source :: "string \<Rightarrow> (string \<times> string) list \<Rightarrow> config_source" where
  "sample_source name values =
     \<lparr>src_name = name, src_relative_path_base = None,
      src_document = Inr (map_source_document (map_source_new name values))\<rparr>"

theorem build_last_source_wins_witness:
  "\<exists>c. build_with_environment [] [sample_source ''a'' [(''k'', ''1'')], sample_source ''b'' [(''k'', ''${V}'')]]
       [(Utf8 ''V'', Utf8 ''2'')] = Inr c \<and>
     config_entry c ''k'' = Some (ScalarEntry ''2'' (source_origin (sample_source ''b'' [(''k'', ''${V}'')])))"
proof -
  let ?doc = "\<lambda>n v. map_source_document (map_source_new n [(''k'', v)])"
  let ?a = "sample_source ''a'' [(''k'', ''1'')]" and ?b = "sample_source ''b'' [(''k'', ''${V}'')]"
  let ?ds = "[(source_origin ?a, ?doc ''a'' ''1''), (source_origin ?b, ?doc ''b'' ''${V}'')]"
  have docs: "list_all2 (\<lambda>s (origin, d). origin = source_origin s \<and> src_document s = Inr d \<and> document_ok d)
      [?a, ?b] ?ds"
    by (simp add: sample_source_def map_source_document_ok)
  have last: "last_entry ?ds ''k'' = Some (ScalarEntry ''${V}'' (source_origin ?b))"
    by (simp add: document_entry_def map_source_document_def map_source_new_def bmap_of_list_def bmap_get_def)
  have "exact_variable_name ''${V}'' = Some ''V''" by code_simp
  then have "interpolate_entry (environment_variables [(Utf8 ''V'', Utf8 ''2'')] []) ''k''
      (ScalarEntry ''${V}'' (source_origin ?b)) = Inr (ScalarEntry ''2'' (source_origin ?b))"
    by (simp add: interpolate_element_def resolve_variable_def environment_variables_def bmap_get_def)
  moreover have "case build_with_environment [] [?a, ?b] [(Utf8 ''V'', Utf8 ''2'')] of
      Inr c \<Rightarrow> True | Inl _ \<Rightarrow> False" by code_simp
  then obtain c where "build_with_environment [] [?a, ?b] [(Utf8 ''V'', Utf8 ''2'')] = Inr c"
    by (auto split: sum.splits)
  ultimately show ?thesis
    using last build_last_source_wins [OF _ docs, of "[]" "[]" "[(Utf8 ''V'', Utf8 ''2'')]"]
    by (simp add: Let_def)
qed

text \<open>
  A configured text is replaced by a variable only when it is exactly \<open>${NAME}\<close> with a
  non-empty name that holds no further opening, no closing brace and no default.
\<close>

theorem interpolated_texts_are_exact:
  "exact_variable_name v = Some name \<longleftrightarrow>
     v = variable_opening @ name @ ''}'' \<and> name \<noteq> [] \<and> \<not> str_contains variable_opening name \<and>
     CHR ''}'' \<notin> set name \<and> \<not> str_contains '':-'' name"
  by (rule exact_variable_name_iff)

text \<open>
  The variables of the process environment override those of the dotenv files, the last entry
  of a name counts, and an entry that is no UTF-8 text is ignored.
\<close>

theorem environment_overrides_dotenv:
  assumes "bmap_ok variables"
  shows "bmap_get name (environment_variables environment variables) =
     (case map_of (rev (List.map_filter env_pair environment)) name of
        Some v \<Rightarrow> Some v
      | None \<Rightarrow> bmap_get name variables)"
  by (rule conjunct2 [OF environment_variables_get [OF assms]])

theorem environment_overrides_dotenv_witness:
  "bmap_get ''A'' (environment_variables [(Utf8 ''A'', Utf8 ''1''), (Utf8 ''A'', Utf8 ''2''), (NotUtf8, Utf8 ''3'')]
     (bmap_of_list [(''A'', ''0'')])) = Some ''2''"
  using environment_overrides_dotenv [OF bmap_ok_of_list, of "''A''"
      "[(Utf8 ''A'', Utf8 ''1''), (Utf8 ''A'', Utf8 ''2''), (NotUtf8, Utf8 ''3'')]" "[(''A'', ''0'')]"]
  by (simp add: env_pair_def List.map_filter_simps)

end
