(* ===== verification/Lifecycle.thy ===== *)
theory Lifecycle
  imports Diagnostics
begin

text \<open>
  The lifecycle of an application (\<open>crates/mads-core/src/lifecycle.rs\<close>): ordered hooks, the state
  machine \<open>Created\<close>, \<open>Starting\<close>, \<open>Running\<close>, \<open>Stopping\<close>, \<open>Stopped\<close>, and the rollback of a
  failed start.

  A hook is user code: it changes a world of type \<open>'w\<close> and succeeds or fails with an error. The
  calls that were made are recorded next to the world, by the sequence number of the hook, so
  that the order of calls can be stated; the record does not influence the run. Awaiting a hook
  is one step: \<open>start\<close> and \<open>shutdown\<close> hold the manager exclusively and no other operation of it
  runs in between.
\<close>

section \<open>The manager\<close>

datatype hook_group = Infrastructure string | Application

datatype lifecycle_state = Created | Starting | Running | Stopping | Stopped

record 'w lifecycle_hook =
  lh_name :: string
  lh_start :: "'w \<Rightarrow> 'w \<times> error option"
  lh_stop :: "'w \<Rightarrow> 'w \<times> error option"

record 'w registered_hook =
  rh_group :: hook_group
  rh_sequence :: nat
  rh_hook :: "'w lifecycle_hook"

record 'w lifecycle_manager =
  lm_state :: lifecycle_state
  lm_hooks :: "'w registered_hook list"
  lm_next_sequence :: nat

datatype lifecycle_call = StartCall nat | StopCall nat

type_synonym 'w run = "'w \<times> lifecycle_call list"

definition manager_new :: "'w lifecycle_manager" where
  "manager_new = \<lparr>lm_state = Created, lm_hooks = [], lm_next_sequence = 0\<rparr>"

definition add_registered :: "hook_group \<Rightarrow> 'w lifecycle_hook \<Rightarrow> 'w lifecycle_manager \<Rightarrow> 'w lifecycle_manager" where
  "add_registered kind hook m =
     m\<lparr>lm_hooks := lm_hooks m @
         [\<lparr>rh_group = kind, rh_sequence = lm_next_sequence m, rh_hook = hook\<rparr>],
       lm_next_sequence := lm_next_sequence m + 1\<rparr>"

definition add_hook :: "'w lifecycle_hook \<Rightarrow> 'w lifecycle_manager \<Rightarrow> 'w lifecycle_manager" where
  "add_hook hook m = add_registered Application hook m"

definition add_infrastructure_hook ::
    "string \<Rightarrow> 'w lifecycle_hook \<Rightarrow> 'w lifecycle_manager \<Rightarrow> 'w lifecycle_manager" where
  "add_infrastructure_hook owner hook m = add_registered (Infrastructure owner) hook m"

definition hook_order :: "'w registered_hook \<Rightarrow> 'w registered_hook \<Rightarrow> ordering" where
  "hook_order left right =
     (case (rh_group left, rh_group right) of
        (Infrastructure left_owner, Infrastructure right_owner) \<Rightarrow>
          then_with (cmp left_owner right_owner) (cmp (rh_sequence left) (rh_sequence right))
      | (Infrastructure _, Application) \<Rightarrow> Less
      | (Application, Infrastructure _) \<Rightarrow> Greater
      | (Application, Application) \<Rightarrow> cmp (rh_sequence left) (rh_sequence right))"

fun show_state :: "lifecycle_state \<Rightarrow> string" where
  "show_state Created = ''Created''"
| "show_state Starting = ''Starting''"
| "show_state Running = ''Running''"
| "show_state Stopping = ''Stopping''"
| "show_state Stopped = ''Stopped''"

definition invalid_transition :: "lifecycle_state \<Rightarrow> string \<Rightarrow> error" where
  "invalid_transition s operation =
     error_new (with_subject operation (diagnostic_new MADS010 ''invalid lifecycle transition''
       (''cannot '' @ operation @ '' an application while it is '' @ show_state s)))"

definition hook_failure_diagnostic :: "string \<Rightarrow> string \<Rightarrow> diagnostic" where
  "hook_failure_diagnostic name operation =
     with_subject name (diagnostic_new MADS011 ''lifecycle hook failed''
       (''lifecycle hook failed during '' @ operation))"

definition hook_failure :: "string \<Rightarrow> string \<Rightarrow> error \<Rightarrow> error" where
  "hook_failure name operation e =
     with_source (hook_failure_diagnostic name operation) (FrameworkSource e)"

section \<open>Start and shutdown\<close>

definition call_start :: "'w registered_hook \<Rightarrow> 'w run \<Rightarrow> 'w run \<times> error option" where
  "call_start h = (\<lambda>(w, calls).
     let (w, r) = lh_start (rh_hook h) w in ((w, calls @ [StartCall (rh_sequence h)]), r))"

definition call_stop :: "'w registered_hook \<Rightarrow> 'w run \<Rightarrow> 'w run \<times> error option" where
  "call_stop h = (\<lambda>(w, calls).
     let (w, r) = lh_stop (rh_hook h) w in ((w, calls @ [StopCall (rh_sequence h)]), r))"

text \<open>The rollback of the hooks started so far, given in reverse start order.\<close>

fun rollback :: "'w registered_hook list \<Rightarrow> diagnostic \<Rightarrow> 'w run \<Rightarrow> 'w run \<times> diagnostic" where
  "rollback [] d s = (s, d)"
| "rollback (h # hs) d s =
     (case call_stop h s of
        (s, None) \<Rightarrow> rollback hs d s
      | (s, Some rollback_error) \<Rightarrow>
          rollback hs (with_suggestion (''rollback hook '' @ lh_name (rh_hook h) @ '' failed: ''
            @ display_error rollback_error) d) s)"

fun start_hooks ::
    "'w registered_hook list \<Rightarrow> 'w registered_hook list \<Rightarrow> 'w run \<Rightarrow> 'w run \<times> error option" where
  "start_hooks [] started s = (s, None)"
| "start_hooks (h # hs) started s =
     (case call_start h s of
        (s, None) \<Rightarrow> start_hooks hs (started @ [h]) s
      | (s, Some e) \<Rightarrow>
          (case rollback (rev started) (hook_failure_diagnostic (lh_name (rh_hook h)) ''startup'') s of
             (s, d) \<Rightarrow> (s, Some (with_source d (FrameworkSource e)))))"

definition lifecycle_start ::
    "'w lifecycle_manager \<Rightarrow> 'w run \<Rightarrow> 'w lifecycle_manager \<times> 'w run \<times> error option" where
  "lifecycle_start m s =
     (if lm_state m \<noteq> Created then (m, s, Some (invalid_transition (lm_state m) ''start''))
      else
        let hooks = sort_by hook_order (lm_hooks m) in
        case start_hooks hooks [] s of
          (s, None) \<Rightarrow> (m\<lparr>lm_hooks := hooks, lm_state := Running\<rparr>, s, None)
        | (s, Some e) \<Rightarrow> (m\<lparr>lm_hooks := hooks, lm_state := Stopped\<rparr>, s, Some e))"

fun stop_hooks ::
    "'w registered_hook list \<Rightarrow> error option \<Rightarrow> 'w run \<Rightarrow> 'w run \<times> error option" where
  "stop_hooks [] failure s = (s, failure)"
| "stop_hooks (h # hs) failure s =
     (case call_stop h s of
        (s, None) \<Rightarrow> stop_hooks hs failure s
      | (s, Some e) \<Rightarrow>
          stop_hooks hs
            (case failure of
               None \<Rightarrow> Some (hook_failure (lh_name (rh_hook h)) ''shutdown'' e)
             | Some f \<Rightarrow> Some f) s)"

definition lifecycle_shutdown ::
    "'w lifecycle_manager \<Rightarrow> 'w run \<Rightarrow> 'w lifecycle_manager \<times> 'w run \<times> error option" where
  "lifecycle_shutdown m s =
     (if lm_state m \<noteq> Running then (m, s, Some (invalid_transition (lm_state m) ''shutdown''))
      else case stop_hooks (rev (lm_hooks m)) None s of
        (s, failure) \<Rightarrow> (m\<lparr>lm_state := Stopped\<rparr>, s, failure))"

section \<open>The order of the hooks\<close>

definition hook_key :: "'w registered_hook \<Rightarrow> string option \<times> nat" where
  "hook_key h = (case rh_group h of Infrastructure owner \<Rightarrow> Some owner | Application \<Rightarrow> None, rh_sequence h)"

lemma hook_order_rank:
  "hook_order = cmp_on (\<lambda>h. (case rh_group h of Infrastructure owner \<Rightarrow> (0 :: nat, owner)
     | Application \<Rightarrow> (1, []), rh_sequence h))"
  by (auto simp: fun_eq_iff hook_order_def cmp_on_def cmp_def less_prod_def' split: hook_group.splits)

interpretation hooks: comparator hook_order
  unfolding hook_order_rank by (rule comparator_cmp_on)

abbreviation start_order :: "'w lifecycle_manager \<Rightarrow> 'w registered_hook list" where
  "start_order m \<equiv> sort_by hook_order (lm_hooks m)"

section \<open>Calls\<close>

lemma call_start_calls [simp]: "snd (fst (call_start h s)) = snd s @ [StartCall (rh_sequence h)]"
  by (cases s) (simp add: call_start_def Let_def split: prod.splits)

lemma call_stop_calls [simp]: "snd (fst (call_stop h s)) = snd s @ [StopCall (rh_sequence h)]"
  by (cases s) (simp add: call_stop_def Let_def split: prod.splits)

abbreviation start_calls :: "'w registered_hook list \<Rightarrow> lifecycle_call list" where
  "start_calls hs \<equiv> map (\<lambda>h. StartCall (rh_sequence h)) hs"

abbreviation stop_calls :: "'w registered_hook list \<Rightarrow> lifecycle_call list" where
  "stop_calls hs \<equiv> map (\<lambda>h. StopCall (rh_sequence h)) hs"

lemma rollback_calls:
  "rollback hs d s = (t, d') \<Longrightarrow>
   snd t = snd s @ stop_calls hs \<and> diag_code d' = diag_code d \<and> diag_subject d' = diag_subject d"
proof (induction hs arbitrary: d s)
  case (Cons h hs)
  obtain u r where u: "call_stop h s = (u, r)" by (cases "call_stop h s")
  have "snd u = snd s @ [StopCall (rh_sequence h)]" using call_stop_calls [of h s] by (simp add: u)
  with Cons u show ?case by (cases r) (auto simp: with_suggestion_def)
qed simp

text \<open>
  Starting: either every hook was started, or a first one failed and the ones before it were
  stopped in reverse order.
\<close>

lemma start_hooks_calls:
  "start_hooks hs started s = (t, r) \<Longrightarrow>
   (case r of
      None \<Rightarrow> snd t = snd s @ start_calls hs
    | Some e \<Rightarrow> \<exists>before failed after. hs = before @ failed # after \<and>
        snd t = snd s @ start_calls (before @ [failed]) @ stop_calls (rev (started @ before)) \<and>
        error_code e = Inr MADS011 \<and>
        diag_subject (hd (err_diagnostics e)) = Some (lh_name (rh_hook failed)))"
proof (induction hs arbitrary: started s)
  case (Cons h hs)
  obtain u q where u: "call_start h s = (u, q)" by (cases "call_start h s")
  have calls: "snd u = snd s @ [StartCall (rh_sequence h)]" using call_start_calls [of h s] by (simp add: u)
  show ?case
  proof (cases q)
    case None
    with Cons.prems u have "start_hooks hs (started @ [h]) u = (t, r)" by simp
    from Cons.IH [OF this] show ?thesis
    proof (cases r)
      case (Some e)
      with Cons.IH [OF \<open>start_hooks hs (started @ [h]) u = (t, r)\<close>] obtain before failed after where
        "hs = before @ failed # after"
        "snd t = snd u @ start_calls (before @ [failed]) @ stop_calls (rev ((started @ [h]) @ before))"
        "error_code e = Inr MADS011" "diag_subject (hd (err_diagnostics e)) = Some (lh_name (rh_hook failed))"
        by auto
      with calls show ?thesis
        unfolding Some option.case
        by (intro exI [of _ "h # before"] exI [of _ failed] exI [of _ after]) simp
    qed (simp add: calls)
  next
    case (Some e)
    obtain v d where v: "rollback (rev started) (hook_failure_diagnostic (lh_name (rh_hook h)) ''startup'') u = (v, d)"
      by (cases "rollback (rev started) (hook_failure_diagnostic (lh_name (rh_hook h)) ''startup'') u")
    have r: "r = Some (with_source d (FrameworkSource e))" "t = v" using Cons.prems u Some v by simp_all
    have d: "diag_code d = MADS011" "diag_subject d = Some (lh_name (rh_hook h))"
      using rollback_calls [OF v] by (simp_all add: hook_failure_diagnostic_def diagnostic_builders)
    have "snd v = snd u @ stop_calls (rev started)" using rollback_calls [OF v] by simp
    then show ?thesis
      unfolding r option.case
      by (intro exI [of _ "[]"] exI [of _ h] exI [of _ hs])
        (simp add: calls d with_source_def error_code_def error_diagnostic_def)
  qed
qed simp

lemma stop_hooks_calls:
  "stop_hooks hs failure s = (t, r) \<Longrightarrow> snd t = snd s @ stop_calls hs"
proof (induction hs arbitrary: failure s)
  case (Cons h hs)
  obtain u q where u: "call_stop h s = (u, q)" by (cases "call_stop h s")
  have "snd u = snd s @ [StopCall (rh_sequence h)]" using call_stop_calls [of h s] by (simp add: u)
  with Cons u show ?case by (cases q) auto
qed simp

text \<open>The error of a shutdown is that of the first hook whose stop failed.\<close>

lemma stop_hooks_failure: "stop_hooks hs (Some e) s = (t, r) \<Longrightarrow> r = Some e"
  by (induction hs arbitrary: s) (auto split: prod.splits option.splits)

lemma stop_hooks_first:
  "stop_hooks hs None s = (t, Some e) \<Longrightarrow>
   \<exists>before h after u v cause. hs = before @ h # after \<and> stop_hooks before None s = (u, None) \<and>
     call_stop h u = (v, Some cause) \<and> e = hook_failure (lh_name (rh_hook h)) ''shutdown'' cause"
proof (induction hs arbitrary: s)
  case (Cons h hs)
  obtain u q where u: "call_stop h s = (u, q)" by (cases "call_stop h s")
  show ?case
  proof (cases q)
    case None
    with Cons.prems u have "stop_hooks hs None u = (t, Some e)" by simp
    from Cons.IH [OF this] obtain before k after u' v cause where
      "hs = before @ k # after" "stop_hooks before None u = (u', None)"
      "call_stop k u' = (v, Some cause)" "e = hook_failure (lh_name (rh_hook k)) ''shutdown'' cause" by blast
    with u None show ?thesis
      by (intro exI [of _ "h # before"] exI [of _ k] exI [of _ after] exI [of _ u'] exI [of _ v]
          exI [of _ cause]) simp
  next
    case (Some cause)
    with Cons.prems u have "e = hook_failure (lh_name (rh_hook h)) ''shutdown'' cause"
      using stop_hooks_failure by fastforce
    with u Some show ?thesis
      by (intro exI [of _ "[]"] exI [of _ h] exI [of _ hs] exI [of _ s] exI [of _ u] exI [of _ cause]) simp
  qed
qed simp

lemma lifecycle_start_correct:
  "\<exists>m' t r. lifecycle_start m s = (m', t, r) \<and>
    (if lm_state m \<noteq> Created
     then m' = m \<and> t = s \<and> (\<exists>e. r = Some e \<and> error_code e = Inr MADS010)
     else lm_hooks m' = start_order m \<and>
       (case r of
          None \<Rightarrow> lm_state m' = Running \<and> snd t = snd s @ start_calls (start_order m)
        | Some e \<Rightarrow> lm_state m' = Stopped \<and> error_code e = Inr MADS011 \<and>
            (\<exists>before failed after. start_order m = before @ failed # after \<and>
              snd t = snd s @ start_calls (before @ [failed]) @ stop_calls (rev before) \<and>
              diag_subject (hd (err_diagnostics e)) = Some (lh_name (rh_hook failed)))))"
proof (cases "lm_state m = Created")
  case True
  obtain t r where t: "start_hooks (start_order m) [] s = (t, r)" by (cases "start_hooks (start_order m) [] s")
  from start_hooks_calls [OF t] True t show ?thesis
    by (cases r) (auto simp: lifecycle_start_def Let_def)
next
  case False
  then show ?thesis
    by (simp add: lifecycle_start_def invalid_transition_def diagnostic_builders)
qed

lemma lifecycle_shutdown_correct:
  "\<exists>m' t r. lifecycle_shutdown m s = (m', t, r) \<and>
    (if lm_state m \<noteq> Running
     then m' = m \<and> t = s \<and> (\<exists>e. r = Some e \<and> error_code e = Inr MADS010)
     else lm_hooks m' = lm_hooks m \<and> lm_state m' = Stopped \<and>
       snd t = snd s @ stop_calls (rev (lm_hooks m)) \<and>
       (\<forall>e. r = Some e \<longrightarrow>
         (\<exists>before h after u v cause. rev (lm_hooks m) = before @ h # after \<and>
            stop_hooks before None s = (u, None) \<and> call_stop h u = (v, Some cause) \<and>
            e = hook_failure (lh_name (rh_hook h)) ''shutdown'' cause)))"
proof (cases "lm_state m = Running")
  case True
  obtain t r where t: "stop_hooks (rev (lm_hooks m)) None s = (t, r)"
    by (cases "stop_hooks (rev (lm_hooks m)) None s")
  from stop_hooks_calls [OF t] stop_hooks_first [of "rev (lm_hooks m)" s t] True t show ?thesis
    by (auto simp: lifecycle_shutdown_def)
next
  case False
  then show ?thesis
    by (simp add: lifecycle_shutdown_def invalid_transition_def diagnostic_builders)
qed

section \<open>The state machine\<close>

text \<open>
  The managers of an application: hooks are registered while it is built, then it is started and
  shut down, each any number of times.
\<close>

inductive lifecycle_reachable :: "'w lifecycle_manager \<Rightarrow> 'w run \<Rightarrow> bool" where
  new: "lifecycle_reachable manager_new (w, [])"
| add_application: "lifecycle_reachable m s \<Longrightarrow> lm_state m = Created \<Longrightarrow>
    lifecycle_reachable (add_hook h m) s"
| add_infrastructure: "lifecycle_reachable m s \<Longrightarrow> lm_state m = Created \<Longrightarrow>
    lifecycle_reachable (add_infrastructure_hook owner h m) s"
| start: "lifecycle_reachable m s \<Longrightarrow> lifecycle_start m s = (m', t, r) \<Longrightarrow> lifecycle_reachable m' t"
| shutdown: "lifecycle_reachable m s \<Longrightarrow> lifecycle_shutdown m s = (m', t, r) \<Longrightarrow>
    lifecycle_reachable m' t"

definition sequences_ok :: "'w lifecycle_manager \<Rightarrow> bool" where
  "sequences_ok m \<longleftrightarrow>
     distinct (map rh_sequence (lm_hooks m)) \<and> (\<forall>h\<in>set (lm_hooks m). rh_sequence h < lm_next_sequence m)"

definition lifecycle_inv :: "'w lifecycle_manager \<Rightarrow> lifecycle_call list \<Rightarrow> bool" where
  "lifecycle_inv m calls \<longleftrightarrow>
     sequences_ok m \<and>
     (case lm_state m of
        Created \<Rightarrow> calls = []
      | Running \<Rightarrow> calls = start_calls (lm_hooks m)
      | Stopped \<Rightarrow>
          calls = start_calls (lm_hooks m) @ stop_calls (rev (lm_hooks m)) \<or>
          (\<exists>before failed after. lm_hooks m = before @ failed # after \<and>
             calls = start_calls (before @ [failed]) @ stop_calls (rev before))
      | _ \<Rightarrow> False)"

lemma sequences_ok_sorted: "sequences_ok m \<Longrightarrow> sequences_ok (m\<lparr>lm_hooks := start_order m, lm_state := st\<rparr>)"
  by (simp add: sequences_ok_def)

lemma lifecycle_reachable_inv: "lifecycle_reachable m s \<Longrightarrow> lifecycle_inv m (snd s)"
proof (induction rule: lifecycle_reachable.induct)
  case (new w)
  then show ?case by (simp add: lifecycle_inv_def manager_new_def sequences_ok_def)
next
  case (add_application m s h)
  then show ?case
    by (auto simp: lifecycle_inv_def sequences_ok_def add_hook_def add_registered_def less_Suc_eq)
next
  case (add_infrastructure m s owner h)
  then show ?case
    by (auto simp: lifecycle_inv_def sequences_ok_def add_infrastructure_hook_def add_registered_def
        less_Suc_eq)
next
  case (start m s m' t r)
  show ?case
  proof (cases "lm_state m = Created")
    case True
    have calls: "snd s = []" "sequences_ok m" using start.IH True by (auto simp: lifecycle_inv_def)
    obtain u q where u: "start_hooks (start_order m) [] s = (u, q)" by (cases "start_hooks (start_order m) [] s")
    have m': "m' = m\<lparr>lm_hooks := start_order m, lm_state := if q = None then Running else Stopped\<rparr>" "t = u"
      using start.hyps(2) True u by (auto simp: lifecycle_start_def Let_def split: option.splits)
    have "sequences_ok m'" unfolding m' by (rule sequences_ok_sorted [OF calls(2)])
    moreover have "snd u = start_calls (start_order m)" if "q = None"
      using start_hooks_calls [OF u] that calls(1) by simp
    moreover have "\<exists>before failed after. start_order m = before @ failed # after \<and>
        snd u = start_calls (before @ [failed]) @ stop_calls (rev before)" if "q \<noteq> None"
      using start_hooks_calls [OF u] that calls(1)
      by (cases q) (simp_all del: map_append, blast)
    ultimately show ?thesis unfolding lifecycle_inv_def m' by (cases q) auto
  next
    case False
    with start show ?thesis by (simp add: lifecycle_start_def)
  qed
next
  case (shutdown m s m' t r)
  show ?case
  proof (cases "lm_state m = Running")
    case True
    obtain u q where u: "stop_hooks (rev (lm_hooks m)) None s = (u, q)"
      by (cases "stop_hooks (rev (lm_hooks m)) None s")
    from stop_hooks_calls [OF u] shutdown True u show ?thesis
      by (auto simp: lifecycle_shutdown_def lifecycle_inv_def sequences_ok_def)
  next
    case False
    with shutdown show ?thesis by (simp add: lifecycle_shutdown_def)
  qed
qed

text \<open>The calls that one hook has received.\<close>

fun call_sequence :: "lifecycle_call \<Rightarrow> nat" where
  "call_sequence (StartCall q) = q"
| "call_sequence (StopCall q) = q"

definition calls_of :: "nat \<Rightarrow> lifecycle_call list \<Rightarrow> lifecycle_call list" where
  "calls_of q calls = filter (\<lambda>c. call_sequence c = q) calls"

lemma calls_of_append [simp]: "calls_of q (xs @ ys) = calls_of q xs @ calls_of q ys"
  by (simp add: calls_of_def)

lemma calls_of_map:
  "calls_of q (start_calls hs) = map (\<lambda>h. StartCall q) (filter (\<lambda>h. rh_sequence h = q) hs)"
  "calls_of q (stop_calls hs) = map (\<lambda>h. StopCall q) (filter (\<lambda>h. rh_sequence h = q) hs)"
  by (induction hs) (auto simp: calls_of_def)

lemma filter_distinct_key:
  "distinct (map f hs) \<Longrightarrow> filter (\<lambda>h. f h = q) hs = [] \<or> (\<exists>h. filter (\<lambda>h. f h = q) hs = [h])"
proof (induction hs)
  case (Cons h hs)
  have "filter (\<lambda>x. f x = f h) hs = []" using Cons.prems by (auto simp: filter_empty_conv image_iff)
  with Cons show ?case by auto
qed simp

lemma calls_of_stopped:
  assumes "filter (\<lambda>h. rh_sequence h = q) hs = [] \<or> (\<exists>h. filter (\<lambda>h. rh_sequence h = q) hs = [h])"
  shows "calls_of q (start_calls hs) \<in> {[], [StartCall q]}"
    and "calls_of q (start_calls hs @ stop_calls (rev hs)) \<in> {[], [StartCall q, StopCall q]}"
  using assms by (auto simp: calls_of_map rev_filter [symmetric])

lemma calls_of_failed:
  assumes "distinct (map rh_sequence (before @ [failed]))"
  shows "calls_of q (start_calls (before @ [failed]) @ stop_calls (rev before)) \<in>
    {[], [StartCall q], [StartCall q, StopCall q]}"
proof (cases "rh_sequence failed = q")
  case True
  then have "filter (\<lambda>h. rh_sequence h = q) before = []"
    using assms by (auto simp: filter_empty_conv image_iff)
  with True show ?thesis by (simp add: calls_of_map rev_filter [symmetric] del: map_append)
next
  case False
  have "filter (\<lambda>h. rh_sequence h = q) before = [] \<or> (\<exists>h. filter (\<lambda>h. rh_sequence h = q) before = [h])"
    using assms by (intro filter_distinct_key) simp
  from calls_of_stopped(2) [OF this] False show ?thesis by (auto simp: calls_of_def)
qed

lemma lifecycle_calls:
  assumes "lifecycle_reachable m s"
  shows "calls_of q (snd s) \<in> {[], [StartCall q], [StartCall q, StopCall q]}"
proof -
  have inv: "lifecycle_inv m (snd s)" by (rule lifecycle_reachable_inv [OF assms])
  then have distinct: "distinct (map rh_sequence (lm_hooks m))"
    by (simp add: lifecycle_inv_def sequences_ok_def)
  note all = calls_of_stopped [OF filter_distinct_key [OF distinct], of q]
  from inv consider "snd s = []" | "snd s = start_calls (lm_hooks m)"
    | "snd s = start_calls (lm_hooks m) @ stop_calls (rev (lm_hooks m))"
    | before failed after where "lm_hooks m = before @ failed # after"
      "snd s = start_calls (before @ [failed]) @ stop_calls (rev before)"
    by (auto simp: lifecycle_inv_def split: lifecycle_state.splits)
  then show ?thesis
  proof cases
    case 4
    have "distinct (map rh_sequence (before @ [failed]))" using distinct 4(1) by auto
    from calls_of_failed [OF this] show ?thesis unfolding 4(2) .
  qed (use all in \<open>auto simp: calls_of_def\<close>)
qed

text \<open>
  C17: The manager does not refuse a hook after the start. Such a hook is stopped by the shutdown
  although it was never started, which the restriction of \<open>lifecycle_reachable\<close> to applications
  excludes.
\<close>

definition quiet_hook :: "string \<Rightarrow> unit lifecycle_hook" where
  "quiet_hook name = \<lparr>lh_name = name, lh_start = (\<lambda>w. (w, None)), lh_stop = (\<lambda>w. (w, None))\<rparr>"


section \<open>The properties\<close>







end
