(* ===== verification/Auto_Configuration.thy ===== *)
theory Auto_Configuration
  imports Auto_Report Graph_Model Module_Graph Config Lifecycle
begin

text \<open>
  Official auto-configuration integrations
  (\<open>crates/mads-core/src/auto_configuration/mod.rs\<close>, \<open>descriptor.rs\<close>, \<open>analysis.rs\<close>): the
  descriptors, the contexts given to their callbacks, the evaluations, the private inputs and the
  one evaluation pass of a build (\<open>auto_analyze\<close>).

  An evaluator and an applier are callbacks of an integration outside the core: a descriptor
  carries them as functions of the context they are given, the way the code stores function
  pointers. An evaluation has private fields, so outside the core it is made by one of the
  constructors \<open>evaluation_active\<close>, \<open>evaluation_skipped\<close>, \<open>evaluation_overridden\<close> and
  \<open>evaluation_failed\<close>, which all establish \<open>evaluation_ok\<close>.

  The lemmas show what the pass decides: which integrations are selected (\<open>auto_selected\<close>), that
  two selected integrations never provide the same type, and when the pass reports nothing.
\<close>

section \<open>Inputs\<close>

text \<open>The registered private inputs; a value is stored under its owner and its type.\<close>

type_synonym 'v auto_inputs = "(string \<times> type_id, 'v erased_provider) btree_map"

definition inputs_new :: "'v auto_inputs" where
  "inputs_new = []"

definition inputs_insert :: "type_id \<Rightarrow> string \<Rightarrow> 'v \<Rightarrow> 'v auto_inputs \<Rightarrow> 'v auto_inputs \<times> bool" where
  "inputs_insert t identifier v m =
     (let key = (identifier, t) in
      if bmap_get key m \<noteq> None then (m, False)
      else (bmap_insert key \<lparr>er_type_id = t, er_value = v\<rparr> m, True))"

definition inputs_get :: "type_id \<Rightarrow> string \<Rightarrow> 'v auto_inputs \<Rightarrow> 'v option" where
  "inputs_get t identifier m =
     (case bmap_get (identifier, t) m of
        None \<Rightarrow> None
      | Some v \<Rightarrow> if er_type_id v = t then Some (er_value v) else None)"

section \<open>Contexts\<close>

record 'v auto_context =
  ctx_identifier :: string
  ctx_config :: config
  ctx_providers :: "provider_descriptor list"
  ctx_satisfied :: "satisfied_provider list"
  ctx_inputs :: "'v auto_inputs"
  ctx_module_graph :: "module_graph option"

definition auto_context_new ::
    "string \<Rightarrow> config \<Rightarrow> provider_descriptor list \<Rightarrow> satisfied_provider list \<Rightarrow> 'v auto_inputs \<Rightarrow>
     module_graph option \<Rightarrow> 'v auto_context" where
  "auto_context_new identifier config providers satisfied inputs module_graph =
     \<lparr>ctx_identifier = identifier, ctx_config = config, ctx_providers = providers,
      ctx_satisfied = satisfied, ctx_inputs = inputs, ctx_module_graph = module_graph\<rparr>"

definition has_provider :: "type_id \<Rightarrow> string \<Rightarrow> 'v auto_context \<Rightarrow> bool" where
  "has_provider type_id type_name c \<longleftrightarrow>
     list_ex (\<lambda>p. sp_type_id p = type_id) (ctx_satisfied c) \<or>
     list_ex (\<lambda>p. pd_type_id p = type_id \<or> pd_runtime_type_name p = Some type_name) (ctx_providers c)"

definition requirement_order :: "auto_requirement \<Rightarrow> auto_requirement \<Rightarrow> ordering" where
  "requirement_order left right =
     then_with (cmp (ar_provider_type_name left) (ar_provider_type_name right))
       (optional_location_order (ar_location left) (ar_location right))"

definition requirements :: "type_id \<Rightarrow> 'v auto_context \<Rightarrow> auto_requirement list" where
  "requirements type_id c =
     sort_by requirement_order
       (map (\<lambda>p. \<lparr>ar_provider_type_name = pd_type_name p, ar_location = Some (pd_location p)\<rparr>)
         (filter (\<lambda>p. list_ex (\<lambda>d. dep_type_id d = type_id) (pd_dependencies p)) (ctx_providers c)))"

definition ctx_input :: "type_id \<Rightarrow> 'v auto_context \<Rightarrow> 'v option" where
  "ctx_input t c = inputs_get t (ctx_identifier c) (ctx_inputs c)"

record 'v apply_context =
  ap_identifier :: string
  ap_config :: config
  ap_inputs :: "'v auto_inputs"
  ap_module_graph :: "module_graph option"

definition apply_context_new ::
    "string \<Rightarrow> config \<Rightarrow> 'v auto_inputs \<Rightarrow> module_graph option \<Rightarrow> 'v apply_context" where
  "apply_context_new identifier config inputs module_graph =
     \<lparr>ap_identifier = identifier, ap_config = config, ap_inputs = inputs,
      ap_module_graph = module_graph\<rparr>"

definition ap_input :: "type_id \<Rightarrow> 'v apply_context \<Rightarrow> 'v option" where
  "ap_input t c = inputs_get t (ap_identifier c) (ap_inputs c)"

section \<open>Evaluations\<close>

record evaluation =
  ev_status :: auto_status
  ev_reason_code :: reason_code
  ev_explanation :: string
  ev_requirements :: "auto_requirement list"
  ev_configuration :: "auto_evidence list"
  ev_failure :: "error option"

definition evaluation_new ::
    "auto_status \<Rightarrow> reason_code \<Rightarrow> string \<Rightarrow> auto_requirement list \<Rightarrow> auto_evidence list \<Rightarrow>
     error option \<Rightarrow> evaluation" where
  "evaluation_new status reason explanation reqs configuration failure =
     \<lparr>ev_status = status, ev_reason_code = reason, ev_explanation = explanation,
      ev_requirements = reqs, ev_configuration = configuration, ev_failure = failure\<rparr>"

definition evaluation_active ::
    "reason_code \<Rightarrow> string \<Rightarrow> auto_requirement list \<Rightarrow> auto_evidence list \<Rightarrow> evaluation" where
  "evaluation_active reason explanation reqs configuration =
     evaluation_new Active reason explanation reqs configuration None"

definition evaluation_skipped ::
    "reason_code \<Rightarrow> string \<Rightarrow> auto_requirement list \<Rightarrow> auto_evidence list \<Rightarrow> evaluation" where
  "evaluation_skipped reason explanation reqs configuration =
     evaluation_new Skipped reason explanation reqs configuration None"

definition evaluation_overridden ::
    "reason_code \<Rightarrow> string \<Rightarrow> auto_requirement list \<Rightarrow> auto_evidence list \<Rightarrow> evaluation" where
  "evaluation_overridden reason explanation reqs configuration =
     evaluation_new Overridden reason explanation reqs configuration None"

definition evaluation_failed ::
    "reason_code \<Rightarrow> string \<Rightarrow> auto_requirement list \<Rightarrow> auto_evidence list \<Rightarrow> error \<Rightarrow> evaluation" where
  "evaluation_failed reason explanation reqs configuration e =
     evaluation_new FailedStatus reason explanation reqs configuration (Some e)"

definition replace_failure :: "reason_code \<Rightarrow> string \<Rightarrow> error \<Rightarrow> evaluation \<Rightarrow> evaluation" where
  "replace_failure reason explanation e v =
     v\<lparr>ev_status := FailedStatus, ev_reason_code := reason, ev_explanation := explanation,
       ev_failure := Some e\<rparr>"

section \<open>Descriptors and contributions\<close>

record ('v, 'w) contribution =
  con_provider :: "'v erased_provider"
  con_hooks :: "'w lifecycle_hook list"

definition contribution_new :: "'v erased_provider \<Rightarrow> ('v, 'w) contribution" where
  "contribution_new v = \<lparr>con_provider = v, con_hooks = []\<rparr>"

definition with_lifecycle_hook :: "'w lifecycle_hook \<Rightarrow> ('v, 'w) contribution \<Rightarrow> ('v, 'w) contribution" where
  "with_lifecycle_hook hook c = c\<lparr>con_hooks := con_hooks c @ [hook]\<rparr>"

text \<open>An applier may act on the world; it returns a contribution or an error.\<close>

record ('v, 'w) auto_descriptor =
  ad_identifier :: string
  ad_output_type_name :: string
  ad_output_type_id :: type_id
  ad_location :: source_location
  ad_evaluator :: "'v auto_context \<Rightarrow> evaluation"
  ad_applier :: "'v apply_context \<Rightarrow> 'w \<Rightarrow> 'w \<times> (error + ('v, 'w) contribution)"

definition evaluation_report :: "('v, 'w) auto_descriptor \<Rightarrow> evaluation \<Rightarrow> auto_report" where
  "evaluation_report d v =
     report_new (ad_identifier d) (ad_output_type_name d) (ev_status v) (ev_reason_code v)
       (ev_explanation v) (ev_requirements v) (ev_configuration v)"

definition auto_descriptor_order ::
    "('v, 'w) auto_descriptor \<Rightarrow> ('v, 'w) auto_descriptor \<Rightarrow> ordering" where
  "auto_descriptor_order left right =
     then_with (cmp (ad_identifier left) (ad_identifier right))
       (then_with (cmp (ad_output_type_name left) (ad_output_type_name right))
         (location_order (ad_location left) (ad_location right)))"

definition auto_descriptors :: "('v, 'w) auto_descriptor list \<Rightarrow> ('v, 'w) auto_descriptor list" where
  "auto_descriptors registered = sort_by auto_descriptor_order registered"

section \<open>The evaluation pass\<close>

record ('v, 'w) decision =
  dc_descriptor :: "('v, 'w) auto_descriptor"
  dc_evaluation :: evaluation
  dc_has_direct_requirement :: bool
  dc_emit_diagnostic :: bool

record ('v, 'w) auto_analysis =
  aa_reports :: "auto_report list"
  aa_diagnostics :: "diagnostic list"
  aa_failure :: "error option"
  aa_virtual_satisfied :: "satisfied_provider list"
  aa_covered_missing :: "type_id list"
  aa_selected :: "('v, 'w) auto_descriptor list"

definition has_direct_requirement ::
    "('v, 'w) auto_descriptor \<Rightarrow> provider_descriptor list \<Rightarrow> bool" where
  "has_direct_requirement d providers =
     (let output_type_id = ad_output_type_id d in
      list_ex (\<lambda>p. list_ex (\<lambda>x. dep_type_id x = output_type_id) (pd_dependencies p)) providers)"

definition duplicate_identifier_diagnostic :: "('v, 'w) auto_descriptor \<Rightarrow> diagnostic" where
  "duplicate_identifier_diagnostic d =
     with_suggestion ''use a unique official auto-configuration identifier''
       (with_location (ad_location d) (with_subject (ad_identifier d)
         (diagnostic_new MADS007 ''duplicate auto-configuration identifier''
           ''multiple official auto-configurations use the same stable identifier'')))"

definition conflicting_default_diagnostic :: "('v, 'w) auto_descriptor \<Rightarrow> diagnostic" where
  "conflicting_default_diagnostic d =
     with_suggestion ''remove one conflicting official auto-configuration''
       (with_location (ad_location d) (with_subject (ad_output_type_name d)
         (diagnostic_new MADS007 ''conflicting auto-configuration defaults''
           ''multiple official auto-configurations selected the same output type'')))"

definition duplicate_decision ::
    "provider_descriptor list \<Rightarrow> diagnostic \<Rightarrow> bool \<Rightarrow> ('v, 'w) auto_descriptor \<Rightarrow> ('v, 'w) decision" where
  "duplicate_decision providers d first descriptor =
     \<lparr>dc_descriptor = descriptor,
      dc_evaluation = evaluation_failed (ReasonCode ''duplicate_identifier'')
        ''an auto-configuration identifier is duplicated'' [] [] (error_new d),
      dc_has_direct_requirement = has_direct_requirement descriptor providers,
      dc_emit_diagnostic = first\<rparr>"

text \<open>
  The loop over the sorted descriptors: a run of equal identifiers fails as a whole, a descriptor
  of its own identifier is evaluated.
\<close>

function decide ::
    "provider_descriptor list \<Rightarrow> satisfied_provider list \<Rightarrow> config \<Rightarrow> 'v auto_inputs \<Rightarrow>
     module_graph option \<Rightarrow> ('v, 'w) auto_descriptor list \<Rightarrow> ('v, 'w) decision list" where
  "decide providers satisfied config inputs module_graph [] = []"
| "decide providers satisfied config inputs module_graph (descriptor # descriptors) =
     (let same = takeWhile (\<lambda>d. ad_identifier d = ad_identifier descriptor) descriptors;
          rest = dropWhile (\<lambda>d. ad_identifier d = ad_identifier descriptor) descriptors in
      (if same \<noteq> [] then
         let d = duplicate_identifier_diagnostic descriptor in
         duplicate_decision providers d True descriptor # map (duplicate_decision providers d False) same
       else
         [\<lparr>dc_descriptor = descriptor,
           dc_evaluation = ad_evaluator descriptor
             (auto_context_new (ad_identifier descriptor) config providers satisfied inputs module_graph),
           dc_has_direct_requirement = has_direct_requirement descriptor providers,
           dc_emit_diagnostic = True\<rparr>])
      @ decide providers satisfied config inputs module_graph rest)"
  by pat_completeness auto

termination decide
  by (relation "measure (\<lambda>(_, _, _, _, _, ds). length ds)") (auto simp: le_imp_less_Suc length_dropWhile_le)

abbreviation is_active :: "('v, 'w) decision \<Rightarrow> bool" where
  "is_active c \<equiv> ev_status (dc_evaluation c) = Active"

definition conflicts_of :: "('v, 'w) decision list \<Rightarrow> nat \<Rightarrow> nat list" where
  "conflicts_of decisions index =
     filter (\<lambda>j. is_active (decisions ! j) \<and>
         ad_output_type_id (dc_descriptor (decisions ! j)) =
           ad_output_type_id (dc_descriptor (decisions ! index)))
       [0 ..< length decisions]"

definition conflict_decision :: "diagnostic \<Rightarrow> bool \<Rightarrow> ('v, 'w) decision \<Rightarrow> ('v, 'w) decision" where
  "conflict_decision d first c =
     c\<lparr>dc_evaluation := replace_failure (ReasonCode ''conflicting_default'')
           ''multiple auto-configuration defaults conflict'' (error_new d) (dc_evaluation c),
       dc_emit_diagnostic := first\<rparr>"

definition conflict_step :: "nat \<Rightarrow> ('v, 'w) decision list \<Rightarrow> ('v, 'w) decision list" where
  "conflict_step index decisions =
     (if \<not> is_active (decisions ! index) then decisions
      else
        let conflicts = conflicts_of decisions index in
        if length conflicts < 2 \<or> conflicts ! 0 \<noteq> index then decisions
        else
          let d = conflicting_default_diagnostic (dc_descriptor (decisions ! index)) in
          fold (\<lambda>(position, j) decisions.
              decisions[j := conflict_decision d (position = 0) (decisions ! j)])
            (List.enumerate 0 conflicts) decisions)"

definition resolve_conflicts :: "('v, 'w) decision list \<Rightarrow> ('v, 'w) decision list" where
  "resolve_conflicts decisions = fold conflict_step [0 ..< length decisions] decisions"

text \<open>The set \<open>seen\<close> keeps the first occurrence of each type.\<close>

fun first_occurrences :: "type_id list \<Rightarrow> type_id list \<Rightarrow> type_id list" where
  "first_occurrences seen [] = []"
| "first_occurrences seen (t # ts) =
     (if t \<in> set seen then first_occurrences seen ts else t # first_occurrences (t # seen) ts)"

definition covered_missing_of :: "('v, 'w) decision list \<Rightarrow> type_id list" where
  "covered_missing_of decisions =
     first_occurrences []
       (map snd (sort_by (\<lambda>left right. cmp (fst left) (fst right))
         (map (\<lambda>c. (ad_output_type_name (dc_descriptor c), ad_output_type_id (dc_descriptor c)))
           (filter (\<lambda>c. ev_status (dc_evaluation c) = FailedStatus \<and> dc_has_direct_requirement c)
             decisions))))"

definition failure_of :: "('v, 'w) decision \<Rightarrow> error option" where
  "failure_of c =
     (if ev_status (dc_evaluation c) = FailedStatus \<and>
         (case ev_failure (dc_evaluation c) of Some e \<Rightarrow> err_source e \<noteq> None | None \<Rightarrow> False)
      then ev_failure (dc_evaluation c) else None)"

fun find_map :: "('a \<Rightarrow> 'b option) \<Rightarrow> 'a list \<Rightarrow> 'b option" where
  "find_map f [] = None"
| "find_map f (x # xs) = (case f x of Some y \<Rightarrow> Some y | None \<Rightarrow> find_map f xs)"

definition auto_analyze ::
    "('v, 'w) auto_descriptor list \<Rightarrow> provider_descriptor list \<Rightarrow> satisfied_provider list \<Rightarrow> config \<Rightarrow>
     'v auto_inputs \<Rightarrow> module_graph option \<Rightarrow> panic + ('v, 'w) auto_analysis" where
  "auto_analyze descriptors providers satisfied config inputs module_graph =
     (let descriptors = sort_by auto_descriptor_order descriptors;
          decisions = resolve_conflicts (decide providers satisfied config inputs module_graph descriptors);
          reports = map (\<lambda>c. evaluation_report (dc_descriptor c) (dc_evaluation c)) decisions;
          selected = map dc_descriptor (filter is_active decisions) in
      and_then (try_map error_diagnostic
          (List.map_filter (\<lambda>c. ev_failure (dc_evaluation c)) (filter dc_emit_diagnostic decisions)))
        (\<lambda>diagnostics. Inr
          \<lparr>aa_reports = reports, aa_diagnostics = diagnostics,
           aa_failure = find_map failure_of decisions,
           aa_virtual_satisfied = map (\<lambda>d.
             satisfied_auto_configured (ad_output_type_id d) (ad_output_type_name d)) selected,
           aa_covered_missing = covered_missing_of decisions,
           aa_selected = selected\<rparr>))"

section \<open>Evaluations and inputs\<close>

definition evaluation_ok :: "evaluation \<Rightarrow> bool" where
  "evaluation_ok v \<longleftrightarrow>
     (case ev_failure v of
        None \<Rightarrow> ev_status v \<noteq> FailedStatus
      | Some e \<Rightarrow> ev_status v = FailedStatus \<and> error_ok e)"

lemma evaluation_ok_constructors [intro, simp]:
  "evaluation_ok (evaluation_active reason explanation reqs configuration)"
  "evaluation_ok (evaluation_skipped reason explanation reqs configuration)"
  "evaluation_ok (evaluation_overridden reason explanation reqs configuration)"
  "error_ok e \<Longrightarrow> evaluation_ok (evaluation_failed reason explanation reqs configuration e)"
  "error_ok e \<Longrightarrow> evaluation_ok (replace_failure reason explanation e v)"
  by (simp_all add: evaluation_ok_def evaluation_new_def evaluation_active_def evaluation_skipped_def
      evaluation_overridden_def evaluation_failed_def replace_failure_def)

lemma inputs_insert_get:
  assumes "bmap_ok m" "inputs_insert t identifier v m = (m', inserted)"
  shows "bmap_ok m' \<and> inserted = (bmap_get (identifier, t) m = None) \<and>
    (\<forall>u j. inputs_get u j m' =
       (if inserted \<and> u = t \<and> j = identifier then Some v else inputs_get u j m))"
  using assms
  by (auto simp: inputs_insert_def inputs_get_def Let_def bmap.ok_insert bmap.get_insert split: if_splits)

lemma requirement_order_cmp_on:
  "requirement_order = cmp_on (\<lambda>r. (ar_provider_type_name r, map_option location_key (ar_location r)))"
  by (simp add: fun_eq_iff requirement_order_def cmp_on_def cmp_simps)

interpretation requirements: comparator requirement_order
  unfolding requirement_order_cmp_on by (rule comparator_cmp_on)

lemma auto_descriptor_order_cmp_on:
  "auto_descriptor_order =
     cmp_on (\<lambda>d. (ad_identifier d, ad_output_type_name d, location_key (ad_location d)))"
  by (simp add: fun_eq_iff auto_descriptor_order_def cmp_on_def cmp_simps)

interpretation auto_descriptors: comparator auto_descriptor_order
  unfolding auto_descriptor_order_cmp_on by (rule comparator_cmp_on)

lemma sorted_auto_descriptors: "sorted (map ad_identifier (sort_by auto_descriptor_order ds))"
  unfolding auto_descriptor_order_cmp_on sort_by_cmp_on
  using sorted_sort_key [of "\<lambda>d. (ad_identifier d, ad_output_type_name d, location_key (ad_location d))" ds]
  by (auto simp: sorted_wrt_map elim!: sorted_wrt_mono_rel [rotated])

section \<open>The decisions before conflicts are resolved\<close>

abbreviation with_identifier :: "('v, 'w) auto_descriptor \<Rightarrow> ('v, 'w) auto_descriptor list \<Rightarrow> ('v, 'w) auto_descriptor list" where
  "with_identifier d ds \<equiv> filter (\<lambda>e. ad_identifier e = ad_identifier d) ds"

definition evaluated ::
    "provider_descriptor list \<Rightarrow> satisfied_provider list \<Rightarrow> config \<Rightarrow> 'v auto_inputs \<Rightarrow>
     module_graph option \<Rightarrow> ('v, 'w) auto_descriptor list \<Rightarrow> ('v, 'w) auto_descriptor \<Rightarrow> evaluation" where
  "evaluated providers satisfied config inputs module_graph ds d =
     (if 1 < length (with_identifier d ds) then
        evaluation_failed (ReasonCode ''duplicate_identifier'')
          ''an auto-configuration identifier is duplicated'' [] []
          (error_new (duplicate_identifier_diagnostic (hd (with_identifier d ds))))
      else ad_evaluator d
        (auto_context_new (ad_identifier d) config providers satisfied inputs module_graph))"

lemma sorted_identifiers_split:
  assumes "sorted (map ad_identifier (d # ds))"
  shows "takeWhile (\<lambda>e. ad_identifier e = ad_identifier d) ds = with_identifier d ds"
    and "e \<in> set (dropWhile (\<lambda>e. ad_identifier e = ad_identifier d) ds) \<Longrightarrow>
      ad_identifier d < ad_identifier e"
  using assms
proof (induction ds)
  case (Cons x ds)
  {
    case 1
    show ?case
    proof (cases "ad_identifier x = ad_identifier d")
      case False
      with 1 have "ad_identifier y \<noteq> ad_identifier d" if "y \<in> set (x # ds)" for y
        using that by (auto dest: order.antisym)
      with False show ?thesis by (simp add: filter_empty_conv)
    qed (use Cons.IH(1) 1 in simp)
  next
    case 2
    show ?case
    proof (cases "ad_identifier x = ad_identifier d")
      case False
      with 2 show ?thesis by (auto simp: less_le)
    qed (use Cons.IH(2) 2 in simp)
  }
qed simp_all

text \<open>What the loop promises about the decisions on a sorted list of descriptors.\<close>

definition decided ::
    "provider_descriptor list \<Rightarrow> satisfied_provider list \<Rightarrow> config \<Rightarrow> 'v auto_inputs \<Rightarrow>
     module_graph option \<Rightarrow> ('v, 'w) auto_descriptor list \<Rightarrow> ('v, 'w) decision list \<Rightarrow> bool" where
  "decided providers satisfied config inputs module_graph ds cs \<longleftrightarrow>
     map dc_descriptor cs = ds \<and>
     (\<forall>c\<in>set cs.
        dc_evaluation c =
          evaluated providers satisfied config inputs module_graph ds (dc_descriptor c) \<and>
        dc_has_direct_requirement c = has_direct_requirement (dc_descriptor c) providers \<and>
        (\<exists>c'\<in>set cs. ad_identifier (dc_descriptor c') = ad_identifier (dc_descriptor c) \<and>
           dc_emit_diagnostic c'))"

lemma evaluated_append:
  assumes "\<forall>e\<in>set es. ad_identifier e \<noteq> ad_identifier d"
  shows "evaluated providers satisfied config inputs mg (es @ ds) d =
      evaluated providers satisfied config inputs mg ds d"
    and "evaluated providers satisfied config inputs mg (ds @ es) d =
      evaluated providers satisfied config inputs mg ds d"
proof -
  have "with_identifier d es = []" using assms by (simp add: filter_empty_conv)
  then show "evaluated providers satisfied config inputs mg (es @ ds) d =
      evaluated providers satisfied config inputs mg ds d"
    "evaluated providers satisfied config inputs mg (ds @ es) d =
      evaluated providers satisfied config inputs mg ds d"
    by (simp_all add: evaluated_def)
qed

lemma decided_append:
  assumes "decided providers satisfied config inputs mg ds cs"
    and "decided providers satisfied config inputs mg es cs'"
    and "\<forall>d\<in>set ds. \<forall>e\<in>set es. ad_identifier d \<noteq> ad_identifier e"
  shows "decided providers satisfied config inputs mg (ds @ es) (cs @ cs')"
proof -
  have members: "dc_descriptor c \<in> set ds" if "c \<in> set cs" for c
    using assms(1) that by (auto simp: decided_def)
  have members': "dc_descriptor c \<in> set es" if "c \<in> set cs'" for c
    using assms(2) that by (auto simp: decided_def)
  have "evaluated providers satisfied config inputs mg (ds @ es) (dc_descriptor c) =
      evaluated providers satisfied config inputs mg ds (dc_descriptor c)" if "c \<in> set cs" for c
    using assms(3) members [OF that] by (intro evaluated_append(2)) (metis (no_types))
  moreover have "evaluated providers satisfied config inputs mg (ds @ es) (dc_descriptor c) =
      evaluated providers satisfied config inputs mg es (dc_descriptor c)" if "c \<in> set cs'" for c
    using assms(3) members' [OF that] by (intro evaluated_append(1)) (metis (no_types))
  ultimately show ?thesis using assms(1,2) unfolding decided_def by (auto simp: Bex_def)
qed

lemma duplicate_decision_simps [simp]:
  "dc_descriptor (duplicate_decision providers g first d) = d"
  "dc_emit_diagnostic (duplicate_decision providers g first d) = first"
  "dc_has_direct_requirement (duplicate_decision providers g first d) = has_direct_requirement d providers"
  "dc_evaluation (duplicate_decision providers g first d) =
     evaluation_failed (ReasonCode ''duplicate_identifier'')
       ''an auto-configuration identifier is duplicated'' [] [] (error_new g)"
  by (simp_all add: duplicate_decision_def)

lemma decided_run:
  assumes "same \<noteq> []" "\<forall>e\<in>set same. ad_identifier e = ad_identifier d"
  shows "decided providers satisfied config inputs mg (d # same)
    (duplicate_decision providers (duplicate_identifier_diagnostic d) True d #
     map (duplicate_decision providers (duplicate_identifier_diagnostic d) False) same)"
proof -
  have wid: "with_identifier e (d # same) = d # same" if "e \<in> set (d # same)" for e
    using that assms(2) by (auto simp: filter_id_conv)
  have many: "1 < length (d # same)" using assms(1) by (cases same) simp_all
  have ev: "evaluated providers satisfied config inputs mg (d # same) e =
      evaluation_failed (ReasonCode ''duplicate_identifier'')
        ''an auto-configuration identifier is duplicated'' [] []
        (error_new (duplicate_identifier_diagnostic d))" if "e \<in> set (d # same)" for e
    unfolding evaluated_def wid [OF that] using many by simp
  show ?thesis
    unfolding decided_def using assms(2) ev by (auto simp: comp_def)
qed

lemma decide_correct:
  "sorted (map ad_identifier ds) \<Longrightarrow>
   decided providers satisfied config inputs mg ds (decide providers satisfied config inputs mg ds)"
proof (induction providers satisfied config inputs mg ds rule: decide.induct)
  case (1 providers satisfied config inputs mg)
  then show ?case by (simp add: decided_def)
next
  case (2 providers satisfied config inputs mg d ds)
  define same where "same = takeWhile (\<lambda>e. ad_identifier e = ad_identifier d) ds"
  define rest where "rest = dropWhile (\<lambda>e. ad_identifier e = ad_identifier d) ds"
  have ds: "ds = same @ rest" by (simp add: same_def rest_def)
  have same: "\<forall>e\<in>set same. ad_identifier e = ad_identifier d"
    by (auto simp: same_def dest: set_takeWhileD)
  have rest: "ad_identifier d \<noteq> ad_identifier e" if "e \<in> set rest" for e
    using sorted_identifiers_split(2) [OF 2(2), of e] that by (auto simp: rest_def)
  let ?first = "if same \<noteq> [] then
         duplicate_decision providers (duplicate_identifier_diagnostic d) True d #
         map (duplicate_decision providers (duplicate_identifier_diagnostic d) False) same
       else
         [\<lparr>dc_descriptor = d,
           dc_evaluation = ad_evaluator d
             (auto_context_new (ad_identifier d) config providers satisfied inputs mg),
           dc_has_direct_requirement = has_direct_requirement d providers,
           dc_emit_diagnostic = True\<rparr>]"
  have "sorted (map ad_identifier rest)" using 2(2) ds by (simp add: sorted_append)
  with 2(1) have ih: "decided providers satisfied config inputs mg rest
      (decide providers satisfied config inputs mg rest)" by (simp add: same_def rest_def)
  have "decided providers satisfied config inputs mg (d # same) ?first"
  proof (cases "same = []")
    case True
    then show ?thesis by (simp add: decided_def evaluated_def)
  next
    case False
    with decided_run [OF False same] show ?thesis by simp
  qed
  then have "decided providers satisfied config inputs mg ((d # same) @ rest)
      (?first @ decide providers satisfied config inputs mg rest)"
    using ih same rest by (intro decided_append) auto
  moreover have "decide providers satisfied config inputs mg (d # ds) =
      ?first @ decide providers satisfied config inputs mg rest"
    by (simp add: Let_def same_def rest_def)
  ultimately show ?case using ds by simp
qed

section \<open>The decisions after conflicts are resolved\<close>

lemma conflict_decision_simps [simp]:
  "dc_descriptor (conflict_decision g first c) = dc_descriptor c"
  "dc_has_direct_requirement (conflict_decision g first c) = dc_has_direct_requirement c"
  "dc_emit_diagnostic (conflict_decision g first c) = first"
  "ev_status (dc_evaluation (conflict_decision g first c)) = FailedStatus"
  "ev_failure (dc_evaluation (conflict_decision g first c)) = Some (error_new g)"
  by (simp_all add: conflict_decision_def replace_failure_def)

lemma enumerate_update:
  "distinct js \<Longrightarrow> length (fold (\<lambda>(p, j) xs. xs[j := f (p = (0 :: nat)) (xs ! j)]) (List.enumerate k js) xs) = length xs \<and>
   (i < length xs \<longrightarrow> fold (\<lambda>(p, j) xs. xs[j := f (p = (0 :: nat)) (xs ! j)]) (List.enumerate k js) xs ! i =
     (if i \<in> set js then f (k = 0 \<and> i = hd js) (xs ! i) else xs ! i))"
proof (induction js arbitrary: k xs)
  case (Cons j js)
  from Cons.prems Cons.IH [of "Suc k" "xs[j := f (k = 0) (xs ! j)]"] show ?case
    by (cases "i = j") (auto simp: nth_list_update)
qed simp

abbreviation is_conflict :: "('v, 'w) decision list \<Rightarrow> nat \<Rightarrow> bool" where
  "is_conflict cs i \<equiv> is_active (cs ! i) \<and> 2 \<le> length (conflicts_of cs i)"

definition resolved :: "('v, 'w) decision list \<Rightarrow> nat \<Rightarrow> nat \<Rightarrow> ('v, 'w) decision" where
  "resolved cs m i =
     (let first = hd (conflicts_of cs i) in
      if is_conflict cs i \<and> first < m
      then conflict_decision (conflicting_default_diagnostic (dc_descriptor (cs ! first))) (i = first) (cs ! i)
      else cs ! i)"

lemma set_conflicts_of:
  "set (conflicts_of cs i) =
     {j. j < length cs \<and> is_active (cs ! j) \<and>
        ad_output_type_id (dc_descriptor (cs ! j)) = ad_output_type_id (dc_descriptor (cs ! i))}"
  by (auto simp: conflicts_of_def)

lemma conflicts_of_member:
  "j \<in> set (conflicts_of cs i) \<Longrightarrow> conflicts_of cs j = conflicts_of cs i"
  by (auto simp: conflicts_of_def)

lemma conflicts_of_hd:
  assumes "is_conflict cs i"
  shows "hd (conflicts_of cs i) \<in> set (conflicts_of cs i)"
    and "conflicts_of cs (hd (conflicts_of cs i)) = conflicts_of cs i"
proof -
  show *: "hd (conflicts_of cs i) \<in> set (conflicts_of cs i)"
    using assms by (intro hd_in_set) auto
  show "conflicts_of cs (hd (conflicts_of cs i)) = conflicts_of cs i"
    by (rule conflicts_of_member [OF *])
qed

lemma resolved_simps [simp]:
  "dc_descriptor (resolved cs m i) = dc_descriptor (cs ! i)"
  "dc_has_direct_requirement (resolved cs m i) = dc_has_direct_requirement (cs ! i)"
  by (simp_all add: resolved_def Let_def)

lemma resolved_active:
  "is_active (resolved cs m i) \<longleftrightarrow>
     is_active (cs ! i) \<and> \<not> (2 \<le> length (conflicts_of cs i) \<and> hd (conflicts_of cs i) < m)"
  by (auto simp: resolved_def Let_def)

lemma conflicts_of_resolved:
  assumes "m < length cs" "is_active (resolved cs m m)"
  shows "conflicts_of (map (resolved cs m) [0 ..< length cs]) m = conflicts_of cs m"
proof -
  have "(is_active (resolved cs m j) \<and>
      ad_output_type_id (dc_descriptor (cs ! j)) = ad_output_type_id (dc_descriptor (cs ! m))) \<longleftrightarrow>
      (is_active (cs ! j) \<and>
      ad_output_type_id (dc_descriptor (cs ! j)) = ad_output_type_id (dc_descriptor (cs ! m)))"
    if "j < length cs" for j
  proof (cases "j \<in> set (conflicts_of cs m)")
    case True
    with assms(2) show ?thesis by (simp add: resolved_active conflicts_of_member [OF True])
  next
    case False
    with that show ?thesis by (auto simp: set_conflicts_of resolved_active)
  qed
  then have "filter (\<lambda>j. is_active (resolved cs m j) \<and>
        ad_output_type_id (dc_descriptor (cs ! j)) = ad_output_type_id (dc_descriptor (cs ! m))) [0 ..< length cs] =
      conflicts_of cs m"
    unfolding conflicts_of_def by (intro filter_cong) simp_all
  moreover have "conflicts_of (map (resolved cs m) [0 ..< length cs]) m =
      filter (\<lambda>j. is_active (resolved cs m j) \<and>
        ad_output_type_id (dc_descriptor (cs ! j)) = ad_output_type_id (dc_descriptor (cs ! m))) [0 ..< length cs]"
    unfolding conflicts_of_def using assms(1) by (intro filter_cong) simp_all
  ultimately show ?thesis by simp
qed

lemma resolved_Suc_other:
  assumes "\<And>i. is_conflict cs i \<Longrightarrow> hd (conflicts_of cs i) \<noteq> m"
  shows "resolved cs (Suc m) = resolved cs m"
  using assms by (auto simp: resolved_def Let_def fun_eq_iff less_Suc_eq)

lemma conflict_step_resolved:
  assumes "m < length cs"
  shows "conflict_step m (map (resolved cs m) [0 ..< length cs]) = map (resolved cs (Suc m)) [0 ..< length cs]"
    (is "conflict_step m ?D = _")
proof (cases "is_conflict cs m \<and> hd (conflicts_of cs m) = m")
  case True
  let ?js = "conflicts_of cs m" and ?g = "conflicting_default_diagnostic (dc_descriptor (cs ! m))"
  have m: "?D ! m = resolved cs m m" using assms by simp
  have active: "is_active (resolved cs m m)" using True by (simp add: resolved_active)
  note js = conflicts_of_resolved [OF assms this]
  have ne: "?js \<noteq> []" using True by auto
  then have first: "?js ! 0 = m" using True by (simp add: hd_conv_nth)
  have "distinct ?js" by (simp add: conflicts_of_def)
  note upd = enumerate_update [OF this, of "conflict_decision ?g" 0 ?D]
  have step: "conflict_step m ?D = fold (\<lambda>(p, j) xs. xs[j := conflict_decision ?g (p = 0) (xs ! j)])
      (List.enumerate 0 ?js) ?D" (is "_ = ?F")
    unfolding conflict_step_def js m using active True first by (simp add: Let_def)
  have "?F ! i = resolved cs (Suc m) i" if i: "i < length cs" for i
  proof (cases "i \<in> set ?js")
    case True
    with conflicts_of_member [OF True] \<open>is_conflict cs m \<and> hd (conflicts_of cs m) = m\<close> upd i show ?thesis
      by (auto simp: resolved_def Let_def set_conflicts_of)
  next
    case False
    have "hd (conflicts_of cs i) \<noteq> m" if "is_conflict cs i"
      using conflicts_of_hd [OF that] False i that by (auto simp: set_conflicts_of)
    with False upd i show ?thesis by (auto simp: resolved_def Let_def less_Suc_eq)
  qed
  with upd show ?thesis unfolding step by (intro nth_equalityI) auto
next
  case False
  have "hd (conflicts_of cs i) \<noteq> m" if "is_conflict cs i" for i
    using conflicts_of_hd [OF that] False that by (auto simp: set_conflicts_of)
  then have "resolved cs (Suc m) = resolved cs m" by (rule resolved_Suc_other)
  moreover have "conflict_step m ?D = ?D"
  proof (cases "is_active (resolved cs m m)")
    case True
    have "length (conflicts_of cs m) < 2 \<or> conflicts_of cs m ! 0 \<noteq> m"
      using False True by (cases "conflicts_of cs m") (auto simp: resolved_active not_le)
    with True assms show ?thesis
      by (simp add: conflict_step_def conflicts_of_resolved [OF assms True])
  qed (use assms in \<open>simp add: conflict_step_def\<close>)
  ultimately show ?thesis by simp
qed

lemma resolve_conflicts_eq: "resolve_conflicts cs = map (resolved cs (length cs)) [0 ..< length cs]"
proof -
  have "fold conflict_step [0 ..< m] cs = map (resolved cs m) [0 ..< length cs]" if "m \<le> length cs" for m
    using that
  proof (induction m)
    case 0
    show ?case by (intro nth_equalityI) (simp_all add: resolved_def Let_def)
  qed (simp add: conflict_step_resolved)
  then show ?thesis by (simp add: resolve_conflicts_def)
qed

section \<open>The outcome of the pass\<close>

text \<open>What the evaluator of a descriptor answers in the pass.\<close>

definition auto_answer ::
    "provider_descriptor list \<Rightarrow> satisfied_provider list \<Rightarrow> config \<Rightarrow> 'v auto_inputs \<Rightarrow>
     module_graph option \<Rightarrow> ('v, 'w) auto_descriptor \<Rightarrow> evaluation" where
  "auto_answer providers satisfied config inputs module_graph d =
     ad_evaluator d (auto_context_new (ad_identifier d) config providers satisfied inputs module_graph)"

text \<open>A descriptor takes part when its identifier is its own and its evaluator answers active.\<close>

definition takes_part ::
    "(('v, 'w) auto_descriptor \<Rightarrow> evaluation) \<Rightarrow> ('v, 'w) auto_descriptor list \<Rightarrow>
     ('v, 'w) auto_descriptor \<Rightarrow> bool" where
  "takes_part answer ds d \<longleftrightarrow>
     d \<in> set ds \<and> length (with_identifier d ds) = 1 \<and> ev_status (answer d) = Active"

definition auto_chosen ::
    "(('v, 'w) auto_descriptor \<Rightarrow> evaluation) \<Rightarrow> ('v, 'w) auto_descriptor list \<Rightarrow>
     ('v, 'w) auto_descriptor \<Rightarrow> bool" where
  "auto_chosen answer ds d \<longleftrightarrow>
     takes_part answer ds d \<and>
     (\<forall>e. takes_part answer ds e \<and> ad_output_type_id e = ad_output_type_id d \<longrightarrow> e = d)"

definition auto_accepted :: "(('v, 'w) auto_descriptor \<Rightarrow> evaluation) \<Rightarrow> ('v, 'w) auto_descriptor list \<Rightarrow> bool" where
  "auto_accepted answer ds \<longleftrightarrow>
     distinct (map ad_identifier ds) \<and>
     (\<forall>d\<in>set ds. ev_status (answer d) \<noteq> FailedStatus) \<and>
     (\<forall>d e. takes_part answer ds d \<and> takes_part answer ds e \<and> ad_output_type_id d = ad_output_type_id e \<longrightarrow>
        d = e)"

lemma takes_part_mset:
  assumes "mset ds = mset ds'"
  shows "takes_part answer ds = takes_part answer ds'" "auto_accepted answer ds = auto_accepted answer ds'"
proof -
  have "length (filter p ds) = length (filter p ds')" for p
    using assms by (metis mset_filter size_mset)
  moreover have "set ds = set ds'" using assms by (rule mset_eq_setD)
  ultimately show "takes_part answer ds = takes_part answer ds'" by (auto simp: takes_part_def fun_eq_iff)
  moreover have "distinct (map ad_identifier ds) = distinct (map ad_identifier ds')"
    using assms by (metis mset_eq_imp_distinct_iff mset_map)
  ultimately show "auto_accepted answer ds = auto_accepted answer ds'"
    using \<open>set ds = set ds'\<close> by (simp add: auto_accepted_def)
qed

lemma own_identifier_index:
  assumes "length (with_identifier (ds ! i) ds) = 1" "i < length ds" "j < length ds"
    and "ad_identifier (ds ! j) = ad_identifier (ds ! i)"
  shows "i = j"
proof (rule ccontr)
  assume "i \<noteq> j"
  then have "card {i, j} = 2" by simp
  moreover have "card {i, j} \<le> card {k. k < length ds \<and> ad_identifier (ds ! k) = ad_identifier (ds ! i)}"
    using assms(2-4) by (intro card_mono) auto
  ultimately show False using assms(1) by (simp add: length_filter_conv_card)
qed

lemma with_identifier_pos: "d \<in> set ds \<Longrightarrow> 0 < length (with_identifier d ds)"
  by (auto simp: filter_empty_conv)

lemma distinct_identifiers:
  "distinct (map ad_identifier ds) \<longleftrightarrow> (\<forall>d\<in>set ds. length (with_identifier d ds) = 1)"
proof (induction ds)
  case (Cons d ds)
  have "with_identifier d ds = [] \<longleftrightarrow> ad_identifier d \<notin> ad_identifier ` set ds"
    by (auto simp: filter_empty_conv image_iff)
  moreover have "length (with_identifier e (d # ds)) =
      (if ad_identifier d = ad_identifier e then Suc (length (with_identifier e ds))
       else length (with_identifier e ds))" for e by simp
  ultimately show ?case
    using Cons.IH with_identifier_pos [of _ ds] by (auto simp: image_iff)
qed simp

lemma evaluated_status:
  assumes "d \<in> set ds"
  shows "ev_status (evaluated providers satisfied config inputs mg ds d) = Active \<longleftrightarrow>
      takes_part (auto_answer providers satisfied config inputs mg) ds d"
    and "length (with_identifier d ds) = 1 \<Longrightarrow>
      evaluated providers satisfied config inputs mg ds d = auto_answer providers satisfied config inputs mg d"
    and "length (with_identifier d ds) \<noteq> 1 \<Longrightarrow>
      ev_status (evaluated providers satisfied config inputs mg ds d) = FailedStatus"
proof -
  have pos: "0 < length (with_identifier d ds)" by (rule with_identifier_pos [OF assms])
  show "length (with_identifier d ds) = 1 \<Longrightarrow>
      evaluated providers satisfied config inputs mg ds d = auto_answer providers satisfied config inputs mg d"
    by (simp add: evaluated_def auto_answer_def)
  then show "ev_status (evaluated providers satisfied config inputs mg ds d) = Active \<longleftrightarrow>
      takes_part (auto_answer providers satisfied config inputs mg) ds d"
    using pos assms
  proof (cases "length (with_identifier d ds) = 1")
    case False
    with pos have "1 < length (with_identifier d ds)" by linarith
    then show ?thesis by (simp add: evaluated_def takes_part_def evaluation_failed_def evaluation_new_def)
  qed (simp add: takes_part_def)
  assume "length (with_identifier d ds) \<noteq> 1"
  with pos have "1 < length (with_identifier d ds)" by linarith
  then show "ev_status (evaluated providers satisfied config inputs mg ds d) = FailedStatus"
    by (simp add: evaluated_def evaluation_failed_def evaluation_new_def)
qed

lemma evaluated_ok:
  "evaluation_ok (auto_answer providers satisfied config inputs mg d) \<Longrightarrow>
   evaluation_ok (evaluated providers satisfied config inputs mg ds d)"
  by (simp add: evaluated_def auto_answer_def)

lemma short_conflicts:
  assumes "i \<in> set (conflicts_of cs i)"
  shows "length (conflicts_of cs i) < 2 \<longleftrightarrow> (\<forall>j\<in>set (conflicts_of cs i). j = i)"
proof -
  have "distinct (conflicts_of cs i)" by (simp add: conflicts_of_def)
  then have card: "length (conflicts_of cs i) = card (set (conflicts_of cs i))" by (simp add: distinct_card)
  have "card (set (conflicts_of cs i)) < 2 \<longleftrightarrow> card (set (conflicts_of cs i)) \<le> 1" by auto
  also have "\<dots> \<longleftrightarrow> (\<forall>j\<in>set (conflicts_of cs i). \<forall>k\<in>set (conflicts_of cs i). j = k)"
    by (simp add: card_le_Suc0_iff_eq)
  also have "\<dots> \<longleftrightarrow> (\<forall>j\<in>set (conflicts_of cs i). j = i)" using assms by metis
  finally show ?thesis by (simp only: card)
qed

text \<open>The decisions on a sorted list of descriptors, by position.\<close>

lemma decided_nth:
  assumes "decided providers satisfied config inputs mg D cs" "i < length D"
  shows "length cs = length D" "dc_descriptor (cs ! i) = D ! i"
    "dc_evaluation (cs ! i) = evaluated providers satisfied config inputs mg D (D ! i)"
    "dc_has_direct_requirement (cs ! i) = has_direct_requirement (D ! i) providers"
    "is_active (cs ! i) \<longleftrightarrow> takes_part (auto_answer providers satisfied config inputs mg) D (D ! i)"
proof -
  have descriptors: "map dc_descriptor cs = D" using assms(1) unfolding decided_def by blast
  show len: "length cs = length D" unfolding descriptors [symmetric] by simp
  then have "i < length cs" using assms(2) by simp
  then show d: "dc_descriptor (cs ! i) = D ! i" unfolding descriptors [symmetric] by simp
  have "cs ! i \<in> set cs" using assms(2) len by simp
  with assms(1) have
    "dc_evaluation (cs ! i) = evaluated providers satisfied config inputs mg D (dc_descriptor (cs ! i))"
    "dc_has_direct_requirement (cs ! i) = has_direct_requirement (dc_descriptor (cs ! i)) providers"
    unfolding decided_def by blast+
  then show ev: "dc_evaluation (cs ! i) = evaluated providers satisfied config inputs mg D (D ! i)"
    and "dc_has_direct_requirement (cs ! i) = has_direct_requirement (D ! i) providers"
    by (simp_all only: d)
  show "is_active (cs ! i) \<longleftrightarrow> takes_part (auto_answer providers satisfied config inputs mg) D (D ! i)"
    unfolding ev by (rule evaluated_status(1) [OF nth_mem [OF assms(2)]])
qed

lemma resolved_active_chosen:
  assumes "decided providers satisfied config inputs mg D cs" "i < length D"
  shows "is_active (resolved cs (length cs) i) \<longleftrightarrow>
    auto_chosen (auto_answer providers satisfied config inputs mg) D (D ! i)"
proof (cases "is_active (cs ! i)")
  case True
  let ?part = "takes_part (auto_answer providers satisfied config inputs mg) D"
  note nth = decided_nth [OF assms(1)]
  have part: "?part (D ! i)" using True nth(5) [OF assms(2)] by simp
  have len: "length cs = length D" by (rule nth(1) [OF assms(2)])
  have mem: "i \<in> set (conflicts_of cs i)" using True assms(2) len by (simp add: set_conflicts_of)
  then have "hd (conflicts_of cs i) \<in> set (conflicts_of cs i)" by (intro hd_in_set) auto
  then have "hd (conflicts_of cs i) < length cs" by (simp add: set_conflicts_of)
  then have "is_active (resolved cs (length cs) i) \<longleftrightarrow> length (conflicts_of cs i) < 2"
    using True by (auto simp: resolved_active)
  also have "\<dots> \<longleftrightarrow> (\<forall>j\<in>set (conflicts_of cs i). j = i)" by (rule short_conflicts [OF mem])
  also have "\<dots> \<longleftrightarrow> (\<forall>j < length D. ?part (D ! j) \<and> ad_output_type_id (D ! j) = ad_output_type_id (D ! i) \<longrightarrow> j = i)"
    using nth(2,5) assms(2) by (auto simp: set_conflicts_of len)
  also have "\<dots> \<longleftrightarrow> (\<forall>j < length D. ?part (D ! j) \<and> ad_output_type_id (D ! j) = ad_output_type_id (D ! i) \<longrightarrow> D ! j = D ! i)"
    using own_identifier_index [of D i] part assms(2) unfolding takes_part_def by metis
  also have "\<dots> \<longleftrightarrow> auto_chosen (auto_answer providers satisfied config inputs mg) D (D ! i)"
    using part unfolding auto_chosen_def by (metis in_set_conv_nth takes_part_def)
  finally show ?thesis .
next
  case False
  then show ?thesis
    using decided_nth(5) [OF assms] by (simp add: resolved_active auto_chosen_def)
qed

lemma resolved_ok:
  assumes "decided providers satisfied config inputs mg D cs" "i < length D"
    and "evaluation_ok (auto_answer providers satisfied config inputs mg (D ! i))"
  shows "evaluation_ok (dc_evaluation (resolved cs m i))"
  using decided_nth(3) [OF assms(1,2)] evaluated_ok [OF assms(3), of D]
  by (simp add: resolved_def Let_def conflict_decision_def)

lemma emitted_failure:
  assumes dec: "decided providers satisfied config inputs mg D cs"
    and rejected: "\<not> auto_accepted (auto_answer providers satisfied config inputs mg) D"
  shows "\<exists>i < length D. dc_emit_diagnostic (resolved cs (length cs) i) \<and>
    ev_status (dc_evaluation (resolved cs (length cs) i)) = FailedStatus"
proof (cases "\<exists>i < length D. ev_status (dc_evaluation (cs ! i)) = FailedStatus")
  case True
  then obtain i where i: "i < length D" "ev_status (dc_evaluation (cs ! i)) = FailedStatus" by blast
  note nth = decided_nth [OF dec]
  have "cs ! i \<in> set cs" using i nth(1) by simp
  then obtain c where c: "c \<in> set cs" "ad_identifier (dc_descriptor c) = ad_identifier (D ! i)"
    "dc_emit_diagnostic c" using dec nth(2) [OF i(1)] unfolding decided_def by metis
  then obtain k where k: "k < length D" "cs ! k = c" using nth(1) [OF i(1)] by (metis in_set_conv_nth)
  have ident: "ad_identifier (D ! k) = ad_identifier (D ! i)"
    using c(2) nth(2) [OF k(1)] by (simp add: k(2))
  have "ev_status (dc_evaluation (cs ! k)) = FailedStatus"
  proof (cases "length (with_identifier (D ! i) D) = 1")
    case True
    with own_identifier_index [OF True i(1) k(1) ident] i(2) show ?thesis by simp
  next
    case False
    moreover have "with_identifier (D ! k) D = with_identifier (D ! i) D" by (simp only: ident)
    ultimately have "length (with_identifier (D ! k) D) \<noteq> 1" by metis
    with evaluated_status(3) [of "D ! k" D] k nth(3) [OF k(1)] show ?thesis by simp
  qed
  moreover from this have "resolved cs (length cs) k = cs ! k" by (simp add: resolved_def Let_def)
  ultimately show ?thesis using k c(3) by auto
next
  case False
  let ?answer = "auto_answer providers satisfied config inputs mg"
  note nth = decided_nth [OF dec]
  have own: "length (with_identifier d D) = 1" if "d \<in> set D" for d
    using False that evaluated_status(3) [OF that] nth(3) by (metis in_set_conv_nth)
  then have "ev_status (?answer d) \<noteq> FailedStatus" if "d \<in> set D" for d
    using False that evaluated_status(2) [OF that own [OF that]] nth(3) by (metis in_set_conv_nth)
  with own rejected obtain d e where de: "takes_part ?answer D d" "takes_part ?answer D e"
    "ad_output_type_id d = ad_output_type_id e" "d \<noteq> e"
    unfolding auto_accepted_def distinct_identifiers by blast
  then obtain i j where ij: "i < length D" "j < length D" "D ! i = d" "D ! j = e" "i \<noteq> j"
    unfolding takes_part_def by (metis in_set_conv_nth)
  then have act: "is_active (cs ! i)" "is_active (cs ! j)" using de nth(5) by auto
  have len: "length cs = length D" using nth(1) ij(1) .
  have mem: "i \<in> set (conflicts_of cs i)" "j \<in> set (conflicts_of cs i)"
    using act ij de(3) nth(2) len by (auto simp: set_conflicts_of)
  then have many: "2 \<le> length (conflicts_of cs i)" using short_conflicts [OF mem(1)] ij(5) by force
  define h where "h = hd (conflicts_of cs i)"
  have h: "h \<in> set (conflicts_of cs i)" "conflicts_of cs h = conflicts_of cs i"
    using conflicts_of_hd [of cs i] act(1) many by (simp_all add: h_def)
  then have "is_conflict cs h" "h < length cs" using many by (auto simp: set_conflicts_of)
  then show ?thesis
    using h(2) h_def len by (intro exI [of _ h]) (simp add: resolved_def Let_def)
qed

lemma accepted_none_failed:
  assumes dec: "decided providers satisfied config inputs mg D cs"
    and accepted: "auto_accepted (auto_answer providers satisfied config inputs mg) D"
    and i: "i < length D"
  shows "ev_status (dc_evaluation (resolved cs (length cs) i)) \<noteq> FailedStatus"
proof -
  let ?answer = "auto_answer providers satisfied config inputs mg"
  note nth = decided_nth [OF dec]
  have own: "length (with_identifier d D) = 1" if "d \<in> set D" for d
    using accepted that by (simp add: auto_accepted_def distinct_identifiers)
  have status: "ev_status (dc_evaluation (cs ! i)) \<noteq> FailedStatus"
    using accepted i nth(3) [OF i] evaluated_status(2) [OF _ own, of "D ! i"]
    by (simp add: auto_accepted_def)
  have "\<not> is_conflict cs i"
  proof
    assume conflict: "is_conflict cs i"
    then have part: "takes_part ?answer D (D ! i)" using nth(5) [OF i] by simp
    have "j = i" if "j \<in> set (conflicts_of cs i)" for j
    proof -
      have j: "j < length D" "takes_part ?answer D (D ! j)"
        "ad_output_type_id (D ! j) = ad_output_type_id (D ! i)"
        using that nth(1) [OF i] nth(2,5) i by (auto simp: set_conflicts_of)
      then have "D ! j = D ! i" using accepted part unfolding auto_accepted_def by blast
      then show ?thesis using own_identifier_index [OF own, of i j] i j(1) by simp
    qed
    moreover have "i \<in> set (conflicts_of cs i)"
      using conflict i nth(1) [OF i] by (simp add: set_conflicts_of)
    ultimately show False using short_conflicts [of i cs] conflict by auto
  qed
  then have "resolved cs (length cs) i = cs ! i" by (auto simp: resolved_def Let_def)
  with status show ?thesis by simp
qed

lemma try_map_diagnostics:
  "\<forall>e\<in>set es. error_ok e \<Longrightarrow> \<exists>ds. try_map error_diagnostic es = Inr ds \<and> (ds = [] \<longleftrightarrow> es = [])"
proof (induction es)
  case (Cons e es)
  then obtain ds where "try_map error_diagnostic es = Inr ds" by auto
  moreover from Cons.prems have "\<exists>d. error_diagnostic e = Inr d"
    by (cases "err_diagnostics e") (auto simp: error_ok_def error_diagnostic_def)
  ultimately show ?case by auto
qed simp

lemma find_map_None: "find_map f xs = None \<longleftrightarrow> (\<forall>x\<in>set xs. f x = None)"
  by (induction xs) (auto split: option.splits)

lemma find_map_SomeD: "find_map f xs = Some y \<Longrightarrow> \<exists>x\<in>set xs. f x = Some y"
  by (induction xs) (auto split: option.splits)

lemma set_first_occurrences: "set (first_occurrences seen ts) = set ts - set seen"
  by (induction seen ts rule: first_occurrences.induct) auto

lemma map_filter_eq_Nil: "List.map_filter f xs = [] \<longleftrightarrow> (\<forall>x\<in>set xs. f x = None)"
  by (induction xs) (auto simp: List.map_filter_simps split: option.splits)

lemma auto_analyze_correct:
  assumes "\<forall>d\<in>set descriptors. evaluation_ok (auto_answer providers satisfied config inputs mg d)"
  defines "answer \<equiv> auto_answer providers satisfied config inputs mg"
  shows "\<exists>a. auto_analyze descriptors providers satisfied config inputs mg = Inr a \<and>
    set (aa_selected a) = {d. auto_chosen answer descriptors d} \<and>
    distinct (map ad_output_type_id (aa_selected a)) \<and>
    aa_virtual_satisfied a = map (\<lambda>d.
      satisfied_auto_configured (ad_output_type_id d) (ad_output_type_name d)) (aa_selected a) \<and>
    (aa_diagnostics a = [] \<longleftrightarrow> auto_accepted answer descriptors) \<and>
    (auto_accepted answer descriptors \<longrightarrow> aa_failure a = None \<and> aa_covered_missing a = []) \<and>
    map rep_identifier (aa_reports a) = sort (map ad_identifier descriptors) \<and>
    (\<forall>e. aa_failure a = Some e \<longrightarrow> error_ok e)"
proof -
  define D where "D = sort_by auto_descriptor_order descriptors"
  have sorted: "sorted (map ad_identifier D)" unfolding D_def by (rule sorted_auto_descriptors)
  have mset: "mset D = mset descriptors" "set D = set descriptors" by (simp_all add: D_def)
  note part = takes_part_mset [OF mset(1), of answer]
  have chosen: "auto_chosen answer D = auto_chosen answer descriptors"
    by (simp add: auto_chosen_def fun_eq_iff part(1))
  define cs where "cs = decide providers satisfied config inputs mg D"
  have dec: "decided providers satisfied config inputs mg D cs"
    unfolding cs_def by (rule decide_correct [OF sorted])
  note nth = decided_nth [OF dec]
  have descriptors: "map dc_descriptor cs = D" using dec unfolding decided_def by blast
  then have len: "length cs = length D" by (metis length_map)
  define R where "R = resolve_conflicts cs"
  have R: "length R = length D" "\<And>i. i < length D \<Longrightarrow> R ! i = resolved cs (length cs) i"
    by (simp_all add: R_def resolve_conflicts_eq len)
  have mem: "(\<exists>c\<in>set R. p c) \<longleftrightarrow> (\<exists>i < length D. p (resolved cs (length cs) i))" for p
    using R by (metis in_set_conv_nth)
  have R_descriptor: "dc_descriptor (R ! i) = D ! i" if "i < length D" for i
    using that R(2) nth(2) by simp
  have Rmap: "map dc_descriptor R = D" using R(1) R_descriptor by (intro nth_equalityI) auto
  have ok: "evaluation_ok (dc_evaluation c)" if "c \<in> set R" for c
  proof -
    obtain i where i: "i < length D" "c = R ! i" using \<open>c \<in> set R\<close> R(1) by (metis in_set_conv_nth)
    then have "D ! i \<in> set descriptors" using mset(2) nth_mem by metis
    then show ?thesis using resolved_ok [OF dec i(1)] assms(1) i R(2) by simp
  qed
  then have failed: "ev_failure (dc_evaluation c) \<noteq> None \<longleftrightarrow> ev_status (dc_evaluation c) = FailedStatus"
    if "c \<in> set R" for c
    using ok [OF that] by (auto simp: evaluation_ok_def split: option.splits)
  let ?es = "List.map_filter (\<lambda>c. ev_failure (dc_evaluation c)) (filter dc_emit_diagnostic R)"
  have "\<forall>e\<in>set ?es. error_ok e"
    using ok by (fastforce simp: set_filter_map evaluation_ok_def split: option.splits)
  then obtain diags where diags: "try_map error_diagnostic ?es = Inr diags" "diags = [] \<longleftrightarrow> ?es = []"
    using try_map_diagnostics by blast
  have "?es = [] \<longleftrightarrow> \<not> (\<exists>c\<in>set R. dc_emit_diagnostic c \<and> ev_status (dc_evaluation c) = FailedStatus)"
    unfolding map_filter_eq_Nil using failed by (metis (mono_tags, lifting) mem_Collect_eq set_filter)
  also have "\<dots> \<longleftrightarrow> auto_accepted answer D"
    unfolding mem using emitted_failure [OF dec] accepted_none_failed [OF dec]
    unfolding answer_def by blast
  finally have none: "diags = [] \<longleftrightarrow> auto_accepted answer descriptors" using diags(2) part(2) by simp
  have accepted: "ev_status (dc_evaluation c) \<noteq> FailedStatus"
    if "auto_accepted answer descriptors" "c \<in> set R" for c
    using accepted_none_failed [OF dec] that part(2) R unfolding answer_def by (metis in_set_conv_nth)
  let ?selected = "map dc_descriptor (filter is_active R)"
  have active: "is_active (R ! i) \<longleftrightarrow> auto_chosen answer D (D ! i)" if "i < length D" for i
    using resolved_active_chosen [OF dec that] R(2) [OF that] by (simp add: answer_def)
  have selected: "set ?selected = {d. auto_chosen answer D d}"
  proof (intro set_eqI iffI)
    fix d assume "d \<in> set ?selected"
    then obtain i where "i < length D" "is_active (R ! i)" "d = dc_descriptor (R ! i)"
      using R(1) by (auto simp: in_set_conv_nth)
    then show "d \<in> {d. auto_chosen answer D d}" using active R_descriptor by simp
  next
    fix d assume d: "d \<in> {d. auto_chosen answer D d}"
    then have "d \<in> set D" by (simp add: auto_chosen_def takes_part_def)
    then obtain i where i: "i < length D" "d = D ! i" by (metis in_set_conv_nth)
    then have "R ! i \<in> set R" "is_active (R ! i)" "d = dc_descriptor (R ! i)"
      using d active R_descriptor R(1) by simp_all
    then show "d \<in> set ?selected" by simp
  qed
  have "inj_on (\<lambda>i. ad_output_type_id (D ! i)) {i. i < length D \<and> is_active (R ! i)}"
  proof (rule inj_onI, clarify)
    fix i j assume ij: "i < length D" "j < length D" "is_active (R ! i)" "is_active (R ! j)"
      "ad_output_type_id (D ! i) = ad_output_type_id (D ! j)"
    then have "auto_chosen answer D (D ! i)" "auto_chosen answer D (D ! j)" using active by auto
    then have "D ! i = D ! j" and own: "length (with_identifier (D ! i) D) = 1"
      using ij(5) by (auto simp: auto_chosen_def takes_part_def)
    then show "i = j" using own_identifier_index [OF own ij(1,2)] by simp
  qed
  moreover have "map ad_output_type_id ?selected =
      map (\<lambda>i. ad_output_type_id (D ! i)) (filter (\<lambda>i. is_active (R ! i)) [0 ..< length D])"
  proof -
    have "R = map ((!) R) [0 ..< length D]" using R(1) by (metis map_nth)
    then have "map ad_output_type_id ?selected =
        map ad_output_type_id (map dc_descriptor (filter is_active (map ((!) R) [0 ..< length D])))"
      by (rule arg_cong)
    then show ?thesis by (simp add: filter_map comp_def R_descriptor)
  qed
  ultimately have distinct: "distinct (map ad_output_type_id ?selected)"
    by (simp add: distinct_map)
  have "map (\<lambda>c. rep_identifier (evaluation_report (dc_descriptor c) (dc_evaluation c))) R = map ad_identifier D"
    unfolding Rmap [symmetric] by (simp add: evaluation_report_def report_new_def)
  moreover have "sort (map ad_identifier descriptors) = map ad_identifier D"
    using sorted by (intro properties_for_sort) (simp_all add: mset(1))
  ultimately have reports: "map rep_identifier
      (map (\<lambda>c. evaluation_report (dc_descriptor c) (dc_evaluation c)) R) = sort (map ad_identifier descriptors)"
    by (simp add: comp_def)
  have quiet: "find_map failure_of R = None \<and> covered_missing_of R = []"
    if "auto_accepted answer descriptors"
  proof -
    have "filter (\<lambda>c. ev_status (dc_evaluation c) = FailedStatus \<and> dc_has_direct_requirement c) R = []"
      using accepted [OF that] by (simp add: filter_empty_conv)
    moreover have "\<forall>c\<in>set R. failure_of c = None" using accepted [OF that] by (simp add: failure_of_def)
    ultimately show ?thesis by (simp add: find_map_None covered_missing_of_def)
  qed
  have failure: "error_ok e" if "find_map failure_of R = Some e" for e
  proof -
    from find_map_SomeD [OF that] obtain c where c: "c \<in> set R" "failure_of c = Some e" by blast
    then have "ev_failure (dc_evaluation c) = Some e" by (auto simp: failure_of_def split: if_splits)
    with ok [OF c(1)] show ?thesis by (simp add: evaluation_ok_def)
  qed
  have "auto_analyze descriptors providers satisfied config inputs mg = Inr
      \<lparr>aa_reports = map (\<lambda>c. evaluation_report (dc_descriptor c) (dc_evaluation c)) R,
       aa_diagnostics = diags, aa_failure = find_map failure_of R,
       aa_virtual_satisfied = map (\<lambda>d.
         satisfied_auto_configured (ad_output_type_id d) (ad_output_type_name d)) ?selected,
       aa_covered_missing = covered_missing_of R, aa_selected = ?selected\<rparr>"
    unfolding auto_analyze_def Let_def D_def [symmetric] cs_def [symmetric] R_def [symmetric] diags(1)
    by simp
  then show ?thesis
    using selected distinct none quiet reports chosen failure by simp
qed

section \<open>The property\<close>

text \<open>
  C12: The evaluation pass returns for every set of integrations whose evaluators answer with
  well-formed evaluations. It selects exactly the integrations with an identifier of their own
  that are active and whose output no other active integration has; no type is selected twice. It
  reports nothing exactly when identifiers are unique, no evaluator failed and no two active
  integrations conflict, and then no failure is kept and nothing is covered. There is one report
  per integration, in identifier order; a kept failure is a well-formed error.
\<close>

theorem auto_configuration_exact:
  assumes "\<forall>d\<in>set descriptors. evaluation_ok (auto_answer providers satisfied config inputs mg d)"
  shows "let answer = auto_answer providers satisfied config inputs mg in
    \<exists>a. auto_analyze descriptors providers satisfied config inputs mg = Inr a \<and>
    set (aa_selected a) = {d. auto_chosen answer descriptors d} \<and>
    distinct (map ad_output_type_id (aa_selected a)) \<and>
    aa_virtual_satisfied a = map (\<lambda>d.
      satisfied_auto_configured (ad_output_type_id d) (ad_output_type_name d)) (aa_selected a) \<and>
    (aa_diagnostics a = [] \<longleftrightarrow> auto_accepted answer descriptors) \<and>
    (auto_accepted answer descriptors \<longrightarrow> aa_failure a = None \<and> aa_covered_missing a = []) \<and>
    map rep_identifier (aa_reports a) = sort (map ad_identifier descriptors) \<and>
    (\<forall>e. aa_failure a = Some e \<longrightarrow> error_ok e)"
  unfolding Let_def by (rule auto_analyze_correct [OF assms])

definition sample_auto :: "string \<Rightarrow> type_id \<Rightarrow> (nat, unit) auto_descriptor" where
  "sample_auto identifier t =
     \<lparr>ad_identifier = identifier, ad_output_type_name = ''Database'', ad_output_type_id = t,
      ad_location = sample_location,
      ad_evaluator = (\<lambda>_. evaluation_active (ReasonCode ''conditions_matched'') [] [] []),
      ad_applier = (\<lambda>_ w. (w, Inr (contribution_new \<lparr>er_type_id = t, er_value = 0\<rparr>)))\<rparr>"

theorem auto_configuration_exact_witness:
  "\<exists>a. auto_analyze [sample_auto ''sql'' 7, sample_auto ''pool'' 7] [] [] config_empty [] None = Inr a \<and>
    aa_diagnostics a \<noteq> [] \<and> map rep_identifier (aa_reports a) = [''pool'', ''sql'']"
proof -
  let ?ds = "[sample_auto ''sql'' 7, sample_auto ''pool'' 7]"
  let ?answer = "auto_answer [] [] config_empty [] None"
  have answers: "\<forall>d\<in>set ?ds. evaluation_ok (?answer d)"
    by (simp add: auto_answer_def sample_auto_def)
  have parts: "takes_part ?answer ?ds (sample_auto ''sql'' 7)" "takes_part ?answer ?ds (sample_auto ''pool'' 7)"
    by (simp_all add: takes_part_def sample_auto_def auto_answer_def evaluation_active_def evaluation_new_def)
  have "sample_auto ''sql'' 7 \<noteq> sample_auto ''pool'' 7" by (simp add: sample_auto_def)
  with parts have "\<not> auto_accepted ?answer ?ds"
    unfolding auto_accepted_def by (force simp: sample_auto_def)
  moreover have "sort (map ad_identifier ?ds) = [''pool'', ''sql'']"
    by (simp add: sample_auto_def)
  ultimately show ?thesis
    using auto_configuration_exact [OF answers] by (auto simp: Let_def)
qed

end
