(* ===== verification/Graph_Cycle.thy ===== *)
theory Graph_Cycle
  imports Graph_Model
begin

text \<open>
  Cycle detection in a resolved provider graph (\<open>crates/mads-core/src/graph/cycle.rs\<close>): a
  depth-first search with white, gray and black nodes that records one canonical cycle for every
  edge to a gray node.

  \<open>visit\<close> recurses once per white node, so the number of white nodes bounds the recursion: the
  fuel \<open>graph_size g\<close> given by \<open>detect\<close> is enough, and neither \<open>expect\<close> of the code can fail
  (\<open>visit_correct\<close>, \<open>detect_correct\<close>). The invariant \<open>dfs_ok\<close> says that the gray nodes are the
  stack, that the stack is a path, that every recorded cycle is a closed walk, and that while no
  cycle is recorded the black nodes are closed under dependencies and acyclic.
\<close>

section \<open>The detector\<close>

datatype color = White | Gray | Black

record cycle =
  cy_names :: "string list"
  cy_location :: source_location

record dfs_state =
  dfs_colors :: "color list"
  dfs_stack :: "nat list"
  dfs_cycles :: "cycle list"

fun min_index_from :: "('a \<Rightarrow> 'a \<Rightarrow> ordering) \<Rightarrow> 'a \<Rightarrow> nat \<Rightarrow> nat \<Rightarrow> 'a list \<Rightarrow> nat" where
  "min_index_from order best best_index index [] = best_index"
| "min_index_from order best best_index index (x # xs) =
     (if order best x = Greater then min_index_from order x index (Suc index) xs
      else min_index_from order best best_index (Suc index) xs)"

text \<open>\<open>enumerate().min_by(..)\<close>: the first of the least elements, none for an empty slice.\<close>

fun min_index :: "('a \<Rightarrow> 'a \<Rightarrow> ordering) \<Rightarrow> 'a list \<Rightarrow> nat option" where
  "min_index order [] = None"
| "min_index order (x # xs) = Some (min_index_from order x 0 1 xs)"

definition canonicalize :: "application_graph \<Rightarrow> nat list \<Rightarrow> panic + nat list" where
  "canonicalize g open_cycle =
     and_then (expect ''cycles are non-empty'' (min_index (node_order g) open_cycle))
       (\<lambda>start. Inr (drop start open_cycle @ take start open_cycle))"

definition record_cycle :: "application_graph \<Rightarrow> nat \<Rightarrow> dfs_state \<Rightarrow> panic + dfs_state" where
  "record_cycle g dependency s =
     and_then (expect ''gray providers are always active''
        (position (\<lambda>candidate. candidate = dependency) (dfs_stack s)))
       (\<lambda>cycle_start. and_then (canonicalize g (drop cycle_start (dfs_stack s)))
         (\<lambda>canonical.
           let names = map (\<lambda>i. pn_type_name (ag_providers g ! i)) canonical;
               names = names @ [names ! 0] in
           and_then (expect ''cycle providers are statically declared''
               (pn_location (ag_providers g ! (canonical ! 0))))
             (\<lambda>location. Inr (s\<lparr>dfs_cycles :=
                dfs_cycles s @ [\<lparr>cy_names = names, cy_location = location\<rparr>]\<rparr>))))"

function (sequential)
  visit :: "application_graph \<Rightarrow> nat \<Rightarrow> nat \<Rightarrow> dfs_state \<Rightarrow> panic + dfs_state"
  and visit_deps :: "application_graph \<Rightarrow> nat \<Rightarrow> nat list \<Rightarrow> dfs_state \<Rightarrow> panic + dfs_state"
where
  "visit g 0 index s = Inl OutOfFuel"
| "visit g (Suc fuel) index s =
     and_then
       (visit_deps g fuel (outgoing g index)
         (s\<lparr>dfs_colors := (dfs_colors s)[index := Gray], dfs_stack := dfs_stack s @ [index]\<rparr>))
       (\<lambda>s. Inr (s\<lparr>dfs_stack := butlast (dfs_stack s),
                   dfs_colors := (dfs_colors s)[index := Black]\<rparr>))"
| "visit_deps g fuel [] s = Inr s"
| "visit_deps g fuel (dependency # deps) s =
     and_then
       (case dfs_colors s ! dependency of
          White \<Rightarrow> visit g fuel dependency s
        | Gray \<Rightarrow> record_cycle g dependency s
        | Black \<Rightarrow> Inr s)
       (visit_deps g fuel deps)"
  by pat_completeness auto
termination
  by (relation "measures [\<lambda>x. case x of Inl (g, fuel, _) \<Rightarrow> fuel | Inr (g, fuel, _) \<Rightarrow> fuel,
        \<lambda>x. case x of Inl _ \<Rightarrow> 0 | Inr (g, fuel, deps, _) \<Rightarrow> Suc (length deps)]") auto

definition detect :: "application_graph \<Rightarrow> panic + cycle list" where
  "detect g =
     and_then
       (try_fold
         (\<lambda>index s. if dfs_colors s ! index = White then visit g (graph_size g) index s else Inr s)
         [0 ..< graph_size g]
         \<lparr>dfs_colors = replicate (graph_size g) White, dfs_stack = [], dfs_cycles = []\<rparr>)
       (\<lambda>s. Inr (dedup_by (\<lambda>left right. cy_names left = cy_names right)
         (sort_by (\<lambda>left right. cmp (cy_names left) (cy_names right)) (dfs_cycles s))))"

section \<open>Recorded cycles are closed walks\<close>

text \<open>
  The abstract reading of one reported cycle: a closed walk through distinct nodes that starts at
  a node that no other node of the walk precedes.
\<close>

definition closed_walk :: "(nat \<times> nat) set \<Rightarrow> nat list \<Rightarrow> bool" where
  "closed_walk E c \<longleftrightarrow>
     c \<noteq> [] \<and> distinct c \<and> (\<forall>k < length c. (c ! k, c ! (Suc k mod length c)) \<in> E)"

definition reports_cycle :: "application_graph \<Rightarrow> cycle \<Rightarrow> bool" where
  "reports_cycle g cy \<longleftrightarrow>
     (\<exists>c. closed_walk (index_depends g) c \<and>
        (\<forall>i\<in>set c. node_order g (hd c) i \<noteq> Greater) \<and>
        cy_names cy = map (\<lambda>i. pn_type_name (ag_providers g ! i)) (c @ [hd c]) \<and>
        pn_location (ag_providers g ! hd c) = Some (cy_location cy))"

lemma closed_walk_trancl:
  assumes "closed_walk E c"
  shows "(hd c, hd c) \<in> E\<^sup>+"
proof -
  have step: "(c ! k, c ! (Suc k mod length c)) \<in> E" if "k < length c" for k
    using assms that by (simp add: closed_walk_def)
  have "(hd c, c ! k) \<in> E\<^sup>*" if "k < length c" for k
    using that
  proof (induction k)
    case 0
    then show ?case by (simp add: hd_conv_nth)
  next
    case (Suc k)
    then show ?case using step [of k] by (auto intro: rtrancl_into_rtrancl)
  qed
  moreover have "0 < length c" using assms by (auto simp: closed_walk_def)
  ultimately have "(hd c, c ! (length c - 1)) \<in> E\<^sup>*" by simp
  moreover have "(c ! (length c - 1), hd c) \<in> E"
    using step [of "length c - 1"] \<open>0 < length c\<close> by (simp add: hd_conv_nth)
  ultimately show ?thesis by (rule rtrancl_into_trancl1)
qed

lemma closed_walk_not_acyclic: "closed_walk E c \<Longrightarrow> \<not> acyclic E"
  using closed_walk_trancl by (auto simp: acyclic_def)

text \<open>Rotating a closed walk gives a closed walk.\<close>

lemma rotate_nth:
  "k < length c \<Longrightarrow> (drop n c @ take n c) ! k = c ! ((k + n) mod length c)" if "n < length c"
proof -
  assume k: "k < length c"
  show ?thesis
  proof (cases "k + n < length c")
    case True
    then show ?thesis using that by (simp add: nth_append add.commute less_diff_conv)
  next
    case False
    then have "(k + n) mod length c = k + n - length c"
      using k that by (simp add: mod_if)
    then show ?thesis using False k that by (auto simp: nth_append)
  qed
qed

lemma closed_walk_rotate:
  assumes "closed_walk E c" "n < length c"
  shows "closed_walk E (drop n c @ take n c)"
  unfolding closed_walk_def
proof (intro conjI allI impI)
  show "drop n c @ take n c \<noteq> []" using assms(2) by auto
  have "distinct c" using assms(1) by (simp add: closed_walk_def)
  then show "distinct (drop n c @ take n c)"
    using set_take_disj_set_drop_if_distinct [of c n n] by (simp add: Int_commute)
  fix k assume "k < length (drop n c @ take n c)"
  then have k: "k < length c" using assms(2) by simp
  let ?m = "(k + n) mod length c"
  have "0 < length c" using k by auto
  then have "?m < length c" by simp
  then have "(c ! ?m, c ! (Suc ?m mod length c)) \<in> E"
    using assms(1) by (simp add: closed_walk_def)
  moreover have "Suc ?m mod length c = (Suc k mod length c + n) mod length c"
    by (metis add_Suc mod_Suc_eq mod_add_left_eq)
  moreover have "Suc k mod length c < length c" using \<open>0 < length c\<close> by simp
  ultimately show "((drop n c @ take n c) ! k,
      (drop n c @ take n c) ! (Suc k mod length (drop n c @ take n c))) \<in> E"
    using rotate_nth [OF assms(2), of k] rotate_nth [OF assms(2), of "Suc k mod length c"] k assms(2)
    by simp
qed

context comparator
begin

lemma min_index_from_least:
  assumes "best_index < length all" "best = all ! best_index" "index + length xs = length all"
    and "xs = drop index all" "best_index < index"
    and "\<And>j. j < index \<Longrightarrow> order best (all ! j) \<noteq> Greater"
  shows "min_index_from order best best_index index xs < length all \<and>
    (\<forall>x\<in>set all. order (all ! min_index_from order best best_index index xs) x \<noteq> Greater)"
  using assms
proof (induction xs arbitrary: best best_index index)
  case Nil
  then show ?case by (auto simp: in_set_conv_nth)
next
  case (Cons x xs)
  have x: "x = all ! index" "xs = drop (Suc index) all" "index < length all"
  proof -
    show "index < length all" using Cons.prems(3) by simp
    then have "drop index all = all ! index # drop (Suc index) all" by (simp add: Cons_nth_drop_Suc)
    with Cons.prems(4) show "x = all ! index" "xs = drop (Suc index) all" by simp_all
  qed
  show ?case
  proof (cases "order best x = Greater")
    case True
    then have "order x best \<noteq> Greater" using order_total [of best x] by simp
    then have "order x (all ! j) \<noteq> Greater" if "j < Suc index" for j
      using that Cons.prems(6) [of j] order_trans [of x best "all ! j"] order_refl [of x] x(1)
      by (cases "j = index") auto
    with True x show ?thesis
      using Cons.IH [where best = x and best_index = index and index = "Suc index"] Cons.prems(3)
      by simp
  next
    case False
    then have "order best (all ! j) \<noteq> Greater" if "j < Suc index" for j
      using that Cons.prems(6) [of j] x(1) by (cases "j = index") auto
    with x(2,3) have "min_index_from order best best_index (Suc index) xs < length all \<and>
      (\<forall>x\<in>set all. order (all ! min_index_from order best best_index (Suc index) xs) x \<noteq> Greater)"
      using Cons.prems(1,2,5) by (intro Cons.IH) auto
    with False show ?thesis by simp
  qed
qed

lemma min_index_least:
  assumes "xs \<noteq> []"
  obtains i where "min_index order xs = Some i" "i < length xs"
    "\<And>x. x \<in> set xs \<Longrightarrow> order (xs ! i) x \<noteq> Greater"
proof -
  obtain y ys where xs: "xs = y # ys" using assms by (cases xs) auto
  have "min_index_from order y 0 1 ys < length xs \<and>
    (\<forall>x\<in>set xs. order (xs ! min_index_from order y 0 1 ys) x \<noteq> Greater)"
    by (rule min_index_from_least) (auto simp: xs order_refl)
  with xs show thesis by (intro that [of "min_index_from order y 0 1 ys"]) (simp_all, blast?)
qed

end

lemma canonicalize_correct:
  assumes "closed_walk E c"
  obtains d where "canonicalize g c = Inr d" "closed_walk E d" "set d = set c"
    "\<And>i. i \<in> set d \<Longrightarrow> node_order g (hd d) i \<noteq> Greater"
proof -
  have "c \<noteq> []" using assms by (simp add: closed_walk_def)
  then obtain n where n: "min_index (node_order g) c = Some n" "n < length c"
    "\<And>i. i \<in> set c \<Longrightarrow> node_order g (c ! n) i \<noteq> Greater"
    using nodes.min_index_least [of c g] by metis
  let ?d = "drop n c @ take n c"
  have set: "set ?d = set c" by (metis Un_commute append_take_drop_id set_append)
  have "hd ?d = c ! n" using n(2) by (simp add: hd_append hd_drop_conv_nth)
  with n set closed_walk_rotate [OF assms n(2)] show thesis
    by (intro that [of ?d]) (simp_all add: canonicalize_def)
qed

section \<open>The search invariant\<close>

definition colored :: "dfs_state \<Rightarrow> color \<Rightarrow> nat set" where
  "colored s c = {i. i < length (dfs_colors s) \<and> dfs_colors s ! i = c}"

definition dfs_ok :: "application_graph \<Rightarrow> dfs_state \<Rightarrow> bool" where
  "dfs_ok g s \<longleftrightarrow>
     length (dfs_colors s) = graph_size g \<and>
     distinct (dfs_stack s) \<and>
     set (dfs_stack s) = colored s Gray \<and>
     (\<forall>k. Suc k < length (dfs_stack s) \<longrightarrow>
        (dfs_stack s ! k, dfs_stack s ! Suc k) \<in> index_depends g) \<and>
     (\<forall>cy\<in>set (dfs_cycles s). reports_cycle g cy) \<and>
     (dfs_cycles s = [] \<longrightarrow>
        index_depends g `` colored s Black \<subseteq> colored s Black \<and>
        acyclic {(b, c). b \<in> colored s Black \<and> (b, c) \<in> index_depends g})"

text \<open>What one call may change: white nodes become black, the stack is restored.\<close>

definition dfs_extends :: "dfs_state \<Rightarrow> dfs_state \<Rightarrow> bool" where
  "dfs_extends s t \<longleftrightarrow>
     dfs_stack t = dfs_stack s \<and>
     length (dfs_colors t) = length (dfs_colors s) \<and>
     (\<forall>i < length (dfs_colors s).
        dfs_colors t ! i = dfs_colors s ! i \<or>
        (dfs_colors s ! i = White \<and> dfs_colors t ! i = Black)) \<and>
     (\<exists>new. dfs_cycles t = dfs_cycles s @ new)"

definition whites :: "dfs_state \<Rightarrow> nat" where
  "whites s = card (colored s White)"

lemma finite_colored [simp]: "finite (colored s c)"
  by (rule finite_subset [of _ "{..<length (dfs_colors s)}"]) (auto simp: colored_def)

lemma dfs_extends_refl [simp]: "dfs_extends s s"
  by (simp add: dfs_extends_def)

lemma dfs_extends_trans: "dfs_extends s t \<Longrightarrow> dfs_extends t u \<Longrightarrow> dfs_extends s u"
  by (fastforce simp: dfs_extends_def)

lemma dfs_extends_color:
  "dfs_extends s t \<Longrightarrow> i < length (dfs_colors s) \<Longrightarrow> dfs_colors s ! i \<noteq> White \<Longrightarrow>
   dfs_colors t ! i = dfs_colors s ! i"
  by (auto simp: dfs_extends_def)

lemma dfs_extends_cycles: "dfs_extends s t \<Longrightarrow> dfs_cycles t = [] \<Longrightarrow> dfs_cycles s = []"
  by (auto simp: dfs_extends_def)

lemma dfs_extends_whites: "dfs_extends s t \<Longrightarrow> whites t \<le> whites s"
  unfolding whites_def by (rule card_mono) (auto simp: dfs_extends_def colored_def)

text \<open>An edge from the top of the stack to a gray node closes a walk along the stack.\<close>

lemma stack_closed_walk:
  assumes "\<forall>k. Suc k < length st \<longrightarrow> (st ! k, st ! Suc k) \<in> E" "distinct st" "n < length st"
    and "(last st, st ! n) \<in> E"
  shows "closed_walk E (drop n st)"
  unfolding closed_walk_def
proof (intro conjI allI impI)
  show "drop n st \<noteq> []" "distinct (drop n st)" using assms(2,3) by simp_all
  fix k assume k: "k < length (drop n st)"
  show "(drop n st ! k, drop n st ! (Suc k mod length (drop n st))) \<in> E"
  proof (cases "Suc k = length (drop n st)")
    case True
    then have "drop n st ! k = last st"
    proof -
      have "n + k = length st - 1" "st \<noteq> []" using True assms(3) by auto
      then show ?thesis using assms(3) by (simp add: last_conv_nth)
    qed
    with True assms(3,4) show ?thesis by simp
  next
    case False
    then have "Suc k < length (drop n st)" using k by simp
    with assms(1,3) show ?thesis by (simp add: add.commute less_diff_conv)
  qed
qed

lemma record_cycle_correct:
  assumes ok: "dfs_ok g s" and g: "graph_ok g"
    and top: "dfs_stack s \<noteq> []" "(last (dfs_stack s), d) \<in> index_depends g"
    and gray: "d \<in> colored s Gray"
  obtains t where "record_cycle g d s = Inr t" "dfs_ok g t" "dfs_extends s t" "dfs_cycles t \<noteq> []"
proof -
  let ?E = "index_depends g"
  have st: "set (dfs_stack s) = colored s Gray" "distinct (dfs_stack s)"
    "\<forall>k. Suc k < length (dfs_stack s) \<longrightarrow> (dfs_stack s ! k, dfs_stack s ! Suc k) \<in> ?E"
    using ok by (auto simp: dfs_ok_def)
  obtain n where n: "position (\<lambda>c. c = d) (dfs_stack s) = Some n"
    using position_exists [of d "dfs_stack s" "\<lambda>c. c = d"] gray st(1) by auto
  then have nd: "n < length (dfs_stack s)" "dfs_stack s ! n = d"
    using position_SomeD [OF n] by auto
  have walk: "closed_walk ?E (drop n (dfs_stack s))"
    using stack_closed_walk [OF st(3,2) nd(1)] top(2) nd(2) by simp
  obtain c where c: "canonicalize g (drop n (dfs_stack s)) = Inr c" "closed_walk ?E c"
    "\<And>i. i \<in> set c \<Longrightarrow> node_order g (hd c) i \<noteq> Greater"
    using canonicalize_correct [OF walk] by metis
  have ne: "c \<noteq> []" using c(2) by (simp add: closed_walk_def)
  then have hd: "c ! 0 = hd c" by (simp add: hd_conv_nth)
  have "(c ! 0, c ! (Suc 0 mod length c)) \<in> ?E"
    using c(2) ne unfolding closed_walk_def by (metis length_greater_0_conv)
  then obtain l where l: "pn_location (ag_providers g ! hd c) = Some l"
    using index_depends_planned(2) [OF g] hd by force
  let ?cy = "\<lparr>cy_names = map (\<lambda>i. pn_type_name (ag_providers g ! i)) (c @ [hd c]), cy_location = l\<rparr>"
  let ?t = "s\<lparr>dfs_cycles := dfs_cycles s @ [?cy]\<rparr>"
  have "record_cycle g d s = Inr ?t"
    using ne by (simp add: record_cycle_def n c(1) hd l Let_def)
  moreover have "reports_cycle g ?cy"
    unfolding reports_cycle_def using c(2,3) l by (intro exI [of _ c]) auto
  then have "dfs_ok g ?t" using ok by (auto simp: dfs_ok_def colored_def)
  moreover have "dfs_extends s ?t" by (simp add: dfs_extends_def)
  ultimately show thesis by (intro that) auto
qed

section \<open>The search\<close>

definition visit_spec :: "application_graph \<Rightarrow> nat \<Rightarrow> bool" where
  "visit_spec g fuel \<longleftrightarrow>
     (\<forall>s i. dfs_ok g s \<longrightarrow> i < graph_size g \<longrightarrow> dfs_colors s ! i = White \<longrightarrow>
        (dfs_stack s \<noteq> [] \<longrightarrow> (last (dfs_stack s), i) \<in> index_depends g) \<longrightarrow> whites s \<le> fuel \<longrightarrow>
        (\<exists>t. visit g fuel i s = Inr t \<and> dfs_ok g t \<and> dfs_extends s t \<and> dfs_colors t ! i = Black))"

definition deps_spec :: "application_graph \<Rightarrow> nat \<Rightarrow> bool" where
  "deps_spec g fuel \<longleftrightarrow>
     (\<forall>s deps. dfs_ok g s \<longrightarrow> dfs_stack s \<noteq> [] \<longrightarrow>
        (\<forall>d\<in>set deps. (last (dfs_stack s), d) \<in> index_depends g) \<longrightarrow> whites s \<le> fuel \<longrightarrow>
        (\<exists>t. visit_deps g fuel deps s = Inr t \<and> dfs_ok g t \<and> dfs_extends s t \<and>
           (dfs_cycles t = [] \<longrightarrow> (\<forall>d\<in>set deps. dfs_colors t ! d = Black))))"

lemma dfs_ok_length: "dfs_ok g s \<Longrightarrow> length (dfs_colors s) = graph_size g"
  by (simp add: dfs_ok_def)

lemma one_dependency:
  assumes "visit_spec g fuel" "graph_ok g" "dfs_ok g s" "dfs_stack s \<noteq> []"
    and "(last (dfs_stack s), d) \<in> index_depends g" "whites s \<le> fuel"
  obtains t where
    "(case dfs_colors s ! d of White \<Rightarrow> visit g fuel d s | Gray \<Rightarrow> record_cycle g d s
       | Black \<Rightarrow> Inr s) = Inr t"
    "dfs_ok g t" "dfs_extends s t" "dfs_cycles t = [] \<Longrightarrow> dfs_colors t ! d = Black"
proof (cases "dfs_colors s ! d")
  have d: "d < graph_size g" using assms(5) by (auto simp: index_depends_def)
  case White
  with assms d obtain t where "visit g fuel d s = Inr t" "dfs_ok g t" "dfs_extends s t"
    "dfs_colors t ! d = Black" unfolding visit_spec_def by metis
  with White show thesis by (intro that) auto
next
  case Gray
  have "d < graph_size g" using assms(5) by (auto simp: index_depends_def)
  with Gray have "d \<in> colored s Gray" using dfs_ok_length [OF assms(3)] by (simp add: colored_def)
  then obtain t where "record_cycle g d s = Inr t" "dfs_ok g t" "dfs_extends s t" "dfs_cycles t \<noteq> []"
    by (rule record_cycle_correct [OF assms(3,2,4,5)])
  with Gray show thesis by (intro that) auto
next
  case Black
  with assms(3) show thesis by (intro that) auto
qed

lemma deps_from_visit:
  assumes "visit_spec g fuel" "graph_ok g"
  shows "deps_spec g fuel"
  unfolding deps_spec_def
proof (intro allI impI)
  fix s deps
  assume "dfs_ok g s" "dfs_stack s \<noteq> []" "\<forall>d\<in>set deps. (last (dfs_stack s), d) \<in> index_depends g"
    "whites s \<le> fuel"
  then show "\<exists>t. visit_deps g fuel deps s = Inr t \<and> dfs_ok g t \<and> dfs_extends s t \<and>
           (dfs_cycles t = [] \<longrightarrow> (\<forall>d\<in>set deps. dfs_colors t ! d = Black))"
  proof (induction deps arbitrary: s)
    case (Cons d deps)
    then have dep: "(last (dfs_stack s), d) \<in> index_depends g" by simp
    obtain t where t: "(case dfs_colors s ! d of White \<Rightarrow> visit g fuel d s
        | Gray \<Rightarrow> record_cycle g d s | Black \<Rightarrow> Inr s) = Inr t"
      "dfs_ok g t" "dfs_extends s t" "dfs_cycles t = [] \<Longrightarrow> dfs_colors t ! d = Black"
      using one_dependency [OF assms Cons.prems(1,2) dep Cons.prems(4)] by metis
    have stack: "dfs_stack t = dfs_stack s" using t(3) by (simp add: dfs_extends_def)
    have "whites t \<le> fuel" using dfs_extends_whites [OF t(3)] Cons.prems(4) by simp
    with Cons.IH [OF t(2)] Cons.prems(2,3) obtain u where u: "visit_deps g fuel deps t = Inr u"
      "dfs_ok g u" "dfs_extends t u"
      "dfs_cycles u = [] \<Longrightarrow> \<forall>d\<in>set deps. dfs_colors u ! d = Black"
      by (auto simp: stack)
    have "d < length (dfs_colors t)"
      using dep dfs_ok_length [OF t(2)] by (auto simp: index_depends_def)
    then have "dfs_colors u ! d = Black" if "dfs_cycles u = []"
      using t(4) dfs_extends_cycles [OF u(3) that] dfs_extends_color [OF u(3), of d] by simp
    with u t(1) dfs_extends_trans [OF t(3) u(3)] show ?case by simp
  qed simp
qed

lemma push_ok:
  assumes "dfs_ok g s" "i < graph_size g" "dfs_colors s ! i = White"
    and "dfs_stack s \<noteq> [] \<longrightarrow> (last (dfs_stack s), i) \<in> index_depends g"
  defines "t \<equiv> s\<lparr>dfs_colors := (dfs_colors s)[i := Gray], dfs_stack := dfs_stack s @ [i]\<rparr>"
  shows "dfs_ok g t" "whites t < whites s"
proof -
  have len: "length (dfs_colors s) = graph_size g" using assms(1) by (simp add: dfs_ok_def)
  have gray: "colored t Gray = insert i (colored s Gray)"
    using assms(2) len by (auto simp: t_def colored_def nth_list_update)
  have black: "colored t Black = colored s Black"
    using assms(2,3) len by (auto simp: t_def colored_def nth_list_update split: if_splits)
  have white: "colored t White = colored s White - {i}" "i \<in> colored s White"
    using assms(2,3) len by (auto simp: t_def colored_def nth_list_update)
  have stack: "set (dfs_stack s) = colored s Gray" using assms(1) by (simp add: dfs_ok_def)
  have "i \<notin> set (dfs_stack s)" using assms(3) stack by (auto simp: colored_def)
  moreover have "(dfs_stack t ! k, dfs_stack t ! Suc k) \<in> index_depends g"
    if "Suc k < length (dfs_stack t)" for k
  proof (cases "Suc k < length (dfs_stack s)")
    case True
    then show ?thesis using assms(1) by (simp add: t_def nth_append dfs_ok_def)
  next
    case False
    with that have "Suc k = length (dfs_stack s)" by (simp add: t_def)
    then have "dfs_stack s ! k = last (dfs_stack s)" "dfs_stack s \<noteq> []"
      by (metis diff_Suc_1 last_conv_nth list.size(3) nat.distinct(1), auto)
    with assms(4) \<open>Suc k = _\<close> show ?thesis by (simp add: t_def nth_append)
  qed
  ultimately show "dfs_ok g t"
    using assms(1) stack unfolding dfs_ok_def gray black by (simp add: t_def)
  show "whites t < whites s"
    unfolding whites_def white(1) using white(2) by (intro card_Diff1_less) simp_all
qed

lemma pop_ok:
  assumes "dfs_ok g t" "graph_ok g" "dfs_stack t = st @ [i]" "i < graph_size g"
    and "dfs_cycles t = [] \<Longrightarrow> \<forall>d\<in>set (outgoing g i). dfs_colors t ! d = Black"
  shows "dfs_ok g (t\<lparr>dfs_stack := butlast (dfs_stack t), dfs_colors := (dfs_colors t)[i := Black]\<rparr>)"
    (is "dfs_ok g ?u")
proof -
  let ?E = "index_depends g"
  have len: "length (dfs_colors t) = graph_size g" using assms(1) by (simp add: dfs_ok_def)
  have stack: "set (dfs_stack t) = colored t Gray" "distinct (dfs_stack t)"
    using assms(1) by (auto simp: dfs_ok_def)
  have i: "dfs_colors t ! i = Gray" using stack(1) assms(3) by (auto simp: colored_def)
  have black: "colored ?u Black = insert i (colored t Black)"
    using assms(4) len by (auto simp: colored_def nth_list_update)
  have gray: "colored ?u Gray = colored t Gray - {i}"
    using assms(4) len by (auto simp: colored_def nth_list_update split: if_splits)
  have path: "(st ! k, st ! Suc k) \<in> ?E" if "Suc k < length st" for k
  proof -
    have "(dfs_stack t ! k, dfs_stack t ! Suc k) \<in> ?E"
      using assms(1,3) that by (simp add: dfs_ok_def)
    then show ?thesis using that assms(3) by (simp add: nth_append)
  qed
  have closed: "?E `` colored ?u Black \<subseteq> colored ?u Black \<and>
      acyclic {(b, c). b \<in> colored ?u Black \<and> (b, c) \<in> ?E}" if cycles: "dfs_cycles t = []"
  proof -
    have old: "?E `` colored t Black \<subseteq> colored t Black"
        "acyclic {(b, c). b \<in> colored t Black \<and> (b, c) \<in> ?E}"
      using assms(1) cycles by (auto simp: dfs_ok_def)
    have out: "c \<in> colored t Black" if "(i, c) \<in> ?E" for c
      using that assms(5) [OF cycles] set_outgoing [OF assms(2,4)] len
      by (auto simp: colored_def index_depends_def)
    have "i \<notin> colored t Black" using i by (simp add: colored_def)
    then have "acyclic ({(b, c). b \<in> colored t Black \<and> (b, c) \<in> ?E} \<union> {(b, c). b = i \<and> (b, c) \<in> ?E})"
      using old out by (intro acyclic_add_source [where i = i]) auto
    also have "{(b, c). b \<in> colored t Black \<and> (b, c) \<in> ?E} \<union> {(b, c). b = i \<and> (b, c) \<in> ?E} =
        {(b, c). b \<in> colored ?u Black \<and> (b, c) \<in> ?E}" unfolding black by blast
    finally show ?thesis using old(1) out unfolding black by auto
  qed
  have cycles: "\<forall>cy\<in>set (dfs_cycles t). reports_cycle g cy" using assms(1) by (simp add: dfs_ok_def)
  have st: "dfs_stack ?u = st" "distinct st" "set st = colored t Gray - {i}"
    using assms(3) stack by auto
  show ?thesis
    unfolding dfs_ok_def gray st using len cycles closed path st(2) by simp
qed

lemma visit_from_deps:
  assumes "deps_spec g fuel" "graph_ok g"
  shows "visit_spec g (Suc fuel)"
  unfolding visit_spec_def
proof (intro allI impI)
  fix s i
  assume ok: "dfs_ok g s" and i: "i < graph_size g" "dfs_colors s ! i = White"
    and top: "dfs_stack s \<noteq> [] \<longrightarrow> (last (dfs_stack s), i) \<in> index_depends g"
    and fuel: "whites s \<le> Suc fuel"
  let ?t = "s\<lparr>dfs_colors := (dfs_colors s)[i := Gray], dfs_stack := dfs_stack s @ [i]\<rparr>"
  have push: "dfs_ok g ?t" "whites ?t < whites s" using push_ok [OF ok i top] by auto
  have "\<forall>d\<in>set (outgoing g i). (last (dfs_stack ?t), d) \<in> index_depends g"
    using outgoing_subset [OF i(1)] by simp
  moreover have "dfs_stack ?t \<noteq> []" "whites ?t \<le> fuel" using push(2) fuel by simp_all
  ultimately obtain u where u: "visit_deps g fuel (outgoing g i) ?t = Inr u"
    "dfs_ok g u" "dfs_extends ?t u"
    "dfs_cycles u = [] \<Longrightarrow> \<forall>d\<in>set (outgoing g i). dfs_colors u ! d = Black"
    using assms(1) push(1) unfolding deps_spec_def by blast
  have stack: "dfs_stack u = dfs_stack s @ [i]" using u(3) by (simp add: dfs_extends_def)
  let ?v = "u\<lparr>dfs_stack := butlast (dfs_stack u), dfs_colors := (dfs_colors u)[i := Black]\<rparr>"
  have "dfs_ok g ?v" by (rule pop_ok [OF u(2) assms(2) stack i(1) u(4)])
  moreover have "dfs_extends s ?v"
    unfolding dfs_extends_def
  proof (intro conjI allI impI)
    fix k assume k: "k < length (dfs_colors s)"
    with u(3) show "dfs_colors ?v ! k = dfs_colors s ! k \<or>
        dfs_colors s ! k = White \<and> dfs_colors ?v ! k = Black"
      by (cases "k = i") (auto simp: dfs_extends_def i(2))
  qed (use u(3) stack in \<open>auto simp: dfs_extends_def\<close>)
  moreover have "dfs_colors ?v ! i = Black"
    using dfs_ok_length [OF u(2)] i(1) by simp
  ultimately show "\<exists>t. visit g (Suc fuel) i s = Inr t \<and> dfs_ok g t \<and> dfs_extends s t \<and>
      dfs_colors t ! i = Black"
    using u(1) by simp
qed

lemma visit_correct: "graph_ok g \<Longrightarrow> visit_spec g fuel"
proof (induction fuel)
  case 0
  have "0 < whites s" if "dfs_ok g s" "i < graph_size g" "dfs_colors s ! i = White" for s i
    unfolding whites_def using that by (auto simp: card_gt_0_iff colored_def dfs_ok_length)
  then show ?case unfolding visit_spec_def by (metis le_zero_eq less_irrefl)
next
  case (Suc fuel)
  then show ?case by (intro visit_from_deps deps_from_visit)
qed

section \<open>The whole detector\<close>

lemma detect_loop:
  assumes "graph_ok g"
  obtains s where
    "try_fold (\<lambda>index s. if dfs_colors s ! index = White then visit g (graph_size g) index s else Inr s)
       [0 ..< graph_size g]
       \<lparr>dfs_colors = replicate (graph_size g) White, dfs_stack = [], dfs_cycles = []\<rparr> = Inr s"
    "dfs_ok g s" "colored s Black = {..<graph_size g}"
proof -
  let ?start = "\<lparr>dfs_colors = replicate (graph_size g) White, dfs_stack = [], dfs_cycles = []\<rparr>"
  let ?body = "\<lambda>index s. if dfs_colors s ! index = White then visit g (graph_size g) index s else Inr s"
  let ?I = "\<lambda>ys s. dfs_ok g s \<and> dfs_stack s = [] \<and> (\<forall>i\<in>set ys. dfs_colors s ! i = Black)"
  have "\<exists>s. try_fold ?body [0 ..< graph_size g] ?start = Inr s \<and> ?I [0 ..< graph_size g] s"
  proof (rule try_fold_invariant)
    have none: "colored ?start Gray = {}" "colored ?start Black = {}" by (auto simp: colored_def)
    show "?I [] ?start" unfolding dfs_ok_def none by (simp add: acyclic_def)
  next
    fix ys x zs s
    assume split: "[0 ..< graph_size g] = ys @ x # zs" and I: "?I ys s"
    then have x: "x < graph_size g" "set ys \<subseteq> {..<graph_size g}"
      by (metis append_is_Nil_conv atLeastLessThan_iff in_set_conv_decomp set_upt)
        (metis Un_upper1 atLeast_upt set_append split)
    have len: "length (dfs_colors s) = graph_size g" using I by (simp add: dfs_ok_length)
    show "\<exists>t. ?body x s = Inr t \<and> ?I (ys @ [x]) t"
    proof (cases "dfs_colors s ! x = White")
      case True
      have "whites s \<le> card {..<graph_size g}"
        unfolding whites_def by (rule card_mono) (auto simp: colored_def len)
      then have "whites s \<le> graph_size g" by simp
      with True I x(1) visit_correct [OF assms, of "graph_size g"] obtain t where
        t: "visit g (graph_size g) x s = Inr t" "dfs_ok g t" "dfs_extends s t" "dfs_colors t ! x = Black"
        unfolding visit_spec_def by blast
      have "dfs_colors t ! i = Black" if "i \<in> set ys" for i
        using dfs_extends_color [OF t(3), of i] that I x(2) len by auto
      moreover have "dfs_stack t = []" using t(3) I by (simp add: dfs_extends_def)
      ultimately show ?thesis using t True by auto
    next
      case False
      have "dfs_colors s ! x \<noteq> Gray" using I x(1) len by (auto simp: dfs_ok_def colored_def)
      with False have "dfs_colors s ! x = Black" by (cases "dfs_colors s ! x") auto
      with False I show ?thesis by auto
    qed
  qed
  then obtain s where s: "try_fold ?body [0 ..< graph_size g] ?start = Inr s" "?I [0 ..< graph_size g] s"
    by blast
  then have "colored s Black = {..<graph_size g}" by (auto simp: colored_def dfs_ok_length)
  with s show thesis by (intro that) auto
qed

text \<open>
  The detector returns, it reports nothing exactly when the dependency relation is acyclic, and
  everything it reports is a cycle of the graph, listed once, in ascending order of the names.
\<close>

lemma detect_correct:
  assumes "graph_ok g"
  shows "\<exists>cycles. detect g = Inr cycles \<and>
    (cycles = [] \<longleftrightarrow> acyclic (depends g)) \<and>
    (\<forall>cy\<in>set cycles. reports_cycle g cy) \<and>
    sorted_wrt (<) (map cy_names cycles)"
proof -
  obtain s where s: "try_fold
      (\<lambda>index s. if dfs_colors s ! index = White then visit g (graph_size g) index s else Inr s)
      [0 ..< graph_size g]
      \<lparr>dfs_colors = replicate (graph_size g) White, dfs_stack = [], dfs_cycles = []\<rparr> = Inr s"
    "dfs_ok g s" "colored s Black = {..<graph_size g}"
    by (rule detect_loop [OF assms])
  let ?sorted = "sort_by (\<lambda>left right. cmp (cy_names left) (cy_names right)) (dfs_cycles s)"
  let ?cycles = "dedup_by (\<lambda>left right. cy_names left = cy_names right) ?sorted"
  have det: "detect g = Inr ?cycles" unfolding detect_def s(1) by simp
  have reported: "\<forall>cy\<in>set ?cycles. reports_cycle g cy"
    using set_dedup_by [of "\<lambda>left right. cy_names left = cy_names right" ?sorted] s(2)
    by (auto simp: dfs_ok_def)
  have "acyclic (index_depends g)" if "?cycles = []"
  proof -
    have "{(b, c). b \<in> colored s Black \<and> (b, c) \<in> index_depends g} = index_depends g"
      by (auto simp: s(3) index_depends_def)
    with that s(2) show ?thesis by (simp add: dfs_ok_def)
  qed
  moreover have "\<not> acyclic (index_depends g)" if "?cycles \<noteq> []"
    using that reported closed_walk_not_acyclic unfolding reports_cycle_def
    by (metis last_in_set)
  moreover have "sorted (map cy_names ?sorted)"
    using sort_by_cmp_on [of cy_names "dfs_cycles s"] by (simp add: cmp_on_def [abs_def])
  then have "sorted_wrt (<) (map cy_names ?cycles)" by (rule dedup_by_strict)
  ultimately show ?thesis
    using det reported acyclic_index_depends [OF assms] by blast
qed

section \<open>The property\<close>

text \<open>
  C8: The cycle detector returns for every well-formed graph, without a panic. It reports no cycle
  exactly when the dependency relation is acyclic, every reported cycle is a closed walk of the
  graph, and no cycle is listed twice: the names are strictly ascending.
\<close>

theorem cycle_detection:
  assumes "graph_ok g"
  shows "\<exists>cycles. detect g = Inr cycles \<and>
    (cycles = [] \<longleftrightarrow> acyclic (depends g)) \<and>
    (\<forall>cy\<in>set cycles. reports_cycle g cy) \<and>
    sorted_wrt (<) (map cy_names cycles)"
  by (rule detect_correct [OF assms])

theorem cycle_detection_witness:
  "\<exists>cycles. detect (sample_graph [(1, 2), (2, 1)]) = Inr cycles \<and> cycles \<noteq> [] \<and>
    (\<forall>cy\<in>set cycles. reports_cycle (sample_graph [(1, 2), (2, 1)]) cy)"
proof -
  have "\<not> acyclic {(1 :: nat, 2 :: nat), (2, 1)}"
    unfolding acyclic_def by (meson insertI1 insertI2 r_into_trancl trancl_into_trancl)
  then show ?thesis
    using cycle_detection [OF sample_graph_ok, of "[(1, 2), (2, 1)]"]
    by (auto simp: depends_sample_graph)
qed

end
