(* ===== verification/Graph_Plan.thy ===== *)
theory Graph_Plan
  imports Graph_Model
begin

text \<open>
  The construction plan of a validated graph (\<open>crates/mads-core/src/graph/plan.rs\<close>): Kahn's
  algorithm over the planned providers, with the ready nodes in a \<open>BTreeSet\<close> so that the least
  one is constructed first.

  The loop ends because every round takes one node out of the ready set and every node it puts
  back pays for it with a remaining dependency (\<open>kahn_loop\<close>). Its invariant \<open>kahn_inv\<close> relates
  the counters to the nodes constructed so far; \<open>create_correct\<close> states what the plan is.
\<close>

section \<open>Ready nodes\<close>

datatype ready_node = ReadyNode
  (rn_type_name: string) (rn_origin: provider_origin) (rn_file: string) (rn_line: u32)
  (rn_column: u32) (rn_index: nat)

definition ready_key :: "ready_node \<Rightarrow> string \<times> provider_origin \<times> string \<times> u32 \<times> u32 \<times> nat" where
  "ready_key n = (rn_type_name n, rn_origin n, rn_file n, rn_line n, rn_column n, rn_index n)"

lemma ready_key_inject [simp]: "ready_key a = ready_key b \<longleftrightarrow> a = b"
  by (cases a; cases b) (auto simp: ready_key_def)

instantiation ready_node :: linorder
begin

definition less_eq_ready_node :: "ready_node \<Rightarrow> ready_node \<Rightarrow> bool" where
  "less_eq_ready_node a b \<longleftrightarrow> ready_key a \<le> ready_key b"

definition less_ready_node :: "ready_node \<Rightarrow> ready_node \<Rightarrow> bool" where
  "less_ready_node a b \<longleftrightarrow> ready_key a < ready_key b"

instance
  by standard (auto simp: less_eq_ready_node_def less_ready_node_def less_le_not_le dest: antisym)

end

definition ready_node_new :: "nat \<Rightarrow> provider_node \<Rightarrow> ready_node" where
  "ready_node_new index provider =
     (case pn_location provider of
        Some location \<Rightarrow>
          ReadyNode (pn_type_name provider) (pn_origin provider) (loc_file location)
            (loc_line location) (loc_column location) index
      | None \<Rightarrow> ReadyNode (pn_type_name provider) (pn_origin provider) [] 0 0 index)"

lemma rn_index_new [simp]: "rn_index (ready_node_new i p) = i"
  by (simp add: ready_node_new_def split: option.splits)

section \<open>The planner\<close>

abbreviation is_planned :: "application_graph \<Rightarrow> nat \<Rightarrow> bool" where
  "is_planned g i \<equiv> pn_state (ag_providers g ! i) = State_Planned"

definition count_edge ::
    "application_graph \<Rightarrow> dependency_edge \<Rightarrow> nat list \<times> nat list list \<Rightarrow>
     panic + nat list \<times> nat list list" where
  "count_edge g edge = (\<lambda>(remaining, consumers).
     and_then (expect ''dependency edges reference graph providers''
        (position (\<lambda>node. pn_type_id node = de_provider_type_id edge) (ag_providers g)))
       (\<lambda>provider. and_then (expect ''dependency edges reference graph dependencies''
          (position (\<lambda>node. pn_type_id node = de_dependency_type_id edge) (ag_providers g)))
         (\<lambda>dependency. Inr
           (if is_planned g provider \<and> is_planned g dependency then
              (remaining[provider := Suc (remaining ! provider)],
               consumers[dependency := consumers ! dependency @ [provider]])
            else (remaining, consumers)))))"

definition initial_ready :: "application_graph \<Rightarrow> nat list \<Rightarrow> ready_node btree_set" where
  "initial_ready g remaining =
     bset_of_list (map (\<lambda>i. ready_node_new i (ag_providers g ! i))
       (filter (\<lambda>i. is_planned g i \<and> remaining ! i = 0) [0 ..< graph_size g]))"

text \<open>
  The loop over the consumers of a constructed node: an index past the end and a subtraction
  below zero panic.
\<close>

fun release ::
    "application_graph \<Rightarrow> nat list \<Rightarrow> nat list \<times> ready_node btree_set \<Rightarrow>
     panic + nat list \<times> ready_node btree_set" where
  "release g [] s = Inr s"
| "release g (consumer # consumers) (remaining, ready) =
     (if consumer \<ge> length remaining then Inl (Panic ''index out of bounds'')
      else if remaining ! consumer = 0 then Inl (Panic ''attempt to subtract with overflow'')
      else
        let remaining = remaining[consumer := remaining ! consumer - 1] in
        release g consumers
          (remaining,
           if remaining ! consumer = 0
           then bset_insert (ready_node_new consumer (ag_providers g ! consumer)) ready
           else ready))"

definition construction_step_for ::
    "application_graph \<Rightarrow> provider_descriptor list \<Rightarrow> nat \<Rightarrow> panic + construction_step" where
  "construction_step_for g descriptors index =
     (let provider = ag_providers g ! index in
      and_then (expect ''planned graph providers have descriptors''
          (find (\<lambda>d. pd_type_id d = pn_type_id provider) descriptors))
        (\<lambda>descriptor. and_then (expect ''planned providers have locations'' (pn_location provider))
          (\<lambda>location. Inr
            \<lparr>cs_type_id = pn_type_id provider, cs_type_name = pn_type_name provider,
             cs_origin = pn_origin provider, cs_location = location, cs_descriptor = descriptor\<rparr>)))"

lemma release_measure:
  "release g cs (remaining, ready) = Inr (remaining', ready') \<Longrightarrow>
   sum_list remaining' + length ready' \<le> sum_list remaining + length ready"
proof (induction cs arbitrary: remaining ready)
  case (Cons c cs)
  let ?r = "remaining[c := remaining ! c - 1]"
  let ?q = "if ?r ! c = 0 then bset_insert (ready_node_new c (ag_providers g ! c)) ready else ready"
  have c: "remaining ! c \<noteq> 0" "c < length remaining" "release g cs (?r, ?q) = Inr (remaining', ready')"
    using Cons.prems by (auto simp: Let_def split: if_splits)
  then have "sum_list ?r + 1 = sum_list remaining"
    using member_le_sum_list [of "remaining ! c" remaining] by (simp add: sum_list_update)
  moreover have "length ?q \<le> Suc (length ready)" using length_bset_insert_le by auto
  moreover have "sum_list remaining' + length ready' \<le> sum_list ?r + length ?q"
    using c(3) by (rule Cons.IH)
  ultimately show ?case by simp
qed simp

function kahn_loop ::
    "application_graph \<Rightarrow> provider_descriptor list \<Rightarrow> nat list list \<Rightarrow>
     nat list \<Rightarrow> ready_node btree_set \<Rightarrow> construction_step list \<Rightarrow>
     panic + construction_step list" where
  "kahn_loop g descriptors consumers remaining ready steps =
     (case bset_pop_first ready of
        None \<Rightarrow> Inr steps
      | Some (node, ready) \<Rightarrow>
          and_then (construction_step_for g descriptors (rn_index node))
            (\<lambda>step. and_then (release g (consumers ! rn_index node) (remaining, ready))
              (\<lambda>state. kahn_loop g descriptors consumers (fst state) (snd state) (steps @ [step]))))"
  by pat_completeness auto
termination
proof (relation "measure (\<lambda>(g, descriptors, consumers, remaining, ready, steps).
    sum_list remaining + length ready)", goal_cases)
  case (2 g descriptors consumers remaining ready steps pair node ready' step state)
  then have "release g (consumers ! rn_index node) (remaining, ready') = Inr (fst state, snd state)"
    by simp
  moreover have "ready = node # ready'" using 2(1,2) by (metis bset_pop_first_Some)
  ultimately show ?case using release_measure by fastforce
qed simp

declare kahn_loop.simps [simp del]

definition create :: "application_graph \<Rightarrow> provider_descriptor list \<Rightarrow> panic + construction_plan" where
  "create g descriptors =
     and_then
       (try_fold (count_edge g) (ag_dependencies g)
         (replicate (graph_size g) 0, replicate (graph_size g) []))
       (\<lambda>(remaining, consumers).
         let planned_count = length (filter (\<lambda>p. pn_state p = State_Planned) (ag_providers g)) in
         and_then
           (kahn_loop g descriptors consumers remaining (initial_ready g remaining) [])
           (\<lambda>steps. if length steps = planned_count then Inr steps
             else Inl (Panic ''cycle validation must precede planning'')))"

section \<open>What a plan promises\<close>

definition planned :: "application_graph \<Rightarrow> nat set" where
  "planned g = {i. i < graph_size g \<and> is_planned g i}"

definition plan_ready :: "application_graph \<Rightarrow> provider_descriptor list \<Rightarrow> bool" where
  "plan_ready g descriptors \<longleftrightarrow>
     (\<forall>p\<in>set (ag_providers g). pn_state p = State_Planned \<longrightarrow>
        pn_location p \<noteq> None \<and> (\<exists>d\<in>set descriptors. pd_type_id d = pn_type_id p))"

text \<open>The planned nodes that can be constructed once the nodes of \<open>ready_set\<close> are.\<close>

definition available :: "application_graph \<Rightarrow> nat set \<Rightarrow> nat set" where
  "available g constructed =
     {i \<in> planned g - constructed. \<forall>j. (i, j) \<in> index_depends g \<and> j \<in> planned g \<longrightarrow> j \<in> constructed}"

definition node_at :: "application_graph \<Rightarrow> nat \<Rightarrow> ready_node" where
  "node_at g i = ready_node_new i (ag_providers g ! i)"

text \<open>
  An order that constructs available nodes only, always the least one.
\<close>

definition least_first :: "application_graph \<Rightarrow> nat list \<Rightarrow> bool" where
  "least_first g order \<longleftrightarrow>
     (\<forall>k < length order. order ! k \<in> available g (set (take k order)) \<and>
        (\<forall>i\<in>available g (set (take k order)). node_at g (order ! k) \<le> node_at g i))"

definition is_step_for ::
    "application_graph \<Rightarrow> provider_descriptor list \<Rightarrow> construction_step \<Rightarrow> nat \<Rightarrow> bool" where
  "is_step_for g descriptors step i \<longleftrightarrow>
     (let p = ag_providers g ! i in
      cs_type_id step = pn_type_id p \<and> cs_type_name step = pn_type_name p \<and>
      cs_origin step = pn_origin p \<and> pn_location p = Some (cs_location step) \<and>
      find (\<lambda>d. pd_type_id d = pn_type_id p) descriptors = Some (cs_descriptor step))"

lemma node_at_inject [simp]: "node_at g i = node_at g j \<longleftrightarrow> i = j"
  unfolding node_at_def by (metis rn_index_new)

lemma least_first_snoc:
  "least_first g (order @ [i]) \<longleftrightarrow>
     least_first g order \<and> i \<in> available g (set order) \<and>
     (\<forall>j\<in>available g (set order). node_at g i \<le> node_at g j)"
  by (auto simp: least_first_def nth_append less_Suc_eq)

text \<open>The order is determined: two orders of the same length agree.\<close>

lemma least_first_unique:
  "least_first g xs \<Longrightarrow> least_first g ys \<Longrightarrow> length xs = length ys \<Longrightarrow> xs = ys"
proof (induction xs arbitrary: ys rule: rev_induct)
  case (snoc x xs)
  then obtain y zs where ys: "ys = zs @ [y]" by (cases ys rule: rev_cases) auto
  with snoc have "xs = zs" by (auto simp: least_first_snoc)
  with snoc.prems ys have "node_at g x \<le> node_at g y" "node_at g y \<le> node_at g x"
    by (auto simp: least_first_snoc)
  then have "x = y" by (metis antisym node_at_inject)
  with \<open>xs = zs\<close> ys show ?case by simp
qed simp

lemma construction_step_for_ok:
  assumes "plan_ready g descriptors" "i \<in> planned g"
  obtains step where "construction_step_for g descriptors i = Inr step"
    "is_step_for g descriptors step i"
proof -
  let ?p = "ag_providers g ! i"
  have "?p \<in> set (ag_providers g)" "pn_state ?p = State_Planned"
    using assms(2) by (simp_all add: planned_def)
  then obtain l d where "pn_location ?p = Some l" "d \<in> set descriptors" "pd_type_id d = pn_type_id ?p"
    using assms(1) unfolding plan_ready_def by blast
  moreover from this obtain d' where
    d': "find (\<lambda>d. pd_type_id d = pn_type_id ?p) descriptors = Some d'"
    by (metis (mono_tags, lifting) find_None_iff not_None_eq)
  ultimately show thesis
    by (intro that [of "\<lparr>cs_type_id = pn_type_id ?p, cs_type_name = pn_type_name ?p,
        cs_origin = pn_origin ?p, cs_location = l, cs_descriptor = d'\<rparr>"])
      (simp_all add: construction_step_for_def is_step_for_def Let_def)
qed

section \<open>The counters\<close>

definition edge_ends :: "application_graph \<Rightarrow> dependency_edge \<Rightarrow> nat \<times> nat" where
  "edge_ends g e =
     (the (position (\<lambda>node. pn_type_id node = de_provider_type_id e) (ag_providers g)),
      the (position (\<lambda>node. pn_type_id node = de_dependency_type_id e) (ag_providers g)))"

definition planned_edges :: "application_graph \<Rightarrow> dependency_edge list \<Rightarrow> (nat \<times> nat) list" where
  "planned_edges g es = filter (\<lambda>(i, j). is_planned g i \<and> is_planned g j) (map (edge_ends g) es)"

definition counters_ok ::
    "application_graph \<Rightarrow> dependency_edge list \<Rightarrow> nat list \<times> nat list list \<Rightarrow> bool" where
  "counters_ok g es s \<longleftrightarrow>
     length (fst s) = graph_size g \<and> length (snd s) = graph_size g \<and>
     (\<forall>i < graph_size g. fst s ! i = length (filter (\<lambda>(a, b). a = i) (planned_edges g es)) \<and>
        snd s ! i = map fst (filter (\<lambda>(a, b). b = i) (planned_edges g es)))"

lemma edge_ends_ok:
  assumes "graph_ok g" "e \<in> set (ag_dependencies g)"
  obtains i j where "edge_ends g e = (i, j)" "(i, j) \<in> index_depends g"
    "position (\<lambda>node. pn_type_id node = de_provider_type_id e) (ag_providers g) = Some i"
    "position (\<lambda>node. pn_type_id node = de_dependency_type_id e) (ag_providers g) = Some j"
proof -
  obtain i j where ij: "i < graph_size g" "j < graph_size g"
    "de_provider_type_id e = node_type g i" "de_dependency_type_id e = node_type g j"
    using graph_ok_edge [OF assms] by metis
  with assms(2) have "(i, j) \<in> index_depends g"
    by (force simp: index_depends_def depends_def)
  with ij position_node_type [OF assms(1)] show thesis
    by (intro that [of i j]) (simp_all add: edge_ends_def)
qed

lemma set_planned_edges:
  assumes "graph_ok g"
  shows "set (planned_edges g (ag_dependencies g)) =
    {(i, j) \<in> index_depends g. i \<in> planned g \<and> j \<in> planned g}"
proof (intro set_eqI iffI; clarify)
  fix i j assume "(i, j) \<in> set (planned_edges g (ag_dependencies g))"
  then obtain e where "e \<in> set (ag_dependencies g)" "edge_ends g e = (i, j)"
    "is_planned g i" "is_planned g j" by (auto simp: planned_edges_def)
  with edge_ends_ok [OF assms this(1)]
  show "(i, j) \<in> index_depends g \<and> i \<in> planned g \<and> j \<in> planned g"
    by (auto simp: planned_def index_depends_def)
next
  fix i j assume ij: "(i, j) \<in> index_depends g" "i \<in> planned g" "j \<in> planned g"
  then obtain e where e: "e \<in> set (ag_dependencies g)" "de_provider_type_id e = node_type g i"
    "de_dependency_type_id e = node_type g j" by (auto simp: index_depends_def depends_def)
  then have "edge_ends g e = (i, j)"
    using position_node_type [OF assms] ij(2,3) by (simp add: edge_ends_def planned_def)
  with e(1) ij(2,3) show "(i, j) \<in> set (planned_edges g (ag_dependencies g))"
    by (force simp: planned_edges_def planned_def)
qed

lemma count_edge_ok:
  assumes "graph_ok g" "e \<in> set (ag_dependencies g)" "counters_ok g es s"
  shows "\<exists>s'. count_edge g e s = Inr s' \<and> counters_ok g (es @ [e]) s'"
proof -
  obtain i j where ij: "edge_ends g e = (i, j)" "(i, j) \<in> index_depends g"
    "position (\<lambda>node. pn_type_id node = de_provider_type_id e) (ag_providers g) = Some i"
    "position (\<lambda>node. pn_type_id node = de_dependency_type_id e) (ag_providers g) = Some j"
    by (rule edge_ends_ok [OF assms(1,2)])
  have bounds: "i < graph_size g" "j < graph_size g" using ij(2) by (auto simp: index_depends_def)
  obtain r c where s: "s = (r, c)" by (cases s)
  let ?both = "is_planned g i \<and> is_planned g j"
  let ?s = "if ?both then (r[i := Suc (r ! i)], c[j := c ! j @ [i]]) else (r, c)"
  have new: "planned_edges g (es @ [e]) = planned_edges g es @ (if ?both then [(i, j)] else [])"
    by (simp add: planned_edges_def ij(1))
  have "counters_ok g (es @ [e]) ?s"
    using assms(3) bounds unfolding counters_ok_def new s
    by (cases ?both) (auto simp: nth_list_update)
  then show ?thesis by (auto simp: count_edge_def s ij(3,4))
qed

lemma count_edges_ok:
  assumes "graph_ok g"
  obtains s where "try_fold (count_edge g) (ag_dependencies g)
      (replicate (graph_size g) 0, replicate (graph_size g) []) = Inr s"
    "counters_ok g (ag_dependencies g) s"
proof -
  have "\<exists>s. try_fold (count_edge g) (ag_dependencies g)
      (replicate (graph_size g) 0, replicate (graph_size g) []) = Inr s \<and>
      counters_ok g (ag_dependencies g) s"
  proof (rule try_fold_invariant)
    show "counters_ok g [] (replicate (graph_size g) 0, replicate (graph_size g) [])"
      by (simp add: counters_ok_def planned_edges_def)
    fix ys x zs s
    assume "ag_dependencies g = ys @ x # zs" "counters_ok g ys s"
    then show "\<exists>s'. count_edge g x s = Inr s' \<and> counters_ok g (ys @ [x]) s'"
      by (intro count_edge_ok assms) simp_all
  qed
  then show thesis using that by blast
qed

text \<open>Releasing the consumers of one node.\<close>

lemma release_ok:
  assumes "bset_ok q" "\<And>i. count_list cs i \<le> r ! i" "\<forall>c\<in>set cs. c < length r"
  shows "\<exists>r' q'. release g cs (r, q) = Inr (r', q') \<and> length r' = length r \<and> bset_ok q' \<and>
    (\<forall>i. r' ! i = r ! i - count_list cs i) \<and>
    set q' = set q \<union> node_at g ` {c \<in> set cs. r' ! c = 0}"
  using assms
proof (induction cs arbitrary: r q)
  case (Cons c cs)
  let ?r = "r[c := r ! c - 1]"
  let ?q = "if ?r ! c = 0 then bset_insert (node_at g c) q else q"
  have c: "c < length r" "r ! c \<noteq> 0" using Cons.prems(2) [of c] Cons.prems(3) by auto
  have r: "?r ! i = (if i = c then r ! c - 1 else r ! i)" for i using c(1) by (simp add: nth_list_update)
  have ok: "bset_ok ?q" using Cons.prems(1) by (simp add: bset_ok_insert)
  have "count_list cs i \<le> ?r ! i" for i 
    using Cons.prems(2) [of i] c(1) by (auto simp: nth_list_update split: if_splits)
  moreover have "\<forall>c\<in>set cs. c < length ?r" using Cons.prems(3) by simp
  ultimately obtain r' q' where rel: "release g cs (?r, ?q) = Inr (r', q')" "length r' = length ?r"
    "bset_ok q'" "\<forall>i. r' ! i = ?r ! i - count_list cs i"
    "set q' = set ?q \<union> node_at g ` {c \<in> set cs. r' ! c = 0}"
    using Cons.IH [OF ok] by blast
  have step: "release g (c # cs) (r, q) = Inr (r', q')"
    using rel(1) c unfolding node_at_def
    by (cases "r ! c = Suc 0") (simp_all add: Let_def split: if_splits)
  have diff: "r' ! i = r ! i - count_list (c # cs) i" for i
    using rel(4) c(1) by (simp add: nth_list_update)
  have "c \<in> set cs" if "r' ! c = 0" "?r ! c \<noteq> 0"
    using that rel(4) by (metis count_notin diff_zero)
  moreover have "r' ! c = 0" if "?r ! c = 0" using that rel(4) by simp
  ultimately have "set q' = set q \<union> node_at g ` {d \<in> set (c # cs). r' ! d = 0}"
    unfolding rel(5) by auto
  with step rel(2,3) diff show ?case by auto
qed auto

section \<open>The loop\<close>

definition kahn_inv ::
    "application_graph \<Rightarrow> provider_descriptor list \<Rightarrow> nat list \<Rightarrow> nat list \<Rightarrow>
     ready_node btree_set \<Rightarrow> construction_step list \<Rightarrow> bool" where
  "kahn_inv g descriptors order remaining ready steps \<longleftrightarrow>
     list_all2 (is_step_for g descriptors) steps order \<and>
     distinct order \<and> set order \<subseteq> planned g \<and> least_first g order \<and>
     length remaining = graph_size g \<and>
     (\<forall>i < graph_size g. remaining ! i =
        length (filter (\<lambda>(a, b). a = i \<and> b \<notin> set order) (planned_edges g (ag_dependencies g)))) \<and>
     bset_ok ready \<and> set ready = node_at g ` available g (set order)"

lemma available_iff:
  assumes "graph_ok g" "i < graph_size g"
  shows "i \<in> available g S \<longleftrightarrow> i \<in> planned g \<and> i \<notin> S \<and>
    length (filter (\<lambda>(a, b). a = i \<and> b \<notin> S) (planned_edges g (ag_dependencies g))) = 0"
proof -
  have "length (filter (\<lambda>(a, b). a = i \<and> b \<notin> S) (planned_edges g (ag_dependencies g))) = 0 \<longleftrightarrow>
      (\<forall>b. (i, b) \<in> set (planned_edges g (ag_dependencies g)) \<longrightarrow> b \<in> S)"
    by (auto simp: filter_empty_conv)
  then show ?thesis unfolding set_planned_edges [OF assms(1)] available_def by auto
qed

lemma count_consumers:
  "count_list (map fst (filter (\<lambda>(a, b). b = j) es)) i = length (filter (\<lambda>(a, b). a = i \<and> b = j) es)"
  by (induction es) auto

lemma filter_remaining:
  "j \<notin> S \<Longrightarrow> length (filter (\<lambda>(a, b). a = i \<and> b \<notin> S) es) - length (filter (\<lambda>(a, b). a = i \<and> b = j) es)
     = length (filter (\<lambda>(a, b). a = i \<and> b \<notin> insert j S) es)"
  "j \<notin> S \<Longrightarrow> length (filter (\<lambda>(a, b). a = i \<and> b = j) es) \<le> length (filter (\<lambda>(a, b). a = i \<and> b \<notin> S) es)"
proof -
  assume j: "j \<notin> S"
  have "length (filter (\<lambda>(a, b). a = i \<and> b \<notin> S) es) =
      length (filter (\<lambda>(a, b). a = i \<and> b \<notin> insert j S) es) + length (filter (\<lambda>(a, b). a = i \<and> b = j) es)"
    using j by (induction es) auto
  then show
    "length (filter (\<lambda>(a, b). a = i \<and> b \<notin> S) es) - length (filter (\<lambda>(a, b). a = i \<and> b = j) es)
       = length (filter (\<lambda>(a, b). a = i \<and> b \<notin> insert j S) es)"
    "length (filter (\<lambda>(a, b). a = i \<and> b = j) es) \<le> length (filter (\<lambda>(a, b). a = i \<and> b \<notin> S) es)"
    by simp_all
qed

lemma least_first_closed:
  assumes "least_first g order" "c \<in> set order" "(c, j) \<in> index_depends g" "j \<in> planned g"
  shows "j \<in> set order"
proof -
  obtain k where k: "k < length order" "order ! k = c" using assms(2) by (auto simp: in_set_conv_nth)
  with assms(1) have "c \<in> available g (set (take k order))" by (auto simp: least_first_def)
  with assms(3,4) have "j \<in> set (take k order)" by (auto simp: available_def)
  then show ?thesis by (rule in_set_takeD)
qed

text \<open>One round of the loop.\<close>

lemma kahn_round:
  assumes g: "graph_ok g" "plan_ready g descriptors"
    and counters: "counters_ok g (ag_dependencies g) (initial, consumers)"
    and inv: "kahn_inv g descriptors order remaining (node # ready) steps"
  obtains j step remaining' ready' where "rn_index node = j"
    "construction_step_for g descriptors j = Inr step"
    "release g (consumers ! j) (remaining, ready) = Inr (remaining', ready')"
    "kahn_inv g descriptors (order @ [j]) remaining' ready' (steps @ [step])"
proof -
  let ?es = "planned_edges g (ag_dependencies g)"
  obtain j where j: "node = node_at g j" "j \<in> available g (set order)"
    using inv unfolding kahn_inv_def by (metis imageE list.set_intros(1))
  then have index: "rn_index node = j" by (simp add: node_at_def)
  have mem: "j \<in> planned g" "j \<notin> set order" "j < graph_size g"
    using j(2) by (auto simp: available_def planned_def)
  have len: "length remaining = graph_size g"
    and rem: "\<And>i. i < graph_size g \<Longrightarrow>
      remaining ! i = length (filter (\<lambda>(a, b). a = i \<and> b \<notin> set order) ?es)"
    using inv by (auto simp: kahn_inv_def)
  have ready: "bset_ok (node # ready)" "set (node # ready) = node_at g ` available g (set order)"
    using inv by (simp_all add: kahn_inv_def)
  have cons: "consumers ! j = map fst (filter (\<lambda>(a, b). b = j) ?es)"
    using counters mem(3) by (simp add: counters_ok_def)
  have in_range: "c < graph_size g" if "c \<in> set (consumers ! j)" for c
    using that unfolding cons by (auto simp: set_planned_edges [OF g(1)] index_depends_def)
  have le: "count_list (consumers ! j) i \<le> remaining ! i" for i
  proof (cases "i < graph_size g")
    case True
    then show ?thesis using filter_remaining(2) [OF mem(2)] by (simp add: rem cons count_consumers)
  next
    case False
    then have "count_list (consumers ! j) i = 0" using in_range by (metis count_notin)
    then show ?thesis by simp
  qed
  have "bset_ok ready" using ready(1) by (simp add: bset_ok_def)
  from release_ok [OF this le, of g] in_range len
  obtain r q where rel: "release g (consumers ! j) (remaining, ready) = Inr (r, q)"
    "length r = length remaining" "bset_ok q"
    "\<forall>i. r ! i = remaining ! i - count_list (consumers ! j) i"
    "set q = set ready \<union> node_at g ` {c \<in> set (consumers ! j). r ! c = 0}"
    by auto
  have r: "r ! i = length (filter (\<lambda>(a, b). a = i \<and> b \<notin> set (order @ [j])) ?es)"
    if "i < graph_size g" for i
    using rel(4) filter_remaining(1) [OF mem(2)] that by (simp add: rem cons count_consumers)
  have "set ready = set (node # ready) - {node}" using bset_ok_distinct [OF ready(1)] by auto
  then have set_ready: "set ready = node_at g ` (available g (set order) - {j})"
    using image_set_diff [of "node_at g" "available g (set order)" "{j}"] ready(2) j(1)
    by (metis image_empty image_insert inj_on_def node_at_inject)
  have avail: "available g (set (order @ [j])) =
      (available g (set order) - {j}) \<union> {c \<in> set (consumers ! j). r ! c = 0}"
  proof (intro set_eqI iffI)
    fix c assume "c \<in> available g (set (order @ [j]))"
    then have c: "c \<in> planned g" "c \<notin> set order" "c \<noteq> j" "c < graph_size g"
      by (auto simp: available_def planned_def)
    with \<open>c \<in> available g (set (order @ [j]))\<close> r have "r ! c = 0"
      using available_iff [OF g(1) c(4), of "set (order @ [j])"] by simp
    moreover have "c \<in> set (consumers ! j)" if "remaining ! c \<noteq> 0"
      using that rel(4) \<open>r ! c = 0\<close> by (metis count_notin diff_zero)
    moreover have "c \<in> available g (set order)" if "remaining ! c = 0"
      using that c rem available_iff [OF g(1) c(4), of "set order"] by simp
    ultimately show "c \<in> (available g (set order) - {j}) \<union> {c \<in> set (consumers ! j). r ! c = 0}"
      using c(3) by blast
  next
    fix c assume "c \<in> (available g (set order) - {j}) \<union> {c \<in> set (consumers ! j). r ! c = 0}"
    then consider "c \<in> available g (set order)" "c \<noteq> j" | "c \<in> set (consumers ! j)" "r ! c = 0"
      by auto
    then show "c \<in> available g (set (order @ [j]))"
    proof cases
      case 1
      then show ?thesis by (auto simp: available_def)
    next
      case 2
      then have e: "(c, j) \<in> index_depends g" "c \<in> planned g"
        unfolding cons by (auto simp: set_planned_edges [OF g(1)])
      then have "c \<noteq> j" using j(2) mem(1,2) by (auto simp: available_def)
      moreover have "c \<notin> set order"
        using least_first_closed [of g order c j] e(1) mem(1,2) inv by (auto simp: kahn_inv_def)
      moreover have "c < graph_size g" using e(2) by (simp add: planned_def)
      ultimately show ?thesis using e(2) 2(2) r available_iff [OF g(1), of c] by simp
    qed
  qed
  obtain step where step: "construction_step_for g descriptors j = Inr step"
    "is_step_for g descriptors step j"
    using construction_step_for_ok [OF g(2) mem(1)] by blast
  have "node_at g j \<le> node_at g i" if "i \<in> available g (set order)" for i
    using bset.pop_min [OF ready(1), of node ready] that
    unfolding ready(2) j(1) [symmetric] by simp
  then have "least_first g (order @ [j])"
    using inv j(2) by (simp add: least_first_snoc kahn_inv_def)
  moreover have "list_all2 (is_step_for g descriptors) (steps @ [step]) (order @ [j])"
    using inv step(2) by (simp add: kahn_inv_def list_all2_appendI)
  moreover have "set q = node_at g ` available g (set (order @ [j]))"
    unfolding avail rel(5) set_ready by auto
  ultimately have "kahn_inv g descriptors (order @ [j]) r q (steps @ [step])"
    using inv mem rel(2,3) r unfolding kahn_inv_def by simp
  with index step(1) rel(1) show thesis by (rule that)
qed

lemma kahn_run:
  assumes "graph_ok g" "plan_ready g descriptors"
    and "counters_ok g (ag_dependencies g) (initial, consumers)"
    and "kahn_inv g descriptors order remaining ready steps"
  shows "\<exists>order' remaining' steps'.
    kahn_loop g descriptors consumers remaining ready steps = Inr steps' \<and>
    kahn_inv g descriptors order' remaining' [] steps'"
  using assms
proof (induction g descriptors consumers remaining ready steps arbitrary: order rule: kahn_loop.induct)
  case (1 g descriptors consumers remaining ready steps)
  show ?case
  proof (cases ready)
    case Nil
    with 1(5) show ?thesis 
      by (intro exI [of _ order] exI [of _ remaining] exI [of _ steps])
        (simp add: kahn_loop.simps [of _ _ _ _ "[]"])
  next
    case (Cons node rest)
    obtain j step r q where round: "rn_index node = j"
      "construction_step_for g descriptors j = Inr step"
      "release g (consumers ! j) (remaining, rest) = Inr (r, q)"
      "kahn_inv g descriptors (order @ [j]) r q (steps @ [step])"
      using kahn_round [OF 1(2-4) 1(5) [unfolded Cons]] by blast
    then have "kahn_loop g descriptors consumers remaining ready steps =
        kahn_loop g descriptors consumers r q (steps @ [step])"
      by (simp add: Cons kahn_loop.simps [of _ _ _ _ "node # rest"])
    moreover have "\<exists>order' remaining' steps'.
        kahn_loop g descriptors consumers r q (steps @ [step]) = Inr steps' \<and>
        kahn_inv g descriptors order' remaining' [] steps'"
      using 1(1) [of "(node, rest)" node rest step "(r, q)"] round 1(2-4) by (simp add: Cons)
    ultimately show ?thesis by simp
  qed
qed

lemma kahn_start:
  assumes "graph_ok g" "counters_ok g (ag_dependencies g) (remaining, consumers)"
  shows "kahn_inv g descriptors [] remaining (initial_ready g remaining) []"
proof -
  let ?es = "planned_edges g (ag_dependencies g)"
  have rem: "remaining ! i = length (filter (\<lambda>(a, b). a = i) ?es)" if "i < graph_size g" for i
    using assms(2) that by (simp add: counters_ok_def)
  have "{i. i < graph_size g \<and> is_planned g i \<and> remaining ! i = 0} = available g {}"
  proof (rule set_eqI)
    fix i
    show "i \<in> {i. i < graph_size g \<and> is_planned g i \<and> remaining ! i = 0} \<longleftrightarrow> i \<in> available g {}"
    proof (cases "i < graph_size g")
      case True
      then show ?thesis using available_iff [OF assms(1) True, of "{}"] rem by (simp add: planned_def)
    next
      case False
      then show ?thesis by (auto simp: available_def planned_def)
    qed
  qed
  then have "node_at g ` {i. i < graph_size g \<and> is_planned g i \<and> remaining ! i = 0} =
      node_at g ` available g {}" by simp
  then have "set (initial_ready g remaining) = node_at g ` available g {}"
    by (simp add: initial_ready_def node_at_def [abs_def] conj_commute cong: conj_cong)
  with assms(2) rem show ?thesis
    by (simp add: kahn_inv_def least_first_def counters_ok_def initial_ready_def)
qed

lemma finite_planned [simp]: "finite (planned g)"
  by (simp add: planned_def)

lemma planned_count:
  "length (filter (\<lambda>p. pn_state p = State_Planned) (ag_providers g)) = card (planned g)"
  by (simp add: length_filter_conv_card planned_def)

text \<open>
  With no ready node left, every planned node has been constructed exactly when the dependencies
  among planned nodes have no cycle.
\<close>

lemma complete_iff_acyclic:
  assumes "graph_ok g" "least_first g order" "distinct order" "set order \<subseteq> planned g"
    and "available g (set order) = {}"
  shows "set order = planned g \<longleftrightarrow> acyclic (depends g)"
proof
  assume "acyclic (depends g)"
  then have "acyclic (index_depends g)" using acyclic_index_depends [OF assms(1)] by simp
  moreover have "\<exists>j\<in>planned g - set order. (i, j) \<in> index_depends g" if "i \<in> planned g - set order" for i
    using that assms(5) by (auto simp: available_def)
  ultimately have "planned g - set order = {}"
    by (intro acyclic_remaining_empty [OF finite_index_depends])
  with assms(4) show "set order = planned g" by blast
next
  assume all: "set order = planned g"
  have edge: "\<exists>l k. l < k \<and> k < length order \<and> order ! k = i \<and> order ! l = j"
    if ij: "(i, j) \<in> index_depends g" "j \<in> planned g" for i j
  proof -
    have "i \<in> set order"
      using ij(1) index_depends_planned(1) [OF assms(1) ij(1)]
      by (auto simp: all planned_def index_depends_def)
    then obtain k where k: "k < length order" "order ! k = i" by (auto simp: in_set_conv_nth)
    then have "i \<in> available g (set (take k order))" using assms(2) by (auto simp: least_first_def)
    with ij have "j \<in> set (take k order)" by (auto simp: available_def)
    then obtain l where "l < k" "order ! l = j" using k(1) by (auto simp: in_set_conv_nth)
    with k show ?thesis by blast
  qed
  have path: "\<exists>l k. l < k \<and> k < length order \<and> order ! k = i \<and> order ! l = j"
    if "(i, j) \<in> (index_depends g)\<^sup>+" "j \<in> planned g" for i j
    using that
  proof (induction rule: converse_trancl_induct)
    case (step i m)
    then obtain l k where lk: "l < k" "k < length order" "order ! k = m" "order ! l = j" by blast
    then have "m \<in> planned g" using all nth_mem by blast
    with edge [OF step.hyps(1)] obtain l' k' where "l' < k'" "k' < length order" "order ! k' = i"
      "order ! l' = m" by blast
    moreover from this lk have "l' = k" using assms(3) by (metis nth_eq_iff_index_eq less_trans)
    ultimately show ?case using lk by (metis less_trans)
  qed (use edge in blast)
  have "acyclic (index_depends g)"
  proof (rule acyclicI, clarify)
    fix i assume cyc: "(i, i) \<in> (index_depends g)\<^sup>+"
    then obtain m where "(i, m) \<in> index_depends g" by (meson tranclD)
    with index_depends_planned(1) [OF assms(1) this] have "i \<in> planned g"
      by (auto simp: planned_def index_depends_def)
    from path [OF cyc this] assms(3) show False by (metis less_irrefl less_trans nth_eq_iff_index_eq)
  qed
  then show "acyclic (depends g)" using acyclic_index_depends [OF assms(1)] by simp
qed

text \<open>
  The planner returns for every graph: with the plan when the dependencies are acyclic, with the
  failed assertion otherwise.
\<close>

lemma create_correct:
  assumes "graph_ok g" "plan_ready g descriptors"
  shows "if acyclic (depends g)
    then \<exists>order steps. create g descriptors = Inr steps \<and>
      list_all2 (is_step_for g descriptors) steps order \<and>
      distinct order \<and> set order = planned g \<and> least_first g order
    else create g descriptors = Inl (Panic ''cycle validation must precede planning'')"
proof -
  obtain remaining consumers where counters: "try_fold (count_edge g) (ag_dependencies g)
      (replicate (graph_size g) 0, replicate (graph_size g) []) = Inr (remaining, consumers)"
    "counters_ok g (ag_dependencies g) (remaining, consumers)"
    using count_edges_ok [OF assms(1)] by (metis surj_pair)
  obtain order rem' steps where run:
    "kahn_loop g descriptors consumers remaining (initial_ready g remaining) [] = Inr steps"
    "kahn_inv g descriptors order rem' [] steps"
    using kahn_run [OF assms counters(2) kahn_start [OF assms(1) counters(2)]] by blast
  then have order: "list_all2 (is_step_for g descriptors) steps order" "distinct order"
    "set order \<subseteq> planned g" "least_first g order" "available g (set order) = {}"
    by (simp_all add: kahn_inv_def)
  have "length steps = card (set order)"
    using order(1,2) by (simp add: distinct_card list_all2_lengthD)
  then have "length steps = card (planned g) \<longleftrightarrow> set order = planned g"
    using order(3) by (metis card_subset_eq finite_planned)
  moreover have "create g descriptors =
      (if length steps = card (planned g) then Inr steps
       else Inl (Panic ''cycle validation must precede planning''))"
    unfolding create_def counters(1) by (simp add: run(1) planned_count Let_def)
  ultimately show ?thesis
    using order complete_iff_acyclic [OF assms(1) order(4,2,3,5)] by auto
qed

section \<open>The property\<close>

text \<open>
  C7: The planner returns for every well-formed graph. With acyclic dependencies the plan has one
  step for every planned provider, each step is the least, by name, origin and location, of the
  providers whose planned dependencies are all constructed by earlier steps; otherwise the planner
  fails its assertion.
\<close>

theorem construction_plan_exact:
  assumes "graph_ok g" "plan_ready g descriptors"
  shows "if acyclic (depends g)
    then \<exists>order steps. create g descriptors = Inr steps \<and>
      list_all2 (is_step_for g descriptors) steps order \<and>
      distinct order \<and> set order = planned g \<and> least_first g order
    else create g descriptors = Inl (Panic ''cycle validation must precede planning'')"
  by (rule create_correct [OF assms])

theorem construction_plan_exact_witness:
  "let g = sample_graph [(1, 2)]; ds = [sample_descriptor 1 ''A'' [2], sample_descriptor 2 ''B'' []] in
    \<exists>order steps. create g ds = Inr steps \<and>
      list_all2 (is_step_for g ds) steps order \<and> set order = planned g \<and> least_first g order"
proof -
  let ?ds = "[sample_descriptor 1 ''A'' [2], sample_descriptor 2 ''B'' []]"
  have ready: "plan_ready (sample_graph [(1, 2)]) ?ds"
    by (simp add: plan_ready_def sample_graph_def sample_node_def)
  have "acyclic (depends (sample_graph [(1, 2)]))"
    by (intro acyclic_ascending) (simp add: depends_sample_graph)
  then show ?thesis
    using construction_plan_exact [OF sample_graph_ok ready] by (auto simp: Let_def)
qed

end
