(* ===== verification/Graph_Analysis.thy ===== *)
theory Graph_Analysis
  imports Graph_Cycle Graph_Plan Module_Graph Auto_Report
begin

text \<open>
  Validation of the provider descriptors and their dependency edges
  (\<open>crates/mads-core/src/graph/analysis.rs\<close>) and the result type \<open>GraphAnalysis\<close> with its
  operations (\<open>graph/model.rs\<close>).

  The phases of \<open>analyze_parts\<close> are definitions of their own: removal of repeated declarations,
  ambiguous types, the nodes of satisfied and of planned providers, the edges, the cycles and the
  plan. \<open>valid_input\<close> says on the descriptors alone when the application can be constructed, and
  \<open>analyze_parts_correct\<close> that the analysis finds a diagnostic exactly when it cannot.
\<close>

section \<open>Results of an analysis\<close>

record graph_analysis =
  ga_graph :: application_graph
  ga_diagnostics :: "diagnostic list"
  ga_construction_plan :: "construction_plan option"
  ga_auto_configurations :: "auto_report list"
  ga_module_graph :: "module_graph option"

definition analysis_is_valid :: "graph_analysis \<Rightarrow> bool" where
  "analysis_is_valid a \<longleftrightarrow> ga_diagnostics a = [] \<and> ga_construction_plan a \<noteq> None"

definition prepend_diagnostics :: "diagnostic list \<Rightarrow> graph_analysis \<Rightarrow> graph_analysis" where
  "prepend_diagnostics ds a =
     (if ds = [] then a
      else a\<lparr>ga_construction_plan := None, ga_diagnostics := ds @ ga_diagnostics a\<rparr>)"

definition append_diagnostics :: "diagnostic list \<Rightarrow> graph_analysis \<Rightarrow> graph_analysis" where
  "append_diagnostics ds a =
     (if ds = [] then a
      else a\<lparr>ga_construction_plan := None, ga_diagnostics := ga_diagnostics a @ ds\<rparr>)"

definition set_module_graph :: "module_graph \<Rightarrow> graph_analysis \<Rightarrow> graph_analysis" where
  "set_module_graph g a = a\<lparr>ga_module_graph := Some g\<rparr>"

definition analysis_invalid :: "diagnostic list \<Rightarrow> graph_analysis" where
  "analysis_invalid ds =
     \<lparr>ga_graph = \<lparr>ag_providers = [], ag_dependencies = []\<rparr>, ga_diagnostics = ds,
      ga_construction_plan = None, ga_auto_configurations = [], ga_module_graph = None\<rparr>"

type_synonym valid_parts =
  "application_graph \<times> construction_plan \<times> auto_report list \<times> module_graph option"

definition into_valid_parts :: "graph_analysis \<Rightarrow> failure + valid_parts" where
  "into_valid_parts a =
     (case (ga_diagnostics a, ga_construction_plan a) of
        ([], Some plan) \<Rightarrow> Inr (ga_graph a, plan, ga_auto_configurations a, ga_module_graph a)
      | (primary # related, _) \<Rightarrow> Inl (Failed (from_diagnostics primary related))
      | ([], None) \<Rightarrow> Inl (Panicked (Panic ''valid analysis always has a plan'')))"

section \<open>Pending diagnostics\<close>

record pending_diagnostic =
  pend_diagnostic :: diagnostic
  pend_subject :: string
  pend_location :: "source_location option"

definition pending_duplicate :: "provider_descriptor \<Rightarrow> pending_diagnostic" where
  "pending_duplicate d =
     \<lparr>pend_diagnostic =
        with_suggestion ''remove the repeated provider declaration''
          (with_location (pd_location d) (with_subject (pd_type_name d)
            (diagnostic_new MADS001 ''duplicate provider declaration''
              ''the same provider declaration was registered more than once''))),
      pend_subject = pd_type_name d, pend_location = Some (pd_location d)\<rparr>"

definition pending_ambiguous :: "provider_descriptor \<Rightarrow> pending_diagnostic" where
  "pending_ambiguous d =
     \<lparr>pend_diagnostic =
        with_suggestion ''remove one provider declaration or change its output type''
          (with_location (pd_location d) (with_subject (pd_type_name d)
            (diagnostic_new MADS002 ''ambiguous provider binding''
              ''multiple provider declarations produce the same concrete type''))),
      pend_subject = pd_type_name d, pend_location = Some (pd_location d)\<rparr>"

definition pending_missing ::
    "provider_node \<Rightarrow> dependency_descriptor \<Rightarrow> panic + pending_diagnostic" where
  "pending_missing provider dependency =
     and_then (expect ''planned providers have a location'' (pn_location provider))
       (\<lambda>location. Inr
         \<lparr>pend_diagnostic =
            with_suggestion ''register a provider or explicitly provide the missing dependency''
              (with_location location (with_subject (dep_type_name dependency)
                (diagnostic_new MADS003 ''unresolved dependency''
                  (pn_type_name provider @ '' requires '' @ dep_type_name dependency
                    @ '', but no provider exists for that type'')))),
          pend_subject = dep_type_name dependency, pend_location = pn_location provider\<rparr>)"

definition pending_cycle :: "cycle \<Rightarrow> panic + pending_diagnostic" where
  "pending_cycle cy =
     (case cy_names cy of
        [] \<Rightarrow> Inl (Panic ''index out of bounds'')
      | name # _ \<Rightarrow> Inr
          \<lparr>pend_diagnostic =
             with_suggestion ''remove or invert one dependency in the cycle''
               (with_location (cy_location cy) (with_subject name
                 (diagnostic_new MADS005 ''dependency cycle''
                   (''provider dependency cycle: '' @ join_with '' -> '' (cy_names cy))))),
           pend_subject = name, pend_location = Some (cy_location cy)\<rparr>)"

definition pending_order :: "pending_diagnostic \<Rightarrow> pending_diagnostic \<Rightarrow> ordering" where
  "pending_order left right =
     then_with (cmp (as_str (diag_code (pend_diagnostic left))) (as_str (diag_code (pend_diagnostic right))))
       (then_with (cmp (pend_subject left) (pend_subject right))
         (optional_location_order (pend_location left) (pend_location right)))"

section \<open>The phases of the analysis\<close>

fun provider_state_order :: "provider_state \<Rightarrow> nat" where
  "provider_state_order State_Provided = 0"
| "provider_state_order State_Preconstructed = 1"
| "provider_state_order State_AutoConfigured = 2"
| "provider_state_order State_Planned = 3"

definition satisfied_order :: "satisfied_provider \<Rightarrow> satisfied_provider \<Rightarrow> ordering" where
  "satisfied_order left right =
     then_with (cmp (sp_type_name left) (sp_type_name right))
       (cmp (provider_state_order (sp_state left)) (provider_state_order (sp_state right)))"

type_synonym unique_state =
  "provider_descriptor list \<times> provider_descriptor list \<times> pending_diagnostic list"

definition unique_step :: "provider_descriptor \<Rightarrow> unique_state \<Rightarrow> unique_state" where
  "unique_step descriptor = (\<lambda>(unique_descriptors, duplicate_identities, diagnostics).
     case find (\<lambda>unique. exact_identity unique descriptor) unique_descriptors of
       Some existing \<Rightarrow>
         if list_ex (\<lambda>duplicate. exact_identity duplicate existing) duplicate_identities
         then (unique_descriptors, duplicate_identities, diagnostics)
         else (unique_descriptors, duplicate_identities @ [existing],
               diagnostics @ [pending_duplicate existing])
     | None \<Rightarrow> (unique_descriptors @ [descriptor], duplicate_identities, diagnostics))"

definition ambiguous_step ::
    "provider_descriptor list \<Rightarrow> provider_descriptor \<Rightarrow> type_id list \<times> pending_diagnostic list \<Rightarrow>
     type_id list \<times> pending_diagnostic list" where
  "ambiguous_step unique_descriptors descriptor = (\<lambda>(ambiguous_types, diagnostics).
     let same_type = filter (\<lambda>candidate. pd_type_id candidate = pd_type_id descriptor) unique_descriptors in
     if 1 < length same_type \<and> pd_type_id descriptor \<notin> set ambiguous_types
     then (ambiguous_types @ [pd_type_id descriptor], diagnostics @ [pending_ambiguous (same_type ! 0)])
     else (ambiguous_types, diagnostics))"

definition satisfied_step ::
    "provider_descriptor list \<Rightarrow> type_id list \<Rightarrow> satisfied_provider \<Rightarrow> provider_node list \<Rightarrow>
     provider_node list" where
  "satisfied_step unique_descriptors ambiguous_types s providers =
     (if sp_type_id s \<in> set ambiguous_types then providers
      else if list_ex (\<lambda>p. pn_type_id p = sp_type_id s) providers then providers
      else
        let matching = find (\<lambda>d. pd_type_id d = sp_type_id s) unique_descriptors;
            origin = (case (sp_state s, matching) of
                (State_AutoConfigured, _) \<Rightarrow> Origin_AutoConfiguration
              | (State_Provided, _) \<Rightarrow> Origin_Provided
              | (_, None) \<Rightarrow> Origin_Provided
              | (_, Some d) \<Rightarrow> origin_of_kind (pd_kind d));
            visibility = (case (sp_state s, matching) of
                (State_AutoConfigured, _) \<Rightarrow> Public
              | (State_Provided, _) \<Rightarrow> Public
              | (_, None) \<Rightarrow> Public
              | (_, Some d) \<Rightarrow> pd_visibility d) in
        providers @ [\<lparr>pn_type_id = sp_type_id s, pn_type_name = sp_type_name s, pn_origin = origin,
          pn_visibility = visibility, pn_state = sp_state s, pn_location = None,
          pn_declared_dependencies = []\<rparr>])"

definition planned_step ::
    "type_id list \<Rightarrow> provider_descriptor \<Rightarrow> provider_node list \<Rightarrow> provider_node list" where
  "planned_step ambiguous_types d providers =
     (if pd_type_id d \<in> set ambiguous_types \<or> list_ex (\<lambda>p. pn_type_id p = pd_type_id d) providers
      then providers
      else providers @ [\<lparr>pn_type_id = pd_type_id d, pn_type_name = pd_type_name d,
        pn_origin = origin_of_kind (pd_kind d), pn_visibility = pd_visibility d,
        pn_state = State_Planned, pn_location = Some (pd_location d),
        pn_declared_dependencies = pd_dependencies d\<rparr>])"

definition dependency_step ::
    "type_id list \<Rightarrow> type_id list \<Rightarrow> provider_node list \<Rightarrow> provider_node \<Rightarrow> dependency_descriptor \<Rightarrow>
     dependency_edge list \<times> pending_diagnostic list \<Rightarrow>
     panic + dependency_edge list \<times> pending_diagnostic list" where
  "dependency_step covered_missing ambiguous_types providers provider dependency =
     (\<lambda>(dependencies, diagnostics).
       if dep_type_id dependency \<in> set ambiguous_types then Inr (dependencies, diagnostics)
       else if list_ex (\<lambda>candidate. pn_type_id candidate = dep_type_id dependency) providers
       then Inr (dependencies @ [\<lparr>de_provider_type_id = pn_type_id provider,
              de_provider_type_name = pn_type_name provider,
              de_dependency_type_id = dep_type_id dependency,
              de_dependency_type_name = dep_type_name dependency\<rparr>], diagnostics)
       else if dep_type_id dependency \<notin> set covered_missing
       then and_then (pending_missing provider dependency)
         (\<lambda>d. Inr (dependencies, diagnostics @ [d]))
       else Inr (dependencies, diagnostics))"

definition provider_dependencies_step ::
    "type_id list \<Rightarrow> type_id list \<Rightarrow> provider_node list \<Rightarrow> provider_node \<Rightarrow>
     dependency_edge list \<times> pending_diagnostic list \<Rightarrow>
     panic + dependency_edge list \<times> pending_diagnostic list" where
  "provider_dependencies_step covered_missing ambiguous_types providers provider s =
     (if pn_state provider \<noteq> State_Planned then Inr s
      else try_fold (dependency_step covered_missing ambiguous_types providers provider)
        (pn_declared_dependencies provider) s)"

definition graph_nodes ::
    "provider_descriptor list \<Rightarrow> type_id list \<Rightarrow> satisfied_provider list \<Rightarrow> provider_node list" where
  "graph_nodes unique_descriptors ambiguous_types satisfied =
     sort_by (\<lambda>left right. cmp (pn_type_name left) (pn_type_name right))
       (fold (planned_step ambiguous_types) unique_descriptors
         (fold (satisfied_step unique_descriptors ambiguous_types) satisfied []))"

definition analyze_parts ::
    "provider_descriptor list \<Rightarrow> satisfied_provider list \<Rightarrow> type_id list \<Rightarrow>
     panic + graph_analysis" where
  "analyze_parts descriptors satisfied covered_missing =
     (let descriptors = sort_by descriptor_order descriptors;
          satisfied = sort_by satisfied_order satisfied;
          (unique_descriptors, _, diagnostics) = fold unique_step descriptors ([], [], []);
          (ambiguous_types, diagnostics) =
            fold (ambiguous_step unique_descriptors) unique_descriptors ([], diagnostics);
          providers = graph_nodes unique_descriptors ambiguous_types satisfied in
      and_then (try_fold (provider_dependencies_step covered_missing ambiguous_types providers)
          providers ([], diagnostics))
        (\<lambda>(dependencies, diagnostics).
          let graph = \<lparr>ag_providers = providers, ag_dependencies = dependencies\<rparr> in
          and_then
            (if diagnostics = [] then and_then (detect graph) (try_map pending_cycle) else Inr [])
            (\<lambda>cycles.
              let diagnostics = map pend_diagnostic (sort_by pending_order (diagnostics @ cycles)) in
              and_then
                (if diagnostics = [] then and_then (create graph unique_descriptors) (\<lambda>p. Inr (Some p))
                 else Inr None)
                (\<lambda>construction_plan. Inr
                  \<lparr>ga_graph = graph, ga_diagnostics = diagnostics,
                   ga_construction_plan = construction_plan, ga_auto_configurations = [],
                   ga_module_graph = None\<rparr>))))"

definition analyze_descriptors ::
    "provider_descriptor list \<Rightarrow> satisfied_provider list \<Rightarrow> type_id list \<Rightarrow>
     panic + graph_analysis" where
  "analyze_descriptors descriptors satisfied covered_missing =
     analyze_parts descriptors satisfied covered_missing"

definition analyze_catalog ::
    "provider_descriptor list \<Rightarrow> satisfied_provider list \<Rightarrow> type_id list \<Rightarrow>
     panic + graph_analysis" where
  "analyze_catalog registered satisfied covered_missing =
     analyze_parts (catalog_providers registered) satisfied covered_missing"

section \<open>Repeated and ambiguous declarations\<close>

definition unique_ok :: "provider_descriptor list \<Rightarrow> unique_state \<Rightarrow> bool" where
  "unique_ok ds = (\<lambda>(unique, duplicates, diagnostics).
     set unique \<subseteq> set ds \<and> identity_key ` set unique = identity_key ` set ds \<and>
     diagnostics = map pending_duplicate duplicates \<and>
     (if distinct (map identity_key ds) then unique = ds \<and> duplicates = [] else duplicates \<noteq> []))"

lemma unique_fold_ok: "unique_ok ds (fold unique_step ds ([], [], []))"
proof (induction ds rule: rev_induct)
  case (snoc d ds)
  obtain u dups diags where s: "fold unique_step ds ([], [], []) = (u, dups, diags)"
    by (metis surj_pair)
  have step: "fold unique_step (ds @ [d]) ([], [], []) = unique_step d (u, dups, diags)" by (simp add: s)
  from snoc have ok: "set u \<subseteq> set ds" "identity_key ` set u = identity_key ` set ds"
    "diags = map pending_duplicate dups"
    "if distinct (map identity_key ds) then u = ds \<and> dups = [] else dups \<noteq> []"
    by (simp_all add: s unique_ok_def)
  show ?case
  proof (cases "find (\<lambda>unique. exact_identity unique d) u")
    case None
    then have "identity_key d \<notin> identity_key ` set u"
      by (auto simp: find_None_iff exact_identity_iff)
    with None ok show ?thesis unfolding step by (auto simp: unique_ok_def unique_step_def)
  next
    case (Some e)
    then have e: "e \<in> set u" "identity_key e = identity_key d"
      by (auto dest!: find_SomeD simp: exact_identity_iff)
    then have "identity_key d \<in> identity_key ` set ds" using ok(2) by (metis imageI)
    moreover have "dups \<noteq> []" if "list_ex (\<lambda>duplicate. exact_identity duplicate e) dups"
      using that by auto
    ultimately show ?thesis using Some ok unfolding step by (auto simp: unique_ok_def unique_step_def)
  qed
qed (simp add: unique_ok_def)

definition same_type :: "provider_descriptor list \<Rightarrow> type_id \<Rightarrow> provider_descriptor list" where
  "same_type u t = filter (\<lambda>d. pd_type_id d = t) u"

lemma ambiguous_fold:
  "fold (ambiguous_step u) xs ([], diags) = (types, diags') \<Longrightarrow>
   set types = {t \<in> pd_type_id ` set xs. 1 < length (same_type u t)} \<and>
   (\<exists>new. diags' = diags @ new \<and> length new = length types)"
proof (induction xs arbitrary: types diags' rule: rev_induct)
  case (snoc x xs)
  obtain ts ds where s: "fold (ambiguous_step u) xs ([], diags) = (ts, ds)" by (metis surj_pair)
  have IH: "set ts = {t \<in> pd_type_id ` set xs. 1 < length (same_type u t)}"
    "\<exists>new. ds = diags @ new \<and> length new = length ts"
    using snoc.IH [OF s] by auto
  have "ambiguous_step u x (ts, ds) = (types, diags')" using snoc.prems s by simp
  then have step: "(types, diags') =
      (if 1 < length (same_type u (pd_type_id x)) \<and> pd_type_id x \<notin> set ts
       then (ts @ [pd_type_id x], ds @ [pending_ambiguous (same_type u (pd_type_id x) ! 0)])
       else (ts, ds))"
    by (auto simp: ambiguous_step_def Let_def same_type_def split: if_splits)
  show ?case
  proof (cases "1 < length (same_type u (pd_type_id x)) \<and> pd_type_id x \<notin> set ts")
    case True
    with step IH show ?thesis by auto
  next
    case False
    with step have "types = ts \<and> diags' = ds" by (metis prod.inject)
    with False IH show ?thesis by auto
  qed
qed simp

lemma same_type_distinct:
  "(\<forall>t\<in>pd_type_id ` set u. length (same_type u t) \<le> 1) \<longleftrightarrow> distinct (map pd_type_id u)"
proof (induction u)
  case (Cons d u)
  have none: "same_type u (pd_type_id d) = [] \<longleftrightarrow> pd_type_id d \<notin> pd_type_id ` set u"
    unfolding same_type_def filter_empty_conv by (metis image_iff)
  have cons: "same_type (d # u) t = (if t = pd_type_id d then d # same_type u t else same_type u t)" for t
    by (simp add: same_type_def)
  show ?case
  proof (cases "pd_type_id d \<in> pd_type_id ` set u")
    case True
    then have "\<not> length (same_type (d # u) (pd_type_id d)) \<le> 1" using none by (simp add: cons)
    with True show ?thesis by auto
  next
    case False
    then have "(\<forall>t\<in>pd_type_id ` set (d # u). length (same_type (d # u) t) \<le> 1) \<longleftrightarrow>
        (\<forall>t\<in>pd_type_id ` set u. length (same_type u t) \<le> 1)"
      using none by (auto simp: cons)
    with False Cons.IH show ?thesis by simp
  qed
qed simp

section \<open>The nodes of the graph\<close>

definition planned_node :: "provider_descriptor \<Rightarrow> provider_node" where
  "planned_node d =
     \<lparr>pn_type_id = pd_type_id d, pn_type_name = pd_type_name d,
      pn_origin = origin_of_kind (pd_kind d), pn_visibility = pd_visibility d,
      pn_state = State_Planned, pn_location = Some (pd_location d),
      pn_declared_dependencies = pd_dependencies d\<rparr>"

definition nodes_for ::
    "provider_descriptor list \<Rightarrow> type_id set \<Rightarrow> provider_node list \<Rightarrow> bool" where
  "nodes_for u S ps \<longleftrightarrow>
     distinct (map pn_type_id ps) \<and>
     (\<forall>p\<in>set ps. if pn_state p = State_Planned
        then pn_type_id p \<notin> S \<and> (\<exists>d\<in>set u. p = planned_node d) else pn_type_id p \<in> S)"

lemma planned_step_eq:
  "planned_step amb d ps =
     (if pd_type_id d \<in> set amb \<union> pn_type_id ` set ps then ps else ps @ [planned_node d])"
  by (simp add: planned_step_def list_ex_key planned_node_def)

lemma satisfied_step_eq:
  "\<exists>n. satisfied_step u amb s ps =
     (if sp_type_id s \<in> set amb \<union> pn_type_id ` set ps then ps else ps @ [n]) \<and>
     pn_type_id n = sp_type_id s \<and> pn_state n = sp_state s"
  by (cases "sp_type_id s \<in> set amb \<union> pn_type_id ` set ps")
    (auto simp: satisfied_step_def list_ex_key Let_def
      intro: exI [of _ "undefined\<lparr>pn_type_id := sp_type_id s, pn_state := sp_state s\<rparr>"])

text \<open>The list of nodes while the satisfied providers of the types \<open>S\<close> are added.\<close>

definition satisfied_nodes :: "type_id set \<Rightarrow> type_id list \<Rightarrow> provider_node list \<Rightarrow> bool" where
  "satisfied_nodes S amb ps \<longleftrightarrow>
     distinct (map pn_type_id ps) \<and> pn_type_id ` set ps = S - set amb \<and>
     (\<forall>p\<in>set ps. pn_state p \<noteq> State_Planned)"

lemma satisfied_fold:
  "\<forall>s\<in>set sat. sp_state s \<noteq> State_Planned \<Longrightarrow>
   satisfied_nodes (sp_type_id ` set sat) amb (fold (satisfied_step u amb) sat [])"
proof (induction sat rule: rev_induct)
  case (snoc s sat)
  let ?ps = "fold (satisfied_step u amb) sat []"
  obtain n where n: "satisfied_step u amb s ?ps =
      (if sp_type_id s \<in> set amb \<union> pn_type_id ` set ?ps then ?ps else ?ps @ [n])"
    "pn_type_id n = sp_type_id s" "pn_state n = sp_state s"
    using satisfied_step_eq by metis
  have IH: "satisfied_nodes (sp_type_id ` set sat) amb ?ps" "sp_state s \<noteq> State_Planned"
    using snoc by auto
  show ?case
  proof (cases "sp_type_id s \<in> set amb \<union> pn_type_id ` set ?ps")
    case True
    with IH n(1) show ?thesis by (auto simp: satisfied_nodes_def)
  next
    case False
    with IH n show ?thesis by (auto simp: satisfied_nodes_def)
  qed
qed (simp add: satisfied_nodes_def)

lemma planned_fold:
  assumes "satisfied_nodes S amb ps" "set xs \<subseteq> set u"
  shows "nodes_for u S (fold (planned_step amb) xs ps) \<and>
    pn_type_id ` set (fold (planned_step amb) xs ps) = (S \<union> pd_type_id ` set xs) - set amb"
  using assms(2)
proof (induction xs rule: rev_induct)
  case Nil
  then show ?case using assms(1) by (auto simp: satisfied_nodes_def nodes_for_def)
next
  case (snoc x xs)
  let ?ps = "fold (planned_step amb) xs ps"
  have IH: "nodes_for u S ?ps" "pn_type_id ` set ?ps = (S \<union> pd_type_id ` set xs) - set amb" "x \<in> set u"
    using snoc by auto
  show ?case
  proof (cases "pd_type_id x \<in> set amb \<union> pn_type_id ` set ?ps")
    case True
    then have "fold (planned_step amb) (xs @ [x]) ps = ?ps" by (simp add: planned_step_eq)
    with True IH show ?thesis by auto
  next
    case False
    then have ps: "fold (planned_step amb) (xs @ [x]) ps = ?ps @ [planned_node x]"
      by (simp add: planned_step_eq)
    have x: "pd_type_id x \<notin> S" "pn_state (planned_node x) = State_Planned"
      "pn_type_id (planned_node x) = pd_type_id x"
      using False IH(2) by (auto simp: planned_node_def)
    have "nodes_for u S (?ps @ [planned_node x])"
      using IH(1,3) False x unfolding nodes_for_def by auto
    with IH(2) False x(3) show ?thesis unfolding ps by auto
  qed
qed

lemma graph_nodes_ok:
  assumes "\<forall>s\<in>set sat. sp_state s \<noteq> State_Planned"
  shows "nodes_for u (sp_type_id ` set sat) (graph_nodes u amb sat)"
    and "pn_type_id ` set (graph_nodes u amb sat) = (sp_type_id ` set sat \<union> pd_type_id ` set u) - set amb"
proof -
  let ?ps = "fold (planned_step amb) u (fold (satisfied_step u amb) sat [])"
  note sat = satisfied_fold [OF assms, of amb u]
  have ps: "nodes_for u (sp_type_id ` set sat) ?ps \<and>
      pn_type_id ` set ?ps = (sp_type_id ` set sat \<union> pd_type_id ` set u) - set amb"
    using planned_fold [OF sat, of u u] by simp
  show "nodes_for u (sp_type_id ` set sat) (graph_nodes u amb sat)"
    using ps unfolding graph_nodes_def nodes_for_def by simp
  show "pn_type_id ` set (graph_nodes u amb sat) = (sp_type_id ` set sat \<union> pd_type_id ` set u) - set amb"
    using ps unfolding graph_nodes_def by simp
qed

section \<open>The edges of the graph\<close>

definition edge_for :: "provider_node \<Rightarrow> dependency_descriptor \<Rightarrow> dependency_edge" where
  "edge_for p x =
     \<lparr>de_provider_type_id = pn_type_id p, de_provider_type_name = pn_type_name p,
      de_dependency_type_id = dep_type_id x, de_dependency_type_name = dep_type_name x\<rparr>"

definition resolved_edges ::
    "type_id list \<Rightarrow> provider_node list \<Rightarrow> provider_node \<Rightarrow> dependency_edge list" where
  "resolved_edges amb ps p =
     (if pn_state p = State_Planned
      then map (edge_for p) (filter (\<lambda>x. dep_type_id x \<notin> set amb \<and> dep_type_id x \<in> pn_type_id ` set ps)
        (pn_declared_dependencies p))
      else [])"

definition unresolved ::
    "type_id list \<Rightarrow> type_id list \<Rightarrow> provider_node list \<Rightarrow> provider_node \<Rightarrow> dependency_descriptor list" where
  "unresolved cov amb ps p =
     (if pn_state p = State_Planned
      then filter (\<lambda>x. dep_type_id x \<notin> set amb \<union> pn_type_id ` set ps \<union> set cov)
        (pn_declared_dependencies p)
      else [])"

lemma dependency_step_eq:
  "dependency_step cov amb ps p x (es, diags) =
     (if dep_type_id x \<in> set amb then Inr (es, diags)
      else if dep_type_id x \<in> pn_type_id ` set ps then Inr (es @ [edge_for p x], diags)
      else if dep_type_id x \<notin> set cov
      then and_then (pending_missing p x) (\<lambda>d. Inr (es, diags @ [d]))
      else Inr (es, diags))"
  by (simp add: dependency_step_def list_ex_key edge_for_def)

lemma dependency_fold:
  assumes "pn_location p \<noteq> None"
  shows "\<exists>new. try_fold (dependency_step cov amb ps p) xs (es, diags) = Inr
     (es @ map (edge_for p) (filter (\<lambda>x. dep_type_id x \<notin> set amb \<and> dep_type_id x \<in> pn_type_id ` set ps) xs),
      diags @ new) \<and>
     length new = length (filter (\<lambda>x. dep_type_id x \<notin> set amb \<union> pn_type_id ` set ps \<union> set cov) xs)"
proof (induction xs arbitrary: es diags)
  case (Cons x xs)
  obtain l where l: "pn_location p = Some l" using assms by auto
  obtain d where d: "pending_missing p x = Inr d" by (simp add: pending_missing_def l)
  consider "dep_type_id x \<in> set amb" | "dep_type_id x \<notin> set amb" "dep_type_id x \<in> pn_type_id ` set ps"
    | "dep_type_id x \<notin> set amb \<union> pn_type_id ` set ps" "dep_type_id x \<in> set cov"
    | "dep_type_id x \<notin> set amb \<union> pn_type_id ` set ps \<union> set cov" by blast
  then show ?case
  proof cases
    case 1
    with Cons.IH [of es diags] show ?thesis by (simp add: dependency_step_eq)
  next
    case 2
    with Cons.IH [of "es @ [edge_for p x]" diags] show ?thesis
      by (simp add: dependency_step_eq)
  next
    case 3
    with Cons.IH [of es diags] show ?thesis by (simp add: dependency_step_eq)
  next
    case 4
    from Cons.IH [of es "diags @ [d]"] obtain new where
      "try_fold (dependency_step cov amb ps p) xs (es, diags @ [d]) = Inr
        (es @ map (edge_for p) (filter (\<lambda>x. dep_type_id x \<notin> set amb \<and> dep_type_id x \<in> pn_type_id ` set ps) xs),
         diags @ d # new)"
      "length new = length (filter (\<lambda>x. dep_type_id x \<notin> set amb \<union> pn_type_id ` set ps \<union> set cov) xs)"
      by auto
    with 4 d show ?thesis
      by (intro exI [of _ "d # new"]) (simp add: dependency_step_eq)
  qed
qed simp

lemma edges_fold:
  assumes "\<forall>p\<in>set qs. pn_state p = State_Planned \<longrightarrow> pn_location p \<noteq> None"
  shows "\<exists>new. try_fold (provider_dependencies_step cov amb ps) qs (es, diags) =
      Inr (es @ concat (map (resolved_edges amb ps) qs), diags @ new) \<and>
    (new = [] \<longleftrightarrow> (\<forall>p\<in>set qs. unresolved cov amb ps p = []))"
  using assms
proof (induction qs arbitrary: es diags)
  case (Cons q qs)
  show ?case
  proof (cases "pn_state q = State_Planned")
    case True
    then have "pn_location q \<noteq> None" using Cons.prems by simp
    from dependency_fold [OF this, of cov amb ps "pn_declared_dependencies q" es diags]
    obtain new where step: "provider_dependencies_step cov amb ps q (es, diags) =
        Inr (es @ resolved_edges amb ps q, diags @ new)" "length new = length (unresolved cov amb ps q)"
      by (auto simp: provider_dependencies_step_def resolved_edges_def unresolved_def True)
    then have "new = [] \<longleftrightarrow> unresolved cov amb ps q = []" by (metis length_0_conv)
    with Cons.IH [of "es @ resolved_edges amb ps q" "diags @ new"] Cons.prems step(1)
    show ?thesis by fastforce
  next
    case False
    with Cons.IH [of es diags] Cons.prems show ?thesis
      by (simp add: provider_dependencies_step_def resolved_edges_def unresolved_def)
  qed
qed simp

section \<open>The graph of the analysis\<close>

definition analysis_graph ::
    "provider_descriptor list \<Rightarrow> type_id list \<Rightarrow> satisfied_provider list \<Rightarrow> application_graph" where
  "analysis_graph u amb sat =
     (let ps = graph_nodes u amb sat in
      \<lparr>ag_providers = ps, ag_dependencies = concat (map (resolved_edges amb ps) ps)\<rparr>)"

lemma nodes_planned:
  assumes "nodes_for u S ps" "p \<in> set ps" "pn_state p = State_Planned"
  obtains d where "d \<in> set u" "p = planned_node d" "pn_type_id p \<notin> S"
  using assms unfolding nodes_for_def by metis

lemma analysis_graph_ok:
  assumes "\<forall>s\<in>set sat. sp_state s \<noteq> State_Planned"
  shows "graph_ok (analysis_graph u amb sat)" "plan_ready (analysis_graph u amb sat) u"
proof -
  let ?ps = "graph_nodes u amb sat"
  have ps: "nodes_for u (sp_type_id ` set sat) ?ps" by (rule graph_nodes_ok [OF assms])
  have loc: "pn_location p \<noteq> None" "\<exists>d\<in>set u. pd_type_id d = pn_type_id p"
    if p: "p \<in> set ?ps" "pn_state p = State_Planned" for p
  proof -
    obtain d where "d \<in> set u" "p = planned_node d" using nodes_planned [OF ps p] by metis
    then show "pn_location p \<noteq> None" "\<exists>d\<in>set u. pd_type_id d = pn_type_id p"
      by (auto simp: planned_node_def)
  qed
  have edge: "(\<exists>p\<in>set ?ps. pn_type_id p = de_provider_type_id e \<and>
         pn_state p = State_Planned \<and> pn_location p \<noteq> None) \<and>
      (\<exists>p\<in>set ?ps. pn_type_id p = de_dependency_type_id e)"
    if "e \<in> set (resolved_edges amb ?ps p)" "p \<in> set ?ps" for e p
    using that loc(1) [OF that(2)]
    by (auto simp: resolved_edges_def edge_for_def split: if_splits)
  show "graph_ok (analysis_graph u amb sat)"
    using ps edge by (auto simp: graph_ok_def analysis_graph_def Let_def nodes_for_def)
  show "plan_ready (analysis_graph u amb sat) u"
    using loc by (auto simp: plan_ready_def analysis_graph_def Let_def)
qed

lemma planned_nodes_eq:
  assumes "\<forall>s\<in>set sat. sp_state s \<noteq> State_Planned" "distinct (map pd_type_id u)"
  shows "{p \<in> set (graph_nodes u [] sat). pn_state p = State_Planned} =
    planned_node ` {d \<in> set u. pd_type_id d \<notin> sp_type_id ` set sat}"
proof -
  let ?ps = "graph_nodes u [] sat"
  let ?S = "sp_type_id ` set sat"
  have ps: "nodes_for u ?S ?ps" "pn_type_id ` set ?ps = ?S \<union> pd_type_id ` set u"
    using graph_nodes_ok [OF assms(1), of u "[]"] by simp_all
  have "planned_node d \<in> set ?ps" if d: "d \<in> set u" "pd_type_id d \<notin> ?S" for d
  proof -
    from d ps(2) have "pd_type_id d \<in> pn_type_id ` set ?ps" by blast
    then obtain p where p: "p \<in> set ?ps" "pn_type_id p = pd_type_id d" by auto
    with ps(1) d(2) have "pn_state p = State_Planned" unfolding nodes_for_def by metis
    with nodes_planned [OF ps(1) p(1)] obtain d' where d': "d' \<in> set u" "p = planned_node d'" by metis
    with p(2) have "pd_type_id d' = pd_type_id d" by (simp add: planned_node_def)
    with d' d(1) assms(2) have "d' = d" by (metis distinct_map inj_on_contraD)
    with p(1) d'(2) show ?thesis by simp
  qed
  moreover have "p \<in> set ?ps \<Longrightarrow> pn_state p = State_Planned \<Longrightarrow>
      \<exists>d\<in>set u. p = planned_node d \<and> pd_type_id d \<notin> ?S" for p
    using nodes_planned [OF ps(1), of p] by (metis planned_node_def provider_node.select_convs(1))
  ultimately show ?thesis by (auto simp: planned_node_def)
qed

text \<open>The declared dependencies among the types that are provided or declared.\<close>

definition declared_depends ::
    "provider_descriptor list \<Rightarrow> satisfied_provider list \<Rightarrow> (type_id \<times> type_id) set" where
  "declared_depends ds sat =
     {(a, b). \<exists>d\<in>set ds. pd_type_id d \<notin> sp_type_id ` set sat \<and> a = pd_type_id d \<and>
        (\<exists>x\<in>set (pd_dependencies d). b = dep_type_id x \<and>
           b \<in> sp_type_id ` set sat \<union> pd_type_id ` set ds)}"

lemma planned_node_simps [simp]:
  "pn_type_id (planned_node d) = pd_type_id d"
  "pn_declared_dependencies (planned_node d) = pd_dependencies d"
  "pn_state (planned_node d) = State_Planned"
  by (simp_all add: planned_node_def)

lemma edge_for_simps [simp]:
  "de_provider_type_id (edge_for p x) = pn_type_id p" "de_dependency_type_id (edge_for p x) = dep_type_id x"
  by (simp_all add: edge_for_def)

lemma analysis_depends:
  assumes "\<forall>s\<in>set sat. sp_state s \<noteq> State_Planned" "distinct (map pd_type_id u)"
  shows "depends (analysis_graph u [] sat) = declared_depends u sat"
proof -
  let ?ps = "graph_nodes u [] sat"
  have ids: "pn_type_id ` set ?ps = sp_type_id ` set sat \<union> pd_type_id ` set u"
    using graph_nodes_ok [OF assms(1), of u "[]"] by simp
  have edges: "set (ag_dependencies (analysis_graph u [] sat)) =
      {edge_for p x | p x. p \<in> {p \<in> set ?ps. pn_state p = State_Planned} \<and>
        x \<in> set (pn_declared_dependencies p) \<and> dep_type_id x \<in> pn_type_id ` set ?ps}"
    by (auto simp: analysis_graph_def Let_def resolved_edges_def split: if_splits)
  have "depends (analysis_graph u [] sat) =
      {(a, b). \<exists>p\<in>{p \<in> set ?ps. pn_state p = State_Planned}. \<exists>x\<in>set (pn_declared_dependencies p).
        a = pn_type_id p \<and> b = dep_type_id x \<and> dep_type_id x \<in> pn_type_id ` set ?ps}"
    unfolding depends_def edges setcompr_eq_image image_image
    by (auto simp: image_iff) (metis edge_for_simps)+
  also have "\<dots> = declared_depends u sat"
    unfolding planned_nodes_eq [OF assms] ids declared_depends_def by auto
  finally show ?thesis .
qed

section \<open>When an application can be constructed\<close>

definition valid_input ::
    "provider_descriptor list \<Rightarrow> satisfied_provider list \<Rightarrow> type_id list \<Rightarrow> bool" where
  "valid_input ds sat cov \<longleftrightarrow>
     distinct (map pd_type_id ds) \<and>
     (\<forall>d\<in>set ds. pd_type_id d \<notin> sp_type_id ` set sat \<longrightarrow>
        (\<forall>x\<in>set (pd_dependencies d).
           dep_type_id x \<in> sp_type_id ` set sat \<union> pd_type_id ` set ds \<union> set cov)) \<and>
     acyclic (declared_depends ds sat)"

text \<open>
  A plan for the declared providers: each once, after everything it depends on.
\<close>

definition plan_for ::
    "provider_descriptor list \<Rightarrow> satisfied_provider list \<Rightarrow> type_id list \<Rightarrow> construction_plan \<Rightarrow> bool" where
  "plan_for ds sat cov plan \<longleftrightarrow>
     distinct (map cs_type_id plan) \<and>
     cs_type_id ` set plan = pd_type_id ` set ds - sp_type_id ` set sat \<and>
     (\<forall>k < length plan.
        cs_descriptor (plan ! k) \<in> set ds \<and>
        pd_type_id (cs_descriptor (plan ! k)) = cs_type_id (plan ! k) \<and>
        (\<forall>x\<in>set (pd_dependencies (cs_descriptor (plan ! k))).
           dep_type_id x \<in> sp_type_id ` set sat \<union> cs_type_id ` set (take k plan) \<or>
           dep_type_id x \<in> set cov - pd_type_id ` set ds))"

lemma valid_input_mset:
  assumes "mset ds = mset ds'" "set sat = set sat'"
  shows "valid_input ds sat cov = valid_input ds' sat' cov" "plan_for ds sat cov p = plan_for ds' sat' cov p"
proof -
  have "set ds = set ds'" using assms(1) by (rule mset_eq_setD)
  moreover have "distinct (map pd_type_id ds) = distinct (map pd_type_id ds')"
    using assms(1) by (metis mset_eq_imp_distinct_iff mset_map)
  ultimately show "valid_input ds sat cov = valid_input ds' sat' cov"
    "plan_for ds sat cov p = plan_for ds' sat' cov p"
    using assms(2) by (simp_all add: valid_input_def plan_for_def declared_depends_def)
qed

lemma unresolved_empty:
  assumes "\<forall>s\<in>set sat. sp_state s \<noteq> State_Planned" "distinct (map pd_type_id u)"
  shows "(\<forall>p\<in>set (graph_nodes u [] sat). unresolved cov [] (graph_nodes u [] sat) p = []) \<longleftrightarrow>
    (\<forall>d\<in>set u. pd_type_id d \<notin> sp_type_id ` set sat \<longrightarrow>
        (\<forall>x\<in>set (pd_dependencies d).
           dep_type_id x \<in> sp_type_id ` set sat \<union> pd_type_id ` set u \<union> set cov))"
proof -
  let ?ps = "graph_nodes u [] sat"
  have ids: "pn_type_id ` set ?ps = sp_type_id ` set sat \<union> pd_type_id ` set u"
    using graph_nodes_ok [OF assms(1), of u "[]"] by simp
  have "(\<forall>p\<in>set ?ps. unresolved cov [] ?ps p = []) \<longleftrightarrow>
      (\<forall>p\<in>{p \<in> set ?ps. pn_state p = State_Planned}. \<forall>x\<in>set (pn_declared_dependencies p).
         dep_type_id x \<in> pn_type_id ` set ?ps \<union> set cov)"
    by (auto simp: unresolved_def filter_empty_conv)
  then show ?thesis unfolding planned_nodes_eq [OF assms] ids by auto
qed

lemma planned_types:
  assumes "\<forall>s\<in>set sat. sp_state s \<noteq> State_Planned" "distinct (map pd_type_id ds)"
    and "g = analysis_graph ds [] sat"
  shows "node_type g ` planned g = pd_type_id ` set ds - sp_type_id ` set sat"
proof -
  have "node_type g ` planned g = pn_type_id ` {p \<in> set (ag_providers g). pn_state p = State_Planned}"
    by (auto simp: planned_def node_type_def in_set_conv_nth image_iff)
  also have "\<dots> = pd_type_id ` {d \<in> set ds. pd_type_id d \<notin> sp_type_id ` set sat}"
    using planned_nodes_eq [OF assms(1,2)] by (simp add: assms(3) analysis_graph_def Let_def image_image)
  finally show ?thesis by auto
qed

text \<open>A planned dependency of the node at a place of Kahn's order is in an earlier place.\<close>

lemma earlier_dependency:
  assumes sat: "\<forall>s\<in>set sat. sp_state s \<noteq> State_Planned" and ds: "distinct (map pd_type_id ds)"
    and g: "g = analysis_graph ds [] sat"
    and order: "set order = planned g" "least_first g order" "k < length order"
    and d: "d \<in> set ds" "pd_type_id d = node_type g (order ! k)" "x \<in> set (pd_dependencies d)"
    and t: "dep_type_id x \<in> pd_type_id ` set ds - sp_type_id ` set sat"
  shows "dep_type_id x \<in> node_type g ` set (take k order)"
proof -
  have ok: "graph_ok g" using analysis_graph_ok [OF sat] by (simp add: g)
  note types = planned_types [OF sat ds g]
  have k: "order ! k \<in> planned g" using order(1,3) nth_mem by blast
  then have "node_type g (order ! k) \<in> node_type g ` planned g" by (rule imageI)
  then have free: "pd_type_id d \<notin> sp_type_id ` set sat" unfolding types d(2) by simp
  have "(pd_type_id d, dep_type_id x) \<in> declared_depends ds sat"
    unfolding declared_depends_def mem_Collect_eq prod.case
    by (intro bexI [OF _ d(1)] conjI free refl bexI [OF _ d(3)]) (use t in simp)
  then have "(node_type g (order ! k), dep_type_id x) \<in> declared_depends ds sat"
    by (simp only: d(2))
  then have "(node_type g (order ! k), dep_type_id x) \<in> depends g"
    using analysis_depends [OF sat ds] g by simp
  then obtain i j where ij: "node_type g (order ! k) = node_type g i" "dep_type_id x = node_type g j"
    "(i, j) \<in> index_depends g" by (rule dependsD [OF ok])
  then have "i = order ! k"
    using k node_type_inj [OF ok, of "order ! k" i] by (auto simp: index_depends_def planned_def)
  moreover obtain j' where "j' \<in> planned g" "node_type g j' = dep_type_id x" using t types by (metis imageE)
  then have "j \<in> planned g"
    using ij node_type_inj [OF ok, of j j'] by (auto simp: index_depends_def planned_def)
  ultimately have "j \<in> set (take k order)"
    using order(2,3) ij(3) by (auto simp: least_first_def available_def)
  with ij(2) show ?thesis by simp
qed

text \<open>Kahn's order on the analysis graph is a plan for the declarations.\<close>

lemma kahn_plan_for:
  assumes sat: "\<forall>s\<in>set sat. sp_state s \<noteq> State_Planned" and ds: "distinct (map pd_type_id ds)"
    and resolved: "\<forall>d\<in>set ds. pd_type_id d \<notin> sp_type_id ` set sat \<longrightarrow>
        (\<forall>x\<in>set (pd_dependencies d).
           dep_type_id x \<in> sp_type_id ` set sat \<union> pd_type_id ` set ds \<union> set cov)"
    and g: "g = analysis_graph ds [] sat"
    and steps: "list_all2 (is_step_for g ds) steps order"
    and order: "distinct order" "set order = planned g" "least_first g order"
  shows "plan_for ds sat cov steps"
  unfolding plan_for_def
proof (intro conjI allI impI ballI)
  have ok: "graph_ok g" using analysis_graph_ok [OF sat] by (simp add: g)
  have len: "length steps = length order" using steps by (rule list_all2_lengthD)
  have ids: "cs_type_id (steps ! k) = node_type g (order ! k)" if "k < length order" for k
    using list_all2_nthD2 [OF steps that] by (simp add: is_step_for_def node_type_def Let_def)
  have types: "map cs_type_id steps = map (node_type g) order"
    using len ids by (intro nth_equalityI) auto
  have "inj_on (node_type g) (set order)"
    using node_type_inj [OF ok] order(2) by (auto simp: inj_on_def planned_def)
  with order(1) show "distinct (map cs_type_id steps)" unfolding types by (simp add: distinct_map)
  have "cs_type_id ` set steps = node_type g ` set order" using types by (metis list.set_map)
  then show set: "cs_type_id ` set steps = pd_type_id ` set ds - sp_type_id ` set sat"
    using planned_types [OF sat ds g] order(2) by simp
  fix k assume "k < length steps"
  then have k: "k < length order" using len by simp
  let ?d = "cs_descriptor (steps ! k)"
  show d: "?d \<in> set ds" "pd_type_id ?d = cs_type_id (steps ! k)"
    using list_all2_nthD2 [OF steps k] find_SomeD [of _ ds ?d]
    by (force simp: is_step_for_def Let_def)+
  fix x assume x: "x \<in> set (pd_dependencies ?d)"
  show "dep_type_id x \<in> sp_type_id ` set sat \<union> cs_type_id ` set (take k steps) \<or>
      dep_type_id x \<in> set cov - pd_type_id ` set ds"
  proof (cases "dep_type_id x \<in> pd_type_id ` set ds - sp_type_id ` set sat")
    case True
    have "pd_type_id ?d = node_type g (order ! k)" using d(2) ids [OF k] by simp
    from earlier_dependency [OF sat ds g order(2,3) k d(1) this x True]
    have "dep_type_id x \<in> set (take k (map (node_type g) order))" by (simp add: take_map)
    then have "dep_type_id x \<in> set (take k (map cs_type_id steps))" by (simp only: types)
    then show ?thesis by (simp add: take_map)
  next
    case False
    have "cs_type_id (steps ! k) \<notin> sp_type_id ` set sat"
      using set k len by (metis DiffD2 imageI nth_mem)
    then have "pd_type_id ?d \<notin> sp_type_id ` set sat" using d(2) by simp
    with resolved [THEN bspec, OF d(1), THEN mp, THEN bspec, OF _ x] False show ?thesis by blast
  qed
qed

section \<open>Correctness of the analysis\<close>

lemma try_map_all_Inr:
  "\<forall>x\<in>set xs. \<exists>y. f x = Inr y \<Longrightarrow> \<exists>ys. try_map f xs = Inr ys \<and> length ys = length xs"
  by (induction xs) auto

lemma cycles_reported:
  assumes "graph_ok g"
  shows "\<exists>cs. and_then (detect g) (try_map pending_cycle) = Inr cs \<and> (cs = [] \<longleftrightarrow> acyclic (depends g))"
proof -
  obtain cycles where c: "detect g = Inr cycles" "cycles = [] \<longleftrightarrow> acyclic (depends g)"
    "\<forall>cy\<in>set cycles. reports_cycle g cy" using detect_correct [OF assms] by (elim exE conjE)
  have "\<exists>y. pending_cycle cy = Inr y" if "cy \<in> set cycles" for cy
  proof -
    have "cy_names cy \<noteq> []" using c(3) that by (auto simp: reports_cycle_def)
    then show ?thesis by (auto simp: pending_cycle_def split: list.splits)
  qed
  then obtain ys where "try_map pending_cycle cycles = Inr ys" "length ys = length cycles"
    using try_map_all_Inr [of cycles pending_cycle] by blast
  then have "try_map pending_cycle cycles = Inr ys" "ys = [] \<longleftrightarrow> cycles = []" by auto
  with c(1,2) show ?thesis by simp
qed

text \<open>
  The state of the analysis after the declarations have been read: what \<open>diagnostics\<close> holds and
  which declarations are left.
\<close>

lemma declarations_phase:
  fixes ds :: "provider_descriptor list"
  defines "D \<equiv> sort_by descriptor_order ds"
  obtains u dups diags amb diags' where
    "fold unique_step D ([], [], []) = (u, dups, diags)"
    "fold (ambiguous_step u) u ([], diags) = (amb, diags')"
    "diags' = [] \<longleftrightarrow> distinct (map pd_type_id ds)" "diags' = [] \<Longrightarrow> u = D \<and> amb = []"
proof -
  obtain u dups diags where u: "fold unique_step D ([], [], []) = (u, dups, diags)" by (metis surj_pair)
  obtain amb diags' where a: "fold (ambiguous_step u) u ([], diags) = (amb, diags')" by (metis surj_pair)
  from unique_fold_ok [of D] have unique: "diags = map pending_duplicate dups"
    "if distinct (map identity_key D) then u = D \<and> dups = [] else dups \<noteq> []"
    by (simp_all add: u unique_ok_def)
  from ambiguous_fold [OF a] obtain new where amb:
    "set amb = {t \<in> pd_type_id ` set u. 1 < length (same_type u t)}" "diags' = diags @ new"
    "length new = length amb" by blast
  have "set amb = {} \<longleftrightarrow> distinct (map pd_type_id u)"
    unfolding same_type_distinct [symmetric] amb(1) by (auto simp: not_less)
  then have "amb = [] \<longleftrightarrow> distinct (map pd_type_id u)" by simp
  then have nil: "diags' = [] \<longleftrightarrow> dups = [] \<and> distinct (map pd_type_id u)"
    using unique(1) amb(2,3) by auto
  have "distinct (map identity_key D)" if "distinct (map pd_type_id D)"
    using that by (auto simp: distinct_map identity_key_def inj_on_def)
  then have types: "diags' = [] \<longleftrightarrow> distinct (map pd_type_id D)"
    using nil unique(2) by (auto split: if_splits)
  also have "\<dots> \<longleftrightarrow> distinct (map pd_type_id ds)" by (simp add: D_def)
  finally have "diags' = [] \<longleftrightarrow> distinct (map pd_type_id ds)" .
  moreover have "u = D \<and> amb = []" if "diags' = []"
    using that nil unique(2) amb(2,3) by (auto split: if_splits)
  ultimately show thesis using u a that by blast
qed

text \<open>\<open>valid_input\<close> in the terms of the last two phases.\<close>

lemma valid_input_phases:
  assumes "\<forall>s\<in>set sat. sp_state s \<noteq> State_Planned" "distinct (map pd_type_id ds)"
  shows "valid_input ds sat cov \<longleftrightarrow>
    (\<forall>p\<in>set (graph_nodes ds [] sat). unresolved cov [] (graph_nodes ds [] sat) p = []) \<and>
    acyclic (depends (analysis_graph ds [] sat))"
  unfolding unresolved_empty [OF assms] analysis_depends [OF assms] valid_input_def
  using assms(2) by blast

lemma analyze_parts_phases:
  fixes descriptors :: "provider_descriptor list"
  assumes sat: "\<forall>s\<in>set satisfied. sp_state s \<noteq> State_Planned"
  defines "D \<equiv> sort_by descriptor_order descriptors" and "S \<equiv> sort_by satisfied_order satisfied"
  obtains u amb diagnostics where
    "analyze_parts descriptors satisfied covered =
      and_then (if diagnostics = [] then and_then (create (analysis_graph u amb S) u) (\<lambda>p. Inr (Some p))
          else Inr None)
        (\<lambda>plan. Inr \<lparr>ga_graph = analysis_graph u amb S, ga_diagnostics = diagnostics,
          ga_construction_plan = plan, ga_auto_configurations = [], ga_module_graph = None\<rparr>)"
    "diagnostics = [] \<longleftrightarrow> valid_input D S covered" "diagnostics = [] \<longrightarrow> u = D \<and> amb = []"
proof -
  obtain u dups diags amb diags' where fold:
    "fold unique_step D ([], [], []) = (u, dups, diags)"
    "fold (ambiguous_step u) u ([], diags) = (amb, diags')"
    and decl: "diags' = [] \<longleftrightarrow> distinct (map pd_type_id D)" "diags' = [] \<Longrightarrow> u = D \<and> amb = []"
    unfolding D_def using declarations_phase [of descriptors] by (metis distinct_map_sort_by)
  have sat': "\<forall>s\<in>set S. sp_state s \<noteq> State_Planned" using sat by (simp add: S_def)
  let ?ps = "graph_nodes u amb S"
  let ?g = "analysis_graph u amb S"
  note g = analysis_graph_ok [OF sat', of u amb]
  have located: "\<forall>p\<in>set ?ps. pn_state p = State_Planned \<longrightarrow> pn_location p \<noteq> None"
    using g(2) by (simp add: plan_ready_def analysis_graph_def Let_def)
  obtain new where edges: "try_fold (provider_dependencies_step covered amb ?ps) ?ps ([], diags') =
      Inr (ag_dependencies ?g, diags' @ new)"
    "new = [] \<longleftrightarrow> (\<forall>p\<in>set ?ps. unresolved covered amb ?ps p = [])"
    using edges_fold [OF located, of covered amb ?ps "[]" diags'] by (auto simp: analysis_graph_def Let_def)
  have graph: "\<lparr>ag_providers = ?ps, ag_dependencies = ag_dependencies ?g\<rparr> = ?g"
    by (simp add: analysis_graph_def Let_def)
  obtain cs where cs: "and_then (detect ?g) (try_map pending_cycle) = Inr cs"
    "cs = [] \<longleftrightarrow> acyclic (depends ?g)" using cycles_reported [OF g(1)] by blast
  define cycles where "cycles = (if diags' @ new = [] then cs else [])"
  have run: "(if diags' @ new = [] then and_then (detect ?g) (try_map pending_cycle) else Inr []) = Inr cycles"
    by (simp add: cycles_def cs(1))
  define diagnostics where
    "diagnostics = map pend_diagnostic (sort_by pending_order ((diags' @ new) @ cycles))"
  have nil: "diagnostics = [] \<longleftrightarrow> diags' = [] \<and> new = [] \<and> acyclic (depends ?g)"
    using cs(2) by (auto simp: diagnostics_def cycles_def)
  have "diagnostics = [] \<longleftrightarrow> valid_input D S covered"
  proof (cases "distinct (map pd_type_id D)")
    case True
    with decl have "diags' = []" "u = D" "amb = []" by auto
    with nil edges(2) valid_input_phases [OF sat' True] show ?thesis by simp
  next
    case False
    with nil decl(1) show ?thesis by (simp add: valid_input_def)
  qed
  moreover have "analyze_parts descriptors satisfied covered =
      and_then (if diagnostics = [] then and_then (create ?g u) (\<lambda>p. Inr (Some p)) else Inr None)
        (\<lambda>plan. Inr \<lparr>ga_graph = ?g, ga_diagnostics = diagnostics, ga_construction_plan = plan,
          ga_auto_configurations = [], ga_module_graph = None\<rparr>)"
    unfolding analyze_parts_def Let_def D_def [symmetric] S_def [symmetric] fold prod.case edges(1)
      and_then.simps graph run diagnostics_def [symmetric] ..
  ultimately show thesis using decl(2) nil that by blast
qed

lemma analyze_parts_correct:
  assumes sat: "\<forall>s\<in>set satisfied. sp_state s \<noteq> State_Planned"
  shows "\<exists>a. analyze_parts descriptors satisfied covered = Inr a \<and> graph_ok (ga_graph a) \<and>
    (if valid_input descriptors satisfied covered
     then ga_diagnostics a = [] \<and>
       (\<exists>plan. ga_construction_plan a = Some plan \<and> plan_for descriptors satisfied covered plan)
     else ga_diagnostics a \<noteq> [] \<and> ga_construction_plan a = None)"
proof -
  let ?D = "sort_by descriptor_order descriptors"
  let ?S = "sort_by satisfied_order satisfied"
  obtain u amb diags where phases:
    "analyze_parts descriptors satisfied covered =
      and_then (if diags = [] then and_then (create (analysis_graph u amb ?S) u) (\<lambda>p. Inr (Some p))
          else Inr None)
        (\<lambda>plan. Inr \<lparr>ga_graph = analysis_graph u amb ?S, ga_diagnostics = diags,
          ga_construction_plan = plan, ga_auto_configurations = [], ga_module_graph = None\<rparr>)"
    "diags = [] \<longleftrightarrow> valid_input ?D ?S covered" "diags = [] \<longrightarrow> u = ?D \<and> amb = []"
    by (rule analyze_parts_phases [OF sat, of descriptors covered])
  have sat': "\<forall>s\<in>set ?S. sp_state s \<noteq> State_Planned" using sat by simp
  note g = analysis_graph_ok [OF sat', of u amb]
  have valid: "diags = [] \<longleftrightarrow> valid_input descriptors satisfied covered"
    using phases(2) valid_input_mset(1) [of ?D descriptors ?S satisfied] by simp
  show ?thesis
  proof (cases "diags = []")
    case True
    then have ok: "valid_input ?D ?S covered" "u = ?D" "amb = []" using phases by auto
    then have types: "distinct (map pd_type_id ?D)" by (simp add: valid_input_def)
    have resolved: "\<forall>d\<in>set ?D. pd_type_id d \<notin> sp_type_id ` set ?S \<longrightarrow> (\<forall>x\<in>set (pd_dependencies d).
        dep_type_id x \<in> sp_type_id ` set ?S \<union> pd_type_id ` set ?D \<union> set covered)"
      using ok(1) by (simp add: valid_input_def)
    have g': "analysis_graph u amb ?S = analysis_graph ?D [] ?S" using ok by simp
    have "acyclic (depends (analysis_graph u amb ?S))"
      using valid_input_phases [OF sat' types] ok by simp
    with create_correct [OF g] obtain order steps where
      "create (analysis_graph u amb ?S) u = Inr steps"
      "list_all2 (is_step_for (analysis_graph u amb ?S) u) steps order" "distinct order"
      "set order = planned (analysis_graph u amb ?S)" "least_first (analysis_graph u amb ?S) order" by auto
    moreover from this have "plan_for ?D ?S covered steps"
      using kahn_plan_for [OF sat' types resolved g'] ok(2) by blast
    then have "plan_for descriptors satisfied covered steps"
      using valid_input_mset(2) [of ?D descriptors ?S satisfied] by simp
    ultimately show ?thesis using True g(1) valid by (simp add: phases(1))
  next
    case False
    with g(1) valid show ?thesis by (simp add: phases(1))
  qed
qed

section \<open>Independence of the registration order\<close>

lemma satisfied_order_cmp_on:
  "satisfied_order = cmp_on (\<lambda>s. (sp_type_name s, provider_state_order (sp_state s)))"
  by (simp add: fun_eq_iff satisfied_order_def cmp_on_def cmp_simps)

interpretation satisfied_providers: comparator satisfied_order
  unfolding satisfied_order_cmp_on by (rule comparator_cmp_on)

lemma provider_dependencies_step_cong:
  "set cov = set cov' \<Longrightarrow> provider_dependencies_step cov = provider_dependencies_step cov'"
proof -
  assume "set cov = set cov'"
  then have "dependency_step cov = dependency_step cov'"
    by (intro ext) (simp add: dependency_step_def split: prod.splits)
  then show ?thesis by (intro ext) (simp add: provider_dependencies_step_def)
qed

theorem analyze_parts_deterministic:
  assumes "mset descriptors = mset descriptors'" "mset satisfied = mset satisfied'"
    and "set covered = set covered'"
    and "\<forall>a\<in>set descriptors. \<forall>b\<in>set descriptors. descriptor_order a b = Equal \<longrightarrow> a = b"
    and "\<forall>a\<in>set satisfied. \<forall>b\<in>set satisfied. satisfied_order a b = Equal \<longrightarrow> a = b"
  shows "analyze_parts descriptors satisfied covered = analyze_parts descriptors' satisfied' covered'"
proof -
  have "sort_by descriptor_order descriptors = sort_by descriptor_order descriptors'"
    by (rule providers.sort_by_canonical_on) (use assms in blast)+
  moreover have "sort_by satisfied_order satisfied = sort_by satisfied_order satisfied'"
    by (rule satisfied_providers.sort_by_canonical_on) (use assms in blast)+
  ultimately show ?thesis
    using provider_dependencies_step_cong [OF assms(3)] by (simp add: analyze_parts_def)
qed

section \<open>The properties\<close>

text \<open>
  C1: The analysis returns for every input of satisfied providers, with a well-formed graph. It
  has no diagnostic exactly when the descriptors are a valid input (no repeated or ambiguous
  declaration, no unresolved dependency, no cycle); it then has a construction plan in which every
  provider that is not satisfied occurs once, after all its dependencies. Otherwise it has no plan.
\<close>

theorem analysis_exact:
  assumes "\<forall>s\<in>set satisfied. sp_state s \<noteq> State_Planned"
  shows "\<exists>a. analyze_parts descriptors satisfied covered = Inr a \<and> graph_ok (ga_graph a) \<and>
    (if valid_input descriptors satisfied covered
     then ga_diagnostics a = [] \<and>
       (\<exists>plan. ga_construction_plan a = Some plan \<and> plan_for descriptors satisfied covered plan)
     else ga_diagnostics a \<noteq> [] \<and> ga_construction_plan a = None)"
  by (rule analyze_parts_correct [OF assms])

theorem analysis_exact_witness:
  "let ds = [sample_descriptor 1 ''A'' [2, 3], sample_descriptor 2 ''B'' []];
       sat = [satisfied_provided 3 ''Config''] in
    \<exists>a plan. analyze_parts ds sat [] = Inr a \<and> ga_diagnostics a = [] \<and>
      ga_construction_plan a = Some plan \<and> plan_for ds sat [] plan"
proof -
  let ?ds = "[sample_descriptor 1 ''A'' [2, 3], sample_descriptor 2 ''B'' []]"
  let ?sat = "[satisfied_provided 3 ''Config'']"
  have "acyclic (declared_depends ?ds ?sat)"
    by (intro acyclic_ascending) (auto simp: declared_depends_def satisfied_provided_def)
  then have "valid_input ?ds ?sat []" by (simp add: valid_input_def satisfied_provided_def)
  moreover have "\<forall>s\<in>set ?sat. sp_state s \<noteq> State_Planned" by (simp add: satisfied_provided_def)
  ultimately show ?thesis using analysis_exact [of ?sat ?ds "[]"] by (auto simp: Let_def)
qed

text \<open>
  C16: The analysis does not depend on the order in which descriptors are linked into the program
  or values are provided, as long as no two different ones compare equal.
\<close>

theorem analysis_deterministic:
  assumes "mset descriptors = mset descriptors'" "mset satisfied = mset satisfied'"
    and "set covered = set covered'"
    and "\<forall>a\<in>set descriptors. \<forall>b\<in>set descriptors. descriptor_order a b = Equal \<longrightarrow> a = b"
    and "\<forall>a\<in>set satisfied. \<forall>b\<in>set satisfied. satisfied_order a b = Equal \<longrightarrow> a = b"
  shows "analyze_parts descriptors satisfied covered = analyze_parts descriptors' satisfied' covered'"
  by (rule analyze_parts_deterministic [OF assms])

theorem analysis_deterministic_witness:
  "analyze_parts [sample_descriptor 1 ''A'' [2], sample_descriptor 2 ''B'' []] [] [] =
    analyze_parts [sample_descriptor 2 ''B'' [], sample_descriptor 1 ''A'' [2]] [] []"
  by (rule analysis_deterministic) (auto simp: descriptor_order_cmp_on cmp_on_def)

end
