(* ===== verification/Scope.thy ===== *)
theory Scope
  imports Graph_Analysis
begin

text \<open>
  Rooted provider selection and module boundaries (\<open>crates/mads-core/src/graph/scope.rs\<close>): a
  breadth-first worklist of providers, each with the module whose rules apply to its dependencies.

  The worklist ends because a pair of a provider and a context is processed once
  (\<open>scope_loop\<close>). \<open>visible\<close> is the inductive reading of the boundary rules;
  \<open>scope_loop_correct\<close> states that the loop processes exactly the visible pairs, so that no
  provider is selected across a module boundary and none is missed.
\<close>

section \<open>Ownership and access\<close>

definition owner_of :: "string option \<Rightarrow> module_descriptor list \<Rightarrow> module_descriptor option" where
  "owner_of namespace modules =
     (case namespace of
        None \<Rightarrow> None
      | Some namespace \<Rightarrow>
          max_by_key (\<lambda>m. case md_namespace m of None \<Rightarrow> 0 | Some n \<Rightarrow> length n)
            (filter (\<lambda>m. case md_namespace m of
                None \<Rightarrow> False | Some owner \<Rightarrow> namespace_contains owner namespace) modules))"

definition can_access :: "module_graph \<Rightarrow> type_id \<Rightarrow> type_id \<Rightarrow> provider_visibility \<Rightarrow> bool" where
  "can_access g context owner visibility \<longleftrightarrow>
     context = owner \<or> (visibility = Public \<and> directly_imports g context owner)"

record work_item =
  wi_descriptor_index :: nat
  wi_context :: "type_id option"
  wi_dependency_path :: "string list"

definition boundary_error ::
    "module_graph \<Rightarrow> type_id \<Rightarrow> module_descriptor \<Rightarrow> provider_descriptor \<Rightarrow> string list \<Rightarrow>
     panic + diagnostic" where
  "boundary_error g context owner dependency dependency_path =
     and_then (expect ''provider work context is always a reachable module''
         (find (\<lambda>m. mn_type_id m = context) (mg_modules g)))
       (\<lambda>context.
         let condition =
           (if pd_visibility dependency \<noteq> Public
            then ''the target provider does not have unrestricted `pub` visibility''
            else ''the requesting module does not declare the target owner as a direct import'') in
         Inr (with_suggestion (''dependency path: '' @ join_with '' -> '' dependency_path)
           (with_location (pd_location dependency) (with_subject (pd_type_name dependency)
             (diagnostic_new MADS009 ''inaccessible module provider''
               (condition @ ''; requester `'' @ mn_type_name context @ ''` ('' @ mn_namespace context
                 @ '') cannot access owner `'' @ md_type_name owner @ ''` (''
                 @ (case md_namespace owner of None \<Rightarrow> ''<unknown>'' | Some n \<Rightarrow> n) @ '')''))))))"

section \<open>The worklist\<close>

text \<open>The five arms of the match on the context of the work and the owner of a candidate.\<close>

datatype candidate_outcome =
  Admissible "type_id option"
| BoundaryFailure type_id module_descriptor
| OwnedOutsideScope

fun classify_candidate ::
    "module_graph \<Rightarrow> type_id option \<Rightarrow> module_descriptor option \<Rightarrow> provider_visibility \<Rightarrow>
     candidate_outcome" where
  "classify_candidate g context None visibility = Admissible context"
| "classify_candidate g (Some context) (Some owner) visibility =
     (if md_type_id owner = context then Admissible (Some (md_type_id owner))
      else if can_access g context (md_type_id owner) visibility
      then Admissible (Some (md_type_id owner))
      else BoundaryFailure context owner)"
| "classify_candidate g None (Some owner) visibility =
     (if is_reachable g (md_type_id owner) then Admissible (Some (md_type_id owner))
      else OwnedOutsideScope)"

type_synonym boundary_failure = "type_id \<times> module_descriptor \<times> provider_descriptor \<times> string list"

record candidates =
  ca_found :: bool
  ca_admissible :: "work_item list"
  ca_failures :: "boundary_failure list"
  ca_outside :: bool

definition candidate_step ::
    "module_graph \<Rightarrow> module_descriptor list \<Rightarrow> work_item \<Rightarrow> nat \<times> provider_descriptor \<Rightarrow>
     candidates \<Rightarrow> candidates" where
  "candidate_step g modules work = (\<lambda>(dependency_index, dependency_descriptor) s.
     let dependency_path = wi_dependency_path work @ [pd_type_name dependency_descriptor];
         owner = owner_of (pd_namespace dependency_descriptor) modules in
     case classify_candidate g (wi_context work) owner (pd_visibility dependency_descriptor) of
       Admissible context \<Rightarrow> s\<lparr>ca_found := True, ca_admissible := ca_admissible s @
         [\<lparr>wi_descriptor_index = dependency_index, wi_context = context,
           wi_dependency_path = dependency_path\<rparr>]\<rparr>
     | BoundaryFailure context owner \<Rightarrow> s\<lparr>ca_found := True, ca_failures := ca_failures s @
         [(context, owner, dependency_descriptor, dependency_path)]\<rparr>
     | OwnedOutsideScope \<Rightarrow> s\<lparr>ca_found := True, ca_outside := True\<rparr>)"

definition declarations_of :: "provider_descriptor list \<Rightarrow> type_id \<Rightarrow> (nat \<times> provider_descriptor) list" where
  "declarations_of descriptors t =
     filter (\<lambda>(_, d). pd_type_id d = t) (List.enumerate 0 descriptors)"

definition candidates_for ::
    "module_graph \<Rightarrow> module_descriptor list \<Rightarrow> provider_descriptor list \<Rightarrow> work_item \<Rightarrow> type_id \<Rightarrow>
     candidates" where
  "candidates_for g modules descriptors work dependency_type =
     fold (candidate_step g modules work) (declarations_of descriptors dependency_type)
       \<lparr>ca_found = False, ca_admissible = [], ca_failures = [], ca_outside = False\<rparr>"

record scope_state =
  sc_queue :: "work_item list"
  sc_processed :: "(nat \<times> type_id option) set"
  sc_selected_indices :: "nat set"
  sc_selected :: "provider_descriptor list"
  sc_diagnostics :: "diagnostic list"
  sc_covered_missing :: "type_id list"

definition dependency_work ::
    "module_graph \<Rightarrow> module_descriptor list \<Rightarrow> provider_descriptor list \<Rightarrow> type_id set \<Rightarrow> work_item \<Rightarrow>
     dependency_descriptor \<Rightarrow> scope_state \<Rightarrow> panic + scope_state" where
  "dependency_work g modules descriptors satisfied_types work dependency s =
     (if dep_type_id dependency \<in> satisfied_types then Inr s
      else
        let c = candidates_for g modules descriptors work (dep_type_id dependency) in
        if ca_admissible c = [] then
          let boundary_failed = (ca_failures c \<noteq> []) in
          and_then (try_map (\<lambda>(context, owner, d, path). boundary_error g context owner d path)
              (ca_failures c))
            (\<lambda>errors. Inr (s\<lparr>sc_diagnostics := sc_diagnostics s @ errors,
              sc_covered_missing :=
                (if ca_found c \<and> (ca_outside c \<or> boundary_failed)
                    \<and> dep_type_id dependency \<notin> set (sc_covered_missing s)
                 then sc_covered_missing s @ [dep_type_id dependency]
                 else sc_covered_missing s)\<rparr>))
        else Inr (s\<lparr>sc_queue := sc_queue s @ ca_admissible c\<rparr>))"

definition process_work ::
    "module_graph \<Rightarrow> module_descriptor list \<Rightarrow> provider_descriptor list \<Rightarrow> type_id set \<Rightarrow> work_item \<Rightarrow>
     scope_state \<Rightarrow> panic + scope_state" where
  "process_work g modules descriptors satisfied_types work s =
     (let index = wi_descriptor_index work;
          descriptor = descriptors ! index;
          s = (if index \<in> sc_selected_indices s then s
               else s\<lparr>sc_selected_indices := insert index (sc_selected_indices s),
                      sc_selected := sc_selected s @ [descriptor]\<rparr>) in
      try_fold (dependency_work g modules descriptors satisfied_types work)
        (pd_dependencies descriptor) s)"

definition work_key :: "work_item \<Rightarrow> nat \<times> type_id option" where
  "work_key w = (wi_descriptor_index w, wi_context w)"

text \<open>All pairs the worklist can hold from a state on; they bound the number of rounds.\<close>

definition scope_universe ::
    "module_descriptor list \<Rightarrow> provider_descriptor list \<Rightarrow> scope_state \<Rightarrow> (nat \<times> type_id option) set" where
  "scope_universe modules descriptors s =
     ({..<length descriptors} \<union> wi_descriptor_index ` set (sc_queue s)) \<times>
     (insert None (Some ` md_type_id ` set modules) \<union> wi_context ` set (sc_queue s))"

lemma finite_scope_universe [simp]: "finite (scope_universe modules descriptors s)"
  by (simp add: scope_universe_def)

section \<open>The candidates of one dependency\<close>

definition candidate_item ::
    "module_graph \<Rightarrow> module_descriptor list \<Rightarrow> work_item \<Rightarrow> nat \<times> provider_descriptor \<Rightarrow> work_item option" where
  "candidate_item g modules work = (\<lambda>(i, d).
     case classify_candidate g (wi_context work) (owner_of (pd_namespace d) modules) (pd_visibility d) of
       Admissible context \<Rightarrow> Some \<lparr>wi_descriptor_index = i, wi_context = context,
         wi_dependency_path = wi_dependency_path work @ [pd_type_name d]\<rparr>
     | _ \<Rightarrow> None)"

definition candidate_failure ::
    "module_graph \<Rightarrow> module_descriptor list \<Rightarrow> work_item \<Rightarrow> nat \<times> provider_descriptor \<Rightarrow> boundary_failure option" where
  "candidate_failure g modules work = (\<lambda>(i, d).
     case classify_candidate g (wi_context work) (owner_of (pd_namespace d) modules) (pd_visibility d) of
       BoundaryFailure context owner \<Rightarrow> Some (context, owner, d, wi_dependency_path work @ [pd_type_name d])
     | _ \<Rightarrow> None)"

lemma candidate_step_eq:
  "candidate_step g modules work (i, d) c =
     c\<lparr>ca_found := True,
       ca_admissible := ca_admissible c @
         (case candidate_item g modules work (i, d) of None \<Rightarrow> [] | Some w \<Rightarrow> [w]),
       ca_failures := ca_failures c @
         (case candidate_failure g modules work (i, d) of None \<Rightarrow> [] | Some f \<Rightarrow> [f]),
       ca_outside := ca_outside c \<or>
         classify_candidate g (wi_context work) (owner_of (pd_namespace d) modules) (pd_visibility d) =
           OwnedOutsideScope\<rparr>"
  by (simp add: candidate_step_def candidate_item_def candidate_failure_def Let_def
      split: candidate_outcome.split)

lemma candidate_fold:
  "fold (candidate_step g modules work) xs c =
     c\<lparr>ca_found := ca_found c \<or> xs \<noteq> [],
       ca_admissible := ca_admissible c @ List.map_filter (candidate_item g modules work) xs,
       ca_failures := ca_failures c @ List.map_filter (candidate_failure g modules work) xs,
       ca_outside := ca_outside c \<or> (\<exists>(i, d)\<in>set xs.
         classify_candidate g (wi_context work) (owner_of (pd_namespace d) modules) (pd_visibility d) =
           OwnedOutsideScope)\<rparr>"
proof (induction xs arbitrary: c)
  case (Cons x xs)
  obtain i d where x: "x = (i, d)" by (cases x)
  show ?case
    by (simp add: x Cons.IH candidate_step_eq List.map_filter_simps split: option.split)
qed (simp add: List.map_filter_simps)

lemma candidate_context:
  assumes "candidate_item g modules work (i, d) = Some w"
  shows "wi_descriptor_index w = i"
    "wi_context w \<in> insert (wi_context work) (Some ` md_type_id ` set modules)"
proof -
  have owner: "m \<in> set modules" if "owner_of (pd_namespace d) modules = Some m" for m
    using that by (auto simp: owner_of_def dest!: max_by_key_SomeD split: option.splits)
  show "wi_descriptor_index w = i"
    using assms by (auto simp: candidate_item_def split: candidate_outcome.splits)
  show "wi_context w \<in> insert (wi_context work) (Some ` md_type_id ` set modules)"
    using assms owner
    by (cases "owner_of (pd_namespace d) modules"; cases "wi_context work")
      (auto simp: candidate_item_def split: candidate_outcome.splits if_splits)
qed

lemma set_declarations_of:
  "(j, d) \<in> set (declarations_of descriptors t) \<longleftrightarrow>
     j < length descriptors \<and> d = descriptors ! j \<and> pd_type_id d = t"
  by (auto simp: declarations_of_def in_set_enumerate_eq)

lemma declared_iff:
  "(\<exists>j. (j, d) \<in> set (declarations_of descriptors t)) \<longleftrightarrow> d \<in> set descriptors \<and> pd_type_id d = t"
  unfolding set_declarations_of by (metis in_set_conv_nth)

lemma candidates_for_eq:
  "candidates_for g modules descriptors work t =
     \<lparr>ca_found = declarations_of descriptors t \<noteq> [],
      ca_admissible = List.map_filter (candidate_item g modules work) (declarations_of descriptors t),
      ca_failures = List.map_filter (candidate_failure g modules work) (declarations_of descriptors t),
      ca_outside = (\<exists>(i, d)\<in>set (declarations_of descriptors t).
         classify_candidate g (wi_context work) (owner_of (pd_namespace d) modules) (pd_visibility d) =
           OwnedOutsideScope)\<rparr>"
  by (simp add: candidates_for_def candidate_fold)

lemma candidates_for_item:
  assumes "w \<in> set (ca_admissible (candidates_for g modules descriptors work t))"
  obtains d where "wi_descriptor_index w < length descriptors" "d = descriptors ! wi_descriptor_index w"
    "pd_type_id d = t" "candidate_item g modules work (wi_descriptor_index w, d) = Some w"
proof -
  obtain i d where "(i, d) \<in> set (declarations_of descriptors t)"
    "candidate_item g modules work (i, d) = Some w"
    using assms by (auto simp: candidates_for_eq set_filter_map)
  with candidate_context(1) show thesis
    by (intro that) (force simp: set_declarations_of)+
qed

section \<open>The loop\<close>

definition queue_grows ::
    "module_descriptor list \<Rightarrow> provider_descriptor list \<Rightarrow> type_id option \<Rightarrow> scope_state \<Rightarrow>
     scope_state \<Rightarrow> bool" where
  "queue_grows modules descriptors context s t \<longleftrightarrow>
     sc_processed t = sc_processed s \<and>
     (\<exists>new. sc_queue t = sc_queue s @ new \<and>
        (\<forall>w\<in>set new. wi_descriptor_index w < length descriptors \<and>
           wi_context w \<in> insert context (Some ` md_type_id ` set modules)))"

lemma queue_grows_refl [simp]: "queue_grows modules descriptors c s s"
  by (simp add: queue_grows_def)

lemma queue_grows_trans:
  "queue_grows modules descriptors c s t \<Longrightarrow> queue_grows modules descriptors c t u \<Longrightarrow>
   queue_grows modules descriptors c s u"
  by (fastforce simp: queue_grows_def)

lemma dependency_work_grows:
  assumes "dependency_work g modules descriptors sat work x s = Inr t"
  shows "queue_grows modules descriptors (wi_context work) s t"
proof -
  let ?c = "candidates_for g modules descriptors work (dep_type_id x)"
  have "wi_descriptor_index w < length descriptors \<and>
      wi_context w \<in> insert (wi_context work) (Some ` md_type_id ` set modules)"
    if "w \<in> set (ca_admissible ?c)" for w
    using candidates_for_item [OF that] candidate_context(2) by metis
  then show ?thesis
    using assms by (auto simp: dependency_work_def queue_grows_def Let_def and_then_eq_Inr split: if_splits)
qed

lemma process_work_grows:
  assumes "process_work g modules descriptors sat work s = Inr t"
  shows "queue_grows modules descriptors (wi_context work) s t"
proof -
  have "try_fold (dependency_work g modules descriptors sat work) xs s = Inr t \<Longrightarrow>
      queue_grows modules descriptors (wi_context work) s t" for xs s
    by (induction xs arbitrary: s)
      (auto simp: and_then_eq_Inr dest!: dependency_work_grows intro: queue_grows_trans)
  moreover obtain s' where "try_fold (dependency_work g modules descriptors sat work)
      (pd_dependencies (descriptors ! wi_descriptor_index work)) s' = Inr t"
    "sc_queue s' = sc_queue s" "sc_processed s' = sc_processed s"
    using assms by (auto simp: process_work_def Let_def split: if_splits)
  ultimately show ?thesis by (fastforce simp: queue_grows_def)
qed

function scope_loop ::
    "module_graph \<Rightarrow> module_descriptor list \<Rightarrow> provider_descriptor list \<Rightarrow> type_id set \<Rightarrow>
     scope_state \<Rightarrow> panic + scope_state" where
  "scope_loop g modules descriptors satisfied_types s =
     (case sc_queue s of
        [] \<Rightarrow> Inr s
      | work # queue \<Rightarrow>
          if work_key work \<in> sc_processed s
          then scope_loop g modules descriptors satisfied_types (s\<lparr>sc_queue := queue\<rparr>)
          else and_then
            (process_work g modules descriptors satisfied_types work
              (s\<lparr>sc_queue := queue, sc_processed := insert (work_key work) (sc_processed s)\<rparr>))
            (scope_loop g modules descriptors satisfied_types))"
  by pat_completeness auto
termination
proof (relation "measures
    [\<lambda>(g, modules, descriptors, sat, s). card (scope_universe modules descriptors s - sc_processed s),
     \<lambda>(g, modules, descriptors, sat, s). length (sc_queue s)]", goal_cases)
  case (2 g modules descriptors sat s work queue)
  let ?t = "s\<lparr>sc_queue := queue\<rparr>"
  have "scope_universe modules descriptors ?t - sc_processed ?t \<subseteq>
      scope_universe modules descriptors s - sc_processed s"
    using 2 by (auto simp: scope_universe_def)
  then have "card (scope_universe modules descriptors ?t - sc_processed ?t) \<le>
      card (scope_universe modules descriptors s - sc_processed s)" by (intro card_mono) simp_all
  with 2 show ?case by (auto simp: le_less)
next
  case (3 g modules descriptors sat s work queue t)
  then have grows: "queue_grows modules descriptors (wi_context work)
      (s\<lparr>sc_queue := queue, sc_processed := insert (work_key work) (sc_processed s)\<rparr>) t"
    by (intro process_work_grows)
  then have processed: "sc_processed t = insert (work_key work) (sc_processed s)"
    by (simp add: queue_grows_def)
  obtain new where new: "sc_queue t = queue @ new"
    "wi_descriptor_index ` set new \<subseteq> {..<length descriptors}"
    "wi_context ` set new \<subseteq> insert (wi_context work) (Some ` md_type_id ` set modules)"
    using grows unfolding queue_grows_def by (auto simp: subset_eq)
  have "scope_universe modules descriptors t \<subseteq> scope_universe modules descriptors s"
    unfolding scope_universe_def new(1) 3(1) set_append image_Un list.set image_insert
    using new(2,3) by (intro Sigma_mono) blast+
  moreover have "work_key work \<in> scope_universe modules descriptors s - sc_processed s"
    using 3(1,2) by (auto simp: scope_universe_def work_key_def)
  ultimately have "card (scope_universe modules descriptors t - sc_processed t) <
      card (scope_universe modules descriptors s - sc_processed s)"
    unfolding processed by (intro psubset_card_mono) auto
  then show ?case by simp
qed simp

declare scope_loop.simps [simp del]

record scoped_provider_catalog =
  scoped_descriptors :: "provider_descriptor list"
  scoped_ownership :: "provider_ownership list"
  scoped_diagnostics :: "diagnostic list"
  scoped_covered_missing :: "type_id list"

definition initial_queue ::
    "module_graph \<Rightarrow> module_descriptor list \<Rightarrow> provider_descriptor list \<Rightarrow> type_id set \<Rightarrow> work_item list" where
  "initial_queue g modules descriptors satisfied_types =
     List.map_filter
       (\<lambda>(index, d).
         if pd_type_id d \<in> satisfied_types then None
         else case owner_of (pd_namespace d) modules of
             None \<Rightarrow> None
           | Some owner \<Rightarrow>
               if is_reachable g (md_type_id owner)
               then Some \<lparr>wi_descriptor_index = index, wi_context = Some (md_type_id owner),
                 wi_dependency_path = [pd_type_name d]\<rparr>
               else None)
       (List.enumerate 0 descriptors)"

definition selected_ownership ::
    "module_descriptor list \<Rightarrow> provider_descriptor \<Rightarrow> (type_id \<times> provider_ownership) list \<Rightarrow>
     (type_id \<times> provider_ownership) list" where
  "selected_ownership modules d owned =
     (if list_ex (\<lambda>(t, _). t = pd_type_id d) owned then owned
      else owned @ [(pd_type_id d, \<lparr>po_provider_type_name = pd_type_name d,
        po_module_type_name = map_option md_type_name (owner_of (pd_namespace d) modules)\<rparr>)])"

definition satisfied_ownership ::
    "satisfied_provider \<Rightarrow> (type_id \<times> provider_ownership) list \<Rightarrow> (type_id \<times> provider_ownership) list" where
  "satisfied_ownership p owned =
     (if list_all (\<lambda>(t, _). t \<noteq> sp_type_id p) owned
      then owned @ [(sp_type_id p, \<lparr>po_provider_type_name = sp_type_name p, po_module_type_name = None\<rparr>)]
      else owned)"

definition ownership_order ::
    "type_id \<times> provider_ownership \<Rightarrow> type_id \<times> provider_ownership \<Rightarrow> ordering" where
  "ownership_order = (\<lambda>(_, left) (_, right).
     then_with (cmp (po_provider_type_name left) (po_provider_type_name right))
       (cmp (po_module_type_name left) (po_module_type_name right)))"

definition select_scoped_providers ::
    "module_graph \<Rightarrow> module_descriptor list \<Rightarrow> provider_descriptor list \<Rightarrow> satisfied_provider list \<Rightarrow>
     panic + scoped_provider_catalog" where
  "select_scoped_providers g registered_modules descriptors satisfied =
     (let modules = catalog_modules registered_modules;
          satisfied_types = sp_type_id ` set satisfied in
      and_then
        (scope_loop g modules descriptors satisfied_types
          \<lparr>sc_queue = initial_queue g modules descriptors satisfied_types, sc_processed = {},
           sc_selected_indices = {}, sc_selected = [], sc_diagnostics = [], sc_covered_missing = []\<rparr>)
        (\<lambda>s.
          let owned = fold satisfied_ownership satisfied
                (fold (selected_ownership modules) (sc_selected s) []) in
          Inr \<lparr>scoped_descriptors = sc_selected s,
            scoped_ownership = map snd (sort_by ownership_order owned),
            scoped_diagnostics = sc_diagnostics s,
            scoped_covered_missing = sc_covered_missing s\<rparr>))"

section \<open>Visible providers\<close>

text \<open>
  The boundary rules as an inductive relation: a provider is visible in a context when it is owned
  by a reachable module, or when a visible provider depends on it and the rules admit it.
\<close>

inductive visible ::
    "module_graph \<Rightarrow> module_descriptor list \<Rightarrow> provider_descriptor list \<Rightarrow> type_id set \<Rightarrow>
     nat \<Rightarrow> type_id option \<Rightarrow> bool"
  for g modules descriptors sat where
  owned: "i < length descriptors \<Longrightarrow> pd_type_id (descriptors ! i) \<notin> sat \<Longrightarrow>
    owner_of (pd_namespace (descriptors ! i)) modules = Some m \<Longrightarrow> is_reachable g (md_type_id m) \<Longrightarrow>
    visible g modules descriptors sat i (Some (md_type_id m))"
| admitted: "visible g modules descriptors sat i c \<Longrightarrow> x \<in> set (pd_dependencies (descriptors ! i)) \<Longrightarrow>
    dep_type_id x \<notin> sat \<Longrightarrow> j < length descriptors \<Longrightarrow> pd_type_id (descriptors ! j) = dep_type_id x \<Longrightarrow>
    classify_candidate g c (owner_of (pd_namespace (descriptors ! j)) modules)
      (pd_visibility (descriptors ! j)) = Admissible c' \<Longrightarrow>
    visible g modules descriptors sat j c'"

inductive_cases visible_cases [elim]: "visible g modules descriptors sat i c"

text \<open>The context of visible work is a module of the graph.\<close>

lemma directly_imports_reachable:
  assumes "module_graph_ok g" "directly_imports g a b"
  shows "is_reachable g b"
proof -
  obtain e where "e \<in> set (mg_imports g)" "mn_type_id (mg_modules g ! mi_imported e) = b"
    using assms(2) by (auto simp: directly_imports_def list_ex_iff edge_imported_def)
  moreover from this assms(1) have "mi_imported e < length (mg_modules g)"
    by (auto simp: module_graph_ok_def)
  ultimately show ?thesis by (auto simp: is_reachable_def list_ex_iff)
qed

lemma classify_reachable:
  assumes "module_graph_ok g" "\<And>m. c = Some m \<Longrightarrow> is_reachable g m"
    and "classify_candidate g c owner v = Admissible c'" "c' = Some m"
  shows "is_reachable g m"
  using assms
  by (cases owner; cases c)
    (auto simp: can_access_def intro: directly_imports_reachable split: if_splits)

lemma visible_context:
  assumes "module_graph_ok g" "visible g modules descriptors sat i c"
  shows "i < length descriptors \<and> (\<forall>m. c = Some m \<longrightarrow> is_reachable g m)"
  using assms(2)
proof (induction rule: visible.induct)
  case (admitted i c x j c')
  then show ?case using classify_reachable [OF assms(1)] by blast
qed auto

section \<open>One round\<close>

definition outcome_of ::
    "module_graph \<Rightarrow> module_descriptor list \<Rightarrow> provider_descriptor \<Rightarrow> type_id option \<Rightarrow> candidate_outcome" where
  "outcome_of g modules d c = classify_candidate g c (owner_of (pd_namespace d) modules) (pd_visibility d)"

text \<open>A dependency that is declared, but that no declaration admits in the context.\<close>

definition blocked ::
    "module_graph \<Rightarrow> module_descriptor list \<Rightarrow> provider_descriptor list \<Rightarrow> type_id option \<Rightarrow> type_id \<Rightarrow> bool" where
  "blocked g modules descriptors c t \<longleftrightarrow>
     t \<in> pd_type_id ` set descriptors \<and>
     (\<forall>d\<in>set descriptors. pd_type_id d = t \<longrightarrow> (\<forall>c'. outcome_of g modules d c \<noteq> Admissible c'))"

definition forbidden ::
    "module_graph \<Rightarrow> module_descriptor list \<Rightarrow> provider_descriptor list \<Rightarrow> type_id option \<Rightarrow> type_id \<Rightarrow> bool" where
  "forbidden g modules descriptors c t \<longleftrightarrow>
     blocked g modules descriptors c t \<and>
     (\<exists>d\<in>set descriptors. pd_type_id d = t \<and> (\<exists>m owner. outcome_of g modules d c = BoundaryFailure m owner))"

definition admitted_keys ::
    "module_graph \<Rightarrow> module_descriptor list \<Rightarrow> provider_descriptor list \<Rightarrow> type_id option \<Rightarrow> type_id \<Rightarrow>
     (nat \<times> type_id option) set" where
  "admitted_keys g modules descriptors c t =
     {(j, c'). j < length descriptors \<and> pd_type_id (descriptors ! j) = t \<and>
        outcome_of g modules (descriptors ! j) c = Admissible c'}"

lemma candidate_item_iff:
  "candidate_item g modules work (i, d) = Some w \<longleftrightarrow>
     (\<exists>c'. outcome_of g modules d (wi_context work) = Admissible c' \<and>
        w = \<lparr>wi_descriptor_index = i, wi_context = c',
          wi_dependency_path = wi_dependency_path work @ [pd_type_name d]\<rparr>)"
  by (auto simp: candidate_item_def outcome_of_def split: candidate_outcome.splits)

lemma candidate_failure_iff:
  "candidate_failure g modules work (i, d) = Some f \<longleftrightarrow>
     (\<exists>m owner. outcome_of g modules d (wi_context work) = BoundaryFailure m owner \<and>
        f = (m, owner, d, wi_dependency_path work @ [pd_type_name d]))"
  by (auto simp: candidate_failure_def outcome_of_def split: candidate_outcome.splits)

lemma candidates_for_keys:
  "work_key ` set (ca_admissible (candidates_for g modules descriptors work t)) =
     admitted_keys g modules descriptors (wi_context work) t"
proof (intro set_eqI iffI)
  fix k assume "k \<in> work_key ` set (ca_admissible (candidates_for g modules descriptors work t))"
  then obtain i d w where "(i, d) \<in> set (declarations_of descriptors t)"
    "candidate_item g modules work (i, d) = Some w" "k = work_key w"
    by (auto simp: candidates_for_eq set_filter_map)
  then show "k \<in> admitted_keys g modules descriptors (wi_context work) t"
    by (auto simp: set_declarations_of candidate_item_iff admitted_keys_def work_key_def)
next
  fix k assume "k \<in> admitted_keys g modules descriptors (wi_context work) t"
  then obtain j c' where j: "k = (j, c')" "(j, descriptors ! j) \<in> set (declarations_of descriptors t)"
    "outcome_of g modules (descriptors ! j) (wi_context work) = Admissible c'"
    by (auto simp: admitted_keys_def set_declarations_of)
  then obtain w where "candidate_item g modules work (j, descriptors ! j) = Some w" "work_key w = k"
    by (auto simp: candidate_item_iff work_key_def)
  with j(2) show "k \<in> work_key ` set (ca_admissible (candidates_for g modules descriptors work t))"
    unfolding candidates_for_eq candidates.simps set_filter_map by blast
qed

lemma candidates_for_found:
  "ca_found (candidates_for g modules descriptors work t) \<longleftrightarrow> t \<in> pd_type_id ` set descriptors"
proof -
  have "declarations_of descriptors t \<noteq> [] \<longleftrightarrow> (\<exists>d j. (j, d) \<in> set (declarations_of descriptors t))"
    by (metis list.set_intros(1) list.set_cases neq_Nil_conv surj_pair)
  then show ?thesis by (auto simp: candidates_for_eq declared_iff)
qed

lemma candidates_for_failures:
  "set (ca_failures (candidates_for g modules descriptors work t)) =
     {(m, owner, d, wi_dependency_path work @ [pd_type_name d]) | m owner d.
        d \<in> set descriptors \<and> pd_type_id d = t \<and>
        outcome_of g modules d (wi_context work) = BoundaryFailure m owner}"
proof -
  have "set (ca_failures (candidates_for g modules descriptors work t)) =
      {f. \<exists>d. (\<exists>j. (j, d) \<in> set (declarations_of descriptors t)) \<and>
        (\<exists>m owner. outcome_of g modules d (wi_context work) = BoundaryFailure m owner \<and>
          f = (m, owner, d, wi_dependency_path work @ [pd_type_name d]))}"
    unfolding candidates_for_eq candidates.simps set_filter_map
    by (auto simp: candidate_failure_iff) (use candidate_failure_iff in blast)
  then show ?thesis unfolding declared_iff by blast
qed

lemma candidates_for_outside:
  "ca_outside (candidates_for g modules descriptors work t) \<longleftrightarrow>
     (\<exists>d\<in>set descriptors. pd_type_id d = t \<and> outcome_of g modules d (wi_context work) = OwnedOutsideScope)"
proof -
  have "ca_outside (candidates_for g modules descriptors work t) \<longleftrightarrow>
      (\<exists>d. (\<exists>j. (j, d) \<in> set (declarations_of descriptors t)) \<and>
        outcome_of g modules d (wi_context work) = OwnedOutsideScope)"
    unfolding candidates_for_eq candidates.simps outcome_of_def by blast
  then show ?thesis unfolding declared_iff by blast
qed

lemma failure_context:
  "outcome_of g modules d c = BoundaryFailure m owner \<Longrightarrow> c = Some m"
  unfolding outcome_of_def
  by (cases "owner_of (pd_namespace d) modules"; cases c) (auto split: if_splits)

lemma boundary_error_ok:
  assumes "is_reachable g m"
  obtains e where "boundary_error g m owner d path = Inr e" "diag_code e = MADS009"
proof -
  obtain n where "find (\<lambda>n. mn_type_id n = m) (mg_modules g) = Some n"
    using assms by (cases "find (\<lambda>n. mn_type_id n = m) (mg_modules g)")
      (auto simp: find_None_iff is_reachable_def list_ex_iff)
  then obtain e where "boundary_error g m owner d path = Inr e" "diag_code e = MADS009"
    by (simp add: boundary_error_def Let_def diagnostic_builders)
  then show thesis by (rule that)
qed

lemma boundary_errors_ok:
  assumes "\<forall>(m, owner, d, path)\<in>set fs. is_reachable g m"
  shows "\<exists>es. try_map (\<lambda>(m, owner, d, path). boundary_error g m owner d path) fs = Inr es \<and>
    (es = [] \<longleftrightarrow> fs = []) \<and> (\<forall>e\<in>set es. diag_code e = MADS009)"
  using assms
proof (induction fs)
  case (Cons f fs)
  obtain m owner d path where f: "f = (m, owner, d, path)" by (cases f) auto
  with Cons.prems obtain e where "boundary_error g m owner d path = Inr e" "diag_code e = MADS009"
    using boundary_error_ok [of g m owner d path] by auto
  with Cons f show ?case by auto
qed simp

lemma admitted_or_blocked:
  assumes "t \<in> pd_type_id ` set descriptors"
  shows "admitted_keys g modules descriptors c t = {} \<longleftrightarrow> blocked g modules descriptors c t"
proof -
  have "(\<exists>k. k \<in> admitted_keys g modules descriptors c t) \<longleftrightarrow>
      (\<exists>d\<in>set descriptors. pd_type_id d = t \<and> (\<exists>c'. outcome_of g modules d c = Admissible c'))"
    unfolding admitted_keys_def Bex_def in_set_conv_nth by auto
  then show ?thesis using assms unfolding blocked_def by blast
qed

text \<open>What processing a set of dependency types in a context does to the state.\<close>

definition round_effect ::
    "module_graph \<Rightarrow> module_descriptor list \<Rightarrow> provider_descriptor list \<Rightarrow> type_id option \<Rightarrow> type_id set \<Rightarrow>
     scope_state \<Rightarrow> scope_state \<Rightarrow> bool" where
  "round_effect g modules descriptors c T s t \<longleftrightarrow>
     sc_processed t = sc_processed s \<and> sc_selected_indices t = sc_selected_indices s \<and>
     sc_selected t = sc_selected s \<and>
     work_key ` set (sc_queue t) = work_key ` set (sc_queue s) \<union>
       (\<Union>u\<in>T. admitted_keys g modules descriptors c u) \<and>
     set (sc_covered_missing t) = set (sc_covered_missing s) \<union>
       {u \<in> T. blocked g modules descriptors c u} \<and>
     (\<exists>es. sc_diagnostics t = sc_diagnostics s @ es \<and> (\<forall>e\<in>set es. diag_code e = MADS009) \<and>
        (es = [] \<longleftrightarrow> (\<forall>u\<in>T. \<not> forbidden g modules descriptors c u)))"

lemma round_effect_trans:
  assumes "round_effect g modules descriptors c T s t" "round_effect g modules descriptors c U t u"
  shows "round_effect g modules descriptors c (T \<union> U) s u"
proof -
  obtain es where es: "sc_diagnostics t = sc_diagnostics s @ es" "\<forall>e\<in>set es. diag_code e = MADS009"
    "es = [] \<longleftrightarrow> (\<forall>u\<in>T. \<not> forbidden g modules descriptors c u)"
    using assms(1) by (auto simp: round_effect_def)
  obtain fs where fs: "sc_diagnostics u = sc_diagnostics t @ fs" "\<forall>e\<in>set fs. diag_code e = MADS009"
    "fs = [] \<longleftrightarrow> (\<forall>u\<in>U. \<not> forbidden g modules descriptors c u)"
    using assms(2) by (auto simp: round_effect_def)
  have "\<exists>es. sc_diagnostics u = sc_diagnostics s @ es \<and> (\<forall>e\<in>set es. diag_code e = MADS009) \<and>
      (es = [] \<longleftrightarrow> (\<forall>u\<in>T \<union> U. \<not> forbidden g modules descriptors c u))"
    using es fs by (intro exI [of _ "es @ fs"]) auto
  with assms show ?thesis by (auto simp: round_effect_def)
qed

lemma dependency_work_ok:
  assumes "\<And>m. wi_context work = Some m \<Longrightarrow> is_reachable g m"
  shows "\<exists>t. dependency_work g modules descriptors sat work x s = Inr t \<and>
    round_effect g modules descriptors (wi_context work) ({dep_type_id x} - sat) s t"
proof (cases "dep_type_id x \<in> sat")
  case True
  then show ?thesis by (auto simp: dependency_work_def round_effect_def)
next
  case False
  let ?t = "dep_type_id x"
  let ?c = "candidates_for g modules descriptors work ?t"
  have keys: "ca_admissible ?c = [] \<longleftrightarrow> admitted_keys g modules descriptors (wi_context work) ?t = {}"
    unfolding candidates_for_keys [symmetric] by simp
  have "\<forall>(m, owner, d, path)\<in>set (ca_failures ?c). is_reachable g m"
    using assms failure_context by (fastforce simp: candidates_for_failures)
  then obtain es where es: "try_map (\<lambda>(m, owner, d, path). boundary_error g m owner d path) (ca_failures ?c) = Inr es"
    "es = [] \<longleftrightarrow> ca_failures ?c = []" "\<forall>e\<in>set es. diag_code e = MADS009"
    using boundary_errors_ok by blast
  have failures: "ca_failures ?c = [] \<longleftrightarrow> \<not> (\<exists>d\<in>set descriptors. pd_type_id d = ?t \<and>
      (\<exists>m owner. outcome_of g modules d (wi_context work) = BoundaryFailure m owner))"
    using candidates_for_failures [of g modules descriptors work ?t] by (auto simp: set_empty [symmetric] simp del: set_empty)
  show ?thesis
  proof (cases "ca_admissible ?c = []")
    case True
    have covered: "ca_found ?c \<and> (ca_outside ?c \<or> ca_failures ?c \<noteq> []) \<longleftrightarrow>
        blocked g modules descriptors (wi_context work) ?t"
    proof
      assume "ca_found ?c \<and> (ca_outside ?c \<or> ca_failures ?c \<noteq> [])"
      then show "blocked g modules descriptors (wi_context work) ?t"
        using True keys admitted_or_blocked [of ?t descriptors g modules "wi_context work"]
        unfolding candidates_for_found by simp
    next
      assume b: "blocked g modules descriptors (wi_context work) ?t"
      then obtain d where d: "d \<in> set descriptors" "pd_type_id d = ?t" by (auto simp: blocked_def)
      with b have "ca_outside ?c \<or> ca_failures ?c \<noteq> []"
        unfolding candidates_for_outside failures
        by (cases "outcome_of g modules d (wi_context work)") (auto simp: blocked_def)
      with d show "ca_found ?c \<and> (ca_outside ?c \<or> ca_failures ?c \<noteq> [])"
        unfolding candidates_for_found by (metis imageI)
    qed
    have "ca_found ?c" if "d \<in> set descriptors" "pd_type_id d = ?t" for d
      unfolding candidates_for_found using that by (metis imageI)
    then have forbid: "es = [] \<longleftrightarrow> \<not> forbidden g modules descriptors (wi_context work) ?t"
      using covered failures unfolding es(2) forbidden_def by blast
    have "admitted_keys g modules descriptors (wi_context work) ?t = {}" using True keys by simp
    let ?covered = "if blocked g modules descriptors (wi_context work) ?t \<and> ?t \<notin> set (sc_covered_missing s)
        then sc_covered_missing s @ [?t] else sc_covered_missing s"
    have "dependency_work g modules descriptors sat work x s =
        Inr (s\<lparr>sc_diagnostics := sc_diagnostics s @ es, sc_covered_missing := ?covered\<rparr>)"
      unfolding dependency_work_def Let_def covered [symmetric] using False True es(1) by simp
    moreover have "round_effect g modules descriptors (wi_context work) ({?t} - sat) s
        (s\<lparr>sc_diagnostics := sc_diagnostics s @ es, sc_covered_missing := ?covered\<rparr>)"
      using False es(3) forbid \<open>admitted_keys _ _ _ _ _ = {}\<close> by (auto simp: round_effect_def)
    ultimately show ?thesis by blast
  next
    case admissible: False
    then have "\<not> blocked g modules descriptors (wi_context work) ?t"
      using keys admitted_or_blocked [of ?t descriptors g modules "wi_context work"]
      by (auto simp: blocked_def)
    then have "\<not> forbidden g modules descriptors (wi_context work) ?t" by (simp add: forbidden_def)
    moreover have "dependency_work g modules descriptors sat work x s =
        Inr (s\<lparr>sc_queue := sc_queue s @ ca_admissible ?c\<rparr>)"
      using False admissible by (simp add: dependency_work_def Let_def)
    moreover have "{?t} - sat = {?t}" using False by auto
    ultimately show ?thesis
      using \<open>\<not> blocked g modules descriptors (wi_context work) ?t\<close>
      by (simp add: round_effect_def image_Un candidates_for_keys conj_commute cong: conj_cong)
  qed
qed

section \<open>The worklist invariant\<close>

definition dep_types :: "provider_descriptor list \<Rightarrow> type_id set \<Rightarrow> nat \<Rightarrow> type_id set" where
  "dep_types descriptors sat i = dep_type_id ` set (pd_dependencies (descriptors ! i)) - sat"

text \<open>The pairs that a processed pair hands on.\<close>

definition successors ::
    "module_graph \<Rightarrow> module_descriptor list \<Rightarrow> provider_descriptor list \<Rightarrow> type_id set \<Rightarrow>
     nat \<times> type_id option \<Rightarrow> (nat \<times> type_id option) set" where
  "successors g modules descriptors sat = (\<lambda>(i, c).
     \<Union>u\<in>dep_types descriptors sat i. admitted_keys g modules descriptors c u)"

definition owned_keys ::
    "module_graph \<Rightarrow> module_descriptor list \<Rightarrow> provider_descriptor list \<Rightarrow> type_id set \<Rightarrow>
     (nat \<times> type_id option) set" where
  "owned_keys g modules descriptors sat =
     {(i, Some (md_type_id m)) | i m. i < length descriptors \<and> pd_type_id (descriptors ! i) \<notin> sat \<and>
        owner_of (pd_namespace (descriptors ! i)) modules = Some m \<and> is_reachable g (md_type_id m)}"

definition visible_keys ::
    "module_graph \<Rightarrow> module_descriptor list \<Rightarrow> provider_descriptor list \<Rightarrow> type_id set \<Rightarrow>
     (nat \<times> type_id option) set" where
  "visible_keys g modules descriptors sat = {(i, c). visible g modules descriptors sat i c}"

text \<open>The selected descriptors are those at the selected positions, each position once.\<close>

definition selection_ok :: "provider_descriptor list \<Rightarrow> scope_state \<Rightarrow> bool" where
  "selection_ok descriptors s \<longleftrightarrow>
     (\<exists>is. distinct is \<and> set is = sc_selected_indices s \<and> sc_selected s = map ((!) descriptors) is)"

lemma selection_ok_queue [simp]:
  "selection_ok descriptors (s\<lparr>sc_queue := q\<rparr>) = selection_ok descriptors s"
  by (simp add: selection_ok_def)

definition scope_inv ::
    "module_graph \<Rightarrow> module_descriptor list \<Rightarrow> provider_descriptor list \<Rightarrow> type_id set \<Rightarrow>
     scope_state \<Rightarrow> bool" where
  "scope_inv g modules descriptors sat s \<longleftrightarrow>
     sc_processed s \<union> work_key ` set (sc_queue s) \<subseteq> visible_keys g modules descriptors sat \<and>
     owned_keys g modules descriptors sat \<subseteq> sc_processed s \<union> work_key ` set (sc_queue s) \<and>
     (\<forall>k\<in>sc_processed s. successors g modules descriptors sat k \<subseteq>
        sc_processed s \<union> work_key ` set (sc_queue s)) \<and>
     sc_selected_indices s = fst ` sc_processed s \<and>
     selection_ok descriptors s \<and>
     set (sc_covered_missing s) =
       {u. \<exists>(i, c)\<in>sc_processed s. u \<in> dep_types descriptors sat i \<and> blocked g modules descriptors c u} \<and>
     (\<forall>e\<in>set (sc_diagnostics s). diag_code e = MADS009) \<and>
     (sc_diagnostics s = [] \<longleftrightarrow>
       (\<forall>(i, c)\<in>sc_processed s. \<forall>u\<in>dep_types descriptors sat i. \<not> forbidden g modules descriptors c u))"

lemma successors_visible:
  assumes "k \<in> visible_keys g modules descriptors sat"
  shows "successors g modules descriptors sat k \<subseteq> visible_keys g modules descriptors sat"
  using assms
  by (auto simp: successors_def visible_keys_def dep_types_def admitted_keys_def outcome_of_def
      intro: visible.admitted)

lemma owned_visible: "owned_keys g modules descriptors sat \<subseteq> visible_keys g modules descriptors sat"
  by (auto simp: owned_keys_def visible_keys_def intro: visible.owned)

text \<open>The visible pairs are the least set that holds the owned ones and is closed.\<close>

lemma visible_least:
  assumes "owned_keys g modules descriptors sat \<subseteq> S"
    and "\<forall>k\<in>S. successors g modules descriptors sat k \<subseteq> S"
  shows "visible_keys g modules descriptors sat \<subseteq> S"
proof -
  have "(i, c) \<in> S" if "visible g modules descriptors sat i c" for i c
    using that
  proof (induction rule: visible.induct)
    case (owned i m)
    then show ?case using assms(1) unfolding owned_keys_def by blast
  next
    case (admitted i c x j c')
    then have "(j, c') \<in> successors g modules descriptors sat (i, c)"
      by (auto simp: successors_def dep_types_def admitted_keys_def outcome_of_def)
    with admitted.IH assms(2) show ?case by blast
  qed
  then show ?thesis by (auto simp: visible_keys_def)
qed

lemma process_work_ok:
  assumes "\<And>m. wi_context work = Some m \<Longrightarrow> is_reachable g m"
  obtains s' t where "process_work g modules descriptors sat work s = Inr t"
    "round_effect g modules descriptors (wi_context work) (dep_types descriptors sat (wi_descriptor_index work)) s' t"
    "s' = (if wi_descriptor_index work \<in> sc_selected_indices s then s
       else s\<lparr>sc_selected_indices := insert (wi_descriptor_index work) (sc_selected_indices s),
         sc_selected := sc_selected s @ [descriptors ! wi_descriptor_index work]\<rparr>)"
proof -
  have fold: "\<exists>t. try_fold (dependency_work g modules descriptors sat work) xs s = Inr t \<and>
      round_effect g modules descriptors (wi_context work) (dep_type_id ` set xs - sat) s t" for xs s
  proof (induction xs arbitrary: s)
    case (Cons x xs)
    obtain t where t: "dependency_work g modules descriptors sat work x s = Inr t"
      "round_effect g modules descriptors (wi_context work) ({dep_type_id x} - sat) s t"
      using dependency_work_ok [OF assms] by blast
    obtain u where u: "try_fold (dependency_work g modules descriptors sat work) xs t = Inr u"
      "round_effect g modules descriptors (wi_context work) (dep_type_id ` set xs - sat) t u"
      using Cons.IH by blast
    have "{dep_type_id x} - sat \<union> (dep_type_id ` set xs - sat) = dep_type_id ` set (x # xs) - sat" by auto
    with round_effect_trans [OF t(2) u(2)] t(1) u(1) show ?case by auto
  qed (auto simp: round_effect_def)
  let ?s = "if wi_descriptor_index work \<in> sc_selected_indices s then s
       else s\<lparr>sc_selected_indices := insert (wi_descriptor_index work) (sc_selected_indices s),
         sc_selected := sc_selected s @ [descriptors ! wi_descriptor_index work]\<rparr>"
  obtain t where "try_fold (dependency_work g modules descriptors sat work)
      (pd_dependencies (descriptors ! wi_descriptor_index work)) ?s = Inr t"
    "round_effect g modules descriptors (wi_context work)
      (dep_types descriptors sat (wi_descriptor_index work)) ?s t"
    using fold unfolding dep_types_def by blast
  then show thesis by (intro that [of t ?s]) (simp_all add: process_work_def Let_def)
qed

lemma scope_inv_step:
  assumes inv: "scope_inv g modules descriptors sat s" and queue: "sc_queue s = work # rest"
    and new: "work_key work \<notin> sc_processed s"
    and s0: "s0 = s\<lparr>sc_queue := rest, sc_processed := insert (work_key work) (sc_processed s)\<rparr>"
    and s1: "s1 = (if wi_descriptor_index work \<in> sc_selected_indices s0 then s0
       else s0\<lparr>sc_selected_indices := insert (wi_descriptor_index work) (sc_selected_indices s0),
         sc_selected := sc_selected s0 @ [descriptors ! wi_descriptor_index work]\<rparr>)"
    and effect: "round_effect g modules descriptors (wi_context work)
      (dep_types descriptors sat (wi_descriptor_index work)) s1 t"
  shows "scope_inv g modules descriptors sat t"
proof -
  let ?i = "wi_descriptor_index work" and ?c = "wi_context work"
  let ?new = "successors g modules descriptors sat (work_key work)"
  have key: "work_key work = (?i, ?c)" by (simp add: work_key_def)
  have s1_eq: "sc_queue s1 = rest" "sc_processed s1 = insert (work_key work) (sc_processed s)"
    "sc_covered_missing s1 = sc_covered_missing s" "sc_diagnostics s1 = sc_diagnostics s"
    "sc_selected_indices s1 = insert ?i (sc_selected_indices s)"
    by (auto simp: s0 s1)
  have processed: "sc_processed t = insert (work_key work) (sc_processed s)"
    and keys: "work_key ` set (sc_queue t) = work_key ` set rest \<union> ?new"
    using effect s1_eq by (auto simp: round_effect_def successors_def key)
  have all: "sc_processed t \<union> work_key ` set (sc_queue t) =
      sc_processed s \<union> work_key ` set (sc_queue s) \<union> ?new"
    unfolding processed keys queue by auto
  have work: "work_key work \<in> visible_keys g modules descriptors sat"
    using inv queue by (auto simp: scope_inv_def)
  have old: "sc_processed s \<union> work_key ` set (sc_queue s) \<subseteq> visible_keys g modules descriptors sat"
    "owned_keys g modules descriptors sat \<subseteq> sc_processed s \<union> work_key ` set (sc_queue s)"
    using inv unfolding scope_inv_def by blast+
  have "?new \<subseteq> visible_keys g modules descriptors sat" by (rule successors_visible [OF work])
  with old have "sc_processed t \<union> work_key ` set (sc_queue t) \<subseteq> visible_keys g modules descriptors sat"
    "owned_keys g modules descriptors sat \<subseteq> sc_processed t \<union> work_key ` set (sc_queue t)"
    unfolding all by auto
  moreover have "\<forall>k\<in>sc_processed t. successors g modules descriptors sat k \<subseteq>
      sc_processed t \<union> work_key ` set (sc_queue t)"
  proof -
    have "\<forall>k\<in>sc_processed s. successors g modules descriptors sat k \<subseteq>
        sc_processed s \<union> work_key ` set (sc_queue s)" using inv by (simp add: scope_inv_def)
    then show ?thesis unfolding all unfolding processed by auto
  qed
  moreover have "selection_ok descriptors t"
  proof -
    have "selection_ok descriptors s" using inv by (simp add: scope_inv_def)
    then obtain "is" where "is": "distinct is" "set is = sc_selected_indices s" "sc_selected s = map ((!) descriptors) is"
      unfolding selection_ok_def by blast
    then show ?thesis
      using effect unfolding round_effect_def s1_eq selection_ok_def
      by (intro exI [of _ "if ?i \<in> sc_selected_indices s then is else is @ [?i]"]) (auto simp: s0 s1)
  qed
  moreover have "sc_selected_indices t = fst ` sc_processed t"
    using effect inv unfolding round_effect_def s1_eq processed key scope_inv_def by auto
  moreover have "set (sc_covered_missing t) =
      {u. \<exists>(i, c)\<in>sc_processed t. u \<in> dep_types descriptors sat i \<and> blocked g modules descriptors c u}"
    using effect inv unfolding round_effect_def s1_eq processed key scope_inv_def by auto
  moreover have "\<forall>e\<in>set (sc_diagnostics t). diag_code e = MADS009"
    using effect inv unfolding round_effect_def s1_eq scope_inv_def by auto
  moreover have "sc_diagnostics t = [] \<longleftrightarrow>
      (\<forall>(i, c)\<in>sc_processed t. \<forall>u\<in>dep_types descriptors sat i. \<not> forbidden g modules descriptors c u)"
    using effect inv unfolding round_effect_def s1_eq processed key scope_inv_def by auto
  ultimately show ?thesis
    unfolding scope_inv_def by (intro conjI)
qed

lemma scope_loop_inv:
  assumes "module_graph_ok g" "scope_inv g modules descriptors sat s"
  shows "\<exists>t. scope_loop g modules descriptors sat s = Inr t \<and> scope_inv g modules descriptors sat t \<and>
    sc_queue t = []"
  using assms
proof (induction g modules descriptors sat s rule: scope_loop.induct)
  case (1 g modules descriptors sat s)
  show ?case
  proof (cases "sc_queue s")
    case Nil
    with 1(4) show ?thesis by (simp add: scope_loop.simps [of _ _ _ _ s])
  next
    case (Cons work rest)
    show ?thesis
    proof (cases "work_key work \<in> sc_processed s")
      case True
      have "scope_inv g modules descriptors sat (s\<lparr>sc_queue := rest\<rparr>)"
      proof -
        have "sc_processed s \<union> work_key ` set (sc_queue s) = sc_processed s \<union> work_key ` set rest"
          using True by (auto simp: Cons)
        then show ?thesis using 1(4) by (simp add: scope_inv_def)
      qed
      from 1(1) [OF Cons True 1(3) this] Cons True show ?thesis
        by (simp add: scope_loop.simps [of _ _ _ _ s])
    next
      case False
      let ?s0 = "s\<lparr>sc_queue := rest, sc_processed := insert (work_key work) (sc_processed s)\<rparr>"
      have "work_key work \<in> visible_keys g modules descriptors sat"
        using 1(4) Cons by (auto simp: scope_inv_def)
      then have ctx: "\<And>m. wi_context work = Some m \<Longrightarrow> is_reachable g m"
        using visible_context [OF 1(3)] by (auto simp: visible_keys_def work_key_def)
      obtain s1 t where t: "process_work g modules descriptors sat work ?s0 = Inr t"
        "round_effect g modules descriptors (wi_context work)
          (dep_types descriptors sat (wi_descriptor_index work)) s1 t"
        "s1 = (if wi_descriptor_index work \<in> sc_selected_indices ?s0 then ?s0
          else ?s0\<lparr>sc_selected_indices := insert (wi_descriptor_index work) (sc_selected_indices ?s0),
            sc_selected := sc_selected ?s0 @ [descriptors ! wi_descriptor_index work]\<rparr>)"
        using process_work_ok [where work = work and s = ?s0 and g = g and modules = modules
            and descriptors = descriptors and sat = sat] ctx by metis
      have "scope_inv g modules descriptors sat t"
        by (rule scope_inv_step [OF 1(4) Cons False refl t(3,2)])
      from 1(2) [OF Cons False t(1) 1(3) this] Cons False t(1) show ?thesis
        by (simp add: scope_loop.simps [of _ _ _ _ s])
    qed
  qed
qed

section \<open>Correctness of the selection\<close>

lemma initial_queue_keys:
  "work_key ` set (initial_queue g modules descriptors sat) = owned_keys g modules descriptors sat"
proof (intro set_eqI iffI)
  fix k assume "k \<in> work_key ` set (initial_queue g modules descriptors sat)"
  then show "k \<in> owned_keys g modules descriptors sat"
    by (auto simp: initial_queue_def set_filter_map in_set_enumerate_eq owned_keys_def work_key_def
        split: if_splits option.splits)
next
  fix k assume "k \<in> owned_keys g modules descriptors sat"
  then obtain i m where k: "k = (i, Some (md_type_id m))" "i < length descriptors"
    "pd_type_id (descriptors ! i) \<notin> sat" "owner_of (pd_namespace (descriptors ! i)) modules = Some m"
    "is_reachable g (md_type_id m)" by (auto simp: owned_keys_def)
  let ?w = "\<lparr>wi_descriptor_index = i, wi_context = Some (md_type_id m),
      wi_dependency_path = [pd_type_name (descriptors ! i)]\<rparr>"
  have "(i, descriptors ! i) \<in> set (List.enumerate 0 descriptors)" using k(2) by (simp add: in_set_enumerate_eq)
  then have "?w \<in> set (initial_queue g modules descriptors sat)"
    using k by (auto simp: initial_queue_def set_filter_map intro!: bexI [of _ "(i, descriptors ! i)"])
  moreover have "work_key ?w = k" by (simp add: work_key_def k(1))
  ultimately show "k \<in> work_key ` set (initial_queue g modules descriptors sat)" by blast
qed

lemma select_scoped_providers_correct:
  assumes "module_graph_ok g"
  shows "let modules = catalog_modules registered; sat = sp_type_id ` set satisfied in
    \<exists>c. select_scoped_providers g registered descriptors satisfied = Inr c \<and>
    set (scoped_descriptors c) =
      {descriptors ! i | i. \<exists>ctx. visible g modules descriptors sat i ctx} \<and>
    set (scoped_covered_missing c) =
      {t. \<exists>i ctx. visible g modules descriptors sat i ctx \<and> t \<in> dep_types descriptors sat i \<and>
         blocked g modules descriptors ctx t} \<and>
    (\<forall>e\<in>set (scoped_diagnostics c). diag_code e = MADS009) \<and>
    (scoped_diagnostics c = [] \<longleftrightarrow>
      (\<forall>i ctx. visible g modules descriptors sat i ctx \<longrightarrow>
         (\<forall>t\<in>dep_types descriptors sat i. \<not> forbidden g modules descriptors ctx t)))"
proof -
  define modules where "modules = catalog_modules registered"
  define sat where "sat = sp_type_id ` set satisfied"
  define start where "start = \<lparr>sc_queue = initial_queue g modules descriptors sat, sc_processed = {},
    sc_selected_indices = {}, sc_selected = [], sc_diagnostics = [], sc_covered_missing = []\<rparr>"
  have "selection_ok descriptors start" by (simp add: selection_ok_def start_def)
  then have "scope_inv g modules descriptors sat start"
    using initial_queue_keys [of g modules descriptors sat] owned_visible
    by (simp add: scope_inv_def start_def)
  then obtain t where t: "scope_loop g modules descriptors sat start = Inr t"
    "scope_inv g modules descriptors sat t" "sc_queue t = []"
    using scope_loop_inv [OF assms(1)] by blast
  have inv: "sc_processed t \<subseteq> visible_keys g modules descriptors sat"
    "owned_keys g modules descriptors sat \<subseteq> sc_processed t"
    "\<forall>k\<in>sc_processed t. successors g modules descriptors sat k \<subseteq> sc_processed t"
    using t(2) unfolding scope_inv_def t(3) by simp_all
  then have processed: "sc_processed t = visible_keys g modules descriptors sat"
    using visible_least [OF inv(2,3)] by blast
  have indices: "sc_selected_indices t = {i. \<exists>ctx. visible g modules descriptors sat i ctx}"
  proof -
    have "sc_selected_indices t = fst ` sc_processed t" using t(2) by (simp add: scope_inv_def)
    also have "\<dots> = {i. \<exists>ctx. (i, ctx) \<in> visible_keys g modules descriptors sat}"
      unfolding processed by (rule Domain_fst [unfolded Domain_unfold, symmetric])
    finally show ?thesis by (simp add: visible_keys_def)
  qed
  have "selection_ok descriptors t" using t(2) by (simp add: scope_inv_def)
  then have "set (sc_selected t) = (!) descriptors ` sc_selected_indices t"
    by (auto simp: selection_ok_def)
  then have selected: "set (sc_selected t) = {descriptors ! i | i. \<exists>ctx. visible g modules descriptors sat i ctx}"
    unfolding indices by blast
  have covered: "set (sc_covered_missing t) =
      {u. \<exists>(i, c)\<in>visible_keys g modules descriptors sat.
        u \<in> dep_types descriptors sat i \<and> blocked g modules descriptors c u}"
    and codes: "\<forall>e\<in>set (sc_diagnostics t). diag_code e = MADS009"
    and none: "sc_diagnostics t = [] \<longleftrightarrow> (\<forall>(i, c)\<in>visible_keys g modules descriptors sat.
        \<forall>u\<in>dep_types descriptors sat i. \<not> forbidden g modules descriptors c u)"
    using t(2) unfolding scope_inv_def processed by blast+
  show ?thesis
    using t(1) selected covered codes none
    unfolding select_scoped_providers_def Let_def modules_def [symmetric] sat_def [symmetric]
      start_def [symmetric]
    by (auto simp: visible_keys_def)
qed

text \<open>
  Without a diagnostic, a provider of one module depends on a provider that another module owns
  only when the owner is imported directly and the provider is public.
\<close>

text \<open>The context of visible work is always a module, so an unreported boundary is never crossed.\<close>

lemma visible_in_module: "visible g modules descriptors sat i c \<Longrightarrow> \<exists>m. c = Some m"
proof (induction rule: visible.induct)
  case (admitted i c x j c')
  then show ?case
    by (cases "owner_of (pd_namespace (descriptors ! j)) modules") (auto split: if_splits)
qed simp

lemma unreported_uncovered:
  assumes "module_graph_ok g" "select_scoped_providers g registered descriptors satisfied = Inr c"
    and "scoped_diagnostics c = []"
  shows "scoped_covered_missing c = []"
proof (rule ccontr)
  let ?modules = "catalog_modules registered" and ?sat = "sp_type_id ` set satisfied"
  assume "scoped_covered_missing c \<noteq> []"
  then have "hd (scoped_covered_missing c) \<in> set (scoped_covered_missing c)" by (rule hd_in_set)
  then obtain t where "t \<in> set (scoped_covered_missing c)" by blast
  then obtain i ctx where i: "visible g ?modules descriptors ?sat i ctx" "t \<in> dep_types descriptors ?sat i"
    "blocked g ?modules descriptors ctx t"
    using select_scoped_providers_correct [OF assms(1), where registered = registered
        and descriptors = descriptors and satisfied = satisfied] assms(2)
    by (auto simp: Let_def)
  obtain m where m: "ctx = Some m" using visible_in_module [OF i(1)] by blast
  obtain d where d: "d \<in> set descriptors" "pd_type_id d = t" using i(3) by (auto simp: blocked_def)
  then have "\<forall>c'. outcome_of g ?modules d ctx \<noteq> Admissible c'" using i(3) by (auto simp: blocked_def)
  then have "\<exists>m' owner. outcome_of g ?modules d ctx = BoundaryFailure m' owner"
    unfolding outcome_of_def m
    by (cases "owner_of (pd_namespace d) ?modules") (auto split: if_splits)
  then have "forbidden g ?modules descriptors ctx t" using i(3) d unfolding forbidden_def by blast
  then show False
    using select_scoped_providers_correct [OF assms(1), where registered = registered
        and descriptors = descriptors and satisfied = satisfied] assms(2,3) i(1,2)
    by (auto simp: Let_def)
qed

lemma selection_respects_boundary:
  assumes "module_graph_ok g"
    and "select_scoped_providers g registered descriptors satisfied = Inr c" "scoped_diagnostics c = []"
    and "visible g (catalog_modules registered) descriptors (sp_type_id ` set satisfied) i (Some m)"
    and "x \<in> set (pd_dependencies (descriptors ! i))" "dep_type_id x \<notin> sp_type_id ` set satisfied"
    and "d \<in> set descriptors" "\<forall>d'\<in>set descriptors. pd_type_id d' = dep_type_id x \<longleftrightarrow> d' = d"
    and "owner_of (pd_namespace d) (catalog_modules registered) = Some owner"
  shows "md_type_id owner = m \<or> pd_visibility d = Public \<and> directly_imports g m (md_type_id owner)"
proof (rule ccontr)
  let ?modules = "catalog_modules registered"
  assume no: "\<not> ?thesis"
  then have out: "outcome_of g ?modules d (Some m) = BoundaryFailure m owner"
    by (simp add: outcome_of_def assms(9) can_access_def)
  have d: "pd_type_id d = dep_type_id x" using assms(7,8) by blast
  have "blocked g ?modules descriptors (Some m) (dep_type_id x)"
    unfolding blocked_def using assms(7,8) d out by (metis candidate_outcome.distinct(1) imageI)
  then have "forbidden g ?modules descriptors (Some m) (dep_type_id x)"
    unfolding forbidden_def using assms(7) d out by blast
  moreover have "dep_type_id x \<in> dep_types descriptors (sp_type_id ` set satisfied) i"
    using assms(5,6) by (simp add: dep_types_def)
  ultimately show False
    using select_scoped_providers_correct [OF assms(1), where registered = registered
        and descriptors = descriptors and satisfied = satisfied]
      assms(2,3,4) by (auto simp: Let_def)
qed

section \<open>The properties\<close>

definition sample_owned :: "type_id \<Rightarrow> string \<Rightarrow> type_id list \<Rightarrow> string \<Rightarrow> provider_descriptor" where
  "sample_owned t name ts ns = provider_with_namespace ns (sample_descriptor t name ts)"

definition sample_modules :: "module_descriptor list" where
  "sample_modules =
     [module_with_imports [\<lparr>imp_type_name = ''Data'', imp_type_id = 11\<rparr>]
        (module_with_namespace ''app'' (module_descriptor_new ''App'' 10 sample_location)),
      module_with_namespace ''data'' (module_descriptor_new ''Data'' 11 sample_location)]"

definition sample_module_graph :: module_graph where
  "sample_module_graph =
     \<lparr>mg_root = 0,
      mg_modules =
        [\<lparr>mn_type_id = 10, mn_type_name = ''App'', mn_namespace = ''app'', mn_location = sample_location\<rparr>,
         \<lparr>mn_type_id = 11, mn_type_name = ''Data'', mn_namespace = ''data'', mn_location = sample_location\<rparr>],
      mg_imports = [\<lparr>mi_importer = 0, mi_imported = 1\<rparr>], mg_provider_ownership = []\<rparr>"

definition sample_providers :: "provider_descriptor list" where
  "sample_providers = [sample_owned 1 ''A'' [2] ''app'', sample_owned 2 ''B'' [] ''data'']"

lemma sample_module_graph_ok: "module_graph_ok sample_module_graph"
  by (simp add: module_graph_ok_def sample_module_graph_def)



text \<open>
  C11: Module boundaries hold. When the selection reports nothing, a provider that is constructed
  for a module depends on a provider owned by another module only if that module is imported
  directly and the provider is public.
\<close>

theorem boundary_respected:
  assumes "module_graph_ok g"
    and "select_scoped_providers g registered descriptors satisfied = Inr c" "scoped_diagnostics c = []"
    and "visible g (catalog_modules registered) descriptors (sp_type_id ` set satisfied) i (Some m)"
    and "x \<in> set (pd_dependencies (descriptors ! i))" "dep_type_id x \<notin> sp_type_id ` set satisfied"
    and "d \<in> set descriptors" "\<forall>d'\<in>set descriptors. pd_type_id d' = dep_type_id x \<longleftrightarrow> d' = d"
    and "owner_of (pd_namespace d) (catalog_modules registered) = Some owner"
  shows "md_type_id owner = m \<or> pd_visibility d = Public \<and> directly_imports g m (md_type_id owner)"
  by (rule selection_respects_boundary [OF assms])

theorem boundary_respected_witness:
  "owner_of (pd_namespace (sample_providers ! 1)) (catalog_modules sample_modules) = Some (sample_modules ! 1) \<and>
   (md_type_id (sample_modules ! 1) = 10 \<or>
    pd_visibility (sample_providers ! 1) = Public \<and>
      directly_imports sample_module_graph 10 (md_type_id (sample_modules ! 1)))"
proof -
  have owner: "owner_of (pd_namespace (sample_providers ! 1)) (catalog_modules sample_modules) =
      Some (sample_modules ! 1)" by code_simp
  have "case select_scoped_providers sample_module_graph sample_modules sample_providers [] of
      Inr c \<Rightarrow> scoped_diagnostics c = [] | Inl _ \<Rightarrow> False" by code_simp
  then obtain c where c: "select_scoped_providers sample_module_graph sample_modules sample_providers [] = Inr c"
    "scoped_diagnostics c = []" by (auto split: sum.splits)
  have "owner_of (pd_namespace (sample_providers ! 0)) (catalog_modules sample_modules) =
      Some (sample_modules ! 0)" by code_simp
  moreover have "is_reachable sample_module_graph (md_type_id (sample_modules ! 0))" by code_simp
  ultimately have visible: "visible sample_module_graph (catalog_modules sample_modules) sample_providers
      (sp_type_id ` set []) 0 (Some 10)"
    using visible.owned [of 0 sample_providers "sp_type_id ` set []" "catalog_modules sample_modules"
        "sample_modules ! 0" sample_module_graph]
    by (simp add: sample_providers_def sample_modules_def module_with_imports_def
        module_with_namespace_def module_descriptor_new_def)
  show ?thesis
    using owner boundary_respected [OF sample_module_graph_ok c visible, of "\<lparr>dep_type_name = ''T'', dep_type_id = 2\<rparr>"
        "sample_providers ! 1", OF _ _ _ _ owner]
    by (simp add: sample_providers_def sample_owned_def provider_with_namespace_def
        sample_descriptor_def provider_descriptor_new_def)
qed

end
