(* ===== verification/Builder.thy ===== *)
theory Builder
  imports Auto_Configuration Scope Graph_Analysis
begin

text \<open>
  The application builder (\<open>crates/mads-core/src/builder.rs\<close>) and the contexts that give
  constructors and running code access to providers (\<open>context.rs\<close>).

  A \<open>program\<close> is what is linked into the executable: the registered descriptors, the
  constructors that descriptors refer to, and the runtime type of the configuration. A constructor
  is user code: it sees the registry and the configuration, may act on the world \<open>'w\<close>, and gives
  an erased value or an error.

  The lemmas show that the builder operations keep the registry and the list of satisfied
  providers in step (\<open>builder_ok\<close>), that the analysis of a builder never panics, that an invalid
  application is rejected before anything is called, and that a valid one is built: whenever a
  constructor is called, all its dependencies are registered.
\<close>

section \<open>Contexts\<close>

record 'v construction_context =
  cc_registry :: "'v registry"
  cc_config :: config

definition construction_context_new :: "'v registry \<Rightarrow> config \<Rightarrow> 'v construction_context" where
  "construction_context_new registry config = \<lparr>cc_registry = registry, cc_config = config\<rparr>"

definition construction_resolve :: "type_id \<Rightarrow> string \<Rightarrow> 'v construction_context \<Rightarrow> error + 'v" where
  "construction_resolve t type_name c = resolve t type_name (cc_registry c)"

record 'v application_context =
  app_registry :: "'v registry"
  app_config :: config

definition application_context_new :: "'v registry \<Rightarrow> config \<Rightarrow> 'v application_context" where
  "application_context_new registry config = \<lparr>app_registry = registry, app_config = config\<rparr>"

definition application_resolve :: "type_id \<Rightarrow> string \<Rightarrow> 'v application_context \<Rightarrow> error + 'v" where
  "application_resolve t type_name c = resolve t type_name (app_registry c)"

section \<open>The linked program and the builder\<close>

record ('v, 'w) mads_program =
  pr_providers :: "provider_descriptor list"
  pr_modules :: "module_descriptor list"
  pr_auto :: "('v, 'w) auto_descriptor list"
  pr_constructor :: "constructor_ref \<Rightarrow> 'v construction_context \<Rightarrow> 'w \<Rightarrow> 'w \<times> (error + 'v erased_provider)"
  pr_config_type :: type_id
  pr_config_value :: "config \<Rightarrow> 'v"

definition config_type_name :: string where
  "config_type_name = ''mads_core::config::Config''"

record module_root =
  root_type_id :: type_id
  root_type_name :: string

record ('v, 'w) mads_builder =
  mb_config :: config
  mb_registry :: "'v registry"
  mb_satisfied :: "satisfied_provider list"
  mb_inputs :: "'v auto_inputs"
  mb_lifecycle :: "'w lifecycle_manager"
  mb_root :: "module_root option"

definition builder_new :: "('v, 'w) mads_program \<Rightarrow> config \<Rightarrow> panic + ('v, 'w) mads_builder" where
  "builder_new p config =
     (case registry_insert (pr_config_type p) config_type_name (pr_config_value p config) registry_new of
        Inl _ \<Rightarrow> Inl (Panic ''a new provider registry cannot already contain configuration'')
      | Inr registry \<Rightarrow> Inr
          \<lparr>mb_config = config, mb_registry = registry,
           mb_satisfied = [satisfied_provided (pr_config_type p) config_type_name],
           mb_inputs = inputs_new, mb_lifecycle = manager_new, mb_root = None\<rparr>)"

definition root_already_selected_error :: "string \<Rightarrow> string \<Rightarrow> error" where
  "root_already_selected_error existing attempted =
     error_new (with_subject attempted (diagnostic_new MADS008 ''application root already selected''
       (''a builder already selected `'' @ existing @ ''` and cannot select another root'')))"

definition builder_root ::
    "type_id \<Rightarrow> string \<Rightarrow> ('v, 'w) mads_builder \<Rightarrow> error + ('v, 'w) mads_builder" where
  "builder_root t type_name b =
     (case mb_root b of
        Some root \<Rightarrow> Inl (root_already_selected_error (root_type_name root) type_name)
      | None \<Rightarrow> Inr (b\<lparr>mb_root := Some \<lparr>root_type_id = t, root_type_name = type_name\<rparr>\<rparr>))"

definition builder_provide ::
    "type_id \<Rightarrow> string \<Rightarrow> 'v \<Rightarrow> ('v, 'w) mads_builder \<Rightarrow> error + ('v, 'w) mads_builder" where
  "builder_provide t type_name v b =
     and_then (registry_insert t type_name v (mb_registry b))
       (\<lambda>registry. Inr (b\<lparr>mb_registry := registry,
          mb_satisfied := mb_satisfied b @ [satisfied_provided t type_name]\<rparr>))"

definition builder_construct ::
    "('v, 'w) mads_program \<Rightarrow> type_id \<Rightarrow> string \<Rightarrow> ('v, 'w) mads_builder \<Rightarrow> 'w \<Rightarrow>
     'w \<times> (error + ('v, 'w) mads_builder)" where
  "builder_construct p t type_name b w =
     (case provider_for (pr_providers p) t type_name of
        Inl e \<Rightarrow> (w, Inl e)
      | Inr descriptor \<Rightarrow>
          (case pr_constructor p (pd_constructor descriptor)
              (construction_context_new (mb_registry b) (mb_config b)) w of
             (w, Inl e) \<Rightarrow> (w, Inl e)
           | (w, Inr v) \<Rightarrow>
               (w, and_then (insert_erased (pd_type_id descriptor) (pd_type_name descriptor) v (mb_registry b))
                 (\<lambda>registry. Inr (b\<lparr>mb_registry := registry,
                    mb_satisfied := mb_satisfied b @ [satisfied_preconstructed t type_name]\<rparr>)))))"

definition builder_input ::
    "type_id \<Rightarrow> string \<Rightarrow> 'v \<Rightarrow> ('v, 'w) mads_builder \<Rightarrow> ('v, 'w) mads_builder \<times> bool" where
  "builder_input t identifier v b =
     (case inputs_insert t identifier v (mb_inputs b) of
        (inputs, inserted) \<Rightarrow> (b\<lparr>mb_inputs := inputs\<rparr>, inserted))"

definition builder_lifecycle_hook :: "'w lifecycle_hook \<Rightarrow> ('v, 'w) mads_builder \<Rightarrow> ('v, 'w) mads_builder" where
  "builder_lifecycle_hook hook b = b\<lparr>mb_lifecycle := add_hook hook (mb_lifecycle b)\<rparr>"

definition builder_infrastructure_hook ::
    "string \<Rightarrow> 'w lifecycle_hook \<Rightarrow> ('v, 'w) mads_builder \<Rightarrow> ('v, 'w) mads_builder" where
  "builder_infrastructure_hook owner hook b =
     b\<lparr>mb_lifecycle := add_infrastructure_hook owner hook (mb_lifecycle b)\<rparr>"

section \<open>The analysis of a builder\<close>

record ('v, 'w) builder_analysis =
  ba_public :: graph_analysis
  ba_selected :: "('v, 'w) auto_descriptor list"
  ba_failure :: "error option"

definition analyze_complete_catalog ::
    "('v, 'w) mads_program \<Rightarrow> ('v, 'w) mads_builder \<Rightarrow> provider_descriptor list \<Rightarrow>
     panic + ('v, 'w) builder_analysis" where
  "analyze_complete_catalog p b providers =
     and_then
       (case validate_module_catalog (catalog_modules (pr_modules p)) of
          Inr _ \<Rightarrow> Inr []
        | Inl (Failed e) \<Rightarrow> Inr (err_diagnostics e)
        | Inl (Panicked panic) \<Rightarrow> Inl panic)
       (\<lambda>module_diagnostics.
     and_then (auto_analyze (auto_descriptors (pr_auto p)) providers (mb_satisfied b) (mb_config b)
         (mb_inputs b) None)
       (\<lambda>auto_configuration.
     let satisfied = mb_satisfied b @ aa_virtual_satisfied auto_configuration in
     and_then (analyze_catalog (pr_providers p) satisfied (aa_covered_missing auto_configuration))
       (\<lambda>public.
         let public = prepend_diagnostics module_diagnostics public;
             public = public\<lparr>ga_auto_configurations := aa_reports auto_configuration\<rparr>;
             public = append_diagnostics (aa_diagnostics auto_configuration) public in
         Inr \<lparr>ba_public = public, ba_selected = aa_selected auto_configuration,
           ba_failure = aa_failure auto_configuration\<rparr>)))"

definition add_missing_types :: "type_id list \<Rightarrow> type_id list \<Rightarrow> type_id list" where
  "add_missing_types types covered_missing =
     fold (\<lambda>t covered. if t \<notin> set covered then covered @ [t] else covered) types covered_missing"

definition analyze_rooted ::
    "('v, 'w) mads_program \<Rightarrow> ('v, 'w) mads_builder \<Rightarrow> provider_descriptor list \<Rightarrow> module_root \<Rightarrow>
     panic + ('v, 'w) builder_analysis" where
  "analyze_rooted p b providers root =
     (case build_module_graph (root_type_id root) (catalog_modules (pr_modules p)) of
        Inl (Panicked panic) \<Rightarrow> Inl panic
      | Inl (Failed e) \<Rightarrow>
          Inr \<lparr>ba_public = analysis_invalid (err_diagnostics e), ba_selected = [], ba_failure = None\<rparr>
      | Inr module_graph \<Rightarrow>
          and_then (select_scoped_providers module_graph (pr_modules p) providers (mb_satisfied b))
            (\<lambda>initial_scope.
          and_then (auto_analyze (auto_descriptors (pr_auto p)) (scoped_descriptors initial_scope)
              (mb_satisfied b) (mb_config b) (mb_inputs b) (Some module_graph))
            (\<lambda>auto_configuration.
          let satisfied = mb_satisfied b @ aa_virtual_satisfied auto_configuration in
          and_then (select_scoped_providers module_graph (pr_modules p) providers satisfied)
            (\<lambda>scoped.
          let covered_missing = add_missing_types (scoped_covered_missing scoped)
                (aa_covered_missing auto_configuration) in
          and_then (analyze_descriptors (scoped_descriptors scoped) satisfied covered_missing)
            (\<lambda>public.
              let public = prepend_diagnostics (scoped_diagnostics scoped) public;
                  public = append_diagnostics (aa_diagnostics auto_configuration) public;
                  public = public\<lparr>ga_auto_configurations := aa_reports auto_configuration\<rparr>;
                  module_graph = set_provider_ownership (scoped_ownership scoped) module_graph;
                  public = set_module_graph module_graph public in
              Inr \<lparr>ba_public = public, ba_selected = aa_selected auto_configuration,
                ba_failure = aa_failure auto_configuration\<rparr>)))))"

definition analyze_builder ::
    "('v, 'w) mads_program \<Rightarrow> ('v, 'w) mads_builder \<Rightarrow> panic + ('v, 'w) builder_analysis" where
  "analyze_builder p b =
     (let providers = catalog_providers (pr_providers p) in
      case mb_root b of
        None \<Rightarrow> analyze_complete_catalog p b providers
      | Some root \<Rightarrow> analyze_rooted p b providers root)"

definition builder_analyze ::
    "('v, 'w) mads_program \<Rightarrow> ('v, 'w) mads_builder \<Rightarrow> panic + graph_analysis" where
  "builder_analyze p b = and_then (analyze_builder p b) (\<lambda>a. Inr (ba_public a))"

section \<open>Errors of a build\<close>

text \<open>The filter of \<open>build_analysis_error\<close> drops the first diagnostic equal to the primary one.\<close>

fun without_primary :: "diagnostic \<Rightarrow> diagnostic list \<Rightarrow> diagnostic list" where
  "without_primary primary [] = []"
| "without_primary primary (d # ds) = (if d = primary then ds else d # without_primary primary ds)"

definition build_analysis_error :: "graph_analysis \<Rightarrow> error option \<Rightarrow> panic + error" where
  "build_analysis_error public failure =
     (case failure of
        Some failure \<Rightarrow>
          and_then (error_diagnostic failure)
            (\<lambda>primary. Inr (with_related_diagnostics (without_primary primary (ga_diagnostics public)) failure))
      | None \<Rightarrow>
          (case ga_diagnostics public of
             [] \<Rightarrow> Inl (Panic ''invalid analysis has diagnostics'')
           | primary # related \<Rightarrow> Inr (from_diagnostics primary related)))"

text \<open>
  The search of \<open>consumer_path\<close>: the loop over the dependencies of one node, and the loop over
  the queue of paths. Indexing past the end panics.
\<close>

fun enqueue_unvisited ::
    "nat list \<Rightarrow> nat list \<Rightarrow> bool list \<times> nat list list \<Rightarrow> panic + bool list \<times> nat list list" where
  "enqueue_unvisited path [] s = Inr s"
| "enqueue_unvisited path (dependency # dependencies) (visited, queue) =
     (if dependency \<ge> length visited then Inl (Panic ''index out of bounds'')
      else if \<not> visited ! dependency
      then enqueue_unvisited path dependencies (visited[dependency := True], queue @ [path @ [dependency]])
      else enqueue_unvisited path dependencies (visited, queue))"

definition unvisited_count :: "bool list \<Rightarrow> nat" where
  "unvisited_count visited = length (filter (\<lambda>v. \<not> v) visited)"

lemma unvisited_count_update:
  "i < length visited \<Longrightarrow> \<not> visited ! i \<Longrightarrow>
   Suc (unvisited_count (visited[i := True])) = unvisited_count visited"
proof (induction visited arbitrary: i)
  case (Cons v visited)
  then show ?case by (cases i) (auto simp: unvisited_count_def)
qed simp

lemma enqueue_measure:
  "enqueue_unvisited path ds (visited, queue) = Inr (visited', queue') \<Longrightarrow>
   unvisited_count visited' + length queue' = unvisited_count visited + length queue"
proof (induction ds arbitrary: visited queue)
  case (Cons d ds)
  then show ?case
    using unvisited_count_update [of d visited]
    by (auto split: if_splits)
qed simp

function path_search ::
    "application_graph \<Rightarrow> type_id \<Rightarrow> bool list \<Rightarrow> nat list list \<Rightarrow> panic + string option" where
  "path_search g failing visited [] = Inr None"
| "path_search g failing visited (path # queue) =
     (if path = [] then Inl (Panic ''paths are never empty'')
      else
        let provider = last path in
        if provider \<ge> graph_size g then Inl (Panic ''index out of bounds'')
        else if pn_type_id (ag_providers g ! provider) = failing
        then Inr (Some (join_with '' -> '' (map (\<lambda>i. pn_type_name (ag_providers g ! i)) path)))
        else
          (case enqueue_unvisited path (outgoing g provider) (visited, queue) of
             Inl panic \<Rightarrow> Inl panic
           | Inr (visited, queue) \<Rightarrow> path_search g failing visited queue))"
  by pat_completeness auto
termination path_search
  by (relation "measure (\<lambda>(_, _, visited, queue). unvisited_count visited + length queue)")
    (auto dest: enqueue_measure)

definition has_consumer :: "application_graph \<Rightarrow> type_id \<Rightarrow> bool" where
  "has_consumer g t \<longleftrightarrow> list_ex (\<lambda>edge. de_dependency_type_id edge = t) (ag_dependencies g)"

definition consumer_roots :: "application_graph \<Rightarrow> nat list" where
  "consumer_roots g =
     sort_by (node_order g)
       (filter (\<lambda>i. \<not> has_consumer g (pn_type_id (ag_providers g ! i))) [0 ..< graph_size g])"

definition consumer_path :: "application_graph \<Rightarrow> construction_step \<Rightarrow> panic + string option" where
  "consumer_path g failing_step =
     (if \<not> has_consumer g (cs_type_id failing_step) then Inr None
      else
        let roots = consumer_roots g;
            visited = fold (\<lambda>root visited. visited[root := True]) roots (replicate (graph_size g) False) in
        path_search g (cs_type_id failing_step) visited (map (\<lambda>root. [root]) roots))"

definition provider_construction_error ::
    "construction_step \<Rightarrow> application_graph \<Rightarrow> error \<Rightarrow> panic + error" where
  "provider_construction_error step g source =
     (let d = with_location (cs_location step) (with_subject (cs_type_name step)
        (diagnostic_new MADS006 ''provider construction failed''
          ''a provider constructor returned an error'')) in
      and_then (consumer_path g step)
        (\<lambda>path. Inr (with_source
           (case path of
              Some path \<Rightarrow> with_suggestion (''construction path: '' @ path) d
            | None \<Rightarrow> d)
           (FrameworkSource source))))"

section \<open>The build\<close>

record ('v, 'w) mads =
  mads_context :: "'v application_context"
  mads_lifecycle :: "'w lifecycle_manager"
  mads_graph :: application_graph
  mads_construction_plan :: construction_plan
  mads_auto_configurations :: "auto_report list"
  mads_module_graph :: "module_graph option"

fun apply_selected ::
    "config \<Rightarrow> 'v auto_inputs \<Rightarrow> module_graph option \<Rightarrow> ('v, 'w) auto_descriptor list \<Rightarrow> 'v registry \<Rightarrow>
     'w lifecycle_manager \<Rightarrow> 'w \<Rightarrow> 'w \<times> (error + 'v registry \<times> 'w lifecycle_manager)" where
  "apply_selected config inputs module_graph [] registry lifecycle w = (w, Inr (registry, lifecycle))"
| "apply_selected config inputs module_graph (descriptor # selected) registry lifecycle w =
     (case ad_applier descriptor
         (apply_context_new (ad_identifier descriptor) config inputs module_graph) w of
        (w, Inl e) \<Rightarrow> (w, Inl e)
      | (w, Inr contribution) \<Rightarrow>
          (case insert_erased (ad_output_type_id descriptor) (ad_output_type_name descriptor)
              (con_provider contribution) registry of
             Inl e \<Rightarrow> (w, Inl e)
           | Inr registry \<Rightarrow>
               apply_selected config inputs module_graph selected registry
                 (fold (add_infrastructure_hook (ad_identifier descriptor)) (con_hooks contribution) lifecycle) w))"

fun construct_steps ::
    "('v, 'w) mads_program \<Rightarrow> config \<Rightarrow> application_graph \<Rightarrow> construction_plan \<Rightarrow> 'v registry \<Rightarrow> 'w \<Rightarrow>
     'w \<times> (failure + 'v registry)" where
  "construct_steps p config g [] registry w = (w, Inr registry)"
| "construct_steps p config g (step # steps) registry w =
     (case pr_constructor p (pd_constructor (cs_descriptor step))
         (construction_context_new registry config) w of
        (w, Inl source) \<Rightarrow> (w, fail_with (provider_construction_error step g source))
      | (w, Inr v) \<Rightarrow>
          (case insert_erased (cs_type_id step) (cs_type_name step) v registry of
             Inl e \<Rightarrow> (w, Inl (Failed e))
           | Inr registry \<Rightarrow> construct_steps p config g steps registry w))"

definition build_valid ::
    "('v, 'w) mads_program \<Rightarrow> ('v, 'w) mads_builder \<Rightarrow> ('v, 'w) auto_descriptor list \<Rightarrow> valid_parts \<Rightarrow> 'w \<Rightarrow>
     'w \<times> (failure + ('v, 'w) mads)" where
  "build_valid p b selected parts w =
     (case parts of (g, plan, reports, module_graph) \<Rightarrow>
      (case apply_selected (mb_config b) (mb_inputs b) module_graph selected (mb_registry b) (mb_lifecycle b) w of
         (w, Inl e) \<Rightarrow> (w, Inl (Failed e))
       | (w, Inr (registry, lifecycle)) \<Rightarrow>
           (case construct_steps p (mb_config b) g plan registry w of
              (w, Inl failure) \<Rightarrow> (w, Inl failure)
            | (w, Inr registry) \<Rightarrow>
                (w, Inr \<lparr>mads_context = application_context_new registry (mb_config b),
                  mads_lifecycle = lifecycle, mads_graph = g, mads_construction_plan = plan,
                  mads_auto_configurations = reports, mads_module_graph = module_graph\<rparr>))))"

definition builder_build ::
    "('v, 'w) mads_program \<Rightarrow> ('v, 'w) mads_builder \<Rightarrow> 'w \<Rightarrow> 'w \<times> (failure + ('v, 'w) mads)" where
  "builder_build p b w =
     (case analyze_builder p b of
        Inl panic \<Rightarrow> (w, Inl (Panicked panic))
      | Inr a \<Rightarrow>
          if \<not> analysis_is_valid (ba_public a)
          then (w, fail_with (build_analysis_error (ba_public a) (ba_failure a)))
          else
            (case into_valid_parts (ba_public a) of
               Inl e \<Rightarrow> (w, Inl e)
             | Inr parts \<Rightarrow> build_valid p b (ba_selected a) parts w))"

definition mads_start :: "('v, 'w) mads \<Rightarrow> 'w run \<Rightarrow> ('v, 'w) mads \<times> 'w run \<times> error option" where
  "mads_start m s =
     (case lifecycle_start (mads_lifecycle m) s of (l, s, r) \<Rightarrow> (m\<lparr>mads_lifecycle := l\<rparr>, s, r))"

definition mads_shutdown :: "('v, 'w) mads \<Rightarrow> 'w run \<Rightarrow> ('v, 'w) mads \<times> 'w run \<times> error option" where
  "mads_shutdown m s =
     (case lifecycle_shutdown (mads_lifecycle m) s of (l, s, r) \<Rightarrow> (m\<lparr>mads_lifecycle := l\<rparr>, s, r))"

section \<open>The invariant of the builder\<close>

definition registered_types :: "'v registry \<Rightarrow> type_id set" where
  "registered_types registry = {t. bmap_get t registry \<noteq> None}"

definition builder_ok :: "('v, 'w) mads_builder \<Rightarrow> bool" where
  "builder_ok b \<longleftrightarrow>
     registry_ok (mb_registry b) \<and>
     registered_types (mb_registry b) = sp_type_id ` set (mb_satisfied b) \<and>
     (\<forall>s\<in>set (mb_satisfied b). sp_state s = State_Provided \<or> sp_state s = State_Preconstructed) \<and>
     bmap_ok (mb_inputs b)"

lemma insert_erased_types:
  assumes "registry_ok r" "insert_erased t n v r = Inr r'"
  shows "registry_ok r'" "t \<notin> registered_types r" "registered_types r' = insert t (registered_types r)"
  using insert_erased_ok [OF assms] insert_erased_get [OF assms]
  by (auto simp: registered_types_def)

lemma insert_erased_new:
  "t \<notin> registered_types r \<Longrightarrow> \<exists>r'. insert_erased t n v r = Inr r'"
  by (simp add: insert_erased_def registry_contains_def registered_types_def)

lemma registered_types_new [simp]: "registered_types registry_new = {}"
  by (simp add: registered_types_def registry_new_def bmap_get_def)

lemma builder_new_ok: "\<exists>b. builder_new p config = Inr b \<and> builder_ok b \<and> mb_root b = None"
proof -
  obtain r where r: "registry_insert (pr_config_type p) config_type_name (pr_config_value p config) registry_new = Inr r"
    using insert_erased_new [of "pr_config_type p" registry_new] by (auto simp: registry_insert_def)
  note types = insert_erased_types [OF registry_ok_new(1) r [unfolded registry_insert_def]]
  show ?thesis
    using types by (simp add: builder_new_def r builder_ok_def satisfied_provided_def inputs_new_def bmap.ok_empty)
qed

lemma builder_root_ok: "builder_ok b \<Longrightarrow> builder_root t n b = Inr b' \<Longrightarrow> builder_ok b'"
  by (auto simp: builder_root_def builder_ok_def split: option.splits)

lemma builder_provide_ok: "builder_ok b \<Longrightarrow> builder_provide t n v b = Inr b' \<Longrightarrow> builder_ok b'"
  using insert_erased_types [of "mb_registry b" t n]
  by (auto simp: builder_provide_def registry_insert_def builder_ok_def and_then_eq_Inr satisfied_provided_def)

lemma builder_construct_ok:
  assumes "builder_ok b" "builder_construct p t n b w = (w', Inr b')"
  shows "builder_ok b'"
proof -
  obtain d where d: "provider_for (pr_providers p) t n = Inr d"
    using assms(2) by (auto simp: builder_construct_def split: sum.splits)
  then have "d \<in> set (filter (\<lambda>d. pd_type_id d = t) (pr_providers p))" by (simp add: provider_for_Ok)
  then have "pd_type_id d = t" by simp
  with d assms show ?thesis
    using insert_erased_types [of "mb_registry b" t "pd_type_name d"]
    by (auto simp: builder_construct_def builder_ok_def and_then_eq_Inr satisfied_preconstructed_def
        split: prod.splits sum.splits)
qed

lemma builder_hooks_ok [simp]:
  "builder_ok (builder_lifecycle_hook hook b) = builder_ok b"
  "builder_ok (builder_infrastructure_hook owner hook b) = builder_ok b"
  by (simp_all add: builder_ok_def builder_lifecycle_hook_def builder_infrastructure_hook_def)

lemma builder_input_ok: "builder_ok b \<Longrightarrow> builder_input t i v b = (b', inserted) \<Longrightarrow> builder_ok b'"
  using inputs_insert_get [of "mb_inputs b" t i v]
  by (auto simp: builder_input_def builder_ok_def split: prod.splits)

text \<open>The builders a program can hold: any sequence of the public operations on a new one.\<close>

inductive builder_reachable :: "('v, 'w) mads_program \<Rightarrow> ('v, 'w) mads_builder \<Rightarrow> bool" for p where
  new: "builder_new p config = Inr b \<Longrightarrow> builder_reachable p b"
| root: "builder_reachable p b \<Longrightarrow> builder_root t n b = Inr b' \<Longrightarrow> builder_reachable p b'"
| provide: "builder_reachable p b \<Longrightarrow> builder_provide t n v b = Inr b' \<Longrightarrow> builder_reachable p b'"
| construct: "builder_reachable p b \<Longrightarrow> builder_construct p t n b w = (w', Inr b') \<Longrightarrow>
    builder_reachable p b'"
| input: "builder_reachable p b \<Longrightarrow> builder_input t i v b = (b', inserted) \<Longrightarrow> builder_reachable p b'"
| hook: "builder_reachable p b \<Longrightarrow> builder_reachable p (builder_lifecycle_hook hook b)"
| infrastructure_hook: "builder_reachable p b \<Longrightarrow>
    builder_reachable p (builder_infrastructure_hook owner hook b)"

lemma builder_reachable_ok:
  assumes "builder_reachable p b"
  shows "builder_ok b \<and> lm_state (mb_lifecycle b) = Created"
  using assms
proof (induction rule: builder_reachable.induct)
  case (new config b)
  then have "mb_lifecycle b = manager_new" by (auto simp: builder_new_def split: sum.splits)
  with new builder_new_ok [of p config] show ?case by (auto simp: manager_new_def)
next
  case (root b t n b')
  then have "mb_lifecycle b' = mb_lifecycle b" by (auto simp: builder_root_def split: option.splits)
  with root builder_root_ok show ?case by metis
next
  case (provide b t n v b')
  then have "mb_lifecycle b' = mb_lifecycle b" by (auto simp: builder_provide_def and_then_eq_Inr)
  with provide builder_provide_ok show ?case by metis
next
  case (construct b t n w w' b')
  then have "mb_lifecycle b' = mb_lifecycle b"
    by (auto simp: builder_construct_def and_then_eq_Inr split: prod.splits sum.splits)
  with construct builder_construct_ok show ?case by metis
next
  case (input b t i v b' inserted)
  then have "mb_lifecycle b' = mb_lifecycle b" by (auto simp: builder_input_def split: prod.splits)
  with input builder_input_ok show ?case by metis
next
  case (hook b h)
  then show ?case by (simp add: builder_lifecycle_hook_def add_hook_def add_registered_def builder_ok_def)
next
  case (infrastructure_hook b owner h)
  then show ?case
    by (simp add: builder_infrastructure_hook_def add_infrastructure_hook_def add_registered_def builder_ok_def)
qed

section \<open>The path to a failing provider\<close>

text \<open>A path of the search: it starts at a provider nobody depends on and follows dependencies.\<close>

definition search_path :: "application_graph \<Rightarrow> nat list \<Rightarrow> bool" where
  "search_path g path \<longleftrightarrow>
     path \<noteq> [] \<and> hd path < graph_size g \<and>
     \<not> has_consumer g (pn_type_id (ag_providers g ! hd path)) \<and>
     (\<forall>k. Suc k < length path \<longrightarrow> (path ! k, path ! Suc k) \<in> index_depends g)"

lemma search_path_last:
  assumes "search_path g path"
  shows "last path < graph_size g"
proof (cases "length path = 1")
  case True
  then obtain x where "path = [x]" by (auto simp: length_Suc_conv)
  with assms show ?thesis by (simp add: search_path_def)
next
  case False
  with assms obtain k where k: "length path = Suc (Suc k)"
    unfolding search_path_def by (metis One_nat_def length_0_conv not0_implies_Suc)
  then have "(path ! k, path ! Suc k) \<in> index_depends g" using assms by (simp add: search_path_def)
  moreover have "last path = path ! Suc k" using k by (simp add: last_conv_nth list_eq_iff_nth_eq)
  ultimately show ?thesis by (simp add: index_depends_def)
qed

lemma search_path_append:
  assumes "search_path g path" "(last path, j) \<in> index_depends g"
  shows "search_path g (path @ [j])"
  using assms
  by (auto simp: search_path_def nth_append last_conv_nth less_Suc_eq not_less)
    (metis One_nat_def Suc_lessI diff_Suc_1 length_greater_0_conv)+

lemma enqueue_ok:
  assumes "length visited = graph_size g" "\<forall>q\<in>set queue. search_path g q" "search_path g path"
    and "\<forall>j\<in>set ds. (last path, j) \<in> index_depends g"
  shows "\<exists>visited' queue'. enqueue_unvisited path ds (visited, queue) = Inr (visited', queue') \<and>
    length visited' = graph_size g \<and> (\<forall>q\<in>set queue'. search_path g q)"
  using assms
proof (induction ds arbitrary: visited queue)
  case (Cons d ds)
  have d: "d < graph_size g" using Cons.prems(4) by (simp add: index_depends_def)
  have path: "search_path g (path @ [d])" using search_path_append [OF Cons.prems(3)] Cons.prems(4) by simp
  from Cons.prems show ?case
    using Cons.IH [of visited queue] Cons.IH [of "visited[d := True]" "queue @ [path @ [d]]"] d path
    by auto
qed simp

definition names_path :: "application_graph \<Rightarrow> nat list \<Rightarrow> string" where
  "names_path g path = join_with '' -> '' (map (\<lambda>i. pn_type_name (ag_providers g ! i)) path)"

lemma path_search_ok:
  "length visited = graph_size g \<Longrightarrow> \<forall>q\<in>set queue. search_path g q \<Longrightarrow>
   \<exists>r. path_search g failing visited queue = Inr r \<and>
     (\<forall>s. r = Some s \<longrightarrow> (\<exists>path. search_path g path \<and> node_type g (last path) = failing \<and> s = names_path g path))"
proof (induction g failing visited queue rule: path_search.induct)
  case (2 g failing visited path queue)
  have path: "search_path g path" using 2(3) by simp
  then have ne: "path \<noteq> []" and last: "last path < graph_size g"
    using search_path_last by (auto simp: search_path_def)
  have "\<forall>j\<in>set (outgoing g (last path)). (last path, j) \<in> index_depends g"
    using outgoing_subset [OF last] by blast
  then obtain v q where vq: "enqueue_unvisited path (outgoing g (last path)) (visited, queue) = Inr (v, q)"
    "length v = graph_size g" "\<forall>p\<in>set q. search_path g p"
    using enqueue_ok [OF 2(2) _ path] 2(3) by (metis list.set_intros(2))
  show ?case
  proof (cases "node_type g (last path) = failing")
    case True
    with path ne last show ?thesis
      by (auto simp: Let_def names_path_def node_type_def intro!: exI [of _ path])
  next
    case False
    with 2(1) [OF ne refl] last vq show ?thesis by (simp add: ne Let_def node_type_def)
  qed
qed simp

lemma consumer_path_ok:
  "\<exists>r. consumer_path g step = Inr r \<and>
     (\<forall>s. r = Some s \<longrightarrow> (\<exists>path. search_path g path \<and> node_type g (last path) = cs_type_id step \<and>
        s = names_path g path))"
proof (cases "has_consumer g (cs_type_id step)")
  case True
  define visited where "visited = fold (\<lambda>root visited. visited[root := True]) (consumer_roots g)
    (replicate (graph_size g) False)"
  have "length (fold (\<lambda>root visited. visited[root := True]) roots vs) = length vs" for roots and vs :: "bool list"
    by (induction roots arbitrary: vs) simp_all
  then have "length visited = graph_size g" by (simp add: visited_def)
  moreover have "\<forall>q\<in>set (map (\<lambda>root. [root]) (consumer_roots g)). search_path g q"
    by (auto simp: consumer_roots_def search_path_def)
  ultimately show ?thesis
    using path_search_ok [of visited g "map (\<lambda>root. [root]) (consumer_roots g)" "cs_type_id step"] True
    by (simp add: consumer_path_def Let_def visited_def)
qed (simp add: consumer_path_def)

lemma provider_construction_error_ok:
  "\<exists>e. provider_construction_error step g source = Inr e \<and> error_ok e \<and>
     diag_code (hd (err_diagnostics e)) = MADS006 \<and> err_source e = Some (FrameworkSource source)"
proof -
  obtain r where "consumer_path g step = Inr r" using consumer_path_ok by blast
  then show ?thesis
    by (auto simp: provider_construction_error_def Let_def with_source_def diagnostic_builders error_ok_def
        split: option.splits)
qed

section \<open>The analysis of a builder\<close>

definition evaluators_ok :: "('v, 'w) mads_program \<Rightarrow> bool" where
  "evaluators_ok p \<longleftrightarrow> (\<forall>d\<in>set (pr_auto p). \<forall>c. evaluation_ok (ad_evaluator d c))"

text \<open>
  A plan that can be executed with the given types available: new types, each once, each of the
  declaration that constructs it, and every constructor finds its dependencies among the available types and the earlier steps.
\<close>

definition executable_plan :: "provider_descriptor list \<Rightarrow> type_id set \<Rightarrow> construction_plan \<Rightarrow> bool" where
  "executable_plan providers avail plan \<longleftrightarrow>
     distinct (map cs_type_id plan) \<and> cs_type_id ` set plan \<inter> avail = {} \<and>
     (\<forall>k < length plan.
        cs_descriptor (plan ! k) \<in> set providers \<and>
        pd_type_id (cs_descriptor (plan ! k)) = cs_type_id (plan ! k) \<and>
        (\<forall>x\<in>set (pd_dependencies (cs_descriptor (plan ! k))).
           dep_type_id x \<in> avail \<union> cs_type_id ` set (take k plan)))"

lemma plan_for_executable:
  assumes "plan_for ds sat [] plan" "set ds \<subseteq> set providers"
  shows "executable_plan providers (sp_type_id ` set sat) plan"
  using assms unfolding plan_for_def executable_plan_def by auto

text \<open>What every analysis of a builder gives.\<close>

definition analysis_ok :: "('v, 'w) mads_program \<Rightarrow> ('v, 'w) mads_builder \<Rightarrow> ('v, 'w) builder_analysis \<Rightarrow> bool" where
  "analysis_ok p b a \<longleftrightarrow>
     (case ba_failure a of None \<Rightarrow> True | Some e \<Rightarrow> error_ok e \<and> \<not> analysis_is_valid (ba_public a)) \<and>
     (ga_diagnostics (ba_public a) = [] \<longrightarrow> analysis_is_valid (ba_public a)) \<and>
     (analysis_is_valid (ba_public a) \<longrightarrow>
        distinct (map ad_output_type_id (ba_selected a)) \<and> set (ba_selected a) \<subseteq> set (pr_auto p) \<and>
        (\<exists>plan. ga_construction_plan (ba_public a) = Some plan \<and>
           executable_plan (pr_providers p)
             (sp_type_id ` set (mb_satisfied b) \<union> ad_output_type_id ` set (ba_selected a)) plan))"

lemma auto_analyze_descriptors_ok:
  assumes "evaluators_ok p"
  shows "\<exists>a. auto_analyze (auto_descriptors (pr_auto p)) providers satisfied config inputs mg = Inr a \<and>
    set (aa_selected a) \<subseteq> set (pr_auto p) \<and> distinct (map ad_output_type_id (aa_selected a)) \<and>
    aa_virtual_satisfied a = map (\<lambda>d.
      satisfied_auto_configured (ad_output_type_id d) (ad_output_type_name d)) (aa_selected a) \<and>
    (aa_diagnostics a = [] \<longrightarrow> aa_failure a = None \<and> aa_covered_missing a = []) \<and>
    (\<forall>e. aa_failure a = Some e \<longrightarrow> error_ok e)"
proof -
  have "\<forall>d\<in>set (auto_descriptors (pr_auto p)). evaluation_ok (auto_answer providers satisfied config inputs mg d)"
    using assms by (simp add: evaluators_ok_def auto_answer_def auto_descriptors_def)
  from auto_analyze_correct [OF this] show ?thesis
    by (auto simp: auto_descriptors_def auto_chosen_def takes_part_def)
qed

text \<open>Adding diagnostics invalidates an analysis.\<close>

lemma analysis_with_diagnostics:
  "analysis_is_valid (prepend_diagnostics ds a) \<longleftrightarrow> ds = [] \<and> analysis_is_valid a"
  "analysis_is_valid (append_diagnostics ds a) \<longleftrightarrow> ds = [] \<and> analysis_is_valid a"
  "analysis_is_valid (a\<lparr>ga_auto_configurations := rs\<rparr>) \<longleftrightarrow> analysis_is_valid a"
  "analysis_is_valid (set_module_graph g a) \<longleftrightarrow> analysis_is_valid a"
  "ga_construction_plan (prepend_diagnostics [] a) = ga_construction_plan a"
  "ga_construction_plan (append_diagnostics [] a) = ga_construction_plan a"
  "ga_construction_plan (set_module_graph g a) = ga_construction_plan a"
  "ga_diagnostics (prepend_diagnostics ds a) = ds @ ga_diagnostics a"
  "ga_diagnostics (append_diagnostics ds a) = ga_diagnostics a @ ds"
  "ga_diagnostics (set_module_graph g a) = ga_diagnostics a"
  by (auto simp: analysis_is_valid_def prepend_diagnostics_def append_diagnostics_def set_module_graph_def)

lemma satisfied_types_append:
  "virtual = map (\<lambda>d. satisfied_auto_configured (ad_output_type_id d) (ad_output_type_name d)) selected \<Longrightarrow>
   sp_type_id ` set (sat @ virtual) = sp_type_id ` set sat \<union> ad_output_type_id ` set selected"
  by (simp add: satisfied_auto_configured_def image_Un image_image)

lemma satisfied_never_planned:
  "builder_ok b \<Longrightarrow>
   \<forall>s\<in>set (mb_satisfied b @ map (\<lambda>d. satisfied_auto_configured (ad_output_type_id d) (ad_output_type_name d)) selected).
     sp_state s \<noteq> State_Planned"
  by (auto simp: builder_ok_def satisfied_auto_configured_def)

lemma analyze_parts_executable:
  assumes "\<forall>s\<in>set sat. sp_state s \<noteq> State_Planned" "set ds \<subseteq> set providers"
  shows "\<exists>a. analyze_parts ds sat cov = Inr a \<and> (ga_diagnostics a = [] \<longrightarrow> analysis_is_valid a) \<and>
    (analysis_is_valid a \<longrightarrow> cov = [] \<longrightarrow>
       (\<exists>plan. ga_construction_plan a = Some plan \<and> executable_plan providers (sp_type_id ` set sat) plan))"
proof -
  obtain a where a: "analyze_parts ds sat cov = Inr a"
    "if valid_input ds sat cov
     then ga_diagnostics a = [] \<and> (\<exists>plan. ga_construction_plan a = Some plan \<and> plan_for ds sat cov plan)
     else ga_diagnostics a \<noteq> [] \<and> ga_construction_plan a = None"
    using analyze_parts_correct [OF assms(1)] by blast
  then show ?thesis
    using plan_for_executable [OF _ assms(2), of sat]
    by (auto simp: analysis_is_valid_def split: if_splits)
qed

text \<open>The check of a complete catalog: no two declarations claim one namespace.\<close>

definition namespaces_unique :: "module_descriptor list \<Rightarrow> bool" where
  "namespaces_unique ms \<longleftrightarrow>
     (\<forall>i < length ms. \<forall>j < length ms.
        i \<noteq> j \<and> md_namespace (ms ! i) \<noteq> None \<longrightarrow> md_namespace (ms ! i) \<noteq> md_namespace (ms ! j))"

lemma try_fold_unit:
  "(\<forall>x\<in>set xs. f x () = Inr ()) \<longleftrightarrow> try_fold f xs () = Inr ()"
  "try_fold f xs () = Inl e \<Longrightarrow> \<exists>x\<in>set xs. f x () = Inl e"
  by (induction xs) (auto simp: and_then_eq_Inr and_then_eq_Inl)

lemma validate_module_catalog_ok:
  "if namespaces_unique ms then validate_module_catalog ms = Inr ()
   else \<exists>e. validate_module_catalog ms = Inl (Failed e) \<and> error_ok e \<and> diag_code (hd (err_diagnostics e)) = MADS008"
proof -
  define conflicts where "conflicts i n = map snd (filter (\<lambda>(j, candidate).
      j \<noteq> i \<and> md_namespace candidate = Some n) (List.enumerate 0 ms))" for i n
  define check where "check = (\<lambda>(index, descriptor) (_ :: unit).
      case md_namespace descriptor of
        None \<Rightarrow> Inr ()
      | Some namespace \<Rightarrow>
          if conflicts index namespace \<noteq> []
          then fail_with (module_namespace_error descriptor (conflicts index namespace)) else Inr ())"
  have eq: "validate_module_catalog ms = try_fold check (List.enumerate 0 ms) ()"
    unfolding validate_module_catalog_def check_def conflicts_def Let_def ..
  have mem: "(i, d) \<in> set (List.enumerate 0 ms) \<longleftrightarrow> i < length ms \<and> d = ms ! i" for i d
    by (auto simp: in_set_enumerate_eq)
  have conflict: "conflicts i n \<noteq> [] \<longleftrightarrow> (\<exists>j < length ms. j \<noteq> i \<and> md_namespace (ms ! j) = Some n)" for i n
    by (auto simp: conflicts_def filter_empty_conv mem)
  have ok: "check (i, ms ! i) () = Inr () \<longleftrightarrow>
      (\<forall>n. md_namespace (ms ! i) = Some n \<longrightarrow> conflicts i n = [])" for i
    by (auto simp: check_def fail_with_def module_namespace_error_def split: option.splits)
  have "(\<forall>x\<in>set (List.enumerate 0 ms). check x () = Inr ()) \<longleftrightarrow> (\<forall>i < length ms. check (i, ms ! i) () = Inr ())"
    using mem by auto
  also have "\<dots> \<longleftrightarrow> namespaces_unique ms"
  proof -
    have "(\<forall>n. md_namespace (ms ! i) = Some n \<longrightarrow> conflicts i n = []) \<longleftrightarrow>
        (\<forall>j < length ms. i \<noteq> j \<and> md_namespace (ms ! i) \<noteq> None \<longrightarrow> md_namespace (ms ! i) \<noteq> md_namespace (ms ! j))" for i
      using conflict [of i] by (cases "md_namespace (ms ! i)") force+
    then show ?thesis unfolding ok namespaces_unique_def by simp
  qed
  finally have unique: "namespaces_unique ms \<longleftrightarrow> validate_module_catalog ms = Inr ()"
    unfolding eq by (simp add: try_fold_unit(1))
  show ?thesis
  proof (cases "namespaces_unique ms")
    case False
    then have "validate_module_catalog ms \<noteq> Inr ()" using unique by simp
    then obtain f where f: "validate_module_catalog ms = Inl f" by (cases "validate_module_catalog ms") auto
    then obtain i d where "check (i, d) () = Inl f"
      using try_fold_unit(2) [of check "List.enumerate 0 ms" f] eq by auto
    then have "\<exists>e. f = Failed e \<and> error_ok e \<and> diag_code (hd (err_diagnostics e)) = MADS008"
      by (auto simp: check_def module_namespace_error_def from_diagnostics_def diagnostic_builders error_ok_def
          split: option.splits if_splits)
    with False f show ?thesis by auto
  qed (use unique in simp)
qed

lemma analyze_complete_catalog_ok:
  assumes "builder_ok b" "evaluators_ok p"
  shows "\<exists>a. analyze_complete_catalog p b (catalog_providers (pr_providers p)) = Inr a \<and> analysis_ok p b a"
proof -
  obtain ds where modules: "(case validate_module_catalog (catalog_modules (pr_modules p)) of
      Inr _ \<Rightarrow> Inr [] | Inl (Failed e) \<Rightarrow> Inr (err_diagnostics e) | Inl (Panicked panic) \<Rightarrow> Inl panic) = Inr ds"
    using validate_module_catalog_ok [of "catalog_modules (pr_modules p)"] by (auto split: if_splits)
  obtain c where c: "auto_analyze (auto_descriptors (pr_auto p)) (catalog_providers (pr_providers p))
      (mb_satisfied b) (mb_config b) (mb_inputs b) None = Inr c"
    "set (aa_selected c) \<subseteq> set (pr_auto p)" "distinct (map ad_output_type_id (aa_selected c))"
    "aa_virtual_satisfied c = map (\<lambda>d.
      satisfied_auto_configured (ad_output_type_id d) (ad_output_type_name d)) (aa_selected c)"
    "aa_diagnostics c = [] \<longrightarrow> aa_failure c = None \<and> aa_covered_missing c = []"
    "\<forall>e. aa_failure c = Some e \<longrightarrow> error_ok e"
    using auto_analyze_descriptors_ok [OF assms(2)] by blast
  let ?sat = "mb_satisfied b @ aa_virtual_satisfied c"
  have "\<forall>s\<in>set ?sat. sp_state s \<noteq> State_Planned" unfolding c(4) by (rule satisfied_never_planned [OF assms(1)])
  moreover have "set (catalog_providers (pr_providers p)) \<subseteq> set (pr_providers p)"
    by (simp add: catalog_providers_def)
  ultimately
  obtain g where g: "analyze_catalog (pr_providers p) ?sat (aa_covered_missing c) = Inr g"
    "ga_diagnostics g = [] \<longrightarrow> analysis_is_valid g"
    "analysis_is_valid g \<longrightarrow> aa_covered_missing c = [] \<longrightarrow> (\<exists>plan. ga_construction_plan g = Some plan \<and>
       executable_plan (pr_providers p) (sp_type_id ` set ?sat) plan)"
    using analyze_parts_executable unfolding analyze_catalog_def by blast
  show ?thesis
    using modules c g satisfied_types_append [OF c(4), of "mb_satisfied b"]
    by (auto simp: analyze_complete_catalog_def Let_def analysis_ok_def analysis_with_diagnostics
        split: option.splits)
qed

lemma scoped_subset:
  assumes "module_graph_ok mg"
  shows "\<exists>c. select_scoped_providers mg registered descriptors satisfied = Inr c \<and>
    set (scoped_descriptors c) \<subseteq> set descriptors"
proof -
  obtain c where c: "select_scoped_providers mg registered descriptors satisfied = Inr c"
    "set (scoped_descriptors c) = {descriptors ! i | i. \<exists>ctx.
       visible mg (catalog_modules registered) descriptors (sp_type_id ` set satisfied) i ctx}"
    using select_scoped_providers_correct [OF assms, of registered satisfied descriptors]
    unfolding Let_def by blast
  have "set (scoped_descriptors c) \<subseteq> set descriptors"
    unfolding c(2) using visible_context [OF assms] nth_mem by blast
  with c(1) show ?thesis by blast
qed

lemma analyze_rooted_ok:
  assumes "builder_ok b" "evaluators_ok p"
  shows "\<exists>a. analyze_rooted p b (catalog_providers (pr_providers p)) root = Inr a \<and> analysis_ok p b a"
proof -
  let ?modules = "catalog_modules (pr_modules p)" and ?providers = "catalog_providers (pr_providers p)"
  show ?thesis
  proof (cases "build_module_graph (root_type_id root) ?modules")
    case (Inl f)
    then obtain e where "f = Failed e" "error_ok e"
      using build_module_graph_correct [of ?modules "root_type_id root"] by (auto split: if_splits)
    with Inl show ?thesis
      by (simp add: analyze_rooted_def analysis_ok_def analysis_invalid_def analysis_is_valid_def error_ok_def)
  next
    case (Inr mg)
    then have mg: "module_graph_ok mg"
      using build_module_graph_correct [of ?modules "root_type_id root"]
      by (auto simp: module_graph_of_def split: if_splits)
    obtain first where first: "select_scoped_providers mg (pr_modules p) ?providers (mb_satisfied b) = Inr first"
      using scoped_subset [OF mg] by blast
    obtain c where c: "auto_analyze (auto_descriptors (pr_auto p)) (scoped_descriptors first)
        (mb_satisfied b) (mb_config b) (mb_inputs b) (Some mg) = Inr c"
      "set (aa_selected c) \<subseteq> set (pr_auto p)" "distinct (map ad_output_type_id (aa_selected c))"
      "aa_virtual_satisfied c = map (\<lambda>d.
        satisfied_auto_configured (ad_output_type_id d) (ad_output_type_name d)) (aa_selected c)"
      "aa_diagnostics c = [] \<longrightarrow> aa_failure c = None \<and> aa_covered_missing c = []"
      "\<forall>e. aa_failure c = Some e \<longrightarrow> error_ok e"
      using auto_analyze_descriptors_ok [OF assms(2)] by blast
    let ?sat = "mb_satisfied b @ aa_virtual_satisfied c"
    obtain scoped where scoped: "select_scoped_providers mg (pr_modules p) ?providers ?sat = Inr scoped"
      "set (scoped_descriptors scoped) \<subseteq> set ?providers"
      using scoped_subset [OF mg] by blast
    let ?cov = "add_missing_types (scoped_covered_missing scoped) (aa_covered_missing c)"
    have cov: "?cov = []" if "scoped_diagnostics scoped = []" "aa_diagnostics c = []"
      using unreported_uncovered [OF mg scoped(1) that(1)] c(5) that(2) by (simp add: add_missing_types_def)
    have sat: "\<forall>s\<in>set ?sat. sp_state s \<noteq> State_Planned" unfolding c(4) by (rule satisfied_never_planned [OF assms(1)])
    have "set (scoped_descriptors scoped) \<subseteq> set (pr_providers p)"
      using scoped(2) by (simp add: catalog_providers_def)
    from analyze_parts_executable [OF sat this, of ?cov, folded analyze_descriptors_def]
    obtain g where g: "analyze_descriptors (scoped_descriptors scoped) ?sat ?cov = Inr g"
      "ga_diagnostics g = [] \<longrightarrow> analysis_is_valid g"
      "analysis_is_valid g \<longrightarrow> ?cov = [] \<longrightarrow> (\<exists>plan. ga_construction_plan g = Some plan \<and>
         executable_plan (pr_providers p) (sp_type_id ` set ?sat) plan)" by blast
    show ?thesis
      using Inr first c scoped(1) g cov satisfied_types_append [OF c(4), of "mb_satisfied b"]
      by (auto simp: analyze_rooted_def Let_def analysis_ok_def analysis_with_diagnostics split: option.splits)
  qed
qed

lemma analyze_builder_ok:
  assumes "builder_ok b" "evaluators_ok p"
  shows "\<exists>a. analyze_builder p b = Inr a \<and> analysis_ok p b a"
  using analyze_complete_catalog_ok [OF assms] analyze_rooted_ok [OF assms]
  by (simp add: analyze_builder_def Let_def split: option.splits)

section \<open>The outcome of a build\<close>

lemma executable_plan_Cons:
  "executable_plan providers avail (step # plan) \<longleftrightarrow>
     cs_type_id step \<notin> avail \<and> cs_descriptor step \<in> set providers \<and>
     pd_type_id (cs_descriptor step) = cs_type_id step \<and>
     (\<forall>x\<in>set (pd_dependencies (cs_descriptor step)). dep_type_id x \<in> avail) \<and>
     executable_plan providers (insert (cs_type_id step) avail) plan"
  unfolding executable_plan_def by (auto simp: All_less_Suc2)

definition constructors_ok :: "('v, 'w) mads_program \<Rightarrow> bool" where
  "constructors_ok p \<longleftrightarrow>
     (\<forall>d\<in>set (pr_providers p). \<forall>c w.
        (\<forall>x\<in>set (pd_dependencies d). dep_type_id x \<in> registered_types (cc_registry c)) \<longrightarrow>
        (\<exists>w' v. pr_constructor p (pd_constructor d) c w = (w', Inr v)))"

definition appliers_ok :: "('v, 'w) auto_descriptor list \<Rightarrow> bool" where
  "appliers_ok selected \<longleftrightarrow> (\<forall>d\<in>set selected. \<forall>c w. \<exists>w' con. ad_applier d c w = (w', Inr con))"

lemma construct_steps_ok:
  assumes "constructors_ok p"
  shows "executable_plan (pr_providers p) (registered_types r) plan \<Longrightarrow> registry_ok r \<Longrightarrow>
    \<exists>w' r'. construct_steps p config g plan r w = (w', Inr r') \<and>
      registered_types r' = registered_types r \<union> cs_type_id ` set plan"
proof (induction plan arbitrary: r w)
  case (Cons step plan)
  let ?c = "construction_context_new r config"
  have step: "cs_type_id step \<notin> registered_types r" "cs_descriptor step \<in> set (pr_providers p)"
    "\<forall>x\<in>set (pd_dependencies (cs_descriptor step)). dep_type_id x \<in> registered_types r"
    "executable_plan (pr_providers p) (insert (cs_type_id step) (registered_types r)) plan"
    using Cons.prems(1) by (simp_all add: executable_plan_Cons)
  obtain w1 v where v: "pr_constructor p (pd_constructor (cs_descriptor step)) ?c w = (w1, Inr v)"
    using assms step(2,3) unfolding constructors_ok_def construction_context_new_def by fastforce
  obtain r1 where r1: "insert_erased (cs_type_id step) (cs_type_name step) v r = Inr r1"
    using insert_erased_new [OF step(1)] by blast
  note types = insert_erased_types [OF Cons.prems(2) r1]
  from Cons.IH [OF _ types(1), of w1] step(4) obtain w' r' where
    "construct_steps p config g plan r1 w1 = (w', Inr r')"
    "registered_types r' = registered_types r1 \<union> cs_type_id ` set plan" by (auto simp: types(3))
  then show ?case by (simp add: v r1 types(3))
qed simp

lemma fold_hooks_state [simp]: "lm_state (fold (add_infrastructure_hook owner) hs l) = lm_state l"
  by (induction hs arbitrary: l) (simp_all add: add_infrastructure_hook_def add_registered_def)

lemma apply_selected_ok:
  assumes "appliers_ok selected" "distinct (map ad_output_type_id selected)"
    and "ad_output_type_id ` set selected \<inter> registered_types r = {}" "registry_ok r"
  shows "\<exists>w' r' l'. apply_selected config inputs mg selected r l w = (w', Inr (r', l')) \<and> registry_ok r' \<and>
    registered_types r' = registered_types r \<union> ad_output_type_id ` set selected \<and> lm_state l' = lm_state l"
  using assms
proof (induction selected arbitrary: r l w)
  case (Cons d selected)
  obtain w1 con where con: "ad_applier d (apply_context_new (ad_identifier d) config inputs mg) w = (w1, Inr con)"
    using Cons.prems(1) unfolding appliers_ok_def by fastforce
  obtain r1 where r1: "insert_erased (ad_output_type_id d) (ad_output_type_name d) (con_provider con) r = Inr r1"
    using insert_erased_new [of "ad_output_type_id d" r] Cons.prems(3) by force
  note types = insert_erased_types [OF Cons.prems(4) r1]
  let ?l = "fold (add_infrastructure_hook (ad_identifier d)) (con_hooks con) l"
  have "appliers_ok selected" "distinct (map ad_output_type_id selected)"
    "ad_output_type_id ` set selected \<inter> registered_types r1 = {}"
    using Cons.prems(1-3) types(3) by (auto simp: appliers_ok_def)
  from Cons.IH [OF this types(1), of ?l w1] show ?case by (auto simp: con r1 types(3))
qed simp

lemma construct_steps_no_panic: "snd (construct_steps p config g plan r w) \<noteq> Inl (Panicked x)"
proof (induction plan arbitrary: r w)
  case (Cons step plan)
  have "fail_with (provider_construction_error step g source) \<noteq> Inl (Panicked x)" for source
    using provider_construction_error_ok [of step g source] by auto
  with Cons show ?case by (auto split: prod.splits sum.splits)
qed simp

lemma build_valid_no_panic: "snd (build_valid p b selected parts w) \<noteq> Inl (Panicked x)"
  using construct_steps_no_panic [of p "mb_config b" "fst parts" "fst (snd parts)"]
  by (auto simp: build_valid_def split: prod.splits sum.splits) (metis snd_conv)

lemma set_without_primary: "set ds \<subseteq> insert primary (set (without_primary primary ds))"
  by (induction primary ds rule: without_primary.induct) auto

lemma build_analysis_error_ok:
  assumes "analysis_ok p b a" "\<not> analysis_is_valid (ba_public a)"
  shows "\<exists>e. build_analysis_error (ba_public a) (ba_failure a) = Inr e \<and> error_ok e \<and>
    set (ga_diagnostics (ba_public a)) \<subseteq> set (err_diagnostics e)"
proof (cases "ba_failure a")
  case None
  moreover have "ga_diagnostics (ba_public a) \<noteq> []" using assms by (auto simp: analysis_ok_def)
  ultimately show ?thesis
    by (cases "ga_diagnostics (ba_public a)")
      (auto simp: build_analysis_error_def from_diagnostics_def error_ok_def)
next
  case (Some f)
  then have "err_diagnostics f \<noteq> []" using assms(1) by (simp add: analysis_ok_def error_ok_def)
  then obtain d ds where f: "err_diagnostics f = d # ds" by (cases "err_diagnostics f") auto
  then show ?thesis
    using Some set_without_primary [of "ga_diagnostics (ba_public a)" d]
    by (auto simp: build_analysis_error_def error_diagnostic_def with_related_diagnostics_def error_ok_def)
qed

lemma builder_build_rejects:
  assumes "builder_ok b" "evaluators_ok p" "builder_analyze p b = Inr g" "\<not> analysis_is_valid g"
  shows "\<exists>e. builder_build p b w = (w, Inl (Failed e)) \<and> error_ok e \<and>
    set (ga_diagnostics g) \<subseteq> set (err_diagnostics e)"
proof -
  obtain a where a: "analyze_builder p b = Inr a" "analysis_ok p b a"
    using analyze_builder_ok [OF assms(1,2)] by blast
  then have g: "g = ba_public a" using assms(3) by (simp add: builder_analyze_def)
  show ?thesis
    using build_analysis_error_ok [OF a(2)] assms(4) a(1) unfolding g by (auto simp: builder_build_def)
qed

lemma valid_parts:
  assumes "analysis_is_valid g" "ga_construction_plan g = Some plan"
  shows "into_valid_parts g = Inr (ga_graph g, plan, ga_auto_configurations g, ga_module_graph g)"
  using assms by (auto simp: analysis_is_valid_def into_valid_parts_def)

lemma builder_build_constructs:
  assumes "builder_ok b" "evaluators_ok p" "analyze_builder p b = Inr a" "analysis_is_valid (ba_public a)"
    and "constructors_ok p" "appliers_ok (ba_selected a)"
    and "ad_output_type_id ` set (ba_selected a) \<inter> sp_type_id ` set (mb_satisfied b) = {}"
  shows "\<exists>w' m plan. builder_build p b w = (w', Inr m) \<and>
    ga_construction_plan (ba_public a) = Some plan \<and> mads_construction_plan m = plan \<and>
    lm_state (mads_lifecycle m) = lm_state (mb_lifecycle b) \<and>
    registered_types (app_registry (mads_context m)) =
      sp_type_id ` set (mb_satisfied b) \<union> ad_output_type_id ` set (ba_selected a) \<union> cs_type_id ` set plan"
proof -
  have ok: "analysis_ok p b a" using analyze_builder_ok [OF assms(1,2)] assms(3) by simp
  let ?avail = "sp_type_id ` set (mb_satisfied b) \<union> ad_output_type_id ` set (ba_selected a)"
  obtain plan where plan: "ga_construction_plan (ba_public a) = Some plan"
    "executable_plan (pr_providers p) ?avail plan" and distinct: "distinct (map ad_output_type_id (ba_selected a))"
    using ok assms(4) unfolding analysis_ok_def by blast
  have reg: "registry_ok (mb_registry b)" "registered_types (mb_registry b) = sp_type_id ` set (mb_satisfied b)"
    using assms(1) by (simp_all add: builder_ok_def)
  have "ad_output_type_id ` set (ba_selected a) \<inter> registered_types (mb_registry b) = {}"
    using assms(7) by (simp only: reg(2))
  from apply_selected_ok [OF assms(6) distinct this reg(1),
      of "mb_config b" "mb_inputs b" "ga_module_graph (ba_public a)" "mb_lifecycle b" w]
  obtain w1 r1 l1 where applied: "apply_selected (mb_config b) (mb_inputs b) (ga_module_graph (ba_public a))
      (ba_selected a) (mb_registry b) (mb_lifecycle b) w = (w1, Inr (r1, l1))"
    "registry_ok r1" "registered_types r1 = ?avail" "lm_state l1 = lm_state (mb_lifecycle b)"
    by (auto simp: reg(2))
  have "executable_plan (pr_providers p) (registered_types r1) plan" using plan(2) by (simp only: applied(3))
  from construct_steps_ok [OF assms(5) this applied(2), of "mb_config b" "ga_graph (ba_public a)" w1]
  obtain w2 r2 where "construct_steps p (mb_config b) (ga_graph (ba_public a)) plan r1 w1 = (w2, Inr r2)"
    "registered_types r2 = ?avail \<union> cs_type_id ` set plan" by (auto simp: applied(3))
  then show ?thesis
    using assms(3,4) valid_parts [OF assms(4) plan(1)] applied plan(1)
    by (simp add: builder_build_def build_valid_def application_context_new_def)
qed

lemma builder_build_no_panic:
  assumes "builder_ok b" "evaluators_ok p"
  shows "(\<exists>g. builder_analyze p b = Inr g) \<and> snd (builder_build p b w) \<noteq> Inl (Panicked x)"
proof -
  obtain a where a: "analyze_builder p b = Inr a" "analysis_ok p b a"
    using analyze_builder_ok [OF assms] by blast
  have "snd (builder_build p b w) \<noteq> Inl (Panicked x)"
  proof (cases "analysis_is_valid (ba_public a)")
    case True
    then obtain plan where "ga_construction_plan (ba_public a) = Some plan"
      using a(2) unfolding analysis_ok_def by blast
    then show ?thesis using a(1) True valid_parts [OF True] build_valid_no_panic by (simp add: builder_build_def)
  next
    case False
    with a build_analysis_error_ok [OF a(2)] show ?thesis by (auto simp: builder_build_def)
  qed
  with a(1) show ?thesis by (simp add: builder_analyze_def)
qed

section \<open>Where the values of a built application come from\<close>

lemma insert_erased_source:
  assumes "registry_ok r" "insert_erased t n v r = Inr r'" "bmap_get k r' = Some x"
  shows "bmap_get k r = Some x \<or> k = t \<and> x = v"
  using insert_erased_get [OF assms(1,2)] assms(3) by (auto split: if_splits)

definition contributes ::
    "config \<Rightarrow> 'v auto_inputs \<Rightarrow> module_graph option \<Rightarrow> ('v, 'w) auto_descriptor \<Rightarrow> 'v erased_provider \<Rightarrow> bool" where
  "contributes config inputs mg d v \<longleftrightarrow>
     (\<exists>w w' con. ad_applier d (apply_context_new (ad_identifier d) config inputs mg) w = (w', Inr con) \<and> v = con_provider con)"

lemma apply_selected_values:
  "apply_selected config inputs mg selected r l w = (w', Inr (r', l')) \<Longrightarrow> registry_ok r \<Longrightarrow>
   registry_ok r' \<and> lm_state l' = lm_state l \<and>
   (\<forall>t v. bmap_get t r' = Some v \<longrightarrow> bmap_get t r = Some v \<or>
      (\<exists>d\<in>set selected. ad_output_type_id d = t \<and> contributes config inputs mg d v))"
proof (induction selected arbitrary: r l w)
  case (Cons d selected)
  obtain w1 con r1 where con: "ad_applier d (apply_context_new (ad_identifier d) config inputs mg) w = (w1, Inr con)"
    and r1: "insert_erased (ad_output_type_id d) (ad_output_type_name d) (con_provider con) r = Inr r1"
    and rest: "apply_selected config inputs mg selected r1
      (fold (add_infrastructure_hook (ad_identifier d)) (con_hooks con) l) w1 = (w', Inr (r', l'))"
    using Cons.prems(1) by (auto split: prod.splits sum.splits)
  from con have d: "contributes config inputs mg d (con_provider con)" by (auto simp: contributes_def)
  from Cons.IH [OF rest insert_erased_types(1) [OF Cons.prems(2) r1]]
  have IH: "registry_ok r'" "lm_state l' = lm_state l" "\<And>t v. bmap_get t r' = Some v \<Longrightarrow> bmap_get t r1 = Some v \<or>
      (\<exists>d\<in>set selected. ad_output_type_id d = t \<and> contributes config inputs mg d v)"
    by simp_all
  have "bmap_get t r = Some v \<or> (\<exists>d\<in>set (d # selected). ad_output_type_id d = t \<and> contributes config inputs mg d v)"
    if "bmap_get t r' = Some v" for t v
    using IH(3) [OF that] insert_erased_source [OF Cons.prems(2) r1, of t v] d by auto
  with IH(1,2) show ?case by blast
qed simp

lemma construct_steps_values:
  "construct_steps p config g plan r w = (w', Inr r') \<Longrightarrow> registry_ok r \<Longrightarrow>
   bmap_get t r' = Some v \<Longrightarrow> bmap_get t r = Some v \<or> t \<in> cs_type_id ` set plan"
proof (induction plan arbitrary: r w)
  case (Cons step plan)
  obtain w1 x r1 where r1: "insert_erased (cs_type_id step) (cs_type_name step) x r = Inr r1"
    and rest: "construct_steps p config g plan r1 w1 = (w', Inr r')"
    using Cons.prems(1) by (auto split: prod.splits sum.splits simp: fail_with_def)
  show ?case
    using Cons.IH [OF rest insert_erased_types(1) [OF Cons.prems(2) r1] Cons.prems(3)]
      insert_erased_source [OF Cons.prems(2) r1, of t v] by auto
qed simp

lemma built_values:
  assumes "builder_ok b" "evaluators_ok p" "builder_build p b w = (w', Inr m)"
  shows "app_config (mads_context m) = mb_config b" "lm_state (mads_lifecycle m) = lm_state (mb_lifecycle b)"
    and "bmap_get t (app_registry (mads_context m)) = Some v \<Longrightarrow>
      bmap_get t (mb_registry b) = Some v \<or>
      (\<exists>d\<in>set (pr_auto p). \<exists>mg. ad_output_type_id d = t \<and> contributes (mb_config b) (mb_inputs b) mg d v) \<or>
      (\<exists>d\<in>set (pr_providers p). pd_type_id d = t)"
proof -
  obtain a where a: "analyze_builder p b = Inr a" "analysis_ok p b a"
    using analyze_builder_ok [OF assms(1,2)] by blast
  have valid: "analysis_is_valid (ba_public a)" using assms(3) a(1) by (auto simp: builder_build_def fail_with_def split: if_splits sum.splits)
  obtain plan where plan: "ga_construction_plan (ba_public a) = Some plan"
    "executable_plan (pr_providers p)
       (sp_type_id ` set (mb_satisfied b) \<union> ad_output_type_id ` set (ba_selected a)) plan"
    and selected: "set (ba_selected a) \<subseteq> set (pr_auto p)"
    using a(2) valid unfolding analysis_ok_def by blast
  let ?mg = "ga_module_graph (ba_public a)"
  have "build_valid p b (ba_selected a) (ga_graph (ba_public a), plan, ga_auto_configurations (ba_public a), ?mg) w = (w', Inr m)"
    using assms(3) a(1) valid valid_parts [OF valid plan(1)] by (simp add: builder_build_def)
  then obtain w1 r1 l1 r2 where
    applied: "apply_selected (mb_config b) (mb_inputs b) ?mg (ba_selected a) (mb_registry b) (mb_lifecycle b) w = (w1, Inr (r1, l1))"
    and steps: "construct_steps p (mb_config b) (ga_graph (ba_public a)) plan r1 w1 = (w', Inr r2)"
    and m: "mads_context m = application_context_new r2 (mb_config b)" "mads_lifecycle m = l1"
    by (auto simp: build_valid_def split: prod.splits sum.splits)
  from apply_selected_values [OF applied] assms(1) have found: "registry_ok r1" "lm_state l1 = lm_state (mb_lifecycle b)"
    "\<And>t v. bmap_get t r1 = Some v \<Longrightarrow> bmap_get t (mb_registry b) = Some v \<or>
      (\<exists>d\<in>set (ba_selected a). ad_output_type_id d = t \<and> contributes (mb_config b) (mb_inputs b) ?mg d v)"
    by (simp_all add: builder_ok_def)
  show "app_config (mads_context m) = mb_config b" "lm_state (mads_lifecycle m) = lm_state (mb_lifecycle b)"
    by (simp_all add: m found(2) application_context_new_def)
  have declared: "\<exists>d\<in>set (pr_providers p). pd_type_id d = t" if t: "t \<in> cs_type_id ` set plan"
  proof -
    from t obtain k where "k < length plan" "t = cs_type_id (plan ! k)" by (auto simp: in_set_conv_nth)
    with plan(2) show ?thesis by (auto simp: executable_plan_def)
  qed
  assume "bmap_get t (app_registry (mads_context m)) = Some v"
  then have "bmap_get t r2 = Some v" by (simp add: m application_context_new_def)
  from construct_steps_values [OF steps found(1) this]
  show "bmap_get t (mb_registry b) = Some v \<or>
      (\<exists>d\<in>set (pr_auto p). \<exists>mg. ad_output_type_id d = t \<and> contributes (mb_config b) (mb_inputs b) mg d v) \<or>
      (\<exists>d\<in>set (pr_providers p). pd_type_id d = t)"
    using found(3) [of t v] selected declared by blast
qed

section \<open>The properties\<close>

definition sample_program :: "provider_descriptor list \<Rightarrow> (nat, unit) mads_program" where
  "sample_program providers =
     \<lparr>pr_providers = providers, pr_modules = [],
      pr_auto = [], pr_constructor = (\<lambda>t _ w. (w, Inr \<lparr>er_type_id = t, er_value = t\<rparr>)),
      pr_config_type = 9, pr_config_value = (\<lambda>_. 0)\<rparr>"

lemma sample_program_ok: "evaluators_ok (sample_program ds)" "constructors_ok (sample_program ds)"
  by (simp_all add: evaluators_ok_def constructors_ok_def sample_program_def)

text \<open>
  C14: Every builder a program can reach, by any sequence of the public operations, has a registry
  that holds exactly the types listed as satisfied, only provided or preconstructed ones, and a
  lifecycle that was not started.
\<close>

theorem builder_invariant:
  assumes "builder_reachable p b"
  shows "registered_types (mb_registry b) = sp_type_id ` set (mb_satisfied b) \<and>
    (\<forall>s\<in>set (mb_satisfied b). sp_state s = State_Provided \<or> sp_state s = State_Preconstructed) \<and>
    lm_state (mb_lifecycle b) = Created"
  using builder_reachable_ok [OF assms] by (simp add: builder_ok_def)

theorem builder_invariant_witness:
  "\<exists>b. builder_new (sample_program []) config_empty = Inr b \<and>
    registered_types (mb_registry b) = sp_type_id ` set (mb_satisfied b)"
proof -
  obtain b where b: "builder_new (sample_program []) config_empty = Inr b"
    using builder_new_ok by blast
  with builder_invariant [OF builder_reachable.new [OF b]] show ?thesis by blast
qed

text \<open>
  C4: Analysing and building never panic, whatever is linked into the program and whatever the
  constructors and integrations do, as long as evaluators answer with well-formed evaluations.
\<close>

theorem build_never_panics:
  assumes "builder_reachable p b" "evaluators_ok p"
  shows "(\<exists>g. builder_analyze p b = Inr g) \<and> snd (builder_build p b w) \<noteq> Inl (Panicked x)"
  using builder_build_no_panic [OF _ assms(2)] builder_reachable_ok [OF assms(1)] by blast

theorem build_never_panics_witness:
  "\<exists>b. builder_new (sample_program []) config_empty = Inr b \<and>
    snd (builder_build (sample_program []) b ()) \<noteq> Inl (Panicked OutOfFuel)"
proof -
  obtain b where b: "builder_new (sample_program []) config_empty = Inr b"
    using builder_new_ok by blast
  with build_never_panics [OF builder_reachable.new [OF b] sample_program_ok(1)] show ?thesis by blast
qed

text \<open>
  C3: An invalid application is rejected before any constructor, integration or hook is called:
  the world is unchanged, and the error carries every diagnostic of the analysis.
\<close>

theorem invalid_application_rejected:
  assumes "builder_reachable p b" "evaluators_ok p" "builder_analyze p b = Inr g" "\<not> analysis_is_valid g"
  shows "\<exists>e. builder_build p b w = (w, Inl (Failed e)) \<and> error_ok e \<and>
    set (ga_diagnostics g) \<subseteq> set (err_diagnostics e)"
  using builder_build_rejects [OF _ assms(2-4)] builder_reachable_ok [OF assms(1)] by blast

theorem invalid_application_rejected_witness:
  "\<exists>b e. builder_new (sample_program [sample_descriptor 1 ''A'' [2]]) config_empty = Inr b \<and>
    builder_build (sample_program [sample_descriptor 1 ''A'' [2]]) b () = ((), Inl (Failed e)) \<and> error_ok e"
proof -
  let ?p = "sample_program [sample_descriptor 1 ''A'' [2]]"
  have "case builder_new ?p config_empty of Inl _ \<Rightarrow> False
     | Inr b \<Rightarrow> (case builder_analyze ?p b of Inl _ \<Rightarrow> False | Inr g \<Rightarrow> ga_diagnostics g \<noteq> [])"
    by code_simp
  then obtain b g where b: "builder_new ?p config_empty = Inr b" and g: "builder_analyze ?p b = Inr g"
    "ga_diagnostics g \<noteq> []" by (auto split: sum.splits)
  from g(2) have "\<not> analysis_is_valid g" by (simp add: analysis_is_valid_def)
  with invalid_application_rejected [OF builder_reachable.new [OF b] sample_program_ok(1) g(1)] b
  show ?thesis by blast
qed

text \<open>
  C2: A valid application is built. If every constructor succeeds whenever all its declared
  dependencies are registered, and every selected integration provides a type the application
  does not, then the build succeeds: it follows the construction plan, and the context holds
  exactly the satisfied types, the outputs of the integrations and the planned types.
\<close>

theorem valid_application_built:
  assumes "builder_reachable p b" "evaluators_ok p" "analyze_builder p b = Inr a" "analysis_is_valid (ba_public a)"
    and "constructors_ok p" "appliers_ok (ba_selected a)"
    and "ad_output_type_id ` set (ba_selected a) \<inter> sp_type_id ` set (mb_satisfied b) = {}"
  shows "\<exists>w' m plan. builder_build p b w = (w', Inr m) \<and>
    ga_construction_plan (ba_public a) = Some plan \<and> mads_construction_plan m = plan \<and>
    lm_state (mads_lifecycle m) = lm_state (mb_lifecycle b) \<and>
    registered_types (app_registry (mads_context m)) =
      sp_type_id ` set (mb_satisfied b) \<union> ad_output_type_id ` set (ba_selected a) \<union> cs_type_id ` set plan"
  using builder_build_constructs [OF _ assms(2-7)] builder_reachable_ok [OF assms(1)] by blast

theorem valid_application_built_witness:
  "\<exists>b w m. builder_new (sample_program [sample_descriptor 1 ''A'' [2, 9], sample_descriptor 2 ''B'' []])
      config_empty = Inr b \<and>
    builder_build (sample_program [sample_descriptor 1 ''A'' [2, 9], sample_descriptor 2 ''B'' []]) b ()
      = (w, Inr m)"
proof -
  let ?p = "sample_program [sample_descriptor 1 ''A'' [2, 9], sample_descriptor 2 ''B'' []]"
  have "case builder_new ?p config_empty of Inl _ \<Rightarrow> False
     | Inr b \<Rightarrow> (case analyze_builder ?p b of Inl _ \<Rightarrow> False
         | Inr a \<Rightarrow> ga_diagnostics (ba_public a) = [] \<and> ba_selected a = [])"
    by code_simp
  then obtain b a where b: "builder_new ?p config_empty = Inr b" and a: "analyze_builder ?p b = Inr a"
    "ga_diagnostics (ba_public a) = []" "ba_selected a = []" by (auto split: sum.splits)
  have "analysis_is_valid (ba_public a)"
    using analyze_builder_ok [OF _ sample_program_ok(1)] builder_new_ok b a by (metis Inr_inject analysis_ok_def)
  from valid_application_built [OF builder_reachable.new [OF b] sample_program_ok(1) a(1) this
      sample_program_ok(2)] a(3) b
  show ?thesis by (simp add: appliers_ok_def) blast
qed

text \<open>
  The path shown with a construction failure is one from a provider nobody depends on to the
  failed provider, along dependency edges, and looking for it never panics.
\<close>

theorem consumer_path_sound:
  "\<exists>r. consumer_path g step = Inr r \<and>
     (\<forall>s. r = Some s \<longrightarrow> (\<exists>path. search_path g path \<and> node_type g (last path) = cs_type_id step \<and>
        s = names_path g path))"
  by (rule consumer_path_ok)

definition sample_step :: "type_id \<Rightarrow> string \<Rightarrow> construction_step" where
  "sample_step t name =
     \<lparr>cs_type_id = t, cs_type_name = name, cs_origin = Origin_Service, cs_location = sample_location,
      cs_descriptor = sample_descriptor t name []\<rparr>"

theorem consumer_path_sound_witness:
  "consumer_path (sample_graph [(1, 2)]) (sample_step 2 ''B'') = Inr (Some ''A -> B'') \<and>
    (\<exists>path. search_path (sample_graph [(1, 2)]) path \<and> ''A -> B'' = names_path (sample_graph [(1, 2)]) path)"
proof -
  have "consumer_path (sample_graph [(1, 2)]) (sample_step 2 ''B'') = Inr (Some ''A -> B'')" by code_simp
  then show ?thesis
    using consumer_path_sound [of "sample_graph [(1, 2)]" "sample_step 2 ''B''"] by auto
qed

end
