(* ===== verification/Cli_Project.thy ===== *)
theory Cli_Project
  imports Rust_Prelude
begin

text \<open>
  Errors of the command line (\<open>crates/mads-cli/src/diagnostic.rs\<close>) and the resolution of a Cargo
  project (\<open>crates/mads-cli/src/project.rs\<close>): which package and binary a command means, and which
  local packages its application is built from.

  Cargo's metadata is data of another crate. The records hold the fields the code reads; the three
  methods it calls on the metadata (\<open>workspace_packages\<close>, \<open>root_package\<close>,
  \<open>workspace_default_packages\<close>) are fields with their results. The file system enters by the
  function \<open>canonicalize\<close>. A path is the list of its components, which is what Rust compares,
  sorts and tests prefixes of.
\<close>

section \<open>Errors of the command line\<close>

record cli_error =
  ce_code :: string
  ce_title :: string
  ce_message :: string
  ce_subject :: "string option"
  ce_suggestions :: "string list"
  ce_source :: "string option"

definition "MADS200 = ''MADS200''"
definition "MADS201 = ''MADS201''"
definition "MADS202 = ''MADS202''"
definition "MADS220 = ''MADS220''"

definition cli_error_new :: "string \<Rightarrow> string \<Rightarrow> string \<Rightarrow> cli_error" where
  "cli_error_new code title message =
     \<lparr>ce_code = code, ce_title = title, ce_message = message, ce_subject = None,
      ce_suggestions = [], ce_source = None\<rparr>"

definition cli_with_subject :: "string \<Rightarrow> cli_error \<Rightarrow> cli_error" where
  "cli_with_subject subject e = e\<lparr>ce_subject := Some subject\<rparr>"

definition cli_with_suggestion :: "string \<Rightarrow> cli_error \<Rightarrow> cli_error" where
  "cli_with_suggestion suggestion e = e\<lparr>ce_suggestions := ce_suggestions e @ [suggestion]\<rparr>"

definition cli_with_source :: "string \<Rightarrow> cli_error \<Rightarrow> cli_error" where
  "cli_with_source source e = e\<lparr>ce_source := Some source\<rparr>"

definition display_cli_error :: "cli_error \<Rightarrow> string" where
  "display_cli_error e =
     ''error['' @ ce_code e @ '']: '' @ ce_title e
     @ (case ce_subject e of None \<Rightarrow> [] | Some s \<Rightarrow> CHR 0x0A # ''  = subject: '' @ s)
     @ CHR 0x0A # ''  = '' @ ce_message e
     @ concat (map (\<lambda>s. CHR 0x0A # ''  help: '' @ s) (ce_suggestions e))"

text \<open>The fields the \<open>Debug\<close> implementation shows, before the standard library lays them out.\<close>

record debug_fields =
  db_code :: string
  db_title :: string
  db_message :: string
  db_subject :: "string option"
  db_suggestions :: "string list"
  db_source :: string

definition debug_cli_error :: "cli_error \<Rightarrow> debug_fields" where
  "debug_cli_error e =
     \<lparr>db_code = ce_code e, db_title = ce_title e,
      db_message = (if ce_source e \<noteq> None then ''[REDACTED]'' else ce_message e),
      db_subject = ce_subject e, db_suggestions = ce_suggestions e,
      db_source = (if ce_source e \<noteq> None then ''[REDACTED]'' else ''None'')\<rparr>"

text \<open>Neither text shows the cause, and with a cause the debug text hides the message too.\<close>

lemma cli_error_source_hidden:
  "display_cli_error (cli_with_source a e) = display_cli_error (cli_with_source b e)"
  "debug_cli_error (cli_with_source a (e\<lparr>ce_message := m\<rparr>)) =
     debug_cli_error (cli_with_source b (e\<lparr>ce_message := n\<rparr>))"
  by (simp_all add: display_cli_error_def debug_cli_error_def cli_with_source_def)

section \<open>Paths\<close>

datatype path_component = RootDir | CurDir | ParentDir | Normal string

type_synonym path = "path_component list"

definition component_key :: "path_component \<Rightarrow> nat \<times> string" where
  "component_key c =
     (case c of RootDir \<Rightarrow> (1, []) | CurDir \<Rightarrow> (2, []) | ParentDir \<Rightarrow> (3, []) | Normal name \<Rightarrow> (4, name))"

lemma component_key_inject [simp]: "component_key a = component_key b \<longleftrightarrow> a = b"
  by (auto simp: component_key_def split: path_component.splits)

instantiation path_component :: linorder
begin

definition less_eq_path_component :: "path_component \<Rightarrow> path_component \<Rightarrow> bool" where
  "less_eq_path_component a b \<longleftrightarrow> component_key a \<le> component_key b"

definition less_path_component :: "path_component \<Rightarrow> path_component \<Rightarrow> bool" where
  "less_path_component a b \<longleftrightarrow> component_key a < component_key b"

instance
  by standard (auto simp: less_eq_path_component_def less_path_component_def less_le_not_le
    dest: antisym)

end

definition path_starts_with :: "path \<Rightarrow> path \<Rightarrow> bool" where
  "path_starts_with base p \<longleftrightarrow> take (length base) p = base"

lemma path_starts_with_iff: "path_starts_with base p \<longleftrightarrow> (\<exists>rest. p = base @ rest)"
  unfolding path_starts_with_def by (metis append_eq_conv_conj append_take_drop_id)

definition path_parent :: "path \<Rightarrow> path option" where
  "path_parent p = (if p = [] \<or> last p = RootDir then None else Some (butlast p))"

definition path_file_name :: "path \<Rightarrow> string option" where
  "path_file_name p =
     (if p = [] then None else case last p of Normal name \<Rightarrow> Some name | _ \<Rightarrow> None)"

text \<open>The part of a name behind its last dot, unless the dot is its first character.\<close>

definition name_extension :: "string \<Rightarrow> string option" where
  "name_extension name =
     (let after = takeWhile (\<lambda>c. c \<noteq> CHR ''.'') (rev name);
          before = rev (drop (Suc (length after)) (rev name)) in
      if CHR ''.'' \<notin> set name \<or> before = [] then None else Some (rev after))"

definition path_extension :: "path \<Rightarrow> string option" where
  "path_extension p = Option.bind (path_file_name p) name_extension"

definition path_join :: "path \<Rightarrow> string list \<Rightarrow> path" where
  "path_join p names = p @ map Normal names"

lemma path_parent_join: "path_parent p = Some q \<Longrightarrow> path_file_name p = Some name \<Longrightarrow> p = path_join q [name]"
  by (auto simp: path_parent_def path_file_name_def path_join_def
    split: if_splits path_component.splits) (metis append_butlast_last_id)

section \<open>Cargo metadata\<close>

type_synonym package_id = string
type_synonym version = string

datatype target_kind = Bin | OtherTarget string

record cargo_target =
  tg_name :: string
  tg_kind :: "target_kind list"

record cargo_package =
  pk_id :: package_id
  pk_name :: string
  pk_version :: version
  pk_source :: "string option"
  pk_manifest_path :: path
  pk_targets :: "cargo_target list"
  pk_default_run :: "string option"

record resolve_node =
  nd_id :: package_id
  nd_deps :: "package_id list"

record cargo_metadata =
  cm_packages :: "cargo_package list"
  cm_resolve :: "resolve_node list option"
  cm_workspace_root :: path
  cm_workspace_packages :: "cargo_package list"
  cm_root_package :: "cargo_package option"
  cm_workspace_default_packages :: "cargo_package list"

record resolved_package =
  rp_workspace_root :: path
  rp_package_root :: path
  rp_manifest_path :: path
  rp_package_id :: package_id
  rp_package_name :: string

record resolved_application =
  ra_package :: resolved_package
  ra_binary_name :: string
  ra_mads_version :: "version option"

record target_selection =
  ts_package :: "string option"
  ts_binary :: "string option"

datatype cli_failure = CliPanicked panic | CliFailed cli_error

fun or_cli_panic :: "panic + 'a \<Rightarrow> cli_failure + 'a" where
  "or_cli_panic (Inl p) = Inl (CliPanicked p)"
| "or_cli_panic (Inr x) = Inr x"

fun or_cli_error :: "cli_error + 'a \<Rightarrow> cli_failure + 'a" where
  "or_cli_error (Inl e) = Inl (CliFailed e)"
| "or_cli_error (Inr x) = Inr x"

section \<open>Selecting a package and a binary\<close>

definition ambiguous_target :: "string \<Rightarrow> cli_error" where
  "ambiguous_target message = cli_error_new MADS200 ''Cargo application target is ambiguous'' message"

definition sorted_package_names :: "cargo_package list \<Rightarrow> string list" where
  "sorted_package_names packages = sort (map pk_name packages)"

definition workspace_package_names :: "cargo_metadata \<Rightarrow> string list" where
  "workspace_package_names m = sorted_package_names (cm_workspace_packages m)"

definition unknown_package :: "string \<Rightarrow> string list \<Rightarrow> cli_error" where
  "unknown_package name package_names =
     (let available = (if package_names = [] then ''the workspace contains no packages''
        else ''available packages: '' @ join_with '', '' package_names) in
      cli_with_suggestion ''pass --package <package>''
        (cli_with_subject (''package `'' @ name @ ''`'')
          (ambiguous_target
            (''no workspace package is named `'' @ name @ ''`; '' @ available))))"

definition resolve_default_package :: "cargo_metadata \<Rightarrow> cli_error + cargo_package" where
  "resolve_default_package m =
     (case cm_workspace_default_packages m of
        [package] \<Rightarrow> Inr package
      | [] \<Rightarrow> Inl (cli_with_suggestion ''pass --package <package>'' (cli_with_subject ''workspace''
          (ambiguous_target ''no default workspace package can be selected'')))
      | candidates \<Rightarrow> Inl (cli_with_suggestion ''pass --package <package>''
          (cli_with_subject ''workspace''
            (ambiguous_target (''more than one package can be selected: ''
              @ join_with '', '' (sorted_package_names candidates))))))"

definition resolved_package_of :: "cargo_metadata \<Rightarrow> cargo_package \<Rightarrow> panic + resolved_package" where
  "resolved_package_of m package =
     and_then (expect ''Cargo manifests always have a parent directory''
         (path_parent (pk_manifest_path package)))
       (\<lambda>root. Inr \<lparr>rp_workspace_root = cm_workspace_root m, rp_package_root = root,
          rp_manifest_path = pk_manifest_path package, rp_package_id = pk_id package,
          rp_package_name = pk_name package\<rparr>)"

definition resolve_package :: "cargo_metadata \<Rightarrow> string option \<Rightarrow> cli_failure + resolved_package" where
  "resolve_package m package =
     and_then (or_cli_error (case package of
         Some name \<Rightarrow>
           ok_or (unknown_package name (workspace_package_names m))
             (find (\<lambda>candidate. pk_name candidate = name) (cm_workspace_packages m))
       | None \<Rightarrow>
           (case cm_root_package m of
              Some package \<Rightarrow> Inr package
            | None \<Rightarrow> resolve_default_package m)))
       (\<lambda>selected. or_cli_panic (resolved_package_of m selected))"

definition resolve_binary :: "cargo_package \<Rightarrow> string option \<Rightarrow> cli_error + string" where
  "resolve_binary package binary =
     (let binaries = filter (\<lambda>target. Bin \<in> set (tg_kind target)) (pk_targets package);
          subject = ''package `'' @ pk_name package @ ''`'';
          failed = (\<lambda>message. cli_with_suggestion ''pass --bin <binary>''
            (cli_with_subject subject (ambiguous_target message))) in
      case binary of
        Some binary \<Rightarrow>
          ok_or (failed (subject @ '' has no binary target named `'' @ binary @ ''`''))
            (map_option tg_name (find (\<lambda>target. tg_name target = binary) binaries))
      | None \<Rightarrow>
          (case pk_default_run package of
             Some default_run \<Rightarrow>
               ok_or (failed (subject @ '' declares default-run `'' @ default_run
                   @ ''`, but no matching binary exists''))
                 (map_option tg_name (find (\<lambda>target. tg_name target = default_run) binaries))
           | None \<Rightarrow>
               (case binaries of
                  [binary] \<Rightarrow> Inr (tg_name binary)
                | [] \<Rightarrow> Inl (failed (subject @ '' has no binary targets''))
                | _ \<Rightarrow> Inl (failed (subject @ '' has more than one binary target: ''
                    @ join_with '', '' (sort (map tg_name binaries)))))))"

definition direct_mads_version :: "cargo_metadata \<Rightarrow> cargo_package \<Rightarrow> version option" where
  "direct_mads_version m package =
     Option.bind (cm_resolve m) (\<lambda>nodes.
     Option.bind (find (\<lambda>node. nd_id node = pk_id package) nodes) (\<lambda>node.
       (case List.map_filter (\<lambda>dependency.
           map_option pk_version
             (find (\<lambda>candidate. pk_id candidate = dependency \<and> pk_name candidate = ''mads'')
               (cm_packages m))) (nd_deps node) of
          [] \<Rightarrow> None | v # _ \<Rightarrow> Some v)))"

definition resolve_application ::
    "cargo_metadata \<Rightarrow> target_selection \<Rightarrow> cli_failure + resolved_application" where
  "resolve_application m selection =
     and_then (resolve_package m (ts_package selection)) (\<lambda>package.
     and_then (or_cli_panic (expect ''no package with this ID''
         (find (\<lambda>p. pk_id p = rp_package_id package) (cm_packages m)))) (\<lambda>selected.
     and_then (or_cli_error (resolve_binary selected (ts_binary selection))) (\<lambda>binary_name.
     Inr \<lparr>ra_package = package, ra_binary_name = binary_name,
          ra_mads_version = direct_mads_version m selected\<rparr>)))"

section \<open>The packages an application is built from\<close>

text \<open>The loop over the growing vector \<open>reachable\<close>; \<open>push_new\<close> is its inner loop.\<close>

definition push_new :: "package_id list \<Rightarrow> package_id list \<Rightarrow> package_id list" where
  "push_new deps reachable = fold (\<lambda>d r. if d \<in> set r then r else r @ [d]) deps reachable"

lemma push_new_Cons [simp]:
  "push_new (d # deps) r = push_new deps (if d \<in> set r then r else r @ [d])"
  by (simp add: push_new_def)

lemma push_new_Nil [simp]: "push_new [] r = r"
  by (simp add: push_new_def)

lemma set_push_new [simp]: "set (push_new deps r) = set r \<union> set deps"
  by (induction deps arbitrary: r) auto

lemma distinct_push_new [simp]: "distinct r \<Longrightarrow> distinct (push_new deps r)"
  by (induction deps arbitrary: r) auto

lemma push_new_prefix: "\<exists>new. push_new deps r = r @ new \<and> set new \<subseteq> set deps - set r"
proof (induction deps arbitrary: r)
  case (Cons d deps)
  from this [of "r @ [d]"] this [of r] show ?case by fastforce
qed simp

definition node_deps :: "resolve_node list \<Rightarrow> package_id \<Rightarrow> package_id list" where
  "node_deps nodes pid =
     (case find (\<lambda>node. nd_id node = pid) nodes of Some node \<Rightarrow> nd_deps node | None \<Rightarrow> [])"

definition all_deps :: "resolve_node list \<Rightarrow> package_id set" where
  "all_deps nodes = \<Union> (set ` nd_deps ` set nodes)"

lemma finite_all_deps [simp]: "finite (all_deps nodes)"
  by (simp add: all_deps_def)

lemma node_deps_subset: "set (node_deps nodes pid) \<subseteq> all_deps nodes"
proof (cases "find (\<lambda>node. nd_id node = pid) nodes")
  case (Some node)
  then have "node \<in> set nodes" by (blast dest: find_SomeD)
  then show ?thesis by (auto simp: node_deps_def all_deps_def Some)
qed (simp add: node_deps_def)

function reachable_loop ::
    "resolve_node list \<Rightarrow> package_id list \<Rightarrow> nat \<Rightarrow> package_id list" where
  "reachable_loop nodes reachable index =
     (if index < length reachable
      then reachable_loop nodes (push_new (node_deps nodes (reachable ! index)) reachable) (Suc index)
      else reachable)"
  by pat_completeness auto

termination reachable_loop
proof (relation "measures [\<lambda>(nodes, r, i). card (all_deps nodes - set r), \<lambda>(nodes, r, i). length r - i]",
    goal_cases)
  case 1
  show ?case by simp
next
  case (2 nodes r i)
  let ?r = "push_new (node_deps nodes (r ! i)) r"
  obtain new where new: "?r = r @ new" "set new \<subseteq> all_deps nodes - set r"
    using push_new_prefix [of "node_deps nodes (r ! i)" r] node_deps_subset [of nodes "r ! i"] by blast
  show ?case
  proof (cases "new = []")
    case True
    with new 2 show ?thesis by simp
  next
    case False
    then have "all_deps nodes - set ?r \<subset> all_deps nodes - set r" using new by (cases new) auto
    then have "card (all_deps nodes - set ?r) < card (all_deps nodes - set r)"
      by (simp add: psubset_card_mono)
    then show ?thesis by simp
  qed
qed

declare reachable_loop.simps [simp del]

definition reachable_package_ids :: "cargo_metadata \<Rightarrow> package_id \<Rightarrow> package_id list" where
  "reachable_package_ids m selected =
     (case cm_resolve m of
        None \<Rightarrow> [selected]
      | Some nodes \<Rightarrow> reachable_loop nodes [selected] 0)"

definition canonical_path :: "(path \<Rightarrow> path option) \<Rightarrow> path \<Rightarrow> path" where
  "canonical_path canonicalize p = (case canonicalize p of Some q \<Rightarrow> q | None \<Rightarrow> p)"

definition package_root_of :: "(path \<Rightarrow> path option) \<Rightarrow> cargo_package \<Rightarrow> panic + path" where
  "package_root_of canonicalize package =
     and_then (expect ''Cargo manifests always have a parent directory''
         (path_parent (pk_manifest_path package)))
       (\<lambda>root. Inr (canonical_path canonicalize root))"

definition sort_dedup :: "path list \<Rightarrow> path list" where
  "sort_dedup roots = dedup_by (\<lambda>a b. a = b) (sort roots)"

definition local_watch_roots ::
    "(path \<Rightarrow> path option) \<Rightarrow> cargo_metadata \<Rightarrow> resolved_application \<Rightarrow> panic + path list" where
  "local_watch_roots canonicalize m application =
     (let reachable = reachable_package_ids m (rp_package_id (ra_package application)) in
      and_then (try_map (package_root_of canonicalize)
          (filter (\<lambda>package. pk_source package = None \<and> pk_id package \<in> set reachable) (cm_packages m)))
        (\<lambda>roots.
          let selected_root = canonical_path canonicalize (rp_package_root (ra_package application));
              roots = (if selected_root \<in> set roots then roots else roots @ [selected_root]) in
          Inr (sort_dedup roots)))"

definition local_package_roots ::
    "(path \<Rightarrow> path option) \<Rightarrow> cargo_metadata \<Rightarrow> panic + path list" where
  "local_package_roots canonicalize m =
     and_then (try_map (package_root_of canonicalize)
         (filter (\<lambda>package. pk_source package = None) (cm_packages m)))
       (\<lambda>roots. Inr (sort_dedup roots))"

section \<open>Reachability\<close>

definition depends_on :: "resolve_node list \<Rightarrow> (package_id \<times> package_id) set" where
  "depends_on nodes = {(a, b). b \<in> set (node_deps nodes a)}"

lemma reachable_loop_exact:
  assumes "distinct r" "s \<in> set r" "set r \<subseteq> {p. (s, p) \<in> (depends_on nodes)\<^sup>*}"
    and "\<forall>k < i. k < length r \<longrightarrow> set (node_deps nodes (r ! k)) \<subseteq> set r"
  shows "distinct (reachable_loop nodes r i) \<and>
    set (reachable_loop nodes r i) = {p. (s, p) \<in> (depends_on nodes)\<^sup>*}"
  using assms
proof (induction nodes r i rule: reachable_loop.induct)
  case (1 nodes r i)
  show ?case
  proof (cases "i < length r")
    case True
    let ?r = "push_new (node_deps nodes (r ! i)) r"
    from True 1(4) have ri: "(s, r ! i) \<in> (depends_on nodes)\<^sup>*" by (auto simp: subset_iff)
    have reach: "set ?r \<subseteq> {p. (s, p) \<in> (depends_on nodes)\<^sup>*}"
      using 1(4) rtrancl.rtrancl_into_rtrancl [OF ri] by (auto simp: depends_on_def)
    obtain new where new: "?r = r @ new" using push_new_prefix by blast
    have closed: "set (node_deps nodes (?r ! k)) \<subseteq> set ?r" if "k < Suc i" for k
    proof -
      have "?r ! k = r ! k" using that True new by (simp add: nth_append)
      moreover have "set (node_deps nodes (r ! k)) \<subseteq> set ?r"
        using that 1(5) True by (cases "k = i") (auto simp: less_Suc_eq)
      ultimately show ?thesis by simp
    qed
    with 1(1) [OF True _ _ reach] 1(2,3) True show ?thesis by (subst (1 2) reachable_loop.simps) simp
  next
    case False
    have "p \<in> set r" if "(s, p) \<in> (depends_on nodes)\<^sup>*" for p
      using that
    proof (induction rule: rtrancl_induct)
      case base
      then show ?case by (rule 1(3))
    next
      case (step y z)
      then obtain k where "k < length r" "r ! k = y" by (auto simp: in_set_conv_nth)
      moreover from this have "k < i" using False by simp
      ultimately show ?case using 1(5) step.hyps(2) by (auto simp: depends_on_def)
    qed
    with False 1(2,4) show ?thesis by (subst (1 2) reachable_loop.simps) auto
  qed
qed

definition metadata_nodes :: "cargo_metadata \<Rightarrow> resolve_node list" where
  "metadata_nodes m = (case cm_resolve m of None \<Rightarrow> [] | Some nodes \<Rightarrow> nodes)"

lemma reachable_package_ids_exact:
  "distinct (reachable_package_ids m s) \<and>
   set (reachable_package_ids m s) = {p. (s, p) \<in> (depends_on (metadata_nodes m))\<^sup>*}"
proof (cases "cm_resolve m")
  case None
  have "depends_on [] = {}" by (auto simp: depends_on_def node_deps_def)
  then show ?thesis by (auto simp: reachable_package_ids_def metadata_nodes_def None)
next
  case (Some nodes)
  have "distinct (reachable_loop nodes [s] 0) \<and>
      set (reachable_loop nodes [s] 0) = {p. (s, p) \<in> (depends_on nodes)\<^sup>*}"
    by (rule reachable_loop_exact) auto
  then show ?thesis by (simp add: reachable_package_ids_def metadata_nodes_def Some)
qed

section \<open>Watch roots\<close>

lemma set_dedup_eq: "sorted xs \<Longrightarrow> set (dedup_by (\<lambda>a b. a = b) xs) = set (xs::'a::linorder list)"
  by (induction "\<lambda>a b::'a. a = b" xs rule: dedup_by.induct) auto

lemma sort_dedup_correct:
  "sorted_wrt (<) (sort_dedup roots)" "set (sort_dedup roots) = set roots"
proof -
  show "sorted_wrt (<) (sort_dedup roots)"
    using dedup_by_strict [of "\<lambda>x. x" "sort roots"] by (simp add: sort_dedup_def)
  show "set (sort_dedup roots) = set roots" by (simp add: sort_dedup_def set_dedup_eq)
qed

definition metadata_ok :: "cargo_metadata \<Rightarrow> bool" where
  "metadata_ok m \<longleftrightarrow> (\<forall>p \<in> set (cm_packages m). path_parent (pk_manifest_path p) \<noteq> None)"

lemma package_roots_ok:
  assumes "metadata_ok m" "set ps \<subseteq> set (cm_packages m)"
  shows "try_map (package_root_of canonicalize) ps =
    Inr (map (\<lambda>p. canonical_path canonicalize (butlast (pk_manifest_path p))) ps)"
  using assms(2)
proof (induction ps)
  case (Cons p ps)
  then have "path_parent (pk_manifest_path p) = Some (butlast (pk_manifest_path p))"
    using assms(1) by (auto simp: metadata_ok_def path_parent_def split: if_splits)
  with Cons show ?case by (simp add: package_root_of_def)
qed simp

lemma local_watch_roots_exact:
  assumes "metadata_ok m"
  shows "\<exists>roots. local_watch_roots canonicalize m application = Inr roots \<and>
    sorted_wrt (<) roots \<and>
    set roots = insert (canonical_path canonicalize (rp_package_root (ra_package application)))
      {canonical_path canonicalize (butlast (pk_manifest_path p)) | p. p \<in> set (cm_packages m) \<and>
        pk_source p = None \<and>
        (rp_package_id (ra_package application), pk_id p) \<in> (depends_on (metadata_nodes m))\<^sup>*}"
proof -
  let ?ids = "reachable_package_ids m (rp_package_id (ra_package application))"
  let ?ps = "filter (\<lambda>p. pk_source p = None \<and> pk_id p \<in> set ?ids) (cm_packages m)"
  have "set ?ps \<subseteq> set (cm_packages m)" by auto
  note roots = package_roots_ok [OF assms this, of canonicalize]
  show ?thesis
    using reachable_package_ids_exact [of m "rp_package_id (ra_package application)"]
    unfolding local_watch_roots_def Let_def roots and_then.simps
    by - (intro exI conjI, rule refl, rule sort_dedup_correct, auto simp: sort_dedup_correct)
qed

lemma local_package_roots_exact:
  assumes "metadata_ok m"
  shows "\<exists>roots. local_package_roots canonicalize m = Inr roots \<and> sorted_wrt (<) roots \<and>
    set roots = {canonical_path canonicalize (butlast (pk_manifest_path p)) | p.
      p \<in> set (cm_packages m) \<and> pk_source p = None}"
proof -
  let ?ps = "filter (\<lambda>p. pk_source p = None) (cm_packages m)"
  have "set ?ps \<subseteq> set (cm_packages m)" by auto
  note roots = package_roots_ok [OF assms this, of canonicalize]
  show ?thesis by (auto simp: local_package_roots_def roots sort_dedup_correct)
qed

section \<open>Resolution\<close>

text \<open>
  What Cargo promises of its metadata: every package is listed, identifiers are unique, and every
  manifest is in a directory.
\<close>

definition cargo_contract :: "cargo_metadata \<Rightarrow> bool" where
  "cargo_contract m \<longleftrightarrow> metadata_ok m \<and> distinct (map pk_id (cm_packages m)) \<and>
     set (cm_workspace_packages m) \<subseteq> set (cm_packages m) \<and>
     set (cm_workspace_default_packages m) \<subseteq> set (cm_packages m) \<and>
     set_option (cm_root_package m) \<subseteq> set (cm_packages m)"

text \<open>The package and the binary that a selection means, where it means one.\<close>

definition selected_package :: "cargo_metadata \<Rightarrow> string option \<Rightarrow> cargo_package \<Rightarrow> bool" where
  "selected_package m name p \<longleftrightarrow>
     (case name of
        Some n \<Rightarrow> find (\<lambda>c. pk_name c = n) (cm_workspace_packages m) = Some p
      | None \<Rightarrow> cm_root_package m = Some p \<or>
          cm_root_package m = None \<and> cm_workspace_default_packages m = [p])"

definition binaries :: "cargo_package \<Rightarrow> string list" where
  "binaries p = map tg_name (filter (\<lambda>t. Bin \<in> set (tg_kind t)) (pk_targets p))"

definition selected_binary :: "cargo_package \<Rightarrow> string option \<Rightarrow> string \<Rightarrow> bool" where
  "selected_binary p name b \<longleftrightarrow>
     (case (name, pk_default_run p) of
        (Some n, _) \<Rightarrow> b = n \<and> n \<in> set (binaries p)
      | (None, Some n) \<Rightarrow> b = n \<and> n \<in> set (binaries p)
      | (None, None) \<Rightarrow> binaries p = [b])"

lemma resolve_package_selected:
  assumes "cargo_contract m" "selected_package m name p"
  shows "\<exists>r. resolve_package m name = Inr r \<and> rp_package_id r = pk_id p \<and> p \<in> set (cm_packages m)"
proof -
  have p: "p \<in> set (cm_packages m)"
    using assms by (auto simp: cargo_contract_def selected_package_def split: option.splits dest: find_SomeD)
  then obtain root where "path_parent (pk_manifest_path p) = Some root"
    using assms(1) by (auto simp: cargo_contract_def metadata_ok_def)
  with p assms(2) show ?thesis
    by (auto simp: resolve_package_def selected_package_def resolved_package_of_def
        resolve_default_package_def split: option.splits)
qed

lemma ce_code_simps [simp]:
  "ce_code (cli_error_new c t m) = c" "ce_code (cli_with_subject s e) = ce_code e"
  "ce_code (cli_with_suggestion s e) = ce_code e" "ce_code (cli_with_source s e) = ce_code e"
  "ce_code (ambiguous_target m) = MADS200" "ce_code (unknown_package n ns) = MADS200"
  by (simp_all add: cli_error_new_def cli_with_subject_def cli_with_suggestion_def
      cli_with_source_def ambiguous_target_def unknown_package_def Let_def)

lemma resolve_default_package_exact:
  "case resolve_default_package m of
     Inr p \<Rightarrow> cm_workspace_default_packages m = [p]
   | Inl e \<Rightarrow> ce_code e = MADS200 \<and> (\<forall>p. cm_workspace_default_packages m \<noteq> [p])"
  by (auto simp: resolve_default_package_def split: list.splits)

lemma resolve_package_unselected:
  assumes "\<And>p. \<not> selected_package m name p"
  shows "\<exists>e. resolve_package m name = Inl (CliFailed e) \<and> ce_code e = MADS200"
proof (cases name)
  case None
  have root: "cm_root_package m = None"
  proof (rule ccontr)
    assume "cm_root_package m \<noteq> None"
    with None assms show False by (auto simp: selected_package_def)
  qed
  with None assms resolve_default_package_exact [of m] show ?thesis
    by (auto simp: resolve_package_def selected_package_def split: sum.splits)
next
  case (Some n)
  with assms have "find (\<lambda>c. pk_name c = n) (cm_workspace_packages m) = None"
    by (cases "find (\<lambda>c. pk_name c = n) (cm_workspace_packages m)") (auto simp: selected_package_def)
  with Some show ?thesis by (simp add: resolve_package_def)
qed

lemma find_name: "map_option tg_name (find (\<lambda>t. tg_name t = n) ts) =
    (if n \<in> tg_name ` set ts then Some n else None)"
  by (induction ts) auto

lemma resolve_binary_exact:
  "case resolve_binary p name of
     Inr b \<Rightarrow> selected_binary p name b
   | Inl e \<Rightarrow> ce_code e = MADS200 \<and> (\<forall>b. \<not> selected_binary p name b)"
proof -
  have set_binaries: "set (binaries p) = tg_name ` set (filter (\<lambda>t. Bin \<in> set (tg_kind t)) (pk_targets p))"
    by (simp add: binaries_def)
  show ?thesis
    unfolding resolve_binary_def selected_binary_def Let_def find_name set_binaries [symmetric]
    by (auto simp: binaries_def split: option.splits list.splits)
qed

lemma find_key: "distinct (map f xs) \<Longrightarrow> x \<in> set xs \<Longrightarrow> find (\<lambda>y. f y = f x) xs = Some x"
  by (induction xs) (auto simp: image_iff)

lemma resolve_application_exact:
  assumes "cargo_contract m"
  shows "case resolve_application m selection of
     Inr a \<Rightarrow> (\<exists>p. selected_package m (ts_package selection) p \<and>
       rp_package_id (ra_package a) = pk_id p \<and> selected_binary p (ts_binary selection) (ra_binary_name a))
   | Inl f \<Rightarrow> (\<exists>e. f = CliFailed e \<and> ce_code e = MADS200) \<and>
       (\<forall>p. selected_package m (ts_package selection) p \<longrightarrow>
         (\<forall>b. \<not> selected_binary p (ts_binary selection) b))"
proof (cases "\<exists>p. selected_package m (ts_package selection) p")
  case True
  then obtain p where p: "selected_package m (ts_package selection) p" ..
  have only: "q = p" if "selected_package m (ts_package selection) q" for q
    using p that by (auto simp: selected_package_def split: option.splits)
  obtain r where r: "resolve_package m (ts_package selection) = Inr r" "rp_package_id r = pk_id p"
    "p \<in> set (cm_packages m)" using resolve_package_selected [OF assms p] by blast
  have "find (\<lambda>q. pk_id q = pk_id p) (cm_packages m) = Some p"
    using find_key [of pk_id "cm_packages m" p] assms r(3) by (simp add: cargo_contract_def)
  with r p resolve_binary_exact [of p "ts_binary selection"] show ?thesis
    by (cases "resolve_binary p (ts_binary selection)")
      (auto simp: resolve_application_def dest: only)
next
  case False
  with resolve_package_unselected [of m "ts_package selection"] show ?thesis
    by (auto simp: resolve_application_def)
qed

section \<open>Properties\<close>

definition sample_package :: "package_id \<Rightarrow> string option \<Rightarrow> cargo_package" where
  "sample_package n source = \<lparr>pk_id = n, pk_name = n, pk_version = ''1'', pk_source = source,
     pk_manifest_path = [RootDir, Normal n, Normal ''Cargo.toml''],
     pk_targets = [\<lparr>tg_name = n, tg_kind = [Bin]\<rparr>], pk_default_run = None\<rparr>"

definition sample_metadata :: cargo_metadata where
  "sample_metadata = \<lparr>cm_packages = [sample_package ''a'' None, sample_package ''b'' None, sample_package ''c'' None],
     cm_resolve = Some [\<lparr>nd_id = ''a'', nd_deps = [''b'']\<rparr>, \<lparr>nd_id = ''b'', nd_deps = [''a'']\<rparr>],
     cm_workspace_root = [RootDir], cm_workspace_packages = [sample_package ''a'' None],
     cm_root_package = Some (sample_package ''a'' None), cm_workspace_default_packages = []\<rparr>"

lemma sample_metadata_ok: "cargo_contract sample_metadata"
  by code_simp

text \<open>
  Resolving an application for a Cargo project that keeps Cargo's promises never panics. It
  returns the package and the binary that the selection means: the named ones, or the root, default
  or only one. When the selection means none or several it fails with MADS200.
\<close>

theorem application_resolution_exact:
  assumes "cargo_contract m"
  shows "case resolve_application m selection of
     Inr a \<Rightarrow> (\<exists>p. selected_package m (ts_package selection) p \<and>
       rp_package_id (ra_package a) = pk_id p \<and> selected_binary p (ts_binary selection) (ra_binary_name a))
   | Inl f \<Rightarrow> (\<exists>e. f = CliFailed e \<and> ce_code e = MADS200) \<and>
       (\<forall>p. selected_package m (ts_package selection) p \<longrightarrow>
         (\<forall>b. \<not> selected_binary p (ts_binary selection) b))"
  using assms by (rule resolve_application_exact)

theorem application_resolution_exact_witness:
  "\<exists>a. resolve_application sample_metadata \<lparr>ts_package = None, ts_binary = None\<rparr> = Inr a \<and>
     rp_package_id (ra_package a) = ''a'' \<and> ra_binary_name a = ''a''"
proof -
  let ?s = "\<lparr>ts_package = None, ts_binary = None\<rparr>"
  have ok: "\<not> isl (resolve_application sample_metadata ?s)" by code_simp
  then obtain a where a: "resolve_application sample_metadata ?s = Inr a"
    by (cases "resolve_application sample_metadata ?s") auto
  with application_resolution_exact [OF sample_metadata_ok, of ?s]
  obtain p where p: "selected_package sample_metadata None p" "rp_package_id (ra_package a) = pk_id p"
    "selected_binary p None (ra_binary_name a)" by auto
  from p(1) have "p = sample_package ''a'' None"
    by (simp add: selected_package_def sample_metadata_def)
  with p(2,3) a show ?thesis
    by (simp add: selected_binary_def binaries_def sample_package_def)
qed

text \<open>
  The directories that are watched recursively for an application are, in ascending order and
  each once, those of the selected package and of every local package reachable from it through
  Cargo's resolved dependencies, cyclic ones included.
\<close>

theorem watched_roots_exact:
  assumes "metadata_ok m"
  shows "\<exists>roots. local_watch_roots canonicalize m application = Inr roots \<and>
    sorted_wrt (<) roots \<and>
    set roots = insert (canonical_path canonicalize (rp_package_root (ra_package application)))
      {canonical_path canonicalize (butlast (pk_manifest_path p)) | p. p \<in> set (cm_packages m) \<and>
        pk_source p = None \<and>
        (rp_package_id (ra_package application), pk_id p) \<in> (depends_on (metadata_nodes m))\<^sup>*}"
  using assms by (rule local_watch_roots_exact)

definition sample_application :: resolved_application where
  "sample_application = \<lparr>ra_package = \<lparr>rp_workspace_root = [RootDir],
     rp_package_root = [RootDir, Normal ''a''], rp_manifest_path = [RootDir, Normal ''a'', Normal ''Cargo.toml''],
     rp_package_id = ''a'', rp_package_name = ''a''\<rparr>, ra_binary_name = ''a'', ra_mads_version = None\<rparr>"

theorem watched_roots_exact_witness:
  "\<exists>roots. local_watch_roots (\<lambda>_. None) sample_metadata sample_application = Inr roots \<and>
    [RootDir, Normal ''a''] \<in> set roots \<and> [RootDir, Normal ''b''] \<in> set roots"
proof -
  have ok: "metadata_ok sample_metadata" using sample_metadata_ok by (simp add: cargo_contract_def)
  have dep: "(''a'', ''b'') \<in> (depends_on (metadata_nodes sample_metadata))\<^sup>*"
    by (rule r_into_rtrancl)
      (simp add: depends_on_def metadata_nodes_def sample_metadata_def node_deps_def)
  obtain roots where roots: "local_watch_roots (\<lambda>_. None) sample_metadata sample_application = Inr roots"
    "set roots = insert (canonical_path (\<lambda>_. None) (rp_package_root (ra_package sample_application)))
      {canonical_path (\<lambda>_. None) (butlast (pk_manifest_path p)) | p. p \<in> set (cm_packages sample_metadata) \<and>
        pk_source p = None \<and>
        (rp_package_id (ra_package sample_application), pk_id p) \<in> (depends_on (metadata_nodes sample_metadata))\<^sup>*}"
    using watched_roots_exact [OF ok, of "\<lambda>_. None" sample_application] by blast
  have "[RootDir, Normal ''b''] \<in> {canonical_path (\<lambda>_. None) (butlast (pk_manifest_path p)) | p.
      p \<in> set (cm_packages sample_metadata) \<and> pk_source p = None \<and>
      (rp_package_id (ra_package sample_application), pk_id p) \<in> (depends_on (metadata_nodes sample_metadata))\<^sup>*}"
    by (intro CollectI exI [of _ "sample_package ''b'' None"])
      (use dep in \<open>simp add: sample_package_def canonical_path_def sample_metadata_def sample_application_def\<close>)
  moreover have "canonical_path (\<lambda>_. None) (rp_package_root (ra_package sample_application)) = [RootDir, Normal ''a'']"
    by (simp add: sample_application_def canonical_path_def)
  ultimately show ?thesis using roots by simp
qed

end
