(* ===== verification/Watch.thy ===== *)
theory Watch
  imports Cli_Project
begin

text \<open>
  What a change of a file means for a running application (\<open>crates/mads-cli/src/watch.rs\<close>) and how
  a burst of changes becomes one (\<open>next_change\<close> of \<open>dev.rs\<close>).

  Events come from another crate as a kind and paths. \<open>next_change\<close> waits for events that arrive
  at given times (milliseconds); the clock is read when an event is received, so its processing
  takes no time in the model. A list of events that ends is a channel on which nothing more
  arrives.
\<close>

section \<open>Impacts\<close>

datatype change_impact = NoImpact | Restart | Rebuild

fun impact_rank :: "change_impact \<Rightarrow> nat" where
  "impact_rank NoImpact = 0"
| "impact_rank Restart = 1"
| "impact_rank Rebuild = 2"

lemma impact_rank_inject [simp]: "impact_rank a = impact_rank b \<longleftrightarrow> a = b"
  by (cases a; cases b) auto

instantiation change_impact :: linorder
begin

definition less_eq_change_impact :: "change_impact \<Rightarrow> change_impact \<Rightarrow> bool" where
  "less_eq_change_impact a b \<longleftrightarrow> impact_rank a \<le> impact_rank b"

definition less_change_impact :: "change_impact \<Rightarrow> change_impact \<Rightarrow> bool" where
  "less_change_impact a b \<longleftrightarrow> impact_rank a < impact_rank b"

instance
  by standard (auto simp: less_eq_change_impact_def less_change_impact_def dest: antisym)

end

definition merge_impacts :: "change_impact list \<Rightarrow> change_impact" where
  "merge_impacts impacts = (case impacts of [] \<Rightarrow> NoImpact | i # is \<Rightarrow> fold max is i)"

lemma NoImpact_least [simp]: "NoImpact \<le> i"
  by (cases i) (auto simp: less_eq_change_impact_def)

lemma max_NoImpact [simp]: "max NoImpact i = i" "max i NoImpact = i"
  by (simp_all add: max_def antisym)

lemma max_eq_NoImpact [simp]: "max (i::change_impact) j = NoImpact \<longleftrightarrow> i = NoImpact \<and> j = NoImpact"
  by (cases i; cases j) (auto simp: max_def less_eq_change_impact_def)

lemma fold_max_acc: "fold max xs (max a b) = max a (fold max xs (b::'a::linorder))"
  by (induction xs arbitrary: b) (simp_all add: max.left_commute [of _ a])

lemma merge_impacts_simps [simp]:
  "merge_impacts [] = NoImpact"
  "merge_impacts (i # is) = max i (merge_impacts is)"
proof -
  show "merge_impacts (i # is) = max i (merge_impacts is)"
    by (cases "is") (auto simp: merge_impacts_def, metis fold_max_acc max.commute)
qed (simp add: merge_impacts_def)

lemma merge_impacts_append [simp]:
  "merge_impacts (is @ js) = max (merge_impacts is) (merge_impacts js)"
  by (induction "is") (auto simp: max.assoc)

lemma merge_impacts_eq_NoImpact [simp]:
  "merge_impacts is = NoImpact \<longleftrightarrow> (\<forall>i\<in>set is. i = NoImpact)"
  by (induction "is") auto

section \<open>The watch set\<close>

record watch_root =
  wr_path :: path
  wr_recursive :: bool

record watch_set =
  ws_workspace_root :: path
  ws_package_root :: path
  ws_local_roots :: "path list"
  ws_excluded_package_roots :: "path list"
  ws_notify_roots :: "watch_root list"

definition watch_root_order :: "watch_root \<Rightarrow> watch_root \<Rightarrow> ordering" where
  "watch_root_order left right = cmp (wr_path left) (wr_path right)"

definition for_application ::
    "(path \<Rightarrow> path option) \<Rightarrow> cargo_metadata \<Rightarrow> resolved_application \<Rightarrow> panic + watch_set" where
  "for_application canonicalize m application =
     (let workspace_root = canonical_path canonicalize (rp_workspace_root (ra_package application));
          package_root = canonical_path canonicalize (rp_package_root (ra_package application)) in
      and_then (local_watch_roots canonicalize m application) (\<lambda>local_roots.
      and_then (local_package_roots canonicalize m) (\<lambda>package_roots.
        let excluded = filter (\<lambda>root. root \<notin> set local_roots) package_roots;
            notify_roots = map (\<lambda>p. \<lparr>wr_path = p, wr_recursive = True\<rparr>) local_roots;
            notify_roots =
              (if \<not> list_ex (\<lambda>root. path_starts_with root workspace_root) local_roots
               then notify_roots @ [\<lparr>wr_path = workspace_root, wr_recursive = False\<rparr>]
               else notify_roots) in
        Inr \<lparr>ws_workspace_root = workspace_root, ws_package_root = package_root,
             ws_local_roots = local_roots, ws_excluded_package_roots = excluded,
             ws_notify_roots = sort_by watch_root_order notify_roots\<rparr>)))"

definition ends_with :: "string \<Rightarrow> string \<Rightarrow> bool" where
  "ends_with suffix s \<longleftrightarrow> strip_suffix suffix s \<noteq> None"

definition is_ignored_path :: "path \<Rightarrow> bool" where
  "is_ignored_path p \<longleftrightarrow>
     list_ex (\<lambda>c. c = Normal ''target'' \<or> c = Normal ''.git'') p \<or>
     (case path_file_name p of
        None \<Rightarrow> False
      | Some name \<Rightarrow> name = ''.DS_Store'' \<or>
          list_ex (\<lambda>suffix. ends_with suffix name) [''~'', ''.swp'', ''.swx'', ''.tmp''])"

definition owning_root :: "watch_set \<Rightarrow> path \<Rightarrow> (path \<times> bool) option" where
  "owning_root ws p =
     max_by_key (\<lambda>(root, _). length root)
       (filter (\<lambda>(root, _). path_starts_with root p)
         (map (\<lambda>root. (root, True)) (ws_local_roots ws) @
          map (\<lambda>root. (root, False)) (ws_excluded_package_roots ws)))"

definition owner_is_excluded :: "watch_set \<Rightarrow> path \<Rightarrow> bool" where
  "owner_is_excluded ws p =
     (case owning_root ws p of None \<Rightarrow> False | Some (_, reachable) \<Rightarrow> \<not> reachable)"

definition is_rebuild_path :: "watch_set \<Rightarrow> path \<Rightarrow> bool" where
  "is_rebuild_path ws p =
     (if p = path_join (ws_workspace_root ws) [''Cargo.toml''] \<or>
         p = path_join (ws_workspace_root ws) [''Cargo.lock'']
      then True
      else
        let is_reachable_source =
              (case owning_root ws p of None \<Rightarrow> False | Some (_, reachable) \<Rightarrow> reachable);
            is_rust_source = (path_extension p = Some ''rs'');
            is_package_manifest = (path_file_name p = Some ''Cargo.toml'' \<and>
              (case owning_root ws p of
                 None \<Rightarrow> False
               | Some (root, reachable) \<Rightarrow> reachable \<and> path_parent p = Some root));
            is_selected_migration = path_starts_with (path_join (ws_package_root ws) [''migrations'']) p;
            is_selected_schema =
              (p = path_join (ws_package_root ws) [''src'', ''schema.rs''] \<or>
               path_starts_with (path_join (ws_package_root ws) [''src'', ''schema'']) p) in
        is_reachable_source \<and> is_rust_source \<or> is_package_manifest \<or> is_selected_migration \<or>
        is_selected_schema)"

definition classify :: "watch_set \<Rightarrow> path \<Rightarrow> change_impact" where
  "classify ws p =
     (if is_ignored_path p \<or> owner_is_excluded ws p then NoImpact
      else if path_parent p = Some (ws_package_root ws) \<and>
        (path_file_name p = Some ''.env'' \<or> path_file_name p = Some ''mads.toml'') then Restart
      else if is_rebuild_path ws p then Rebuild
      else NoImpact)"

datatype event_kind = Kind_Create | Kind_Modify | Kind_Remove | Kind_Access | Kind_Other | Kind_Any

record watch_event =
  we_kind :: event_kind
  we_paths :: "path list"

definition classify_event :: "watch_set \<Rightarrow> watch_event \<Rightarrow> change_impact" where
  "classify_event ws e =
     (if we_kind e \<in> {Kind_Create, Kind_Modify, Kind_Remove}
      then merge_impacts (map (classify ws) (we_paths e))
      else NoImpact)"

section \<open>Bursts of changes\<close>

text \<open>What arrives on the channel: an event, an error of the watcher, or its end.\<close>

datatype received = ReceivedEvent watch_event | ReceivedError string | ChannelClosed

definition watch_error :: "string \<Rightarrow> cli_error" where
  "watch_error source = cli_with_source source
     (cli_error_new MADS220 ''File watcher failed'' ''could not watch project files'')"

fun events_recv :: "received \<Rightarrow> cli_error + watch_event" where
  "events_recv (ReceivedEvent e) = Inr e"
| "events_recv (ReceivedError source) = Inl (watch_error source)"
| "events_recv ChannelClosed = Inl (cli_error_new MADS220 ''File watcher failed''
     ''the watch event channel closed unexpectedly'')"

definition DEBOUNCE :: nat where
  "DEBOUNCE = 150"

type_synonym arrival = "nat \<times> received"

fun debounce ::
    "watch_set \<Rightarrow> change_impact \<Rightarrow> nat \<Rightarrow> arrival list \<Rightarrow> (cli_error + change_impact) \<times> arrival list" where
  "debounce ws impact deadline [] = (Inr impact, [])"
| "debounce ws impact deadline ((at, r) # rest) =
     (if deadline < at then (Inr impact, (at, r) # rest)
      else case events_recv r of
        Inl e \<Rightarrow> (Inl e, rest)
      | Inr event \<Rightarrow>
          let next_impact = classify_event ws event in
          if next_impact \<noteq> NoImpact
          then debounce ws (merge_impacts [impact, next_impact]) (at + DEBOUNCE) rest
          else debounce ws impact deadline rest)"

fun next_change ::
    "watch_set \<Rightarrow> arrival list \<Rightarrow> ((cli_error + change_impact) \<times> arrival list) option" where
  "next_change ws [] = None"
| "next_change ws ((at, r) # rest) =
     (case events_recv r of
        Inl e \<Rightarrow> Some (Inl e, rest)
      | Inr event \<Rightarrow>
          let impact = classify_event ws event in
          if impact \<noteq> NoImpact then Some (debounce ws impact (at + DEBOUNCE) rest)
          else next_change ws rest)"

section \<open>The owner of a path\<close>

definition watch_set_ok :: "watch_set \<Rightarrow> bool" where
  "watch_set_ok ws \<longleftrightarrow>
     set (ws_local_roots ws) \<inter> set (ws_excluded_package_roots ws) = {} \<and>
     ws_package_root ws \<in> set (ws_local_roots ws)"

definition all_roots :: "watch_set \<Rightarrow> path set" where
  "all_roots ws = set (ws_local_roots ws) \<union> set (ws_excluded_package_roots ws)"

lemma prefixes_same_length:
  "path_starts_with a p \<Longrightarrow> path_starts_with b p \<Longrightarrow> length a = length b \<Longrightarrow> a = b"
  by (metis path_starts_with_def)

lemma owning_root_SomeD:
  assumes "owning_root ws p = Some (r, reachable)"
  shows "path_starts_with r p" "r \<in> all_roots ws"
    "reachable \<Longrightarrow> r \<in> set (ws_local_roots ws)" "\<not> reachable \<Longrightarrow> r \<in> set (ws_excluded_package_roots ws)"
    "\<And>q. q \<in> all_roots ws \<Longrightarrow> path_starts_with q p \<Longrightarrow> length q \<le> length r"
proof -
  let ?cs = "filter (\<lambda>(root, _). path_starts_with root p)
    (map (\<lambda>root. (root, True)) (ws_local_roots ws) @ map (\<lambda>root. (root, False)) (ws_excluded_package_roots ws))"
  have mem: "(q, b) \<in> set ?cs \<longleftrightarrow> path_starts_with q p \<and>
      (if b then q \<in> set (ws_local_roots ws) else q \<in> set (ws_excluded_package_roots ws))" for q b
    by (cases b) auto
  note last = max_by_key_SomeD [OF assms [unfolded owning_root_def]]
  have own: "(r, reachable) \<in> set ?cs" by (rule conjunct1 [OF last])
  have greatest: "length q \<le> length r" if "(q, b) \<in> set ?cs" for q b
    using bspec [OF conjunct2 [OF last] that] by simp
  from own show "path_starts_with r p" "r \<in> all_roots ws"
    "reachable \<Longrightarrow> r \<in> set (ws_local_roots ws)" "\<not> reachable \<Longrightarrow> r \<in> set (ws_excluded_package_roots ws)"
    unfolding mem all_roots_def by (auto split: if_splits)
  fix q assume "q \<in> all_roots ws" "path_starts_with q p"
  then show "length q \<le> length r"
    using greatest [of q True] greatest [of q False] unfolding mem all_roots_def by auto
qed

lemma owning_root_None:
  "owning_root ws p = None \<longleftrightarrow> (\<forall>r\<in>all_roots ws. \<not> path_starts_with r p)"
  by (auto simp: owning_root_def all_roots_def filter_empty_conv)

lemma owning_root_exact:
  assumes "watch_set_ok ws"
  shows "owning_root ws p = Some (r, reachable) \<longleftrightarrow>
    r \<in> all_roots ws \<and> path_starts_with r p \<and>
    (\<forall>q\<in>all_roots ws. path_starts_with q p \<longrightarrow> length q \<le> length r) \<and>
    (reachable \<longleftrightarrow> r \<in> set (ws_local_roots ws))"
proof
  assume "owning_root ws p = Some (r, reachable)"
  from owning_root_SomeD [OF this] assms show "r \<in> all_roots ws \<and> path_starts_with r p \<and>
    (\<forall>q\<in>all_roots ws. path_starts_with q p \<longrightarrow> length q \<le> length r) \<and>
    (reachable \<longleftrightarrow> r \<in> set (ws_local_roots ws))" by (auto simp: watch_set_ok_def)
next
  assume r: "r \<in> all_roots ws \<and> path_starts_with r p \<and>
    (\<forall>q\<in>all_roots ws. path_starts_with q p \<longrightarrow> length q \<le> length r) \<and>
    (reachable \<longleftrightarrow> r \<in> set (ws_local_roots ws))"
  then have "owning_root ws p \<noteq> None" by (auto simp: owning_root_None)
  then obtain r' b where r': "owning_root ws p = Some (r', b)" by auto
  note own = owning_root_SomeD [OF r']
  have "length r' = length r" using own(1,2,5) r by (metis le_antisym)
  with own(1) r have "r' = r" by (metis prefixes_same_length)
  moreover have "b = reachable" using own(3,4) r assms \<open>r' = r\<close> by (auto simp: watch_set_ok_def)
  ultimately show "owning_root ws p = Some (r, reachable)" using r' by simp
qed

section \<open>Every change that matters is watched\<close>

definition watched :: "watch_set \<Rightarrow> path \<Rightarrow> bool" where
  "watched ws p \<longleftrightarrow> (\<exists>r\<in>set (ws_notify_roots ws).
     if wr_recursive r then path_starts_with (wr_path r) p else path_parent p = Some (wr_path r))"

lemma path_starts_with_trans:
  "path_starts_with a b \<Longrightarrow> path_starts_with b c \<Longrightarrow> path_starts_with a c"
  by (auto simp: path_starts_with_iff)

lemma path_starts_with_join [simp]: "path_starts_with p (path_join p names)"
  by (simp add: path_starts_with_def path_join_def)

lemma path_parent_join1 [simp]: "path_parent (path_join p [name]) = Some p"
  by (simp add: path_parent_def path_join_def)

lemma path_parent_starts: "path_parent p = Some q \<Longrightarrow> path_starts_with q p"
  by (auto simp: path_parent_def path_starts_with_iff split: if_splits) (metis append_butlast_last_id)

lemma for_application_cases:
  assumes "for_application canonicalize m application = Inr ws"
  obtains notify where "watch_set_ok ws"
    "set (ws_notify_roots ws) = (\<lambda>p. \<lparr>wr_path = p, wr_recursive = True\<rparr>) ` set (ws_local_roots ws) \<union> notify"
    "(\<exists>r\<in>set (ws_local_roots ws). path_starts_with r (ws_workspace_root ws)) \<or>
     \<lparr>wr_path = ws_workspace_root ws, wr_recursive = False\<rparr> \<in> notify"
proof -
  from assms obtain locals all_locals where l: "local_watch_roots canonicalize m application = Inr locals"
    "local_package_roots canonicalize m = Inr all_locals"
    by (auto simp: for_application_def Let_def and_then_eq_Inr)
  from l(1) obtain roots where "locals = sort_dedup (if canonical_path canonicalize (rp_package_root (ra_package application)) \<in> set roots
      then roots else roots @ [canonical_path canonicalize (rp_package_root (ra_package application))])"
    by (auto simp: local_watch_roots_def Let_def and_then_eq_Inr)
  then have mem: "canonical_path canonicalize (rp_package_root (ra_package application)) \<in> set locals"
    by (simp add: sort_dedup_correct)
  show thesis
    by (rule that [of "if list_ex (\<lambda>root. path_starts_with root (ws_workspace_root ws)) locals then {}
          else {\<lparr>wr_path = ws_workspace_root ws, wr_recursive = False\<rparr>}"])
      (use assms mem in \<open>auto simp: for_application_def Let_def l watch_set_ok_def list_ex_iff
        split: if_splits\<close>)
qed

lemma relevant_watched:
  assumes "for_application canonicalize m application = Inr ws" "classify ws p \<noteq> NoImpact"
  shows "watched ws p"
proof -
  obtain notify where ok: "watch_set_ok ws" and
    notify: "set (ws_notify_roots ws) = (\<lambda>p. \<lparr>wr_path = p, wr_recursive = True\<rparr>) ` set (ws_local_roots ws) \<union> notify"
    and workspace: "(\<exists>r\<in>set (ws_local_roots ws). path_starts_with r (ws_workspace_root ws)) \<or>
     \<lparr>wr_path = ws_workspace_root ws, wr_recursive = False\<rparr> \<in> notify"
    by (rule for_application_cases [OF assms(1)])
  have below: "watched ws p" if "r \<in> set (ws_local_roots ws)" "path_starts_with r p" for r
    using that unfolding watched_def notify by force
  have package: "watched ws p" if "path_starts_with (ws_package_root ws) p"
    using below [of "ws_package_root ws"] that ok by (simp add: watch_set_ok_def)
  have manifest: "watched ws p" if "p = path_join (ws_workspace_root ws) [name]" for name
    using workspace
  proof
    assume "\<exists>r\<in>set (ws_local_roots ws). path_starts_with r (ws_workspace_root ws)"
    with below that path_starts_with_trans path_starts_with_join show ?thesis by blast
  next
    assume "\<lparr>wr_path = ws_workspace_root ws, wr_recursive = False\<rparr> \<in> notify"
    with that show ?thesis unfolding watched_def notify by force
  qed
  have owned: "watched ws p" if "owning_root ws p = Some (r, True)" for r
    using below [of r] owning_root_SomeD(1,3) [OF that] by simp
  show ?thesis
  proof (cases "path_parent p = Some (ws_package_root ws)")
    case True
    then show ?thesis by (intro package path_parent_starts)
  next
    case False
    with assms(2) have "is_rebuild_path ws p" by (auto simp: classify_def split: if_splits)
    moreover have "path_starts_with (ws_package_root ws) p"
      if "path_starts_with (path_join (ws_package_root ws) names) p" for names
      using that by (rule path_starts_with_trans [OF path_starts_with_join])
    ultimately show ?thesis
      using manifest owned package
      unfolding is_rebuild_path_def Let_def by (fastforce split: if_splits option.splits)
  qed
qed

section \<open>Bursts lose nothing\<close>

fun impact_of :: "watch_set \<Rightarrow> arrival \<Rightarrow> change_impact" where
  "impact_of ws (at, ReceivedEvent e) = classify_event ws e"
| "impact_of ws (at, r) = NoImpact"

lemma debounce_merges:
  assumes "debounce ws impact deadline evs = (Inr result, rest)" "impact \<noteq> NoImpact"
  shows "\<exists>burst. evs = burst @ rest \<and> result = max impact (merge_impacts (map (impact_of ws) burst)) \<and>
    (\<forall>(at, r) \<in> set burst. \<exists>e. r = ReceivedEvent e) \<and>
    (case rest of [] \<Rightarrow> True | (at, _) # _ \<Rightarrow>
       deadline < at \<or> (\<exists>(t, r) \<in> set burst. impact_of ws (t, r) \<noteq> NoImpact \<and> t + DEBOUNCE < at))"
  using assms
proof (induction evs arbitrary: impact deadline)
  case (Cons a evs)
  obtain at r where a: "a = (at, r)" by fastforce
  show ?case
  proof (cases "deadline < at")
    case True
    with Cons.prems a show ?thesis by (intro exI [of _ "[]"]) auto
  next
    case False
    with Cons.prems a obtain e where r: "r = ReceivedEvent e" by (cases r) auto
    let ?i = "classify_event ws e"
    define impact' where "impact' = (if ?i = NoImpact then impact else max impact ?i)"
    define deadline' where "deadline' = (if ?i = NoImpact then deadline else at + DEBOUNCE)"
    have "debounce ws impact' deadline' evs = (Inr result, rest)" "impact' \<noteq> NoImpact"
      using Cons.prems a r False by (auto simp: impact'_def deadline'_def Let_def split: if_splits)
    from Cons.IH [OF this] obtain burst where burst: "evs = burst @ rest"
      "result = max impact' (merge_impacts (map (impact_of ws) burst))"
      "\<forall>(at, r) \<in> set burst. \<exists>e. r = ReceivedEvent e"
      "case rest of [] \<Rightarrow> True | (at, _) # _ \<Rightarrow>
         deadline' < at \<or> (\<exists>(t, r) \<in> set burst. impact_of ws (t, r) \<noteq> NoImpact \<and> t + DEBOUNCE < at)"
      by blast
    have "impact' = max impact ?i" by (simp add: impact'_def)
    then have "result = max impact (merge_impacts (map (impact_of ws) (a # burst)))"
      using burst(2) a r by (simp add: max.assoc)
    with burst a r show ?thesis
      by (intro exI [of _ "a # burst"])
        (auto simp: deadline'_def split: list.splits if_splits)
  qed
qed auto

lemma next_change_merges:
  assumes "next_change ws evs = Some (Inr impact, rest)"
  shows "\<exists>burst. evs = burst @ rest \<and> impact = merge_impacts (map (impact_of ws) burst) \<and> impact \<noteq> NoImpact \<and>
    (\<forall>(at, r) \<in> set burst. \<exists>e. r = ReceivedEvent e) \<and>
    (case rest of [] \<Rightarrow> True | (at, _) # _ \<Rightarrow>
       (\<exists>(t, r) \<in> set burst. impact_of ws (t, r) \<noteq> NoImpact \<and> t + DEBOUNCE < at))"
  using assms
proof (induction evs)
  case (Cons a evs)
  obtain at r where a: "a = (at, r)" by fastforce
  with Cons.prems obtain e where r: "r = ReceivedEvent e" by (cases r) auto
  show ?case
  proof (cases "classify_event ws e = NoImpact")
    case True
    with Cons a r obtain burst where "evs = burst @ rest" "impact = merge_impacts (map (impact_of ws) burst)"
      "impact \<noteq> NoImpact" "\<forall>(at, r) \<in> set burst. \<exists>e. r = ReceivedEvent e"
      "case rest of [] \<Rightarrow> True | (at, _) # _ \<Rightarrow>
       (\<exists>(t, r) \<in> set burst. impact_of ws (t, r) \<noteq> NoImpact \<and> t + DEBOUNCE < at)"
      by auto
    with True a r show ?thesis
      by (intro exI [of _ "a # burst"]) (auto split: list.splits)
  next
    case False
    with Cons.prems a r have "debounce ws (classify_event ws e) (at + DEBOUNCE) evs = (Inr impact, rest)"
      by simp
    from debounce_merges [OF this False] obtain burst where burst: "evs = burst @ rest"
      "impact = max (classify_event ws e) (merge_impacts (map (impact_of ws) burst))"
      "\<forall>(at, r) \<in> set burst. \<exists>e. r = ReceivedEvent e"
      "case rest of [] \<Rightarrow> True | (t', _) # _ \<Rightarrow>
         at + DEBOUNCE < t' \<or> (\<exists>(t, r) \<in> set burst. impact_of ws (t, r) \<noteq> NoImpact \<and> t + DEBOUNCE < t')"
      by blast
    with False a r show ?thesis
      by (intro exI [of _ "a # burst"]) (auto split: list.splits)
  qed
qed simp

section \<open>Properties\<close>

text \<open>
  Every change that matters is seen: a path that the watch set of an application classifies as
  a restart or a rebuild lies below a directory that is watched recursively, or directly in one
  that is not.
\<close>

theorem relevant_changes_watched:
  assumes "for_application canonicalize m application = Inr ws" "classify ws p \<noteq> NoImpact"
  shows "watched ws p"
  using assms by (rule relevant_watched)

theorem relevant_changes_watched_witness:
  "\<exists>ws. for_application (\<lambda>_. None) sample_metadata sample_application = Inr ws \<and>
    watched ws [RootDir, Normal ''b'', Normal ''lib.rs'']"
proof -
  let ?ws = "for_application (\<lambda>_. None) sample_metadata sample_application"
  let ?p = "[RootDir, Normal ''b'', Normal ''lib.rs'']"
  have "case ?ws of Inl _ \<Rightarrow> False | Inr ws \<Rightarrow> classify ws ?p = Rebuild" by code_simp
  then obtain ws where ws: "?ws = Inr ws" "classify ws ?p = Rebuild" by (cases ?ws) auto
  from ws(2) have "classify ws ?p \<noteq> NoImpact" by simp
  from relevant_changes_watched [OF ws(1) this] ws(1) show ?thesis by blast
qed

text \<open>
  A burst of changes becomes one without losing any: the impact reported is the greatest of
  the events consumed and is never empty, and the first event left over arrived later than the
  quiet period after a relevant event of the burst.
\<close>

theorem debounced_changes_merge:
  assumes "next_change ws evs = Some (Inr impact, rest)"
  shows "\<exists>burst. evs = burst @ rest \<and> impact = merge_impacts (map (impact_of ws) burst) \<and> impact \<noteq> NoImpact \<and>
    (\<forall>(at, r) \<in> set burst. \<exists>e. r = ReceivedEvent e) \<and>
    (case rest of [] \<Rightarrow> True | (at, _) # _ \<Rightarrow>
       (\<exists>(t, r) \<in> set burst. impact_of ws (t, r) \<noteq> NoImpact \<and> t + DEBOUNCE < at))"
  using assms by (rule next_change_merges)

definition sample_watch_set :: watch_set where
  "sample_watch_set = \<lparr>ws_workspace_root = [RootDir], ws_package_root = [RootDir, Normal ''a''],
     ws_local_roots = [[RootDir, Normal ''a'']], ws_excluded_package_roots = [[RootDir, Normal ''a'', Normal ''x'']],
     ws_notify_roots = []\<rparr>"

theorem debounced_changes_merge_witness:
  "next_change sample_watch_set
     [(0, ReceivedEvent \<lparr>we_kind = Kind_Modify, we_paths = [[RootDir, Normal ''a'', Normal ''.env'']]\<rparr>),
      (100, ReceivedEvent \<lparr>we_kind = Kind_Modify, we_paths = [[RootDir, Normal ''a'', Normal ''m.rs'']]\<rparr>)] =
     Some (Inr Rebuild, []) \<and> Rebuild \<noteq> NoImpact"
proof -
  have run: "next_change sample_watch_set
     [(0, ReceivedEvent \<lparr>we_kind = Kind_Modify, we_paths = [[RootDir, Normal ''a'', Normal ''.env'']]\<rparr>),
      (100, ReceivedEvent \<lparr>we_kind = Kind_Modify, we_paths = [[RootDir, Normal ''a'', Normal ''m.rs'']]\<rparr>)] =
     Some (Inr Rebuild, [])" by code_simp
  from debounced_changes_merge [OF run] run show ?thesis by blast
qed

text \<open>
  A path belongs to the deepest package that contains it. So a file of a package that the
  application does not depend on changes nothing, even when that package lies inside one that is
  watched.
\<close>

theorem deepest_package_owns:
  assumes "watch_set_ok ws"
  shows "(owning_root ws p = Some (r, reachable) \<longleftrightarrow>
      r \<in> all_roots ws \<and> path_starts_with r p \<and>
      (\<forall>q\<in>all_roots ws. path_starts_with q p \<longrightarrow> length q \<le> length r) \<and>
      (reachable \<longleftrightarrow> r \<in> set (ws_local_roots ws))) \<and>
    (owning_root ws p = Some (r, False) \<longrightarrow> classify ws p = NoImpact)"
  by (intro conjI, rule owning_root_exact [OF assms])
    (simp add: classify_def owner_is_excluded_def)

theorem deepest_package_owns_witness:
  "classify sample_watch_set [RootDir, Normal ''a'', Normal ''x'', Normal ''lib.rs''] = NoImpact"
proof -
  have ok: "watch_set_ok sample_watch_set" by code_simp
  have "owning_root sample_watch_set [RootDir, Normal ''a'', Normal ''x'', Normal ''lib.rs''] =
      Some ([RootDir, Normal ''a'', Normal ''x''], False)" by code_simp
  with deepest_package_owns [OF ok] show ?thesis by blast
qed

end
