(* ===== verification/Cargo_Build.thy ===== *)
theory Cargo_Build
  imports Cli_Project
begin

text \<open>
  A build by Cargo (\<open>crates/mads-cli/src/cargo.rs\<close>) and the process of an application
  (\<open>crates/mads-cli/src/process.rs\<close>).

  What Cargo prints is a list of lines; a line that was read is the result of the JSON parser on
  it. The outcomes of system calls are functions of the world \<open>'w\<close> they act on, in the record
  \<open>cli_system\<close>; an I/O error is its text.
\<close>

section \<open>The outside world\<close>

record built_application =
  bu_target :: resolved_application
  bu_executable :: path

record application_process =
  ap_child :: nat
  ap_control_directory :: path
  ap_shutdown_path :: path

text \<open>
  Starting Cargo yields whether its standard output is piped; \<open>sys_wait_timeout\<close> yields nothing
  when the time runs out.
\<close>

record 'w cli_system =
  sys_start_cargo :: "string list \<Rightarrow> path \<Rightarrow> 'w \<Rightarrow> 'w \<times> (string + bool)"
  sys_kill_cargo :: "'w \<Rightarrow> 'w \<times> (string + unit)"
  sys_wait_cargo :: "'w \<Rightarrow> 'w \<times> (string + unit)"
  sys_tempdir :: "'w \<Rightarrow> 'w \<times> (string + path)"
  sys_spawn :: "path \<Rightarrow> string list \<Rightarrow> path \<Rightarrow> path \<Rightarrow> 'w \<Rightarrow> 'w \<times> (string + nat)"
  sys_create_file :: "path \<Rightarrow> 'w \<Rightarrow> 'w \<times> (string + unit)"
  sys_wait_timeout :: "nat \<Rightarrow> nat \<Rightarrow> 'w \<Rightarrow> 'w \<times> (string + unit) option"
  sys_kill :: "nat \<Rightarrow> 'w \<Rightarrow> 'w \<times> (string + unit)"
  sys_wait :: "nat \<Rightarrow> 'w \<Rightarrow> 'w \<times> (string + unit)"
  sys_try_wait :: "nat \<Rightarrow> 'w \<Rightarrow> 'w \<times> (string + bool)"

section \<open>What Cargo prints\<close>

record artifact =
  art_package_id :: package_id
  art_target_name :: string
  art_executable :: "path option"

datatype cargo_message =
  CompilerArtifact artifact
| BuildFinished bool
| OtherMessage

record artifact_collector =
  col_executable :: "path option"
  col_successful :: bool

definition collector_default :: artifact_collector where
  "collector_default = \<lparr>col_executable = None, col_successful = False\<rparr>"

definition matching_executable :: "resolved_application \<Rightarrow> artifact \<Rightarrow> path option" where
  "matching_executable target a =
     (if art_package_id a = rp_package_id (ra_package target) \<and> art_target_name a = ra_binary_name target
      then art_executable a else None)"

fun collector_process ::
    "resolved_application \<Rightarrow> cargo_message \<Rightarrow> artifact_collector \<Rightarrow> artifact_collector" where
  "collector_process target (CompilerArtifact a) c =
     (case matching_executable target a of
        Some p \<Rightarrow> c\<lparr>col_executable := Some p\<rparr>
      | None \<Rightarrow> c)"
| "collector_process target (BuildFinished success) c = c\<lparr>col_successful := success\<rparr>"
| "collector_process target OtherMessage c = c"

definition cargo_failed :: "string \<Rightarrow> cli_error" where
  "cargo_failed message = cli_error_new MADS201 ''Cargo build failed'' message"

lemma ce_code_cargo_failed [simp]: "ce_code (cargo_failed m) = MADS201"
  by (simp add: cargo_failed_def)

definition collector_finish ::
    "artifact_collector \<Rightarrow> resolved_application \<Rightarrow> cli_error + built_application" where
  "collector_finish c target =
     (if \<not> col_successful c then Inl (cargo_failed ''Cargo did not report a successful build'')
      else and_then
        (ok_or (cargo_failed ''Cargo did not produce the selected application binary'') (col_executable c))
        (\<lambda>executable. Inr \<lparr>bu_target = target, bu_executable = executable\<rparr>))"

text \<open>One line as it is read: an I/O error, a line that is no message, or a message.\<close>

datatype cargo_line = LineError string | MalformedLine string | MessageLine cargo_message

fun read_message :: "cargo_line \<Rightarrow> cli_error + cargo_message" where
  "read_message (LineError source) =
     Inl (cli_with_source source (cargo_failed ''could not read Cargo build output''))"
| "read_message (MalformedLine source) =
     Inl (cli_with_source source (cargo_failed ''Cargo produced malformed build output''))"
| "read_message (MessageLine m) = Inr m"

definition collect_line ::
    "resolved_application \<Rightarrow> cargo_line \<Rightarrow> artifact_collector \<Rightarrow> cli_error + artifact_collector" where
  "collect_line target line c =
     and_then (read_message line) (\<lambda>m. Inr (collector_process target m c))"

definition build_wait ::
    "resolved_application \<Rightarrow> cargo_line list \<Rightarrow> string + bool \<Rightarrow> cli_error + built_application" where
  "build_wait target lines status =
     and_then (try_fold (collect_line target) lines collector_default) (\<lambda>c.
       case status of
         Inl source \<Rightarrow> Inl (cli_with_source source (cargo_failed ''could not wait for Cargo to finish''))
       | Inr success \<Rightarrow>
           if \<not> success then Inl (cargo_failed ''Cargo could not build the selected application'')
           else collector_finish c target)"

definition cargo_build_arguments :: "resolved_application \<Rightarrow> string list" where
  "cargo_build_arguments target =
     [''build'', ''--message-format=json-render-diagnostics'', ''--package'',
      rp_package_name (ra_package target), ''--bin'', ra_binary_name target]"

definition cargo_build_start ::
    "'w cli_system \<Rightarrow> resolved_application \<Rightarrow> 'w \<Rightarrow> 'w \<times> (cli_error + unit)" where
  "cargo_build_start sys target w =
     (case sys_start_cargo sys (cargo_build_arguments target) (rp_workspace_root (ra_package target)) w of
        (w, Inl source) \<Rightarrow>
          (w, Inl (cli_with_source source
            (cargo_failed ''could not start Cargo for the selected application'')))
      | (w, Inr has_stdout) \<Rightarrow>
          if has_stdout then (w, Inr ())
          else (w, Inl (cargo_failed ''could not read Cargo build output'')))"

definition build_cancel :: "'w cli_system \<Rightarrow> 'w \<Rightarrow> 'w \<times> (cli_error + unit)" where
  "build_cancel sys w =
     (let (w, kill_result) = sys_kill_cargo sys w; (w, wait_result) = sys_wait_cargo sys w in
      (w, case (kill_result, wait_result) of
            (Inr _, Inr _) \<Rightarrow> Inr ()
          | (_, Inl source) \<Rightarrow>
              Inl (cli_with_source source (cargo_failed ''could not wait for the cancelled Cargo build''))
          | (Inl source, Inr _) \<Rightarrow>
              Inl (cli_with_source source (cargo_failed ''could not cancel Cargo build''))))"

section \<open>The application process\<close>

datatype stop_outcome = Graceful | Forced

definition process_error :: "string \<Rightarrow> string \<Rightarrow> cli_error" where
  "process_error message source =
     cli_with_source source (cli_error_new MADS202 ''Application process failed'' message)"

lemma ce_code_process_error [simp]: "ce_code (process_error m s) = MADS202"
  by (simp add: process_error_def)

definition spawn_dev_application ::
    "'w cli_system \<Rightarrow> built_application \<Rightarrow> string list \<Rightarrow> 'w \<Rightarrow> 'w \<times> (cli_error + application_process)" where
  "spawn_dev_application sys built arguments w =
     (case sys_tempdir sys w of
        (w, Inl source) \<Rightarrow>
          (w, Inl (process_error ''could not create application process control directory'' source))
      | (w, Inr control_directory) \<Rightarrow>
          let shutdown_path = path_join control_directory [''shutdown''] in
          (case sys_spawn sys (bu_executable built) arguments
              (rp_package_root (ra_package (bu_target built))) shutdown_path w of
             (w, Inl source) \<Rightarrow>
               (w, Inl (process_error ''could not start the selected application'' source))
           | (w, Inr child) \<Rightarrow>
               (w, Inr \<lparr>ap_child = child, ap_control_directory = control_directory,
                        ap_shutdown_path = shutdown_path\<rparr>)))"

definition process_stop ::
    "'w cli_system \<Rightarrow> nat \<Rightarrow> application_process \<Rightarrow> 'w \<Rightarrow> 'w \<times> (cli_failure + stop_outcome)" where
  "process_stop sys timeout p w =
     (if path_parent (ap_shutdown_path p) \<noteq> Some (ap_control_directory p)
      then (w, Inl (CliPanicked (Panic ''assertion failed: shutdown path is in the control directory'')))
      else
        case sys_create_file sys (ap_shutdown_path p) w of
          (w, Inl source) \<Rightarrow>
            (w, Inl (CliFailed (process_error ''could not request graceful application shutdown'' source)))
        | (w, Inr _) \<Rightarrow>
            (case sys_wait_timeout sys timeout (ap_child p) w of
               (w, Some (Inl source)) \<Rightarrow>
                 (w, Inl (CliFailed (process_error ''could not wait for the selected application'' source)))
             | (w, Some (Inr _)) \<Rightarrow> (w, Inr Graceful)
             | (w, None) \<Rightarrow>
                 (case sys_kill sys (ap_child p) w of
                    (w, Inl source) \<Rightarrow>
                      (w, Inl (CliFailed (process_error ''could not stop the selected application'' source)))
                  | (w, Inr _) \<Rightarrow>
                      (case sys_wait sys (ap_child p) w of
                         (w, Inl source) \<Rightarrow>
                           (w, Inl (CliFailed (process_error ''could not reap the selected application'' source)))
                       | (w, Inr _) \<Rightarrow> (w, Inr Forced)))))"

definition process_try_wait ::
    "'w cli_system \<Rightarrow> application_process \<Rightarrow> 'w \<Rightarrow> 'w \<times> (cli_error + bool)" where
  "process_try_wait sys p w =
     (case sys_try_wait sys (ap_child p) w of
        (w, Inl source) \<Rightarrow> (w, Inl (process_error ''could not inspect the selected application'' source))
      | (w, Inr exited) \<Rightarrow> (w, Inr exited))"

section \<open>When a build succeeds\<close>

text \<open>The messages of a sequence of lines, if every line is one.\<close>

fun messages_of :: "cargo_line list \<Rightarrow> cargo_message list option" where
  "messages_of [] = Some []"
| "messages_of (MessageLine m # ls) = map_option ((#) m) (messages_of ls)"
| "messages_of (l # ls) = None"

definition last_executable :: "resolved_application \<Rightarrow> cargo_message list \<Rightarrow> path option" where
  "last_executable target ms =
     (case rev (List.map_filter (\<lambda>m. case m of CompilerArtifact a \<Rightarrow> matching_executable target a | _ \<Rightarrow> None) ms) of
        [] \<Rightarrow> None | p # _ \<Rightarrow> Some p)"

definition reported_success :: "cargo_message list \<Rightarrow> bool" where
  "reported_success ms \<longleftrightarrow>
     (case rev (List.map_filter (\<lambda>m. case m of BuildFinished b \<Rightarrow> Some b | _ \<Rightarrow> None) ms) of
        [] \<Rightarrow> False | b # _ \<Rightarrow> b)"

lemma last_executable_snoc:
  "last_executable target (ms @ [m]) =
     (case m of
        CompilerArtifact a \<Rightarrow>
          (case matching_executable target a of None \<Rightarrow> last_executable target ms | Some p \<Rightarrow> Some p)
      | _ \<Rightarrow> last_executable target ms)"
  by (auto simp: last_executable_def List.map_filter_def split: cargo_message.splits option.splits)

lemma reported_success_snoc:
  "reported_success (ms @ [m]) \<longleftrightarrow> (case m of BuildFinished b \<Rightarrow> b | _ \<Rightarrow> reported_success ms)"
  by (auto simp: reported_success_def List.map_filter_def split: cargo_message.splits)

lemma collected:
  "fold (collector_process target) ms collector_default =
     \<lparr>col_executable = last_executable target ms, col_successful = reported_success ms\<rparr>"
proof (induction ms rule: rev_induct)
  case Nil
  then show ?case
    by (simp add: collector_default_def last_executable_def reported_success_def List.map_filter_def)
next
  case (snoc m ms)
  then show ?case
    by (cases m) (auto simp: last_executable_snoc reported_success_snoc split: option.splits)
qed

lemma collect_lines:
  "try_fold (collect_line target) lines c =
     (case messages_of lines of
        Some ms \<Rightarrow> Inr (fold (collector_process target) ms c)
      | None \<Rightarrow> try_fold (collect_line target) lines c)"
  "messages_of lines = None \<Longrightarrow> \<exists>e. try_fold (collect_line target) lines c = Inl e \<and> ce_code e = MADS201"
  by (induction lines arbitrary: c rule: messages_of.induct)
    (auto simp: collect_line_def split: option.splits)

lemma build_wait_exact:
  "case build_wait target lines status of
     Inr built \<Rightarrow> bu_target built = target \<and> status = Inr True \<and>
       (\<exists>ms. messages_of lines = Some ms \<and> reported_success ms \<and>
         last_executable target ms = Some (bu_executable built))
   | Inl e \<Rightarrow> ce_code e = MADS201 \<and>
       \<not> (\<exists>ms p. status = Inr True \<and> messages_of lines = Some ms \<and> reported_success ms \<and>
         last_executable target ms = Some p)"
proof (cases "messages_of lines")
  case None
  from collect_lines(2) [OF this, of target collector_default] None show ?thesis
    by (auto simp: build_wait_def)
next
  case (Some ms)
  have "try_fold (collect_line target) lines collector_default =
      Inr \<lparr>col_executable = last_executable target ms, col_successful = reported_success ms\<rparr>"
    using collect_lines(1) [of target lines collector_default] by (simp add: Some collected)
  then show ?thesis
    by (cases "last_executable target ms")
      (auto simp: build_wait_def collector_finish_def Some split: sum.splits)
qed

section \<open>Properties\<close>

text \<open>
  A build yields an application exactly when every line Cargo printed is a message, Cargo ended
  with success and last reported a successful build, and it produced the selected binary of the
  selected package; the executable is the last one it reported. Otherwise the error is MADS201.
\<close>

theorem build_result_exact:
  "case build_wait target lines status of
     Inr built \<Rightarrow> bu_target built = target \<and> status = Inr True \<and>
       (\<exists>ms. messages_of lines = Some ms \<and> reported_success ms \<and>
         last_executable target ms = Some (bu_executable built))
   | Inl e \<Rightarrow> ce_code e = MADS201 \<and>
       \<not> (\<exists>ms p. status = Inr True \<and> messages_of lines = Some ms \<and> reported_success ms \<and>
         last_executable target ms = Some p)"
  by (rule build_wait_exact)

end
