(* ===== verification/Dev_Supervisor.thy ===== *)
theory Dev_Supervisor
  imports Watch Cargo_Build
begin

text \<open>
  The development supervisor: the state machine that decides what to do
  (\<open>crates/mads-cli/src/dev_state.rs\<close>) and the event loop that does it (\<open>dev.rs\<close>).

  The loop waits for whichever of four sources is ready first: the shutdown signal, a change, the
  active build, the process check. Which one wins is not determined, so a run is a function of the
  list of events that won (\<open>dev_run\<close>), and the properties hold for every list. A list that ends is
  a loop that still waits. The driver records its calls, so that statements about processes and
  builds are statements about the record.
\<close>

section \<open>The state machine\<close>

datatype dev_event =
  Event_Start
| Event_Changed change_impact
| Event_BuildSucceeded built_application
| Event_BuildFailed
| Event_ApplicationExited
| Event_Shutdown

datatype dev_action =
  Action_Build
| Action_Start built_application
| Action_Stop
| Action_Restart built_application
| Action_Exit

record dev_state =
  ds_last_successful :: "built_application option"
  ds_application_running :: bool
  ds_build_running :: bool
  ds_pending :: change_impact
  ds_shutting_down :: bool

definition dev_state_new :: dev_state where
  "dev_state_new = \<lparr>ds_last_successful = None, ds_application_running = False,
     ds_build_running = False, ds_pending = NoImpact, ds_shutting_down = False\<rparr>"

definition start_build :: "dev_state \<Rightarrow> dev_state \<times> dev_action list" where
  "start_build s =
     (if ds_build_running s then (s, []) else (s\<lparr>ds_build_running := True\<rparr>, [Action_Build]))"

definition restart_last_successful :: "dev_state \<Rightarrow> dev_state \<times> dev_action list" where
  "restart_last_successful s =
     (case ds_last_successful s of
        None \<Rightarrow> (s, [])
      | Some built \<Rightarrow>
          if ds_application_running s then (s, [Action_Restart built])
          else (s\<lparr>ds_application_running := True\<rparr>, [Action_Start built]))"

definition handle_change :: "change_impact \<Rightarrow> dev_state \<Rightarrow> dev_state \<times> dev_action list" where
  "handle_change impact s =
     (if impact = NoImpact then (s, [])
      else if ds_build_running s
      then (s\<lparr>ds_pending := merge_impacts [ds_pending s, impact]\<rparr>, [])
      else case impact of
        NoImpact \<Rightarrow> (s, [])
      | Restart \<Rightarrow> restart_last_successful s
      | Rebuild \<Rightarrow> start_build s)"

definition handle_build_succeeded :: "built_application \<Rightarrow> dev_state \<Rightarrow> dev_state \<times> dev_action list" where
  "handle_build_succeeded built s =
     (let pending = ds_pending s;
          actions = (if ds_application_running s then [Action_Stop, Action_Start built]
                     else [Action_Start built]);
          s = s\<lparr>ds_build_running := False, ds_pending := NoImpact, ds_last_successful := Some built,
                ds_application_running := True\<rparr> in
      if pending = Rebuild
      then case start_build s of (s, followup) \<Rightarrow> (s, actions @ followup)
      else (s, actions))"

definition handle_build_failed :: "dev_state \<Rightarrow> dev_state \<times> dev_action list" where
  "handle_build_failed s =
     (let pending = ds_pending s; s = s\<lparr>ds_build_running := False, ds_pending := NoImpact\<rparr> in
      if pending = Rebuild then start_build s else (s, []))"

definition dev_shutdown :: "dev_state \<Rightarrow> dev_state \<times> dev_action list" where
  "dev_shutdown s =
     (let s = s\<lparr>ds_shutting_down := True, ds_build_running := False, ds_pending := NoImpact\<rparr> in
      if ds_application_running s
      then (s\<lparr>ds_application_running := False\<rparr>, [Action_Stop, Action_Exit])
      else (s, [Action_Exit]))"

definition transition :: "dev_event \<Rightarrow> dev_state \<Rightarrow> dev_state \<times> dev_action list" where
  "transition event s =
     (if ds_shutting_down s then (s, [])
      else case event of
        Event_Start \<Rightarrow> start_build s
      | Event_Changed impact \<Rightarrow> handle_change impact s
      | Event_BuildSucceeded built \<Rightarrow> handle_build_succeeded built s
      | Event_BuildFailed \<Rightarrow> handle_build_failed s
      | Event_ApplicationExited \<Rightarrow> (s\<lparr>ds_application_running := False\<rparr>, [])
      | Event_Shutdown \<Rightarrow> dev_shutdown s)"

lemmas dev_state_defs =
  transition_def start_build_def restart_last_successful_def handle_change_def
  handle_build_succeeded_def handle_build_failed_def dev_shutdown_def Let_def

section \<open>The driver\<close>

text \<open>The build in progress: a Cargo process, or one that could not be started and its error.\<close>

datatype build_task = CargoTask | FailedBuild "cli_error option"

datatype dev_call =
  Spawned built_application
| Stopped
| ExitSeen
| BuildBegun
| BuildEnded

record 'w dev_driver =
  dd_application :: "application_process option"
  dd_build :: "build_task option"
  dd_world :: 'w
  dd_calls :: "dev_call list"

definition log_call :: "dev_call \<Rightarrow> 'w dev_driver \<Rightarrow> 'w dev_driver" where
  "log_call c d = d\<lparr>dd_calls := dd_calls d @ [c]\<rparr>"

definition SHUTDOWN_TIMEOUT :: nat where
  "SHUTDOWN_TIMEOUT = 3000"

definition second_application_error :: cli_error where
  "second_application_error = cli_error_new MADS220 ''Development supervisor failed''
     ''attempted to start a second application process''"

definition driver_build :: "'w cli_system \<Rightarrow> resolved_application \<Rightarrow> 'w dev_driver \<Rightarrow> 'w dev_driver" where
  "driver_build sys target d =
     (case cargo_build_start sys target (dd_world d) of
        (w, Inr _) \<Rightarrow> d\<lparr>dd_world := w, dd_build := Some CargoTask\<rparr>
      | (w, Inl e) \<Rightarrow> d\<lparr>dd_world := w, dd_build := Some (FailedBuild (Some e))\<rparr>)"

definition driver_start ::
    "'w cli_system \<Rightarrow> built_application \<Rightarrow> string list \<Rightarrow> 'w dev_driver \<Rightarrow> 'w dev_driver \<times> (cli_failure + unit)" where
  "driver_start sys built arguments d =
     (if dd_application d \<noteq> None then (d, Inl (CliFailed second_application_error))
      else case spawn_dev_application sys built arguments (dd_world d) of
        (w, Inl e) \<Rightarrow> (d\<lparr>dd_world := w\<rparr>, Inl (CliFailed e))
      | (w, Inr p) \<Rightarrow> (log_call (Spawned built) (d\<lparr>dd_world := w, dd_application := Some p\<rparr>), Inr ()))"

definition driver_stop :: "'w cli_system \<Rightarrow> 'w dev_driver \<Rightarrow> 'w dev_driver \<times> (cli_failure + stop_outcome)" where
  "driver_stop sys d =
     (case dd_application d of
        None \<Rightarrow> (d, Inr Graceful)
      | Some p \<Rightarrow>
          (case process_stop sys SHUTDOWN_TIMEOUT p (dd_world d) of
             (w, r) \<Rightarrow> (log_call Stopped (d\<lparr>dd_application := None, dd_world := w\<rparr>), r)))"

definition application_exited :: "'w cli_system \<Rightarrow> 'w dev_driver \<Rightarrow> 'w dev_driver \<times> (cli_error + bool)" where
  "application_exited sys d =
     (case dd_application d of
        None \<Rightarrow> (d, Inr False)
      | Some p \<Rightarrow>
          (case process_try_wait sys p (dd_world d) of
             (w, Inl e) \<Rightarrow> (d\<lparr>dd_world := w\<rparr>, Inl e)
           | (w, Inr True) \<Rightarrow> (log_call ExitSeen (d\<lparr>dd_world := w, dd_application := None\<rparr>), Inr True)
           | (w, Inr False) \<Rightarrow> (d\<lparr>dd_world := w\<rparr>, Inr False)))"

definition cancel_active_build :: "'w cli_system \<Rightarrow> 'w dev_driver \<Rightarrow> 'w dev_driver \<times> (cli_failure + unit)" where
  "cancel_active_build sys d =
     (case dd_build d of
        None \<Rightarrow> (d, Inr ())
      | Some build \<Rightarrow>
          (let d = log_call BuildEnded (d\<lparr>dd_build := None\<rparr>) in
           case build of
             FailedBuild _ \<Rightarrow> (d, Inr ())
           | CargoTask \<Rightarrow>
               (case build_cancel sys (dd_world d) of (w, r) \<Rightarrow> (d\<lparr>dd_world := w\<rparr>, or_cli_error r))))"

text \<open>The result of the active build; the error of a failed build is taken out when awaited.\<close>

fun wait_for_build ::
    "resolved_application \<Rightarrow> cargo_line list \<Rightarrow> string + bool \<Rightarrow> 'w dev_driver \<Rightarrow>
     'w dev_driver \<times> (panic + (cli_error + built_application)) option" where
  "wait_for_build target lines status d =
     (case dd_build d of
        None \<Rightarrow> (d, None)
      | Some CargoTask \<Rightarrow> (d, Some (Inr (build_wait target lines status)))
      | Some (FailedBuild None) \<Rightarrow> (d, Some (Inl (Panic ''failed builds are awaited once'')))
      | Some (FailedBuild (Some e)) \<Rightarrow> (d\<lparr>dd_build := Some (FailedBuild None)\<rparr>, Some (Inr (Inl e))))"

text \<open>The loop over the actions: \<open>Inr True\<close> when it met \<open>Exit\<close>.\<close>

fun execute_actions ::
    "'w cli_system \<Rightarrow> resolved_application \<Rightarrow> string list \<Rightarrow> dev_action list \<Rightarrow> 'w dev_driver \<Rightarrow>
     'w dev_driver \<times> (cli_failure + bool)" where
  "execute_actions sys target arguments [] d = (d, Inr False)"
| "execute_actions sys target arguments (Action_Build # actions) d =
     (if dd_build d \<noteq> None then (d, Inl (CliPanicked (Panic ''assertion failed: build.is_none()'')))
      else execute_actions sys target arguments actions
        (driver_build sys target (log_call BuildBegun d)))"
| "execute_actions sys target arguments (Action_Start built # actions) d =
     (case driver_start sys built arguments d of
        (d, Inl e) \<Rightarrow> (d, Inl e)
      | (d, Inr _) \<Rightarrow> execute_actions sys target arguments actions d)"
| "execute_actions sys target arguments (Action_Stop # actions) d =
     (case driver_stop sys d of
        (d, Inl e) \<Rightarrow> (d, Inl e)
      | (d, Inr _) \<Rightarrow> execute_actions sys target arguments actions d)"
| "execute_actions sys target arguments (Action_Restart built # actions) d =
     (case driver_stop sys d of
        (d, Inl e) \<Rightarrow> (d, Inl e)
      | (d, Inr _) \<Rightarrow>
          (case driver_start sys built arguments d of
             (d, Inl e) \<Rightarrow> (d, Inl e)
           | (d, Inr _) \<Rightarrow> execute_actions sys target arguments actions d))"
| "execute_actions sys target arguments (Action_Exit # actions) d = (d, Inr True)"

section \<open>The event loop\<close>

text \<open>
  The branch of the \<open>select!\<close> that won, with what its source delivered. A closed channel of
  changes is \<open>Sel_Change None\<close>; what Cargo printed comes with the end of the build.
\<close>

datatype selected =
  Sel_Shutdown
| Sel_Change "(cli_error + change_impact) option"
| Sel_Build "cargo_line list" "string + bool"
| Sel_Tick

definition watch_channel_closed :: cli_error where
  "watch_channel_closed = cli_error_new MADS220 ''File watcher failed''
     ''the debounced watch event channel closed unexpectedly''"

type_synonym 'w dev_loop = "dev_state \<times> 'w dev_driver"

text \<open>
  One branch: the new state and driver with the actions to execute, or the failure that ends the
  loop. A build that is not active is never ready, so its branch leaves everything as it is.
\<close>

fun select_branch ::
    "'w cli_system \<Rightarrow> resolved_application \<Rightarrow> selected \<Rightarrow> 'w dev_loop \<Rightarrow>
     'w dev_loop \<times> (cli_failure + dev_action list)" where
  "select_branch sys target Sel_Shutdown (s, d) =
     (case cancel_active_build sys d of
        (d, Inl e) \<Rightarrow> ((s, d), Inl e)
      | (d, Inr _) \<Rightarrow> (case transition Event_Shutdown s of (s, actions) \<Rightarrow> ((s, d), Inr actions)))"
| "select_branch sys target (Sel_Change change) (s, d) =
     (case and_then (ok_or watch_channel_closed change) (\<lambda>change. change) of
        Inl e \<Rightarrow> ((s, d), Inl (CliFailed e))
      | Inr impact \<Rightarrow>
          (case transition (Event_Changed impact) s of (s, actions) \<Rightarrow> ((s, d), Inr actions)))"
| "select_branch sys target (Sel_Build lines status) (s, d) =
     (case wait_for_build target lines status d of
        (d, None) \<Rightarrow> ((s, d), Inr [])
      | (d, Some (Inl panic)) \<Rightarrow> ((s, d), Inl (CliPanicked panic))
      | (d, Some (Inr (Inr built))) \<Rightarrow>
          (let d = log_call BuildEnded (d\<lparr>dd_build := None\<rparr>) in
           case transition (Event_BuildSucceeded built) s of (s, actions) \<Rightarrow> ((s, d), Inr actions))
      | (d, Some (Inr (Inl e))) \<Rightarrow>
          (case cancel_active_build sys d of
             (d, Inl cleanup) \<Rightarrow> ((s, d), Inl cleanup)
           | (d, Inr _) \<Rightarrow>
               (case transition Event_BuildFailed s of (s, actions) \<Rightarrow> ((s, d), Inr actions))))"
| "select_branch sys target Sel_Tick (s, d) =
     (case application_exited sys d of
        (d, Inl e) \<Rightarrow> ((s, d), Inl (CliFailed e))
      | (d, Inr True) \<Rightarrow>
          (case transition Event_ApplicationExited s of (s, actions) \<Rightarrow> ((s, d), Inr actions))
      | (d, Inr False) \<Rightarrow> ((s, d), Inr []))"

datatype 'w loop_result = Waiting "'w dev_loop" | Ended "'w dev_loop" "cli_failure + unit"

text \<open>The clean-up behind the loop.\<close>

definition loop_end :: "'w cli_system \<Rightarrow> 'w dev_loop \<Rightarrow> cli_failure + unit \<Rightarrow> 'w loop_result" where
  "loop_end sys = (\<lambda>(s, d) result.
     (case result of
        Inr _ \<Rightarrow> Ended (s, d) result
      | Inl (CliPanicked _) \<Rightarrow> Ended (s, d) result
      | Inl (CliFailed _) \<Rightarrow>
          (case driver_stop sys (fst (cancel_active_build sys d)) of
             (d, Inl (CliPanicked p)) \<Rightarrow> Ended (s, d) (Inl (CliPanicked p))
           | (d, _) \<Rightarrow> Ended (s, d) result)))"

text \<open>The head of the loop: the pending actions are executed, then it waits.\<close>

definition loop_head ::
    "'w cli_system \<Rightarrow> resolved_application \<Rightarrow> string list \<Rightarrow> dev_action list \<Rightarrow> 'w dev_loop \<Rightarrow> 'w loop_result" where
  "loop_head sys target arguments actions = (\<lambda>(s, d).
     (case execute_actions sys target arguments actions d of
        (d, Inl e) \<Rightarrow> loop_end sys (s, d) (Inl e)
      | (d, Inr True) \<Rightarrow> loop_end sys (s, d) (Inr ())
      | (d, Inr False) \<Rightarrow> Waiting (s, d)))"

definition loop_turn ::
    "'w cli_system \<Rightarrow> resolved_application \<Rightarrow> string list \<Rightarrow> selected \<Rightarrow> 'w dev_loop \<Rightarrow> 'w loop_result" where
  "loop_turn sys target arguments event l =
     (case select_branch sys target event l of
        (l, Inl e) \<Rightarrow> loop_end sys l (Inl e)
      | (l, Inr actions) \<Rightarrow> loop_head sys target arguments actions l)"

fun loop_from ::
    "'w cli_system \<Rightarrow> resolved_application \<Rightarrow> string list \<Rightarrow> selected list \<Rightarrow> 'w loop_result \<Rightarrow> 'w loop_result" where
  "loop_from sys target arguments (event # events) (Waiting l) =
     loop_from sys target arguments events (loop_turn sys target arguments event l)"
| "loop_from sys target arguments events r = r"

definition driver_default :: "'w \<Rightarrow> 'w dev_driver" where
  "driver_default w = \<lparr>dd_application = None, dd_build = None, dd_world = w, dd_calls = []\<rparr>"

definition dev_run ::
    "'w cli_system \<Rightarrow> resolved_application \<Rightarrow> string list \<Rightarrow> 'w \<Rightarrow> selected list \<Rightarrow> 'w loop_result" where
  "dev_run sys target arguments w events =
     (case transition Event_Start dev_state_new of
        (s, actions) \<Rightarrow>
          loop_from sys target arguments events
            (loop_head sys target arguments actions (s, driver_default w)))"

section \<open>What the record of calls says\<close>

text \<open>
  Two automata read the record: the application that runs after it, and whether a build does. They
  get stuck (\<open>None\<close>) at a second application, a stop of nothing, a second build.
\<close>

fun app_step :: "dev_call \<Rightarrow> built_application option \<Rightarrow> built_application option option" where
  "app_step (Spawned built) None = Some (Some built)"
| "app_step (Spawned built) (Some _) = None"
| "app_step Stopped (Some _) = Some None"
| "app_step ExitSeen (Some _) = Some None"
| "app_step Stopped None = None"
| "app_step ExitSeen None = None"
| "app_step BuildBegun r = Some r"
| "app_step BuildEnded r = Some r"

fun build_step :: "dev_call \<Rightarrow> bool \<Rightarrow> bool option" where
  "build_step BuildBegun b = (if b then None else Some True)"
| "build_step BuildEnded b = (if b then Some False else None)"
| "build_step _ b = Some b"

definition app_after :: "dev_call list \<Rightarrow> built_application option option" where
  "app_after calls = fold (\<lambda>c r. Option.bind r (app_step c)) calls (Some None)"

definition build_after :: "dev_call list \<Rightarrow> bool option" where
  "build_after calls = fold (\<lambda>c b. Option.bind b (build_step c)) calls (Some False)"

lemma after_snoc [simp]:
  "app_after (calls @ [c]) = Option.bind (app_after calls) (app_step c)"
  "build_after (calls @ [c]) = Option.bind (build_after calls) (build_step c)"
  by (simp_all add: app_after_def build_after_def)

lemma after_Nil [simp]: "app_after [] = Some None" "build_after [] = Some False"
  by (simp_all add: app_after_def build_after_def)

definition process_ok :: "application_process \<Rightarrow> bool" where
  "process_ok p \<longleftrightarrow> path_parent (ap_shutdown_path p) = Some (ap_control_directory p)"

text \<open>The driver agrees with its record; \<open>running\<close> is the application it runs.\<close>

definition driver_ok :: "built_application option \<Rightarrow> 'w dev_driver \<Rightarrow> bool" where
  "driver_ok running d \<longleftrightarrow>
     app_after (dd_calls d) = Some running \<and>
     build_after (dd_calls d) = Some (dd_build d \<noteq> None) \<and>
     (running = None \<longleftrightarrow> dd_application d = None) \<and>
     (\<forall>p \<in> set_option (dd_application d). process_ok p)"

definition fresh_build :: "'w dev_driver \<Rightarrow> bool" where
  "fresh_build d \<longleftrightarrow> dd_build d \<noteq> Some (FailedBuild None)"

lemma dd_log_call [simp]:
  "dd_application (log_call c d) = dd_application d" "dd_build (log_call c d) = dd_build d"
  "dd_world (log_call c d) = dd_world d" "dd_calls (log_call c d) = dd_calls d @ [c]"
  by (simp_all add: log_call_def)

lemma spawned_process_ok:
  "case spawn_dev_application sys built arguments w of
     (w, Inl e) \<Rightarrow> ce_code e = MADS202 | (w, Inr p) \<Rightarrow> process_ok p"
  by (auto simp: spawn_dev_application_def Let_def process_ok_def split: prod.splits sum.splits)

lemma process_stop_ok:
  "process_ok p \<Longrightarrow> process_stop sys timeout p w = (w', Inl f) \<Longrightarrow> \<exists>e. f = CliFailed e \<and> ce_code e = MADS202"
  by (auto simp: process_stop_def process_ok_def split: prod.splits sum.splits option.splits)

lemma process_try_wait_ok:
  "process_try_wait sys p w = (w', Inl e) \<Longrightarrow> ce_code e = MADS202"
  by (auto simp: process_try_wait_def split: prod.splits sum.splits)

lemma build_cancel_ok:
  "build_cancel sys w = (w', Inl e) \<Longrightarrow> ce_code e = MADS201"
  by (auto simp: build_cancel_def Let_def split: prod.splits sum.splits)

lemma driver_start_ok:
  assumes "driver_ok None d"
  shows "case driver_start sys built arguments d of (d', r) \<Rightarrow>
    dd_build d' = dd_build d \<and>
    (case r of
       Inr _ \<Rightarrow> driver_ok (Some built) d'
     | Inl f \<Rightarrow> driver_ok None d' \<and> (\<exists>e. f = CliFailed e \<and> ce_code e = MADS202))"
  using assms spawned_process_ok [of sys built arguments "dd_world d"]
  by (auto simp: driver_start_def driver_ok_def split: prod.splits sum.splits)

lemma driver_stop_ok:
  assumes "driver_ok running d"
  shows "case driver_stop sys d of (d', r) \<Rightarrow>
    dd_build d' = dd_build d \<and> driver_ok None d' \<and>
    (\<forall>f. r = Inl f \<longrightarrow> (\<exists>e. f = CliFailed e \<and> ce_code e = MADS202))"
  using assms
  by (auto simp: driver_stop_def driver_ok_def process_stop_ok split: option.splits prod.splits)

lemma driver_build_ok:
  assumes "driver_ok running d" "dd_build d = None"
  shows "driver_ok running (driver_build sys target (log_call BuildBegun d))"
    "dd_build (driver_build sys target (log_call BuildBegun d)) \<noteq> None"
    "fresh_build (driver_build sys target (log_call BuildBegun d))"
  using assms
  by (auto simp: driver_build_def driver_ok_def fresh_build_def split: prod.splits sum.splits)

lemma cancel_active_build_ok:
  assumes "driver_ok running d"
  shows "case cancel_active_build sys d of (d', r) \<Rightarrow>
    dd_build d' = None \<and> driver_ok running d' \<and>
    (\<forall>f. r = Inl f \<longrightarrow> (\<exists>e. f = CliFailed e \<and> ce_code e = MADS201))"
  using assms build_cancel_ok
  by (auto simp: cancel_active_build_def driver_ok_def Let_def split: option.splits prod.splits
      build_task.splits elim!: or_cli_error.elims)

section \<open>Executing actions\<close>

text \<open>
  The abstract effect of actions on the running application and the running build; \<open>None\<close> when an
  action is not possible. The third component says that the loop ends.
\<close>

fun effect ::
    "dev_action list \<Rightarrow> built_application option \<Rightarrow> bool \<Rightarrow> (built_application option \<times> bool \<times> bool) option" where
  "effect [] r b = Some (r, b, False)"
| "effect (Action_Build # as) r b = (if b then None else effect as r True)"
| "effect (Action_Start built # as) r b = (if r \<noteq> None then None else effect as (Some built) b)"
| "effect (Action_Stop # as) r b = effect as None b"
| "effect (Action_Restart built # as) r b = effect as (Some built) b"
| "effect (Action_Exit # as) r b = Some (r, b, True)"

lemma execute_actions_ok:
  assumes "effect actions r b = Some (r', b', exited)"
    and "driver_ok r d" "b \<longleftrightarrow> dd_build d \<noteq> None" "fresh_build d"
  shows "case execute_actions sys target arguments actions d of
     (d', Inr x) \<Rightarrow> x = exited \<and> driver_ok r' d' \<and> (b' \<longleftrightarrow> dd_build d' \<noteq> None) \<and> fresh_build d'
   | (d', Inl f) \<Rightarrow> (\<exists>e. f = CliFailed e \<and> ce_code e = MADS202) \<and> (\<exists>r. driver_ok r d')"
  using assms
proof (induction actions r b arbitrary: d rule: effect.induct)
  case (2 as r b)
  from 2(2,4) have none: "\<not> b" "dd_build d = None" "effect as r True = Some (r', b', exited)"
    by (auto split: if_splits)
  note build = driver_build_ok [OF 2(3) none(2), of sys target]
  from 2(1) [OF none(1,3) build(1) _ build(3)] build(2) none(2) show ?case
    by (simp del: not_None_eq)
next
  case (3 built as r b)
  from 3(2) have [simp]: "r = None" by (auto split: if_splits)
  with 3(3) driver_start_ok [where d = d and sys = sys and built = built and arguments = arguments] 3 show ?case
    by (cases "driver_start sys built arguments d") (auto simp: fresh_build_def split: sum.splits)
next
  case (4 as r b)
  with driver_stop_ok [of r d sys] show ?case
    by (cases "driver_stop sys d") (auto simp: fresh_build_def split: sum.splits)
next
  case (5 built as r b)
  obtain d1 r1 where stop: "driver_stop sys d = (d1, r1)" by fastforce
  with driver_stop_ok [OF 5(3), of sys] have d1: "dd_build d1 = dd_build d" "driver_ok None d1"
    "\<And>f. r1 = Inl f \<Longrightarrow> \<exists>e. f = CliFailed e \<and> ce_code e = MADS202" by auto
  from d1(1,2) 5 driver_start_ok [OF d1(2), where sys = sys and built = built and arguments = arguments] stop d1(3) show ?case
    by (cases r1; cases "driver_start sys built arguments d1")
      (auto simp: fresh_build_def split: sum.splits)
qed auto

section \<open>The state machine keeps to what is possible\<close>

definition running_application :: "dev_state \<Rightarrow> built_application option" where
  "running_application s = (if ds_application_running s then ds_last_successful s else None)"

definition dev_state_ok :: "dev_state \<Rightarrow> bool" where
  "dev_state_ok s \<longleftrightarrow> \<not> ds_shutting_down s \<and>
     (ds_application_running s \<longrightarrow> ds_last_successful s \<noteq> None) \<and>
     (ds_pending s \<noteq> NoImpact \<longrightarrow> ds_build_running s)"

text \<open>
  Per event, what runs when it is handled: a build that ended or was cancelled, and an application
  that exited, no longer do.
\<close>

fun builds_at :: "dev_event \<Rightarrow> dev_state \<Rightarrow> bool" where
  "builds_at (Event_BuildSucceeded _) s = False"
| "builds_at Event_BuildFailed s = False"
| "builds_at Event_Shutdown s = False"
| "builds_at _ s = ds_build_running s"

fun runs_at :: "dev_event \<Rightarrow> dev_state \<Rightarrow> built_application option" where
  "runs_at Event_ApplicationExited s = None"
| "runs_at _ s = running_application s"

lemma transition_ok:
  assumes "dev_state_ok s" "transition event s = (s', actions)"
  shows "effect actions (runs_at event s) (builds_at event s) =
      Some (running_application s', ds_build_running s', ds_shutting_down s')"
    "\<not> ds_shutting_down s' \<Longrightarrow> dev_state_ok s'"
    "ds_shutting_down s' \<longleftrightarrow> event = Event_Shutdown"
    "ds_shutting_down s' \<Longrightarrow> running_application s' = None \<and> \<not> ds_build_running s'"
  using assms
  by (cases event; auto simp: dev_state_defs dev_state_ok_def running_application_def
      split: if_splits option.splits change_impact.splits)+

section \<open>The invariant of the loop\<close>

definition loop_ok :: "'w dev_loop \<Rightarrow> bool" where
  "loop_ok = (\<lambda>(s, d). dev_state_ok s \<and> driver_ok (running_application s) d \<and>
     (ds_build_running s \<longleftrightarrow> dd_build d \<noteq> None) \<and> fresh_build d)"

text \<open>What holds when the loop has ended: nothing is left running, and how it can fail.\<close>

fun failure_codes :: "string set \<Rightarrow> cli_failure + 'a \<Rightarrow> bool" where
  "failure_codes codes (Inr _) \<longleftrightarrow> True"
| "failure_codes codes (Inl (CliFailed e)) \<longleftrightarrow> ce_code e \<in> codes"
| "failure_codes codes (Inl (CliPanicked _)) \<longleftrightarrow> False"

definition loop_ended :: "string set \<Rightarrow> 'w dev_driver \<Rightarrow> cli_failure + unit \<Rightarrow> bool" where
  "loop_ended codes d result \<longleftrightarrow> driver_ok None d \<and> dd_build d = None \<and> failure_codes codes result"

definition result_ok :: "string set \<Rightarrow> 'w loop_result \<Rightarrow> bool" where
  "result_ok codes r \<longleftrightarrow>
     (case r of Waiting l \<Rightarrow> loop_ok l | Ended (s, d) result \<Rightarrow> loop_ended codes d result)"

lemma loop_end_failed:
  assumes "driver_ok r d" "ce_code e \<in> codes"
  shows "result_ok codes (loop_end sys (s, d) (Inl (CliFailed e)))"
proof -
  obtain d1 r1 where cancel: "cancel_active_build sys d = (d1, r1)" by fastforce
  with cancel_active_build_ok [OF assms(1), of sys] have d1: "driver_ok r d1" "dd_build d1 = None" by auto
  obtain d2 r2 where stop: "driver_stop sys d1 = (d2, r2)" by fastforce
  with driver_stop_ok [OF d1(1), of sys] d1(2)
  have "driver_ok None d2" "dd_build d2 = None" "\<And>f. r2 = Inl f \<Longrightarrow> \<exists>e. f = CliFailed e" by auto
  with assms(2) cancel stop show ?thesis
    by (cases r2) (auto simp: loop_end_def result_ok_def loop_ended_def)
qed

lemma loop_end_ended: "\<exists>l' result'. loop_end sys l result = Ended l' result'"
  by (auto simp: loop_end_def split: prod.splits sum.splits cli_failure.splits)

lemma loop_head_ok:
  assumes "effect actions r b = Some (running_application s, ds_build_running s, ds_shutting_down s)"
    and "driver_ok r d" "b \<longleftrightarrow> dd_build d \<noteq> None" "fresh_build d"
    and "\<not> ds_shutting_down s \<Longrightarrow> dev_state_ok s"
    and "ds_shutting_down s \<Longrightarrow> running_application s = None \<and> \<not> ds_build_running s"
    and "MADS202 \<in> codes"
  shows "result_ok codes (loop_head sys target arguments actions (s, d))"
    "ds_shutting_down s \<Longrightarrow> \<exists>l result. loop_head sys target arguments actions (s, d) = Ended l result"
proof -
  obtain d' x where run: "execute_actions sys target arguments actions d = (d', x)" by fastforce
  note exec = execute_actions_ok [OF assms(1-4), of sys target arguments, unfolded run]
  show "result_ok codes (loop_head sys target arguments actions (s, d))"
  proof (cases x)
    case (Inl f)
    with exec obtain e r where "f = CliFailed e" "ce_code e = MADS202" "driver_ok r d'" by auto
    with Inl run loop_end_failed [of r d' e codes] assms(7) show ?thesis by (simp add: loop_head_def)
  next
    case (Inr exited)
    with exec have "exited \<longleftrightarrow> ds_shutting_down s" "driver_ok (running_application s) d'"
      "ds_build_running s \<longleftrightarrow> dd_build d' \<noteq> None" "fresh_build d'" by auto
    with Inr run assms(5,6) show ?thesis
      by (cases exited) (auto simp: loop_head_def loop_end_def result_ok_def loop_ok_def loop_ended_def)
  qed
  assume "ds_shutting_down s"
  with exec have "x = Inr True \<or> (\<exists>f. x = Inl f)" by (cases x) auto
  with loop_end_ended [of sys] run show "\<exists>l result. loop_head sys target arguments actions (s, d) = Ended l result"
    unfolding loop_head_def by (elim disjE exE) simp_all
qed

text \<open>One branch: what the event changes, and the driver as the actions find it.\<close>

definition branch_ok :: "string set \<Rightarrow> dev_event option \<Rightarrow> dev_state \<Rightarrow> 'w dev_loop \<times> (cli_failure + dev_action list) \<Rightarrow> bool" where
  "branch_ok codes event s = (\<lambda>((s', d), r).
     case r of
       Inl f \<Rightarrow> failure_codes codes (Inl f :: cli_failure + unit) \<and> (\<exists>r. driver_ok r d)
     | Inr actions \<Rightarrow>
         (case event of
            None \<Rightarrow> s' = s \<and> actions = [] \<and> loop_ok (s, d)
          | Some event \<Rightarrow> transition event s = (s', actions) \<and> driver_ok (runs_at event s) d \<and>
              (builds_at event s \<longleftrightarrow> dd_build d \<noteq> None) \<and> fresh_build d))"

fun event_codes :: "selected \<Rightarrow> string set" where
  "event_codes (Sel_Change None) = {MADS220}"
| "event_codes (Sel_Change (Some (Inl e))) = {ce_code e}"
| "event_codes _ = {}"

lemma select_branch_ok:
  assumes "loop_ok (s, d)"
  shows "\<exists>event. branch_ok ({MADS201, MADS202} \<union> event_codes selected) event s (select_branch sys target selected (s, d)) \<and>
    (selected = Sel_Shutdown \<longrightarrow> event = Some Event_Shutdown)"
proof -
  let ?r = "running_application s"
  from assms have ok: "driver_ok ?r d" "ds_build_running s \<longleftrightarrow> dd_build d \<noteq> None" "fresh_build d"
    by (auto simp: loop_ok_def)
  show ?thesis
  proof (cases selected)
    case Sel_Shutdown
    with cancel_active_build_ok [OF ok(1), of sys] show ?thesis
      by (cases "cancel_active_build sys d")
        (auto simp: branch_ok_def fresh_build_def intro!: exI [of _ "Some Event_Shutdown"] split: sum.splits prod.splits)
  next
    case (Sel_Change change)
    show ?thesis
    proof (cases "and_then (ok_or watch_channel_closed change) (\<lambda>change. change)")
      case (Inl e)
      then have "ce_code e \<in> event_codes selected"
        using Sel_Change by (cases change) (auto simp: watch_channel_closed_def and_then_eq_Inl)
      with Inl Sel_Change ok(1) show ?thesis by (auto simp: branch_ok_def)
    next
      case (Inr impact)
      with Sel_Change ok show ?thesis
        by (auto simp: branch_ok_def intro!: exI [of _ "Some (Event_Changed impact)"] split: prod.splits)
    qed
  next
    case (Sel_Build lines status)
    show ?thesis
    proof (cases "dd_build d")
      case None
      with Sel_Build assms show ?thesis by (auto simp: branch_ok_def intro!: exI [of _ None])
    next
      case (Some task)
      define result where "result = (case task of CargoTask \<Rightarrow> build_wait target lines status
        | FailedBuild e \<Rightarrow> Inl (the e))"
      define d1 where "d1 = (if task = CargoTask then d else d\<lparr>dd_build := Some (FailedBuild None)\<rparr>)"
      have wait: "wait_for_build target lines status d = (d1, Some (Inr result))"
        using Some ok(3) by (auto simp: result_def d1_def fresh_build_def split: build_task.splits option.splits)
      have d1: "driver_ok ?r d1" using ok(1) Some by (auto simp: d1_def driver_ok_def)
      show ?thesis
      proof (cases result)
        case (Inr built)
        have "driver_ok ?r (log_call BuildEnded (d1\<lparr>dd_build := None\<rparr>))"
          using d1 Some by (auto simp: driver_ok_def d1_def)
        with Inr Sel_Build wait show ?thesis
          by (auto simp: branch_ok_def fresh_build_def Let_def
              intro!: exI [of _ "Some (Event_BuildSucceeded built)"] split: prod.splits)
      next
        case (Inl e)
        with Sel_Build wait cancel_active_build_ok [OF d1, of sys] show ?thesis
          by (cases "cancel_active_build sys d1")
            (auto simp: branch_ok_def fresh_build_def intro!: exI [of _ "Some Event_BuildFailed"]
              split: sum.splits prod.splits)
      qed
    qed
  next
    case Sel_Tick
    show ?thesis
    proof (cases "application_exited sys d")
      case (Pair d' r)
      have d': "dd_build d' = dd_build d" "r = Inr True \<Longrightarrow> driver_ok None d'"
        "r \<noteq> Inr True \<Longrightarrow> driver_ok ?r d'" "\<And>e. r = Inl e \<Longrightarrow> ce_code e = MADS202"
        using Pair ok(1) process_try_wait_ok
        by (auto simp: application_exited_def driver_ok_def split: option.splits prod.splits sum.splits bool.splits)
      consider e where "r = Inl e" | "r = Inr True" | "r = Inr False" by (cases r) auto
      then show ?thesis
      proof cases
        case 1
        with Sel_Tick Pair d' show ?thesis by (auto simp: branch_ok_def)
      next
        case 2
        with Sel_Tick Pair d' ok show ?thesis
          by (auto simp: branch_ok_def fresh_build_def intro!: exI [of _ "Some Event_ApplicationExited"] split: prod.splits)
      next
        case 3
        with Sel_Tick Pair d' ok assms show ?thesis
          by (auto simp: branch_ok_def loop_ok_def fresh_build_def intro!: exI [of _ None])
      qed
    qed
  qed
qed

lemma result_ok_mono: "result_ok codes r \<Longrightarrow> codes \<subseteq> codes' \<Longrightarrow> result_ok codes' r"
  by (auto simp: result_ok_def loop_ended_def split: loop_result.splits elim!: failure_codes.elims)

lemma loop_turn_ok:
  assumes "loop_ok l"
  shows "result_ok ({MADS201, MADS202} \<union> event_codes selected) (loop_turn sys target arguments selected l)"
    "selected = Sel_Shutdown \<Longrightarrow> \<exists>l' result. loop_turn sys target arguments selected l = Ended l' result"
proof -
  obtain s d where l: "l = (s, d)" by fastforce
  let ?codes = "{MADS201, MADS202} \<union> event_codes selected"
  obtain s' d' r where branch: "select_branch sys target selected (s, d) = ((s', d'), r)"
    by (metis surj_pair)
  obtain event where event: "branch_ok ?codes event s ((s', d'), r)"
    "selected = Sel_Shutdown \<longrightarrow> event = Some Event_Shutdown"
    using select_branch_ok [of s d selected sys target] assms branch l by auto
  have "result_ok ?codes (loop_turn sys target arguments selected l) \<and>
    (selected = Sel_Shutdown \<longrightarrow> (\<exists>l' result. loop_turn sys target arguments selected l = Ended l' result))"
  proof (cases r)
    case (Inl f)
    with event obtain e r where "f = CliFailed e" "ce_code e \<in> ?codes" "driver_ok r d'"
      by (cases f) (auto simp: branch_ok_def)
    moreover have "loop_turn sys target arguments selected l = loop_end sys (s', d') (Inl f)"
      using Inl branch l by (simp add: loop_turn_def)
    ultimately show ?thesis
      using loop_end_failed [of r d' e ?codes sys s'] loop_end_ended [of sys "(s', d')" "Inl f"] by auto
  next
    case (Inr actions)
    show ?thesis
    proof (cases event)
      case None
      with event Inr branch l show ?thesis
        by (auto simp: branch_ok_def loop_turn_def loop_head_def result_ok_def)
    next
      case (Some ev)
      have s: "dev_state_ok s" using assms l by (simp add: loop_ok_def)
      from event(1) Inr Some have ev: "transition ev s = (s', actions)" "driver_ok (runs_at ev s) d'"
        "builds_at ev s \<longleftrightarrow> dd_build d' \<noteq> None" "fresh_build d'" by (auto simp: branch_ok_def)
      note ok = transition_ok [OF s ev(1)]
      have "result_ok ?codes (loop_head sys target arguments actions (s', d'))"
        using ok by (intro loop_head_ok(1) [OF ok(1) ev(2-4)]) auto
      moreover have "\<exists>l' result. loop_head sys target arguments actions (s', d') = Ended l' result"
        if "selected = Sel_Shutdown"
        by (rule loop_head_ok(2) [OF ok(1) ev(2-4), where codes = ?codes]) (use ok event(2) Some that in auto)
      moreover have "loop_turn sys target arguments selected l = loop_head sys target arguments actions (s', d')"
        using Inr branch l by (simp add: loop_turn_def)
      ultimately show ?thesis by auto
    qed
  qed
  then show "result_ok ?codes (loop_turn sys target arguments selected l)"
    "selected = Sel_Shutdown \<Longrightarrow> \<exists>l' result. loop_turn sys target arguments selected l = Ended l' result"
    by blast+
qed

definition run_codes :: "selected list \<Rightarrow> string set" where
  "run_codes events = {MADS201, MADS202} \<union> \<Union> (event_codes ` set events)"

lemma loop_from_ok:
  assumes "result_ok (run_codes before) r"
  shows "result_ok (run_codes (before @ events)) (loop_from sys target arguments events r)"
  using assms
proof (induction sys target arguments events r arbitrary: before rule: loop_from.induct)
  case (1 sys target arguments event events l)
  have "result_ok (run_codes (before @ [event])) (loop_turn sys target arguments event l)"
    by (rule result_ok_mono [OF loop_turn_ok(1)]) (use 1(2) in \<open>auto simp: result_ok_def run_codes_def\<close>)
  with 1(1) [of "before @ [event]"] show ?case by simp
qed (auto elim!: result_ok_mono simp: run_codes_def)

lemma dev_run_ok: "result_ok (run_codes events) (dev_run sys target arguments w events)"
proof -
  obtain s actions where start: "transition Event_Start dev_state_new = (s, actions)" by fastforce
  have new: "dev_state_ok dev_state_new" by (simp add: dev_state_ok_def dev_state_new_def)
  note ok = transition_ok [OF new start]
  have "result_ok (run_codes []) (loop_head sys target arguments actions (s, driver_default w))"
    by (rule loop_head_ok(1) [OF ok(1)])
      (use ok in \<open>auto simp: driver_default_def driver_ok_def fresh_build_def running_application_def
        dev_state_new_def run_codes_def\<close>)
  from loop_from_ok [OF this, of events] start show ?thesis by (simp add: dev_run_def)
qed

lemma loop_from_append:
  "loop_from sys target arguments (xs @ ys) r =
     loop_from sys target arguments ys (loop_from sys target arguments xs r)"
proof (induction xs arbitrary: r)
  case Nil
  then show ?case by (cases r) auto
next
  case (Cons x xs)
  have ended: "loop_from sys target arguments zs (Ended l result) = Ended l result" for zs l result
    by (cases zs) auto
  show ?case by (cases r) (simp_all add: Cons.IH ended)
qed

lemma dev_run_shutdown:
  "\<exists>l result. dev_run sys target arguments w (events @ Sel_Shutdown # rest) = Ended l result"
proof -
  obtain s actions where start: "transition Event_Start dev_state_new = (s, actions)" by fastforce
  let ?r = "dev_run sys target arguments w events"
  have ended: "loop_from sys target arguments zs (Ended l result) = Ended l result" for zs l result
    by (cases zs) auto
  have "dev_run sys target arguments w (events @ Sel_Shutdown # rest) =
      loop_from sys target arguments (Sel_Shutdown # rest) ?r"
    by (simp add: dev_run_def start loop_from_append)
  moreover have "\<exists>l result. loop_from sys target arguments (Sel_Shutdown # rest) ?r = Ended l result"
  proof (cases ?r)
    case (Waiting l)
    with dev_run_ok [of events sys target arguments w] have "loop_ok l" by (simp add: result_ok_def)
    from loop_turn_ok(2) [OF this refl, of sys target arguments] Waiting ended show ?thesis by auto
  qed (auto simp: ended)
  ultimately show ?thesis by simp
qed

section \<open>No rebuild is lost\<close>

text \<open>
  Whether a change that needs a rebuild has come since the last build began, over a sequence of
  events and the actions each one gave.
\<close>

definition stale_after :: "dev_event \<Rightarrow> dev_action list \<Rightarrow> bool \<Rightarrow> bool" where
  "stale_after event actions stale \<longleftrightarrow>
     (stale \<or> event = Event_Changed Rebuild) \<and> Action_Build \<notin> set actions"

fun machine_run :: "dev_event list \<Rightarrow> dev_state \<times> bool \<Rightarrow> dev_state \<times> bool" where
  "machine_run [] c = c"
| "machine_run (event # events) (s, stale) =
     (case transition event s of
        (s', actions) \<Rightarrow> machine_run events (s', stale_after event actions stale))"

definition no_lost_rebuild :: "dev_state \<times> bool \<Rightarrow> bool" where
  "no_lost_rebuild = (\<lambda>(s, stale).
     stale \<longrightarrow> ds_shutting_down s \<or> ds_build_running s \<and> ds_pending s = Rebuild)"

lemma Rebuild_greatest [simp]: "max Rebuild i = Rebuild" "max i Rebuild = Rebuild"
  by (cases i; simp add: max_def less_eq_change_impact_def)+

lemma transition_keeps_rebuild:
  assumes "transition event s = (s', actions)" "no_lost_rebuild (s, stale)"
  shows "no_lost_rebuild (s', stale_after event actions stale)"
  using assms
  by (cases event) (auto simp: dev_state_defs no_lost_rebuild_def stale_after_def
      split: if_splits option.splits change_impact.splits)

lemma machine_run_keeps_rebuild: "no_lost_rebuild c \<Longrightarrow> no_lost_rebuild (machine_run events c)"
proof (induction events c rule: machine_run.induct)
  case (2 event events s stale)
  obtain s' actions where t: "transition event s = (s', actions)" by fastforce
  with 2(1) [OF t [symmetric]] transition_keeps_rebuild [OF t 2(2)] show ?case by simp
qed simp

text \<open>The end of the running build, successful or not, begins the next one.\<close>

lemma pending_rebuild_begins:
  assumes "\<not> ds_shutting_down s" "ds_pending s = Rebuild"
  shows "Action_Build \<in> set (snd (transition (Event_BuildSucceeded built) s))"
    "Action_Build \<in> set (snd (transition Event_BuildFailed s))"
  using assms by (simp_all add: dev_state_defs)

section \<open>Properties\<close>

definition sample_system :: "unit cli_system" where
  "sample_system = \<lparr>sys_start_cargo = (\<lambda>_ _ w. (w, Inr True)), sys_kill_cargo = (\<lambda>w. (w, Inr ())),
     sys_wait_cargo = (\<lambda>w. (w, Inr ())), sys_tempdir = (\<lambda>w. (w, Inr [RootDir])),
     sys_spawn = (\<lambda>_ _ _ _ w. (w, Inr 1)), sys_create_file = (\<lambda>_ w. (w, Inr ())),
     sys_wait_timeout = (\<lambda>_ _ w. (w, None)), sys_kill = (\<lambda>_ w. (w, Inr ())),
     sys_wait = (\<lambda>_ w. (w, Inr ())), sys_try_wait = (\<lambda>_ w. (w, Inr False))\<rparr>"

text \<open>
  C18: While the supervisor waits, its state machine agrees with the world: it counts an
  application as running exactly when the driver has its process, and that application is the last
  successful build; it counts a build as running exactly when there is one. The record of calls
  shows at most one application and at most one build at any time. No run panics: the assertion
  that a build is idle, and the expectation that a failed build is awaited once, never fail.
\<close>

theorem supervisor_in_step:
  "case dev_run sys target arguments w events of
     Waiting (s, d) \<Rightarrow>
       (ds_application_running s \<longleftrightarrow> dd_application d \<noteq> None) \<and>
       (ds_build_running s \<longleftrightarrow> dd_build d \<noteq> None) \<and>
       app_after (dd_calls d) =
         Some (if ds_application_running s then ds_last_successful s else None) \<and>
       build_after (dd_calls d) = Some (ds_build_running s)
   | Ended (s, d) result \<Rightarrow>
       app_after (dd_calls d) \<noteq> None \<and> build_after (dd_calls d) \<noteq> None \<and>
       (\<forall>p. result \<noteq> Inl (CliPanicked p))"
  using dev_run_ok [of events sys target arguments w]
  by (cases "dev_run sys target arguments w events")
    (auto simp: result_ok_def loop_ok_def loop_ended_def dev_state_ok_def running_application_def
      driver_ok_def split: if_splits)

text \<open>
  C19: When the supervisor ends, for whatever reason, no application process and no build is left
  running. It fails with MADS220 only when the file watcher failed: the error for starting a
  second application never occurs.
\<close>

theorem supervisor_leaves_nothing_running:
  assumes "dev_run sys target arguments w events = Ended (s, d) result"
  shows "dd_application d = None \<and> dd_build d = None \<and>
    app_after (dd_calls d) = Some None \<and> build_after (dd_calls d) = Some False \<and>
    (\<forall>e. result = Inl (CliFailed e) \<longrightarrow> ce_code e \<in> {MADS201, MADS202} \<union> \<Union> (event_codes ` set events))"
  using dev_run_ok [of events sys target arguments w] assms
  by (auto simp: result_ok_def loop_ended_def driver_ok_def run_codes_def)

theorem supervisor_leaves_nothing_running_witness:
  "\<exists>s d. dev_run sample_system sample_application [] () [Sel_Tick, Sel_Shutdown] = Ended (s, d) (Inr ()) \<and>
     dd_build d = None"
proof -
  let ?r = "dev_run sample_system sample_application [] () [Sel_Tick, Sel_Shutdown]"
  have "case ?r of Waiting _ \<Rightarrow> False | Ended _ result \<Rightarrow> \<not> isl result" by code_simp
  then obtain l result where "?r = Ended l result" "\<not> isl result" by (cases ?r) auto
  then obtain s d where r: "?r = Ended (s, d) (Inr ())" by (cases l; cases result) auto
  with supervisor_leaves_nothing_running [OF r] show ?thesis by blast
qed

text \<open>
  The shutdown signal always ends the supervisor, whatever is going on: in the middle of a
  build, with or without an application, and whether or not stopping them succeeds.
\<close>

theorem shutdown_signal_ends:
  "\<exists>l result. dev_run sys target arguments w (events @ Sel_Shutdown # rest) = Ended l result"
  by (rule dev_run_shutdown)

text \<open>
  C20: No rebuild is lost. After any sequence of events, a change that needs a rebuild and came
  after the last build began is pending behind a build that still runs, or the supervisor is
  shutting down; and when that build ends, however it ends, the next one begins.
\<close>

theorem rebuild_never_lost:
  assumes "machine_run events (dev_state_new, False) = (s, True)" "\<not> ds_shutting_down s"
  shows "ds_build_running s \<and> ds_pending s = Rebuild \<and>
    Action_Build \<in> set (snd (transition (Event_BuildSucceeded built) s)) \<and>
    Action_Build \<in> set (snd (transition Event_BuildFailed s))"
proof -
  have "no_lost_rebuild (machine_run events (dev_state_new, False))"
    by (rule machine_run_keeps_rebuild) (simp add: no_lost_rebuild_def)
  with assms have "ds_build_running s" "ds_pending s = Rebuild" by (auto simp: no_lost_rebuild_def)
  with pending_rebuild_begins [OF assms(2)] show ?thesis by blast
qed

theorem rebuild_never_lost_witness:
  "\<exists>s. machine_run [Event_Start, Event_Changed Rebuild] (dev_state_new, False) = (s, True) \<and>
    Action_Build \<in> set (snd (transition Event_BuildFailed s))"
proof -
  let ?s = "\<lparr>ds_last_successful = None, ds_application_running = False,
     ds_build_running = True, ds_pending = Rebuild, ds_shutting_down = False\<rparr>"
  have run: "machine_run [Event_Start, Event_Changed Rebuild] (dev_state_new, False) = (?s, True)"
    by code_simp
  have "\<not> ds_shutting_down ?s" by simp
  from rebuild_never_lost [OF run this] run show ?thesis by blast
qed

end
