(* ===== verification/Db_Schema.thy ===== *)
theory Db_Schema
  imports Cli_Project BTree
begin

text \<open>
  The desired database schema (\<open>crates/mads-cli/src/database/schema.rs\<close>): tables, columns and
  PostgreSQL types, and how they are read from Diesel \<open>table!\<close> declarations.

  Parsing Rust source is the work of other crates. The records and datatypes below hold what the
  code reads of a syntax tree: the attributes, macro paths and modules of items, the declarations
  of tables, and the paths of types. An identifier is its text without the raw prefix. A macro
  item holds its decl, or \<open>None\<close> where the macro does not parse as a table.
\<close>

section \<open>Schemas\<close>

datatype qualified_table_name = QualifiedTableName (qt_schema: string) (qt_table: string)

definition qualified_key :: "qualified_table_name \<Rightarrow> string \<times> string" where
  "qualified_key n = (qt_schema n, qt_table n)"

lemma qualified_key_inject [simp]: "qualified_key a = qualified_key b \<longleftrightarrow> a = b"
  by (cases a; cases b) (auto simp: qualified_key_def)

instantiation qualified_table_name :: linorder
begin

definition less_eq_qualified_table_name :: "qualified_table_name \<Rightarrow> qualified_table_name \<Rightarrow> bool" where
  "less_eq_qualified_table_name a b \<longleftrightarrow> qualified_key a \<le> qualified_key b"

definition less_qualified_table_name :: "qualified_table_name \<Rightarrow> qualified_table_name \<Rightarrow> bool" where
  "less_qualified_table_name a b \<longleftrightarrow> qualified_key a < qualified_key b"

instance
  by standard (auto simp: less_eq_qualified_table_name_def less_qualified_table_name_def
    less_le_not_le dest: antisym)

end

datatype pg_type =
  PgBool | PgSmallInt | PgInteger | PgBigInt | PgReal | PgDoublePrecision | PgNumeric | PgText
| PgVarChar "u32 option" | PgChar "u32 option" | PgBytea | PgDate | PgTime | PgTimestamp
| PgTimestampWithTimeZone | PgJson | PgJsonb | PgUuid | PgInet | PgCidr | PgMacAddr
| PgArray pg_type

record column_schema =
  col_name :: string
  col_sql_type :: pg_type
  col_nullable :: bool
  col_ordinal :: nat

record table_schema =
  tbl_name :: qualified_table_name
  tbl_columns :: "column_schema list"
  tbl_primary_key :: "string list"

type_synonym tables = "(qualified_table_name, table_schema) btree_map"

text \<open>A table as the rest of the program relies on it: one column per name, keys among them.\<close>

definition table_ok :: "table_schema \<Rightarrow> bool" where
  "table_ok t \<longleftrightarrow> distinct (map col_name (tbl_columns t)) \<and>
     set (tbl_primary_key t) \<subseteq> col_name ` set (tbl_columns t)"

definition tables_ok :: "tables \<Rightarrow> bool" where
  "tables_ok m \<longleftrightarrow> bmap_ok m \<and> (\<forall>(n, t) \<in> set m. tbl_name t = n \<and> table_ok t)"

section \<open>The syntax tree\<close>

datatype type_path = TypePath (tp_qself: bool) (tp_leading_colon: bool) (tp_segments: "path_segment list")
  and path_segment = PathSegment (sg_ident: string) (sg_arguments: path_arguments)
  and path_arguments = NoArguments | AngleBracketed "generic_argument list" | Parenthesized
  and generic_argument = TypePathArgument type_path | OtherArgument

text \<open>An attribute by its path, when that is a single identifier.\<close>

type_synonym attribute = "string option"

record column_def =
  cd_meta :: "attribute list"
  cd_column_name :: string
  cd_sql_name :: string
  cd_tpe :: type_path
  cd_max_length :: "nat option"

record table_decl =
  td_meta :: "attribute list"
  td_use_statements :: "attribute list list"
  td_schema :: "string option"
  td_sql_name :: string
  td_primary_keys :: "string list option"
  td_column_defs :: "column_def list"

text \<open>An item with its attributes: a macro with the last segment of its path, an inline module, or another.\<close>

datatype item =
  MacroItem "attribute list" "string option" "table_decl option"
| InlineModule "attribute list" "item list"
| OtherItem "attribute list"

record source_file =
  sf_attrs :: "attribute list"
  sf_items :: "item list"

section \<open>Errors\<close>

definition "MADS210 = ''MADS210''"

definition schema_error :: "string \<Rightarrow> string option \<Rightarrow> cli_error" where
  "schema_error message subject =
     (let e = cli_error_new MADS210 ''Diesel schema source could not be loaded'' message in
      case subject of Some s \<Rightarrow> cli_with_subject s e | None \<Rightarrow> e)"

lemma ce_code_schema_error [simp]: "ce_code (schema_error m s) = MADS210"
  by (simp add: schema_error_def Let_def split: option.splits)

definition unknown_type :: "string \<Rightarrow> cli_error" where
  "unknown_type source =
     schema_error ''a column uses an unsupported PostgreSQL SQL type'' (Some source)"

section \<open>Types of columns\<close>

definition type_name :: "type_path \<Rightarrow> string option" where
  "type_name t = (case rev (tp_segments t) of [] \<Rightarrow> None | s # _ \<Rightarrow> Some (sg_ident s))"

definition nested_type :: "type_path \<Rightarrow> string \<Rightarrow> cli_error + type_path" where
  "nested_type t source =
     (case rev (tp_segments t) of
        [] \<Rightarrow> Inl (unknown_type source)
      | segment # _ \<Rightarrow>
          (case sg_arguments segment of
             AngleBracketed [TypePathArgument nested] \<Rightarrow> Inr nested
           | _ \<Rightarrow> Inl (unknown_type source)))"

lemma nested_type_size: "nested_type t source = Inr n \<Longrightarrow> size n < size t"
proof (cases t)
  case (TypePath qself leading segments)
  assume "nested_type t source = Inr n"
  then obtain segment rest where seg: "rev segments = segment # rest"
    "sg_arguments segment = AngleBracketed [TypePathArgument n]"
    by (auto simp: nested_type_def TypePath split: list.splits path_arguments.splits generic_argument.splits)
  from seg(1) have "segment \<in> set segments" by (metis list.set_intros(1) set_rev)
  then have "size segment < size t"
    using size_list_estimation' [of segment segments "size segment" size] TypePath by simp
  moreover have "size n < size segment" using seg(2) by (cases segment) simp
  ultimately show ?thesis by simp
qed

definition sql_type_of_name :: "string \<Rightarrow> pg_type option" where
  "sql_type_of_name name = map_of
     [(''Bool'', PgBool), (''Int2'', PgSmallInt), (''SmallInt'', PgSmallInt),
      (''Int4'', PgInteger), (''Integer'', PgInteger), (''Int8'', PgBigInt), (''BigInt'', PgBigInt),
      (''Float4'', PgReal), (''Float'', PgReal), (''Real'', PgReal),
      (''Double'', PgDoublePrecision), (''DoublePrecision'', PgDoublePrecision),
      (''Float8'', PgDoublePrecision), (''Numeric'', PgNumeric), (''Text'', PgText),
      (''VarChar'', PgVarChar None), (''Varchar'', PgVarChar None), (''Char'', PgChar None),
      (''Bytea'', PgBytea), (''Date'', PgDate), (''Time'', PgTime), (''Timestamp'', PgTimestamp),
      (''TimestampWithTimeZone'', PgTimestampWithTimeZone), (''Timestamptz'', PgTimestampWithTimeZone),
      (''Json'', PgJson), (''Jsonb'', PgJsonb), (''Uuid'', PgUuid), (''Inet'', PgInet),
      (''Cidr'', PgCidr), (''MacAddr'', PgMacAddr)] name"

text \<open>The loop that strips \<open>Nullable\<close>: the remaining type and whether one was stripped.\<close>

function strip_nullable :: "type_path \<Rightarrow> string \<Rightarrow> bool \<Rightarrow> cli_error + type_path \<times> bool" where
  "strip_nullable current source nullable =
     (if type_name current = Some ''Nullable''
      then (case nested_type current source of
              Inl e \<Rightarrow> Inl e
            | Inr nested \<Rightarrow> strip_nullable nested source True)
      else Inr (current, nullable))"
  by pat_completeness auto
termination
  by (relation "measure (\<lambda>(t, _, _). size t)") (auto dest: nested_type_size)

declare strip_nullable.simps [simp del]

lemma strip_nullable_size: "strip_nullable t source b = Inr (n, b') \<Longrightarrow> size n \<le> size t"
proof (induction t source b rule: strip_nullable.induct)
  case (1 current source nullable)
  show ?case
  proof (cases "type_name current = Some ''Nullable''")
    case True
    with 1(2) obtain nested where nested: "nested_type current source = Inr nested"
      "strip_nullable nested source True = Inr (n, b')"
      by (subst (asm) strip_nullable.simps) (auto split: sum.splits)
    with 1(1) [OF True nested(1)] nested_type_size [OF nested(1)] show ?thesis by simp
  next
    case False
    with 1(2) show ?thesis by (subst (asm) strip_nullable.simps) simp
  qed
qed

function (sequential)
  parse_sql_type :: "type_path \<Rightarrow> string \<Rightarrow> cli_error + pg_type \<times> bool"
  and parse_non_nullable_type :: "type_path \<Rightarrow> string \<Rightarrow> cli_error + pg_type"
where
  "parse_sql_type t source =
     (if tp_qself t \<or> tp_leading_colon t \<or> length (tp_segments t) \<noteq> 1 then Inl (unknown_type source)
      else case strip_nullable t source False of
        Inl e \<Rightarrow> Inl e
      | Inr (current, nullable) \<Rightarrow>
          (case parse_non_nullable_type current source of
             Inl e \<Rightarrow> Inl e
           | Inr sql_type \<Rightarrow> Inr (sql_type, nullable)))"
| "parse_non_nullable_type t source =
     (case type_name t of
        None \<Rightarrow> Inl (unknown_type source)
      | Some name \<Rightarrow>
          if name = ''Array'' then
            (case nested_type t source of
               Inl e \<Rightarrow> Inl e
             | Inr nested \<Rightarrow>
                 (case parse_sql_type nested source of
                    Inl e \<Rightarrow> Inl e
                  | Inr (sql_type, nullable) \<Rightarrow>
                      if nullable then Inl (schema_error
                        ''`Nullable` may wrap only the complete SQL type, not an array element''
                        (Some source))
                      else Inr (PgArray sql_type)))
          else
            (case rev (tp_segments t) of
               PathSegment _ NoArguments # _ \<Rightarrow> ok_or (unknown_type source) (sql_type_of_name name)
             | _ \<Rightarrow> Inl (unknown_type source)))"
  by pat_completeness auto
termination
  by (relation "measures [\<lambda>x. case x of Inl (t, _) \<Rightarrow> size t | Inr (t, _) \<Rightarrow> size t,
        \<lambda>x. case x of Inl _ \<Rightarrow> 1 | Inr _ \<Rightarrow> 0]")
    (auto dest: nested_type_size strip_nullable_size simp: le_less)

declare parse_sql_type.simps [simp del] parse_non_nullable_type.simps [simp del]

section \<open>Declarations of tables\<close>

definition reject_conditional_attributes :: "attribute list \<Rightarrow> string \<Rightarrow> cli_error + unit" where
  "reject_conditional_attributes attributes source =
     (if list_ex (\<lambda>a. a = Some ''cfg'' \<or> a = Some ''cfg_attr'') attributes
      then Inl (schema_error ''`cfg` and `cfg_attr` are unsupported in schema sources'' (Some source))
      else Inr ())"

definition reject_inert_attributes :: "attribute list \<Rightarrow> string \<Rightarrow> cli_error + unit" where
  "reject_inert_attributes attributes source =
     (if list_all (\<lambda>a. a \<in> Some ` {''doc'', ''allow'', ''warn'', ''deny'', ''forbid'', ''expect''}) attributes
      then Inr ()
      else Inl (schema_error ''a `table!` declaration contains an unsupported attribute'' (Some source)))"

text \<open>A length that does not fit 32 bits is an error.\<close>

definition apply_max_length :: "nat option \<Rightarrow> pg_type \<Rightarrow> string \<Rightarrow> cli_error + pg_type" where
  "apply_max_length max_length sql_type source =
     (case max_length of
        None \<Rightarrow> Inr sql_type
      | Some n \<Rightarrow>
          if n \<ge> 2 ^ 32 then Inl (schema_error
            ''`max_length` must be a valid unsigned 32-bit integer'' (Some source))
          else case sql_type of
            PgVarChar _ \<Rightarrow> Inr (PgVarChar (Some (of_nat n)))
          | PgChar _ \<Rightarrow> Inr (PgChar (Some (of_nat n)))
          | _ \<Rightarrow> Inl (schema_error
              ''`max_length` is supported only for `VarChar` and `Char` columns'' (Some source)))"

definition parse_column :: "string \<Rightarrow> nat \<times> column_def \<Rightarrow> cli_error + column_schema" where
  "parse_column source = (\<lambda>(ordinal, column).
     and_then (reject_inert_attributes (cd_meta column) source) (\<lambda>_.
     and_then (parse_sql_type (cd_tpe column) source) (\<lambda>(sql_type, nullable).
     and_then (apply_max_length (cd_max_length column) sql_type source) (\<lambda>sql_type.
     Inr \<lparr>col_name = cd_sql_name column, col_sql_type = sql_type, col_nullable = nullable,
          col_ordinal = ordinal\<rparr>))))"

definition primary_key :: "table_decl \<Rightarrow> column_schema list \<Rightarrow> string \<Rightarrow> cli_error + string list" where
  "primary_key decl columns source =
     (let key_names = (case td_primary_keys decl of Some keys \<Rightarrow> keys | None \<Rightarrow> [''id'']) in
      try_map (\<lambda>key.
        ok_or (schema_error ''a primary-key column is not declared by its `table!` declaration'' (Some source))
          (Option.bind (position (\<lambda>column. cd_column_name column = key) (td_column_defs decl))
            (\<lambda>index. if index < length columns then Some (col_name (columns ! index)) else None)))
        key_names)"

type_synonym loaded = "tables \<times> (qualified_table_name, string) btree_map"

definition parse_table :: "table_decl \<Rightarrow> string \<Rightarrow> cli_error + table_schema" where
  "parse_table decl source =
     and_then (reject_inert_attributes (td_meta decl) source) (\<lambda>_.
     and_then (try_fold (\<lambda>attrs _. reject_conditional_attributes attrs source)
         (td_use_statements decl) ()) (\<lambda>_.
     and_then (try_map (parse_column source) (List.enumerate 0 (td_column_defs decl))) (\<lambda>columns.
     and_then (primary_key decl columns source) (\<lambda>key.
     Inr \<lparr>tbl_name = QualifiedTableName
            (case td_schema decl of Some s \<Rightarrow> s | None \<Rightarrow> ''public'') (td_sql_name decl),
          tbl_columns = columns, tbl_primary_key = key\<rparr>))))"

definition add_table :: "table_decl option \<Rightarrow> string \<Rightarrow> loaded \<Rightarrow> cli_error + loaded" where
  "add_table decl source = (\<lambda>(tables, table_sources).
     and_then (ok_or (schema_error
         ''a `table!` declaration has unsupported or malformed syntax'' (Some source)) decl) (\<lambda>decl.
     and_then (parse_table decl source) (\<lambda>table.
     case bmap_get (tbl_name table) table_sources of
       Some previous_source \<Rightarrow> Inl (schema_error
         ''a qualified table is declared by more than one schema source''
         (Some (previous_source @ '' and '' @ source)))
     | None \<Rightarrow> Inr (bmap_insert (tbl_name table) table tables,
                   bmap_insert (tbl_name table) source table_sources))))"

fun item_attrs :: "item \<Rightarrow> attribute list" where
  "item_attrs (MacroItem attrs _ _) = attrs"
| "item_attrs (InlineModule attrs _) = attrs"
| "item_attrs (OtherItem attrs) = attrs"

fun visit_items :: "item list \<Rightarrow> string \<Rightarrow> loaded \<Rightarrow> cli_error + loaded" where
  "visit_items [] source s = Inr s"
| "visit_items (MacroItem attrs name decl # items) source s =
     and_then (reject_conditional_attributes attrs source) (\<lambda>_.
     and_then (if name = Some ''table'' then add_table decl source s else Inr s)
       (visit_items items source))"
| "visit_items (InlineModule attrs inline_items # items) source s =
     and_then (reject_conditional_attributes attrs source) (\<lambda>_.
     and_then (visit_items inline_items source s) (visit_items items source))"
| "visit_items (OtherItem attrs # items) source s =
     and_then (reject_conditional_attributes attrs source) (\<lambda>_. visit_items items source s)"

definition visit_file :: "source_file \<Rightarrow> string \<Rightarrow> loaded \<Rightarrow> cli_error + loaded" where
  "visit_file file source s =
     and_then (reject_conditional_attributes (sf_attrs file) source) (\<lambda>_.
     visit_items (sf_items file) source s)"

text \<open>The sources of a package with their contents, read and parsed: \<open>None\<close> for malformed Rust.\<close>

definition load_sources :: "(string \<times> source_file option) list \<Rightarrow> cli_error + tables" where
  "load_sources sources =
     (if sources = [] then Inl (schema_error
        ''no regular `src/schema.rs` or `src/schema/**/*.rs` source was found'' None)
      else and_then (try_fold (\<lambda>(source, file) s.
          and_then (ok_or (schema_error ''a schema source contains malformed Rust'' (Some source)) file)
            (\<lambda>file. visit_file file source s)) sources ([], []))
        (\<lambda>(tables, _). Inr tables))"

definition desired_namespaces :: "tables \<Rightarrow> string btree_set" where
  "desired_namespaces m = bset_of_list (map (\<lambda>(n, _). qt_schema n) m)"

section \<open>Reading back types\<close>

text \<open>A Diesel spelling of a PostgreSQL type; lengths are not part of it.\<close>

definition simple_path :: "string \<Rightarrow> type_path" where
  "simple_path name = TypePath False False [PathSegment name NoArguments]"

definition wrapped_path :: "string \<Rightarrow> type_path \<Rightarrow> type_path" where
  "wrapped_path name t =
     TypePath False False [PathSegment name (AngleBracketed [TypePathArgument t])]"

fun diesel_name :: "pg_type \<Rightarrow> string" where
  "diesel_name PgBool = ''Bool''" | "diesel_name PgSmallInt = ''Int2''"
| "diesel_name PgInteger = ''Int4''" | "diesel_name PgBigInt = ''Int8''"
| "diesel_name PgReal = ''Float4''" | "diesel_name PgDoublePrecision = ''Float8''"
| "diesel_name PgNumeric = ''Numeric''" | "diesel_name PgText = ''Text''"
| "diesel_name (PgVarChar _) = ''Varchar''" | "diesel_name (PgChar _) = ''Char''"
| "diesel_name PgBytea = ''Bytea''" | "diesel_name PgDate = ''Date''"
| "diesel_name PgTime = ''Time''" | "diesel_name PgTimestamp = ''Timestamp''"
| "diesel_name PgTimestampWithTimeZone = ''Timestamptz''" | "diesel_name PgJson = ''Json''"
| "diesel_name PgJsonb = ''Jsonb''" | "diesel_name PgUuid = ''Uuid''"
| "diesel_name PgInet = ''Inet''" | "diesel_name PgCidr = ''Cidr''"
| "diesel_name PgMacAddr = ''MacAddr''" | "diesel_name (PgArray _) = ''Array''"

fun diesel_type :: "pg_type \<Rightarrow> type_path" where
  "diesel_type (PgArray t) = wrapped_path ''Array'' (diesel_type t)"
| "diesel_type t = simple_path (diesel_name t)"

fun without_lengths :: "pg_type \<Rightarrow> pg_type" where
  "without_lengths (PgVarChar _) = PgVarChar None"
| "without_lengths (PgChar _) = PgChar None"
| "without_lengths (PgArray t) = PgArray (without_lengths t)"
| "without_lengths t = t"

definition diesel_column_type :: "pg_type \<Rightarrow> bool \<Rightarrow> type_path" where
  "diesel_column_type t nullable =
     (if nullable then wrapped_path ''Nullable'' (diesel_type t) else diesel_type t)"

lemma path_simps [simp]:
  "type_name (simple_path n) = Some n" "type_name (wrapped_path n t) = Some n"
  "nested_type (wrapped_path n t) source = Inr t"
  "tp_qself (simple_path n) = False" "tp_leading_colon (simple_path n) = False"
  "tp_qself (wrapped_path n t) = False" "tp_leading_colon (wrapped_path n t) = False"
  "tp_segments (simple_path n) = [PathSegment n NoArguments]"
  "length (tp_segments (wrapped_path n t)) = 1"
  by (simp_all add: simple_path_def wrapped_path_def type_name_def nested_type_def)

lemma diesel_type_shape:
  "tp_qself (diesel_type t) = False" "tp_leading_colon (diesel_type t) = False"
  "length (tp_segments (diesel_type t)) = 1" "type_name (diesel_type t) = Some (diesel_name t)"
  by (cases t; simp)+

lemma diesel_name_not_nullable: "diesel_name t \<noteq> ''Nullable''"
  by (cases t) auto

lemma parse_simple:
  "sql_type_of_name name = Some p \<Longrightarrow> name \<noteq> ''Array'' \<Longrightarrow>
     parse_non_nullable_type (simple_path name) source = Inr p"
  by (subst parse_non_nullable_type.simps) simp

lemma parse_diesel_type: "parse_non_nullable_type (diesel_type t) source = Inr (without_lengths t)"
proof (induction t)
  case (PgArray t)
  have "strip_nullable (diesel_type t) source False = Inr (diesel_type t, False)"
    by (subst strip_nullable.simps) (simp add: diesel_type_shape diesel_name_not_nullable)
  then have "parse_sql_type (diesel_type t) source = Inr (without_lengths t, False)"
    by (subst parse_sql_type.simps) (simp add: diesel_type_shape PgArray)
  then show ?case by (subst parse_non_nullable_type.simps) simp
qed (simp_all add: parse_simple sql_type_of_name_def)

lemma parse_diesel_column_type:
  "parse_sql_type (diesel_column_type t nullable) source = Inr (without_lengths t, nullable)"
proof -
  have inner: "strip_nullable (diesel_type t) source b = Inr (diesel_type t, b)" for b
    by (subst strip_nullable.simps) (simp add: diesel_type_shape diesel_name_not_nullable)
  have "strip_nullable (diesel_column_type t nullable) source False = Inr (diesel_type t, nullable)"
    by (cases nullable) (simp_all add: diesel_column_type_def inner strip_nullable.simps [of "wrapped_path _ _"])
  moreover have "tp_qself (diesel_column_type t nullable) = False"
    "tp_leading_colon (diesel_column_type t nullable) = False"
    "length (tp_segments (diesel_column_type t nullable)) = 1"
    by (simp_all add: diesel_column_type_def diesel_type_shape)
  ultimately show ?thesis by (subst parse_sql_type.simps) (simp add: parse_diesel_type)
qed

section \<open>What loading yields\<close>

text \<open>
  A loaded table: its columns are numbered in their order and its key is among them; the column
  names are those of the declaration.
\<close>

definition table_loaded :: "table_schema \<Rightarrow> bool" where
  "table_loaded t \<longleftrightarrow> map col_ordinal (tbl_columns t) = [0 ..< length (tbl_columns t)] \<and>
     set (tbl_primary_key t) \<subseteq> col_name ` set (tbl_columns t)"

definition tables_loaded :: "loaded \<Rightarrow> bool" where
  "tables_loaded = (\<lambda>(tables, sources). bmap_ok tables \<and> bmap_ok sources \<and>
     map fst tables = map fst sources \<and> (\<forall>(n, t) \<in> set tables. tbl_name t = n \<and> table_loaded t))"

lemma try_map_length: "try_map f xs = Inr ys \<Longrightarrow> length ys = length xs"
  by (drule try_map_InrD) (simp add: list_all2_lengthD)

lemma parse_column_simps:
  "parse_column source (k, d) = Inr c \<Longrightarrow> col_ordinal c = k \<and> col_name c = cd_sql_name d"
  by (auto simp: parse_column_def and_then_eq_Inr split: prod.splits)

lemma parsed_columns:
  "try_map (parse_column source) (List.enumerate k defs) = Inr columns \<Longrightarrow>
     map col_ordinal columns = [k ..< k + length columns] \<and>
     map col_name columns = map cd_sql_name defs"
proof (induction defs arbitrary: k columns)
  case (Cons d defs)
  then obtain c cs where "parse_column source (k, d) = Inr c" "columns = c # cs"
    "try_map (parse_column source) (List.enumerate (Suc k) defs) = Inr cs"
    by (auto simp: and_then_eq_Inr)
  with Cons.IH [of "Suc k" cs] parse_column_simps [of source k d c] show ?case
    by (simp add: upt_conv_Cons del: upt_Suc)
qed simp

lemma primary_key_member:
  assumes "primary_key decl columns source = Inr keys"
  shows "set keys \<subseteq> col_name ` set columns"
proof -
  from assms obtain names where "list_all2 (\<lambda>key k.
      ok_or (schema_error ''a primary-key column is not declared by its `table!` declaration'' (Some source))
          (Option.bind (position (\<lambda>column. cd_column_name column = key) (td_column_defs decl))
            (\<lambda>index. if index < length columns then Some (col_name (columns ! index)) else None)) = Inr k)
      names keys"
    by (auto simp: primary_key_def Let_def dest!: try_map_InrD)
  then show ?thesis
  proof (induction rule: list_all2_induct)
    case (Cons key names k keys)
    then show ?case
      by (auto split: if_splits simp: Option.bind_eq_Some_conv elim!: ok_or.elims)
  qed simp
qed

lemma parse_table_loaded:
  "parse_table decl source = Inr t \<Longrightarrow> table_loaded t"
  using parsed_columns [of source 0 "td_column_defs decl"] primary_key_member [of decl _ source]
  by (fastforce simp: parse_table_def and_then_eq_Inr table_loaded_def)

lemma map_fst_bmap_insert:
  "map fst m = map fst n \<Longrightarrow> map fst (bmap_insert k v m) = map fst (bmap_insert k w n)"
  by (induction m arbitrary: n) auto

lemma add_table_loaded:
  assumes "tables_loaded s" "add_table decl source s = Inr s'"
  shows "tables_loaded s'"
proof -
  obtain tables sources where s: "s = (tables, sources)" by fastforce
  with assms(2) obtain d t where t: "parse_table d source = Inr t"
    and s': "s' = (bmap_insert (tbl_name t) t tables, bmap_insert (tbl_name t) source sources)"
    by (cases decl) (auto simp: add_table_def and_then_eq_Inr split: option.splits)
  have mem: "e \<in> set (bmap_insert k v m) \<Longrightarrow> e = (k, v) \<or> e \<in> set m" for e k v m
    by (induction m) (auto split: if_splits)
  from assms(1) s show ?thesis
    unfolding s' tables_loaded_def
    by (auto simp: bmap_ok_insert parse_table_loaded [OF t] intro: map_fst_bmap_insert dest!: mem)
qed

lemma visit_items_loaded:
  "visit_items items source s = Inr s' \<Longrightarrow> tables_loaded s \<Longrightarrow> tables_loaded s'"
proof (induction items source s arbitrary: s' rule: visit_items.induct)
  case (2 attrs name decl items source s)
  then obtain t where t: "(if name = Some ''table'' then add_table decl source s else Inr s) = Inr t"
    "visit_items items source t = Inr s'" "reject_conditional_attributes attrs source = Inr ()"
    by (auto simp: and_then_eq_Inr)
  then have "tables_loaded t" using 2(3) add_table_loaded by (auto split: if_splits)
  with 2(1) [OF t(3) t(1,2)] show ?case .
next
  case (3 attrs inline_items items source s)
  then obtain t where t: "visit_items inline_items source s = Inr t"
    "visit_items items source t = Inr s'" "reject_conditional_attributes attrs source = Inr ()"
    by (auto simp: and_then_eq_Inr)
  with 3 show ?case by blast
qed (auto simp: and_then_eq_Inr)

lemma load_sources_loaded:
  assumes "load_sources sources = Inr tables"
  shows "\<exists>origins. tables_loaded (tables, origins)"
proof -
  let ?step = "\<lambda>(source, file) s.
      and_then (ok_or (schema_error ''a schema source contains malformed Rust'' (Some source)) file)
        (\<lambda>file. visit_file file source s)"
  have step: "tables_loaded s'" if "?step source s = Inr s'" "tables_loaded s" for source s s'
    using that by (auto simp: visit_file_def and_then_eq_Inr intro: visit_items_loaded split: prod.splits)
  have fold: "tables_loaded s \<Longrightarrow> try_fold ?step xs s = Inr s' \<Longrightarrow> tables_loaded s'" for s s' xs
  proof (induction xs arbitrary: s)
    case (Cons x xs)
    then obtain t where "?step x s = Inr t" "try_fold ?step xs t = Inr s'"
      unfolding try_fold.simps and_then_eq_Inr by blast
    with Cons step show ?case by blast
  qed simp
  have "tables_loaded ([], [])" by (simp add: tables_loaded_def bmap_ok_def)
  with assms show ?thesis
    by (auto simp: load_sources_def and_then_eq_Inr split: if_splits dest: fold)
qed

text \<open>The \<open>table!\<close> declarations of the sources, in the order they are visited.\<close>

fun item_tables :: "item \<Rightarrow> table_decl option list" where
  "item_tables (MacroItem attrs name decl) = (if name = Some ''table'' then [decl] else [])"
| "item_tables (InlineModule attrs items) = concat (map item_tables items)"
| "item_tables (OtherItem attrs) = []"

definition items_tables :: "string \<Rightarrow> item list \<Rightarrow> (string \<times> table_decl option) list" where
  "items_tables source items = map (Pair source) (concat (map item_tables items))"

lemma items_tables_simps [simp]:
  "items_tables source [] = []"
  "items_tables source (MacroItem attrs name decl # items) =
     (if name = Some ''table'' then [(source, decl)] else []) @ items_tables source items"
  "items_tables source (InlineModule attrs inline_items # items) =
     items_tables source inline_items @ items_tables source items"
  "items_tables source (OtherItem attrs # items) = items_tables source items"
  by (simp_all add: items_tables_def)

fun source_tables :: "string \<times> source_file option \<Rightarrow> (string \<times> table_decl option) list" where
  "source_tables (source, None) = []"
| "source_tables (source, Some file) = items_tables source (sf_items file)"

definition declares :: "string \<times> table_decl option \<Rightarrow> table_schema \<Rightarrow> bool" where
  "declares = (\<lambda>(source, decl) t. \<exists>d. decl = Some d \<and> parse_table d source = Inr t)"

definition entries_of :: "table_schema list \<Rightarrow> (qualified_table_name \<times> table_schema) list" where
  "entries_of ts = map (\<lambda>t. (tbl_name t, t)) ts"

text \<open>The tables loaded so far are those of the declarations visited so far, each name once.\<close>

definition visited_tables :: "(string \<times> table_decl option) list \<Rightarrow> loaded \<Rightarrow> bool" where
  "visited_tables ds = (\<lambda>(tables, sources). \<exists>ts. list_all2 declares ds ts \<and>
     distinct (map tbl_name ts) \<and> tables = bmap_of_list (entries_of ts) \<and>
     bmap_ok sources \<and> fst ` set sources = tbl_name ` set ts)"

lemma add_table_visited:
  assumes "visited_tables ds s" "add_table decl source s = Inr s'"
  shows "visited_tables (ds @ [(source, decl)]) s'"
proof -
  obtain tables sources where s: "s = (tables, sources)" by fastforce
  with assms(2) obtain d t where d: "decl = Some d" "parse_table d source = Inr t"
    and s': "s' = (bmap_insert (tbl_name t) t tables, bmap_insert (tbl_name t) source sources)"
    and new: "bmap_get (tbl_name t) sources = None"
    by (cases "decl") (auto simp: add_table_def and_then_eq_Inr split: option.splits)
  from assms(1) s obtain ts where ts: "list_all2 declares ds ts" "distinct (map tbl_name ts)"
    "tables = bmap_of_list (entries_of ts)" "bmap_ok sources" "fst ` set sources = tbl_name ` set ts"
    by (auto simp: visited_tables_def)
  have "tbl_name t \<notin> tbl_name ` set ts"
    using new unfolding ts(5) [symmetric] by (simp add: bmap_get_def map_of_eq_None_iff)
  moreover have "list_all2 declares (ds @ [(source, decl)]) (ts @ [t])"
    using ts(1) d by (simp add: list_all2_appendI declares_def)
  ultimately show ?thesis
    using ts unfolding s' visited_tables_def
    by (auto simp: entries_of_def bmap_of_list_def bmap_ok_insert fst_set_bmap_insert
        intro!: exI [of _ "ts @ [t]"])
qed

lemma visit_items_visited:
  "visit_items items source s = Inr s' \<Longrightarrow> visited_tables ds s \<Longrightarrow>
     visited_tables (ds @ items_tables source items) s'"
proof (induction items source s arbitrary: s' ds rule: visit_items.induct)
  case (2 attrs name decl items source s)
  then obtain t where t: "(if name = Some ''table'' then add_table decl source s else Inr s) = Inr t"
    "visit_items items source t = Inr s'" "reject_conditional_attributes attrs source = Inr ()"
    by (auto simp: and_then_eq_Inr)
  let ?ds = "ds @ (if name = Some ''table'' then [(source, decl)] else [])"
  have "visited_tables ?ds t" using t(1) 2(3) add_table_visited by (auto split: if_splits)
  from 2(1) [OF t(3) t(1,2) this] show ?case by (simp split: if_splits)
next
  case (3 attrs inline_items items source s)
  then obtain t where t: "visit_items inline_items source s = Inr t"
    "visit_items items source t = Inr s'" "reject_conditional_attributes attrs source = Inr ()"
    by (auto simp: and_then_eq_Inr)
  from 3(2) [OF t(3,1,2) 3(1) [OF t(3,1) 3(4)]] show ?case by simp
qed (auto simp: and_then_eq_Inr)

lemma load_sources_exact:
  assumes "load_sources sources = Inr tables"
  shows "\<exists>ts. list_all2 declares (concat (map source_tables sources)) ts \<and>
    distinct (map tbl_name ts) \<and> tables = bmap_of_list (entries_of ts)"
proof -
  let ?step = "\<lambda>(source, file) s.
      and_then (ok_or (schema_error ''a schema source contains malformed Rust'' (Some source)) file)
        (\<lambda>file. visit_file file source s)"
  have step: "visited_tables (ds @ source_tables x) s'" if "?step x s = Inr s'" "visited_tables ds s" for x s s' ds
    using that by (cases x; cases "snd x") (auto simp: visit_file_def and_then_eq_Inr intro: visit_items_visited)
  have fold: "visited_tables ds s \<Longrightarrow> try_fold ?step xs s = Inr s' \<Longrightarrow>
      visited_tables (ds @ concat (map source_tables xs)) s'" for s s' xs ds
  proof (induction xs arbitrary: s ds)
    case (Cons x xs)
    then obtain t where t: "?step x s = Inr t" "try_fold ?step xs t = Inr s'"
      unfolding try_fold.simps and_then_eq_Inr by blast
    from Cons.IH [OF step [OF t(1) Cons.prems(1)] t(2)] show ?case by simp
  qed simp
  have "visited_tables [] ([], [])"
    by (simp add: visited_tables_def bmap_ok_def entries_of_def bmap_of_list_def)
  with assms fold [of "[]" "([], [])" sources] show ?thesis
    by (fastforce simp: load_sources_def and_then_eq_Inr visited_tables_def split: if_splits)
qed

text \<open>The path inside \<open>Nullable\<close> is not checked as the one outside is: only its last segment is read.\<close>

lemma nullable_path_unchecked:
  "parse_sql_type (wrapped_path ''Nullable'' (TypePath False False
      [PathSegment ''other'' NoArguments, PathSegment ''Text'' NoArguments])) source = Inr (PgText, True)"
  "parse_sql_type (TypePath False False
      [PathSegment ''other'' NoArguments, PathSegment ''Text'' NoArguments]) source = Inl (unknown_type source)"
proof -
  let ?t = "TypePath False False [PathSegment ''other'' NoArguments, PathSegment ''Text'' NoArguments]"
  have name: "type_name ?t = Some ''Text''" by (simp add: type_name_def)
  then have "strip_nullable ?t source b = Inr (?t, b)" for b by (subst strip_nullable.simps) simp
  then have "strip_nullable (wrapped_path ''Nullable'' ?t) source False = Inr (?t, True)"
    by (subst strip_nullable.simps) simp
  moreover have "parse_non_nullable_type ?t source = Inr PgText"
    by (subst parse_non_nullable_type.simps) (simp add: name sql_type_of_name_def)
  ultimately show "parse_sql_type (wrapped_path ''Nullable'' ?t) source = Inr (PgText, True)"
    by (subst parse_sql_type.simps) simp
  show "parse_sql_type ?t source = Inl (unknown_type source)" by (subst parse_sql_type.simps) simp
qed

section \<open>Properties\<close>

text \<open>
  Every column type that can be declared is read as the type it means: reading the Diesel
  spelling of a PostgreSQL type, nullable or not and with arrays of any depth, gives that type.
\<close>

theorem column_types_read_back:
  "parse_sql_type (diesel_column_type t nullable) source = Inr (without_lengths t, nullable)"
  by (rule parse_diesel_column_type)

text \<open>
  C24: When loading succeeds, the desired schema holds exactly the tables that the sources declare,
  every declaration read, no name declared twice, in the order of their names; the columns of a
  table are numbered in the order of their declaration and its key is among them.
\<close>

theorem desired_schema_exact:
  assumes "load_sources sources = Inr tables"
  shows "(\<exists>ts. list_all2 declares (concat (map source_tables sources)) ts \<and>
      distinct (map tbl_name ts) \<and> tables = bmap_of_list (entries_of ts)) \<and>
    bmap_ok tables \<and> (\<forall>(n, t) \<in> set tables. tbl_name t = n \<and> table_loaded t)"
  using load_sources_exact [OF assms] load_sources_loaded [OF assms] by (auto simp: tables_loaded_def)

definition sample_decl :: "string \<Rightarrow> table_decl" where
  "sample_decl name = \<lparr>td_meta = [], td_use_statements = [], td_schema = None, td_sql_name = name,
     td_primary_keys = None, td_column_defs =
       [\<lparr>cd_meta = [], cd_column_name = ''id'', cd_sql_name = ''id'', cd_tpe = simple_path ''Int4'', cd_max_length = None\<rparr>,
        \<lparr>cd_meta = [], cd_column_name = ''name'', cd_sql_name = ''full_name'', cd_tpe = simple_path ''Varchar'', cd_max_length = Some 40\<rparr>]\<rparr>"

theorem desired_schema_exact_witness:
  "\<exists>tables. load_sources [(''src/schema.rs'', Some \<lparr>sf_attrs = [],
       sf_items = [MacroItem [] (Some ''table'') (Some (sample_decl ''users''))]\<rparr>)] = Inr tables \<and> bmap_ok tables"
proof -
  let ?r = "load_sources [(''src/schema.rs'', Some \<lparr>sf_attrs = [],
       sf_items = [MacroItem [] (Some ''table'') (Some (sample_decl ''users''))]\<rparr>)]"
  have parse: "parse_sql_type (simple_path ''Int4'') ''src/schema.rs'' = Inr (PgInteger, False)"
    "parse_sql_type (simple_path ''Varchar'') ''src/schema.rs'' = Inr (PgVarChar None, False)"
    using parse_diesel_column_type [of PgInteger False] parse_diesel_column_type [of "PgVarChar None" False]
    by (simp_all add: diesel_column_type_def)
  have "\<not> isl ?r"
    by (simp add: load_sources_def visit_file_def reject_conditional_attributes_def add_table_def
        parse_table_def reject_inert_attributes_def sample_decl_def parse_column_def parse
        apply_max_length_def primary_key_def bmap_get_def Let_def)
  then obtain tables where r: "?r = Inr tables" by (cases ?r) auto
  from desired_schema_exact [OF r] r show ?thesis by blast
qed

end
