(* ===== verification/Db_Catalog.thy ===== *)
theory Db_Catalog
  imports Db_Schema
begin

text \<open>
  The live database schema (\<open>crates/mads-cli/src/database/catalog.rs\<close>): the rows of the catalog
  queries become tables, evidence of objects that are not supported, and foreign keys.

  The queries themselves run in the database; their rows are the input of the model.
\<close>

section \<open>Rows and the snapshot\<close>

definition "MADS211 = ''MADS211''"

datatype unsupported_kind = Kind_Default | Kind_Index | Kind_Check | Kind_Trigger | Kind_ForeignKey

fun unsupported_rank :: "unsupported_kind \<Rightarrow> nat" where
  "unsupported_rank Kind_Default = 0"
| "unsupported_rank Kind_Index = 1"
| "unsupported_rank Kind_Check = 2"
| "unsupported_rank Kind_Trigger = 3"
| "unsupported_rank Kind_ForeignKey = 4"

lemma unsupported_rank_inject [simp]: "unsupported_rank a = unsupported_rank b \<longleftrightarrow> a = b"
  by (cases a; cases b) auto

instantiation unsupported_kind :: linorder
begin

definition less_eq_unsupported_kind :: "unsupported_kind \<Rightarrow> unsupported_kind \<Rightarrow> bool" where
  "less_eq_unsupported_kind a b \<longleftrightarrow> unsupported_rank a \<le> unsupported_rank b"

definition less_unsupported_kind :: "unsupported_kind \<Rightarrow> unsupported_kind \<Rightarrow> bool" where
  "less_unsupported_kind a b \<longleftrightarrow> unsupported_rank a < unsupported_rank b"

instance
  by standard (auto simp: less_eq_unsupported_kind_def less_unsupported_kind_def dest: antisym)

end

record unsupported_object =
  uo_kind :: unsupported_kind
  uo_table :: qualified_table_name
  uo_name :: string
  uo_columns :: "string list"

record foreign_key_dependency =
  fk_name :: string
  fk_child :: qualified_table_name
  fk_parent :: qualified_table_name

record live_schema =
  ls_tables :: tables
  ls_unsupported :: "unsupported_object list"
  ls_foreign_keys :: "foreign_key_dependency list"

record column_row =
  cr_schema :: string
  cr_table :: string
  cr_ordinal :: int
  cr_name :: string
  cr_catalog_type :: string
  cr_nullable :: bool
  cr_primary_key_position :: "int option"
  cr_has_default :: bool

record named_object_row =
  no_schema :: string
  no_table :: string
  no_name :: string
  no_columns :: "string list"

record index_row = named_object_row +
  ix_is_primary :: bool

record foreign_key_row =
  fr_name :: string
  fr_child_schema :: string
  fr_child_table :: string
  fr_parent_schema :: string
  fr_parent_table :: string
  fr_columns :: "string list"

record catalog_rows =
  rows_columns :: "column_row list"
  rows_indexes :: "index_row list"
  rows_checks :: "named_object_row list"
  rows_triggers :: "named_object_row list"
  rows_foreign_keys :: "foreign_key_row list"

section \<open>Types\<close>

text \<open>\<open>str::parse::<u32>\<close>.\<close>

definition parse_u32 :: "string \<Rightarrow> u32 option" where
  "parse_u32 s = map_option of_nat (parse_unsigned 32 s)"

definition type_length :: "string \<Rightarrow> string \<Rightarrow> u32 option option" where
  "type_length catalog_type base =
     (if catalog_type = base then Some None
      else map_option Some
        (Option.bind (strip_prefix base catalog_type) (\<lambda>suffix.
         Option.bind (strip_prefix ''('' suffix) (\<lambda>suffix.
         Option.bind (strip_suffix '')'' suffix) parse_u32))))"

fun split_once :: "char \<Rightarrow> string \<Rightarrow> (string \<times> string) option" where
  "split_once c [] = None"
| "split_once c (x # xs) =
     (if x = c then Some ([], xs) else map_option (\<lambda>(a, b). (x # a, b)) (split_once c xs))"

definition temporal_type :: "string \<Rightarrow> string \<Rightarrow> string \<Rightarrow> bool" where
  "temporal_type catalog_type base qualifier =
     (case strip_prefix base catalog_type of
        None \<Rightarrow> False
      | Some suffix \<Rightarrow>
          if suffix = qualifier then True
          else case Option.bind (strip_prefix ''('' suffix) (split_once CHR '')'') of
            None \<Rightarrow> False
          | Some (precision, suffix) \<Rightarrow>
              precision \<noteq> [] \<and> list_all is_digit precision \<and> suffix = qualifier)"

definition catalog_type_of_name :: "string \<Rightarrow> pg_type option" where
  "catalog_type_of_name name = map_of
     [(''boolean'', PgBool), (''bool'', PgBool), (''smallint'', PgSmallInt), (''int2'', PgSmallInt),
      (''integer'', PgInteger), (''int4'', PgInteger), (''bigint'', PgBigInt), (''int8'', PgBigInt),
      (''real'', PgReal), (''float4'', PgReal), (''double precision'', PgDoublePrecision),
      (''float8'', PgDoublePrecision), (''text'', PgText), (''bytea'', PgBytea), (''date'', PgDate),
      (''json'', PgJson), (''jsonb'', PgJsonb), (''uuid'', PgUuid), (''inet'', PgInet),
      (''cidr'', PgCidr), (''macaddr'', PgMacAddr)] name"

function parse_catalog_type :: "string \<Rightarrow> pg_type option" where
  "parse_catalog_type catalog_type =
     (case strip_suffix ''[]'' catalog_type of
        Some element \<Rightarrow> map_option PgArray (parse_catalog_type element)
      | None \<Rightarrow>
          (case type_length catalog_type ''character varying'' of
             Some len \<Rightarrow> Some (PgVarChar len)
           | None \<Rightarrow>
               (case type_length catalog_type ''character'' of
                  Some len \<Rightarrow> Some (PgChar len)
                | None \<Rightarrow>
                    if catalog_type = ''numeric'' \<or> starts_with ''numeric('' catalog_type
                    then Some PgNumeric
                    else if temporal_type catalog_type ''time'' '' without time zone''
                    then Some PgTime
                    else if temporal_type catalog_type ''timestamp'' '' without time zone''
                    then Some PgTimestamp
                    else if temporal_type catalog_type ''timestamp'' '' with time zone''
                    then Some PgTimestampWithTimeZone
                    else catalog_type_of_name catalog_type)))"
  by pat_completeness auto
termination
  by (relation "measure length") (auto simp: strip_suffix_eq)

declare parse_catalog_type.simps [simp del]

section \<open>The snapshot\<close>

definition live_catalog_error :: "string \<Rightarrow> string option \<Rightarrow> cli_error" where
  "live_catalog_error message subject =
     (let e = cli_error_new MADS211 ''PostgreSQL catalog could not be inspected'' message in
      case subject of Some s \<Rightarrow> cli_with_subject s e | None \<Rightarrow> e)"

lemma ce_code_live_catalog_error [simp]: "ce_code (live_catalog_error m s) = MADS211"
  by (simp add: live_catalog_error_def Let_def split: option.splits)

type_synonym key_positions = "(qualified_table_name, (int \<times> string) list) btree_map"

record snapshot_state =
  sn_tables :: tables
  sn_primary_keys :: key_positions
  sn_unsupported :: "unsupported_object list"

text \<open>\<open>entry(k).or_insert(v)\<close> followed by a change of the value.\<close>

definition bmap_update :: "'k::linorder \<Rightarrow> 'v \<Rightarrow> ('v \<Rightarrow> 'v) \<Rightarrow> ('k, 'v) btree_map \<Rightarrow> ('k, 'v) btree_map" where
  "bmap_update k v f m = bmap_insert k (f (case bmap_get k m of Some x \<Rightarrow> x | None \<Rightarrow> v)) m"

definition add_column_row :: "column_row \<Rightarrow> snapshot_state \<Rightarrow> cli_error + snapshot_state" where
  "add_column_row row s =
     (let table_name = QualifiedTableName (cr_schema row) (cr_table row);
          subject = cr_schema row @ ''.'' @ cr_table row @ ''.'' @ cr_name row in
      and_then (ok_or (live_catalog_error ''a column uses an unsupported PostgreSQL SQL type'' (Some subject))
          (parse_catalog_type (cr_catalog_type row))) (\<lambda>sql_type.
      if cr_ordinal row - 1 < 0
      then Inl (live_catalog_error ''PostgreSQL returned an invalid column ordinal'' (Some subject))
      else Inr
        \<lparr>sn_tables = bmap_update table_name
             \<lparr>tbl_name = table_name, tbl_columns = [], tbl_primary_key = []\<rparr>
             (\<lambda>t. t\<lparr>tbl_columns := tbl_columns t @
               [\<lparr>col_name = cr_name row, col_sql_type = sql_type, col_nullable = cr_nullable row,
                 col_ordinal = nat (cr_ordinal row - 1)\<rparr>]\<rparr>) (sn_tables s),
         sn_primary_keys =
           (case cr_primary_key_position row of
              Some pos \<Rightarrow>
                bmap_update table_name [] (\<lambda>keys. keys @ [(pos, cr_name row)]) (sn_primary_keys s)
            | None \<Rightarrow> sn_primary_keys s),
         sn_unsupported = sn_unsupported s @
           (if cr_has_default row
            then [\<lparr>uo_kind = Kind_Default, uo_table = table_name, uo_name = cr_name row,
                   uo_columns = [cr_name row]\<rparr>]
            else [])\<rparr>))"

text \<open>Columns in the order of their ordinals, keys in the order of their positions.\<close>

definition finish_table :: "key_positions \<Rightarrow> qualified_table_name \<times> table_schema \<Rightarrow> qualified_table_name \<times> table_schema" where
  "finish_table primary_keys = (\<lambda>(name, t).
     (name, t\<lparr>tbl_columns := sort_by (\<lambda>a b. cmp (col_ordinal a) (col_ordinal b)) (tbl_columns t),
       tbl_primary_key :=
         (case bmap_get name primary_keys of
            Some keys \<Rightarrow> map snd (sort_by (\<lambda>a b. cmp (fst a) (fst b)) keys)
          | None \<Rightarrow> tbl_primary_key t)\<rparr>))"

definition named_object :: "unsupported_kind \<Rightarrow> 'a named_object_row_scheme \<Rightarrow> unsupported_object" where
  "named_object kind row = \<lparr>uo_kind = kind,
     uo_table = QualifiedTableName (no_schema row) (no_table row), uo_name = no_name row,
     uo_columns = no_columns row\<rparr>"

definition named_objects :: "'a named_object_row_scheme list \<Rightarrow> string btree_set \<Rightarrow> unsupported_kind \<Rightarrow> unsupported_object list" where
  "named_objects rows namespaces kind =
     map (named_object kind) (filter (\<lambda>row. no_schema row \<in> set namespaces) rows)"

definition foreign_key_object :: "foreign_key_row \<Rightarrow> unsupported_object" where
  "foreign_key_object row = \<lparr>uo_kind = Kind_ForeignKey,
     uo_table = QualifiedTableName (fr_child_schema row) (fr_child_table row),
     uo_name = fr_name row, uo_columns = fr_columns row\<rparr>"

definition foreign_key_of :: "foreign_key_row \<Rightarrow> foreign_key_dependency" where
  "foreign_key_of row = \<lparr>fk_name = fr_name row,
     fk_child = QualifiedTableName (fr_child_schema row) (fr_child_table row),
     fk_parent = QualifiedTableName (fr_parent_schema row) (fr_parent_table row)\<rparr>"

definition unsupported_order :: "unsupported_object \<Rightarrow> unsupported_object \<Rightarrow> ordering" where
  "unsupported_order left right =
     cmp (uo_table left, uo_kind left, uo_name left) (uo_table right, uo_kind right, uo_name right)"

definition foreign_key_order :: "foreign_key_dependency \<Rightarrow> foreign_key_dependency \<Rightarrow> ordering" where
  "foreign_key_order left right =
     cmp (fk_child left, fk_parent left, fk_name left) (fk_child right, fk_parent right, fk_name right)"

definition snapshot_from_rows :: "string btree_set \<Rightarrow> catalog_rows \<Rightarrow> cli_error + live_schema" where
  "snapshot_from_rows namespaces rows =
     and_then (try_fold add_column_row
         (filter (\<lambda>row. cr_schema row \<in> set namespaces) (rows_columns rows))
         \<lparr>sn_tables = [], sn_primary_keys = [], sn_unsupported = []\<rparr>) (\<lambda>s.
       let foreign_rows = filter (\<lambda>row. fr_child_schema row \<in> set namespaces) (rows_foreign_keys rows);
           unsupported = sn_unsupported s
             @ map (named_object Kind_Index)
                 (filter (\<lambda>row. \<not> ix_is_primary row \<and> no_schema row \<in> set namespaces) (rows_indexes rows))
             @ named_objects (rows_checks rows) namespaces Kind_Check
             @ named_objects (rows_triggers rows) namespaces Kind_Trigger
             @ map foreign_key_object foreign_rows in
       Inr \<lparr>ls_tables = map (finish_table (sn_primary_keys s)) (sn_tables s),
            ls_unsupported = sort_by unsupported_order unsupported,
            ls_foreign_keys = sort_by foreign_key_order (map foreign_key_of foreign_rows)\<rparr>)"

section \<open>Reading back types\<close>

text \<open>How \<open>format_type\<close> of PostgreSQL spells the supported types.\<close>

definition spell_length :: "string \<Rightarrow> u32 option \<Rightarrow> string" where
  "spell_length base len =
     (case len of None \<Rightarrow> base | Some n \<Rightarrow> base @ ''('' @ nat_digits (unat n) @ '')'')"

fun format_type :: "pg_type \<Rightarrow> string" where
  "format_type PgBool = ''boolean''" | "format_type PgSmallInt = ''smallint''"
| "format_type PgInteger = ''integer''" | "format_type PgBigInt = ''bigint''"
| "format_type PgReal = ''real''" | "format_type PgDoublePrecision = ''double precision''"
| "format_type PgNumeric = ''numeric''" | "format_type PgText = ''text''"
| "format_type (PgVarChar len) = spell_length ''character varying'' len"
| "format_type (PgChar len) = spell_length ''character'' len"
| "format_type PgBytea = ''bytea''" | "format_type PgDate = ''date''"
| "format_type PgTime = ''time without time zone''"
| "format_type PgTimestamp = ''timestamp without time zone''"
| "format_type PgTimestampWithTimeZone = ''timestamp with time zone''"
| "format_type PgJson = ''json''" | "format_type PgJsonb = ''jsonb''"
| "format_type PgUuid = ''uuid''" | "format_type PgInet = ''inet''"
| "format_type PgCidr = ''cidr''" | "format_type PgMacAddr = ''macaddr''"
| "format_type (PgArray t) = format_type t @ ''[]''"

lemma parse_u32_digits: "parse_u32 (nat_digits (unat n)) = Some n"
proof -
  have "unat n < 2 ^ LENGTH(32)" by (rule unsigned_less)
  then show ?thesis by (simp add: parse_u32_def parse_unsigned_digits)
qed

text \<open>No spelling of a type that is no array ends in the brackets of one.\<close>

lemma spell_length_last: "last (spell_length base len) = (case len of None \<Rightarrow> last base | Some _ \<Rightarrow> CHR '')'')"
  by (simp add: spell_length_def split: option.splits)

lemma no_brackets: "last s \<noteq> CHR '']'' \<Longrightarrow> strip_suffix ''[]'' s = None"
proof (cases "strip_suffix ''[]'' s")
  case (Some t)
  moreover assume "last s \<noteq> CHR '']''"
  ultimately show ?thesis by (auto simp: strip_suffix_eq)
qed

lemma type_length_spelled: "type_length (spell_length base len) base = Some len"
proof (cases len)
  case (Some n)
  have "strip_suffix '')'' (nat_digits (unat n) @ '')'') = Some (nat_digits (unat n))"
    by (simp add: strip_suffix_eq)
  moreover have "strip_prefix base (base @ t) = Some t" for t by (simp add: strip_prefix_eq)
  ultimately show ?thesis using Some by (simp add: type_length_def spell_length_def parse_u32_digits)
qed (simp add: type_length_def spell_length_def)

text \<open>The other base is no prefix, so a \<open>char\<close> is not taken for a \<open>varchar\<close>.\<close>

lemma char_is_not_varchar: "type_length (spell_length ''character'' len) ''character varying'' = None"
  by (auto simp: type_length_def spell_length_def split: option.splits)

lemma parse_format_type: "parse_catalog_type (format_type t) = Some t"
proof (induction t)
  case (PgVarChar len)
  have "strip_suffix ''[]'' (format_type (PgVarChar len)) = None"
    by (rule no_brackets) (simp add: spell_length_last split: option.splits)
  then show ?case by (subst parse_catalog_type.simps) (simp add: type_length_spelled)
next
  case (PgChar len)
  have "strip_suffix ''[]'' (format_type (PgChar len)) = None"
    by (rule no_brackets) (simp add: spell_length_last split: option.splits)
  then show ?case
    by (subst parse_catalog_type.simps) (simp add: char_is_not_varchar type_length_spelled)
next
  case (PgArray t)
  have "strip_suffix ''[]'' (format_type t @ ''[]'') = Some (format_type t)"
    by (simp add: strip_suffix_eq)
  with PgArray show ?case by (subst parse_catalog_type.simps) simp
qed (simp; subst parse_catalog_type.simps; code_simp)+

section \<open>The tables of a snapshot\<close>

text \<open>
  The tables while the rows are added: every column comes from a row of its table, and every key
  column is one of the columns of its table.
\<close>

definition snapshot_inv :: "column_row list \<Rightarrow> snapshot_state \<Rightarrow> bool" where
  "snapshot_inv rows s \<longleftrightarrow>
     bmap_ok (sn_tables s) \<and> bmap_ok (sn_primary_keys s) \<and>
     (\<forall>n t. bmap_get n (sn_tables s) = Some t \<longrightarrow> tbl_name t = n \<and>
        map col_name (tbl_columns t) =
          map cr_name (filter (\<lambda>r. QualifiedTableName (cr_schema r) (cr_table r) = n) rows) \<and>
        tbl_primary_key t = []) \<and>
     (\<forall>n. bmap_get n (sn_tables s) = None \<longrightarrow>
        (\<forall>r\<in>set rows. QualifiedTableName (cr_schema r) (cr_table r) \<noteq> n)) \<and>
     (\<forall>n keys. bmap_get n (sn_primary_keys s) = Some keys \<longrightarrow>
        snd ` set keys \<subseteq> cr_name ` {r \<in> set rows. QualifiedTableName (cr_schema r) (cr_table r) = n})"

lemma bmap_update_get:
  "bmap_ok m \<Longrightarrow> bmap_get j (bmap_update k v f m) =
     (if j = k then Some (f (case bmap_get k m of Some x \<Rightarrow> x | None \<Rightarrow> v)) else bmap_get j m)"
  by (simp add: bmap_update_def bmap_get_insert)

lemma bmap_update_ok: "bmap_ok m \<Longrightarrow> bmap_ok (bmap_update k v f m)"
  by (simp add: bmap_update_def bmap_ok_insert)

lemma add_column_row_inv:
  assumes "snapshot_inv rows s" "add_column_row row s = Inr s'"
  shows "snapshot_inv (rows @ [row]) s'"
proof -
  let ?n = "QualifiedTableName (cr_schema row) (cr_table row)"
  from assms(2) obtain sql_type ordinal unsupported where
    s': "sn_tables s' = bmap_update ?n \<lparr>tbl_name = ?n, tbl_columns = [], tbl_primary_key = []\<rparr>
        (\<lambda>t. t\<lparr>tbl_columns := tbl_columns t @ [\<lparr>col_name = cr_name row, col_sql_type = sql_type,
          col_nullable = cr_nullable row, col_ordinal = ordinal\<rparr>]\<rparr>) (sn_tables s)"
      "sn_primary_keys s' = (case cr_primary_key_position row of
          Some pos \<Rightarrow> bmap_update ?n [] (\<lambda>keys. keys @ [(pos, cr_name row)]) (sn_primary_keys s)
        | None \<Rightarrow> sn_primary_keys s)"
    by (auto simp: add_column_row_def Let_def and_then_eq_Inr split: if_splits)
  have ok: "bmap_ok (sn_tables s)" "bmap_ok (sn_primary_keys s)" using assms(1) by (auto simp: snapshot_inv_def)
  have none: "filter (\<lambda>r. cr_schema r = cr_schema row \<and> cr_table r = cr_table row) rows = []"
    if "bmap_get ?n (sn_tables s) = None"
  proof -
    from that assms(1) have "\<forall>r\<in>set rows. QualifiedTableName (cr_schema r) (cr_table r) \<noteq> ?n"
      unfolding snapshot_inv_def by blast
    then show ?thesis by (auto simp: filter_empty_conv)
  qed
  have tables: "tbl_name t = n \<and> map col_name (tbl_columns t) =
        map cr_name (filter (\<lambda>r. QualifiedTableName (cr_schema r) (cr_table r) = n) (rows @ [row])) \<and>
        tbl_primary_key t = []" if "bmap_get n (sn_tables s') = Some t" for n t
    using assms(1) ok that
    by (auto simp: s' snapshot_inv_def bmap_update_get none split: option.splits if_splits)
  have absent: "\<forall>r\<in>set (rows @ [row]). QualifiedTableName (cr_schema r) (cr_table r) \<noteq> n"
    if "bmap_get n (sn_tables s') = None" for n
    using assms(1) ok that by (auto simp: s' snapshot_inv_def bmap_update_get split: if_splits)
  have old: "snd ` set keys \<subseteq> cr_name ` {r \<in> set (rows @ [row]). QualifiedTableName (cr_schema r) (cr_table r) = n}"
    if "bmap_get n (sn_primary_keys s) = Some keys" for n keys
  proof -
    have "snd ` set keys \<subseteq> cr_name ` {r \<in> set rows. QualifiedTableName (cr_schema r) (cr_table r) = n}"
      using assms(1) that by (simp add: snapshot_inv_def)
    then show ?thesis by (rule subset_trans) (rule image_mono, auto)
  qed
  have keys: "snd ` set keys \<subseteq> cr_name ` {r \<in> set (rows @ [row]). QualifiedTableName (cr_schema r) (cr_table r) = n}"
    if "bmap_get n (sn_primary_keys s') = Some keys" for n keys
  proof (cases "n = ?n \<and> cr_primary_key_position row \<noteq> None")
    case False
    then have "bmap_get n (sn_primary_keys s) = Some keys"
      using that ok by (auto simp: s' bmap_update_get split: option.splits if_splits)
    then show ?thesis by (rule old)
  next
    case True
    then obtain pos where pos: "cr_primary_key_position row = Some pos" by auto
    have "keys = (case bmap_get ?n (sn_primary_keys s) of Some x \<Rightarrow> x | None \<Rightarrow> []) @ [(pos, cr_name row)]"
      using that True pos ok by (simp add: s' bmap_update_get)
    moreover have "cr_name row \<in> cr_name ` {r \<in> set (rows @ [row]). QualifiedTableName (cr_schema r) (cr_table r) = n}"
      using True by simp
    ultimately show ?thesis
      using old [of ?n] True by (cases "bmap_get ?n (sn_primary_keys s)") simp_all
  qed
  from tables absent keys ok show ?thesis
    unfolding snapshot_inv_def by (auto simp: s' bmap_update_ok split: option.splits)
qed

lemma add_column_rows_inv:
  "try_fold add_column_row rows s = Inr s' \<Longrightarrow> snapshot_inv before s \<Longrightarrow> snapshot_inv (before @ rows) s'"
proof (induction rows arbitrary: s before)
  case (Cons row rows)
  then obtain t where "add_column_row row s = Inr t" "try_fold add_column_row rows t = Inr s'"
    by (auto simp: and_then_eq_Inr)
  with Cons.IH [of t "before @ [row]"] Cons.prems(2) add_column_row_inv show ?case by simp
qed simp

lemma bmap_get_map_values:
  "bmap_get n (map (\<lambda>(k, v). (k, f k v)) m) = map_option (f n) (bmap_get n m)"
  by (induction m) (auto simp: bmap_get_def)

lemma snapshot_tables_ok:
  assumes "snapshot_from_rows namespaces rows = Inr live"
    and "distinct (map (\<lambda>r. (cr_schema r, cr_table r, cr_name r)) (rows_columns rows))"
  shows "tables_ok (ls_tables live)"
proof -
  let ?rows = "filter (\<lambda>row. cr_schema row \<in> set namespaces) (rows_columns rows)"
  from assms(1) obtain s where s: "try_fold add_column_row ?rows
      \<lparr>sn_tables = [], sn_primary_keys = [], sn_unsupported = []\<rparr> = Inr s"
    and live: "ls_tables live = map (finish_table (sn_primary_keys s)) (sn_tables s)"
    by (auto simp: snapshot_from_rows_def and_then_eq_Inr Let_def)
  have "snapshot_inv [] \<lparr>sn_tables = [], sn_primary_keys = [], sn_unsupported = []\<rparr>"
    by (simp add: snapshot_inv_def bmap_ok_def bmap_get_def)
  from add_column_rows_inv [OF s this] have inv: "snapshot_inv ?rows s" by simp
  have keys: "bmap_ok (ls_tables live)"
    using inv unfolding live
    by (simp add: snapshot_inv_def bmap_ok_def finish_table_def comp_def case_prod_beta)
  have unique: "distinct (map cr_name (filter (\<lambda>r. QualifiedTableName (cr_schema r) (cr_table r) = n) ?rows))" for n
  proof -
    have "distinct (map (\<lambda>r. (cr_schema r, cr_table r, cr_name r))
        (filter (\<lambda>r. QualifiedTableName (cr_schema r) (cr_table r) = n) ?rows))"
      using assms(2) by (simp add: distinct_map_filter)
    then show ?thesis
      by (auto simp: distinct_map inj_on_def)
  qed
  have "tbl_name t = n \<and> table_ok t" if mem: "(n, t) \<in> set (ls_tables live)" for n t
  proof -
    from mem obtain t' where t': "(n, t') \<in> set (sn_tables s)" "t = snd (finish_table (sn_primary_keys s) (n, t'))"
      unfolding live by (auto simp: finish_table_def)
    then have get: "bmap_get n (sn_tables s) = Some t'"
      using inv by (simp add: snapshot_inv_def bmap_get_entries)
    then have shape: "tbl_name t' = n" "tbl_primary_key t' = []" "map col_name (tbl_columns t') =
        map cr_name (filter (\<lambda>r. QualifiedTableName (cr_schema r) (cr_table r) = n) ?rows)"
      using inv by (auto simp: snapshot_inv_def)
    then have names: "col_name ` set (tbl_columns t') =
        cr_name ` {r \<in> set ?rows. QualifiedTableName (cr_schema r) (cr_table r) = n}"
      by (metis list.set_map set_filter)
    have "set (tbl_primary_key t) \<subseteq> col_name ` set (tbl_columns t')"
      using inv shape(2) unfolding names t'(2)
      by (auto simp: snapshot_inv_def finish_table_def split: option.splits)
    moreover have "tbl_name t = n" "set (tbl_columns t) = set (tbl_columns t')"
      "distinct (map col_name (tbl_columns t))"
      using shape unique [of n] by (simp_all add: t'(2) finish_table_def)
    ultimately show ?thesis by (simp add: table_ok_def)
  qed
  with keys show ?thesis by (auto simp: tables_ok_def)
qed

section \<open>Properties\<close>

text \<open>
  Every supported type is read back from the catalog: reading PostgreSQL's spelling of a type,
  with its length and its arrays, gives that type.
\<close>

theorem catalog_types_read_back:
  "parse_catalog_type (format_type t) = Some t"
  by (rule parse_format_type)


definition sample_rows :: catalog_rows where
  "sample_rows = \<lparr>rows_columns =
      [\<lparr>cr_schema = ''public'', cr_table = ''users'', cr_ordinal = 2, cr_name = ''name'',
        cr_catalog_type = ''text'', cr_nullable = True, cr_primary_key_position = None,
        cr_has_default = True\<rparr>,
       \<lparr>cr_schema = ''public'', cr_table = ''users'', cr_ordinal = 1, cr_name = ''id'',
        cr_catalog_type = ''integer'', cr_nullable = False, cr_primary_key_position = Some 1,
        cr_has_default = False\<rparr>],
     rows_indexes = [], rows_checks = [], rows_triggers = [], rows_foreign_keys = []\<rparr>"


end
