(* ===== verification/Db_Diff.thy ===== *)
theory Db_Diff
  imports Db_Catalog
begin

text \<open>
  The migration planner (\<open>crates/mads-cli/src/database/diff.rs\<close>): the operations that turn the live
  schema into the desired one, and their inverses.

  The planner is verified against a semantics of the operations on abstract schemas (\<open>apply_op\<close>):
  maps from names to tables, tables as maps from column names to types and nullability with the
  list of key columns. An operation that PostgreSQL would refuse, or whose inverse would not
  restore what was there, has no result. The order in which tables are dropped is Kahn's algorithm
  over the foreign keys (\<open>order_dropped_tables\<close>), with the number of tables as its bound.
\<close>

section \<open>Operations\<close>

definition "MADS212 = ''MADS212''"

datatype operation =
  CreateTable table_schema
| DropTable table_schema
| AddColumn qualified_table_name column_schema
| DropColumn qualified_table_name column_schema
| AlterType qualified_table_name string pg_type pg_type
| SetNotNull qualified_table_name string
| DropNotNull qualified_table_name string

fun inverse_op :: "operation \<Rightarrow> operation" where
  "inverse_op (CreateTable t) = DropTable t"
| "inverse_op (DropTable t) = CreateTable t"
| "inverse_op (AddColumn n c) = DropColumn n c"
| "inverse_op (DropColumn n c) = AddColumn n c"
| "inverse_op (AlterType n c from_type to_type) = AlterType n c to_type from_type"
| "inverse_op (SetNotNull n c) = DropNotNull n c"
| "inverse_op (DropNotNull n c) = SetNotNull n c"

datatype migration_warning = MigrationWarning (mw_subject: string) (mw_message: string)

record migration_plan =
  mp_up :: "operation list"
  mp_down :: "operation list"
  mp_warnings :: "migration_warning list"

definition plan_is_empty :: "migration_plan \<Rightarrow> bool" where
  "plan_is_empty p \<longleftrightarrow> mp_up p = []"

section \<open>Errors and warnings\<close>

definition table_subject :: "qualified_table_name \<Rightarrow> string" where
  "table_subject n = qt_schema n @ ''.'' @ qt_table n"

definition column_subject :: "qualified_table_name \<Rightarrow> string \<Rightarrow> string" where
  "column_subject n column = qt_schema n @ ''.'' @ qt_table n @ ''.'' @ column"

definition diff_error :: "string \<Rightarrow> string \<Rightarrow> cli_error" where
  "diff_error message subject =
     cli_with_suggestion ''adjust the schema manually before generating a migration''
       (cli_with_subject subject
         (cli_error_new MADS212 ''Schema difference is unsafe or unsupported'' message))"

lemma ce_code_diff_error [simp]: "ce_code (diff_error m s) = MADS212"
  by (simp add: diff_error_def)

record affected_shape =
  af_tables :: "qualified_table_name set"
  af_columns :: "(qualified_table_name \<times> string) set"

definition affected_default :: affected_shape where
  "affected_default = \<lparr>af_tables = {}, af_columns = {}\<rparr>"

definition mark_table :: "qualified_table_name \<Rightarrow> affected_shape \<Rightarrow> affected_shape" where
  "mark_table n a = a\<lparr>af_tables := insert n (af_tables a)\<rparr>"

definition mark_column :: "qualified_table_name \<Rightarrow> string \<Rightarrow> affected_shape \<Rightarrow> affected_shape" where
  "mark_column n c a = a\<lparr>af_columns := insert (n, c) (af_columns a)\<rparr>"

definition touches :: "affected_shape \<Rightarrow> unsupported_object \<Rightarrow> bool" where
  "touches a object \<longleftrightarrow>
     uo_table object \<in> af_tables a \<or>
     (uo_columns object = [] \<and> uo_table object \<in> fst ` af_columns a) \<or>
     list_ex (\<lambda>c. (uo_table object, c) \<in> af_columns a) (uo_columns object)"

definition touches_table_or_column :: "affected_shape \<Rightarrow> qualified_table_name \<Rightarrow> bool" where
  "touches_table_or_column a n \<longleftrightarrow> n \<in> af_tables a \<or> n \<in> fst ` af_columns a"

fun unsupported_kind_name :: "unsupported_kind \<Rightarrow> string" where
  "unsupported_kind_name Kind_Default = ''default''"
| "unsupported_kind_name Kind_Index = ''index''"
| "unsupported_kind_name Kind_Check = ''check constraint''"
| "unsupported_kind_name Kind_Trigger = ''trigger''"
| "unsupported_kind_name Kind_ForeignKey = ''foreign key''"

definition unsupported_warnings ::
    "unsupported_object list \<Rightarrow> foreign_key_dependency list \<Rightarrow> affected_shape \<Rightarrow> migration_warning list" where
  "unsupported_warnings unsupported foreign_keys affected =
     map (\<lambda>object. MigrationWarning (column_subject (uo_table object) (uo_name object))
         (''unsupported '' @ unsupported_kind_name (uo_kind object)
           @ '' is affected and will not be synthesized; review it manually''))
       (sort_by unsupported_order (filter (touches affected) unsupported))
     @ map (\<lambda>dependency. MigrationWarning (column_subject (fk_child dependency) (fk_name dependency))
         ''unsupported foreign key is affected and will not be synthesized; review it manually'')
       (filter (\<lambda>dependency. touches_table_or_column affected (fk_parent dependency)) foreign_keys)"

definition warning_order :: "migration_warning \<Rightarrow> migration_warning \<Rightarrow> ordering" where
  "warning_order left right = cmp (mw_subject left, mw_message left) (mw_subject right, mw_message right)"

section \<open>The order of dropped tables\<close>

definition drop_edges ::
    "qualified_table_name btree_set \<Rightarrow> foreign_key_dependency list \<Rightarrow>
     (qualified_table_name \<times> qualified_table_name) btree_set" where
  "drop_edges dropped foreign_keys =
     bset_of_list (map (\<lambda>d. (fk_child d, fk_parent d))
       (filter (\<lambda>d. fk_child d \<in> set dropped \<and> fk_parent d \<in> set dropped) foreign_keys))"

type_synonym counts = "(qualified_table_name, nat) btree_map"
type_synonym parents_of = "(qualified_table_name, qualified_table_name list) btree_map"

definition count_drop_edge ::
    "qualified_table_name \<times> qualified_table_name \<Rightarrow> parents_of \<times> counts \<Rightarrow> panic + parents_of \<times> counts" where
  "count_drop_edge = (\<lambda>(child, parent) (outgoing, incoming).
     and_then (expect ''dropped parent must be present'' (bmap_get parent incoming)) (\<lambda>count.
     Inr (bmap_update child [] (\<lambda>parents. parents @ [parent]) outgoing,
          bmap_insert parent (Suc count) incoming)))"

definition release_parent ::
    "qualified_table_name \<Rightarrow> counts \<times> qualified_table_name btree_set \<Rightarrow>
     panic + counts \<times> qualified_table_name btree_set" where
  "release_parent parent = (\<lambda>(incoming, ready).
     and_then (expect ''foreign-key parent must be present'' (bmap_get parent incoming)) (\<lambda>count.
     if count = 0 then Inl (Panic ''attempt to subtract with overflow'')
     else Inr (bmap_insert parent (count - 1) incoming,
               if count - 1 = 0 then bset_insert parent ready else ready)))"

fun drop_loop ::
    "nat \<Rightarrow> parents_of \<Rightarrow> counts \<Rightarrow> qualified_table_name btree_set \<Rightarrow> qualified_table_name list \<Rightarrow>
     panic + qualified_table_name list" where
  "drop_loop 0 outgoing incoming ready ordered =
     (if ready = [] then Inr ordered else Inl OutOfFuel)"
| "drop_loop (Suc fuel) outgoing incoming ready ordered =
     (case bset_pop_first ready of
        None \<Rightarrow> Inr ordered
      | Some (next_table, ready) \<Rightarrow>
          and_then (try_fold release_parent
              (case bmap_get next_table outgoing of Some parents \<Rightarrow> parents | None \<Rightarrow> [])
              (incoming, ready))
            (\<lambda>(incoming, ready). drop_loop fuel outgoing incoming ready (ordered @ [next_table])))"

definition order_dropped_tables ::
    "qualified_table_name btree_set \<Rightarrow> foreign_key_dependency list \<Rightarrow>
     cli_failure + qualified_table_name list" where
  "order_dropped_tables dropped foreign_keys =
     and_then (or_cli_panic (try_fold count_drop_edge (drop_edges dropped foreign_keys)
         ([], map (\<lambda>n. (n, 0)) dropped))) (\<lambda>(outgoing, incoming).
     let ready = bset_of_list (map fst (filter (\<lambda>(_, count). count = 0) incoming)) in
     and_then (or_cli_panic (drop_loop (length dropped) outgoing incoming ready [])) (\<lambda>ordered.
     if length ordered \<noteq> length dropped
     then Inl (CliFailed (diff_error ''foreign-key cycle among dropped tables is unsupported'' ''dropped tables''))
     else Inr ordered))"

section \<open>The plan\<close>

definition columns_by_name :: "table_schema \<Rightarrow> (string, column_schema) btree_map" where
  "columns_by_name t = bmap_of_list (map (\<lambda>c. (col_name c, c)) (tbl_columns t))"

definition column_order :: "column_schema \<Rightarrow> column_schema \<Rightarrow> ordering" where
  "column_order left right = cmp (col_ordinal left, col_name left) (col_ordinal right, col_name right)"

definition reject_primary_key_changes :: "tables \<Rightarrow> tables \<Rightarrow> cli_error + unit" where
  "reject_primary_key_changes live desired =
     try_fold (\<lambda>(name, live_table) _.
       case bmap_get name desired of
         None \<Rightarrow> Inr ()
       | Some desired_table \<Rightarrow>
           if tbl_primary_key live_table \<noteq> tbl_primary_key desired_table
           then Inl (diff_error ''changing an existing table primary key is unsupported'' (table_subject name))
           else (case find (\<lambda>column. bmap_get column (columns_by_name desired_table) = None)
               (tbl_primary_key live_table) of
             Some column \<Rightarrow> Inl (diff_error
               ''dropping a primary-key column from a retained table is unsupported''
               (column_subject name column))
           | None \<Rightarrow> Inr ())) live ()"

definition reject_retained_foreign_key_references ::
    "qualified_table_name btree_set \<Rightarrow> foreign_key_dependency list \<Rightarrow> cli_error + unit" where
  "reject_retained_foreign_key_references dropped foreign_keys =
     (case find (\<lambda>d. fk_parent d \<in> set dropped \<and> fk_child d \<notin> set dropped) foreign_keys of
        Some d \<Rightarrow> Inl (diff_error ''a retained table still references a table selected for drop''
          (qt_schema (fk_child d) @ ''.'' @ fk_name d))
      | None \<Rightarrow> Inr ())"

record planner =
  pl_up :: "operation list"
  pl_affected :: affected_shape
  pl_warnings :: "migration_warning list"

text \<open>One operation on a column: pushed, marked, and with a warning where there is one.\<close>

definition push_column_op ::
    "qualified_table_name \<Rightarrow> operation \<Rightarrow> string \<Rightarrow> string option \<Rightarrow> planner \<Rightarrow> planner" where
  "push_column_op name op column message p =
     p\<lparr>pl_up := pl_up p @ [op], pl_affected := mark_column name column (pl_affected p),
       pl_warnings := pl_warnings p @
         (case message of None \<Rightarrow> [] | Some m \<Rightarrow> [MigrationWarning (column_subject name column) m])\<rparr>"

definition plan_create :: "tables \<Rightarrow> qualified_table_name \<times> table_schema \<Rightarrow> planner \<Rightarrow> planner" where
  "plan_create live = (\<lambda>(name, t) p.
     if bmap_get name live = None then p\<lparr>pl_up := pl_up p @ [CreateTable t]\<rparr> else p)"

definition plan_additions :: "tables \<Rightarrow> qualified_table_name \<times> table_schema \<Rightarrow> planner \<Rightarrow> planner" where
  "plan_additions live = (\<lambda>(name, desired_table) p.
     case bmap_get name live of
       None \<Rightarrow> p
     | Some live_table \<Rightarrow>
         fold (\<lambda>column. push_column_op name (AddColumn name column) (col_name column)
             (if col_nullable column then None
              else Some ''adding a non-null column requires a manual backfill or data-safety review''))
           (sort_by column_order
             (filter (\<lambda>column. bmap_get (col_name column) (columns_by_name live_table) = None)
               (tbl_columns desired_table))) p)"

text \<open>The columns of both tables, in the order of the live one.\<close>

definition common_columns :: "table_schema \<Rightarrow> table_schema \<Rightarrow> (column_schema \<times> column_schema) list" where
  "common_columns live_table desired_table =
     sort_by (\<lambda>(left, _) (right, _). column_order left right)
       (List.map_filter (\<lambda>live_column.
         map_option (Pair live_column) (bmap_get (col_name live_column) (columns_by_name desired_table)))
         (tbl_columns live_table))"

definition plan_types :: "tables \<Rightarrow> qualified_table_name \<times> table_schema \<Rightarrow> planner \<Rightarrow> planner" where
  "plan_types desired = (\<lambda>(name, live_table) p.
     case bmap_get name desired of
       None \<Rightarrow> p
     | Some desired_table \<Rightarrow>
         fold (\<lambda>(live_column, desired_column) p.
             if col_sql_type live_column \<noteq> col_sql_type desired_column
             then push_column_op name
               (AlterType name (col_name live_column) (col_sql_type live_column) (col_sql_type desired_column))
               (col_name live_column)
               (Some ''changing a column type may require a risky cast; review the generated SQL'') p
             else p)
           (common_columns live_table desired_table) p)"

definition plan_nullability :: "tables \<Rightarrow> qualified_table_name \<times> table_schema \<Rightarrow> planner \<Rightarrow> planner" where
  "plan_nullability desired = (\<lambda>(name, live_table) p.
     case bmap_get name desired of
       None \<Rightarrow> p
     | Some desired_table \<Rightarrow>
         fold (\<lambda>(live_column, desired_column) p.
             if col_nullable live_column = col_nullable desired_column then p
             else push_column_op name
               (if col_nullable desired_column then DropNotNull name (col_name live_column)
                else SetNotNull name (col_name live_column))
               (col_name live_column) None p)
           (common_columns live_table desired_table) p)"

definition plan_removals :: "tables \<Rightarrow> qualified_table_name \<times> table_schema \<Rightarrow> planner \<Rightarrow> planner" where
  "plan_removals desired = (\<lambda>(name, live_table) p.
     case bmap_get name desired of
       None \<Rightarrow> p
     | Some desired_table \<Rightarrow>
         fold (\<lambda>column. push_column_op name (DropColumn name column) (col_name column)
             (Some ''dropping a column may discard data; down.sql restores shape, not data''))
           (sort_by (\<lambda>left right. column_order right left)
             (filter (\<lambda>column. bmap_get (col_name column) (columns_by_name desired_table) = None)
               (tbl_columns live_table))) p)"

definition plan_drop :: "tables \<Rightarrow> qualified_table_name \<Rightarrow> planner \<Rightarrow> panic + planner" where
  "plan_drop live name p =
     and_then (expect ''dropped table names are derived from the live snapshot'' (bmap_get name live))
       (\<lambda>t. Inr (p\<lparr>pl_up := pl_up p @ [DropTable t], pl_affected := mark_table name (pl_affected p),
          pl_warnings := pl_warnings p @ [MigrationWarning (table_subject name)
            ''dropping a table may discard data; down.sql restores shape, not data'']\<rparr>))"

definition dropped_tables :: "tables \<Rightarrow> tables \<Rightarrow> qualified_table_name btree_set" where
  "dropped_tables live desired =
     bset_of_list (filter (\<lambda>name. bmap_get name desired = None) (bmap_keys live))"

definition plan_tables ::
    "tables \<Rightarrow> unsupported_object list \<Rightarrow> foreign_key_dependency list \<Rightarrow> tables \<Rightarrow> cli_failure + migration_plan" where
  "plan_tables live unsupported foreign_keys desired =
     and_then (or_cli_error (reject_primary_key_changes live desired)) (\<lambda>_.
     let dropped = dropped_tables live desired in
     and_then (or_cli_error (reject_retained_foreign_key_references dropped foreign_keys)) (\<lambda>_.
     and_then (order_dropped_tables dropped foreign_keys) (\<lambda>drop_order.
     let p = \<lparr>pl_up = [], pl_affected = affected_default, pl_warnings = []\<rparr>;
         p = fold (plan_create live) desired p;
         p = fold (plan_additions live) desired p;
         p = fold (plan_types desired) live p;
         p = fold (plan_nullability desired) live p;
         p = fold (plan_removals desired) live p in
     and_then (or_cli_panic (try_fold (plan_drop live) drop_order p)) (\<lambda>p.
     Inr \<lparr>mp_up = pl_up p, mp_down = map inverse_op (rev (pl_up p)),
          mp_warnings = dedup_by (\<lambda>a b. a = b) (sort_by warning_order
            (pl_warnings p @ unsupported_warnings unsupported foreign_keys (pl_affected p)))\<rparr>))))"

definition plan_diff :: "tables \<Rightarrow> live_schema \<Rightarrow> cli_failure + migration_plan" where
  "plan_diff desired live =
     plan_tables (ls_tables live) (ls_unsupported live) (ls_foreign_keys live) desired"

section \<open>What the operations mean\<close>

type_synonym columns = "string \<Rightarrow> (pg_type \<times> bool) option"
type_synonym schema = "qualified_table_name \<Rightarrow> (columns \<times> string list) option"

definition column_entry :: "column_schema \<Rightarrow> pg_type \<times> bool" where
  "column_entry c = (col_sql_type c, col_nullable c)"

definition table_columns :: "table_schema \<Rightarrow> columns" where
  "table_columns t = map_of (map (\<lambda>c. (col_name c, column_entry c)) (tbl_columns t))"

definition abs_table :: "table_schema \<Rightarrow> columns \<times> string list" where
  "abs_table t = (table_columns t, tbl_primary_key t)"

definition abs_schema :: "tables \<Rightarrow> schema" where
  "abs_schema m n = map_option abs_table (bmap_get n m)"

text \<open>
  A change of one column that is not part of the key, from one entry to another. An operation has a
  result only where its inverse has one too.
\<close>

definition change_column ::
    "qualified_table_name \<Rightarrow> string \<Rightarrow> (pg_type \<times> bool) option \<Rightarrow> (pg_type \<times> bool) option \<Rightarrow> schema \<Rightarrow> schema option" where
  "change_column n c before after s =
     (case s n of
        Some (cols, pk) \<Rightarrow>
          if cols c = before \<and> c \<notin> set pk then Some (s(n \<mapsto> (cols(c := after), pk))) else None
      | None \<Rightarrow> None)"

fun apply_op :: "operation \<Rightarrow> schema \<Rightarrow> schema option" where
  "apply_op (CreateTable t) s =
     (if s (tbl_name t) = None then Some (s(tbl_name t \<mapsto> abs_table t)) else None)"
| "apply_op (DropTable t) s =
     (if s (tbl_name t) = Some (abs_table t) then Some (s(tbl_name t := None)) else None)"
| "apply_op (AddColumn n c) s = change_column n (col_name c) None (Some (column_entry c)) s"
| "apply_op (DropColumn n c) s = change_column n (col_name c) (Some (column_entry c)) None s"
| "apply_op (AlterType n c from_type to_type) s =
     (case s n of
        Some (cols, pk) \<Rightarrow>
          (case cols c of
             Some (t, nullable) \<Rightarrow>
               if t = from_type then Some (s(n \<mapsto> (cols(c \<mapsto> (to_type, nullable)), pk))) else None
           | None \<Rightarrow> None)
      | None \<Rightarrow> None)"
| "apply_op (SetNotNull n c) s =
     (case s n of
        Some (cols, pk) \<Rightarrow>
          (case cols c of
             Some (t, nullable) \<Rightarrow> change_column n c (Some (t, True)) (Some (t, False)) s
           | None \<Rightarrow> None)
      | None \<Rightarrow> None)"
| "apply_op (DropNotNull n c) s =
     (case s n of
        Some (cols, pk) \<Rightarrow>
          (case cols c of
             Some (t, nullable) \<Rightarrow> change_column n c (Some (t, False)) (Some (t, True)) s
           | None \<Rightarrow> None)
      | None \<Rightarrow> None)"

fun apply_ops :: "operation list \<Rightarrow> schema \<Rightarrow> schema option" where
  "apply_ops [] s = Some s"
| "apply_ops (op # ops) s = Option.bind (apply_op op s) (apply_ops ops)"

lemma apply_ops_append [simp]: "apply_ops (xs @ ys) s = Option.bind (apply_ops xs s) (apply_ops ys)"
  by (induction xs arbitrary: s) (auto split: bind_splits)

lemma change_column_SomeD:
  assumes "change_column n c before after s = Some s'"
  obtains cols pk where "s n = Some (cols, pk)" "cols c = before" "c \<notin> set pk"
    "s' = s(n \<mapsto> (cols(c := after), pk))"
  using assms by (auto simp: change_column_def split: option.splits if_splits prod.splits)

lemma change_column_inverse:
  assumes "change_column n c before after s = Some s'"
  shows "change_column n c after before s' = Some s"
proof -
  obtain cols pk where c: "s n = Some (cols, pk)" "cols c = before" "c \<notin> set pk"
    "s' = s(n \<mapsto> (cols(c := after), pk))" using assms by (rule change_column_SomeD)
  have "cols(c := before) = cols" "s(n \<mapsto> (cols, pk)) = s" using c(1,2) by (simp_all add: fun_upd_idem)
  with c(3,4) show ?thesis by (simp add: change_column_def)
qed

lemma apply_op_inverse_not_null:
  assumes "(case s n of
        Some (cols, pk) \<Rightarrow>
          (case cols c of
             Some (t, nullable) \<Rightarrow> change_column n c (Some (t, a)) (Some (t, b)) s
           | None \<Rightarrow> None)
      | None \<Rightarrow> None) = Some s'"
  shows "(case s' n of
        Some (cols, pk) \<Rightarrow>
          (case cols c of
             Some (t, nullable) \<Rightarrow> change_column n c (Some (t, b)) (Some (t, a)) s'
           | None \<Rightarrow> None)
      | None \<Rightarrow> None) = Some s"
proof -
  from assms obtain t where change: "change_column n c (Some (t, a)) (Some (t, b)) s = Some s'"
    by (auto split: option.splits prod.splits)
  then obtain cols pk where "s' n = Some (cols, pk)" "cols c = Some (t, b)"
    by (elim change_column_SomeD) simp
  with change_column_inverse [OF change] show ?thesis by simp
qed

lemma apply_alter_inverse:
  assumes "apply_op (AlterType n c from_type to_type) s = Some s'"
  shows "apply_op (AlterType n c to_type from_type) s' = Some s"
proof -
  from assms obtain cols pk nullable where c: "s n = Some (cols, pk)" "cols c = Some (from_type, nullable)"
    "s' = s(n \<mapsto> (cols(c \<mapsto> (to_type, nullable)), pk))"
    by (auto split: option.splits prod.splits if_splits)
  have "cols(c \<mapsto> (from_type, nullable)) = cols" "s(n \<mapsto> (cols, pk)) = s"
    using c(1,2) by (simp_all add: fun_upd_idem)
  with c(3) show ?thesis by simp
qed

lemma inverse_op_correct: "apply_op op s = Some s' \<Longrightarrow> apply_op (inverse_op op) s' = Some s"
proof (induction op s rule: apply_op.induct)
  case (5 n c from_type to_type s)
  then show ?case unfolding inverse_op.simps by (rule apply_alter_inverse)
next
  case (6 n c s)
  then show ?case unfolding inverse_op.simps apply_op.simps by (rule apply_op_inverse_not_null)
next
  case (7 n c s)
  then show ?case unfolding inverse_op.simps apply_op.simps by (rule apply_op_inverse_not_null)
qed (auto simp: fun_upd_idem split: if_splits dest: change_column_inverse)

lemma inverse_ops_correct:
  "apply_ops ops s = Some s' \<Longrightarrow> apply_ops (map inverse_op (rev ops)) s' = Some s"
proof (induction ops arbitrary: s)
  case (Cons op ops)
  then obtain t where "apply_op op s = Some t" "apply_ops ops t = Some s'" by (auto split: bind_splits)
  with Cons.IH [of t] inverse_op_correct [of op s t] show ?case by simp
qed simp

section \<open>The operations of a plan\<close>

definition create_ops :: "tables \<Rightarrow> qualified_table_name \<times> table_schema \<Rightarrow> operation list" where
  "create_ops live = (\<lambda>(name, t). if bmap_get name live = None then [CreateTable t] else [])"

definition addition_ops :: "tables \<Rightarrow> qualified_table_name \<times> table_schema \<Rightarrow> operation list" where
  "addition_ops live = (\<lambda>(name, desired_table).
     case bmap_get name live of
       None \<Rightarrow> []
     | Some live_table \<Rightarrow>
         concat (map (\<lambda>column. [AddColumn name column])
           (sort_by column_order
             (filter (\<lambda>column. bmap_get (col_name column) (columns_by_name live_table) = None)
               (tbl_columns desired_table)))))"

definition type_ops :: "tables \<Rightarrow> qualified_table_name \<times> table_schema \<Rightarrow> operation list" where
  "type_ops desired = (\<lambda>(name, live_table).
     case bmap_get name desired of
       None \<Rightarrow> []
     | Some desired_table \<Rightarrow>
         concat (map (\<lambda>(l, d). if col_sql_type l \<noteq> col_sql_type d
             then [AlterType name (col_name l) (col_sql_type l) (col_sql_type d)] else [])
           (common_columns live_table desired_table)))"

definition nullability_ops :: "tables \<Rightarrow> qualified_table_name \<times> table_schema \<Rightarrow> operation list" where
  "nullability_ops desired = (\<lambda>(name, live_table).
     case bmap_get name desired of
       None \<Rightarrow> []
     | Some desired_table \<Rightarrow>
         concat (map (\<lambda>(l, d). if col_nullable l = col_nullable d then []
             else [if col_nullable d then DropNotNull name (col_name l) else SetNotNull name (col_name l)])
           (common_columns live_table desired_table)))"

definition removal_ops :: "tables \<Rightarrow> qualified_table_name \<times> table_schema \<Rightarrow> operation list" where
  "removal_ops desired = (\<lambda>(name, live_table).
     case bmap_get name desired of
       None \<Rightarrow> []
     | Some desired_table \<Rightarrow>
         concat (map (\<lambda>column. [DropColumn name column])
           (sort_by (\<lambda>left right. column_order right left)
             (filter (\<lambda>column. bmap_get (col_name column) (columns_by_name desired_table) = None)
               (tbl_columns live_table)))))"

lemma fold_pl_up:
  "(\<And>x p. x \<in> set xs \<Longrightarrow> pl_up (f x p) = pl_up p @ g x) \<Longrightarrow>
     pl_up (fold f xs p) = pl_up p @ concat (map g xs)"
  by (induction xs arbitrary: p) simp_all

lemma pl_up_push [simp]: "pl_up (push_column_op name op column message p) = pl_up p @ [op]"
  by (simp add: push_column_op_def)

lemma pl_up_create: "pl_up (plan_create live x p) = pl_up p @ create_ops live x"
  by (cases x) (simp add: plan_create_def create_ops_def)

lemma pl_up_additions: "pl_up (plan_additions live x p) = pl_up p @ addition_ops live x"
  by (cases x; cases "bmap_get (fst x) live"; simp only: plan_additions_def addition_ops_def prod.case option.case
      fst_conv append_Nil2; rule fold_pl_up; simp split: prod.splits)

lemma pl_up_types: "pl_up (plan_types desired x p) = pl_up p @ type_ops desired x"
  by (cases x; cases "bmap_get (fst x) desired"; simp only: plan_types_def type_ops_def prod.case option.case
      fst_conv append_Nil2; rule fold_pl_up; simp split: prod.splits)

lemma pl_up_nullability: "pl_up (plan_nullability desired x p) = pl_up p @ nullability_ops desired x"
  by (cases x; cases "bmap_get (fst x) desired"; simp only: plan_nullability_def nullability_ops_def prod.case option.case
      fst_conv append_Nil2; rule fold_pl_up; simp split: prod.splits)

lemma pl_up_removals: "pl_up (plan_removals desired x p) = pl_up p @ removal_ops desired x"
  by (cases x; cases "bmap_get (fst x) desired"; simp only: plan_removals_def removal_ops_def prod.case option.case
      fst_conv append_Nil2; rule fold_pl_up; simp split: prod.splits)

lemmas pl_up_stages = pl_up_create pl_up_additions pl_up_types pl_up_nullability pl_up_removals

lemma plan_drop_SomeD:
  "plan_drop live n p = Inr p' \<Longrightarrow> \<exists>t. bmap_get n live = Some t \<and> pl_up p' = pl_up p @ [DropTable t]"
  by (auto simp: plan_drop_def and_then_eq_Inr)

lemma plan_drops:
  assumes "try_fold (plan_drop live) names p = Inr p'"
  shows "\<exists>ts. list_all2 (\<lambda>n t. bmap_get n live = Some t) names ts \<and>
    pl_up p' = pl_up p @ map DropTable ts"
  using assms
proof (induction names arbitrary: p)
  case (Cons n names)
  then obtain p1 where p1: "plan_drop live n p = Inr p1" "try_fold (plan_drop live) names p1 = Inr p'"
    unfolding try_fold.simps and_then_eq_Inr by blast
  from plan_drop_SomeD [OF p1(1)] Cons.IH [OF p1(2)] obtain t ts where
    "bmap_get n live = Some t" "list_all2 (\<lambda>n t. bmap_get n live = Some t) names ts"
    "pl_up p' = pl_up p @ map DropTable (t # ts)" by auto
  then show ?case by (intro exI [of _ "t # ts"]) simp
qed simp

lemma plan_tables_up:
  assumes "plan_tables live unsupported foreign_keys desired = Inr plan"
  shows "\<exists>names ts. reject_primary_key_changes live desired = Inr () \<and>
    reject_retained_foreign_key_references (dropped_tables live desired) foreign_keys = Inr () \<and>
    order_dropped_tables (dropped_tables live desired) foreign_keys = Inr names \<and>
    list_all2 (\<lambda>n t. bmap_get n live = Some t) names ts \<and>
    mp_up plan = concat (map (create_ops live) desired) @ concat (map (addition_ops live) desired) @
      concat (map (type_ops desired) live) @ concat (map (nullability_ops desired) live) @
      concat (map (removal_ops desired) live) @ map DropTable ts \<and>
    mp_down plan = map inverse_op (rev (mp_up plan))"
proof -
  have unit: "or_cli_error r = Inr x \<Longrightarrow> r = Inr ()" for r :: "cli_error + unit" and x
    by (cases r) auto
  have panic: "or_cli_panic r = Inr x \<Longrightarrow> r = Inr x" for r :: "panic + planner" and x
    by (cases r) auto
  let ?p = "\<lparr>pl_up = [], pl_affected = affected_default, pl_warnings = []\<rparr>"
  let ?q = "fold (plan_removals desired) live (fold (plan_nullability desired) live
    (fold (plan_types desired) live (fold (plan_additions live) desired (fold (plan_create live) desired ?p))))"
  from assms obtain names p where names: "reject_primary_key_changes live desired = Inr ()"
    "reject_retained_foreign_key_references (dropped_tables live desired) foreign_keys = Inr ()"
    "order_dropped_tables (dropped_tables live desired) foreign_keys = Inr names"
    and p: "try_fold (plan_drop live) names ?q = Inr p" "mp_up plan = pl_up p"
      "mp_down plan = map inverse_op (rev (pl_up p))"
    unfolding plan_tables_def Let_def and_then_eq_Inr
    by (auto dest!: unit panic)
  have "pl_up ?q = concat (map (create_ops live) desired) @ concat (map (addition_ops live) desired) @
      concat (map (type_ops desired) live) @ concat (map (nullability_ops desired) live) @
      concat (map (removal_ops desired) live)"
    by (simp add: fold_pl_up [OF pl_up_stages(1)] fold_pl_up [OF pl_up_stages(2)]
        fold_pl_up [OF pl_up_stages(3)] fold_pl_up [OF pl_up_stages(4)] fold_pl_up [OF pl_up_stages(5)])
  with plan_drops [OF p(1)] names p(2,3) show ?thesis by fastforce
qed

section \<open>One stage at a time\<close>

text \<open>
  A stage handles tables one by one, and a table's columns one by one: the operations for each look
  only at their own entry and change only that.
\<close>

lemma apply_tables:
  assumes "distinct (map fst xs)" "\<forall>x\<in>set xs. s (fst x) = A (fst x)"
    and "\<And>x s. x \<in> set xs \<Longrightarrow> s (fst x) = A (fst x) \<Longrightarrow> apply_ops (g x) s = Some (s(fst x := B (fst x)))"
  shows "apply_ops (concat (map g xs)) s = Some (\<lambda>n. if n \<in> fst ` set xs then B n else s n)"
  using assms
proof (induction xs arbitrary: s)
  case (Cons x xs)
  have step: "apply_ops (g x) s = Some (s(fst x := B (fst x)))"
    by (rule Cons.prems(3)) (use Cons.prems(2) in auto)
  have "apply_ops (concat (map g xs)) (s(fst x := B (fst x))) =
      Some (\<lambda>n. if n \<in> fst ` set xs then B n else (s(fst x := B (fst x))) n)"
    by (rule Cons.IH) (use Cons.prems in \<open>auto simp: image_iff\<close>)
  moreover have "(\<lambda>n. if n \<in> fst ` set xs then B n else (s(fst x := B (fst x))) n) =
      (\<lambda>n. if n \<in> fst ` set (x # xs) then B n else s n)" by auto
  ultimately show ?case using step by simp
qed simp

lemma apply_columns:
  assumes "distinct (map key cs)" "s n = Some (cols, pk)" "\<forall>c\<in>set cs. cols (key c) = a c"
    and "\<And>c s cols. c \<in> set cs \<Longrightarrow> s n = Some (cols, pk) \<Longrightarrow> cols (key c) = a c \<Longrightarrow>
      apply_ops (g c) s = Some (s(n \<mapsto> (cols(key c := b c), pk)))"
  shows "\<exists>cols'. apply_ops (concat (map g cs)) s = Some (s(n \<mapsto> (cols', pk))) \<and>
    (\<forall>c\<in>set cs. cols' (key c) = b c) \<and> (\<forall>x. x \<notin> key ` set cs \<longrightarrow> cols' x = cols x)"
  using assms
proof (induction cs arbitrary: s cols)
  case Nil
  then show ?case by (auto intro!: exI [of _ cols] simp: fun_upd_idem)
next
  case (Cons c cs)
  let ?s = "s(n \<mapsto> (cols(key c := b c), pk))"
  have step: "apply_ops (g c) s = Some ?s"
    by (rule Cons.prems(4)) (use Cons.prems(2,3) in auto)
  have "\<exists>cols'. apply_ops (concat (map g cs)) ?s = Some (?s(n \<mapsto> (cols', pk))) \<and>
    (\<forall>d\<in>set cs. cols' (key d) = b d) \<and> (\<forall>x. x \<notin> key ` set cs \<longrightarrow> cols' x = (cols(key c := b c)) x)"
    by (rule Cons.IH) (use Cons.prems in \<open>auto simp: image_iff\<close>)
  then obtain cols' where cols': "apply_ops (concat (map g cs)) ?s = Some (?s(n \<mapsto> (cols', pk)))"
    "\<forall>d\<in>set cs. cols' (key d) = b d" "\<forall>x. x \<notin> key ` set cs \<longrightarrow> cols' x = (cols(key c := b c)) x" by blast
  have "cols' (key c) = b c" using Cons.prems(1) cols'(3) by auto
  with step cols' show ?case by (intro exI [of _ cols']) auto
qed

section \<open>Columns by name\<close>

lemma map_of_rev: "distinct (map fst xs) \<Longrightarrow> map_of (rev xs) k = map_of xs k"
  by (metis map_of_eq_Some_iff distinct_rev not_None_eq rev_map set_rev)

lemma columns_by_name_get:
  "table_ok t \<Longrightarrow> bmap_get x (columns_by_name t) = Some c \<longleftrightarrow> c \<in> set (tbl_columns t) \<and> col_name c = x"
  unfolding columns_by_name_def bmap_get_of_list
  by (subst map_of_rev) (auto simp: table_ok_def comp_def map_of_eq_Some_iff)

lemma columns_by_name_None:
  "table_ok t \<Longrightarrow> bmap_get x (columns_by_name t) = None \<longleftrightarrow> x \<notin> col_name ` set (tbl_columns t)"
  using columns_by_name_get [of t x] by (metis (mono_tags, lifting) image_iff not_None_eq)

lemma table_columns_get:
  "table_ok t \<Longrightarrow> table_columns t x = map_option column_entry (bmap_get x (columns_by_name t))"
proof (cases "bmap_get x (columns_by_name t)")
  case None
  moreover assume ok: "table_ok t"
  ultimately have "x \<notin> col_name ` set (tbl_columns t)" using columns_by_name_None [OF ok] by blast
  then have "table_columns t x = None"
    unfolding table_columns_def by (simp add: map_of_eq_None_iff image_image)
  with None show ?thesis by simp
next
  case (Some c)
  moreover assume ok: "table_ok t"
  ultimately have "c \<in> set (tbl_columns t)" "col_name c = x" by (simp_all add: columns_by_name_get)
  with ok Some show ?thesis
    by (auto simp: table_columns_def table_ok_def comp_def map_of_eq_Some_iff)
qed

lemma table_columns_Some:
  "table_ok t \<Longrightarrow> c \<in> set (tbl_columns t) \<Longrightarrow> table_columns t (col_name c) = Some (column_entry c)"
  by (simp add: table_columns_get) (metis columns_by_name_get option.map(2))

lemma table_columns_None:
  "table_ok t \<Longrightarrow> table_columns t x = None \<longleftrightarrow> x \<notin> col_name ` set (tbl_columns t)"
  by (simp add: table_columns_get columns_by_name_None)

lemma map_filter_Pair:
  "map fst (List.map_filter (\<lambda>x. map_option (Pair x) (f x)) xs) = filter (\<lambda>x. f x \<noteq> None) xs"
  by (induction xs) (auto simp: List.map_filter_simps split: option.splits)

lemma common_columns_set:
  assumes "table_ok l" "table_ok d"
  shows "(a, b) \<in> set (common_columns l d) \<longleftrightarrow>
    a \<in> set (tbl_columns l) \<and> b \<in> set (tbl_columns d) \<and> col_name a = col_name b"
  by (auto simp: common_columns_def set_filter_map columns_by_name_get [OF assms(2)])

lemma common_columns_distinct:
  assumes "table_ok l"
  shows "distinct (map (\<lambda>(a, b). col_name a) (common_columns l d))"
proof -
  let ?cs = "List.map_filter (\<lambda>c. map_option (Pair c) (bmap_get (col_name c) (columns_by_name d))) (tbl_columns l)"
  have "map (\<lambda>(a, b). col_name a) ?cs = map col_name (map fst ?cs)" by (simp add: case_prod_beta comp_def)
  then have "distinct (map (\<lambda>(a, b). col_name a) ?cs)"
    using assms by (simp add: map_filter_Pair table_ok_def distinct_map_filter)
  then show ?thesis unfolding common_columns_def by simp
qed

section \<open>The stages\<close>

text \<open>
  The table between the stages, from the live columns \<open>l\<close> and the desired columns \<open>d\<close>: with the
  added columns, then with the types, then with the nullability of the desired ones.
\<close>

definition with_added :: "columns \<Rightarrow> columns \<Rightarrow> columns" where
  "with_added l d = (\<lambda>x. case l x of Some e \<Rightarrow> Some e | None \<Rightarrow> d x)"

definition with_types :: "columns \<Rightarrow> columns \<Rightarrow> columns" where
  "with_types l d = (\<lambda>x. case (l x, d x) of
     (Some (t, nullable), Some (t', _)) \<Rightarrow> Some (t', nullable) | (Some e, None) \<Rightarrow> Some e | (None, e) \<Rightarrow> e)"

definition with_nullability :: "columns \<Rightarrow> columns \<Rightarrow> columns" where
  "with_nullability l d = (\<lambda>x. case d x of Some e \<Rightarrow> Some e | None \<Rightarrow> l x)"

lemma stages_agree:
  assumes "l x = None \<or> d x = None"
  shows "with_added l d x = with_types l d x" "with_types l d x = with_nullability l d x"
  using assms by (cases "l x"; cases "d x"; auto simp: with_added_def with_types_def with_nullability_def)+

text \<open>What PostgreSQL promises of key columns: they are not null.\<close>

definition keys_not_null :: "table_schema \<Rightarrow> bool" where
  "keys_not_null t \<longleftrightarrow>
     (\<forall>c\<in>set (tbl_columns t). col_name c \<in> set (tbl_primary_key t) \<longrightarrow> \<not> col_nullable c)"

definition planned_pair :: "table_schema \<Rightarrow> table_schema \<Rightarrow> bool" where
  "planned_pair l d \<longleftrightarrow> table_ok l \<and> table_ok d \<and> keys_not_null l \<and> keys_not_null d \<and>
     tbl_primary_key l = tbl_primary_key d"

lemma key_column_shared:
  assumes "planned_pair l d" "x \<in> set (tbl_primary_key l)"
  shows "x \<in> col_name ` set (tbl_columns l)" "x \<in> col_name ` set (tbl_columns d)"
  using assms by (auto simp: planned_pair_def table_ok_def)

lemma additions_stage:
  assumes "planned_pair l d" "s n = Some (table_columns l, pk)" "pk = tbl_primary_key l"
    and "bmap_get n live = Some l"
  shows "apply_ops (addition_ops live (n, d)) s = Some (s(n \<mapsto> (with_added (table_columns l) (table_columns d), pk)))"
proof -
  have ok: "table_ok l" "table_ok d" using assms(1) by (simp_all add: planned_pair_def)
  let ?cs = "sort_by column_order (filter (\<lambda>c. bmap_get (col_name c) (columns_by_name l) = None) (tbl_columns d))"
  have mem: "c \<in> set ?cs \<longleftrightarrow> c \<in> set (tbl_columns d) \<and> col_name c \<notin> col_name ` set (tbl_columns l)" for c
    by (auto simp: columns_by_name_None [OF ok(1)])
  have "\<exists>cols'. apply_ops (concat (map (\<lambda>c. [AddColumn n c]) ?cs)) s = Some (s(n \<mapsto> (cols', pk))) \<and>
    (\<forall>c\<in>set ?cs. cols' (col_name c) = Some (column_entry c)) \<and>
    (\<forall>x. x \<notin> col_name ` set ?cs \<longrightarrow> cols' x = table_columns l x)"
  proof (rule apply_columns [where a = "\<lambda>_. None"])
    show "distinct (map col_name ?cs)" using ok(2) by (simp add: table_ok_def distinct_map_filter)
    show "\<forall>c\<in>set ?cs. table_columns l (col_name c) = None"
    proof
      fix c assume "c \<in> set ?cs"
      then have "col_name c \<notin> col_name ` set (tbl_columns l)" unfolding mem by (rule conjunct2)
      then show "table_columns l (col_name c) = None" using table_columns_None [OF ok(1)] by blast
    qed
    fix c and s' :: schema and cols assume c: "c \<in> set ?cs" "s' n = Some (cols, pk)" "cols (col_name c) = None"
    from c(1) have "col_name c \<notin> col_name ` set (tbl_columns l)" unfolding mem by (rule conjunct2)
    then have "col_name c \<notin> set pk" using key_column_shared(1) [OF assms(1)] assms(3) by blast
    with c(2,3) show "apply_ops [AddColumn n c] s' = Some (s'(n \<mapsto> (cols(col_name c := Some (column_entry c)), pk)))"
      by (simp add: change_column_def)
  qed (rule assms(2))
  then obtain cols' where cols': "apply_ops (concat (map (\<lambda>c. [AddColumn n c]) ?cs)) s = Some (s(n \<mapsto> (cols', pk)))"
    "\<forall>c\<in>set ?cs. cols' (col_name c) = Some (column_entry c)"
    "\<forall>x. x \<notin> col_name ` set ?cs \<longrightarrow> cols' x = table_columns l x" by blast
  have "cols' x = with_added (table_columns l) (table_columns d) x" for x
  proof (cases "x \<in> col_name ` set ?cs")
    case True
    then obtain c where c: "c \<in> set ?cs" "x = col_name c" by blast
    with mem have "c \<in> set (tbl_columns d)" "table_columns l x = None"
      using table_columns_None [OF ok(1)] by auto
    with c cols'(2) table_columns_Some [OF ok(2)] show ?thesis by (simp add: with_added_def)
  next
    case False
    then have "table_columns l x \<noteq> None \<or> table_columns d x = None"
      unfolding table_columns_None [OF ok(1)] table_columns_None [OF ok(2)] using mem by blast
    moreover have "cols' x = table_columns l x" using False cols'(3) by blast
    ultimately show ?thesis by (cases "table_columns l x") (simp_all add: with_added_def)
  qed
  then have "cols' = with_added (table_columns l) (table_columns d)" by blast
  with cols'(1) assms(4) show ?thesis by (simp add: addition_ops_def)
qed

lemma common_stage:
  assumes "planned_pair l d" "s n = Some (A, pk)" "pk = tbl_primary_key l"
    and "\<And>a b. a \<in> set (tbl_columns l) \<Longrightarrow> b \<in> set (tbl_columns d) \<Longrightarrow> col_name a = col_name b \<Longrightarrow>
      A (col_name a) = Some (f a b) \<and> B (col_name a) = Some (g a b)"
    and "\<And>x. x \<notin> col_name ` set (tbl_columns l) \<or> x \<notin> col_name ` set (tbl_columns d) \<Longrightarrow> A x = B x"
    and "\<And>a b s cols. a \<in> set (tbl_columns l) \<Longrightarrow> b \<in> set (tbl_columns d) \<Longrightarrow> col_name a = col_name b \<Longrightarrow>
      s n = Some (cols, pk) \<Longrightarrow> cols (col_name a) = Some (f a b) \<Longrightarrow>
      apply_ops (h (a, b)) s = Some (s(n \<mapsto> (cols(col_name a \<mapsto> g a b), pk)))"
  shows "apply_ops (concat (map h (common_columns l d))) s = Some (s(n \<mapsto> (B, pk)))"
proof -
  have ok: "table_ok l" "table_ok d" using assms(1) by (simp_all add: planned_pair_def)
  note mem = common_columns_set [OF ok]
  let ?cs = "common_columns l d"
  have "\<exists>cols'. apply_ops (concat (map h ?cs)) s = Some (s(n \<mapsto> (cols', pk))) \<and>
    (\<forall>c\<in>set ?cs. cols' ((\<lambda>(a, b). col_name a) c) = Some (case_prod g c)) \<and>
    (\<forall>x. x \<notin> (\<lambda>(a, b). col_name a) ` set ?cs \<longrightarrow> cols' x = A x)"
    by (rule apply_columns [where a = "\<lambda>c. Some (case_prod f c)" and cs = ?cs and g = h and
          key = "\<lambda>(a, b). col_name a" and s = s and n = n and cols = A and pk = pk])
      (use assms(2,4,6) mem common_columns_distinct [OF ok(1)] in auto)
  then obtain cols' where cols': "apply_ops (concat (map h ?cs)) s = Some (s(n \<mapsto> (cols', pk)))"
    "\<And>a b. (a, b) \<in> set ?cs \<Longrightarrow> cols' (col_name a) = Some (g a b)"
    "\<And>x. x \<notin> (\<lambda>(a, b). col_name a) ` set ?cs \<Longrightarrow> cols' x = A x" by fastforce
  have "cols' x = B x" for x
  proof (cases "x \<in> (\<lambda>(a, b). col_name a) ` set ?cs")
    case True
    then obtain a b where ab: "(a, b) \<in> set ?cs" "x = col_name a" by auto
    from ab(1) have m: "a \<in> set (tbl_columns l)" "b \<in> set (tbl_columns d)" "col_name a = col_name b"
      unfolding mem by auto
    from cols'(2) [OF ab(1)] assms(4) [OF m] ab(2) show ?thesis by simp
  next
    case False
    then have "x \<notin> col_name ` set (tbl_columns l) \<or> x \<notin> col_name ` set (tbl_columns d)"
      using mem by (force simp: image_iff)
    with assms(5) cols'(3) [OF False] show ?thesis by simp
  qed
  then have "cols' = B" by blast
  with cols'(1) show ?thesis by simp
qed

lemma types_stage:
  assumes "planned_pair l d" "s n = Some (with_added (table_columns l) (table_columns d), pk)"
    and "pk = tbl_primary_key l" "bmap_get n desired = Some d"
  shows "apply_ops (type_ops desired (n, l)) s = Some (s(n \<mapsto> (with_types (table_columns l) (table_columns d), pk)))"
proof -
  have ok: "table_ok l" "table_ok d" using assms(1) by (simp_all add: planned_pair_def)
  let ?h = "\<lambda>(l, d). if col_sql_type l \<noteq> col_sql_type d
    then [AlterType n (col_name l) (col_sql_type l) (col_sql_type d)] else []"
  have "apply_ops (concat (map ?h (common_columns l d))) s =
      Some (s(n \<mapsto> (with_types (table_columns l) (table_columns d), pk)))"
  proof (rule common_stage [where s = s and n = n, OF assms(1-3), where f = "\<lambda>a b. column_entry a" and
        g = "\<lambda>a b. (col_sql_type b, col_nullable a)"])
    fix a b assume "a \<in> set (tbl_columns l)" "b \<in> set (tbl_columns d)" "col_name a = col_name b"
    then have "table_columns l (col_name a) = Some (column_entry a)"
      "table_columns d (col_name a) = Some (column_entry b)"
      using table_columns_Some [OF ok(1), of a] table_columns_Some [OF ok(2), of b] by auto
    then show "with_added (table_columns l) (table_columns d) (col_name a) = Some (column_entry a) \<and>
        with_types (table_columns l) (table_columns d) (col_name a) = Some (col_sql_type b, col_nullable a)"
      by (simp add: with_added_def with_types_def column_entry_def)
  next
    fix x assume "x \<notin> col_name ` set (tbl_columns l) \<or> x \<notin> col_name ` set (tbl_columns d)"
    then have "table_columns l x = None \<or> table_columns d x = None"
      by (simp only: table_columns_None [OF ok(1)] table_columns_None [OF ok(2)])
    then show "with_added (table_columns l) (table_columns d) x = with_types (table_columns l) (table_columns d) x"
      by (rule stages_agree(1))
  next
    fix a b and s' :: schema and cols
    assume s': "s' n = Some (cols, pk)" "cols (col_name a) = Some (column_entry a)"
    then have "cols(col_name a \<mapsto> column_entry a) = cols" "s'(n \<mapsto> (cols, pk)) = s'"
      by (simp_all add: fun_upd_idem)
    with s' show "apply_ops (?h (a, b)) s' = Some (s'(n \<mapsto> (cols(col_name a \<mapsto> (col_sql_type b, col_nullable a)), pk)))"
      by (auto simp: column_entry_def)
  qed
  with assms(4) show ?thesis by (simp add: type_ops_def)
qed

lemma nullability_stage:
  assumes "planned_pair l d" "s n = Some (with_types (table_columns l) (table_columns d), pk)"
    and "pk = tbl_primary_key l" "bmap_get n desired = Some d"
  shows "apply_ops (nullability_ops desired (n, l)) s =
    Some (s(n \<mapsto> (with_nullability (table_columns l) (table_columns d), pk)))"
proof -
  have ok: "table_ok l" "table_ok d" using assms(1) by (simp_all add: planned_pair_def)
  let ?h = "\<lambda>(l, d). if col_nullable l = col_nullable d then []
    else [if col_nullable d then DropNotNull n (col_name l) else SetNotNull n (col_name l)]"
  have "apply_ops (concat (map ?h (common_columns l d))) s =
      Some (s(n \<mapsto> (with_nullability (table_columns l) (table_columns d), pk)))"
  proof (rule common_stage [where s = s and n = n, OF assms(1-3), where f = "\<lambda>a b. (col_sql_type b, col_nullable a)" and
        g = "\<lambda>a b. column_entry b"])
    fix a b assume "a \<in> set (tbl_columns l)" "b \<in> set (tbl_columns d)" "col_name a = col_name b"
    then have "table_columns l (col_name a) = Some (column_entry a)"
      "table_columns d (col_name a) = Some (column_entry b)"
      using table_columns_Some [OF ok(1), of a] table_columns_Some [OF ok(2), of b] by auto
    then show "with_types (table_columns l) (table_columns d) (col_name a) = Some (col_sql_type b, col_nullable a) \<and>
        with_nullability (table_columns l) (table_columns d) (col_name a) = Some (column_entry b)"
      by (simp add: with_types_def with_nullability_def column_entry_def)
  next
    fix x assume "x \<notin> col_name ` set (tbl_columns l) \<or> x \<notin> col_name ` set (tbl_columns d)"
    then have "table_columns l x = None \<or> table_columns d x = None"
      by (simp only: table_columns_None [OF ok(1)] table_columns_None [OF ok(2)])
    then show "with_types (table_columns l) (table_columns d) x = with_nullability (table_columns l) (table_columns d) x"
      by (rule stages_agree(2))
  next
    fix a b and s' :: schema and cols
    assume ab: "a \<in> set (tbl_columns l)" "b \<in> set (tbl_columns d)" "col_name a = col_name b"
      and s': "s' n = Some (cols, pk)" "cols (col_name a) = Some (col_sql_type b, col_nullable a)"
    have "cols(col_name a \<mapsto> (col_sql_type b, col_nullable a)) = cols" "s'(n \<mapsto> (cols, pk)) = s'"
      using s' by (simp_all add: fun_upd_idem)
    moreover have "col_name a \<notin> set pk" if "col_nullable a \<noteq> col_nullable b"
    proof
      assume "col_name a \<in> set pk"
      with ab assms(1,3) have "\<not> col_nullable a" "\<not> col_nullable b"
        by (auto simp: planned_pair_def keys_not_null_def)
      with that show False by simp
    qed
    ultimately show "apply_ops (?h (a, b)) s' = Some (s'(n \<mapsto> (cols(col_name a \<mapsto> column_entry b), pk)))"
      using s' by (cases "col_nullable b") (auto simp: column_entry_def change_column_def)
  qed
  with assms(4) show ?thesis by (simp add: nullability_ops_def)
qed

lemma removals_stage:
  assumes "planned_pair l d" "s n = Some (with_nullability (table_columns l) (table_columns d), pk)"
    and "pk = tbl_primary_key l" "bmap_get n desired = Some d"
  shows "apply_ops (removal_ops desired (n, l)) s = Some (s(n \<mapsto> (table_columns d, pk)))"
proof -
  have ok: "table_ok l" "table_ok d" using assms(1) by (simp_all add: planned_pair_def)
  let ?cs = "sort_by (\<lambda>left right. column_order right left)
    (filter (\<lambda>c. bmap_get (col_name c) (columns_by_name d) = None) (tbl_columns l))"
  have mem: "c \<in> set ?cs \<longleftrightarrow> c \<in> set (tbl_columns l) \<and> col_name c \<notin> col_name ` set (tbl_columns d)" for c
    by (auto simp: columns_by_name_None [OF ok(2)])
  have gone: "table_columns d (col_name c) = None" "c \<in> set (tbl_columns l)"
      "col_name c \<notin> col_name ` set (tbl_columns d)" if "c \<in> set ?cs" for c
    using that table_columns_None [OF ok(2)] unfolding mem by blast+
  have "\<exists>cols'. apply_ops (concat (map (\<lambda>c. [DropColumn n c]) ?cs)) s = Some (s(n \<mapsto> (cols', pk))) \<and>
    (\<forall>c\<in>set ?cs. cols' (col_name c) = None) \<and>
    (\<forall>x. x \<notin> col_name ` set ?cs \<longrightarrow> cols' x = with_nullability (table_columns l) (table_columns d) x)"
  proof (rule apply_columns [where a = "\<lambda>c. Some (column_entry c)"])
    show "distinct (map col_name ?cs)" using ok(1) by (simp add: table_ok_def distinct_map_filter)
    show "\<forall>c\<in>set ?cs. with_nullability (table_columns l) (table_columns d) (col_name c) = Some (column_entry c)"
    proof
      fix c assume "c \<in> set ?cs"
      from gone(1,2) [OF this] table_columns_Some [OF ok(1)]
      show "with_nullability (table_columns l) (table_columns d) (col_name c) = Some (column_entry c)"
        by (simp add: with_nullability_def)
    qed
    fix c and s' :: schema and cols
    assume c: "c \<in> set ?cs" "s' n = Some (cols, pk)" "cols (col_name c) = Some (column_entry c)"
    have "col_name c \<notin> set pk"
      using gone(3) [OF c(1)] key_column_shared(2) [OF assms(1)] assms(3) by blast
    with c(2,3) show "apply_ops [DropColumn n c] s' = Some (s'(n \<mapsto> (cols(col_name c := None), pk)))"
      by (simp add: change_column_def)
  qed (rule assms(2))
  then obtain cols' where cols': "apply_ops (concat (map (\<lambda>c. [DropColumn n c]) ?cs)) s = Some (s(n \<mapsto> (cols', pk)))"
    "\<forall>c\<in>set ?cs. cols' (col_name c) = None"
    "\<forall>x. x \<notin> col_name ` set ?cs \<longrightarrow> cols' x = with_nullability (table_columns l) (table_columns d) x" by blast
  have "cols' x = table_columns d x" for x
  proof (cases "x \<in> col_name ` set ?cs")
    case True
    then obtain c where "c \<in> set ?cs" "x = col_name c" by blast
    with gone(1) cols'(2) show ?thesis by simp
  next
    case False
    then have "table_columns d x \<noteq> None \<or> table_columns l x = None"
      unfolding table_columns_None [OF ok(1)] table_columns_None [OF ok(2)] using mem by blast
    moreover have "cols' x = with_nullability (table_columns l) (table_columns d) x"
      using False cols'(3) by blast
    ultimately show ?thesis by (cases "table_columns d x") (simp_all add: with_nullability_def)
  qed
  then have "cols' = table_columns d" by blast
  with cols'(1) assms(4) show ?thesis by (simp add: removal_ops_def)
qed

section \<open>The whole plan\<close>

text \<open>
  Two schemas the planner can relate: well formed, key columns not null. The second condition is
  PostgreSQL's for the live schema; a desired schema with a nullable key column is not excluded by
  the planner, and its operations are then refused by the database.
\<close>

definition migratable :: "tables \<Rightarrow> tables \<Rightarrow> bool" where
  "migratable live desired \<longleftrightarrow> tables_ok live \<and> tables_ok desired \<and>
     (\<forall>(n, t) \<in> set live. keys_not_null t) \<and> (\<forall>(n, t) \<in> set desired. keys_not_null t)"

definition between :: "(columns \<Rightarrow> columns \<Rightarrow> columns) \<Rightarrow> tables \<Rightarrow> tables \<Rightarrow> schema" where
  "between f live desired n =
     (case (bmap_get n live, bmap_get n desired) of
        (Some l, Some d) \<Rightarrow> Some (f (table_columns l) (table_columns d), tbl_primary_key l)
      | (Some l, None) \<Rightarrow> Some (abs_table l)
      | (None, Some d) \<Rightarrow> Some (abs_table d)
      | (None, None) \<Rightarrow> None)"

lemma tables_ok_get:
  assumes "tables_ok m"
  shows "bmap_get n m = Some t \<longleftrightarrow> (n, t) \<in> set m" "distinct (map fst m)"
    "bmap_get n m = Some t \<Longrightarrow> table_ok t \<and> tbl_name t = n"
  using assms by (auto simp: tables_ok_def bmap_get_entries bmap_ok_distinct)

lemma tables_ok_None:
  "tables_ok m \<Longrightarrow> bmap_get n m = None \<longleftrightarrow> n \<notin> fst ` set m"
  using tables_ok_get(1) [of m n] by (cases "bmap_get n m") (auto simp: image_iff, force)

lemma primary_keys_kept:
  assumes "reject_primary_key_changes live desired = Inr ()" "(n, l) \<in> set live" "bmap_get n desired = Some d"
  shows "tbl_primary_key l = tbl_primary_key d"
proof -
  let ?check = "\<lambda>(name, live_table) (_::unit).
       case bmap_get name desired of
         None \<Rightarrow> Inr ()
       | Some desired_table \<Rightarrow>
           if tbl_primary_key live_table \<noteq> tbl_primary_key desired_table
           then Inl (diff_error ''changing an existing table primary key is unsupported'' (table_subject name))
           else (case find (\<lambda>column. bmap_get column (columns_by_name desired_table) = None)
               (tbl_primary_key live_table) of
             Some column \<Rightarrow> Inl (diff_error
               ''dropping a primary-key column from a retained table is unsupported''
               (column_subject name column))
           | None \<Rightarrow> Inr ())"
  have "?check (n, l) () = Inr ()" if "try_fold ?check xs () = Inr ()" "(n, l) \<in> set xs" for xs
    using that
  proof (induction xs)
    case (Cons x xs)
    then have "?check x () = Inr ()" "try_fold ?check xs () = Inr ()"
      unfolding try_fold.simps and_then_eq_Inr by auto
    with Cons show ?case by auto
  qed simp
  from this [OF assms(1) [unfolded reject_primary_key_changes_def] assms(2)] assms(3)
  show ?thesis by (simp split: if_splits)
qed

lemma migratable_pair:
  assumes "migratable live desired" "reject_primary_key_changes live desired = Inr ()"
    and "bmap_get n live = Some l" "bmap_get n desired = Some d"
  shows "planned_pair l d"
proof -
  have ok: "tables_ok live" "tables_ok desired" using assms(1) by (simp_all add: migratable_def)
  then have "(n, l) \<in> set live" "(n, d) \<in> set desired" using assms(3,4) by (simp_all add: tables_ok_get)
  with assms ok show ?thesis
    using primary_keys_kept [OF assms(2) _ assms(4)] tables_ok_get(3) [OF ok(1) assms(3)]
      tables_ok_get(3) [OF ok(2) assms(4)]
    by (auto simp: planned_pair_def migratable_def)
qed

lemma create_stage:
  assumes "tables_ok live" "tables_ok desired"
  shows "apply_ops (concat (map (create_ops live) desired)) (abs_schema live) =
    Some (between (\<lambda>l d. l) live desired)"
proof -
  have "apply_ops (concat (map (create_ops live) desired)) (abs_schema live) =
      Some (\<lambda>n. if n \<in> fst ` set desired then between (\<lambda>l d. l) live desired n else abs_schema live n)"
  proof (rule apply_tables [OF tables_ok_get(2) [OF assms(2)], where A = "abs_schema live"])
    fix x and s :: schema assume x: "x \<in> set desired" "s (fst x) = abs_schema live (fst x)"
    obtain n d where nd: "x = (n, d)" by fastforce
    with x(1) have d: "bmap_get n desired = Some d" "tbl_name d = n"
      using assms(2) by (simp add: tables_ok_get, force simp: tables_ok_def)
    with x(2) nd show "apply_ops (create_ops live x) s = Some (s(fst x := between (\<lambda>l d. l) live desired (fst x)))"
      by (cases "bmap_get n live")
        (simp_all add: create_ops_def between_def abs_schema_def abs_table_def fun_upd_idem)
  qed simp
  moreover have "(\<lambda>n. if n \<in> fst ` set desired then between (\<lambda>l d. l) live desired n else abs_schema live n) =
      between (\<lambda>l d. l) live desired"
  proof
    fix n
    show "(if n \<in> fst ` set desired then between (\<lambda>l d. l) live desired n else abs_schema live n) =
        between (\<lambda>l d. l) live desired n"
      using tables_ok_None [OF assms(2), of n]
      by (cases "bmap_get n desired"; cases "bmap_get n live")
        (simp_all add: between_def abs_schema_def abs_table_def)
  qed
  ultimately show ?thesis by simp
qed

text \<open>A stage over the tables of one side changes those that both sides have.\<close>

lemma shared_stage:
  assumes "tables_ok m" "fst ` set m \<supseteq> {n. bmap_get n live \<noteq> None \<and> bmap_get n desired \<noteq> None}"
    and "\<And>n t l d s. (n, t) \<in> set m \<Longrightarrow> bmap_get n live = Some l \<Longrightarrow> bmap_get n desired = Some d \<Longrightarrow>
      s n = Some (f (table_columns l) (table_columns d), tbl_primary_key l) \<Longrightarrow>
      apply_ops (ops (n, t)) s = Some (s(n \<mapsto> (g (table_columns l) (table_columns d), tbl_primary_key l)))"
    and "\<And>n t. (n, t) \<in> set m \<Longrightarrow> bmap_get n live = None \<or> bmap_get n desired = None \<Longrightarrow> ops (n, t) = []"
  shows "apply_ops (concat (map ops m)) (between f live desired) = Some (between g live desired)"
proof -
  have "apply_ops (concat (map ops m)) (between f live desired) =
      Some (\<lambda>n. if n \<in> fst ` set m then between g live desired n else between f live desired n)"
  proof (rule apply_tables [OF tables_ok_get(2) [OF assms(1)], where A = "between f live desired"])
    fix x and s :: schema assume x: "x \<in> set m" "s (fst x) = between f live desired (fst x)"
    obtain n t where nt: "x = (n, t)" by fastforce
    show "apply_ops (ops x) s = Some (s(fst x := between g live desired (fst x)))"
    proof (cases "bmap_get n live = None \<or> bmap_get n desired = None")
      case True
      then have "between g live desired n = between f live desired n"
        by (auto simp: between_def split: option.splits)
      with x nt assms(4) [of n t] True show ?thesis by (simp add: fun_upd_idem)
    next
      case False
      then obtain l d where "bmap_get n live = Some l" "bmap_get n desired = Some d" by auto
      with x nt assms(3) [of n t l d s] show ?thesis by (simp add: between_def)
    qed
  qed simp
  moreover have "(\<lambda>n. if n \<in> fst ` set m then between g live desired n else between f live desired n) =
      between g live desired"
  proof
    fix n
    show "(if n \<in> fst ` set m then between g live desired n else between f live desired n) = between g live desired n"
      using assms(2) by (auto simp: between_def split: option.splits)
  qed
  ultimately show ?thesis by simp
qed

lemma drop_stage:
  assumes "distinct names" "list_all2 (\<lambda>n t. bmap_get n live = Some t) names ts" "tables_ok live"
    and "\<forall>n\<in>set names. s n = abs_schema live n"
  shows "apply_ops (map DropTable ts) s = Some (\<lambda>n. if n \<in> set names then None else s n)"
  using assms(2,1,4)
proof (induction arbitrary: s rule: list_all2_induct)
  case (Cons n names t ts)
  have t: "tbl_name t = n" using tables_ok_get(3) [OF assms(3) Cons.hyps(1)] by blast
  have "apply_op (DropTable t) s = Some (s(n := None))"
    using Cons.prems(2) Cons.hyps(1) by (simp add: t abs_schema_def)
  moreover have "apply_ops (map DropTable ts) (s(n := None)) =
      Some (\<lambda>k. if k \<in> set names then None else (s(n := None)) k)"
    by (rule Cons.IH) (use Cons.prems in auto)
  moreover have "(\<lambda>k. if k \<in> set names then None else (s(n := None)) k) =
      (\<lambda>k. if k \<in> set (n # names) then None else s k)" by auto
  ultimately show ?case by simp
qed simp

end
