(* ===== verification/Db_Drop_Order.thy ===== *)
theory Db_Drop_Order
  imports Db_Diff
begin

text \<open>
  The order in which the planner drops tables (\<open>order_dropped_tables\<close> of
  \<open>crates/mads-cli/src/database/diff.rs\<close>): a table is dropped once every table whose foreign key
  references it has been. The invariant \<open>drop_inv\<close> relates the counters and the ready set to the
  tables already ordered; the routine never panics, its fuel suffices, and it fails exactly when the
  foreign keys among the dropped tables have a cycle.
\<close>

type_synonym drop_edge = "qualified_table_name \<times> qualified_table_name"

text \<open>The tables that can be dropped next: those referenced only by tables dropped before.\<close>

definition droppable :: "drop_edge list \<Rightarrow> qualified_table_name set \<Rightarrow> qualified_table_name set \<Rightarrow> qualified_table_name set" where
  "droppable edges dropped done =
     {n \<in> dropped. n \<notin> done \<and> (\<forall>c. (c, n) \<in> set edges \<longrightarrow> c \<in> done)}"

definition children_first :: "drop_edge list \<Rightarrow> qualified_table_name set \<Rightarrow> qualified_table_name list \<Rightarrow> bool" where
  "children_first edges dropped ordered \<longleftrightarrow>
     (\<forall>i < length ordered. ordered ! i \<in> droppable edges dropped (set (take i ordered)) \<and>
        (\<forall>n \<in> droppable edges dropped (set (take i ordered)). ordered ! i \<le> n))"

definition open_children :: "drop_edge list \<Rightarrow> qualified_table_name set \<Rightarrow> qualified_table_name \<Rightarrow> nat" where
  "open_children edges done n = length (filter (\<lambda>(c, p). p = n \<and> c \<notin> done) edges)"

lemma open_children_0: "open_children edges done n = 0 \<longleftrightarrow> (\<forall>c. (c, n) \<in> set edges \<longrightarrow> c \<in> done)"
  by (auto simp: open_children_def filter_empty_conv)

lemma open_children_insert:
  assumes "distinct edges" "m \<notin> done"
  shows "open_children edges done n =
    open_children edges (insert m done) n + (if (m, n) \<in> set edges then 1 else 0)"
  using assms(1)
proof (induction edges)
  case (Cons e es)
  obtain c p where e: "e = (c, p)" by fastforce
  have unfold: "open_children (e # es) D n = (if p = n \<and> c \<notin> D then 1 else 0) + open_children es D n" for D
    by (simp add: open_children_def e)
  have "(m, n) \<notin> set es" if "(c, p) = (m, n)" using Cons.prems that by (auto simp: e)
  with Cons.IH Cons.prems assms(2) show ?case unfolding unfold by (simp add: e)
qed (simp add: open_children_def)

section \<open>Counting\<close>

definition parents :: "parents_of \<Rightarrow> qualified_table_name \<Rightarrow> qualified_table_name list" where
  "parents outgoing n = (case bmap_get n outgoing of Some ps \<Rightarrow> ps | None \<Rightarrow> [])"

definition incoming_ok :: "qualified_table_name list \<Rightarrow> (qualified_table_name \<Rightarrow> nat) \<Rightarrow> counts \<Rightarrow> bool" where
  "incoming_ok dropped f incoming \<longleftrightarrow>
     bmap_ok incoming \<and> (\<forall>n. bmap_get n incoming = (if n \<in> set dropped then Some (f n) else None))"

lemma incoming_ok_get: "incoming_ok dropped f incoming \<Longrightarrow> n \<in> set dropped \<Longrightarrow> bmap_get n incoming = Some (f n)"
  by (simp add: incoming_ok_def)

lemma incoming_ok_insert:
  "incoming_ok dropped f incoming \<Longrightarrow> n \<in> set dropped \<Longrightarrow> incoming_ok dropped (f(n := k)) (bmap_insert n k incoming)"
  by (auto simp: incoming_ok_def bmap_get_insert bmap_ok_insert)

lemma incoming_ok_start: "bset_ok dropped \<Longrightarrow> incoming_ok dropped (\<lambda>_. 0) (map (\<lambda>n. (n, 0)) dropped)"
proof -
  assume "bset_ok dropped"
  then have ok: "bmap_ok (map (\<lambda>n. (n, 0 :: nat)) dropped)" by (simp add: bset_ok_def bmap_ok_def comp_def)
  have "bmap_get n (map (\<lambda>n. (n, 0 :: nat)) dropped) = (if n \<in> set dropped then Some 0 else None)" for n
    unfolding bmap_get_def by (induction dropped) auto
  with ok show ?thesis by (simp add: incoming_ok_def)
qed

lemma count_edges_correct:
  assumes "bset_ok dropped" "\<forall>(c, p) \<in> set edges. p \<in> set dropped"
  shows "\<exists>outgoing incoming. try_fold count_drop_edge edges ([], map (\<lambda>n. (n, 0)) dropped) = Inr (outgoing, incoming) \<and>
    incoming_ok dropped (open_children edges {}) incoming \<and>
    (\<forall>c. parents outgoing c = map snd (filter (\<lambda>(c', p). c' = c) edges))"
proof -
  let ?I = "\<lambda>ys (outgoing, incoming). bmap_ok outgoing \<and> incoming_ok dropped (open_children ys {}) incoming \<and>
    (\<forall>c. parents outgoing c = map snd (filter (\<lambda>(c', p). c' = c) ys))"
  have "\<exists>s. try_fold count_drop_edge edges ([], map (\<lambda>n. (n, 0)) dropped) = Inr s \<and> ?I edges s"
  proof (rule try_fold_invariant)
    have "open_children [] {} = (\<lambda>_. 0)" by (auto simp: open_children_def)
    then show "?I [] ([], map (\<lambda>n. (n, 0)) dropped)"
      using incoming_ok_start [OF assms(1)] by (simp add: parents_def bmap_get_def bmap_ok_def)
  next
    fix ys e zs and s :: "parents_of \<times> counts" assume e: "edges = ys @ e # zs" "?I ys s"
    obtain c p out inc where cp: "e = (c, p)" and s: "s = (out, inc)" by fastforce
    have p: "p \<in> set dropped" using assms(2) e(1) cp by auto
    let ?inc = "bmap_insert p (Suc (open_children ys {} p)) inc"
    let ?out = "bmap_update c [] (\<lambda>ps. ps @ [p]) out"
    have "count_drop_edge e s = Inr (?out, ?inc)"
      using incoming_ok_get [OF _ p, of "open_children ys {}" inc] e(2) by (simp add: cp s count_drop_edge_def)
    moreover have "open_children (ys @ [e]) {} = (open_children ys {})(p := Suc (open_children ys {} p))"
      by (auto simp: open_children_def cp)
    then have "incoming_ok dropped (open_children (ys @ [e]) {}) ?inc"
      using e(2) p by (simp add: s incoming_ok_insert)
    moreover have "parents ?out c' = map snd (filter (\<lambda>(c'', p). c'' = c') (ys @ [e]))" for c'
    proof -
      have "parents out c' = map snd (filter (\<lambda>(c'', p). c'' = c') ys)" "bmap_ok out" using e(2) by (simp_all add: s)
      then show ?thesis by (auto simp: parents_def bmap_update_get cp)
    qed
    ultimately show "\<exists>s'. count_drop_edge e s = Inr s' \<and> ?I (ys @ [e]) s'"
      using e(2) by (simp add: s bmap_update_ok)
  qed
  then show ?thesis by auto
qed

section \<open>Releasing\<close>

lemma release_parents:
  assumes "incoming_ok dropped f incoming" "bset_ok ready" "distinct ps"
    and "\<forall>p\<in>set ps. p \<in> set dropped \<and> f p \<noteq> 0"
  shows "\<exists>incoming' ready'. try_fold release_parent ps (incoming, ready) = Inr (incoming', ready') \<and>
    incoming_ok dropped (\<lambda>n. if n \<in> set ps then f n - 1 else f n) incoming' \<and> bset_ok ready' \<and>
    set ready' = set ready \<union> {p \<in> set ps. f p = 1}"
proof -
  let ?I = "\<lambda>ys (incoming', ready'). incoming_ok dropped (\<lambda>n. if n \<in> set ys then f n - 1 else f n) incoming' \<and>
    bset_ok ready' \<and> set ready' = set ready \<union> {p \<in> set ys. f p = 1}"
  have "\<exists>s. try_fold release_parent ps (incoming, ready) = Inr s \<and> ?I ps s"
  proof (rule try_fold_invariant)
    show "?I [] (incoming, ready)" using assms by simp
  next
    fix ys p zs and s :: "counts \<times> qualified_table_name btree_set"
    assume p: "ps = ys @ p # zs" "?I ys s"
    obtain inc q where s: "s = (inc, q)" by fastforce
    have mem: "p \<in> set dropped" "f p \<noteq> 0" "p \<notin> set ys" using assms(3,4) p(1) by auto
    then have "bmap_get p inc = Some (f p)"
      using p(2) incoming_ok_get [OF _ mem(1), of "\<lambda>n. if n \<in> set ys then f n - 1 else f n" inc] by (simp add: s)
    then have step: "release_parent p s =
        Inr (bmap_insert p (f p - 1) inc, if f p - 1 = 0 then bset_insert p q else q)"
      using mem(2) by (simp add: s release_parent_def)
    have "(\<lambda>n. if n \<in> set (ys @ [p]) then f n - 1 else f n) =
        (\<lambda>n. if n \<in> set ys then f n - 1 else f n)(p := f p - 1)" by auto
    moreover have "incoming_ok dropped ((\<lambda>n. if n \<in> set ys then f n - 1 else f n)(p := f p - 1))
        (bmap_insert p (f p - 1) inc)"
      using p(2) mem(1) by (intro incoming_ok_insert) (simp_all add: s)
    ultimately have "incoming_ok dropped (\<lambda>n. if n \<in> set (ys @ [p]) then f n - 1 else f n)
        (bmap_insert p (f p - 1) inc)" by simp
    moreover have "set (if f p - 1 = 0 then bset_insert p q else q) = set ready \<union> {n \<in> set (ys @ [p]). f n = 1}"
    proof -
      have "set q = set ready \<union> {n \<in> set ys. f n = 1}" using p(2) by (simp add: s)
      then show ?thesis using mem(2) by (cases "f p = 1") auto
    qed
    ultimately show "\<exists>s'. release_parent p s = Inr s' \<and> ?I (ys @ [p]) s'"
      using step p(2) by (simp add: s bset_ok_insert)
  qed
  then show ?thesis by auto
qed

section \<open>The loop\<close>

definition drop_inv ::
    "drop_edge list \<Rightarrow> qualified_table_name list \<Rightarrow> counts \<Rightarrow> qualified_table_name btree_set \<Rightarrow>
     qualified_table_name list \<Rightarrow> bool" where
  "drop_inv edges dropped incoming ready ordered \<longleftrightarrow>
     incoming_ok dropped (open_children edges (set ordered)) incoming \<and>
     bset_ok ready \<and> set ready = droppable edges (set dropped) (set ordered) \<and>
     distinct ordered \<and> set ordered \<subseteq> set dropped \<and> children_first edges (set dropped) ordered"

lemma children_first_closed:
  assumes "children_first edges dropped ordered" "n \<in> set ordered" "(c, n) \<in> set edges"
  shows "c \<in> set ordered"
proof -
  obtain i where i: "i < length ordered" "ordered ! i = n" using assms(2) by (auto simp: in_set_conv_nth)
  then have "c \<in> set (take i ordered)" using assms(1,3) by (auto simp: children_first_def droppable_def)
  then show ?thesis by (rule in_set_takeD)
qed

lemma children_first_snoc:
  "children_first edges dropped (ordered @ [n]) \<longleftrightarrow> children_first edges dropped ordered \<and>
     n \<in> droppable edges dropped (set ordered) \<and> (\<forall>m \<in> droppable edges dropped (set ordered). n \<le> m)"
  by (auto simp: children_first_def nth_append less_Suc_eq)

lemma drop_round:
  assumes edges: "distinct edges" "\<forall>(c, p) \<in> set edges. c \<in> set dropped \<and> p \<in> set dropped"
    and inv: "drop_inv edges dropped incoming (n # ready) ordered"
  shows "\<exists>incoming' ready'.
    try_fold release_parent (map snd (filter (\<lambda>(c, p). c = n) edges)) (incoming, ready) = Inr (incoming', ready') \<and>
    drop_inv edges dropped incoming' ready' (ordered @ [n])"
proof -
  let ?ps = "map snd (filter (\<lambda>(c, p). c = n) edges)"
  let ?f = "open_children edges (set ordered)"
  have n: "n \<in> set dropped" "n \<notin> set ordered" "n \<in> droppable edges (set dropped) (set ordered)"
    using inv by (auto simp: drop_inv_def droppable_def)
  have mem: "p \<in> set ?ps \<longleftrightarrow> (n, p) \<in> set edges" for p by force
  have "inj_on snd (set (filter (\<lambda>(c, p). c = n) edges))" by (rule inj_onI) (simp add: prod_eq_iff split_beta)
  then have "distinct ?ps" using edges(1) by (simp add: distinct_map)
  moreover have "\<forall>p\<in>set ?ps. p \<in> set dropped \<and> ?f p \<noteq> 0"
  proof
    fix p assume "p \<in> set ?ps"
    then have "(n, p) \<in> set edges" unfolding mem .
    then show "p \<in> set dropped \<and> ?f p \<noteq> 0" using edges(2) n(2) open_children_0 by blast
  qed
  moreover have ready: "bset_ok ready" "set ready = droppable edges (set dropped) (set ordered) - {n}"
  proof -
    have ok: "bset_ok (n # ready)" using inv by (simp add: drop_inv_def)
    then show "bset_ok ready" by (simp add: bset_ok_def)
    show "set ready = droppable edges (set dropped) (set ordered) - {n}"
      using inv bset_ok_distinct [OF ok] by (auto simp: drop_inv_def)
  qed
  ultimately obtain incoming' ready' where rel:
    "try_fold release_parent ?ps (incoming, ready) = Inr (incoming', ready')"
    "incoming_ok dropped (\<lambda>m. if m \<in> set ?ps then ?f m - 1 else ?f m) incoming'"
    "bset_ok ready'" "set ready' = set ready \<union> {p \<in> set ?ps. ?f p = 1}"
    using release_parents [of dropped ?f incoming ready ?ps] inv unfolding drop_inv_def by blast
  have f: "open_children edges (set (ordered @ [n])) m = (if m \<in> set ?ps then ?f m - 1 else ?f m)" for m
    using open_children_insert [OF edges(1) n(2), of m] mem [of m] by simp
  then have "incoming_ok dropped (open_children edges (set (ordered @ [n]))) incoming'"
    using rel(2) by presburger
  moreover have "set ready' = droppable edges (set dropped) (set (ordered @ [n]))"
  proof (intro set_eqI iffI)
    fix m assume "m \<in> set ready'"
    then consider "m \<in> droppable edges (set dropped) (set ordered)" "m \<noteq> n" | "m \<in> set ?ps" "?f m = 1"
      unfolding rel(4) ready(2) by blast
    then show "m \<in> droppable edges (set dropped) (set (ordered @ [n]))"
    proof cases
      case 1
      then show ?thesis by (auto simp: droppable_def)
    next
      case 2
      then have e: "(n, m) \<in> set edges" using mem by blast
      have "open_children edges (set (ordered @ [n])) m = 0" using f 2 by simp
      then have "\<forall>c. (c, m) \<in> set edges \<longrightarrow> c \<in> set (ordered @ [n])" unfolding open_children_0 .
      moreover have "m \<notin> set ordered"
        using children_first_closed [OF _ _ e] n(2) inv by (auto simp: drop_inv_def)
      moreover have "m \<noteq> n" using e n(2,3) by (auto simp: droppable_def)
      ultimately show ?thesis using e edges(2) by (auto simp: droppable_def)
    qed
  next
    fix m assume m: "m \<in> droppable edges (set dropped) (set (ordered @ [n]))"
    then have "open_children edges (set (ordered @ [n])) m = 0"
      unfolding open_children_0 by (auto simp: droppable_def)
    then have "?f m = (if m \<in> set ?ps then 1 else 0)"
      using open_children_insert [OF edges(1) n(2), of m] mem [of m] by simp
    then show "m \<in> set ready'"
      using m unfolding rel(4) ready(2) droppable_def
      by (auto simp: open_children_0 split: if_splits)
  qed
  moreover have "\<forall>m \<in> droppable edges (set dropped) (set ordered). n \<le> m"
    using bset.pop_min [of "n # ready" n ready] inv by (auto simp: drop_inv_def)
  then have "children_first edges (set dropped) (ordered @ [n])"
    using inv n(3) by (simp add: children_first_snoc drop_inv_def)
  ultimately have "drop_inv edges dropped incoming' ready' (ordered @ [n])"
    using inv rel(3) n unfolding drop_inv_def by simp
  with rel(1) show ?thesis by blast
qed

lemma drop_run:
  assumes "distinct edges" "\<forall>(c, p) \<in> set edges. c \<in> set dropped \<and> p \<in> set dropped" "distinct dropped"
    and "\<forall>c. parents outgoing c = map snd (filter (\<lambda>(c', p). c' = c) edges)"
    and "drop_inv edges dropped incoming ready ordered" "length dropped \<le> fuel + length ordered"
  shows "\<exists>incoming' ordered'. drop_loop fuel outgoing incoming ready ordered = Inr ordered' \<and>
    drop_inv edges dropped incoming' [] ordered'"
  using assms(5,6)
proof (induction fuel arbitrary: incoming ready ordered)
  case 0
  then have "distinct ordered" "set ordered \<subseteq> set dropped" by (simp_all add: drop_inv_def)
  moreover have "card (set ordered) \<ge> card (set dropped)"
    using 0(2) assms(3) \<open>distinct ordered\<close> by (simp add: distinct_card)
  ultimately have "set ordered = set dropped" by (simp add: card_seteq)
  then have "set ready = {}" using 0(1) by (auto simp: drop_inv_def droppable_def)
  then have "ready = []" by simp
  with 0 show ?case by auto
next
  case (Suc fuel)
  show ?case
  proof (cases ready)
    case Nil
    with Suc.prems show ?thesis by auto
  next
    case (Cons n rest)
    obtain incoming' ready' where round:
      "try_fold release_parent (map snd (filter (\<lambda>(c, p). c = n) edges)) (incoming, rest) = Inr (incoming', ready')"
      "drop_inv edges dropped incoming' ready' (ordered @ [n])"
      using drop_round [OF assms(1,2) Suc.prems(1) [unfolded Cons]] by blast
    have "drop_loop (Suc fuel) outgoing incoming ready ordered =
        drop_loop fuel outgoing incoming' ready' (ordered @ [n])"
      using round(1) assms(4) by (simp add: Cons parents_def)
    with Suc.IH [OF round(2)] Suc.prems(2) show ?thesis by simp
  qed
qed

section \<open>Cycles\<close>

text \<open>A complete order with the children first orders the edges by its indices.\<close>

lemma children_first_acyclic:
  assumes "children_first edges dropped ordered" "distinct ordered" "\<forall>(c, p) \<in> set edges. p \<in> set ordered"
  shows "acyclic (set edges)"
proof -
  let ?index = "\<lambda>n. length (takeWhile (\<lambda>m. m \<noteq> n) ordered)"
  have "?index c < ?index p" if "(c, p) \<in> set edges" for c p
  proof -
    have "p \<in> set ordered" using assms(3) that by blast
    then obtain i where i: "i < length ordered" "ordered ! i = p" by (auto simp: in_set_conv_nth)
    with assms(1) that have "c \<in> set (take i ordered)" by (auto simp: children_first_def droppable_def)
    then obtain k where k: "k < i" "ordered ! k = c" by (auto simp: in_set_conv_nth)
    have "?index (ordered ! j) = j" if "j < length ordered" for j
    proof -
      have "takeWhile (\<lambda>m. m \<noteq> ordered ! j) ordered = take j ordered"
        by (rule takeWhile_eq_take_P_nth) (use that assms(2) in \<open>auto simp: nth_eq_iff_index_eq\<close>)
      with that show ?thesis by simp
    qed
    from this [of i] this [of k] i k show ?thesis by auto
  qed
  then have "set edges \<subseteq> measure ?index" by auto
  then show ?thesis by (rule wf_acyclic [OF wf_subset [OF wf_measure]])
qed

lemma complete_iff_no_cycle:
  assumes "drop_inv edges dropped incoming [] ordered" "\<forall>(c, p) \<in> set edges. c \<in> set dropped \<and> p \<in> set dropped"
  shows "set ordered = set dropped \<longleftrightarrow> acyclic (set edges)"
proof
  assume "set ordered = set dropped"
  with assms show "acyclic (set edges)"
    by (intro children_first_acyclic [of edges "set dropped" ordered]) (auto simp: drop_inv_def)
next
  assume ac: "acyclic (set edges)"
  have "\<exists>c\<in>set dropped - set ordered. (n, c) \<in> (set edges)\<inverse>" if "n \<in> set dropped - set ordered" for n
    using that assms by (fastforce simp: drop_inv_def droppable_def)
  then have "set dropped - set ordered = {}"
    using ac by (intro acyclic_remaining_empty [of "(set edges)\<inverse>"]) simp_all
  with assms(1) show "set ordered = set dropped" by (auto simp: drop_inv_def)
qed

section \<open>The order\<close>

lemma drop_edges_ok:
  "distinct (drop_edges dropped fks)"
  "\<forall>(c, p) \<in> set (drop_edges dropped fks). c \<in> set dropped \<and> p \<in> set dropped"
  by (auto simp: drop_edges_def bset_ok_distinct)

definition foreign_key_cycle :: cli_failure where
  "foreign_key_cycle =
     CliFailed (diff_error ''foreign-key cycle among dropped tables is unsupported'' ''dropped tables'')"

lemma drop_order_correct:
  assumes "bset_ok dropped"
  shows "if acyclic (set (drop_edges dropped fks))
    then \<exists>ordered. order_dropped_tables dropped fks = Inr ordered \<and> distinct ordered \<and>
      set ordered = set dropped \<and> children_first (drop_edges dropped fks) (set dropped) ordered
    else order_dropped_tables dropped fks = Inl foreign_key_cycle"
proof -
  let ?E = "drop_edges dropped fks"
  note E = drop_edges_ok [of dropped fks]
  have dist: "distinct dropped" using assms by (rule bset_ok_distinct)
  have "\<forall>(c, p) \<in> set ?E. p \<in> set dropped" using E(2) by blast
  from count_edges_correct [OF assms this]
  obtain outgoing incoming where count:
    "try_fold count_drop_edge ?E ([], map (\<lambda>n. (n, 0)) dropped) = Inr (outgoing, incoming)"
    "incoming_ok dropped (open_children ?E {}) incoming"
    "\<forall>c. parents outgoing c = map snd (filter (\<lambda>(c', p). c' = c) ?E)" by blast
  let ?ready = "bset_of_list (map fst (filter (\<lambda>(_, count). count = 0) incoming))"
  have entry: "(n, k) \<in> set incoming \<longleftrightarrow> n \<in> set dropped \<and> k = open_children ?E {} n" for n k
    using bmap_get_entries [of incoming n k] count(2)
    by (cases "n \<in> set dropped") (auto simp: incoming_ok_def)
  have "set ?ready = {n. (n, 0) \<in> set incoming}" by (force simp: image_iff)
  also have "\<dots> = droppable ?E (set dropped) (set [])"
    using open_children_0 [of ?E "{}"] by (auto simp: entry droppable_def)
  finally have "drop_inv ?E dropped incoming ?ready []"
    using count(2) by (simp add: drop_inv_def children_first_def)
  from drop_run [OF E dist count(3) this, of "length dropped"]
  obtain incoming' ordered where run: "drop_loop (length dropped) outgoing incoming ?ready [] = Inr ordered"
    "drop_inv ?E dropped incoming' [] ordered" by auto
  have order: "order_dropped_tables dropped fks =
      (if length ordered \<noteq> length dropped then Inl foreign_key_cycle else Inr ordered)"
    using count(1) run(1) by (simp add: order_dropped_tables_def foreign_key_cycle_def)
  have ord: "distinct ordered" "set ordered \<subseteq> set dropped" "children_first ?E (set dropped) ordered"
    using run(2) by (simp_all add: drop_inv_def)
  have "length ordered = length dropped \<longleftrightarrow> set ordered = set dropped"
    using ord(1,2) dist by (metis card_subset_eq distinct_card finite_set)
  with complete_iff_no_cycle [OF run(2) E(2)] order ord show ?thesis by auto
qed

end
