(* ===== verification/Db_Plan.thy ===== *)
theory Db_Plan
  imports Db_Drop_Order
begin

text \<open>
  The migration plan as a whole (\<open>plan_tables\<close> of \<open>crates/mads-cli/src/database/diff.rs\<close>): the
  stages of \<open>Db_Diff\<close> and the drop order of \<open>Db_Drop_Order\<close> put together. The plan turns the live
  schema into the desired one and its inverse turns it back; the error of the drop order is
  characterised, and a table that references itself is a case of it.
\<close>

lemma dropped_tables_ok [simp]: "bset_ok (dropped_tables live desired)"
  by (simp add: dropped_tables_def)

lemma set_dropped_tables:
  assumes "tables_ok live"
  shows "n \<in> set (dropped_tables live desired) \<longleftrightarrow> bmap_get n live \<noteq> None \<and> bmap_get n desired = None"
  using tables_ok_None [OF assms, of n] by (auto simp: dropped_tables_def bmap_keys_def)

lemma ordered_tables:
  assumes "order_dropped_tables (dropped_tables live desired) fks = Inr names"
  shows "distinct names" "set names = set (dropped_tables live desired)"
  using drop_order_correct [OF dropped_tables_ok, of live desired fks] assms
  by (auto split: if_splits)

text \<open>From the last stage on, a table that both sides have is the desired one.\<close>

lemma between_desired:
  assumes "reject_primary_key_changes live desired = Inr ()" "tables_ok live"
    and "set names = set (dropped_tables live desired)"
  shows "(\<lambda>n. if n \<in> set names then None else between (\<lambda>l d. d) live desired n) = abs_schema desired"
proof
  fix n
  show "(if n \<in> set names then None else between (\<lambda>l d. d) live desired n) = abs_schema desired n"
  proof (cases "bmap_get n desired")
    case None
    then show ?thesis
      unfolding assms(3) set_dropped_tables [OF assms(2)]
      by (cases "bmap_get n live") (simp_all add: between_def abs_schema_def)
  next
    case (Some d)
    have "tbl_primary_key l = tbl_primary_key d" if "bmap_get n live = Some l" for l
      using primary_keys_kept [OF assms(1) _ Some] that assms(2) by (simp add: tables_ok_get)
    with Some show ?thesis
      unfolding assms(3) set_dropped_tables [OF assms(2)]
      by (cases "bmap_get n live") (simp_all add: between_def abs_schema_def abs_table_def)
  qed
qed

lemma stages_correct:
  assumes ok: "migratable live desired" and pk: "reject_primary_key_changes live desired = Inr ()"
  shows "apply_ops (concat (map (addition_ops live) desired)) (between (\<lambda>l d. l) live desired) =
      Some (between with_added live desired)"
    and "apply_ops (concat (map (type_ops desired) live)) (between with_added live desired) =
      Some (between with_types live desired)"
    and "apply_ops (concat (map (nullability_ops desired) live)) (between with_types live desired) =
      Some (between with_nullability live desired)"
    and "apply_ops (concat (map (removal_ops desired) live)) (between with_nullability live desired) =
      Some (between (\<lambda>l d. d) live desired)"
proof -
  have t: "tables_ok live" "tables_ok desired" using ok by (simp_all add: migratable_def)
  note pair = migratable_pair [OF ok pk]
  have shared: "fst ` set desired \<supseteq> {n. bmap_get n live \<noteq> None \<and> bmap_get n desired \<noteq> None}"
      "fst ` set live \<supseteq> {n. bmap_get n live \<noteq> None \<and> bmap_get n desired \<noteq> None}"
    by (auto simp: tables_ok_None [OF t(1)] tables_ok_None [OF t(2)])
  have live: "bmap_get n live = Some l \<Longrightarrow> (n, l') \<in> set live \<Longrightarrow> l' = l" for n l l'
    using tables_ok_get(1) [OF t(1), of n l'] by simp
  have desired: "bmap_get n desired = Some d \<Longrightarrow> (n, d') \<in> set desired \<Longrightarrow> d' = d" for n d d'
    using tables_ok_get(1) [OF t(2), of n d'] by simp
  have mem: "(n, l) \<in> set live \<Longrightarrow> bmap_get n live \<noteq> None" "(n, d) \<in> set desired \<Longrightarrow> bmap_get n desired \<noteq> None" for n l d
    using tables_ok_get(1) [OF t(1), of n l] tables_ok_get(1) [OF t(2), of n d] by simp_all
  show "apply_ops (concat (map (addition_ops live) desired)) (between (\<lambda>l d. l) live desired) =
      Some (between with_added live desired)"
  proof (rule shared_stage [OF t(2) shared(1)])
    fix n t l d and s :: schema
    assume "(n, t) \<in> set desired" "bmap_get n live = Some l" "bmap_get n desired = Some d"
      "s n = Some (table_columns l, tbl_primary_key l)"
    then show "apply_ops (addition_ops live (n, t)) s =
        Some (s(n \<mapsto> (with_added (table_columns l) (table_columns d), tbl_primary_key l)))"
      using additions_stage [where s = s and n = n, OF pair _ refl] desired by metis
  next
    fix n t assume "(n, t) \<in> set desired" "bmap_get n live = None \<or> bmap_get n desired = None"
    then show "addition_ops live (n, t) = []" using mem(2) by (auto simp: addition_ops_def)
  qed
  show "apply_ops (concat (map (type_ops desired) live)) (between with_added live desired) =
      Some (between with_types live desired)"
  proof (rule shared_stage [OF t(1) shared(2)])
    fix n t l d and s :: schema
    assume "(n, t) \<in> set live" "bmap_get n live = Some l" "bmap_get n desired = Some d"
      "s n = Some (with_added (table_columns l) (table_columns d), tbl_primary_key l)"
    then show "apply_ops (type_ops desired (n, t)) s =
        Some (s(n \<mapsto> (with_types (table_columns l) (table_columns d), tbl_primary_key l)))"
      using types_stage [where s = s and n = n, OF pair _ refl] live by metis
  next
    fix n t assume "(n, t) \<in> set live" "bmap_get n live = None \<or> bmap_get n desired = None"
    then show "type_ops desired (n, t) = []" using mem(1) by (auto simp: type_ops_def)
  qed
  show "apply_ops (concat (map (nullability_ops desired) live)) (between with_types live desired) =
      Some (between with_nullability live desired)"
  proof (rule shared_stage [OF t(1) shared(2)])
    fix n t l d and s :: schema
    assume "(n, t) \<in> set live" "bmap_get n live = Some l" "bmap_get n desired = Some d"
      "s n = Some (with_types (table_columns l) (table_columns d), tbl_primary_key l)"
    then show "apply_ops (nullability_ops desired (n, t)) s =
        Some (s(n \<mapsto> (with_nullability (table_columns l) (table_columns d), tbl_primary_key l)))"
      using nullability_stage [where s = s and n = n, OF pair _ refl] live by metis
  next
    fix n t assume "(n, t) \<in> set live" "bmap_get n live = None \<or> bmap_get n desired = None"
    then show "nullability_ops desired (n, t) = []" using mem(1) by (auto simp: nullability_ops_def)
  qed
  show "apply_ops (concat (map (removal_ops desired) live)) (between with_nullability live desired) =
      Some (between (\<lambda>l d. d) live desired)"
  proof (rule shared_stage [OF t(1) shared(2)])
    fix n t l d and s :: schema
    assume "(n, t) \<in> set live" "bmap_get n live = Some l" "bmap_get n desired = Some d"
      "s n = Some (with_nullability (table_columns l) (table_columns d), tbl_primary_key l)"
    then show "apply_ops (removal_ops desired (n, t)) s = Some (s(n \<mapsto> (table_columns d, tbl_primary_key l)))"
      using removals_stage [where s = s and n = n, OF pair _ refl] live by metis
  next
    fix n t assume "(n, t) \<in> set live" "bmap_get n live = None \<or> bmap_get n desired = None"
    then show "removal_ops desired (n, t) = []" using mem(1) by (auto simp: removal_ops_def)
  qed
qed

lemma plan_correct:
  assumes "migratable live desired" "plan_tables live unsupported fks desired = Inr plan"
  shows "apply_ops (mp_up plan) (abs_schema live) = Some (abs_schema desired)"
    and "apply_ops (mp_down plan) (abs_schema desired) = Some (abs_schema live)"
proof -
  have ok: "tables_ok live" "tables_ok desired" using assms(1) by (simp_all add: migratable_def)
  obtain names ts where pk: "reject_primary_key_changes live desired = Inr ()"
    and order: "order_dropped_tables (dropped_tables live desired) fks = Inr names"
    and ts: "list_all2 (\<lambda>n t. bmap_get n live = Some t) names ts"
    and up: "mp_up plan = concat (map (create_ops live) desired) @ concat (map (addition_ops live) desired) @
      concat (map (type_ops desired) live) @ concat (map (nullability_ops desired) live) @
      concat (map (removal_ops desired) live) @ map DropTable ts"
    and down: "mp_down plan = map inverse_op (rev (mp_up plan))"
    using plan_tables_up [OF assms(2)] by blast
  note names = ordered_tables [OF order]
  have "\<forall>n\<in>set names. between (\<lambda>l d. d) live desired n = abs_schema live n"
    unfolding names(2) Ball_def set_dropped_tables [OF ok(1)] by (auto simp: between_def abs_schema_def)
  from drop_stage [OF names(1) ts ok(1) this]
  have "apply_ops (map DropTable ts) (between (\<lambda>l d. d) live desired) = Some (abs_schema desired)"
    unfolding between_desired [OF pk ok(1) names(2)] .
  then show up_ok: "apply_ops (mp_up plan) (abs_schema live) = Some (abs_schema desired)"
    unfolding up by (simp add: create_stage [OF ok] stages_correct [OF assms(1) pk])
  show "apply_ops (mp_down plan) (abs_schema desired) = Some (abs_schema live)"
    unfolding down by (rule inverse_ops_correct [OF up_ok])
qed

section \<open>Nothing to do\<close>

text \<open>Schemas that agree need no operation.\<close>

lemma abs_schema_eq:
  assumes "abs_schema live = abs_schema desired"
  shows "bmap_get n live = None \<longleftrightarrow> bmap_get n desired = None"
    and "bmap_get n live = Some l \<Longrightarrow> bmap_get n desired = Some d \<Longrightarrow> table_columns l = table_columns d"
  using fun_cong [OF assms, of n]
  by (cases "bmap_get n live"; cases "bmap_get n desired"; simp add: abs_schema_def abs_table_def)+

lemma equal_columns:
  assumes "table_ok l" "table_ok d" "table_columns l = table_columns d"
  shows "col_name ` set (tbl_columns l) = col_name ` set (tbl_columns d)"
    and "(a, b) \<in> set (common_columns l d) \<Longrightarrow> column_entry a = column_entry b"
proof -
  have "x \<in> col_name ` set (tbl_columns l) \<longleftrightarrow> x \<in> col_name ` set (tbl_columns d)" for x
    using table_columns_None [OF assms(1), of x] table_columns_None [OF assms(2), of x] assms(3) by simp
  then show "col_name ` set (tbl_columns l) = col_name ` set (tbl_columns d)" by blast
  assume "(a, b) \<in> set (common_columns l d)"
  then have "a \<in> set (tbl_columns l)" "b \<in> set (tbl_columns d)" "col_name a = col_name b"
    by (simp_all add: common_columns_set [OF assms(1,2)])
  with table_columns_Some [OF assms(1), of a] table_columns_Some [OF assms(2), of b] assms(3)
  show "column_entry a = column_entry b" by simp
qed

lemma equal_tables_no_ops:
  assumes "tables_ok live" "tables_ok desired" "abs_schema live = abs_schema desired"
  shows "(n, t) \<in> set desired \<Longrightarrow> create_ops live (n, t) = []"
    and "(n, t) \<in> set desired \<Longrightarrow> addition_ops live (n, t) = []"
    and "(n, t) \<in> set live \<Longrightarrow> type_ops desired (n, t) = []"
    and "(n, t) \<in> set live \<Longrightarrow> nullability_ops desired (n, t) = []"
    and "(n, t) \<in> set live \<Longrightarrow> removal_ops desired (n, t) = []"
proof -
  have shared: "table_ok l \<and> table_ok d \<and> table_columns l = table_columns d"
    if "bmap_get n live = Some l" "bmap_get n desired = Some d" for l d
    using tables_ok_get(3) [OF assms(1) that(1)] tables_ok_get(3) [OF assms(2) that(2)]
      abs_schema_eq(2) [OF assms(3) that] by blast
  have l: "bmap_get n live = Some t \<and> (\<exists>d. bmap_get n desired = Some d)" if "(n, t) \<in> set live"
    using that tables_ok_get(1) [OF assms(1), of n t] abs_schema_eq(1) [OF assms(3), of n] by auto
  have d: "bmap_get n desired = Some t \<and> (\<exists>l. bmap_get n live = Some l)" if "(n, t) \<in> set desired"
    using that tables_ok_get(1) [OF assms(2), of n t] abs_schema_eq(1) [OF assms(3), of n] by auto
  show "(n, t) \<in> set desired \<Longrightarrow> create_ops live (n, t) = []" using d by (auto simp: create_ops_def)
  show "addition_ops live (n, t) = []" if mem: "(n, t) \<in> set desired"
  proof -
    obtain lt where b: "bmap_get n live = Some lt" "bmap_get n desired = Some t" using d [OF mem] by blast
    with shared [OF b] equal_columns(1) [of lt t]
    have "filter (\<lambda>c. bmap_get (col_name c) (columns_by_name lt) = None) (tbl_columns t) = []"
      by (simp add: columns_by_name_None filter_empty_conv)
    with b(1) show ?thesis by (simp add: addition_ops_def)
  qed
  show "removal_ops desired (n, t) = []" if mem: "(n, t) \<in> set live"
  proof -
    obtain dt where b: "bmap_get n live = Some t" "bmap_get n desired = Some dt" using l [OF mem] by blast
    with shared [OF b] equal_columns(1) [of t dt]
    have "filter (\<lambda>c. bmap_get (col_name c) (columns_by_name dt) = None) (tbl_columns t) = []"
      by (auto simp: columns_by_name_None filter_empty_conv)
    with b(2) show ?thesis by (simp add: removal_ops_def)
  qed
  have pairs: "\<exists>dt. bmap_get n desired = Some dt \<and>
      (\<forall>a b. (a, b) \<in> set (common_columns t dt) \<longrightarrow> column_entry a = column_entry b)" if "(n, t) \<in> set live"
    using l [OF that] shared equal_columns(2) by meson
  show "type_ops desired (n, t) = []" "nullability_ops desired (n, t) = []" if "(n, t) \<in> set live"
    using pairs [OF that] by (auto simp: type_ops_def nullability_ops_def column_entry_def)
qed

lemma plan_empty_iff:
  assumes "migratable live desired" "plan_tables live unsupported fks desired = Inr plan"
  shows "plan_is_empty plan \<longleftrightarrow> abs_schema live = abs_schema desired"
proof
  assume "plan_is_empty plan"
  with plan_correct(1) [OF assms] show "abs_schema live = abs_schema desired"
    by (simp add: plan_is_empty_def)
next
  assume eq: "abs_schema live = abs_schema desired"
  have ok: "tables_ok live" "tables_ok desired" using assms(1) by (simp_all add: migratable_def)
  obtain names ts where
    order: "order_dropped_tables (dropped_tables live desired) fks = Inr names"
    and ts: "list_all2 (\<lambda>n t. bmap_get n live = Some t) names ts"
    and up: "mp_up plan = concat (map (create_ops live) desired) @ concat (map (addition_ops live) desired) @
      concat (map (type_ops desired) live) @ concat (map (nullability_ops desired) live) @
      concat (map (removal_ops desired) live) @ map DropTable ts"
    using plan_tables_up [OF assms(2)] by blast
  have "n \<notin> set names" for n
    using abs_schema_eq(1) [OF eq, of n]
    unfolding ordered_tables(2) [OF order] set_dropped_tables [OF ok(1)] by argo
  then have "names = []" by (cases names) auto
  then have "ts = []" using ts by simp
  with up equal_tables_no_ops [OF ok eq] show "plan_is_empty plan"
    unfolding plan_is_empty_def by (simp add: split_paired_all)
qed

section \<open>Claims\<close>

text \<open>
  C21: A migration plan is right in both directions. For well-formed schemas whose key columns are
  not null, the operations of a plan all apply to the live schema, one after the other, and give
  exactly the tables, column types, nullability and keys of the desired one; the down operations
  all apply to the result and give back the live schema; and the plan has no operation exactly when
  the two schemas agree.
\<close>

theorem migration_exact:
  assumes "migratable live desired" "plan_tables live unsupported fks desired = Inr plan"
  shows "apply_ops (mp_up plan) (abs_schema live) = Some (abs_schema desired) \<and>
    apply_ops (mp_down plan) (abs_schema desired) = Some (abs_schema live) \<and>
    (plan_is_empty plan \<longleftrightarrow> abs_schema live = abs_schema desired)"
  using plan_correct [OF assms] plan_empty_iff [OF assms] by blast

definition sample_table :: "string \<Rightarrow> (string \<times> pg_type \<times> bool) list \<Rightarrow> table_schema" where
  "sample_table name columns = \<lparr>tbl_name = QualifiedTableName ''public'' name,
     tbl_columns = map (\<lambda>(c, ty, nullable). \<lparr>col_name = c, col_sql_type = ty, col_nullable = nullable,
       col_ordinal = 1\<rparr>) columns,
     tbl_primary_key = [''id'']\<rparr>"

definition sample_live :: tables where
  "sample_live = map (\<lambda>t. (tbl_name t, t))
     [sample_table ''orders'' [(''id'', PgInteger, False)],
      sample_table ''users'' [(''id'', PgInteger, False), (''age'', PgInteger, True), (''old'', PgText, True)]]"

definition sample_desired :: tables where
  "sample_desired = map (\<lambda>t. (tbl_name t, t))
     [sample_table ''teams'' [(''id'', PgInteger, False)],
      sample_table ''users'' [(''id'', PgInteger, False), (''age'', PgBigInt, False), (''email'', PgText, True)]]"

definition sample_keys :: "(string \<times> string) list \<Rightarrow> foreign_key_dependency list" where
  "sample_keys = map (\<lambda>(c, p). \<lparr>fk_name = ''fk'', fk_child = QualifiedTableName ''public'' c,
     fk_parent = QualifiedTableName ''public'' p\<rparr>)"

theorem migration_exact_witness:
  "\<exists>plan. plan_tables sample_live [] (sample_keys [(''orders'', ''users'')]) sample_desired = Inr plan \<and>
    length (mp_up plan) = 6 \<and>
    apply_ops (mp_up plan) (abs_schema sample_live) = Some (abs_schema sample_desired) \<and>
    apply_ops (mp_down plan) (abs_schema sample_desired) = Some (abs_schema sample_live)"
proof -
  have "case plan_tables sample_live [] (sample_keys [(''orders'', ''users'')]) sample_desired of
      Inl _ \<Rightarrow> False | Inr plan \<Rightarrow> length (mp_up plan) = 6" by code_simp
  then obtain plan where plan:
    "plan_tables sample_live [] (sample_keys [(''orders'', ''users'')]) sample_desired = Inr plan"
    "length (mp_up plan) = 6" by (auto split: sum.splits)
  have "migratable sample_live sample_desired" by code_simp
  from migration_exact [OF this plan(1)] plan show ?thesis by blast
qed

text \<open>
  C22: The order in which tables are dropped is exact. The routine never panics and its loop ends;
  when the foreign keys among the dropped tables have no cycle it returns every dropped table once,
  each after all tables that reference it and, among those that could come next, the least; with a
  cycle it is the MADS212 error.
\<close>

theorem drop_order_exact:
  assumes "bset_ok dropped"
  shows "if acyclic (set (drop_edges dropped fks))
    then \<exists>ordered. order_dropped_tables dropped fks = Inr ordered \<and> distinct ordered \<and>
      set ordered = set dropped \<and> children_first (drop_edges dropped fks) (set dropped) ordered
    else order_dropped_tables dropped fks = Inl foreign_key_cycle"
  using assms by (rule drop_order_correct)

definition sample_dropped :: "string list \<Rightarrow> qualified_table_name list" where
  "sample_dropped = map (QualifiedTableName ''public'')"

theorem drop_order_exact_witness:
  "order_dropped_tables (sample_dropped [''a'', ''b'', ''c'']) (sample_keys [(''b'', ''a''), (''c'', ''b'')]) =
      Inr (sample_dropped [''c'', ''b'', ''a'']) \<and>
    (\<exists>ordered. order_dropped_tables (sample_dropped [''a'', ''b'', ''c''])
        (sample_keys [(''b'', ''a''), (''c'', ''b'')]) = Inr ordered \<and> distinct ordered \<and>
      set ordered = set (sample_dropped [''a'', ''b'', ''c'']) \<and>
      children_first (drop_edges (sample_dropped [''a'', ''b'', ''c'']) (sample_keys [(''b'', ''a''), (''c'', ''b'')]))
        (set (sample_dropped [''a'', ''b'', ''c''])) ordered)"
proof -
  let ?d = "sample_dropped [''a'', ''b'', ''c'']"
  let ?k = "sample_keys [(''b'', ''a''), (''c'', ''b'')]"
  have run: "order_dropped_tables ?d ?k = Inr (sample_dropped [''c'', ''b'', ''a''])" by code_simp
  have "bset_ok ?d" by code_simp
  from drop_order_exact [OF this, of ?k] run
  show ?thesis unfolding foreign_key_cycle_def by (cases "acyclic (set (drop_edges ?d ?k))") auto
qed

text \<open>
  C23: A table with a foreign key to itself cannot be dropped: whatever else is dropped with it, the
  planner reports a foreign-key cycle.
\<close>

theorem self_reference_not_dropped:
  assumes "bset_ok dropped" "n \<in> set dropped"
    and "\<lparr>fk_name = name, fk_child = n, fk_parent = n\<rparr> \<in> set fks"
  shows "order_dropped_tables dropped fks = Inl foreign_key_cycle"
proof -
  have "(n, n) \<in> set (drop_edges dropped fks)"
    using assms(2,3) by (force simp: drop_edges_def)
  then have "\<not> acyclic (set (drop_edges dropped fks))" by (meson acyclic_def r_into_trancl)
  with drop_order_correct [OF assms(1), of fks] show ?thesis by simp
qed

theorem self_reference_not_dropped_witness:
  "order_dropped_tables (sample_dropped [''nodes'']) (sample_keys [(''nodes'', ''nodes'')]) = Inl foreign_key_cycle"
  by (rule self_reference_not_dropped [where n = "QualifiedTableName ''public'' ''nodes''" and name = "''fk''"])
    (simp_all add: sample_dropped_def sample_keys_def bset_ok_def)

end
