(* ===== verification/Http_Text.thy ===== *)
theory Http_Text
  imports Diagnostics
begin

text \<open>
  What the HTTP adapter uses of Rust's strings and characters. Strings are the bytes of UTF-8 text,
  so a character outside ASCII is a sequence of bytes; UTF-8 is self-synchronising, so a text
  contains such a character exactly when it contains its bytes as a substring.
\<close>

section \<open>Characters\<close>

definition byte :: "char \<Rightarrow> int" where
  "byte c = of_char c"

definition is_ascii_lowercase :: "char \<Rightarrow> bool" where
  "is_ascii_lowercase c \<longleftrightarrow> 97 \<le> byte c \<and> byte c \<le> 122"

definition is_ascii_uppercase :: "char \<Rightarrow> bool" where
  "is_ascii_uppercase c \<longleftrightarrow> 65 \<le> byte c \<and> byte c \<le> 90"

definition is_ascii_digit :: "char \<Rightarrow> bool" where
  "is_ascii_digit c \<longleftrightarrow> 48 \<le> byte c \<and> byte c \<le> 57"

definition is_ascii_alphabetic :: "char \<Rightarrow> bool" where
  "is_ascii_alphabetic c \<longleftrightarrow> is_ascii_lowercase c \<or> is_ascii_uppercase c"

definition is_ascii_alphanumeric :: "char \<Rightarrow> bool" where
  "is_ascii_alphanumeric c \<longleftrightarrow> is_ascii_alphabetic c \<or> is_ascii_digit c"

definition is_ascii_hexdigit :: "char \<Rightarrow> bool" where
  "is_ascii_hexdigit c \<longleftrightarrow> is_ascii_digit c \<or> (65 \<le> byte c \<and> byte c \<le> 70) \<or> (97 \<le> byte c \<and> byte c \<le> 102)"

definition to_ascii_lowercase :: "char \<Rightarrow> char" where
  "to_ascii_lowercase c = (if is_ascii_uppercase c then char_of (byte c + 32) else c)"

definition eq_ignore_ascii_case :: "string \<Rightarrow> string \<Rightarrow> bool" where
  "eq_ignore_ascii_case a b \<longleftrightarrow> map to_ascii_lowercase a = map to_ascii_lowercase b"

lemmas ascii_defs = is_ascii_lowercase_def is_ascii_uppercase_def is_ascii_digit_def
  is_ascii_alphabetic_def is_ascii_alphanumeric_def is_ascii_hexdigit_def

text \<open>\<open>char::is_control\<close>: the control characters of ASCII, and U+0080 to U+009F.\<close>

fun has_wide_control :: "string \<Rightarrow> bool" where
  "has_wide_control (c # d # s) \<longleftrightarrow>
     (byte c = 194 \<and> 128 \<le> byte d \<and> byte d < 160) \<or> has_wide_control (d # s)"
| "has_wide_control _ = False"

definition has_control :: "string \<Rightarrow> bool" where
  "has_control s \<longleftrightarrow> list_ex (\<lambda>c. byte c < 32 \<or> byte c = 127) s \<or> has_wide_control s"

text \<open>\<open>char::is_whitespace\<close>: six of ASCII and the encodings of the others (Unicode White_Space).\<close>

definition is_ascii_space :: "char \<Rightarrow> bool" where
  "is_ascii_space c \<longleftrightarrow> (9 \<le> byte c \<and> byte c \<le> 13) \<or> byte c = 32"

fun is_wide_space :: "int list \<Rightarrow> bool" where
  "is_wide_space (a # b # s) \<longleftrightarrow>
     (a = 194 \<and> (b = 133 \<or> b = 160)) \<or>
     (case s of
        c # _ \<Rightarrow>
          (a = 225 \<and> b = 154 \<and> c = 128) \<or>
          (a = 226 \<and> b = 128 \<and> ((128 \<le> c \<and> c \<le> 138) \<or> c = 168 \<or> c = 169 \<or> c = 175)) \<or>
          (a = 226 \<and> b = 129 \<and> c = 159) \<or> (a = 227 \<and> b = 128 \<and> c = 128)
      | [] \<Rightarrow> False)"
| "is_wide_space _ = False"

fun has_wide_space :: "int list \<Rightarrow> bool" where
  "has_wide_space [] = False"
| "has_wide_space (c # s) \<longleftrightarrow> is_wide_space (c # s) \<or> has_wide_space s"

definition has_whitespace :: "string \<Rightarrow> bool" where
  "has_whitespace s \<longleftrightarrow> list_ex is_ascii_space s \<or> has_wide_space (map byte s)"

text \<open>\<open>split_whitespace\<close> and \<open>trim\<close> of texts whose only whitespace is ASCII, as header values are.\<close>

fun split_whitespace_from :: "string \<Rightarrow> string \<Rightarrow> string list" where
  "split_whitespace_from word [] = (if word = [] then [] else [word])"
| "split_whitespace_from word (c # cs) =
     (if is_ascii_space c
      then (if word = [] then [] else [word]) @ split_whitespace_from [] cs
      else split_whitespace_from (word @ [c]) cs)"

definition split_whitespace :: "string \<Rightarrow> string list" where
  "split_whitespace s = split_whitespace_from [] s"

definition trim :: "string \<Rightarrow> string" where
  "trim s = rev (dropWhile is_ascii_space (rev (dropWhile is_ascii_space s)))"

definition str_ends_with :: "string \<Rightarrow> string \<Rightarrow> bool" where
  "str_ends_with p s \<longleftrightarrow> strip_suffix p s \<noteq> None"

section \<open>Facts\<close>

lemma split_whitespace_from_word:
  "\<forall>c\<in>set s. \<not> is_ascii_space c \<Longrightarrow> split_whitespace_from w (s @ t) = split_whitespace_from (w @ s) t"
  by (induction s arbitrary: w) auto

lemma split_whitespace_spaces:
  "\<forall>c\<in>set s. is_ascii_space c \<Longrightarrow> split_whitespace_from [] (s @ t) = split_whitespace_from [] t"
  by (induction s) auto

text \<open>The words of a text have no whitespace and are not empty.\<close>

lemma split_whitespace_from_words:
  assumes "\<forall>c\<in>set word. \<not> is_ascii_space c" "w \<in> set (split_whitespace_from word s)"
  shows "w \<noteq> [] \<and> (\<forall>c\<in>set w. \<not> is_ascii_space c)"
  using assms
proof (induction word s rule: split_whitespace_from.induct)
  case (2 word c cs)
  show ?case
  proof (cases "is_ascii_space c")
    case True
    then have "w \<in> set (if word = [] then [] else [word]) \<or> w \<in> set (split_whitespace_from [] cs)"
      using "2.prems"(2) by simp
    then show ?thesis
    proof
      assume "w \<in> set (if word = [] then [] else [word])"
      then have "word \<noteq> []" "w = word" by (cases "word = []"; simp)+
      with "2.prems"(1) show ?thesis by blast
    next
      assume "w \<in> set (split_whitespace_from [] cs)"
      with "2.IH"(1) [OF True] show ?thesis by simp
    qed
  next
    case False
    with "2.prems"(1) have "\<forall>d\<in>set (word @ [c]). \<not> is_ascii_space d" by simp
    with "2.IH"(2) [OF False] "2.prems"(2) False show ?thesis by simp
  qed
qed (auto split: if_splits)

lemma split_whitespace_words:
  "w \<in> set (split_whitespace s) \<Longrightarrow> w \<noteq> [] \<and> (\<forall>c\<in>set w. \<not> is_ascii_space c)"
  using split_whitespace_from_words [of "[]" w s] by (simp add: split_whitespace_def)

text \<open>A text and its words have the same characters but for whitespace.\<close>

lemma split_whitespace_from_concat:
  "\<forall>c\<in>set word. \<not> is_ascii_space c \<Longrightarrow>
     concat (split_whitespace_from word s) = word @ filter (\<lambda>c. \<not> is_ascii_space c) s"
  by (induction word s rule: split_whitespace_from.induct) auto

lemma join_split_on: "join_with [c] (split_on c s) = s"
proof (induction s)
  case (Cons x s)
  obtain y ys where "split_on c s = y # ys" by (cases "split_on c s") auto
  with Cons show ?case by (cases ys) auto
qed simp

lemma split_on_pieces: "p \<in> set (split_on c s) \<Longrightarrow> c \<notin> set p"
proof (induction s arbitrary: p)
  case (Cons x s)
  obtain y ys where s: "split_on c s = y # ys" by (cases "split_on c s") auto
  from Cons.prems Cons.IH [of p] Cons.IH [of y] s show ?case by (auto split: if_splits)
qed simp

end
