(* ===== verification/Passport_Guard.thy ===== *)
theory Passport_Guard
  imports Http_Text
begin

text \<open>
  Static guard metadata of guarded routes (\<open>crates/mads-common/src/passport/guard.rs\<close>): the
  descriptors that route macros emit, their deterministic order and their validation before startup.

  A descriptor is a static item and is compared by its address, which is the field \<open>gd_address\<close>.
  Adapters and predicates are code of the application; a descriptor refers to them, and what they
  do is an argument of the request path.
\<close>

section \<open>Descriptors\<close>

datatype token_source = Bearer | CookieSource string

datatype policy_mode = AnyOf | AllOf

datatype policy_clause = PolicyClause (pc_mode: policy_mode) (pc_values: "string list")

type_synonym predicate_ref = nat
type_synonym adapter_ref = nat

datatype guard_predicate = GuardPredicate (gp_name: string) (gp_adapter: "predicate_ref option")

record guard_descriptor =
  gd_address :: nat
  gd_route_trait :: string
  gd_handler :: string
  gd_requirement_subject :: string
  gd_namespace :: "string option"
  gd_strategy :: string
  gd_principal_type_id :: "type_id option"
  gd_principal_type_name :: "string option"
  gd_source :: token_source
  gd_roles :: "policy_clause option"
  gd_permissions :: "policy_clause option"
  gd_predicates :: "guard_predicate list"
  gd_location :: source_location
  gd_builtin_adapter :: "adapter_ref option"

definition guard_descriptor_new ::
    "nat \<Rightarrow> string \<Rightarrow> string \<Rightarrow> string \<Rightarrow> type_id option \<Rightarrow> string option \<Rightarrow> token_source \<Rightarrow>
     policy_clause option \<Rightarrow> policy_clause option \<Rightarrow> guard_predicate list \<Rightarrow> source_location \<Rightarrow>
     adapter_ref option \<Rightarrow> guard_descriptor" where
  "guard_descriptor_new address route_trait handler strategy principal_type_id principal_type_name source
     roles permissions predicates location builtin_adapter =
     \<lparr>gd_address = address, gd_route_trait = route_trait, gd_handler = handler,
      gd_requirement_subject = ''manual Passport guard'', gd_namespace = None, gd_strategy = strategy,
      gd_principal_type_id = principal_type_id, gd_principal_type_name = principal_type_name,
      gd_source = source, gd_roles = roles, gd_permissions = permissions, gd_predicates = predicates,
      gd_location = location, gd_builtin_adapter = builtin_adapter\<rparr>"

definition with_requirement_subject :: "string \<Rightarrow> guard_descriptor \<Rightarrow> guard_descriptor" where
  "with_requirement_subject subject g = g\<lparr>gd_requirement_subject := subject\<rparr>"

definition guard_with_namespace :: "string \<Rightarrow> guard_descriptor \<Rightarrow> guard_descriptor" where
  "guard_with_namespace namespace g = g\<lparr>gd_namespace := Some namespace\<rparr>"

definition guard_order :: "guard_descriptor \<Rightarrow> guard_descriptor \<Rightarrow> ordering" where
  "guard_order left right =
     then_with (cmp (gd_route_trait left) (gd_route_trait right))
       (then_with (cmp (gd_handler left) (gd_handler right))
         (then_with (cmp (gd_namespace left) (gd_namespace right))
           (location_order (gd_location left) (gd_location right))))"

text \<open>The catalog: the linked descriptors in that order.\<close>

definition guard_cache :: "guard_descriptor list \<Rightarrow> guard_descriptor list" where
  "guard_cache registered = sort_by guard_order registered"

definition guard_key :: "guard_descriptor \<Rightarrow> string \<times> string \<times> string option \<times> string \<times> u32 \<times> u32" where
  "guard_key g = (gd_route_trait g, gd_handler g, gd_namespace g, location_key (gd_location g))"

lemma guard_order_cmp_on: "guard_order = cmp_on guard_key"
  by (simp add: fun_eq_iff guard_order_def cmp_on_def guard_key_def cmp_simps)

interpretation guards: comparator guard_order
  unfolding guard_order_cmp_on by (rule comparator_cmp_on)

section \<open>Validation\<close>

definition "MADS131 = DiagnosticCode ''MADS131''"

definition guard_metadata_error :: "string \<Rightarrow> string \<Rightarrow> source_location \<Rightarrow> error" where
  "guard_metadata_error subject message location =
     error_new (with_suggestion ''correct the guard metadata before starting the application''
       (with_location location (with_subject subject
         (diagnostic_new MADS131 ''invalid Passport guard metadata'' message))))"

lemma error_code_guard_metadata [simp]: "error_code (guard_metadata_error s m l) = Inr MADS131"
  by (simp add: guard_metadata_error_def diagnostic_builders)

definition guard_subject :: "guard_descriptor \<Rightarrow> string" where
  "guard_subject g = gd_route_trait g @ ''::'' @ gd_handler g"

definition valid_strategy_name :: "string \<Rightarrow> bool" where
  "valid_strategy_name s \<longleftrightarrow> s \<noteq> [] \<and>
     list_all (\<lambda>c. is_ascii_lowercase c \<or> is_ascii_digit c \<or> c \<in> set ''._-'') s"

text \<open>\<open>is_valid_cookie_name\<close> of \<open>cookie.rs\<close> is the same function.\<close>

definition valid_cookie_name :: "string \<Rightarrow> bool" where
  "valid_cookie_name s \<longleftrightarrow> s \<noteq> [] \<and>
     list_all (\<lambda>c. is_ascii_alphanumeric c \<or> c \<in> set ''!#$%&'' \<or> c = CHR 0x27 \<or> c \<in> set ''*+-.^_'' \<or>
       c = CHR 0x60 \<or> c \<in> set ''|~'') s"

definition valid_clause_values :: "string list \<Rightarrow> bool" where
  "valid_clause_values values \<longleftrightarrow> values \<noteq> [] \<and> \<not> list_ex (\<lambda>v. v = [] \<or> has_control v) values"

definition validate_guard :: "guard_descriptor \<Rightarrow> error + unit" where
  "validate_guard g =
     (let failed = (\<lambda>message. Inl (guard_metadata_error (guard_subject g) message (gd_location g))) in
      if gd_route_trait g = [] \<or> gd_handler g = []
      then failed ''route trait and handler names must be present''
      else if \<not> valid_strategy_name (gd_strategy g)
      then failed ''guard strategy name must be non-empty lowercase ASCII `[a-z0-9._-]`''
      else if gd_principal_type_id g = None \<or> gd_principal_type_name g \<in> {None, Some []}
      then failed ''guard principal type metadata must be present''
      else if (case gd_source g of CookieSource name \<Rightarrow> \<not> valid_cookie_name name | Bearer \<Rightarrow> False)
      then failed ''guard cookie token source must use a non-empty RFC cookie name''
      else and_then (try_fold (\<lambda>(label, clause) _.
            case clause of
              Some c \<Rightarrow>
                if valid_clause_values (pc_values c) then Inr ()
                else failed (''guard '' @ label @ '' policy must contain non-empty values'')
            | None \<Rightarrow> Inr ())
          [(''roles'', gd_roles g), (''permissions'', gd_permissions g)] ())
        (\<lambda>_.
         if list_ex (\<lambda>p. gp_name p = [] \<or> gp_adapter p = None) (gd_predicates g)
         then failed ''guard predicates must have a name and generated adapter''
         else if loc_file (gd_location g) = [] \<or> loc_line (gd_location g) = 0 \<or> loc_column (gd_location g) = 0
         then failed ''guard source file, line, and column must be present''
         else Inr ()))"

definition validate_guard_descriptors :: "guard_descriptor list \<Rightarrow> error + unit" where
  "validate_guard_descriptors gs = try_fold (\<lambda>g _. validate_guard g) gs ()"

section \<open>What a valid guard is\<close>

fun valid_clause :: "policy_clause option \<Rightarrow> bool" where
  "valid_clause None = True"
| "valid_clause (Some c) = valid_clause_values (pc_values c)"

definition guard_ok :: "guard_descriptor \<Rightarrow> bool" where
  "guard_ok g \<longleftrightarrow>
     gd_route_trait g \<noteq> [] \<and> gd_handler g \<noteq> [] \<and> valid_strategy_name (gd_strategy g) \<and>
     gd_principal_type_id g \<noteq> None \<and> (\<exists>n. gd_principal_type_name g = Some n \<and> n \<noteq> []) \<and>
     (\<forall>name. gd_source g = CookieSource name \<longrightarrow> valid_cookie_name name) \<and>
     valid_clause (gd_roles g) \<and> valid_clause (gd_permissions g) \<and>
     (\<forall>p\<in>set (gd_predicates g). gp_name p \<noteq> [] \<and> gp_adapter p \<noteq> None) \<and>
     loc_file (gd_location g) \<noteq> [] \<and> loc_line (gd_location g) \<noteq> 0 \<and> loc_column (gd_location g) \<noteq> 0"

lemma validate_guard_ok: "validate_guard g = Inr () \<longleftrightarrow> guard_ok g"
proof -
  have source: "(case gd_source g of CookieSource name \<Rightarrow> \<not> valid_cookie_name name | Bearer \<Rightarrow> False) \<longleftrightarrow>
      \<not> (\<forall>name. gd_source g = CookieSource name \<longrightarrow> valid_cookie_name name)"
    by (cases "gd_source g") auto
  show ?thesis
    unfolding validate_guard_def Let_def source guard_ok_def
    by (cases "gd_roles g"; cases "gd_permissions g"; cases "gd_principal_type_name g")
      (auto simp: list_ex_iff)
qed

lemma validate_guard_error: "validate_guard g = Inl e \<Longrightarrow> error_code e = Inr MADS131"
  unfolding validate_guard_def Let_def
  by (cases "gd_roles g"; cases "gd_permissions g") (auto split: if_splits)

lemma try_fold_units:
  fixes f :: "'a \<Rightarrow> error + unit"
  shows "try_fold (\<lambda>x _. f x) xs () = Inr () \<longleftrightarrow> (\<forall>x\<in>set xs. f x = Inr ())"
    and "try_fold (\<lambda>x _. f x) xs () = Inl e \<Longrightarrow> \<exists>x\<in>set xs. f x = Inl e"
  by (induction xs) (auto simp: and_then_eq_Inr and_then_eq_Inl)

lemma validate_descriptors_ok:
  "validate_guard_descriptors gs = Inr () \<longleftrightarrow> (\<forall>g\<in>set gs. guard_ok g)"
  unfolding validate_guard_descriptors_def try_fold_units(1) validate_guard_ok ..

lemma validate_descriptors_error:
  "validate_guard_descriptors gs = Inl e \<Longrightarrow> error_code e = Inr MADS131"
  unfolding validate_guard_descriptors_def using try_fold_units(2) validate_guard_error by blast

end
