(* ===== verification/Http_Route.thy ===== *)
theory Http_Route
  imports Passport_Guard BTree
begin

text \<open>
  Route metadata and its validation (\<open>crates/mads-common/src/route.rs\<close>): the descriptors that the
  macros link into the executable, the checks made before a router is built, and the translation of
  paths to those of the router.

  Type identifiers and references to generated code are numbers. A controller descriptor is a static
  item, known by its address. The features \<open>jwt\<close> and \<open>cookies\<close> are on, as in the default build of
  the tests.
\<close>

section \<open>Descriptors\<close>

datatype http_method = Get | Post | Put | Patch | Delete

fun method_rank :: "http_method \<Rightarrow> nat" where
  "method_rank Get = 0"
| "method_rank Post = 1"
| "method_rank Put = 2"
| "method_rank Patch = 3"
| "method_rank Delete = 4"

lemma method_rank_inject [simp]: "method_rank a = method_rank b \<longleftrightarrow> a = b"
  by (cases a; cases b) auto

instantiation http_method :: linorder
begin

definition less_eq_http_method :: "http_method \<Rightarrow> http_method \<Rightarrow> bool" where
  "less_eq_http_method a b \<longleftrightarrow> method_rank a \<le> method_rank b"

definition less_http_method :: "http_method \<Rightarrow> http_method \<Rightarrow> bool" where
  "less_http_method a b \<longleftrightarrow> method_rank a < method_rank b"

instance
  by standard (auto simp: less_eq_http_method_def less_http_method_def dest: antisym)

end

fun method_str :: "http_method \<Rightarrow> string" where
  "method_str Get = ''GET''"
| "method_str Post = ''POST''"
| "method_str Put = ''PUT''"
| "method_str Patch = ''PATCH''"
| "method_str Delete = ''DELETE''"

record route_descriptor =
  rt_method :: http_method
  rt_prefix :: string
  rt_path :: string
  rt_full_path :: string
  rt_handler :: string
  rt_namespace :: "string option"
  rt_location :: source_location
  rt_guard :: "guard_descriptor option"

definition route_descriptor_new ::
    "http_method \<Rightarrow> string \<Rightarrow> string \<Rightarrow> string \<Rightarrow> string \<Rightarrow> source_location \<Rightarrow> route_descriptor" where
  "route_descriptor_new method prefix path full_path handler location =
     \<lparr>rt_method = method, rt_prefix = prefix, rt_path = path, rt_full_path = full_path,
      rt_handler = handler, rt_namespace = None, rt_location = location, rt_guard = None\<rparr>"

definition route_with_namespace :: "string \<Rightarrow> route_descriptor \<Rightarrow> route_descriptor" where
  "route_with_namespace namespace r = r\<lparr>rt_namespace := Some namespace\<rparr>"

definition with_guard :: "guard_descriptor \<Rightarrow> route_descriptor \<Rightarrow> route_descriptor" where
  "with_guard g r = r\<lparr>rt_guard := Some g\<rparr>"

record route_contract =
  ct_trait_name :: string
  ct_routes :: "route_descriptor list"

type_synonym registrar_ref = nat

record controller_descriptor =
  cn_address :: nat
  cn_type_name :: string
  cn_type_id :: type_id
  cn_namespace :: "string option"
  cn_contracts :: "route_contract list"
  cn_registrar :: "registrar_ref option"

definition controller_new :: "nat \<Rightarrow> string \<Rightarrow> type_id \<Rightarrow> route_contract list \<Rightarrow> controller_descriptor" where
  "controller_new address type_name type_id contracts =
     \<lparr>cn_address = address, cn_type_name = type_name, cn_type_id = type_id, cn_namespace = None,
      cn_contracts = contracts, cn_registrar = None\<rparr>"

definition with_registrar ::
    "nat \<Rightarrow> string \<Rightarrow> type_id \<Rightarrow> route_contract list \<Rightarrow> registrar_ref \<Rightarrow> controller_descriptor" where
  "with_registrar address type_name type_id contracts registrar =
     \<lparr>cn_address = address, cn_type_name = type_name, cn_type_id = type_id, cn_namespace = None,
      cn_contracts = contracts, cn_registrar = Some registrar\<rparr>"

definition controller_with_namespace :: "string \<Rightarrow> controller_descriptor \<Rightarrow> controller_descriptor" where
  "controller_with_namespace namespace c = c\<lparr>cn_namespace := Some namespace\<rparr>"

definition routes_for_descriptor :: "controller_descriptor \<Rightarrow> route_descriptor list" where
  "routes_for_descriptor c = concat (map ct_routes (cn_contracts c))"

section \<open>Errors\<close>

definition metadata_diagnostic :: "string \<Rightarrow> string \<Rightarrow> source_location option \<Rightarrow> diagnostic" where
  "metadata_diagnostic subject message location =
     (let d = with_suggestion ''correct the route metadata before starting the HTTP runtime''
        (with_subject subject (diagnostic_new MADS030 ''invalid route metadata'' message)) in
      case location of Some l \<Rightarrow> with_location l d | None \<Rightarrow> d)"

definition route_metadata_error :: "string \<Rightarrow> string \<Rightarrow> source_location option \<Rightarrow> error" where
  "route_metadata_error subject message location = error_new (metadata_diagnostic subject message location)"

definition controller_location :: "controller_descriptor \<Rightarrow> source_location option" where
  "controller_location c =
     (case List.map_filter (\<lambda>contract. case ct_routes contract of r # _ \<Rightarrow> Some (rt_location r) | [] \<Rightarrow> None)
        (cn_contracts c) of
      l # _ \<Rightarrow> Some l | [] \<Rightarrow> None)"

definition duplicate_controller_identity ::
    "string \<Rightarrow> controller_descriptor \<Rightarrow> controller_descriptor \<Rightarrow> error" where
  "duplicate_controller_identity subject current previous =
     from_diagnostics
       (metadata_diagnostic subject
         (''`'' @ cn_type_name current @ ''` conflicts with previously registered controller `''
           @ cn_type_name previous @ ''`'') (controller_location current))
       [metadata_diagnostic ''first controller declaration''
         ''the conflicting controller was first declared here'' (controller_location previous)]"

definition conflicting_routes ::
    "string \<Rightarrow> route_descriptor \<Rightarrow> string \<Rightarrow> route_descriptor \<Rightarrow> string \<Rightarrow> error" where
  "conflicting_routes controller route previous_controller previous_route scope =
     (let subject = method_str (rt_method route) @ '' '' @ rt_full_path route in
      from_diagnostics
        (with_suggestion ''use a unique HTTP method and canonical path for each controller route''
          (with_location (rt_location route) (with_subject subject
            (diagnostic_new MADS030 ''conflicting routes''
              (subject @ '' is declared by both `'' @ previous_controller @ ''` and `'' @ controller
                @ ''` in `'' @ scope @ ''`'')))))
        [with_location (rt_location previous_route) (with_subject previous_controller
          (diagnostic_new MADS030 ''first route declaration''
            ''the conflicting route was first declared here''))])"

lemma metadata_code [simp]: "diag_code (metadata_diagnostic s m l) = MADS030"
  by (simp add: metadata_diagnostic_def diagnostic_builders Let_def split: option.splits)

lemma route_error_codes [simp]:
  "error_code (route_metadata_error s m l) = Inr MADS030"
  "error_code (duplicate_controller_identity s c p) = Inr MADS030"
  "error_code (conflicting_routes name r previous pr scope) = Inr MADS030"
  by (simp_all add: route_metadata_error_def duplicate_controller_identity_def conflicting_routes_def
      Let_def, simp_all add: diagnostic_builders)

section \<open>Paths\<close>

text \<open>One segment of a path; the state is the set of parameters seen.\<close>

definition validate_segment ::
    "string \<Rightarrow> source_location \<Rightarrow> string \<Rightarrow> string list \<Rightarrow> error + string list" where
  "validate_segment subject location segment parameters =
     (let failed = (\<lambda>message. Inl (route_metadata_error subject (subject @ message) (Some location))) in
      if segment = [] \<or> segment = ''.'' \<or> segment = ''..''
      then failed '' must not contain empty, `.` or `..` segments''
      else if starts_with ''*'' segment \<or> list_ex (\<lambda>c. c \<in> set ''{}'') segment
      then failed '' must not use Axum wildcard or brace-capture syntax; use `:parameter` captures''
      else case strip_prefix '':'' segment of
        Some parameter \<Rightarrow>
          (case parameter of
             [] \<Rightarrow> failed '' contains an empty parameter''
           | first # characters \<Rightarrow>
               if \<not> (first = CHR ''_'' \<or> is_ascii_alphabetic first) \<or>
                  \<not> list_all (\<lambda>c. c = CHR ''_'' \<or> is_ascii_alphanumeric c) characters
               then failed '' parameters must use `[A-Za-z_][A-Za-z0-9_]*`''
               else if parameter \<in> set parameters
               then failed ('' must not repeat parameter `:'' @ parameter @ ''`'')
               else Inr (parameter # parameters))
      | None \<Rightarrow>
          if CHR '':'' \<in> set segment
          then failed '' parameters must occupy an entire path segment''
          else Inr parameters)"

definition validate_path :: "string \<Rightarrow> bool \<Rightarrow> string \<Rightarrow> source_location \<Rightarrow> error + unit" where
  "validate_path v is_prefix subject location =
     (let failed = (\<lambda>message. Inl (route_metadata_error subject message (Some location))) in
      if is_prefix \<and> v = [] then Inr ()
      else if v = [] \<or> \<not> starts_with ''/'' v
      then failed (subject @ '' must be non-empty and start with `/`'')
      else if list_ex (\<lambda>c. c \<in> set ''?#'') v
      then failed (subject @ '' must not contain a query string or fragment'')
      else if has_control v
      then failed (subject @ '' must not contain control characters'')
      else if list_ex (\<lambda>c. c = CHR 0x5C \<or> c = CHR ''%'') v \<or> has_whitespace v
      then failed (subject @ '' must not contain backslashes, percent-encoding, or whitespace'')
      else if v \<noteq> ''/'' \<and> str_ends_with ''/'' v
      then failed (subject @ '' must not end with `/`; use `/` only for the root route'')
      else if v = ''/'' then Inr ()
      else and_then (try_fold (validate_segment subject location) (drop 1 (split_on CHR ''/'' v)) [])
        (\<lambda>_. if is_prefix \<and> CHR '':'' \<in> set v
             then failed ''route prefix must not contain parameters; declare them on the endpoint path''
             else Inr ()))"

definition canonical_join :: "string \<Rightarrow> string \<Rightarrow> string" where
  "canonical_join prefix path =
     (if prefix = [] \<or> prefix = ''/'' then path else if path = ''/'' then prefix else prefix @ path)"

definition validate_source_location :: "source_location \<Rightarrow> error + unit" where
  "validate_source_location l =
     (if loc_file l = [] \<or> loc_line l = 0 \<or> loc_column l = 0
      then Inl (route_metadata_error ''route source location''
        ''route source file, line, and column must be present'' None)
      else Inr ())"

definition validate_route :: "route_descriptor \<Rightarrow> error + unit" where
  "validate_route r =
     and_then (validate_path (rt_prefix r) True ''route prefix'' (rt_location r)) (\<lambda>_.
     and_then (validate_path (rt_path r) False ''route path'' (rt_location r)) (\<lambda>_.
     and_then (validate_path (rt_full_path r) False ''route full path'' (rt_location r)) (\<lambda>_.
     if canonical_join (rt_prefix r) (rt_path r) \<noteq> rt_full_path r
     then Inl (route_metadata_error (method_str (rt_method r) @ '' '' @ rt_full_path r)
       ''route full path does not match the canonical prefix and endpoint join'' (Some (rt_location r)))
     else validate_source_location (rt_location r))))"

definition canonical_segment :: "string \<Rightarrow> string" where
  "canonical_segment segment = (if starts_with '':'' segment then '':*'' else segment)"

definition canonical_pattern :: "string \<Rightarrow> string" where
  "canonical_pattern path = join_with ''/'' (map canonical_segment (split_on CHR ''/'' path))"

definition to_axum_segment :: "string \<Rightarrow> string" where
  "to_axum_segment segment =
     (case strip_prefix '':'' segment of Some parameter \<Rightarrow> ''{'' @ parameter @ ''}'' | None \<Rightarrow> segment)"

definition to_axum_path :: "string \<Rightarrow> string" where
  "to_axum_path path = join_with ''/'' (map to_axum_segment (split_on CHR ''/'' path))"

section \<open>Controllers\<close>

definition validate_controller_identity ::
    "controller_descriptor \<Rightarrow> controller_descriptor list \<Rightarrow> error + unit" where
  "validate_controller_identity controller previous =
     (if cn_type_name controller = []
      then Inl (route_metadata_error ''controller identity'' ''controller type name must not be empty''
        (controller_location controller))
      else try_fold (\<lambda>earlier _.
        if cn_type_id earlier = cn_type_id controller
        then Inl (duplicate_controller_identity ''controller type identifier'' controller earlier)
        else if cn_type_name earlier = cn_type_name controller
        then Inl (duplicate_controller_identity ''controller type name'' controller earlier)
        else Inr ()) previous ())"

definition validate_contract :: "controller_descriptor \<Rightarrow> error + unit" where
  "validate_contract controller =
     (let location = controller_location controller in
      if cn_contracts controller = []
      then Inl (route_metadata_error (cn_type_name controller)
        ''controller must declare at least one route contract'' location)
      else and_then (try_fold (\<lambda>contract names.
          if ct_trait_name contract = []
          then Inl (route_metadata_error (cn_type_name controller) ''route contract name must not be empty'' location)
          else if ct_routes contract = []
          then Inl (route_metadata_error (ct_trait_name contract)
            ''route contract must declare at least one active route'' location)
          else if ct_trait_name contract \<in> set names
          then Inl (route_metadata_error (ct_trait_name contract)
            ''controller contains a duplicate route contract descriptor'' location)
          else Inr (ct_trait_name contract # names)) (cn_contracts controller) [])
        (\<lambda>_. Inr ()))"

definition controller_sort_key ::
    "controller_descriptor \<Rightarrow> string \<times> string option \<times> string \<times> u32 \<times> u32" where
  "controller_sort_key c =
     (let l = (case controller_location c of Some l \<Rightarrow> l | None \<Rightarrow> SourceLocation [] 0 0) in
      (cn_type_name c, cn_namespace c, loc_file l, loc_line l, loc_column l))"

section \<open>Validation of the application\<close>

record route_selection =
  rs_selected :: bool
  rs_passport_context_module :: "type_id option"

definition selection_all :: route_selection where
  "selection_all = \<lparr>rs_selected = True, rs_passport_context_module = None\<rparr>"

definition selection_none :: route_selection where
  "selection_none = \<lparr>rs_selected = False, rs_passport_context_module = None\<rparr>"

record validated_route =
  vr_method :: http_method
  vr_handler :: string
  vr_selected :: bool
  vr_axum_path :: "string option"
  vr_passport_context_module :: "type_id option"

record validated_controller =
  vc_registrar :: registrar_ref
  vc_routes :: "validated_route list"

type_synonym selector = "controller_descriptor \<Rightarrow> route_descriptor \<Rightarrow> route_selection"
type_synonym seen_routes = "(http_method \<times> string, string \<times> route_descriptor) btree_map"

definition validated_route_of :: "selector \<Rightarrow> controller_descriptor \<Rightarrow> route_descriptor \<Rightarrow> validated_route" where
  "validated_route_of selection_for controller route =
     (let selection = selection_for controller route in
      \<lparr>vr_method = rt_method route, vr_handler = rt_handler route, vr_selected = rs_selected selection,
       vr_axum_path = (if rs_selected selection then Some (to_axum_path (rt_full_path route)) else None),
       vr_passport_context_module = rs_passport_context_module selection\<rparr>)"

definition route_key :: "route_descriptor \<Rightarrow> http_method \<times> string" where
  "route_key route = (rt_method route, canonical_pattern (rt_full_path route))"

definition check_route ::
    "string \<Rightarrow> string \<Rightarrow> route_descriptor \<Rightarrow> seen_routes \<Rightarrow> error + seen_routes" where
  "check_route scope controller route seen =
     (case bmap_get (route_key route) seen of
        Some (previous_controller, previous_route) \<Rightarrow>
          Inl (conflicting_routes controller route previous_controller previous_route scope)
      | None \<Rightarrow> Inr (bmap_insert (route_key route) (controller, route) seen))"

definition select_route ::
    "selector \<Rightarrow> controller_descriptor \<Rightarrow> route_descriptor \<Rightarrow> seen_routes \<times> validated_route list \<Rightarrow>
     error + seen_routes \<times> validated_route list" where
  "select_route selection_for controller route = (\<lambda>(seen, routes).
     and_then (if rs_selected (selection_for controller route)
         then and_then (validate_route route) (\<lambda>_. check_route ''application'' (cn_type_name controller) route seen)
         else Inr seen)
       (\<lambda>seen. Inr (seen, routes @ [validated_route_of selection_for controller route])))"

definition validate_one ::
    "selector \<Rightarrow> controller_descriptor \<Rightarrow>
     controller_descriptor list \<times> seen_routes \<times> validated_controller list \<Rightarrow>
     error + controller_descriptor list \<times> seen_routes \<times> validated_controller list" where
  "validate_one selection_for controller = (\<lambda>(identities, seen, validated).
     and_then (validate_controller_identity controller identities) (\<lambda>_.
     and_then (validate_contract controller) (\<lambda>_.
     case cn_registrar controller of
       None \<Rightarrow> Inl (route_metadata_error (cn_type_name controller)
         ''controller metadata does not include a typed HTTP registrar'' (controller_location controller))
     | Some registrar \<Rightarrow>
         and_then (try_fold (select_route selection_for controller) (routes_for_descriptor controller) (seen, []))
           (\<lambda>(seen, routes).
             Inr (identities @ [controller], seen,
                  validated @ [\<lparr>vc_registrar = registrar, vc_routes = routes\<rparr>])))))"

definition validate_with_selection ::
    "controller_descriptor list \<Rightarrow> selector \<Rightarrow> error + validated_controller list" where
  "validate_with_selection descriptors selection_for =
     and_then (try_fold (validate_one selection_for)
         (sort_by (\<lambda>left right. cmp (controller_sort_key left) (controller_sort_key right)) descriptors)
         ([], [], []))
       (\<lambda>(_, _, validated). Inr validated)"

definition validate_descriptors :: "controller_descriptor list \<Rightarrow> error + validated_controller list" where
  "validate_descriptors descriptors = validate_with_selection descriptors (\<lambda>_ _. selection_all)"

definition validate_routes :: "string \<Rightarrow> (string \<times> route_descriptor) list \<Rightarrow> error + unit" where
  "validate_routes scope routes =
     and_then (try_fold (\<lambda>(controller, route). check_route scope controller route) routes []) (\<lambda>_. Inr ())"

section \<open>The catalog\<close>

definition controller_cache :: "controller_descriptor list \<Rightarrow> controller_descriptor list" where
  "controller_cache registered =
     sort_by (\<lambda>left right. then_with (cmp (cn_type_name left) (cn_type_name right))
       (cmp (cn_namespace left) (cn_namespace right))) registered"

definition routes_for :: "controller_descriptor list \<Rightarrow> type_id \<Rightarrow> route_descriptor list" where
  "routes_for registered t =
     (case find (\<lambda>c. cn_type_id c = t) (controller_cache registered) of
        None \<Rightarrow> [] | Some c \<Rightarrow> routes_for_descriptor c)"

definition validate_controller :: "controller_descriptor list \<Rightarrow> type_id \<Rightarrow> error + unit" where
  "validate_controller registered t =
     (case find (\<lambda>c. cn_type_id c = t) (controller_cache registered) of
        None \<Rightarrow> Inr ()
      | Some c \<Rightarrow> validate_routes (cn_type_name c)
          (map (Pair (cn_type_name c)) (routes_for_descriptor c)))"

definition route_catalog_validated :: "controller_descriptor list \<Rightarrow> error + validated_controller list" where
  "route_catalog_validated registered = validate_descriptors (controller_cache registered)"

definition route_catalog_validate :: "controller_descriptor list \<Rightarrow> error + unit" where
  "route_catalog_validate registered = and_then (route_catalog_validated registered) (\<lambda>_. Inr ())"

section \<open>Registration\<close>

text \<open>The iterator that generated code reads its paths from.\<close>

record validated_route_iter =
  vi_routes :: "validated_route list"
  vi_passport_context_module :: "type_id option"

definition controller_routes :: "validated_controller \<Rightarrow> validated_route_iter" where
  "controller_routes c = \<lparr>vi_routes = vc_routes c, vi_passport_context_module = None\<rparr>"

definition iter_next ::
    "http_method \<Rightarrow> string \<Rightarrow> validated_route_iter \<Rightarrow> failure + string option \<times> validated_route_iter" where
  "iter_next method handler it =
     (case vi_routes it of
        [] \<Rightarrow> Inl (Failed (route_metadata_error ''route registration''
          (''generated registrar requested unexpected route '' @ method_str method @ '' `'' @ handler @ ''`'') None))
      | route # routes \<Rightarrow>
          if vr_method route \<noteq> method \<or> vr_handler route \<noteq> handler
          then Inl (Failed (route_metadata_error ''route registration''
            (''generated registrar requested '' @ method_str method @ '' `'' @ handler
              @ ''`, but validation supplied '' @ method_str (vr_method route) @ '' `'' @ vr_handler route @ ''`'')
            None))
          else
            let it = \<lparr>vi_routes = routes, vi_passport_context_module =
                  (if vr_selected route then vr_passport_context_module route else None)\<rparr> in
            if vr_selected route
            then and_then (or_panic (expect ''selected routes retain a validated Axum path'' (vr_axum_path route)))
              (\<lambda>path. Inr (Some path, it))
            else Inr (None, it))"

definition iter_finish :: "validated_route_iter \<Rightarrow> error + unit" where
  "iter_finish it =
     (case vi_routes it of
        [] \<Rightarrow> Inr ()
      | route # _ \<Rightarrow> Inl (route_metadata_error ''route registration''
          (''generated registrar did not register '' @ method_str (vr_method route) @ '' `''
            @ vr_handler route @ ''`'') None))"

end
