(* ===== verification/Http_Route_Valid.thy ===== *)
theory Http_Route_Valid
  imports Http_Route
begin

text \<open>
  What route validation guarantees (\<open>crates/mads-common/src/route.rs\<close>): it accepts exactly the
  well-formed metadata with pairwise different routes; two valid paths conflict exactly when they
  match the same requests; and the translation of a path for the router can be read back.
\<close>

section \<open>Valid paths\<close>

definition parameter_ok :: "string \<Rightarrow> bool" where
  "parameter_ok p \<longleftrightarrow> p \<noteq> [] \<and> (hd p = CHR ''_'' \<or> is_ascii_alphabetic (hd p)) \<and>
     list_all (\<lambda>c. c = CHR ''_'' \<or> is_ascii_alphanumeric c) (tl p)"

definition segment_ok :: "string \<Rightarrow> bool" where
  "segment_ok s \<longleftrightarrow> s \<notin> {[], ''.'', ''..''} \<and> \<not> starts_with ''*'' s \<and> CHR ''{'' \<notin> set s \<and> CHR ''}'' \<notin> set s \<and>
     (case strip_prefix '':'' s of Some p \<Rightarrow> parameter_ok p | None \<Rightarrow> CHR '':'' \<notin> set s)"

definition parameters_of :: "string list \<Rightarrow> string list" where
  "parameters_of segments = List.map_filter (strip_prefix '':'') segments"

definition path_ok :: "string \<Rightarrow> bool" where
  "path_ok v \<longleftrightarrow> starts_with ''/'' v \<and> CHR ''?'' \<notin> set v \<and> CHR ''#'' \<notin> set v \<and>
     \<not> has_control v \<and> CHR 0x5C \<notin> set v \<and> CHR ''%'' \<notin> set v \<and> \<not> has_whitespace v \<and>
     (v = ''/'' \<or> (\<not> str_ends_with ''/'' v \<and> list_all segment_ok (drop 1 (split_on CHR ''/'' v)) \<and>
        distinct (parameters_of (drop 1 (split_on CHR ''/'' v)))))"

definition prefix_ok :: "string \<Rightarrow> bool" where
  "prefix_ok v \<longleftrightarrow> v = [] \<or> (path_ok v \<and> CHR '':'' \<notin> set v)"

lemma strip_colon: "strip_prefix '':'' s = Some p \<longleftrightarrow> s = CHR '':'' # p"
  by (simp add: strip_prefix_eq)

lemma validate_segment_Inr:
  "validate_segment subject location s ps = Inr ps' \<longleftrightarrow> segment_ok s \<and>
     (case strip_prefix '':'' s of Some p \<Rightarrow> p \<notin> set ps \<and> ps' = p # ps | None \<Rightarrow> ps' = ps)"
proof (cases "strip_prefix '':'' s")
  case None
  then show ?thesis by (auto simp: validate_segment_def segment_ok_def Let_def list_ex_iff)
next
  case (Some p)
  then show ?thesis
    by (cases p) (auto simp: validate_segment_def segment_ok_def Let_def list_ex_iff parameter_ok_def)
qed

lemma validate_segments:
  "(\<exists>ps'. try_fold (validate_segment subject location) segments ps = Inr ps') \<longleftrightarrow>
     list_all segment_ok segments \<and> distinct (parameters_of segments) \<and> set (parameters_of segments) \<inter> set ps = {}"
proof (induction segments arbitrary: ps)
  case (Cons s segments)
  show ?case
  proof (cases "strip_prefix '':'' s")
    case None
    then show ?thesis
      using Cons [of ps]
      by (auto simp: and_then_eq_Inr validate_segment_Inr parameters_of_def List.map_filter_simps)
  next
    case (Some p)
    then show ?thesis
      using Cons [of "p # ps"]
      by (auto simp: and_then_eq_Inr validate_segment_Inr parameters_of_def List.map_filter_simps)
  qed
qed (simp add: parameters_of_def List.map_filter_simps)

lemma starts_slash: "starts_with ''/'' v \<longleftrightarrow> (\<exists>rest. v = CHR ''/'' # rest)"
  by (simp add: starts_with_iff)

lemma validate_path_Inr:
  "validate_path v is_prefix subject location = Inr () \<longleftrightarrow> (if is_prefix then prefix_ok v else path_ok v)"
proof (cases "is_prefix \<and> v = [] \<or> v = []")
  case True
  then show ?thesis by (auto simp: validate_path_def prefix_ok_def path_ok_def Let_def starts_slash)
next
  case False
  let ?segments = "drop 1 (split_on CHR ''/'' v)"
  have segments: "(\<exists>ps. try_fold (validate_segment subject location) ?segments [] = Inr ps) \<longleftrightarrow>
      list_all segment_ok ?segments \<and> distinct (parameters_of ?segments)"
    using validate_segments [of subject location ?segments "[]"] by simp
  have colon: "CHR '':'' \<notin> set v" if "v = ''/''" using that by simp
  show ?thesis
    using False segments colon
    by (auto simp: validate_path_def Let_def starts_slash list_ex_iff prefix_ok_def path_ok_def and_then_eq_Inr)
qed

definition location_present :: "source_location \<Rightarrow> bool" where
  "location_present l \<longleftrightarrow> loc_file l \<noteq> [] \<and> loc_line l \<noteq> 0 \<and> loc_column l \<noteq> 0"

definition route_ok :: "route_descriptor \<Rightarrow> bool" where
  "route_ok r \<longleftrightarrow> prefix_ok (rt_prefix r) \<and> path_ok (rt_path r) \<and> path_ok (rt_full_path r) \<and>
     canonical_join (rt_prefix r) (rt_path r) = rt_full_path r \<and> location_present (rt_location r)"

lemma validate_route_Inr: "validate_route r = Inr () \<longleftrightarrow> route_ok r"
  by (auto simp: validate_route_def and_then_eq_Inr validate_path_Inr route_ok_def location_present_def
      validate_source_location_def)

section \<open>Errors are MADS030\<close>

definition mads030 :: "error + 'a \<Rightarrow> bool" where
  "mads030 r \<longleftrightarrow> (case r of Inl e \<Rightarrow> error_code e = Inr MADS030 | Inr _ \<Rightarrow> True)"

lemma mads030_simps [simp]: "mads030 (Inr x)" "mads030 (Inl e) \<longleftrightarrow> error_code e = Inr MADS030"
  by (simp_all add: mads030_def)

lemma mads030_and_then: "mads030 r \<Longrightarrow> (\<And>x. mads030 (k x)) \<Longrightarrow> mads030 (and_then r k)"
  by (cases r) simp_all

lemma mads030_try_fold: "(\<And>x s. mads030 (f x s)) \<Longrightarrow> mads030 (try_fold f xs s)"
  by (induction xs arbitrary: s) (auto intro!: mads030_and_then)

lemma mads030_segment: "mads030 (validate_segment subject location s ps)"
  by (auto simp: validate_segment_def Let_def split: option.splits list.splits)

lemma mads030_path: "mads030 (validate_path v is_prefix subject location)"
  by (auto simp: validate_path_def Let_def intro!: mads030_and_then mads030_try_fold mads030_segment)

lemma mads030_route: "mads030 (validate_route r)"
  by (auto simp: validate_route_def validate_source_location_def intro!: mads030_and_then mads030_path)

lemma mads030_select: "mads030 (select_route selection_for c r s)"
  by (cases s) (auto simp: select_route_def check_route_def intro!: mads030_and_then mads030_route
      split: option.splits)

lemma mads030_one: "mads030 (validate_one selection_for c s)"
  by (cases s) (auto simp: validate_one_def validate_controller_identity_def validate_contract_def Let_def
      intro!: mads030_and_then mads030_try_fold mads030_select split: option.splits)

lemma mads030_validate: "mads030 (validate_with_selection ds selection_for)"
  by (auto simp: validate_with_selection_def intro!: mads030_and_then mads030_try_fold mads030_one)

section \<open>Valid controllers\<close>

definition controller_ok :: "controller_descriptor \<Rightarrow> bool" where
  "controller_ok c \<longleftrightarrow> cn_type_name c \<noteq> [] \<and> cn_contracts c \<noteq> [] \<and> cn_registrar c \<noteq> None \<and>
     (\<forall>ct\<in>set (cn_contracts c). ct_trait_name ct \<noteq> [] \<and> ct_routes ct \<noteq> []) \<and>
     distinct (map ct_trait_name (cn_contracts c))"

lemma validate_identity_Inr:
  "validate_controller_identity c previous = Inr () \<longleftrightarrow> cn_type_name c \<noteq> [] \<and>
     (\<forall>p\<in>set previous. cn_type_id p \<noteq> cn_type_id c \<and> cn_type_name p \<noteq> cn_type_name c)"
  unfolding validate_controller_identity_def by (auto simp: try_fold_units(1) split: if_splits)

lemma contract_names_fold:
  assumes "\<And>ct names. f ct names = (if ct_trait_name ct = [] then Inl (e1 ct)
     else if ct_routes ct = [] then Inl (e2 ct)
     else if ct_trait_name ct \<in> set names then Inl (e3 ct) else Inr (ct_trait_name ct # names))"
  shows "(\<exists>names'. try_fold f contracts names = Inr names') \<longleftrightarrow>
     (\<forall>ct\<in>set contracts. ct_trait_name ct \<noteq> [] \<and> ct_routes ct \<noteq> []) \<and>
     distinct (map ct_trait_name contracts) \<and> ct_trait_name ` set contracts \<inter> set names = {}"
proof (induction contracts arbitrary: names)
  case (Cons ct contracts)
  show ?case using Cons [of "ct_trait_name ct # names"] by (auto simp: assms)
qed simp

lemma validate_contract_Inr:
  "cn_type_name c \<noteq> [] \<and> cn_registrar c \<noteq> None \<and> validate_contract c = Inr () \<longleftrightarrow> controller_ok c"
  unfolding validate_contract_def Let_def controller_ok_def
  by (auto simp: and_then_eq_Inr contract_names_fold)

section \<open>The application\<close>

definition selected_routes :: "selector \<Rightarrow> controller_descriptor \<Rightarrow> route_descriptor list" where
  "selected_routes selection_for c = filter (\<lambda>r. rs_selected (selection_for c r)) (routes_for_descriptor c)"

definition all_routes :: "selector \<Rightarrow> controller_descriptor list \<Rightarrow> route_descriptor list" where
  "all_routes selection_for cs = concat (map (selected_routes selection_for) cs)"

text \<open>
  What is accepted: controllers with complete metadata, no two of the same type or name, and valid
  selected routes, no two of the same method and pattern.
\<close>

definition application_ok :: "selector \<Rightarrow> controller_descriptor list \<Rightarrow> bool" where
  "application_ok selection_for cs \<longleftrightarrow>
     list_all controller_ok cs \<and> distinct (map cn_type_id cs) \<and> distinct (map cn_type_name cs) \<and>
     list_all route_ok (all_routes selection_for cs) \<and> distinct (map route_key (all_routes selection_for cs))"

definition validated_of :: "selector \<Rightarrow> controller_descriptor \<Rightarrow> validated_controller" where
  "validated_of selection_for c =
     \<lparr>vc_registrar = the (cn_registrar c),
      vc_routes = map (validated_route_of selection_for c) (routes_for_descriptor c)\<rparr>"

definition seen_keys :: "seen_routes \<Rightarrow> (http_method \<times> string) set" where
  "seen_keys seen = {k. bmap_get k seen \<noteq> None}"

lemma seen_keys_insert: "bmap_ok seen \<Longrightarrow> seen_keys (bmap_insert k v seen) = insert k (seen_keys seen)"
  by (auto simp: seen_keys_def bmap_get_insert)

lemma select_routes:
  assumes "bmap_ok seen"
  shows "if list_all route_ok (filter (\<lambda>r. rs_selected (sel c r)) rs) \<and>
      distinct (map route_key (filter (\<lambda>r. rs_selected (sel c r)) rs)) \<and>
      route_key ` set (filter (\<lambda>r. rs_selected (sel c r)) rs) \<inter> seen_keys seen = {}
    then \<exists>seen'. try_fold (select_route sel c) rs (seen, vs) = Inr (seen', vs @ map (validated_route_of sel c) rs) \<and>
      bmap_ok seen' \<and> seen_keys seen' = seen_keys seen \<union> route_key ` set (filter (\<lambda>r. rs_selected (sel c r)) rs)
    else \<exists>e. try_fold (select_route sel c) rs (seen, vs) = Inl e"
  using assms
proof (induction rs arbitrary: seen vs)
  case (Cons r rs)
  let ?v = "validated_route_of sel c r"
  show ?case
  proof (cases "rs_selected (sel c r)")
    case False
    then have "select_route sel c r (seen, vs) = Inr (seen, vs @ [?v])" by (simp add: select_route_def)
    then show ?thesis using Cons.IH [OF Cons.prems, of "vs @ [?v]"] False by (auto split: if_splits)
  next
    case True
    show ?thesis
    proof (cases "route_ok r \<and> route_key r \<notin> seen_keys seen")
      case True
      then have none: "bmap_get (route_key r) seen = None" "validate_route r = Inr ()"
        unfolding seen_keys_def validate_route_Inr by blast+
      let ?seen = "bmap_insert (route_key r) (cn_type_name c, r) seen"
      have "select_route sel c r (seen, vs) = Inr (?seen, vs @ [?v])"
        using \<open>rs_selected (sel c r)\<close> none by (simp add: select_route_def check_route_def)
      moreover have ok: "bmap_ok ?seen" using Cons.prems by (rule bmap_ok_insert)
      ultimately show ?thesis
        using Cons.IH [OF ok, of "vs @ [?v]"] True \<open>rs_selected (sel c r)\<close> seen_keys_insert [OF Cons.prems]
        by (simp split: if_splits) blast
    next
      case False
      have "\<exists>e. select_route sel c r (seen, vs) = Inl e"
      proof (cases "validate_route r")
        case (Inl e)
        then show ?thesis using \<open>rs_selected (sel c r)\<close> by (simp add: select_route_def)
      next
        case (Inr u)
        then have "validate_route r = Inr ()" by simp
        with False have "bmap_get (route_key r) seen \<noteq> None" by (simp add: validate_route_Inr seen_keys_def)
        with Inr show ?thesis using \<open>rs_selected (sel c r)\<close> by (auto simp: select_route_def check_route_def)
      qed
      with False \<open>rs_selected (sel c r)\<close> show ?thesis by auto
    qed
  qed
qed simp

lemma validate_one_step:
  assumes "bmap_ok seen"
  shows "if controller_ok c \<and> (\<forall>p\<in>set ids. cn_type_id p \<noteq> cn_type_id c \<and> cn_type_name p \<noteq> cn_type_name c) \<and>
      list_all route_ok (selected_routes sel c) \<and> distinct (map route_key (selected_routes sel c)) \<and>
      route_key ` set (selected_routes sel c) \<inter> seen_keys seen = {}
    then \<exists>seen'. validate_one sel c (ids, seen, vs) = Inr (ids @ [c], seen', vs @ [validated_of sel c]) \<and>
      bmap_ok seen' \<and> seen_keys seen' = seen_keys seen \<union> route_key ` set (selected_routes sel c)
    else \<exists>e. validate_one sel c (ids, seen, vs) = Inl e"
proof (cases "controller_ok c \<and> (\<forall>p\<in>set ids. cn_type_id p \<noteq> cn_type_id c \<and> cn_type_name p \<noteq> cn_type_name c)")
  case True
  then have "validate_controller_identity c ids = Inr ()" "validate_contract c = Inr ()"
    using validate_identity_Inr [of c ids] validate_contract_Inr [of c] by (auto simp: controller_ok_def)
  moreover obtain reg where "cn_registrar c = Some reg" using True by (auto simp: controller_ok_def)
  ultimately have step: "validate_one sel c (ids, seen, vs) =
      and_then (try_fold (select_route sel c) (routes_for_descriptor c) (seen, [])) (\<lambda>(seen, routes).
        Inr (ids @ [c], seen, vs @ [\<lparr>vc_registrar = reg, vc_routes = routes\<rparr>]))" "the (cn_registrar c) = reg"
    by (simp_all add: validate_one_def)
  show ?thesis
    using select_routes [OF assms, of sel c "routes_for_descriptor c" "[]"] True
    unfolding step(1) selected_routes_def validated_of_def step(2) by (auto split: if_splits)
next
  case False
  have "\<exists>e. validate_one sel c (ids, seen, vs) = Inl e"
  proof (rule ccontr)
    assume "\<not> ?thesis"
    then obtain s where "validate_one sel c (ids, seen, vs) = Inr s" by (cases "validate_one sel c (ids, seen, vs)") auto
    then have "validate_controller_identity c ids = Inr ()" "validate_contract c = Inr ()" "cn_registrar c \<noteq> None"
      by (auto simp: validate_one_def and_then_eq_Inr split: option.splits)
    with False validate_identity_Inr [of c ids] validate_contract_Inr [of c] show False by blast
  qed
  with False show ?thesis by auto
qed

lemma all_routes_Cons: "all_routes sel (c # cs) = selected_routes sel c @ all_routes sel cs"
  by (simp add: all_routes_def)

lemma validate_all:
  assumes "bmap_ok seen"
  shows "if application_ok sel cs \<and>
      (\<forall>c\<in>set cs. \<forall>p\<in>set ids. cn_type_id p \<noteq> cn_type_id c \<and> cn_type_name p \<noteq> cn_type_name c) \<and>
      route_key ` set (all_routes sel cs) \<inter> seen_keys seen = {}
    then \<exists>seen'. try_fold (validate_one sel) cs (ids, seen, vs) =
      Inr (ids @ cs, seen', vs @ map (validated_of sel) cs)
    else \<exists>e. try_fold (validate_one sel) cs (ids, seen, vs) = Inl e"
  using assms
proof (induction cs arbitrary: ids seen vs)
  case Nil
  then show ?case by (simp add: application_ok_def all_routes_def)
next
  case (Cons c cs)
  let ?one = "controller_ok c \<and> (\<forall>p\<in>set ids. cn_type_id p \<noteq> cn_type_id c \<and> cn_type_name p \<noteq> cn_type_name c) \<and>
      list_all route_ok (selected_routes sel c) \<and> distinct (map route_key (selected_routes sel c)) \<and>
      route_key ` set (selected_routes sel c) \<inter> seen_keys seen = {}"
  note one = validate_one_step [OF Cons.prems, of c ids sel vs]
  show ?case
  proof (cases ?one)
    case True
    with one obtain seen' where step: "validate_one sel c (ids, seen, vs) = Inr (ids @ [c], seen', vs @ [validated_of sel c])"
      "bmap_ok seen'" "seen_keys seen' = seen_keys seen \<union> route_key ` set (selected_routes sel c)" by auto
    have cond: "application_ok sel (c # cs) \<and>
        (\<forall>d\<in>set (c # cs). \<forall>p\<in>set ids. cn_type_id p \<noteq> cn_type_id d \<and> cn_type_name p \<noteq> cn_type_name d) \<and>
        route_key ` set (all_routes sel (c # cs)) \<inter> seen_keys seen = {} \<longleftrightarrow>
      application_ok sel cs \<and>
        (\<forall>d\<in>set cs. \<forall>p\<in>set (ids @ [c]). cn_type_id p \<noteq> cn_type_id d \<and> cn_type_name p \<noteq> cn_type_name d) \<and>
        route_key ` set (all_routes sel cs) \<inter> seen_keys seen' = {}"
      unfolding application_ok_def all_routes_Cons step(3) using True by (auto simp: image_iff)
    show ?thesis
      using Cons.IH [OF step(2), of "ids @ [c]" "vs @ [validated_of sel c]"] step(1) unfolding cond by (auto split: if_splits)
  next
    case False
    then have "\<not> (application_ok sel (c # cs) \<and>
        (\<forall>d\<in>set (c # cs). \<forall>p\<in>set ids. cn_type_id p \<noteq> cn_type_id d \<and> cn_type_name p \<noteq> cn_type_name d) \<and>
        route_key ` set (all_routes sel (c # cs)) \<inter> seen_keys seen = {})"
      unfolding application_ok_def all_routes_Cons by auto
    moreover from one False obtain e where "validate_one sel c (ids, seen, vs) = Inl e" by auto
    ultimately show ?thesis by simp
  qed
qed

lemma application_ok_mset:
  assumes "mset cs = mset ds"
  shows "application_ok sel cs \<longleftrightarrow> application_ok sel ds"
proof -
  have "mset (all_routes sel cs) = (\<Sum>c\<in>#mset cs. mset (selected_routes sel c))" for cs
    unfolding all_routes_def by (induction cs) simp_all
  then have routes: "mset (all_routes sel cs) = mset (all_routes sel ds)" using assms by simp
  have "set cs = set ds" using assms by (rule mset_eq_setD)
  moreover have "set (all_routes sel cs) = set (all_routes sel ds)" using routes by (rule mset_eq_setD)
  moreover have "distinct (map cn_type_id cs) = distinct (map cn_type_id ds)"
    "distinct (map cn_type_name cs) = distinct (map cn_type_name ds)"
    using assms by (intro mset_eq_imp_distinct_iff; simp)+
  moreover have "distinct (map route_key (all_routes sel cs)) = distinct (map route_key (all_routes sel ds))"
    using routes by (intro mset_eq_imp_distinct_iff) simp
  ultimately show ?thesis by (simp add: application_ok_def list_all_iff)
qed

definition controllers_in_order :: "controller_descriptor list \<Rightarrow> controller_descriptor list" where
  "controllers_in_order ds = sort_by (\<lambda>a b. cmp (controller_sort_key a) (controller_sort_key b)) ds"

lemma validate_correct:
  "if application_ok sel ds
   then validate_with_selection ds sel = Inr (map (validated_of sel) (controllers_in_order ds))
   else \<exists>e. validate_with_selection ds sel = Inl e \<and> error_code e = Inr MADS030"
proof -
  let ?cs = "controllers_in_order ds"
  have perm: "application_ok sel ?cs \<longleftrightarrow> application_ok sel ds"
    unfolding controllers_in_order_def by (intro application_ok_mset) simp
  have empty: "bmap_ok ([] :: seen_routes)" "seen_keys [] = {}"
    by (simp_all add: bmap_ok_def seen_keys_def bmap_get_def)
  have run: "if application_ok sel ds
    then \<exists>seen'. try_fold (validate_one sel) ?cs ([], [], []) = Inr (?cs, seen', map (validated_of sel) ?cs)
    else \<exists>e. try_fold (validate_one sel) ?cs ([], [], []) = Inl e"
    using validate_all [OF empty(1), of sel ?cs "[]" "[]"] empty(2) perm by (simp split: if_splits)
  show ?thesis
  proof (cases "application_ok sel ds")
    case True
    with run obtain seen' where "try_fold (validate_one sel) ?cs ([], [], []) = Inr (?cs, seen', map (validated_of sel) ?cs)"
      by auto
    with True show ?thesis by (simp add: validate_with_selection_def controllers_in_order_def)
  next
    case False
    with run obtain e where "try_fold (validate_one sel) ?cs ([], [], []) = Inl e" by auto
    then have "validate_with_selection ds sel = Inl e"
      by (simp add: validate_with_selection_def controllers_in_order_def)
    with mads030_validate [of ds sel] False show ?thesis by simp
  qed
qed

end
