(* ===== verification/Http_Route_Match.thy ===== *)
theory Http_Route_Match
  imports Http_Route_Valid
begin

text \<open>
  What the patterns of valid routes mean (\<open>canonical_pattern\<close> and \<open>to_axum_path\<close> of
  \<open>crates/mads-common/src/route.rs\<close>): a parameter stands for any non-empty segment. Two valid paths
  have one pattern exactly when they match the same requests, and the path given to the router can
  be read back. The claims about route validation are at the end.
\<close>

section \<open>Segments\<close>

abbreviation segments :: "string \<Rightarrow> string list" where
  "segments path \<equiv> split_on CHR ''/'' path"

definition is_parameter :: "string \<Rightarrow> bool" where
  "is_parameter s \<longleftrightarrow> starts_with '':'' s"

definition segment_matches :: "string \<Rightarrow> string \<Rightarrow> bool" where
  "segment_matches s t \<longleftrightarrow> (if is_parameter s then t \<noteq> [] else s = t)"

definition route_matches :: "string \<Rightarrow> string \<Rightarrow> bool" where
  "route_matches path request \<longleftrightarrow> list_all2 segment_matches (segments path) (segments request)"

text \<open>A segment of a valid path: a parameter, or a literal without a colon or brace.\<close>

definition plain_segment :: "string \<Rightarrow> bool" where
  "plain_segment s \<longleftrightarrow> CHR ''/'' \<notin> set s \<and>
     (is_parameter s \<or> (CHR '':'' \<notin> set s \<and> CHR ''{'' \<notin> set s))"

lemma is_parameter_Cons: "is_parameter s \<longleftrightarrow> (\<exists>p. s = CHR '':'' # p)"
  by (simp add: is_parameter_def starts_with_iff)

lemma segment_ok_plain: "segment_ok s \<Longrightarrow> CHR ''/'' \<notin> set s \<Longrightarrow> plain_segment s"
  by (auto simp: segment_ok_def plain_segment_def is_parameter_Cons strip_colon split: option.splits)

lemma path_ok_plain:
  assumes "path_ok v" "s \<in> set (segments v)"
  shows "plain_segment s"
proof -
  have slash: "CHR ''/'' \<notin> set s" using assms(2) by (rule split_on_pieces)
  obtain rest where v: "v = CHR ''/'' # rest" using assms(1) by (auto simp: path_ok_def starts_slash)
  have "s = [] \<or> s \<in> set (drop 1 (segments v))" using assms(2) by (auto simp: v)
  then show ?thesis
  proof
    assume "s = []"
    then show ?thesis by (simp add: plain_segment_def)
  next
    assume s: "s \<in> set (drop 1 (segments v))"
    show ?thesis
    proof (cases "v = ''/''")
      case True
      with s show ?thesis by (simp add: plain_segment_def)
    next
      case False
      with assms(1) s have "segment_ok s" by (auto simp: path_ok_def list_all_iff)
      then show ?thesis using slash by (rule segment_ok_plain)
    qed
  qed
qed

section \<open>Patterns\<close>

lemma canonical_segment_alt: "canonical_segment s = (if is_parameter s then '':*'' else s)"
  by (simp add: canonical_segment_def is_parameter_def)

lemma split_canonical:
  "segments (canonical_pattern path) = map canonical_segment (segments path)"
  unfolding canonical_pattern_def
  by (rule split_on_join) (auto simp: canonical_segment_def dest: split_on_pieces)

lemma canonical_eq:
  "canonical_pattern p = canonical_pattern q \<longleftrightarrow> map canonical_segment (segments p) = map canonical_segment (segments q)"
proof
  assume "canonical_pattern p = canonical_pattern q"
  then have "segments (canonical_pattern p) = segments (canonical_pattern q)" by (rule arg_cong)
  then show "map canonical_segment (segments p) = map canonical_segment (segments q)"
    unfolding split_canonical .
qed (simp add: canonical_pattern_def)

lemma canonical_matches:
  assumes "plain_segment s" "plain_segment t" "canonical_segment s = canonical_segment t"
  shows "segment_matches s u = segment_matches t u"
  using assms by (auto simp: canonical_segment_alt segment_matches_def plain_segment_def is_parameter_Cons
      split: if_splits)

lemma same_pattern_matches:
  assumes "\<forall>s\<in>set ss. plain_segment s" "\<forall>s\<in>set ts. plain_segment s"
    and "map canonical_segment ss = map canonical_segment ts"
  shows "list_all2 segment_matches ss us = list_all2 segment_matches ts us"
  using assms
proof (induction ss arbitrary: ts us)
  case (Cons s ss)
  then obtain t ts' where t: "ts = t # ts'" "canonical_segment s = canonical_segment t"
    "map canonical_segment ss = map canonical_segment ts'" by (cases ts) auto
  show ?case
  proof (cases us)
    case (Cons u us')
    have "segment_matches s u = segment_matches t u"
      using canonical_matches [OF _ _ t(2)] Cons.prems t(1) by simp
    with Cons.IH [of ts' us'] Cons.prems t Cons show ?thesis by simp
  qed (simp add: t(1))
qed simp

text \<open>A request that a path matches: its parameters filled in.\<close>

definition fill :: "string \<Rightarrow> string list \<Rightarrow> string list" where
  "fill v ss = map (\<lambda>s. if is_parameter s then v else s) ss"

lemma fill_matches: "v \<noteq> [] \<Longrightarrow> list_all2 segment_matches ss (fill v ss)"
  by (simp add: fill_def list_all2_conv_all_nth segment_matches_def)

lemma fill_separates:
  assumes "plain_segment s" "plain_segment t" "canonical_segment s \<noteq> canonical_segment t"
  shows "\<exists>v. v \<noteq> [] \<and> CHR ''/'' \<notin> set v \<and>
    (\<not> segment_matches t (if is_parameter s then v else s) \<or> \<not> segment_matches s (if is_parameter t then v else t))"
proof (cases "is_parameter s")
  case True
  then have "\<not> is_parameter t" using assms(3) by (auto simp: canonical_segment_alt)
  with True assms(2) show ?thesis
    by (intro exI [of _ "t @ ''x''"]) (auto simp: segment_matches_def plain_segment_def)
next
  case False
  show ?thesis
  proof (cases "is_parameter t")
    case True
    with False assms(1) show ?thesis
      by (intro exI [of _ "s @ ''x''"]) (auto simp: segment_matches_def plain_segment_def)
  next
    case t: False
    with False assms(3) show ?thesis
      by (intro exI [of _ "''x''"]) (auto simp: segment_matches_def canonical_segment_alt)
  qed
qed

lemma different_patterns_differ:
  assumes "\<forall>s\<in>set ss. plain_segment s" "\<forall>s\<in>set ts. plain_segment s" "ss \<noteq> []" "ts \<noteq> []"
    and "map canonical_segment ss \<noteq> map canonical_segment ts"
  shows "\<exists>us. us \<noteq> [] \<and> (\<forall>u\<in>set us. CHR ''/'' \<notin> set u) \<and>
    list_all2 segment_matches ss us \<noteq> list_all2 segment_matches ts us"
proof -
  have fill: "fill v rs \<noteq> [] \<and> (\<forall>u\<in>set (fill v rs). CHR ''/'' \<notin> set u)"
    if "CHR ''/'' \<notin> set v" "\<forall>s\<in>set rs. plain_segment s" "rs \<noteq> []" for v rs
    using that by (auto simp: fill_def plain_segment_def)
  show ?thesis
  proof (cases "length ss = length ts")
    case False
    have "list_all2 segment_matches ss (fill ''x'' ss)" by (simp add: fill_matches)
    moreover have "\<not> list_all2 segment_matches ts (fill ''x'' ss)"
      using False by (auto simp: fill_def dest: list_all2_lengthD)
    ultimately show ?thesis using fill [of "''x''" ss] assms(1,3) by auto
  next
    case True
    with assms(5) obtain i where i: "i < length ss" "canonical_segment (ss ! i) \<noteq> canonical_segment (ts ! i)"
      by (auto simp: list_eq_iff_nth_eq)
    then obtain v where v: "v \<noteq> []" "CHR ''/'' \<notin> set v"
      "\<not> segment_matches (ts ! i) (fill v ss ! i) \<or> \<not> segment_matches (ss ! i) (fill v ts ! i)"
      using fill_separates [of "ss ! i" "ts ! i"] assms(1,2) True by (auto simp: fill_def)
    have "list_all2 segment_matches ss (fill v ss)" "list_all2 segment_matches ts (fill v ts)"
      using v(1) by (simp_all add: fill_matches)
    moreover have "\<not> list_all2 segment_matches ts (fill v ss) \<or> \<not> list_all2 segment_matches ss (fill v ts)"
      using v(3) i(1) True by (metis list_all2_nthD)
    ultimately show ?thesis using fill [OF v(2)] assms(1-4) by blast
  qed
qed

lemma pattern_exact:
  assumes "path_ok p" "path_ok q"
  shows "canonical_pattern p = canonical_pattern q \<longleftrightarrow> (\<forall>request. route_matches p request = route_matches q request)"
proof -
  have plain: "\<forall>s\<in>set (segments p). plain_segment s" "\<forall>s\<in>set (segments q). plain_segment s"
    using path_ok_plain [OF assms(1)] path_ok_plain [OF assms(2)] by blast+
  show ?thesis
  proof
    assume "canonical_pattern p = canonical_pattern q"
    then show "\<forall>request. route_matches p request = route_matches q request"
      using same_pattern_matches [OF plain] by (simp add: canonical_eq route_matches_def)
  next
    assume same: "\<forall>request. route_matches p request = route_matches q request"
    show "canonical_pattern p = canonical_pattern q"
    proof (rule ccontr)
      assume "canonical_pattern p \<noteq> canonical_pattern q"
      then obtain us where us: "us \<noteq> []" "\<forall>u\<in>set us. CHR ''/'' \<notin> set u"
        "list_all2 segment_matches (segments p) us \<noteq> list_all2 segment_matches (segments q) us"
        using different_patterns_differ [OF plain] by (auto simp: canonical_eq)
      have "segments (join_with ''/'' us) = us" using us(1,2) by (rule split_on_join)
      with same us(3) show False by (auto simp: route_matches_def dest: spec [of _ "join_with ''/'' us"])
    qed
  qed
qed

section \<open>Paths of the router\<close>

text \<open>Reading back a path of the router: a segment in braces is a parameter.\<close>

definition from_axum_segment :: "string \<Rightarrow> string" where
  "from_axum_segment s =
     (case s of c # rest \<Rightarrow> if c = CHR ''{'' then CHR '':'' # butlast rest else s | [] \<Rightarrow> [])"

definition from_axum_path :: "string \<Rightarrow> string" where
  "from_axum_path path = join_with ''/'' (map from_axum_segment (segments path))"

lemma from_to_axum_segment: "plain_segment s \<Longrightarrow> from_axum_segment (to_axum_segment s) = s"
proof (cases "strip_prefix '':'' s")
  case (Some p)
  then have "s = CHR '':'' # p" by (simp add: strip_colon)
  with Some show ?thesis by (simp add: to_axum_segment_def from_axum_segment_def)
next
  case None
  assume plain: "plain_segment s"
  have "\<not> is_parameter s" using None by (auto simp: is_parameter_Cons)
  with plain have "CHR ''{'' \<notin> set s" by (simp add: plain_segment_def)
  with None show ?thesis by (cases s) (auto simp: to_axum_segment_def from_axum_segment_def)
qed

lemma to_axum_segment_slash: "CHR ''/'' \<notin> set s \<Longrightarrow> CHR ''/'' \<notin> set (to_axum_segment s)"
  by (auto simp: to_axum_segment_def strip_colon split: option.splits)

lemma from_to_axum:
  assumes "path_ok p"
  shows "from_axum_path (to_axum_path p) = p"
proof -
  have "segments (to_axum_path p) = map to_axum_segment (segments p)"
    unfolding to_axum_path_def
    by (rule split_on_join) (simp_all add: to_axum_segment_slash split_on_pieces)
  then have "from_axum_path (to_axum_path p) = join_with ''/'' (map (from_axum_segment \<circ> to_axum_segment) (segments p))"
    by (simp add: from_axum_path_def)
  also have "map (from_axum_segment \<circ> to_axum_segment) (segments p) = segments p"
    by (rule map_idI) (simp add: from_to_axum_segment path_ok_plain [OF assms])
  finally show ?thesis by (simp add: join_split_on)
qed

section \<open>Registration\<close>

text \<open>A registrar: it asks for the paths of its routes one by one and ends.\<close>

fun register_all :: "(http_method \<times> string) list \<Rightarrow> validated_route_iter \<Rightarrow>
    failure + (string option \<times> type_id option) list" where
  "register_all [] it = and_then (or_error (iter_finish it)) (\<lambda>_. Inr [])"
| "register_all (r # rs) it =
     and_then (iter_next (fst r) (snd r) it) (\<lambda>(path, it).
     and_then (register_all rs it) (\<lambda>paths. Inr ((path, vi_passport_context_module it) # paths)))"

lemma register_validated:
  assumes "\<And>r. rs_selected (sel c r) \<or> rs_passport_context_module (sel c r) = None"
  shows "register_all (map (\<lambda>r. (rt_method r, rt_handler r)) rs)
      \<lparr>vi_routes = map (validated_route_of sel c) rs, vi_passport_context_module = m\<rparr> =
    Inr (map (\<lambda>r. (if rs_selected (sel c r) then Some (to_axum_path (rt_full_path r)) else None,
                   rs_passport_context_module (sel c r))) rs)"
proof (induction rs arbitrary: m)
  case (Cons r rs)
  then show ?case
    using assms [of r]
    by (cases "rs_selected (sel c r)") (auto simp: iter_next_def validated_route_of_def Let_def)
qed (simp add: iter_finish_def)

section \<open>Claims\<close>

text \<open>
  C30: Route validation is exact. For every list of controllers and every selection of their routes
  it accepts exactly the applications in which every controller has complete metadata, no two
  controllers share a type or a name, every selected route is valid and no two selected routes share
  method and pattern; it then returns every controller with the paths of its selected routes, in
  catalog order. Everything else is an error with code MADS030.
\<close>

theorem route_validation_exact:
  "if application_ok selection ds
   then validate_with_selection ds selection = Inr (map (validated_of selection) (controllers_in_order ds))
   else \<exists>e. validate_with_selection ds selection = Inl e \<and> error_code e = Inr MADS030"
  by (rule validate_correct)

text \<open>
  C31: Patterns mean what they say. Two valid paths are in conflict exactly when every request that
  matches one matches the other, and the path that the router gets for a valid path can be read back
  as that path, so different routes stay different in the router.
\<close>

theorem route_patterns_exact:
  assumes "path_ok p" "path_ok q"
  shows "(canonical_pattern p = canonical_pattern q \<longleftrightarrow>
      (\<forall>request. route_matches p request = route_matches q request)) \<and>
    from_axum_path (to_axum_path p) = p"
  using pattern_exact [OF assms] from_to_axum [OF assms(1)] by blast

theorem route_patterns_exact_witness:
  "(\<forall>request. route_matches ''/users/:id'' request = route_matches ''/users/:name'' request) \<and>
   to_axum_path ''/users/:id'' = ''/users/{id}'' \<and>
   from_axum_path (to_axum_path ''/users/:id'') = ''/users/:id''"
proof -
  have "path_ok ''/users/:id''" "path_ok ''/users/:name''" by code_simp+
  from route_patterns_exact [OF this]
  have "(canonical_pattern ''/users/:id'' = canonical_pattern ''/users/:name'' \<longleftrightarrow>
      (\<forall>request. route_matches ''/users/:id'' request = route_matches ''/users/:name'' request))"
    "from_axum_path (to_axum_path ''/users/:id'') = ''/users/:id''" by blast+
  moreover have "canonical_pattern ''/users/:id'' = canonical_pattern ''/users/:name''"
    "to_axum_path ''/users/:id'' = ''/users/{id}''" by code_simp+
  ultimately show ?thesis by blast
qed

end
