(* ===== verification/Http_Scope.thy ===== *)
theory Http_Scope
  imports Http_Route_Match Scope
begin

text \<open>
  The HTTP metadata of one application (\<open>crates/mads-common/src/http_scope.rs\<close>): the controllers,
  routes and guards that belong to the modules an application is rooted in, each guarded route with
  the module whose rules its guard is resolved by; and the validation of that selection
  (\<open>validate_scoped_descriptors\<close> of \<open>route.rs\<close>).

  What is linked into the executable is the record \<open>http_program\<close>.
\<close>

section \<open>The selection\<close>

record http_program =
  hp_controllers :: "controller_descriptor list"
  hp_guards :: "guard_descriptor list"
  hp_modules :: "module_descriptor list"

record scoped_guard =
  sg_guard :: guard_descriptor
  sg_context_module :: "type_id option"

record route_identity =
  ri_controller :: type_id
  ri_method :: http_method
  ri_full_path :: string
  ri_handler :: string
  ri_passport_context_module :: "type_id option"

definition route_identity_new :: "controller_descriptor \<Rightarrow> route_descriptor \<Rightarrow> route_identity" where
  "route_identity_new c r =
     \<lparr>ri_controller = cn_type_id c, ri_method = rt_method r, ri_full_path = rt_full_path r,
      ri_handler = rt_handler r, ri_passport_context_module = None\<rparr>"

definition with_passport_context_module :: "type_id option \<Rightarrow> route_identity \<Rightarrow> route_identity" where
  "with_passport_context_module context_module i = i\<lparr>ri_passport_context_module := context_module\<rparr>"

definition identity_matches :: "route_identity \<Rightarrow> controller_descriptor \<Rightarrow> route_descriptor \<Rightarrow> bool" where
  "identity_matches i c r \<longleftrightarrow> ri_controller i = cn_type_id c \<and> ri_method i = rt_method r \<and>
     ri_full_path i = rt_full_path r \<and> ri_handler i = rt_handler r"

record scoped_controller =
  sd_descriptor :: controller_descriptor
  sd_selected_routes :: "route_identity list"
  sd_context_module :: "type_id option"

definition scoped_selects :: "scoped_controller \<Rightarrow> route_descriptor \<Rightarrow> bool" where
  "scoped_selects sc r \<longleftrightarrow> list_ex (\<lambda>i. identity_matches i (sd_descriptor sc) r) (sd_selected_routes sc)"

definition scoped_passport_context_module :: "scoped_controller \<Rightarrow> route_descriptor \<Rightarrow> type_id option" where
  "scoped_passport_context_module sc r =
     (case find (\<lambda>i. identity_matches i (sd_descriptor sc) r) (sd_selected_routes sc) of
        None \<Rightarrow> None | Some i \<Rightarrow> ri_passport_context_module i)"

definition scoped_has_routes :: "scoped_controller \<Rightarrow> bool" where
  "scoped_has_routes sc \<longleftrightarrow> sd_selected_routes sc \<noteq> []"

record http_application_scope =
  hs_controllers :: "scoped_controller list"
  hs_guards :: "scoped_guard list"

definition scope_has_routes :: "http_application_scope \<Rightarrow> bool" where
  "scope_has_routes s \<longleftrightarrow> list_ex scoped_has_routes (hs_controllers s)"

definition route_records ::
    "http_application_scope \<Rightarrow> (controller_descriptor \<times> route_contract \<times> route_descriptor) list" where
  "route_records s =
     concat (map (\<lambda>sc. concat (map (\<lambda>contract.
       map (\<lambda>r. (sd_descriptor sc, contract, r)) (filter (scoped_selects sc) (ct_routes contract)))
       (cn_contracts (sd_descriptor sc)))) (hs_controllers s))"

definition http_owner_for_namespace :: "http_program \<Rightarrow> string option \<Rightarrow> module_descriptor option" where
  "http_owner_for_namespace P namespace = owner_of namespace (catalog_modules (hp_modules P))"

definition complete_controllers :: "http_program \<Rightarrow> scoped_controller list" where
  "complete_controllers P =
     map (\<lambda>c. \<lparr>sd_descriptor = c, sd_selected_routes = map (route_identity_new c) (routes_for_descriptor c),
         sd_context_module = None\<rparr>) (controller_cache (hp_controllers P))"

definition route_context ::
    "http_program \<Rightarrow> module_graph \<Rightarrow> type_id option \<Rightarrow> route_descriptor \<Rightarrow> type_id option" where
  "route_context P g controller_context r =
     (case http_owner_for_namespace P (rt_namespace r) of
        Some owner \<Rightarrow> if is_reachable g (md_type_id owner) then Some (md_type_id owner) else None
      | None \<Rightarrow> controller_context)"

text \<open>The module whose rules the guard of a route is resolved by.\<close>

definition passport_context_for ::
    "http_program \<Rightarrow> module_graph \<Rightarrow> type_id option \<Rightarrow> route_descriptor \<Rightarrow> type_id option" where
  "passport_context_for P g context r =
     (case rt_guard r of
        None \<Rightarrow> None
      | Some guard \<Rightarrow>
          (case http_owner_for_namespace P (gd_namespace guard) of
             Some owner \<Rightarrow> if is_reachable g (md_type_id owner) then Some (md_type_id owner) else context
           | None \<Rightarrow> context))"

definition rooted_route ::
    "http_program \<Rightarrow> module_graph \<Rightarrow> controller_descriptor \<Rightarrow> type_id option \<Rightarrow> route_descriptor \<Rightarrow>
     route_identity option" where
  "rooted_route P g c context_module r =
     (case route_context P g context_module r of
        None \<Rightarrow> None
      | Some context \<Rightarrow>
          Some (with_passport_context_module (passport_context_for P g (Some context) r) (route_identity_new c r)))"

definition rooted_controller :: "http_program \<Rightarrow> module_graph \<Rightarrow> controller_descriptor \<Rightarrow> scoped_controller option" where
  "rooted_controller P g c =
     (case http_owner_for_namespace P (cn_namespace c) of
        None \<Rightarrow> None
      | Some owner \<Rightarrow>
          if \<not> is_reachable g (md_type_id owner) then None
          else Some \<lparr>sd_descriptor = c,
            sd_selected_routes = List.map_filter (rooted_route P g c (Some (md_type_id owner))) (routes_for_descriptor c),
            sd_context_module = Some (md_type_id owner)\<rparr>)"

definition rooted_controllers :: "http_program \<Rightarrow> module_graph \<Rightarrow> scoped_controller list" where
  "rooted_controllers P g = List.map_filter (rooted_controller P g) (controller_cache (hp_controllers P))"

definition selected_guards ::
    "http_program \<Rightarrow> module_graph option \<Rightarrow> scoped_controller list \<Rightarrow> scoped_guard list" where
  "selected_guards P module_graph controllers =
     (case module_graph of
        None \<Rightarrow> map (\<lambda>guard. \<lparr>sg_guard = guard, sg_context_module = None\<rparr>) (guard_cache (hp_guards P))
      | Some _ \<Rightarrow>
          concat (map (\<lambda>sc.
            List.map_filter (\<lambda>r. map_option (\<lambda>guard.
                \<lparr>sg_guard = guard, sg_context_module = scoped_passport_context_module sc r\<rparr>) (rt_guard r))
              (filter (scoped_selects sc) (routes_for_descriptor (sd_descriptor sc)))) controllers))"

definition for_module_graph :: "http_program \<Rightarrow> module_graph option \<Rightarrow> http_application_scope" where
  "for_module_graph P module_graph =
     (let controllers = (case module_graph of
          None \<Rightarrow> complete_controllers P | Some g \<Rightarrow> rooted_controllers P g) in
      \<lparr>hs_controllers = controllers, hs_guards = selected_guards P module_graph controllers\<rparr>)"

definition for_rooted_inspection :: "http_program \<Rightarrow> module_graph option \<Rightarrow> http_application_scope" where
  "for_rooted_inspection P module_graph =
     (let controllers = (case module_graph of None \<Rightarrow> [] | Some g \<Rightarrow> rooted_controllers P g) in
      \<lparr>hs_controllers = controllers,
       hs_guards = (case module_graph of Some g \<Rightarrow> selected_guards P (Some g) controllers | None \<Rightarrow> [])\<rparr>)"

section \<open>Validation of the selection\<close>

definition scoped_selection :: "scoped_controller list \<Rightarrow> selector" where
  "scoped_selection scope = (\<lambda>c r.
     case find (\<lambda>sc. cn_address (sd_descriptor sc) = cn_address c) scope of
       None \<Rightarrow> selection_none
     | Some sc \<Rightarrow>
         \<lparr>rs_selected = scoped_selects sc r,
          rs_passport_context_module =
            (if scoped_selects sc r then scoped_passport_context_module sc r else None)\<rparr>)"

definition validate_scoped_descriptors :: "scoped_controller list \<Rightarrow> error + validated_controller list" where
  "validate_scoped_descriptors scope = validate_with_selection (map sd_descriptor scope) (scoped_selection scope)"

definition validated_for :: "http_program \<Rightarrow> module_graph option \<Rightarrow> error + validated_controller list" where
  "validated_for P module_graph = validate_scoped_descriptors (hs_controllers (for_module_graph P module_graph))"

section \<open>What belongs to an application\<close>

text \<open>
  The rule: a controller belongs to the deepest module whose namespace contains it, and is served
  when that module is part of the application. A route that is declared inside another module is
  served only when that module is part of the application too.
\<close>

definition in_scope :: "http_program \<Rightarrow> module_graph \<Rightarrow> string option \<Rightarrow> bool" where
  "in_scope P g namespace \<longleftrightarrow>
     (\<exists>owner. http_owner_for_namespace P namespace = Some owner \<and> is_reachable g (md_type_id owner))"

definition served :: "http_program \<Rightarrow> module_graph \<Rightarrow> controller_descriptor \<Rightarrow> route_descriptor \<Rightarrow> bool" where
  "served P g c r \<longleftrightarrow> in_scope P g (cn_namespace c) \<and>
     (http_owner_for_namespace P (rt_namespace r) = None \<or> in_scope P g (rt_namespace r))"

lemma find_address:
  assumes "distinct (map (cn_address \<circ> sd_descriptor) scope)" "sc \<in> set scope"
  shows "find (\<lambda>s. cn_address (sd_descriptor s) = cn_address (sd_descriptor sc)) scope = Some sc"
  using assms by (induction scope) (force simp: image_iff)+

lemma scoped_selection_member:
  assumes "distinct (map (cn_address \<circ> sd_descriptor) scope)" "sc \<in> set scope"
  shows "scoped_selection scope (sd_descriptor sc) r =
    \<lparr>rs_selected = scoped_selects sc r,
     rs_passport_context_module = (if scoped_selects sc r then scoped_passport_context_module sc r else None)\<rparr>"
  by (simp add: scoped_selection_def find_address [OF assms])

lemma scoped_selection_none:
  "rs_selected (scoped_selection scope c r) \<or> rs_passport_context_module (scoped_selection scope c r) = None"
  by (simp add: scoped_selection_def selection_none_def split: option.splits)

lemma rooted_controller_Some:
  assumes "rooted_controller P g c = Some sc"
  shows "sd_descriptor sc = c" "in_scope P g (cn_namespace c)"
    "\<exists>m. sd_context_module sc = Some m \<and>
      sd_selected_routes sc = List.map_filter (rooted_route P g c (Some m)) (routes_for_descriptor c)"
  using assms by (auto simp: rooted_controller_def in_scope_def split: option.splits if_splits)

lemma rooted_route_Some:
  "rooted_route P g c (Some m) r \<noteq> None \<longleftrightarrow>
     (http_owner_for_namespace P (rt_namespace r) = None \<or> in_scope P g (rt_namespace r))"
  by (auto simp: rooted_route_def route_context_def in_scope_def split: option.splits)

lemma rooted_route_matches:
  "rooted_route P g c m r = Some i \<Longrightarrow> identity_matches i c r' \<longleftrightarrow>
     rt_method r = rt_method r' \<and> rt_full_path r = rt_full_path r' \<and> rt_handler r = rt_handler r'"
  by (auto simp: rooted_route_def route_identity_new_def with_passport_context_module_def identity_matches_def
      split: option.splits)

text \<open>A rooted controller selects a route exactly when a served route of the controller looks like it.\<close>

lemma rooted_selects:
  assumes "rooted_controller P g c = Some sc"
  shows "scoped_selects sc r \<longleftrightarrow> (\<exists>r'\<in>set (routes_for_descriptor c). served P g c r' \<and>
    rt_method r' = rt_method r \<and> rt_full_path r' = rt_full_path r \<and> rt_handler r' = rt_handler r)"
proof -
  obtain m where m: "sd_selected_routes sc = List.map_filter (rooted_route P g c (Some m)) (routes_for_descriptor c)"
    using rooted_controller_Some(3) [OF assms] by blast
  have "scoped_selects sc r \<longleftrightarrow>
      (\<exists>r'\<in>set (routes_for_descriptor c). \<exists>i. rooted_route P g c (Some m) r' = Some i \<and> identity_matches i c r)"
    unfolding scoped_selects_def m rooted_controller_Some(1) [OF assms] list_ex_iff set_filter_map by blast
  also have "\<dots> \<longleftrightarrow> (\<exists>r'\<in>set (routes_for_descriptor c). rooted_route P g c (Some m) r' \<noteq> None \<and>
      rt_method r' = rt_method r \<and> rt_full_path r' = rt_full_path r \<and> rt_handler r' = rt_handler r)"
    using rooted_route_matches by blast
  finally show ?thesis
    unfolding rooted_route_Some served_def using rooted_controller_Some(2) [OF assms] by blast
qed


section \<open>The selection follows the rule\<close>

text \<open>
  The guard of a route is resolved by the module the guard is declared in when that module is part
  of the application, otherwise by the module of the route, otherwise by the one of the controller.
\<close>

definition rule_context :: "http_program \<Rightarrow> module_graph \<Rightarrow> controller_descriptor \<Rightarrow> route_descriptor \<Rightarrow> type_id option" where
  "rule_context P g c r =
     (let module_of = (\<lambda>namespace. case http_owner_for_namespace P namespace of
          None \<Rightarrow> None | Some owner \<Rightarrow> Some (md_type_id owner));
        reachable_of = (\<lambda>namespace. case module_of namespace of
          None \<Rightarrow> None | Some m \<Rightarrow> if is_reachable g m then Some m else None) in
      case rt_guard r of
        None \<Rightarrow> None
      | Some guard \<Rightarrow>
          (case reachable_of (gd_namespace guard) of
             Some m \<Rightarrow> Some m
           | None \<Rightarrow> (case reachable_of (rt_namespace r) of
                Some m \<Rightarrow> Some m | None \<Rightarrow> module_of (cn_namespace c))))"

definition rule_selection :: "http_program \<Rightarrow> module_graph \<Rightarrow> selector" where
  "rule_selection P g c r =
     \<lparr>rs_selected = served P g c r,
      rs_passport_context_module = (if served P g c r then rule_context P g c r else None)\<rparr>"

lemma rooted_route_context:
  assumes "rooted_route P g c (Some m) r = Some i" "http_owner_for_namespace P (cn_namespace c) = Some owner"
    "m = md_type_id owner"
  shows "ri_passport_context_module i = rule_context P g c r"
  using assms
  by (auto simp: rooted_route_def route_context_def passport_context_for_def rule_context_def Let_def
      with_passport_context_module_def route_identity_new_def split: option.splits if_splits)

lemma rooted_module:
  assumes "rooted_controller P g c = Some sc" "sd_context_module sc = Some m"
  shows "\<exists>owner. http_owner_for_namespace P (cn_namespace c) = Some owner \<and> m = md_type_id owner"
  using assms by (auto simp: rooted_controller_def split: option.splits if_splits)

text \<open>Routes of one controller that look alike to the selection are one route when all that is selected is unique.\<close>

lemma rooted_selection_rule:
  assumes sc: "rooted_controller P g c = Some sc" and r: "r \<in> set (routes_for_descriptor c)"
    and unique: "inj_on route_key {r \<in> set (routes_for_descriptor c). scoped_selects sc r}"
  shows "scoped_selects sc r = served P g c r"
    "scoped_selects sc r \<Longrightarrow> scoped_passport_context_module sc r = rule_context P g c r"
proof -
  have same: "r' = r" if "r' \<in> set (routes_for_descriptor c)" "served P g c r'" "scoped_selects sc r"
    "rt_method r' = rt_method r" "rt_full_path r' = rt_full_path r" for r'
    using inj_onD [OF unique, of r' r] rooted_selects [OF sc, of r'] that r by (auto simp: route_key_def)
  show eq: "scoped_selects sc r = served P g c r"
    using rooted_selects [OF sc, of r] same r by blast
  assume selected: "scoped_selects sc r"
  obtain m where m: "sd_context_module sc = Some m"
    "sd_selected_routes sc = List.map_filter (rooted_route P g c (Some m)) (routes_for_descriptor c)"
    using rooted_controller_Some(3) [OF sc] by blast
  obtain i where i: "find (\<lambda>i. identity_matches i c r) (sd_selected_routes sc) = Some i"
    using selected unfolding scoped_selects_def rooted_controller_Some(1) [OF sc] list_ex_iff
    by (cases "find (\<lambda>i. identity_matches i c r) (sd_selected_routes sc)") (auto simp: find_None_iff)
  then obtain r' where r': "r' \<in> set (routes_for_descriptor c)" "rooted_route P g c (Some m) r' = Some i"
    "identity_matches i c r"
    using find_SomeD [OF i] unfolding m(2) set_filter_map by blast
  have "served P g c r'"
    using rooted_route_Some [of P g c m r'] r'(2) rooted_controller_Some(2) [OF sc] unfolding served_def by blast
  then have "r' = r" using same r' rooted_route_matches [OF r'(2)] selected by blast
  then show "scoped_passport_context_module sc r = rule_context P g c r"
    using i r'(2) rooted_module [OF sc m(1)] rooted_route_context
    by (auto simp: scoped_passport_context_module_def rooted_controller_Some(1) [OF sc])
qed

text \<open>What is linked into an executable: static items have addresses of their own.\<close>

definition linked :: "http_program \<Rightarrow> bool" where
  "linked P \<longleftrightarrow> distinct (map cn_address (hp_controllers P)) \<and> distinct (map gd_address (hp_guards P))"

lemma rooted_addresses:
  assumes "linked P"
  shows "distinct (map (cn_address \<circ> sd_descriptor) (rooted_controllers P g))"
proof -
  have sub: "map (cn_address \<circ> sd_descriptor) (List.map_filter (rooted_controller P g) cs) =
      map cn_address (filter (\<lambda>c. rooted_controller P g c \<noteq> None) cs)" for cs
    by (induction cs) (auto simp: List.map_filter_simps rooted_controller_Some split: option.splits)
  have "mset (map cn_address (controller_cache (hp_controllers P))) = mset (map cn_address (hp_controllers P))"
    by (simp add: controller_cache_def)
  then have "distinct (map cn_address (controller_cache (hp_controllers P)))"
    using assms unfolding linked_def by (blast dest: mset_eq_imp_distinct_iff)
  then show ?thesis by (simp only: rooted_controllers_def sub distinct_map_filter)
qed


text \<open>Two selections that agree on the routes of the controllers are validated alike.\<close>

lemma application_ok_cong:
  assumes "\<And>c r. c \<in> set cs \<Longrightarrow> r \<in> set (routes_for_descriptor c) \<Longrightarrow> sel c r = sel' c r"
  shows "application_ok sel cs = application_ok sel' cs"
    "map (validated_of sel) cs = map (validated_of sel') cs"
proof -
  have "all_routes sel cs = all_routes sel' cs"
    unfolding all_routes_def selected_routes_def using assms
    by (intro arg_cong [of _ _ concat] map_cong refl filter_cong) auto
  then show "application_ok sel cs = application_ok sel' cs" by (simp add: application_ok_def)
  show "map (validated_of sel) cs = map (validated_of sel') cs"
    using assms by (auto simp: validated_of_def validated_route_of_def)
qed

lemma in_all_routes:
  "c \<in> set cs \<Longrightarrow> r \<in> set (routes_for_descriptor c) \<Longrightarrow> rs_selected (sel c r) \<Longrightarrow> r \<in> set (all_routes sel cs)"
  by (auto simp: all_routes_def selected_routes_def)

text \<open>The selection of a rooted application, on every route of a rooted controller.\<close>

lemma scope_selection:
  assumes linked: "linked P" and ok: "application_ok (scoped_selection (rooted_controllers P g))
      (map sd_descriptor (rooted_controllers P g))"
    and c: "c \<in> set (map sd_descriptor (rooted_controllers P g))" and r: "r \<in> set (routes_for_descriptor c)"
  shows "scoped_selection (rooted_controllers P g) c r = rule_selection P g c r"
proof -
  let ?scope = "rooted_controllers P g"
  obtain sc where sc: "sc \<in> set ?scope" "sd_descriptor sc = c" using c by auto
  then have root: "rooted_controller P g c = Some sc"
    using rooted_controller_Some(1) unfolding rooted_controllers_def set_filter_map by blast
  have sel: "scoped_selection ?scope c r' = \<lparr>rs_selected = scoped_selects sc r',
     rs_passport_context_module = (if scoped_selects sc r' then scoped_passport_context_module sc r' else None)\<rparr>" for r'
    by (rule scoped_selection_member [OF rooted_addresses [OF linked] sc(1), unfolded sc(2)])
  have inj: "inj_on route_key (set (all_routes (scoped_selection ?scope) (map sd_descriptor ?scope)))"
    using ok unfolding application_ok_def distinct_map by blast
  have all: "a \<in> set (all_routes (scoped_selection ?scope) (map sd_descriptor ?scope))"
    if "a \<in> set (routes_for_descriptor c)" "scoped_selects sc a" for a
  proof -
    have "rs_selected (scoped_selection ?scope c a)" unfolding sel using that(2) by simp
    then show ?thesis by (rule in_all_routes [OF c that(1)])
  qed
  have unique: "inj_on route_key {r \<in> set (routes_for_descriptor c). scoped_selects sc r}"
    by (rule inj_on_subset [OF inj]) (use all in blast)
  show ?thesis
  proof (cases "scoped_selects sc r")
    case True
    with rooted_selection_rule(1) [OF root r unique] rooted_selection_rule(2) [OF root r unique True]
    show ?thesis by (simp add: sel rule_selection_def)
  next
    case False
    with rooted_selection_rule(1) [OF root r unique] show ?thesis by (simp add: sel rule_selection_def)
  qed
qed

lemma guards_listed:
  assumes "sc \<in> set controllers" "r \<in> set (routes_for_descriptor (sd_descriptor sc))" "scoped_selects sc r"
    "rt_guard r = Some guard"
  shows "\<lparr>sg_guard = guard, sg_context_module = scoped_passport_context_module sc r\<rparr>
    \<in> set (selected_guards P (Some g) controllers)"
  using assms by (force simp: selected_guards_def set_filter_map)

section \<open>Claims\<close>

lemma rooted_descriptors:
  "map sd_descriptor (rooted_controllers P g) =
     filter (\<lambda>c. in_scope P g (cn_namespace c)) (controller_cache (hp_controllers P))"
proof -
  have some: "rooted_controller P g c \<noteq> None \<longleftrightarrow> in_scope P g (cn_namespace c)" for c
    by (auto simp: rooted_controller_def in_scope_def split: option.splits)
  have "map sd_descriptor (List.map_filter (rooted_controller P g) cs) =
      filter (\<lambda>c. rooted_controller P g c \<noteq> None) cs" for cs
    by (induction cs) (auto simp: List.map_filter_simps rooted_controller_Some split: option.splits)
  then show ?thesis unfolding rooted_controllers_def by (simp only: some)
qed

lemma scope_controllers: "hs_controllers (for_module_graph P (Some g)) = rooted_controllers P g"
  by (simp add: for_module_graph_def Let_def)

lemma validated_inr:
  assumes "validated_for P (Some g) = Inr vs"
  shows "application_ok (scoped_selection (rooted_controllers P g)) (map sd_descriptor (rooted_controllers P g))"
    "vs = map (validated_of (scoped_selection (rooted_controllers P g)))
       (controllers_in_order (map sd_descriptor (rooted_controllers P g)))"
proof -
  let ?ds = "map sd_descriptor (rooted_controllers P g)" and ?sel = "scoped_selection (rooted_controllers P g)"
  have run: "validate_with_selection ?ds ?sel = Inr vs"
    using assms unfolding validated_for_def validate_scoped_descriptors_def scope_controllers .
  show ok: "application_ok ?sel ?ds"
    using validate_correct [of ?sel ?ds] run by (cases "application_ok ?sel ?ds") auto
  show "vs = map (validated_of ?sel) (controllers_in_order ?ds)"
    using validate_correct [of ?sel ?ds] run ok by simp
qed

text \<open>
  C29: A rooted application serves exactly what its modules declare. When the routes of a rooted
  application are valid, the controllers that are registered are those whose deepest enclosing
  module is part of the application, in catalog order, and of their routes exactly those that are
  not declared inside a module outside the application, each with the module of its guard. The
  selection is kept by what routes look like and still never confuses two routes.
\<close>

theorem rooted_application_exact:
  assumes "linked P" "validated_for P (Some g) = Inr vs"
  shows "vs = map (validated_of (rule_selection P g))
    (controllers_in_order (filter (\<lambda>c. in_scope P g (cn_namespace c)) (controller_cache (hp_controllers P))))"
proof -
  have "scoped_selection (rooted_controllers P g) c r = rule_selection P g c r"
    if "c \<in> set (controllers_in_order (map sd_descriptor (rooted_controllers P g)))" "r \<in> set (routes_for_descriptor c)"
    for c r
    using scope_selection [OF assms(1) validated_inr(1) [OF assms(2)]] that by (simp add: controllers_in_order_def)
  from application_ok_cong(2) [OF this] show ?thesis
    unfolding validated_inr(2) [OF assms(2)] rooted_descriptors by simp
qed

definition users_routes :: "route_descriptor list" where
  "users_routes =
     [\<lparr>rt_method = Get, rt_prefix = ''/u'', rt_path = ''/'', rt_full_path = ''/u'', rt_handler = ''all'',
       rt_namespace = Some ''app'', rt_location = SourceLocation ''u.rs'' 1 1, rt_guard = None\<rparr>,
      \<lparr>rt_method = Put, rt_prefix = ''/u'', rt_path = ''/'', rt_full_path = ''/u'', rt_handler = ''set'',
       rt_namespace = Some ''etc'', rt_location = SourceLocation ''u.rs'' 2 1, rt_guard = None\<rparr>]"

definition users_program :: http_program where
  "users_program =
     (let m = (\<lambda>name i. \<lparr>md_type_name = name, md_type_id = i, md_namespace = Some name, md_imports = [],
        md_location = SourceLocation ''m.rs'' 1 1\<rparr>) in
      \<lparr>hp_controllers = [\<lparr>cn_address = 1, cn_type_name = ''Users'', cn_type_id = 7, cn_namespace = Some ''app::web'',
          cn_contracts = [\<lparr>ct_trait_name = ''Api'', ct_routes = users_routes\<rparr>], cn_registrar = Some 0\<rparr>],
       hp_guards = [], hp_modules = [m ''app'' 1, m ''etc'' 2]\<rparr>)"

definition users_graph :: module_graph where
  "users_graph = \<lparr>mg_root = 0, mg_modules = [\<lparr>mn_type_id = 1, mn_type_name = ''app'',
     mn_namespace = ''app'', mn_location = SourceLocation ''m.rs'' 1 1\<rparr>], mg_imports = [],
     mg_provider_ownership = []\<rparr>"

theorem rooted_application_exact_witness:
  "\<exists>vs. validated_for users_program (Some users_graph) = Inr vs \<and>
    vs = map (validated_of (rule_selection users_program users_graph))
      (controllers_in_order (filter (\<lambda>c. in_scope users_program users_graph (cn_namespace c))
        (controller_cache (hp_controllers users_program)))) \<and>
    map (map vr_selected \<circ> vc_routes) vs = [[True, False]]"
proof -
  have linked: "linked users_program" by code_simp
  have run: "case validated_for users_program (Some users_graph) of Inl e \<Rightarrow> False
    | Inr vs \<Rightarrow> map (map vr_selected \<circ> vc_routes) vs = [[True, False]]" by code_simp
  then obtain vs where vs: "validated_for users_program (Some users_graph) = Inr vs"
    by (cases "validated_for users_program (Some users_graph)") simp_all
  show ?thesis
    using rooted_application_exact [OF linked vs] run unfolding vs by (intro exI [of _ vs]) simp
qed

end
