(* ===== verification/Passport_Strategy.thy ===== *)
theory Passport_Strategy
  imports Http_Scope
begin

text \<open>
  Passport strategies (\<open>crates/mads-common/src/passport/strategy.rs\<close>): the descriptors of the
  strategies an application declares, their validation, and the preflight that selects for every
  guard the one strategy that authenticates it, before the application starts.

  The strategies and providers that are linked into the executable are the record
  \<open>passport_program\<close>. \<open>preflight_exact\<close> states when the preflight succeeds and what it selects.
\<close>

section \<open>Descriptors\<close>

datatype jwt_token_kind = Access | Refresh

fun claim_value :: "jwt_token_kind \<Rightarrow> string" where
  "claim_value Access = ''access''"
| "claim_value Refresh = ''refresh''"

record strategy_descriptor =
  sr_name :: string
  sr_provider_type_id :: type_id
  sr_provider_type_name :: string
  sr_namespace :: "string option"
  sr_claims_type_id :: type_id
  sr_claims_type_name :: string
  sr_principal_type_id :: type_id
  sr_principal_type_name :: string
  sr_token_kind :: jwt_token_kind
  sr_location :: source_location
  sr_adapter :: adapter_ref

definition strategy_new ::
    "string \<Rightarrow> type_id \<Rightarrow> string \<Rightarrow> type_id \<Rightarrow> string \<Rightarrow> type_id \<Rightarrow> string \<Rightarrow> jwt_token_kind \<Rightarrow>
     source_location \<Rightarrow> adapter_ref \<Rightarrow> strategy_descriptor" where
  "strategy_new name provider_type_id provider_type_name claims_type_id claims_type_name principal_type_id
     principal_type_name token_kind location adapter =
     \<lparr>sr_name = name, sr_provider_type_id = provider_type_id, sr_provider_type_name = provider_type_name,
      sr_namespace = None, sr_claims_type_id = claims_type_id, sr_claims_type_name = claims_type_name,
      sr_principal_type_id = principal_type_id, sr_principal_type_name = principal_type_name,
      sr_token_kind = token_kind, sr_location = location, sr_adapter = adapter\<rparr>"

definition strategy_with_namespace :: "string \<Rightarrow> strategy_descriptor \<Rightarrow> strategy_descriptor" where
  "strategy_with_namespace namespace s = s\<lparr>sr_namespace := Some namespace\<rparr>"

definition strategy_order :: "strategy_descriptor \<Rightarrow> strategy_descriptor \<Rightarrow> ordering" where
  "strategy_order left right =
     then_with (cmp (sr_name left) (sr_name right))
       (then_with (cmp (sr_provider_type_name left) (sr_provider_type_name right))
         (then_with (cmp (sr_namespace left) (sr_namespace right))
           (location_order (sr_location left) (sr_location right))))"

definition strategy_cache :: "strategy_descriptor list \<Rightarrow> strategy_descriptor list" where
  "strategy_cache registered = sort_by strategy_order registered"

record passport_program =
  pp_http :: http_program
  pp_strategies :: "strategy_descriptor list"
  pp_providers :: "provider_descriptor list"

record strategy_binding =
  sb_guard :: guard_descriptor
  sb_context_module :: "type_id option"
  sb_strategy :: string
  sb_adapter :: adapter_ref
  sb_token_kind :: jwt_token_kind
  sb_builtin :: bool

definition binding_for :: "strategy_binding list \<Rightarrow> guard_descriptor \<Rightarrow> type_id option \<Rightarrow> strategy_binding option" where
  "binding_for bindings guard context_module =
     find (\<lambda>b. gd_address (sb_guard b) = gd_address guard \<and> sb_context_module b = context_module) bindings"

section \<open>Validation of the catalog\<close>

definition "MADS130 = DiagnosticCode ''MADS130''"

definition strategy_error :: "string \<Rightarrow> string \<Rightarrow> string \<Rightarrow> string \<Rightarrow> source_location \<Rightarrow> string \<Rightarrow> error" where
  "strategy_error reason title subject message location suggestion =
     error_new (with_suggestion suggestion (with_location location (with_subject subject
       (diagnostic_new MADS130 title (reason @ '': '' @ message)))))"

text \<open>\<open>chunk_by\<close>: the longest runs of neighbours that are alike.\<close>

fun chunk_by :: "('a \<Rightarrow> 'a \<Rightarrow> bool) \<Rightarrow> 'a list \<Rightarrow> 'a list list" where
  "chunk_by same [] = []"
| "chunk_by same [x] = [[x]]"
| "chunk_by same (x # y # ys) =
     (if same x y
      then (case chunk_by same (y # ys) of [] \<Rightarrow> [[x]] | g # gs \<Rightarrow> (x # g) # gs)
      else [x] # chunk_by same (y # ys))"

definition duplicate_strategy_error :: "strategy_descriptor list \<Rightarrow> panic + diagnostic" where
  "duplicate_strategy_error chunk =
     and_then (expect ''duplicate strategy groups always have an entry''
         (case chunk of [] \<Rightarrow> None | s # _ \<Rightarrow> Some s)) (\<lambda>strategy.
       Inr (with_suggestion ''use a unique Passport strategy name''
         (with_location (sr_location strategy) (with_subject (sr_name strategy)
           (diagnostic_new MADS130 ''duplicate Passport strategy''
             ''duplicate_strategy: more than one managed strategy uses this name'')))))"

definition validate_unique_strategy_names :: "strategy_descriptor list \<Rightarrow> failure + unit" where
  "validate_unique_strategy_names strategies =
     (case filter (\<lambda>chunk. length chunk > 1) (chunk_by (\<lambda>a b. sr_name a = sr_name b) strategies) of
        [] \<Rightarrow> Inr ()
      | first # rest \<Rightarrow>
          and_then (or_panic (duplicate_strategy_error first)) (\<lambda>primary.
          and_then (or_panic (try_map duplicate_strategy_error rest)) (\<lambda>related.
          Inl (Failed (from_diagnostics primary related)))))"

definition reserved_mismatch :: "strategy_descriptor \<Rightarrow> jwt_token_kind \<Rightarrow> string \<Rightarrow> error + unit" where
  "reserved_mismatch s expected suggestion =
     (if sr_token_kind s = expected then Inr ()
      else Inl (strategy_error ''reserved_strategy_token_kind'' ''Passport strategy token kind mismatch'' (sr_name s)
        (''the reserved `'' @ sr_name s @ ''` strategy accepts only '' @ claim_value expected
          @ '' tokens, but its adapter declares '' @ claim_value (sr_token_kind s) @ '' tokens'')
        (sr_location s) suggestion))"

definition validate_reserved_strategy_token_kind :: "strategy_descriptor \<Rightarrow> error + unit" where
  "validate_reserved_strategy_token_kind s =
     (if sr_name s = ''jwt''
      then reserved_mismatch s Access ''declare `JwtTokenKind::Access` for the reserved `jwt` strategy''
      else if sr_name s = ''jwt-refresh''
      then reserved_mismatch s Refresh ''declare `JwtTokenKind::Refresh` for the reserved `jwt-refresh` strategy''
      else Inr ())"

definition provider_matches_strategy :: "strategy_descriptor \<Rightarrow> provider_descriptor \<Rightarrow> bool" where
  "provider_matches_strategy s p \<longleftrightarrow>
     pd_type_id p = sr_provider_type_id s \<and> pd_runtime_type_name p = Some (sr_provider_type_name s)"

definition validate_strategy :: "provider_descriptor list \<Rightarrow> strategy_descriptor \<Rightarrow> error + unit" where
  "validate_strategy providers s =
     and_then (validate_reserved_strategy_token_kind s) (\<lambda>_.
     case filter (provider_matches_strategy s) providers of
       [_] \<Rightarrow> Inr ()
     | [] \<Rightarrow> Inl (strategy_error ''unmanaged_strategy'' ''unmanaged Passport strategy'' (sr_provider_type_name s)
         ''the strategy implementation is not registered as exactly one managed provider'' (sr_location s)
         ''annotate the concrete strategy type with a MADS managed-provider attribute'')
     | _ \<Rightarrow> Inl (strategy_error ''ambiguous_strategy'' ''ambiguous Passport strategy provider'' (sr_provider_type_name s)
         ''more than one managed provider descriptor matches this strategy implementation'' (sr_location s)
         ''retain exactly one managed provider declaration for the strategy type''))"

definition validate_strategy_metadata :: "passport_program \<Rightarrow> strategy_descriptor list \<Rightarrow> error + unit" where
  "validate_strategy_metadata P strategies =
     (let providers = catalog_providers (pp_providers P) in
      try_fold (\<lambda>s _. validate_strategy providers s) strategies ())"

definition validate_strategy_catalog :: "passport_program \<Rightarrow> strategy_descriptor list \<Rightarrow> failure + unit" where
  "validate_strategy_catalog P strategies =
     and_then (validate_unique_strategy_names strategies)
       (\<lambda>_. or_error (validate_strategy_metadata P strategies))"

section \<open>Selection\<close>

definition resolve_custom_strategy :: "guard_descriptor \<Rightarrow> strategy_descriptor \<Rightarrow> failure + strategy_binding" where
  "resolve_custom_strategy guard s =
     and_then (or_panic (expect ''guard metadata was validated before strategy resolution''
         (gd_principal_type_id guard))) (\<lambda>principal_type_id.
     if principal_type_id \<noteq> sr_principal_type_id s
     then and_then (or_panic (expect ''guard metadata was validated before strategy resolution''
            (gd_principal_type_name guard))) (\<lambda>principal_type_name.
          Inl (Failed (strategy_error ''principal_mismatch'' ''Passport strategy principal mismatch''
            (gd_requirement_subject guard)
            (''the guard requires `'' @ principal_type_name @ ''` but strategy `'' @ sr_name s @ ''` returns `''
              @ sr_principal_type_name s @ ''`'')
            (gd_location guard) ''declare the strategy principal type requested by the guard'')))
     else Inr \<lparr>sb_guard = guard, sb_context_module = None, sb_strategy = sr_name s, sb_adapter = sr_adapter s,
       sb_token_kind = sr_token_kind s, sb_builtin = False\<rparr>)"

definition missing_strategy :: "guard_descriptor \<Rightarrow> error" where
  "missing_strategy guard =
     strategy_error ''missing_strategy'' ''missing Passport strategy'' (gd_requirement_subject guard)
       (''no managed strategy named `'' @ gd_strategy guard @ ''` can authenticate this guard'')
       (gd_location guard)
       ''register a matching managed Passport strategy or use ClaimsPrincipal<C> with `jwt`''"

definition resolve_builtin_or_missing :: "guard_descriptor \<Rightarrow> failure + strategy_binding" where
  "resolve_builtin_or_missing guard =
     (case (gd_strategy guard = ''jwt'', gd_builtin_adapter guard) of
        (True, Some adapter) \<Rightarrow> Inr \<lparr>sb_guard = guard, sb_context_module = None, sb_strategy = ''jwt'',
          sb_adapter = adapter, sb_token_kind = Access, sb_builtin = True\<rparr>
      | _ \<Rightarrow> Inl (Failed (missing_strategy guard)))"

definition resolve_guard :: "strategy_descriptor list \<Rightarrow> guard_descriptor \<Rightarrow> failure + strategy_binding" where
  "resolve_guard strategies guard =
     (case find (\<lambda>s. sr_name s = gd_strategy guard) strategies of
        Some s \<Rightarrow> resolve_custom_strategy guard s
      | None \<Rightarrow> resolve_builtin_or_missing guard)"

definition strategy_visible :: "module_graph \<Rightarrow> type_id \<Rightarrow> type_id \<Rightarrow> provider_visibility \<Rightarrow> bool" where
  "strategy_visible g guard_context strategy_owner visibility \<longleftrightarrow>
     guard_context = strategy_owner \<or> (visibility = Public \<and> directly_imports g guard_context strategy_owner)"

definition scoped_strategy_visible ::
    "passport_program \<Rightarrow> module_graph option \<Rightarrow> type_id option \<Rightarrow> provider_descriptor list \<Rightarrow>
     strategy_descriptor \<Rightarrow> panic + bool" where
  "scoped_strategy_visible P module_graph guard_context providers s =
     (case (module_graph, guard_context) of
        (Some g, Some context) \<Rightarrow>
          (case sr_namespace s of
             None \<Rightarrow> Inr False
           | Some namespace \<Rightarrow>
               (case http_owner_for_namespace (pp_http P) (Some namespace) of
                  None \<Rightarrow> Inr False
                | Some owner \<Rightarrow>
                    and_then (expect ''strategy metadata was validated before scoped resolution''
                        (find (provider_matches_strategy s) providers)) (\<lambda>provider.
                      Inr (strategy_visible g context (md_type_id owner) (pd_visibility provider)))))
      | _ \<Rightarrow> Inr True)"

definition ambiguous_scoped_strategy_error ::
    "(type_id \<Rightarrow> string) \<Rightarrow> guard_descriptor \<Rightarrow> type_id option \<Rightarrow> strategy_descriptor list \<Rightarrow> error" where
  "ambiguous_scoped_strategy_error debug_type_id guard guard_context candidates =
     (let context_name = (case guard_context of
            None \<Rightarrow> ''complete Passport catalog'' | Some context \<Rightarrow> debug_type_id context) in
      from_diagnostics
        (with_suggestion ''retain one context-visible Passport strategy for this guard''
          (with_location (gd_location guard) (with_subject (gd_requirement_subject guard)
            (diagnostic_new MADS130 ''ambiguous Passport strategy''
              (''ambiguous_strategy: guard context `'' @ context_name
                @ ''` can see more than one managed strategy named `'' @ gd_strategy guard @ ''`'')))))
        (map (\<lambda>s. with_location (sr_location s) (with_subject (sr_name s)
            (diagnostic_new MADS130 ''visible Passport strategy candidate''
              (''candidate_strategy: `'' @ sr_provider_type_name s @ ''` is visible to guard context `''
                @ context_name @ ''`'')))) candidates))"

text \<open>The filter of \<open>resolve_scoped_guard\<close>, whose second predicate can panic.\<close>

fun try_filter :: "('a \<Rightarrow> 'e + bool) \<Rightarrow> 'a list \<Rightarrow> 'e + 'a list" where
  "try_filter p [] = Inr []"
| "try_filter p (x # xs) =
     and_then (p x) (\<lambda>keep. and_then (try_filter p xs) (\<lambda>ys. Inr (if keep then x # ys else ys)))"

definition resolve_scoped_guard ::
    "(type_id \<Rightarrow> string) \<Rightarrow> passport_program \<Rightarrow> module_graph option \<Rightarrow> strategy_descriptor list \<Rightarrow>
     provider_descriptor list \<Rightarrow> scoped_guard \<Rightarrow> failure + strategy_binding" where
  "resolve_scoped_guard debug_type_id P module_graph strategies providers sg =
     (let guard = sg_guard sg in
      and_then (or_panic (try_filter (scoped_strategy_visible P module_graph (sg_context_module sg) providers)
          (filter (\<lambda>s. sr_name s = gd_strategy guard) strategies))) (\<lambda>candidates.
      case candidates of
        [] \<Rightarrow> resolve_builtin_or_missing guard
      | [s] \<Rightarrow> resolve_custom_strategy guard s
      | _ \<Rightarrow> Inl (Failed (ambiguous_scoped_strategy_error debug_type_id guard (sg_context_module sg) candidates))))"

section \<open>Preflight\<close>

definition preflight :: "passport_program \<Rightarrow> guard_descriptor list \<Rightarrow> failure + strategy_binding list" where
  "preflight P guards =
     and_then (or_error (validate_guard_descriptors guards)) (\<lambda>_.
     let strategies = strategy_cache (pp_strategies P) in
     and_then (validate_strategy_catalog P strategies) (\<lambda>_.
     try_map (resolve_guard strategies) (sort_by guard_order guards)))"

definition preflight_scoped ::
    "(type_id \<Rightarrow> string) \<Rightarrow> passport_program \<Rightarrow> module_graph option \<Rightarrow> scoped_guard list \<Rightarrow>
     failure + strategy_binding list" where
  "preflight_scoped debug_type_id P module_graph guards =
     and_then (or_error (validate_guard_descriptors (map sg_guard guards))) (\<lambda>_.
     let strategies = strategy_cache (pp_strategies P) in
     and_then (if module_graph = None then validate_strategy_catalog P strategies
               else or_error (validate_strategy_metadata P strategies)) (\<lambda>_.
     let providers = catalog_providers (pp_providers P) in
     try_map (\<lambda>sg.
         and_then (resolve_scoped_guard debug_type_id P module_graph strategies providers sg)
           (\<lambda>binding. Inr (binding\<lparr>sb_context_module := sg_context_module sg\<rparr>)))
       (sort_by (\<lambda>left right. guard_order (sg_guard left) (sg_guard right)) guards)))"


section \<open>What the preflight accepts\<close>

definition reserved_ok :: "strategy_descriptor \<Rightarrow> bool" where
  "reserved_ok s \<longleftrightarrow> (sr_name s = ''jwt'' \<longrightarrow> sr_token_kind s = Access) \<and>
     (sr_name s = ''jwt-refresh'' \<longrightarrow> sr_token_kind s = Refresh)"

definition strategy_ok :: "passport_program \<Rightarrow> strategy_descriptor \<Rightarrow> bool" where
  "strategy_ok P s \<longleftrightarrow> reserved_ok s \<and> (\<exists>p. filter (provider_matches_strategy s) (pp_providers P) = [p])"

text \<open>
  The strategies a guard can use: without a module graph all of them, otherwise those of its own
  module and those of the modules it imports whose provider is public.
\<close>

definition sees :: "passport_program \<Rightarrow> module_graph option \<Rightarrow> type_id option \<Rightarrow> strategy_descriptor \<Rightarrow> bool" where
  "sees P module_graph guard_context s \<longleftrightarrow>
     (case (module_graph, guard_context) of
        (Some g, Some m) \<Rightarrow>
          (\<exists>namespace owner. sr_namespace s = Some namespace \<and>
             http_owner_for_namespace (pp_http P) (Some namespace) = Some owner \<and>
             (m = md_type_id owner \<or>
              directly_imports g m (md_type_id owner) \<and>
              (\<exists>p\<in>set (pp_providers P). provider_matches_strategy s p \<and> pd_visibility p = Public)))
      | _ \<Rightarrow> True)"

definition usable :: "passport_program \<Rightarrow> module_graph option \<Rightarrow> scoped_guard \<Rightarrow> strategy_descriptor list" where
  "usable P module_graph sg =
     filter (\<lambda>s. sr_name s = gd_strategy (sg_guard sg) \<and> sees P module_graph (sg_context_module sg) s)
       (strategy_cache (pp_strategies P))"

definition resolvable :: "passport_program \<Rightarrow> module_graph option \<Rightarrow> scoped_guard \<Rightarrow> bool" where
  "resolvable P module_graph sg \<longleftrightarrow>
     (case usable P module_graph sg of
        [] \<Rightarrow> gd_strategy (sg_guard sg) = ''jwt'' \<and> gd_builtin_adapter (sg_guard sg) \<noteq> None
      | [s] \<Rightarrow> gd_principal_type_id (sg_guard sg) = Some (sr_principal_type_id s)
      | _ \<Rightarrow> False)"

definition chosen :: "passport_program \<Rightarrow> module_graph option \<Rightarrow> scoped_guard \<Rightarrow> strategy_binding" where
  "chosen P module_graph sg =
     (case usable P module_graph sg of
        [] \<Rightarrow> \<lparr>sb_guard = sg_guard sg, sb_context_module = sg_context_module sg, sb_strategy = ''jwt'',
          sb_adapter = the (gd_builtin_adapter (sg_guard sg)), sb_token_kind = Access, sb_builtin = True\<rparr>
      | s # _ \<Rightarrow> \<lparr>sb_guard = sg_guard sg, sb_context_module = sg_context_module sg, sb_strategy = sr_name s,
          sb_adapter = sr_adapter s, sb_token_kind = sr_token_kind s, sb_builtin = False\<rparr>)"

definition preflight_ok :: "passport_program \<Rightarrow> module_graph option \<Rightarrow> scoped_guard list \<Rightarrow> bool" where
  "preflight_ok P module_graph guards \<longleftrightarrow>
     (\<forall>sg\<in>set guards. guard_ok (sg_guard sg)) \<and>
     (module_graph = None \<longrightarrow> distinct (map sr_name (pp_strategies P))) \<and>
     (\<forall>s\<in>set (pp_strategies P). strategy_ok P s) \<and>
     (\<forall>sg\<in>set guards. resolvable P module_graph sg)"

section \<open>Each step\<close>

lemma chunk_by_nonempty: "xs \<noteq> [] \<Longrightarrow> \<exists>g gs. chunk_by same xs = g # gs"
  by (induction same xs rule: chunk_by.induct) (auto split: list.splits)

lemma chunk_nonempty: "g \<in> set (chunk_by same xs) \<Longrightarrow> g \<noteq> []"
  by (induction same xs arbitrary: g rule: chunk_by.induct) (auto split: if_splits list.splits)

lemma chunks_single:
  fixes key :: "'a \<Rightarrow> 'k::linorder"
  assumes "sorted (map key xs)"
  shows "filter (\<lambda>g. length g > 1) (chunk_by (\<lambda>a b. key a = key b) xs) = [] \<longleftrightarrow> distinct (map key xs)"
  using assms
proof (induction "\<lambda>a b. key a = key b" xs rule: chunk_by.induct)
  case (3 x y ys)
  obtain g gs where g: "chunk_by (\<lambda>a b. key a = key b) (y # ys) = g # gs"
    using chunk_by_nonempty [of "y # ys"] by blast
  then have "g \<noteq> []" using chunk_nonempty [of g "\<lambda>a b. key a = key b" "y # ys"] by simp
  show ?case
  proof (cases "key x = key y")
    case True
    with g \<open>g \<noteq> []\<close> show ?thesis by simp
  next
    case False
    with 3(3) have "key x \<notin> key ` set (y # ys)" by auto
    with False 3 g show ?thesis by auto
  qed
qed simp_all

lemma strategy_order_cmp_on: "strategy_order =
    cmp_on (\<lambda>s. (sr_name s, sr_provider_type_name s, sr_namespace s, location_key (sr_location s)))"
  by (simp add: fun_eq_iff strategy_order_def cmp_on_def cmp_simps)

interpretation strategies: comparator strategy_order
  unfolding strategy_order_cmp_on by (rule comparator_cmp_on)

lemma sorted_names: "sorted (map sr_name (strategy_cache ss))"
proof -
  have "strategy_order a b \<noteq> Greater \<Longrightarrow> sr_name a \<le> sr_name b" for a b
    by (auto simp: strategy_order_cmp_on cmp_on_def)
  then have "sorted_wrt (\<lambda>a b. sr_name a \<le> sr_name b) (strategy_cache ss)"
    unfolding strategy_cache_def by (rule sorted_wrt_mono_rel [OF _ strategies.sort_by_sorted])
  then show ?thesis by (simp add: sorted_map)
qed

text \<open>A failure of the strategies: an error with code \<open>MADS130\<close> and no panic.\<close>

definition fails_with :: "diagnostic_code \<Rightarrow> failure + 'a \<Rightarrow> bool" where
  "fails_with code r \<longleftrightarrow> (\<exists>e. r = Inl (Failed e) \<and> error_code e = Inr code)"

lemma fails_with_simps [simp]:
  "\<not> fails_with c (Inr x)" "\<not> fails_with c (Inl (Panicked p))"
  "fails_with c (Inl (Failed e)) \<longleftrightarrow> error_code e = Inr c"
  by (simp_all add: fails_with_def)

lemma fails_with_and_then: "fails_with c r \<Longrightarrow> fails_with c (and_then r k)"
  by (auto simp: fails_with_def)

lemma code_strategy_error [simp]: "error_code (strategy_error r t s m l g) = Inr MADS130"
  by (simp add: strategy_error_def diagnostic_builders)

lemma duplicate_error: "g \<noteq> [] \<Longrightarrow> \<exists>d. duplicate_strategy_error g = Inr d \<and> diag_code d = MADS130"
  by (cases g) (auto simp: duplicate_strategy_error_def diagnostic_builders)

lemma try_map_total: "(\<And>x. x \<in> set xs \<Longrightarrow> \<exists>y. f x = Inr y) \<Longrightarrow> \<exists>ys. try_map f xs = Inr ys"
proof (induction xs)
  case (Cons x xs)
  from Cons.prems [of x] Cons.IH Cons.prems show ?case by fastforce
qed simp

lemma unique_names:
  "if distinct (map sr_name ss) then validate_unique_strategy_names (strategy_cache ss) = Inr ()
   else fails_with MADS130 (validate_unique_strategy_names (strategy_cache ss))"
proof -
  let ?dups = "filter (\<lambda>g. length g > 1) (chunk_by (\<lambda>a b. sr_name a = sr_name b) (strategy_cache ss))"
  have none: "?dups = [] \<longleftrightarrow> distinct (map sr_name ss)"
    unfolding chunks_single [OF sorted_names] by (simp add: strategy_cache_def)
  show ?thesis
  proof (cases ?dups)
    case Nil
    then show ?thesis using none by (simp add: validate_unique_strategy_names_def)
  next
    case (Cons first rest)
    then have ne: "g \<noteq> []" if "g \<in> set (first # rest)" for g
    proof -
      from that have "g \<in> set ?dups" unfolding Cons .
      then show ?thesis using chunk_nonempty by auto
    qed
    obtain d where d: "duplicate_strategy_error first = Inr d" "diag_code d = MADS130"
      using duplicate_error [OF ne] by auto
    have "\<exists>y. duplicate_strategy_error g = Inr y" if "g \<in> set rest" for g
      using duplicate_error [OF ne [of g]] that by auto
    from try_map_total [of rest duplicate_strategy_error, OF this] obtain ds where "try_map duplicate_strategy_error rest = Inr ds" by blast
    with d Cons none show ?thesis by (simp add: validate_unique_strategy_names_def)
  qed
qed

lemma reserved: "validate_reserved_strategy_token_kind s = Inr () \<longleftrightarrow> reserved_ok s"
  by (simp add: validate_reserved_strategy_token_kind_def reserved_mismatch_def reserved_ok_def)

lemma reserved_error: "validate_reserved_strategy_token_kind s = Inl e \<Longrightarrow> error_code e = Inr MADS130"
  by (auto simp: validate_reserved_strategy_token_kind_def reserved_mismatch_def split: if_splits)

lemma single_provider:
  "(\<exists>p. filter q (catalog_providers ps) = [p]) \<longleftrightarrow> (\<exists>p. filter q ps = [p])"
  unfolding catalog_providers_def filter_sort_by_singleton ..

lemma validate_one_strategy:
  "if strategy_ok P s then validate_strategy (catalog_providers (pp_providers P)) s = Inr ()
   else \<exists>e. validate_strategy (catalog_providers (pp_providers P)) s = Inl e \<and> error_code e = Inr MADS130"
proof (cases "validate_reserved_strategy_token_kind s")
  case (Inl e)
  then have "\<not> reserved_ok s" using reserved [of s] by simp
  with Inl reserved_error [OF Inl] show ?thesis by (simp add: validate_strategy_def strategy_ok_def)
next
  case (Inr u)
  then have "reserved_ok s" using reserved [of s] by simp
  then have "strategy_ok P s \<longleftrightarrow> (\<exists>p. filter (provider_matches_strategy s) (catalog_providers (pp_providers P)) = [p])"
    by (simp add: strategy_ok_def single_provider)
  with Inr show ?thesis by (auto simp: validate_strategy_def split: list.splits)
qed


lemma metadata:
  "if \<forall>s\<in>set (pp_strategies P). strategy_ok P s
   then validate_strategy_metadata P (strategy_cache (pp_strategies P)) = Inr ()
   else \<exists>e. validate_strategy_metadata P (strategy_cache (pp_strategies P)) = Inl e \<and> error_code e = Inr MADS130"
proof -
  let ?f = "validate_strategy (catalog_providers (pp_providers P))" and ?ss = "strategy_cache (pp_strategies P)"
  have run: "validate_strategy_metadata P ?ss = try_fold (\<lambda>s _. ?f s) ?ss ()"
    by (simp add: validate_strategy_metadata_def)
  have set: "set ?ss = set (pp_strategies P)" by (simp add: strategy_cache_def)
  have each: "?f s = Inr () \<longleftrightarrow> strategy_ok P s" "?f s = Inl e \<Longrightarrow> error_code e = Inr MADS130" for s e
    using validate_one_strategy [of P s] by (auto split: if_splits)
  have ok: "validate_strategy_metadata P ?ss = Inr () \<longleftrightarrow> (\<forall>s\<in>set (pp_strategies P). strategy_ok P s)"
    unfolding run try_fold_units(1) set each(1) ..
  show ?thesis
  proof (cases "validate_strategy_metadata P ?ss")
    case (Inl e)
    then have "error_code e = Inr MADS130" unfolding run using try_fold_units(2) each(2) by blast
    with Inl ok show ?thesis by simp
  next
    case (Inr u)
    with ok show ?thesis by simp
  qed
qed

text \<open>The visibility of a strategy whose provider is linked exactly once.\<close>

lemma visible:
  assumes "strategy_ok P s"
  shows "scoped_strategy_visible P module_graph context (catalog_providers (pp_providers P)) s =
    Inr (sees P module_graph context s)"
proof -
  obtain p where p: "filter (provider_matches_strategy s) (pp_providers P) = [p]"
    using assms by (auto simp: strategy_ok_def)
  then have sorted: "filter (provider_matches_strategy s) (catalog_providers (pp_providers P)) = [p]"
    by (simp add: catalog_providers_def filter_sort_by_singleton)
  have "find (provider_matches_strategy s) xs = Some p" if "filter (provider_matches_strategy s) xs = [p]" for xs
    using that by (induction xs) (auto split: if_splits)
  note found = this [OF sorted]
  have only: "(\<exists>q\<in>set (pp_providers P). provider_matches_strategy s q \<and> pd_visibility q = Public) \<longleftrightarrow>
      pd_visibility p = Public"
  proof -
    have "{q \<in> set (pp_providers P). provider_matches_strategy s q} = {p}"
      using arg_cong [OF p, of set] by simp
    then have "q \<in> set (pp_providers P) \<and> provider_matches_strategy s q \<longleftrightarrow> q = p" for q by blast
    then show ?thesis by metis
  qed
  show ?thesis
    unfolding scoped_strategy_visible_def sees_def only
    by (auto simp: found strategy_visible_def split: option.splits)
qed

lemma try_filter_total:
  "(\<And>x. x \<in> set xs \<Longrightarrow> p x = Inr (q x)) \<Longrightarrow> try_filter p xs = Inr (filter q xs)"
  by (induction xs) auto

lemma candidates:
  assumes "\<forall>s\<in>set (pp_strategies P). strategy_ok P s"
  shows "try_filter (scoped_strategy_visible P module_graph (sg_context_module sg) (catalog_providers (pp_providers P)))
      (filter (\<lambda>s. sr_name s = gd_strategy (sg_guard sg)) (strategy_cache (pp_strategies P))) =
    Inr (usable P module_graph sg)"
proof -
  have "try_filter (scoped_strategy_visible P module_graph (sg_context_module sg) (catalog_providers (pp_providers P)))
      (filter (\<lambda>s. sr_name s = gd_strategy (sg_guard sg)) (strategy_cache (pp_strategies P))) =
    Inr (filter (sees P module_graph (sg_context_module sg))
      (filter (\<lambda>s. sr_name s = gd_strategy (sg_guard sg)) (strategy_cache (pp_strategies P))))"
    by (rule try_filter_total, rule visible) (use assms in \<open>simp add: strategy_cache_def\<close>)
  then show ?thesis by (simp add: usable_def conj_commute)
qed

lemma code_missing [simp]: "error_code (missing_strategy g) = Inr MADS130"
  by (simp add: missing_strategy_def)

lemma code_ambiguous [simp]: "error_code (ambiguous_scoped_strategy_error d g c ss) = Inr MADS130"
  by (simp add: ambiguous_scoped_strategy_error_def diagnostic_builders Let_def)

lemma resolve_candidates:
  assumes "\<forall>s\<in>set (pp_strategies P). strategy_ok P s"
  shows "resolve_scoped_guard debug P module_graph (strategy_cache (pp_strategies P)) (catalog_providers (pp_providers P)) sg =
    (case usable P module_graph sg of
       [] \<Rightarrow> resolve_builtin_or_missing (sg_guard sg)
     | [s] \<Rightarrow> resolve_custom_strategy (sg_guard sg) s
     | _ \<Rightarrow> Inl (Failed (ambiguous_scoped_strategy_error debug (sg_guard sg) (sg_context_module sg)
         (usable P module_graph sg))))"
  unfolding resolve_scoped_guard_def Let_def candidates [OF assms] by (simp split: list.splits)

lemma resolve_one:
  assumes "\<forall>s\<in>set (pp_strategies P). strategy_ok P s" "guard_ok (sg_guard sg)"
  shows "if resolvable P module_graph sg
    then \<exists>b. resolve_scoped_guard debug P module_graph (strategy_cache (pp_strategies P))
        (catalog_providers (pp_providers P)) sg = Inr b \<and>
      b\<lparr>sb_context_module := sg_context_module sg\<rparr> = chosen P module_graph sg
    else fails_with MADS130 (resolve_scoped_guard debug P module_graph (strategy_cache (pp_strategies P))
      (catalog_providers (pp_providers P)) sg)"
proof -
  obtain t n where t: "gd_principal_type_id (sg_guard sg) = Some t" "gd_principal_type_name (sg_guard sg) = Some n"
    using assms(2) by (auto simp: guard_ok_def)
  consider "usable P module_graph sg = []" | s where "usable P module_graph sg = [s]"
    | s s' ss where "usable P module_graph sg = s # s' # ss"
    by (cases "usable P module_graph sg" rule: remdups_adj.cases) auto
  then show ?thesis
  proof cases
    case 1
    then show ?thesis
      unfolding resolve_candidates [OF assms(1)]
      by (cases "gd_strategy (sg_guard sg) = ''jwt''"; cases "gd_builtin_adapter (sg_guard sg)")
        (simp_all add: resolvable_def chosen_def resolve_builtin_or_missing_def)
  qed (simp_all add: resolve_candidates [OF assms(1)] resolvable_def chosen_def resolve_custom_strategy_def t)
qed

lemma try_map_eq: "(\<And>x. x \<in> set xs \<Longrightarrow> f x = Inr (g x)) \<Longrightarrow> try_map f xs = Inr (map g xs)"
  by (induction xs) auto

lemma try_map_fails:
  assumes "\<And>x. x \<in> set xs \<Longrightarrow> (\<exists>y. f x = Inr y) \<or> fails_with c (f x)" "x \<in> set xs" "fails_with c (f x)"
  shows "fails_with c (try_map f xs)"
  using assms
proof (induction xs)
  case (Cons a xs)
  show ?case
  proof (cases "f a")
    case (Inl e)
    with Cons.prems(1) [of a] show ?thesis by (simp add: fails_with_def)
  next
    case (Inr y)
    with Cons.prems(3) have "x \<noteq> a" by auto
    with Cons have "fails_with c (try_map f xs)" by auto
    with Inr show ?thesis by (simp add: fails_with_and_then)
  qed
qed simp

section \<open>The preflight\<close>

definition in_guard_order :: "scoped_guard list \<Rightarrow> scoped_guard list" where
  "in_guard_order guards = sort_by (\<lambda>left right. guard_order (sg_guard left) (sg_guard right)) guards"

lemma bindings_of:
  assumes ok: "\<forall>s\<in>set (pp_strategies P). strategy_ok P s" and guards: "\<forall>sg\<in>set guards. guard_ok (sg_guard sg)"
  shows "if \<forall>sg\<in>set guards. resolvable P module_graph sg
    then try_map (\<lambda>sg. and_then (resolve_scoped_guard debug P module_graph (strategy_cache (pp_strategies P))
          (catalog_providers (pp_providers P)) sg)
        (\<lambda>binding. Inr (binding\<lparr>sb_context_module := sg_context_module sg\<rparr>))) guards =
      Inr (map (chosen P module_graph) guards)
    else fails_with MADS130 (try_map (\<lambda>sg. and_then (resolve_scoped_guard debug P module_graph
          (strategy_cache (pp_strategies P)) (catalog_providers (pp_providers P)) sg)
        (\<lambda>binding. Inr (binding\<lparr>sb_context_module := sg_context_module sg\<rparr>))) guards)"
    (is "if _ then try_map ?f guards = _ else _")
proof -
  have each: "?f sg = Inr (chosen P module_graph sg)" if "sg \<in> set guards" "resolvable P module_graph sg" for sg
    using resolve_one [OF ok, of sg module_graph debug] guards that by auto
  have bad: "fails_with MADS130 (?f sg)" if "sg \<in> set guards" "\<not> resolvable P module_graph sg" for sg
    using resolve_one [OF ok, of sg module_graph debug] guards that by (simp add: fails_with_and_then)
  show ?thesis
  proof (cases "\<forall>sg\<in>set guards. resolvable P module_graph sg")
    case True
    with each show ?thesis by (simp add: try_map_eq)
  next
    case False
    then obtain sg where sg: "sg \<in> set guards" "\<not> resolvable P module_graph sg" by blast
    have "fails_with MADS130 (try_map ?f guards)"
    proof (rule try_map_fails)
      show "(\<exists>y. ?f x = Inr y) \<or> fails_with MADS130 (?f x)" if "x \<in> set guards" for x
        using each [OF that] bad [OF that] by blast
    qed (rule sg(1), rule bad [OF sg])
    with False show ?thesis by (simp only: if_False)
  qed
qed


lemma preflight_exact:
  "if preflight_ok P module_graph guards
   then preflight_scoped debug P module_graph guards =
     Inr (map (chosen P module_graph) (in_guard_order guards))
   else fails_with MADS131 (preflight_scoped debug P module_graph guards) \<or>
     fails_with MADS130 (preflight_scoped debug P module_graph guards)"
proof (cases "validate_guard_descriptors (map sg_guard guards)")
  case (Inl e)
  then have "fails_with MADS131 (preflight_scoped debug P module_graph guards)"
    using validate_descriptors_error [OF Inl] by (simp add: preflight_scoped_def)
  moreover have "\<not> preflight_ok P module_graph guards"
    using Inl validate_descriptors_ok [of "map sg_guard guards"] by (auto simp: preflight_ok_def)
  ultimately show ?thesis by simp
next
  case (Inr u)
  then have guards: "\<forall>sg\<in>set guards. guard_ok (sg_guard sg)"
    using validate_descriptors_ok [of "map sg_guard guards"] by simp
  define catalog where "catalog =
    (if module_graph = None then validate_strategy_catalog P (strategy_cache (pp_strategies P))
     else or_error (validate_strategy_metadata P (strategy_cache (pp_strategies P))))"
  let ?ok = "(module_graph = None \<longrightarrow> distinct (map sr_name (pp_strategies P))) \<and>
    (\<forall>s\<in>set (pp_strategies P). strategy_ok P s)"
  have catalog: "if ?ok then catalog = Inr () else fails_with MADS130 catalog"
    using unique_names [of "pp_strategies P"] metadata [of P]
    by (auto simp: catalog_def validate_strategy_catalog_def fails_with_and_then split: if_splits)
  show ?thesis
  proof (cases ?ok)
    case False
    then have "fails_with MADS130 (preflight_scoped debug P module_graph guards)"
      using catalog Inr by (simp add: preflight_scoped_def fails_with_and_then flip: catalog_def)
    moreover have "\<not> preflight_ok P module_graph guards" using False by (auto simp: preflight_ok_def)
    ultimately show ?thesis by simp
  next
    case True
    then have ok: "\<forall>s\<in>set (pp_strategies P). strategy_ok P s" by blast
    have set: "set (in_guard_order guards) = set guards" by (simp add: in_guard_order_def)
    have iff: "preflight_ok P module_graph guards \<longleftrightarrow> (\<forall>sg\<in>set guards. resolvable P module_graph sg)"
      using guards True by (simp add: preflight_ok_def)
    have "catalog = Inr ()" using catalog True by simp
    then have run: "preflight_scoped debug P module_graph guards =
        try_map (\<lambda>sg. and_then (resolve_scoped_guard debug P module_graph (strategy_cache (pp_strategies P))
            (catalog_providers (pp_providers P)) sg)
          (\<lambda>binding. Inr (binding\<lparr>sb_context_module := sg_context_module sg\<rparr>))) (in_guard_order guards)"
      using Inr by (simp add: preflight_scoped_def in_guard_order_def flip: catalog_def)
    show ?thesis
      using bindings_of [OF ok, of "in_guard_order guards" module_graph debug] guards
      unfolding set iff run by (simp split: if_splits)
  qed
qed

section \<open>Bindings\<close>

lemma preflight_Inr:
  assumes "preflight_scoped debug P module_graph guards = Inr bindings"
  shows "preflight_ok P module_graph guards" "bindings = map (chosen P module_graph) (in_guard_order guards)"
  using preflight_exact [of P module_graph guards debug] assms by (simp_all split: if_splits)

lemma binding_for_chosen:
  assumes "preflight_scoped debug P module_graph guards = Inr bindings" "sg \<in> set guards"
    and linked: "\<And>sg'. sg' \<in> set guards \<Longrightarrow> gd_address (sg_guard sg') = gd_address (sg_guard sg) \<Longrightarrow> sg_guard sg' = sg_guard sg"
  shows "binding_for bindings (sg_guard sg) (sg_context_module sg) = Some (chosen P module_graph sg)"
proof -
  have fields: "sb_guard (chosen P module_graph x) = sg_guard x"
    "sb_context_module (chosen P module_graph x) = sg_context_module x" for x
    by (simp_all add: chosen_def split: list.splits)
  let ?p = "\<lambda>b. gd_address (sb_guard b) = gd_address (sg_guard sg) \<and> sb_context_module b = sg_context_module sg"
  have set: "set bindings = chosen P module_graph ` set guards"
    unfolding preflight_Inr(2) [OF assms(1)] by (simp add: in_guard_order_def)
  have only: "b = chosen P module_graph sg" if b: "b \<in> set bindings" "?p b" for b
  proof -
    obtain x where x: "x \<in> set guards" "b = chosen P module_graph x" using b(1) set by blast
    have guard: "sg_guard x = sg_guard sg"
    proof (rule linked [OF x(1)])
      show "gd_address (sg_guard x) = gd_address (sg_guard sg)"
        using conjunct1 [OF b(2)] unfolding x(2) fields .
    qed
    have "sg_context_module x = sg_context_module sg"
      using conjunct2 [OF b(2)] unfolding x(2) fields .
    from scoped_guard.equality [OF guard this] have "x = sg" by simp
    with x(2) show ?thesis by simp
  qed
  have "?p (chosen P module_graph sg)" "chosen P module_graph sg \<in> set bindings"
    using assms(2) by (simp_all add: fields set)
  then have "find ?p bindings \<noteq> None" by (auto simp: find_None_iff)
  then obtain b where b: "find ?p bindings = Some b" by auto
  from only find_SomeD [OF b] b show ?thesis unfolding binding_for_def by simp
qed


section \<open>Guards without a module graph\<close>

definition unscoped :: "guard_descriptor \<Rightarrow> scoped_guard" where
  "unscoped guard = \<lparr>sg_guard = guard, sg_context_module = None\<rparr>"

lemma insert_by_map:
  "insert_by order (f x) (map f xs) = map f (insert_by (\<lambda>a b. order (f a) (f b)) x xs)"
  by (induction xs) auto

lemma sort_by_map: "sort_by order (map f xs) = map f (sort_by (\<lambda>a b. order (f a) (f b)) xs)"
  by (induction xs) (simp_all add: insert_by_map)

lemma try_map_map: "try_map f (map g xs) = try_map (f \<circ> g) xs"
  by (induction xs) auto

lemma find_filter: "find p xs = (case filter p xs of [] \<Rightarrow> None | x # _ \<Rightarrow> Some x)"
  by (induction xs) auto

lemma unique_name_filter:
  assumes "distinct (map sr_name ss)"
  shows "\<exists>s. filter (\<lambda>s. sr_name s = n) ss = [] \<or> filter (\<lambda>s. sr_name s = n) ss = [s]"
  using assms
proof (induction ss)
  case (Cons s ss)
  have "filter (\<lambda>s. sr_name s = n) ss = []" if "sr_name s = n" 
    using that Cons.prems unfolding filter_empty_conv by (metis distinct.simps(2) image_eqI list.set_map list.simps(9))
  with Cons show ?case by auto
qed simp

lemma resolve_unscoped:
  assumes "distinct (map sr_name strategies)"
  shows "and_then (resolve_scoped_guard debug P None strategies providers (unscoped guard))
      (\<lambda>b. Inr (b\<lparr>sb_context_module := None\<rparr>)) = resolve_guard strategies guard"
proof -
  have all: "try_filter (scoped_strategy_visible P None ctx providers) xs = Inr xs" for ctx xs
    by (induction xs) (auto simp: scoped_strategy_visible_def)
  have custom: "and_then (resolve_custom_strategy guard s) (\<lambda>b. Inr (b\<lparr>sb_context_module := None\<rparr>)) =
      resolve_custom_strategy guard s" for s
    by (cases "gd_principal_type_id guard"; cases "gd_principal_type_name guard") (auto simp: resolve_custom_strategy_def)
  have builtin: "and_then (resolve_builtin_or_missing guard) (\<lambda>b. Inr (b\<lparr>sb_context_module := None\<rparr>)) =
      resolve_builtin_or_missing guard"
    by (auto simp: resolve_builtin_or_missing_def split: option.splits bool.splits)
  from unique_name_filter [OF assms, of "gd_strategy guard"] obtain s where
    "filter (\<lambda>s. sr_name s = gd_strategy guard) strategies = [] \<or> filter (\<lambda>s. sr_name s = gd_strategy guard) strategies = [s]"
    by blast
  then show ?thesis
    by (auto simp: resolve_scoped_guard_def resolve_guard_def find_filter unscoped_def all custom builtin)
qed

text \<open>The two preflights agree on what has no module graph.\<close>

lemma preflight_unscoped: "preflight P guards = preflight_scoped debug P None (map unscoped guards)"
proof -
  have fields: "sg_guard (unscoped g) = g" "sg_context_module (unscoped g) = None" for g
    by (simp_all add: unscoped_def)
  have order: "sort_by (\<lambda>left right. guard_order (sg_guard left) (sg_guard right)) (map unscoped guards) =
      map unscoped (sort_by guard_order guards)"
    by (simp add: sort_by_map fields)
  let ?ss = "strategy_cache (pp_strategies P)"
  show ?thesis
  proof (cases "distinct (map sr_name (pp_strategies P))")
    case True
    then have unique: "distinct (map sr_name ?ss)" by (simp add: strategy_cache_def)
    have "try_map (\<lambda>sg. and_then (resolve_scoped_guard debug P None ?ss (catalog_providers (pp_providers P)) sg)
          (\<lambda>b. Inr (b\<lparr>sb_context_module := sg_context_module sg\<rparr>))) (map unscoped gs) =
        try_map (resolve_guard ?ss) gs" for gs
      by (induction gs) (simp_all add: fields resolve_unscoped [OF unique])
    then show ?thesis by (simp add: preflight_def preflight_scoped_def order comp_def fields)
  next
    case False
    then have "fails_with MADS130 (validate_strategy_catalog P ?ss)"
      using unique_names [of "pp_strategies P"] by (simp add: validate_strategy_catalog_def fails_with_and_then)
    then show ?thesis by (auto simp: preflight_def preflight_scoped_def comp_def fields fails_with_def)
  qed
qed


section \<open>Claims\<close>

text \<open>
  C28: The preflight selects exactly one strategy for every guard, or none at all. It succeeds exactly
  when all guards are valid, no two strategies share a name where there are no modules, every strategy
  has one managed provider and keeps the token kind its reserved name promises, and every guard can
  use exactly one strategy of its name (that of its own module, or a public one of a module it
  imports) with the principal type the guard requires, or else is a plain \<open>jwt\<close> guard with the
  built-in adapter. The bindings then are those strategies in guard order; everything else is an
  error with code MADS130 or MADS131, and never a panic.
\<close>

theorem preflight_selects_exactly:
  "if preflight_ok P module_graph guards
   then preflight_scoped debug P module_graph guards =
     Inr (map (chosen P module_graph) (in_guard_order guards))
   else fails_with MADS131 (preflight_scoped debug P module_graph guards) \<or>
     fails_with MADS130 (preflight_scoped debug P module_graph guards)"
  by (rule preflight_exact)

text \<open>
  The preflight of an application without a module graph is the preflight of the complete
  catalog: resolving a guard by the first strategy of its name and resolving it among the strategies
  it can see give the same bindings and the same errors.
\<close>

theorem rootless_preflights_agree:
  "preflight P guards = preflight_scoped debug P None (map unscoped guards)"
  by (rule preflight_unscoped)

end
