(* ===== verification/Http_Cookie.thy ===== *)
theory Http_Cookie
  imports Http_Text BTree
begin

text \<open>
  Strict cookie extraction (\<open>crates/mads-common/src/cookie.rs\<close>). Header maps, the parser of one
  cookie and the jar of the web framework are libraries; what the adapter calls of them is the
  record \<open>http_library\<close>, an argument of every definition that uses it. A jar counts how often each
  name occurs in the request, which is what lets a caller refuse an ambiguous cookie.
\<close>

section \<open>The libraries\<close>

datatype same_site = SameSiteStrict | SameSiteLax | SameSiteNone

text \<open>
  \<open>'h\<close> is a header map, \<open>'v\<close> a header value, \<open>'j\<close> the jar of the framework, \<open>'c\<close> a cookie.
\<close>

record ('h, 'v, 'j, 'c) http_library =
  hl_get_all :: "'h \<Rightarrow> string \<Rightarrow> 'v list"
  hl_remove :: "'h \<Rightarrow> string \<Rightarrow> 'h"
  hl_to_str :: "'v \<Rightarrow> string option"
  hl_parse_encoded :: "string \<Rightarrow> 'c option"
  hl_cookie_name :: "'c \<Rightarrow> string"
  hl_cookie_value :: "'c \<Rightarrow> string"
  hl_same_site :: "'c \<Rightarrow> same_site option"
  hl_secure :: "'c \<Rightarrow> bool option"
  hl_encoded :: "'c \<Rightarrow> string"
  hl_value_from_str :: "string \<Rightarrow> 'v option"
  hl_jar_new :: 'j
  hl_jar_from_headers :: "'h \<Rightarrow> 'j"
  hl_jar_get :: "'j \<Rightarrow> string \<Rightarrow> 'c option"
  hl_jar_iter :: "'j \<Rightarrow> 'c list"
  hl_jar_add :: "'j \<Rightarrow> 'c \<Rightarrow> 'j"
  hl_jar_remove :: "'j \<Rightarrow> 'c \<Rightarrow> 'j"

section \<open>Errors\<close>

datatype cookie_error_kind = MalformedRequest | InvalidResponse

fun show_cookie_error :: "cookie_error_kind \<Rightarrow> string" where
  "show_cookie_error MalformedRequest = ''cookie request is malformed''"
| "show_cookie_error InvalidResponse = ''response cookie is invalid''"

fun cookie_rejection :: "cookie_error_kind \<Rightarrow> nat \<times> string" where
  "cookie_rejection MalformedRequest = (400, show_cookie_error MalformedRequest)"
| "cookie_rejection InvalidResponse = (500, show_cookie_error InvalidResponse)"

section \<open>The jar\<close>

datatype 'c pending_cookie = PendingAdd 'c | PendingRemove 'c

fun pending_value :: "'c pending_cookie \<Rightarrow> 'c" where
  "pending_value (PendingAdd c) = c"
| "pending_value (PendingRemove c) = c"

record ('j, 'c) cookie_jar =
  cj_inner :: 'j
  cj_occurrences :: "(string, nat) btree_map"
  cj_parsed_count :: nat
  cj_pending :: "'c pending_cookie list"

definition jar_new :: "('h, 'v, 'j, 'c) http_library \<Rightarrow> ('j, 'c) cookie_jar" where
  "jar_new L = \<lparr>cj_inner = hl_jar_new L, cj_occurrences = [], cj_parsed_count = 0, cj_pending = []\<rparr>"

fun has_valid_percent_escapes :: "string \<Rightarrow> bool" where
  "has_valid_percent_escapes [] = True"
| "has_valid_percent_escapes (c # cs) =
     (if c = CHR ''%''
      then (case cs of
          a # b # rest \<Rightarrow> is_ascii_hexdigit a \<and> is_ascii_hexdigit b \<and> has_valid_percent_escapes rest
        | _ \<Rightarrow> False)
      else has_valid_percent_escapes cs)"

definition is_valid_cookie_name :: "string \<Rightarrow> bool" where
  "is_valid_cookie_name s \<longleftrightarrow> s \<noteq> [] \<and>
     list_all (\<lambda>c. is_ascii_alphanumeric c \<or> c \<in> set ''!#$%&'' \<or> c = CHR 0x27 \<or> c \<in> set ''*+-.^_'' \<or>
       c = CHR 0x60 \<or> c \<in> set ''|~'') s"

definition count_segment ::
    "('h, 'v, 'j, 'c) http_library \<Rightarrow> string \<Rightarrow> (string, nat) btree_map \<times> nat \<Rightarrow>
     cookie_error_kind + (string, nat) btree_map \<times> nat" where
  "count_segment L segment = (\<lambda>(occurrences, parsed_count).
     let segment = trim segment in
     if segment = [] \<or> \<not> has_valid_percent_escapes segment then Inl MalformedRequest
     else and_then (ok_or MalformedRequest (hl_parse_encoded L segment)) (\<lambda>parsed.
       let name = hl_cookie_name L parsed in
       if \<not> is_valid_cookie_name name then Inl MalformedRequest
       else
         let seen = (case bmap_get name occurrences of None \<Rightarrow> 0 | Some n \<Rightarrow> n) in
         Inr (bmap_insert name (seen + 1) occurrences, parsed_count + 1)))"

definition count_header ::
    "('h, 'v, 'j, 'c) http_library \<Rightarrow> 'v \<Rightarrow> (string, nat) btree_map \<times> nat \<Rightarrow>
     cookie_error_kind + (string, nat) btree_map \<times> nat" where
  "count_header L value s =
     and_then (ok_or MalformedRequest (hl_to_str L value)) (\<lambda>header.
       try_fold (count_segment L) (split_on (CHR '';'') header) s)"

definition from_headers ::
    "('h, 'v, 'j, 'c) http_library \<Rightarrow> 'h \<Rightarrow> cookie_error_kind + ('j, 'c) cookie_jar" where
  "from_headers L headers =
     and_then (try_fold (count_header L) (hl_get_all L headers ''cookie'') ([], 0)) (\<lambda>(occurrences, parsed_count).
       Inr \<lparr>cj_inner = hl_jar_from_headers L headers, cj_occurrences = occurrences,
         cj_parsed_count = parsed_count, cj_pending = []\<rparr>)"

definition jar_get :: "('h, 'v, 'j, 'c) http_library \<Rightarrow> ('j, 'c) cookie_jar \<Rightarrow> string \<Rightarrow> 'c option" where
  "jar_get L jar name = hl_jar_get L (cj_inner jar) name"

definition jar_iter :: "('h, 'v, 'j, 'c) http_library \<Rightarrow> ('j, 'c) cookie_jar \<Rightarrow> 'c list" where
  "jar_iter L jar = hl_jar_iter L (cj_inner jar)"

definition jar_occurrences :: "('j, 'c) cookie_jar \<Rightarrow> string \<Rightarrow> nat" where
  "jar_occurrences jar name = (case bmap_get name (cj_occurrences jar) of None \<Rightarrow> 0 | Some n \<Rightarrow> n)"

definition jar_add :: "('h, 'v, 'j, 'c) http_library \<Rightarrow> 'c \<Rightarrow> ('j, 'c) cookie_jar \<Rightarrow> ('j, 'c) cookie_jar" where
  "jar_add L c jar = jar\<lparr>cj_pending := cj_pending jar @ [PendingAdd c], cj_inner := hl_jar_add L (cj_inner jar) c\<rparr>"

definition jar_remove :: "('h, 'v, 'j, 'c) http_library \<Rightarrow> 'c \<Rightarrow> ('j, 'c) cookie_jar \<Rightarrow> ('j, 'c) cookie_jar" where
  "jar_remove L c jar = jar\<lparr>cj_pending := cj_pending jar @ [PendingRemove c], cj_inner := hl_jar_remove L (cj_inner jar) c\<rparr>"

definition validate_pending :: "('h, 'v, 'j, 'c) http_library \<Rightarrow> ('j, 'c) cookie_jar \<Rightarrow> cookie_error_kind + unit" where
  "validate_pending L jar =
     try_fold (\<lambda>pending _.
         let c = pending_value pending in
         if hl_same_site L c = Some SameSiteNone \<and> hl_secure L c = Some False then Inl InvalidResponse
         else and_then (ok_or InvalidResponse (hl_value_from_str L (hl_encoded L c))) (\<lambda>_. Inr ()))
       (cj_pending jar) ()"

section \<open>What is counted\<close>

text \<open>
  The cookies of a request as the framework reads them: the segments of all cookie headers, and the
  request is well formed when each of them is a cookie with a legal name.
\<close>

definition cookie_texts :: "('h, 'v, 'j, 'c) http_library \<Rightarrow> 'h \<Rightarrow> string list option" where
  "cookie_texts L headers =
     (let texts = map (hl_to_str L) (hl_get_all L headers ''cookie'') in
      if None \<in> set texts then None
      else Some (concat (map (\<lambda>t. map trim (split_on (CHR '';'') (the t))) texts)))"

definition cookie_segment_ok :: "('h, 'v, 'j, 'c) http_library \<Rightarrow> string \<Rightarrow> bool" where
  "cookie_segment_ok L segment \<longleftrightarrow> segment \<noteq> [] \<and> has_valid_percent_escapes segment \<and>
     (case hl_parse_encoded L segment of None \<Rightarrow> False | Some c \<Rightarrow> is_valid_cookie_name (hl_cookie_name L c))"

definition cookie_names :: "('h, 'v, 'j, 'c) http_library \<Rightarrow> 'h \<Rightarrow> string list option" where
  "cookie_names L headers =
     (case cookie_texts L headers of
        None \<Rightarrow> None
      | Some segments \<Rightarrow>
          if list_all (cookie_segment_ok L) segments
          then Some (map (\<lambda>s. hl_cookie_name L (the (hl_parse_encoded L s))) segments) else None)"

definition name_counts :: "string list \<Rightarrow> (string, nat) btree_map \<Rightarrow> bool" where
  "name_counts names m \<longleftrightarrow> bmap_ok m \<and>
     (\<forall>n. (case bmap_get n m of None \<Rightarrow> 0 | Some k \<Rightarrow> k) = count (mset names) n)"

lemma count_segment_step:
  assumes "name_counts names m"
  shows "if cookie_segment_ok L (trim segment)
    then \<exists>m'. count_segment L segment (m, k) = Inr (m', k + 1) \<and>
      name_counts (names @ [hl_cookie_name L (the (hl_parse_encoded L (trim segment)))]) m'
    else count_segment L segment (m, k) = Inl MalformedRequest"
proof (cases "cookie_segment_ok L (trim segment)")
  case True
  then obtain c where c: "hl_parse_encoded L (trim segment) = Some c" "is_valid_cookie_name (hl_cookie_name L c)"
    by (auto simp: cookie_segment_ok_def split: option.splits)
  let ?n = "hl_cookie_name L c"
  let ?m = "bmap_insert ?n ((case bmap_get ?n m of None \<Rightarrow> 0 | Some n \<Rightarrow> n) + 1) m"
  have "name_counts (names @ [?n]) ?m"
    using assms by (auto simp: name_counts_def bmap_ok_insert bmap_get_insert)
  with True c show ?thesis by (auto simp: count_segment_def cookie_segment_ok_def Let_def)
next
  case False
  then show ?thesis
    by (auto simp: count_segment_def cookie_segment_ok_def Let_def split: option.splits)
qed

lemma count_segments:
  assumes "name_counts names m"
  shows "if list_all (\<lambda>s. cookie_segment_ok L (trim s)) segments
    then \<exists>m'. try_fold (count_segment L) segments (m, k) = Inr (m', k + length segments) \<and>
      name_counts (names @ map (\<lambda>s. hl_cookie_name L (the (hl_parse_encoded L (trim s)))) segments) m'
    else try_fold (count_segment L) segments (m, k) = Inl MalformedRequest"
  using assms
proof (induction segments arbitrary: names m k)
  case (Cons s segments)
  show ?case
  proof (cases "cookie_segment_ok L (trim s)")
    case True
    with count_segment_step [OF Cons.prems, of L s k] obtain m' where m':
      "count_segment L s (m, k) = Inr (m', k + 1)"
      "name_counts (names @ [hl_cookie_name L (the (hl_parse_encoded L (trim s)))]) m'" by auto
    from Cons.IH [OF m'(2), of "k + 1"] True m'(1) show ?thesis by (simp add: algebra_simps split: if_splits)
  next
    case False
    with count_segment_step [OF Cons.prems, of L s k] show ?thesis by simp
  qed
qed simp

lemma count_headers:
  assumes "name_counts names m"
  shows "if None \<notin> set (map (hl_to_str L) vals) \<and>
      list_all (cookie_segment_ok L) (concat (map (\<lambda>t. map trim (split_on (CHR '';'') (the t))) (map (hl_to_str L) vals)))
    then \<exists>m' k'. try_fold (count_header L) vals (m, k) = Inr (m', k') \<and>
      name_counts (names @ map (\<lambda>s. hl_cookie_name L (the (hl_parse_encoded L s)))
        (concat (map (\<lambda>t. map trim (split_on (CHR '';'') (the t))) (map (hl_to_str L) vals)))) m'
    else try_fold (count_header L) vals (m, k) = Inl MalformedRequest"
  using assms
proof (induction vals arbitrary: names m k)
  case (Cons v vs)
  show ?case
  proof (cases "hl_to_str L v")
    case None
    then show ?thesis by (simp add: count_header_def)
  next
    case (Some header)
    show ?thesis
    proof (cases "list_all (\<lambda>s. cookie_segment_ok L (trim s)) (split_on (CHR '';'') header)")
      case True
      with count_segments [OF Cons.prems, of L "split_on (CHR '';'') header" k] obtain m' k' where m':
        "try_fold (count_segment L) (split_on (CHR '';'') header) (m, k) = Inr (m', k')"
        "name_counts (names @ map (\<lambda>s. hl_cookie_name L (the (hl_parse_encoded L (trim s)))) (split_on (CHR '';'') header)) m'"
        by auto
      have "count_header L v (m, k) = Inr (m', k')" using m'(1) Some by (simp add: count_header_def)
      with Cons.IH [OF m'(2), of k'] True Some show ?thesis
        by (simp add: list.pred_map comp_def split: if_splits)
    next
      case False
      with count_segments [OF Cons.prems, of L "split_on (CHR '';'') header" k] Some show ?thesis
        by (simp add: count_header_def list.pred_map comp_def)
    qed
  qed
qed simp

text \<open>Extraction succeeds exactly for well-formed requests and counts the names.\<close>

lemma from_headers_exact:
  "case cookie_names L headers of
     None \<Rightarrow> from_headers L headers = Inl MalformedRequest
   | Some names \<Rightarrow> \<exists>jar. from_headers L headers = Inr jar \<and>
       cj_inner jar = hl_jar_from_headers L headers \<and> (\<forall>n. jar_occurrences jar n = count (mset names) n)"
proof -
  have "name_counts [] []" by (simp add: name_counts_def bmap_ok_def bmap_get_def)
  note run = count_headers [OF this, of L "hl_get_all L headers ''cookie''" 0]
  define texts where "texts = map (hl_to_str L) (hl_get_all L headers ''cookie'')"
  define segments where "segments = concat (map (\<lambda>t. map trim (split_on (CHR '';'') (the t))) texts)"
  show ?thesis
  proof (cases "None \<notin> set texts \<and> list_all (cookie_segment_ok L) segments")
    case True
    define names where "names = map (\<lambda>s. hl_cookie_name L (the (hl_parse_encoded L s))) segments"
    obtain m k where "try_fold (count_header L) (hl_get_all L headers ''cookie'') ([], 0) = Inr (m, k)" "name_counts names m"
      using run True by (auto simp: names_def simp flip: texts_def segments_def)
    moreover have "cookie_names L headers = Some names"
      using True by (simp add: cookie_names_def cookie_texts_def names_def flip: texts_def segments_def)
    ultimately show ?thesis by (simp add: from_headers_def jar_occurrences_def name_counts_def)
  next
    case False
    then have "try_fold (count_header L) (hl_get_all L headers ''cookie'') ([], 0) = Inl MalformedRequest"
      using run by (simp flip: texts_def segments_def)
    moreover have "cookie_names L headers = None"
      using False by (auto simp: cookie_names_def cookie_texts_def simp flip: texts_def segments_def)
    ultimately show ?thesis by (simp add: from_headers_def)
  qed
qed

end
