(* ===== verification/Passport_Request.thy ===== *)
theory Passport_Request
  imports Passport_Strategy Http_Cookie
begin

text \<open>
  Guarded requests: the credential a guard reads, the redacted context a strategy sees
  (\<open>passport/context.rs\<close>), errors and the responses they become (\<open>passport/error.rs\<close>), principals
  in request extensions (\<open>passport/principal.rs\<close>, \<open>ErasedAuthentication\<close> of \<open>passport/strategy.rs\<close>) and
  the middleware that runs a guard, for generated routes and for native ones
  (\<open>passport/guard.rs\<close>), under \<open>crates/mads-common/src/\<close>.

  A strategy adapter and a policy predicate are code of the application: \<open>run\<close> is what the adapter's
  future returns for a context and a token, \<open>test\<close> what a predicate answers. \<open>guard_call_exact\<close>
  says when a request reaches the handler.
\<close>

section \<open>Errors\<close>

datatype passport_error_kind = Rejected | Forbidden | Internal

record passport_error =
  pe_kind :: passport_error_kind
  pe_source :: "string option"

definition passport_reject :: passport_error where
  "passport_reject = \<lparr>pe_kind = Rejected, pe_source = None\<rparr>"

definition passport_forbidden :: passport_error where
  "passport_forbidden = \<lparr>pe_kind = Forbidden, pe_source = None\<rparr>"

definition passport_internal :: "string \<Rightarrow> passport_error" where
  "passport_internal cause = \<lparr>pe_kind = Internal, pe_source = Some cause\<rparr>"

fun show_passport_error_kind :: "passport_error_kind \<Rightarrow> string" where
  "show_passport_error_kind Rejected = ''authentication was rejected''"
| "show_passport_error_kind Forbidden = ''access was denied''"
| "show_passport_error_kind Internal = ''Passport operation failed''"

record rejection_reply =
  rj_status :: nat
  rj_headers :: "(string \<times> string) list"
  rj_body :: string

definition rejection_response :: "passport_error \<Rightarrow> rejection_reply" where
  "rejection_response e =
     (case pe_kind e of
        Rejected \<Rightarrow> \<lparr>rj_status = 401, rj_headers = [(''www-authenticate'', ''Bearer'')], rj_body = ''Unauthorized''\<rparr>
      | Forbidden \<Rightarrow> \<lparr>rj_status = 403, rj_headers = [], rj_body = ''Forbidden''\<rparr>
      | Internal \<Rightarrow> \<lparr>rj_status = 500, rj_headers = [], rj_body = ''Internal Server Error''\<rparr>)"

section \<open>The context of a strategy\<close>

record ('j, 'c) passport_cookies =
  pk_cookies :: "('j, 'c) cookie_jar"
  pk_excluded_name :: "string option"

record ('h, 'j, 'c) passport_context =
  px_headers :: 'h
  px_method :: string
  px_uri :: string
  px_remote_addr :: "string option"
  px_cookies :: "('j, 'c) passport_cookies option"

definition is_excluded :: "('j, 'c) passport_cookies \<Rightarrow> string \<Rightarrow> bool" where
  "is_excluded k name \<longleftrightarrow> pk_excluded_name k = Some name"

definition context_cookie :: "('h, 'v, 'j, 'c) http_library \<Rightarrow> ('j, 'c) passport_cookies \<Rightarrow> string \<Rightarrow> 'c option" where
  "context_cookie L k name = (if is_excluded k name then None else jar_get L (pk_cookies k) name)"

definition context_cookie_iter :: "('h, 'v, 'j, 'c) http_library \<Rightarrow> ('j, 'c) passport_cookies \<Rightarrow> 'c list" where
  "context_cookie_iter L k =
     filter (\<lambda>c. \<not> is_excluded k (hl_cookie_name L c)) (jar_iter L (pk_cookies k))"

definition context_occurrences :: "('j, 'c) passport_cookies \<Rightarrow> string \<Rightarrow> nat" where
  "context_occurrences k name = (if is_excluded k name then 0 else jar_occurrences (pk_cookies k) name)"

definition safe_headers :: "('h, 'v, 'j, 'c) http_library \<Rightarrow> 'h \<Rightarrow> 'h" where
  "safe_headers L headers =
     hl_remove L (hl_remove L (hl_remove L headers ''authorization'') ''proxy-authorization'') ''cookie''"

definition context_from_parts ::
    "('h, 'v, 'j, 'c) http_library \<Rightarrow> 'h \<Rightarrow> string \<Rightarrow> string \<Rightarrow> string option \<Rightarrow>
     ('j, 'c) cookie_jar option \<Rightarrow> string option \<Rightarrow> ('h, 'j, 'c) passport_context" where
  "context_from_parts L headers method uri remote_addr cookies excluded_cookie =
     \<lparr>px_headers = safe_headers L headers, px_method = method, px_uri = uri, px_remote_addr = remote_addr,
      px_cookies = map_option (\<lambda>jar. \<lparr>pk_cookies = jar, pk_excluded_name = excluded_cookie\<rparr>) cookies\<rparr>"

definition passport_context_new ::
    "('h, 'v, 'j, 'c) http_library \<Rightarrow> 'h \<Rightarrow> string \<Rightarrow> string \<Rightarrow> string option \<Rightarrow> ('h, 'j, 'c) passport_context" where
  "passport_context_new L headers method uri remote_addr =
     context_from_parts L headers method uri remote_addr None None"

definition with_cookie_token ::
    "('h, 'v, 'j, 'c) http_library \<Rightarrow> 'h \<Rightarrow> string \<Rightarrow> string \<Rightarrow> string option \<Rightarrow>
     ('j, 'c) cookie_jar \<Rightarrow> string \<Rightarrow> ('h, 'j, 'c) passport_context" where
  "with_cookie_token L headers method uri remote_addr cookies token_cookie =
     context_from_parts L headers method uri remote_addr (Some cookies) (Some token_cookie)"

section \<open>Authentications\<close>

text \<open>
  A value of \<open>dyn Any\<close> is the identifier of its type and the value; the type parameters of the
  installer are the pair \<open>ea_install\<close>.
\<close>

record ('p, 'w) authentication =
  ea_has_role :: "string \<Rightarrow> bool"
  ea_has_permission :: "string \<Rightarrow> bool"
  ea_exact_principal :: "type_id \<times> 'p"
  ea_exact_verified :: "type_id \<times> 'w"
  ea_principal_type_id :: type_id
  ea_principal_type_name :: string
  ea_claims_type_id :: type_id
  ea_claims_type_name :: string
  ea_install :: "type_id \<times> type_id"

text \<open>An application type: its identifier, its name and, for a principal, its policy methods.\<close>

record 'p principal_type =
  pt_id :: type_id
  pt_name :: string
  pt_has_role :: "'p \<Rightarrow> string \<Rightarrow> bool"
  pt_has_permission :: "'p \<Rightarrow> string \<Rightarrow> bool"

definition authentication_new :: "'p principal_type \<Rightarrow> type_id \<Rightarrow> string \<Rightarrow> 'p \<Rightarrow> 'w \<Rightarrow> ('p, 'w) authentication" where
  "authentication_new P claims_type_id claims_type_name p verified =
     \<lparr>ea_has_role = pt_has_role P p, ea_has_permission = pt_has_permission P p,
      ea_exact_principal = (pt_id P, p), ea_exact_verified = (claims_type_id, verified),
      ea_principal_type_id = pt_id P, ea_principal_type_name = pt_name P,
      ea_claims_type_id = claims_type_id, ea_claims_type_name = claims_type_name,
      ea_install = (pt_id P, claims_type_id)\<rparr>"

definition principal_as :: "type_id \<Rightarrow> ('p, 'w) authentication \<Rightarrow> 'p option" where
  "principal_as t a = (if fst (ea_exact_principal a) = t then Some (snd (ea_exact_principal a)) else None)"

definition verified_as :: "type_id \<Rightarrow> ('p, 'w) authentication \<Rightarrow> 'w option" where
  "verified_as t a = (if fst (ea_exact_verified a) = t then Some (snd (ea_exact_verified a)) else None)"

text \<open>The extensions of a request, one value for a type.\<close>

datatype extension_key = AuthenticatedExt type_id | VerifiedTokenExt type_id

datatype ('p, 'w) extension = AuthenticatedValue 'p | VerifiedTokenValue 'w

type_synonym ('p, 'w) extensions = "extension_key \<Rightarrow> ('p, 'w) extension option"

definition install_extensions ::
    "('p, 'w) authentication \<Rightarrow> ('p, 'w) extensions \<Rightarrow> bool \<times> ('p, 'w) extensions" where
  "install_extensions a extensions =
     (case principal_as (fst (ea_install a)) a of
        None \<Rightarrow> (False, extensions)
      | Some p \<Rightarrow>
          (case verified_as (snd (ea_install a)) a of
             None \<Rightarrow> (False, extensions)
           | Some verified \<Rightarrow>
               (True, extensions(AuthenticatedExt (fst (ea_install a)) := Some (AuthenticatedValue p),
                  VerifiedTokenExt (snd (ea_install a)) := Some (VerifiedTokenValue verified)))))"

text \<open>The extractors of a handler.\<close>

definition authenticated_from_request :: "type_id \<Rightarrow> ('p, 'w) extensions \<Rightarrow> passport_error + 'p" where
  "authenticated_from_request t extensions =
     (case extensions (AuthenticatedExt t) of
        Some (AuthenticatedValue p) \<Rightarrow> Inr p
      | _ \<Rightarrow> Inl (passport_internal ''missing guard-installed authenticated principal''))"

definition verified_from_request :: "type_id \<Rightarrow> ('p, 'w) extensions \<Rightarrow> passport_error + 'w" where
  "verified_from_request t extensions =
     (case extensions (VerifiedTokenExt t) of
        Some (VerifiedTokenValue w) \<Rightarrow> Inr w
      | _ \<Rightarrow> Inl (passport_internal ''missing guard-installed verified token''))"

section \<open>Authentication of a request\<close>

record ('h, 'p, 'w) request =
  rq_headers :: 'h
  rq_method :: string
  rq_uri :: string
  rq_connect_info :: "string option"
  rq_extensions :: "('p, 'w) extensions"

definition bearer_token :: "('h, 'v, 'j, 'c) http_library \<Rightarrow> 'h \<Rightarrow> passport_error + string" where
  "bearer_token L headers =
     (case hl_get_all L headers ''authorization'' of
        [] \<Rightarrow> Inl passport_reject
      | value # more_values \<Rightarrow>
          if more_values \<noteq> [] then Inl passport_reject
          else and_then (ok_or passport_reject (hl_to_str L value)) (\<lambda>value.
            case split_whitespace value of
              scheme # token # rest \<Rightarrow>
                if \<not> eq_ignore_ascii_case scheme ''Bearer'' \<or> token = [] \<or> rest \<noteq> []
                then Inl passport_reject else Inr token
            | _ \<Rightarrow> Inl passport_reject))"

type_synonym ('h, 'j, 'c, 'p, 'w) strategy_adapter =
  "('h, 'j, 'c) passport_context \<Rightarrow> string \<Rightarrow> passport_error + ('p, 'w) authentication"

definition authenticate_request ::
    "('h, 'v, 'j, 'c) http_library \<Rightarrow> token_source \<Rightarrow> ('h, 'j, 'c, 'p, 'w) strategy_adapter \<Rightarrow>
     'h \<Rightarrow> string \<Rightarrow> string \<Rightarrow> string option \<Rightarrow> passport_error + ('p, 'w) authentication" where
  "authenticate_request L source adapter headers method uri remote_addr =
     (case source of
        Bearer \<Rightarrow>
          and_then (bearer_token L headers) (\<lambda>token.
            adapter (passport_context_new L headers method uri remote_addr) token)
      | CookieSource name \<Rightarrow>
          (case from_headers L headers of
             Inl _ \<Rightarrow> Inl passport_reject
           | Inr jar \<Rightarrow>
               if jar_occurrences jar name \<noteq> 1 then Inl passport_reject
               else and_then (ok_or passport_reject (map_option (hl_cookie_value L) (jar_get L jar name))) (\<lambda>token.
                 adapter (with_cookie_token L headers method uri remote_addr jar name) token)))"

definition matches_clause :: "policy_clause option \<Rightarrow> (string \<Rightarrow> bool) \<Rightarrow> bool" where
  "matches_clause clause matches =
     (case clause of
        None \<Rightarrow> True
      | Some c \<Rightarrow> (case pc_mode c of
          AnyOf \<Rightarrow> list_ex matches (pc_values c) | AllOf \<Rightarrow> list_all matches (pc_values c)))"

definition authorizes ::
    "(predicate_ref \<Rightarrow> ('p, 'w) authentication \<Rightarrow> bool) \<Rightarrow> guard_descriptor \<Rightarrow> ('p, 'w) authentication \<Rightarrow> bool" where
  "authorizes test guard a \<longleftrightarrow>
     (if \<not> matches_clause (gd_roles guard) (ea_has_role a) \<or> \<not> matches_clause (gd_permissions guard) (ea_has_permission a)
      then False
      else list_all (\<lambda>p. case gp_adapter p of None \<Rightarrow> False | Some adapter \<Rightarrow> test adapter a) (gd_predicates guard))"

section \<open>The middleware of generated routes\<close>

record guard_state =
  gs_guard :: guard_descriptor
  gs_adapter :: adapter_ref

definition from_binding :: "strategy_binding \<Rightarrow> guard_state" where
  "from_binding b = \<lparr>gs_guard = sb_guard b, gs_adapter = sb_adapter b\<rparr>"

definition guard_state_new :: "passport_program \<Rightarrow> guard_descriptor \<Rightarrow> failure + guard_state" where
  "guard_state_new P guard =
     and_then (preflight P [guard]) (\<lambda>bindings.
     and_then (or_panic (expect ''the preflight result must retain its requested guard'' (binding_for bindings guard None)))
       (\<lambda>b. Inr \<lparr>gs_guard = guard, gs_adapter = sb_adapter b\<rparr>))"

definition guard_authorize ::
    "('h, 'v, 'j, 'c) http_library \<Rightarrow> (adapter_ref \<Rightarrow> ('h, 'j, 'c, 'p, 'w) strategy_adapter) \<Rightarrow>
     (predicate_ref \<Rightarrow> ('p, 'w) authentication \<Rightarrow> bool) \<Rightarrow> guard_state \<Rightarrow> ('h, 'p, 'w) request \<Rightarrow>
     passport_error + ('h, 'p, 'w) request" where
  "guard_authorize L run test st request =
     and_then (authenticate_request L (gd_source (gs_guard st)) (run (gs_adapter st)) (rq_headers request)
         (rq_method request) (rq_uri request) (rq_connect_info request)) (\<lambda>a.
     if \<not> authorizes test (gs_guard st) a then Inl passport_forbidden
     else
       let (installed, extensions) = install_extensions a (rq_extensions request) in
       if \<not> installed then Inl (passport_internal ''guard authentication type binding failed'')
       else Inr (request\<lparr>rq_extensions := extensions\<rparr>))"

datatype 'r response = Rejection rejection_reply | Handled 'r

definition guard_call ::
    "('h, 'v, 'j, 'c) http_library \<Rightarrow> (adapter_ref \<Rightarrow> ('h, 'j, 'c, 'p, 'w) strategy_adapter) \<Rightarrow>
     (predicate_ref \<Rightarrow> ('p, 'w) authentication \<Rightarrow> bool) \<Rightarrow> guard_state \<Rightarrow>
     (('h, 'p, 'w) request \<Rightarrow> 'e + 'r) \<Rightarrow> ('h, 'p, 'w) request \<Rightarrow> 'e + 'r response" where
  "guard_call L run test st inner request =
     (case guard_authorize L run test st request of
        Inl error \<Rightarrow> Inr (Rejection (rejection_response error))
      | Inr request \<Rightarrow> (case inner request of Inl e \<Rightarrow> Inl e | Inr r \<Rightarrow> Inr (Handled r)))"


section \<open>Native guards\<close>

text \<open>A guard of a native route: \<open>P\<close> is its principal type, the predicates are its functions.\<close>

type_synonym native_clause = policy_clause

record 'p native_guard_builder =
  nb_strategy :: "string option"
  nb_source :: token_source
  nb_roles :: "native_clause option"
  nb_permissions :: "native_clause option"
  nb_predicates :: "('p \<Rightarrow> bool) list"
  nb_builtin_adapter :: "adapter_ref option"

record 'p native_guard_state =
  ns_source :: token_source
  ns_adapter :: adapter_ref
  ns_roles :: "native_clause option"
  ns_permissions :: "native_clause option"
  ns_predicates :: "('p \<Rightarrow> bool) list"

definition native_builder_new :: "'p native_guard_builder" where
  "native_builder_new =
     \<lparr>nb_strategy = None, nb_source = Bearer, nb_roles = None, nb_permissions = None, nb_predicates = [],
      nb_builtin_adapter = None\<rparr>"

definition native_strategy :: "string \<Rightarrow> 'p native_guard_builder \<Rightarrow> 'p native_guard_builder" where
  "native_strategy strategy b = b\<lparr>nb_strategy := Some strategy\<rparr>"

definition native_source :: "token_source \<Rightarrow> 'p native_guard_builder \<Rightarrow> 'p native_guard_builder" where
  "native_source source b = b\<lparr>nb_source := source\<rparr>"

definition roles_any :: "string list \<Rightarrow> 'p native_guard_builder \<Rightarrow> 'p native_guard_builder" where
  "roles_any values b = b\<lparr>nb_roles := Some (PolicyClause AnyOf values)\<rparr>"

definition roles_all :: "string list \<Rightarrow> 'p native_guard_builder \<Rightarrow> 'p native_guard_builder" where
  "roles_all values b = b\<lparr>nb_roles := Some (PolicyClause AllOf values)\<rparr>"

definition permissions_any :: "string list \<Rightarrow> 'p native_guard_builder \<Rightarrow> 'p native_guard_builder" where
  "permissions_any values b = b\<lparr>nb_permissions := Some (PolicyClause AnyOf values)\<rparr>"

definition permissions_all :: "string list \<Rightarrow> 'p native_guard_builder \<Rightarrow> 'p native_guard_builder" where
  "permissions_all values b = b\<lparr>nb_permissions := Some (PolicyClause AllOf values)\<rparr>"

definition native_predicate :: "('p \<Rightarrow> bool) \<Rightarrow> 'p native_guard_builder \<Rightarrow> 'p native_guard_builder" where
  "native_predicate predicate b = b\<lparr>nb_predicates := nb_predicates b @ [predicate]\<rparr>"

definition with_builtin_adapter :: "adapter_ref \<Rightarrow> 'p native_guard_builder \<Rightarrow> 'p native_guard_builder" where
  "with_builtin_adapter adapter b = b\<lparr>nb_builtin_adapter := Some adapter\<rparr>"

definition native_jwt :: "adapter_ref \<Rightarrow> 'p native_guard_builder" where
  "native_jwt builtin_claims_adapter =
     with_builtin_adapter builtin_claims_adapter (native_strategy ''jwt'' native_builder_new)"

definition native_location :: source_location where
  "native_location = SourceLocation ''native Axum PassportGuard'' 1 1"

definition native_guard_error :: "string \<Rightarrow> error" where
  "native_guard_error message =
     error_new (with_location native_location (with_subject ''native Axum PassportGuard''
       (diagnostic_new MADS131 ''invalid native Passport guard'' message)))"

definition validate_native_policy :: "native_clause option \<Rightarrow> string \<Rightarrow> error + unit" where
  "validate_native_policy clause label =
     (case clause of
        None \<Rightarrow> Inr ()
      | Some c \<Rightarrow>
          if pc_values c = [] \<or> list_ex (\<lambda>v. v = [] \<or> has_control v) (pc_values c)
          then Inl (native_guard_error (''native guard '' @ label
            @ '' policy must contain non-empty values without control characters''))
          else Inr ())"

text \<open>The descriptor is a local variable of \<open>build\<close>; \<open>address\<close> is where it lives.\<close>

definition native_build ::
    "passport_program \<Rightarrow> 'p principal_type \<Rightarrow> nat \<Rightarrow> bool \<Rightarrow> 'p native_guard_builder \<Rightarrow>
     failure + 'p native_guard_state" where
  "native_build P t address jwt_service_available b =
     and_then (or_error (ok_or (native_guard_error
         ''native Passport guards require a strategy selected with `strategy`'') (nb_strategy b))) (\<lambda>strategy.
     and_then (or_error (validate_native_policy (nb_roles b) ''roles'')) (\<lambda>_.
     and_then (or_error (validate_native_policy (nb_permissions b) ''permissions'')) (\<lambda>_.
     let descriptor = guard_descriptor_new address ''native Axum'' ''PassportGuard'' strategy (Some (pt_id t))
           (Some (pt_name t)) (nb_source b) None None [] native_location (nb_builtin_adapter b) in
     and_then (preflight P [descriptor]) (\<lambda>bindings.
     and_then (or_panic (expect ''native guard preflight must retain the requested descriptor''
         (binding_for bindings descriptor None))) (\<lambda>binding.
     and_then (if jwt_service_available then Inr ()
         else Inl (Failed (native_guard_error ''native Passport guards require an available JwtService''))) (\<lambda>_.
     Inr \<lparr>ns_source = nb_source b, ns_adapter = sb_adapter binding, ns_roles = nb_roles b,
       ns_permissions = nb_permissions b, ns_predicates = nb_predicates b\<rparr>))))))"

definition native_authorize ::
    "('h, 'v, 'j, 'c) http_library \<Rightarrow> (adapter_ref \<Rightarrow> ('h, 'j, 'c, 'p, 'w) strategy_adapter) \<Rightarrow>
     'p principal_type \<Rightarrow> 'p native_guard_state \<Rightarrow> ('h, 'p, 'w) request \<Rightarrow>
     passport_error + ('h, 'p, 'w) request" where
  "native_authorize L run t st request =
     and_then (authenticate_request L (ns_source st) (run (ns_adapter st)) (rq_headers request)
         (rq_method request) (rq_uri request) (rq_connect_info request)) (\<lambda>a.
     case principal_as (pt_id t) a of
       None \<Rightarrow> Inl (passport_internal ''native guard authentication type binding failed'')
     | Some p \<Rightarrow>
         if \<not> matches_clause (ns_roles st) (pt_has_role t p) \<or>
            \<not> matches_clause (ns_permissions st) (pt_has_permission t p) \<or>
            \<not> list_all (\<lambda>predicate. predicate p) (ns_predicates st)
         then Inl passport_forbidden
         else
           let (installed, extensions) = install_extensions a (rq_extensions request) in
           if \<not> installed then Inl (passport_internal ''native guard authentication type binding failed'')
           else Inr (request\<lparr>rq_extensions := extensions\<rparr>))"

definition native_call ::
    "('h, 'v, 'j, 'c) http_library \<Rightarrow> (adapter_ref \<Rightarrow> ('h, 'j, 'c, 'p, 'w) strategy_adapter) \<Rightarrow>
     'p principal_type \<Rightarrow> 'p native_guard_state \<Rightarrow> (('h, 'p, 'w) request \<Rightarrow> 'e + 'r) \<Rightarrow>
     ('h, 'p, 'w) request \<Rightarrow> 'e + 'r response" where
  "native_call L run t st inner request =
     (case native_authorize L run t st request of
        Inl error \<Rightarrow> Inr (Rejection (rejection_response error))
      | Inr request \<Rightarrow> (case inner request of Inl e \<Rightarrow> Inl e | Inr r \<Rightarrow> Inr (Handled r)))"

section \<open>What a credential is\<close>

definition blank :: "string \<Rightarrow> bool" where
  "blank s \<longleftrightarrow> list_all is_ascii_space s"

definition token_text :: "string \<Rightarrow> bool" where
  "token_text s \<longleftrightarrow> s \<noteq> [] \<and> list_all (\<lambda>c. \<not> is_ascii_space c) s"

text \<open>
  A bearer header is the word \<open>Bearer\<close> in any case and one token, with blanks around and between
  them.
\<close>

definition bearer_header :: "string \<Rightarrow> string \<Rightarrow> bool" where
  "bearer_header token header \<longleftrightarrow> token_text token \<and>
     (\<exists>pre scheme mid post. header = pre @ scheme @ mid @ token @ post \<and> blank pre \<and> blank mid \<and> mid \<noteq> [] \<and>
        blank post \<and> eq_ignore_ascii_case scheme ''Bearer'')"

lemma split_whitespace_from_none:
  "split_whitespace_from [] s = [] \<longleftrightarrow> blank s"
  "w \<noteq> [] \<Longrightarrow> split_whitespace_from w s \<noteq> []"
  by (induction s arbitrary: w) (auto simp: blank_def)

lemma blank_append [simp]: "blank (a @ b) \<longleftrightarrow> blank a \<and> blank b" "blank []"
  by (simp_all add: blank_def)

text \<open>The first word of a text and the rest of it.\<close>

lemma split_whitespace_from_word_end:
  "w \<noteq> [] \<Longrightarrow> split_whitespace_from w s = v # vs \<longleftrightarrow>
     (\<exists>u rest. s = u @ rest \<and> v = w @ u \<and> list_all (\<lambda>c. \<not> is_ascii_space c) u \<and>
        (rest = [] \<or> is_ascii_space (hd rest)) \<and> vs = split_whitespace_from [] rest)"
  (is "_ \<Longrightarrow> _ \<longleftrightarrow> ?ends w s v")
proof (induction s arbitrary: w)
  case (Cons c s)
  show ?case
  proof (cases "is_ascii_space c")
    case True
    have "?ends w (c # s) v \<longleftrightarrow> v = w \<and> vs = split_whitespace_from [] (c # s)"
    proof
      assume "?ends w (c # s) v"
      then obtain u rest where u: "c # s = u @ rest" "v = w @ u" "list_all (\<lambda>c. \<not> is_ascii_space c) u"
        "vs = split_whitespace_from [] rest" by blast
      with True have "u = []" by (cases u) auto
      with u show "v = w \<and> vs = split_whitespace_from [] (c # s)" by simp
    qed (use True in \<open>auto intro: exI [of _ "[]"]\<close>)
    with True Cons.prems show ?thesis by auto
  next
    case False
    have "?ends w (c # s) v \<longleftrightarrow> ?ends (w @ [c]) s v"
    proof
      assume "?ends w (c # s) v"
      then obtain u rest where u: "c # s = u @ rest" "v = w @ u" "list_all (\<lambda>c. \<not> is_ascii_space c) u"
        "rest = [] \<or> is_ascii_space (hd rest)" "vs = split_whitespace_from [] rest" by blast
      with False obtain u' where "u = c # u'" by (cases u) auto
      with u show "?ends (w @ [c]) s v" by auto
    next
      assume "?ends (w @ [c]) s v"
      then obtain u rest where "s = u @ rest" "v = (w @ [c]) @ u" "list_all (\<lambda>c. \<not> is_ascii_space c) u"
        "rest = [] \<or> is_ascii_space (hd rest)" "vs = split_whitespace_from [] rest" by blast
      with False show "?ends w (c # s) v" by (intro exI [of _ "c # u"] exI [of _ rest]) auto
    qed
    with False Cons.IH [of "w @ [c]"] show ?thesis by simp
  qed
qed auto


lemma first_word:
  "split_whitespace_from [] s = v # vs \<longleftrightarrow>
     (\<exists>pre rest. s = pre @ v @ rest \<and> blank pre \<and> token_text v \<and> (rest = [] \<or> is_ascii_space (hd rest)) \<and>
        vs = split_whitespace_from [] rest)"
  (is "_ \<longleftrightarrow> ?first s")
proof (induction s)
  case Nil
  then show ?case by (auto simp: token_text_def)
next
  case (Cons c s)
  show ?case
  proof (cases "is_ascii_space c")
    case True
    have "?first (c # s) \<longleftrightarrow> ?first s"
    proof
      assume "?first (c # s)"
      then obtain pre rest where p: "c # s = pre @ v @ rest" "blank pre" "token_text v"
        "rest = [] \<or> is_ascii_space (hd rest)" "vs = split_whitespace_from [] rest" by blast
      have "pre \<noteq> []"
      proof
        assume "pre = []"
        with p(1) True p(3) show False by (cases v) (auto simp: token_text_def)
      qed
      then obtain pre' where "pre = c # pre'" using p(1) by (cases pre) auto
      with p show "?first s" by (intro exI [of _ pre'] exI [of _ rest]) (auto simp: blank_def)
    next
      assume "?first s"
      then obtain pre rest where "s = pre @ v @ rest" "blank pre" "token_text v"
        "rest = [] \<or> is_ascii_space (hd rest)" "vs = split_whitespace_from [] rest" by blast
      with True show "?first (c # s)" by (intro exI [of _ "c # pre"] exI [of _ rest]) (auto simp: blank_def)
    qed
    with True Cons.IH show ?thesis by simp
  next
    case False
    have "?first (c # s) \<longleftrightarrow> (\<exists>u rest. s = u @ rest \<and> v = [c] @ u \<and> list_all (\<lambda>c. \<not> is_ascii_space c) u \<and>
        (rest = [] \<or> is_ascii_space (hd rest)) \<and> vs = split_whitespace_from [] rest)"
    proof
      assume "?first (c # s)"
      then obtain pre rest where p: "c # s = pre @ v @ rest" "blank pre" "token_text v"
        "rest = [] \<or> is_ascii_space (hd rest)" "vs = split_whitespace_from [] rest" by blast
      with False have "pre = []" by (cases pre) (auto simp: blank_def)
      moreover obtain u where "v = c # u" using p(1,3) \<open>pre = []\<close> by (cases v) (auto simp: token_text_def)
      ultimately show "\<exists>u rest. s = u @ rest \<and> v = [c] @ u \<and> list_all (\<lambda>c. \<not> is_ascii_space c) u \<and>
          (rest = [] \<or> is_ascii_space (hd rest)) \<and> vs = split_whitespace_from [] rest"
        using p by (intro exI [of _ u] exI [of _ rest]) (auto simp: token_text_def)
    next
      assume "\<exists>u rest. s = u @ rest \<and> v = [c] @ u \<and> list_all (\<lambda>c. \<not> is_ascii_space c) u \<and>
          (rest = [] \<or> is_ascii_space (hd rest)) \<and> vs = split_whitespace_from [] rest"
      then obtain u rest where u: "s = u @ rest" "v = c # u" "list_all (\<lambda>c. \<not> is_ascii_space c) u"
        "rest = [] \<or> is_ascii_space (hd rest)" "vs = split_whitespace_from [] rest" by auto
      with False have "c # s = [] @ v @ rest" "token_text v" by (simp_all add: token_text_def)
      with u(4,5) show "?first (c # s)" by (intro exI [of _ "[]"] exI [of _ rest]) (simp add: blank_def)
    qed
    with False split_whitespace_from_word_end [of "[c]" s v vs] show ?thesis by simp
  qed
qed

lemma bearer_scheme: "eq_ignore_ascii_case scheme ''Bearer'' \<Longrightarrow> token_text scheme"
proof -
  assume same: "eq_ignore_ascii_case scheme ''Bearer''"
  have letters: "\<not> is_ascii_space c" if "c \<in> set (map to_ascii_lowercase ''Bearer'')" for c
    using that by (auto simp: to_ascii_lowercase_def is_ascii_uppercase_def byte_def is_ascii_space_def)
  have "\<not> is_ascii_space c" if "c \<in> set scheme" for c
  proof
    assume space: "is_ascii_space c"
    then have "to_ascii_lowercase c = c"
      by (auto simp: to_ascii_lowercase_def is_ascii_uppercase_def is_ascii_space_def)
    moreover have "to_ascii_lowercase c \<in> set (map to_ascii_lowercase ''Bearer'')"
      using that same unfolding eq_ignore_ascii_case_def by (metis image_eqI list.set_map)
    ultimately show False using letters space by metis
  qed
  moreover have "scheme \<noteq> []" using same by (auto simp: eq_ignore_ascii_case_def)
  ultimately show ?thesis by (simp add: token_text_def list_all_iff)
qed

lemma two_words:
  "split_whitespace header = [scheme, token] \<longleftrightarrow>
     token_text scheme \<and> token_text token \<and>
     (\<exists>pre mid post. header = pre @ scheme @ mid @ token @ post \<and> blank pre \<and> blank mid \<and> mid \<noteq> [] \<and> blank post)"
proof -
  have "split_whitespace header = [scheme, token] \<longleftrightarrow>
    (\<exists>pre rest. header = pre @ scheme @ rest \<and> blank pre \<and> token_text scheme \<and> (rest = [] \<or> is_ascii_space (hd rest)) \<and>
      (\<exists>mid post. rest = mid @ token @ post \<and> blank mid \<and> token_text token \<and> (post = [] \<or> is_ascii_space (hd post)) \<and>
        blank post))"
    unfolding split_whitespace_def first_word [of header]
    by (simp add: eq_commute [of "[token]"] first_word eq_commute [of "[]"] split_whitespace_from_none)
  also have "\<dots> \<longleftrightarrow> token_text scheme \<and> token_text token \<and>
     (\<exists>pre mid post. header = pre @ scheme @ mid @ token @ post \<and> blank pre \<and> blank mid \<and> mid \<noteq> [] \<and> blank post)"
  proof -
    have mid: "mid @ token @ post = [] \<or> is_ascii_space (hd (mid @ token @ post)) \<longleftrightarrow> mid \<noteq> []"
      if "blank mid" "token_text token" for mid post
      using that by (cases mid; cases token) (auto simp: blank_def token_text_def)
    have post: "post = [] \<or> is_ascii_space (hd post)" if "blank post" for post
      using that by (cases post) (auto simp: blank_def)
    show ?thesis
    proof
      assume "\<exists>pre rest. header = pre @ scheme @ rest \<and> blank pre \<and> token_text scheme \<and>
        (rest = [] \<or> is_ascii_space (hd rest)) \<and> (\<exists>mid post. rest = mid @ token @ post \<and> blank mid \<and>
          token_text token \<and> (post = [] \<or> is_ascii_space (hd post)) \<and> blank post)"
      then show "token_text scheme \<and> token_text token \<and> (\<exists>pre mid post. header = pre @ scheme @ mid @ token @ post \<and>
          blank pre \<and> blank mid \<and> mid \<noteq> [] \<and> blank post)"
        using mid by blast
    next
      assume "token_text scheme \<and> token_text token \<and> (\<exists>pre mid post. header = pre @ scheme @ mid @ token @ post \<and>
          blank pre \<and> blank mid \<and> mid \<noteq> [] \<and> blank post)"
      then obtain pre mid post where "token_text scheme" "token_text token" "header = pre @ scheme @ mid @ token @ post"
        "blank pre" "blank mid" "mid \<noteq> []" "blank post" by blast
      then show "\<exists>pre rest. header = pre @ scheme @ rest \<and> blank pre \<and> token_text scheme \<and>
        (rest = [] \<or> is_ascii_space (hd rest)) \<and> (\<exists>mid post. rest = mid @ token @ post \<and> blank mid \<and>
          token_text token \<and> (post = [] \<or> is_ascii_space (hd post)) \<and> blank post)"
        using mid post by blast
    qed
  qed
  finally show ?thesis .
qed

definition bearer_credential :: "('h, 'v, 'j, 'c) http_library \<Rightarrow> 'h \<Rightarrow> string \<Rightarrow> bool" where
  "bearer_credential L headers token \<longleftrightarrow>
     (\<exists>v header. hl_get_all L headers ''authorization'' = [v] \<and> hl_to_str L v = Some header \<and> bearer_header token header)"

lemma bearer_token_exact:
  "bearer_token L headers = Inr token \<longleftrightarrow> bearer_credential L headers token"
  "bearer_token L headers = Inl e \<Longrightarrow> e = passport_reject"
proof -
  have words: "(case split_whitespace header of
        scheme # token # rest \<Rightarrow>
          if \<not> eq_ignore_ascii_case scheme ''Bearer'' \<or> token = [] \<or> rest \<noteq> []
          then Inl passport_reject else Inr token
      | _ \<Rightarrow> Inl passport_reject) = Inr token \<longleftrightarrow> bearer_header token header" for header
  proof -
    have "(case split_whitespace header of
        scheme # token # rest \<Rightarrow>
          if \<not> eq_ignore_ascii_case scheme ''Bearer'' \<or> token = [] \<or> rest \<noteq> []
          then Inl passport_reject else Inr token
      | _ \<Rightarrow> Inl passport_reject) = Inr token \<longleftrightarrow>
      (\<exists>scheme. split_whitespace header = [scheme, token] \<and> eq_ignore_ascii_case scheme ''Bearer'' \<and> token \<noteq> [])"
      by (auto split: list.splits if_splits)
    also have "\<dots> \<longleftrightarrow> bearer_header token header"
      unfolding two_words bearer_header_def using bearer_scheme by (auto simp: token_text_def)
    finally show ?thesis .
  qed
  show "bearer_token L headers = Inr token \<longleftrightarrow> bearer_credential L headers token"
  proof (cases "hl_get_all L headers ''authorization''")
    case (Cons v vs)
    then show ?thesis
      by (cases "hl_to_str L v") (auto simp: bearer_token_def bearer_credential_def words)
  qed (simp add: bearer_token_def bearer_credential_def)
  assume failed: "bearer_token L headers = Inl e"
  show "e = passport_reject"
  proof (cases "hl_get_all L headers ''authorization''")
    case (Cons v vs)
    with failed show ?thesis
      by (cases "hl_to_str L v") (auto simp: bearer_token_def split: list.splits if_splits)
  qed (use failed in \<open>simp add: bearer_token_def\<close>)
qed


section \<open>When a request reaches its handler\<close>

fun presented :: "('h, 'v, 'j, 'c) http_library \<Rightarrow> token_source \<Rightarrow> 'h \<Rightarrow> string \<Rightarrow> bool" where
  "presented L Bearer headers token \<longleftrightarrow> bearer_credential L headers token"
| "presented L (CookieSource name) headers token \<longleftrightarrow>
     (\<exists>names c. cookie_names L headers = Some names \<and> count (mset names) name = 1 \<and>
        hl_jar_get L (hl_jar_from_headers L headers) name = Some c \<and> token = hl_cookie_value L c)"

text \<open>The context a strategy is called with.\<close>

definition passport_view ::
    "('h, 'v, 'j, 'c) http_library \<Rightarrow> token_source \<Rightarrow> ('h, 'p, 'w) request \<Rightarrow> ('h, 'j, 'c) passport_context" where
  "passport_view L source request =
     (let bare = passport_context_new L (rq_headers request) (rq_method request) (rq_uri request) (rq_connect_info request) in
      case source of
        Bearer \<Rightarrow> bare
      | CookieSource name \<Rightarrow>
          (case from_headers L (rq_headers request) of
             Inl _ \<Rightarrow> bare
           | Inr jar \<Rightarrow> with_cookie_token L (rq_headers request) (rq_method request) (rq_uri request)
               (rq_connect_info request) jar name))"

fun clause_holds :: "policy_clause option \<Rightarrow> (string \<Rightarrow> bool) \<Rightarrow> bool" where
  "clause_holds None holds \<longleftrightarrow> True"
| "clause_holds (Some (PolicyClause AnyOf values)) holds \<longleftrightarrow> (\<exists>v\<in>set values. holds v)"
| "clause_holds (Some (PolicyClause AllOf values)) holds \<longleftrightarrow> (\<forall>v\<in>set values. holds v)"

definition satisfies ::
    "(predicate_ref \<Rightarrow> ('p, 'w) authentication \<Rightarrow> bool) \<Rightarrow> guard_descriptor \<Rightarrow> ('p, 'w) authentication \<Rightarrow> bool" where
  "satisfies test guard a \<longleftrightarrow>
     clause_holds (gd_roles guard) (ea_has_role a) \<and> clause_holds (gd_permissions guard) (ea_has_permission a) \<and>
     (\<forall>p\<in>set (gd_predicates guard). \<exists>r. gp_adapter p = Some r \<and> test r a)"

text \<open>The exact values have the types the installer reads.\<close>

definition well_typed :: "('p, 'w) authentication \<Rightarrow> bool" where
  "well_typed a \<longleftrightarrow> fst (ea_exact_principal a) = fst (ea_install a) \<and> fst (ea_exact_verified a) = snd (ea_install a)"

definition with_identity :: "('p, 'w) authentication \<Rightarrow> ('h, 'p, 'w) request \<Rightarrow> ('h, 'p, 'w) request" where
  "with_identity a request = request\<lparr>rq_extensions := (rq_extensions request)
     (AuthenticatedExt (fst (ea_install a)) := Some (AuthenticatedValue (snd (ea_exact_principal a))),
      VerifiedTokenExt (snd (ea_install a)) := Some (VerifiedTokenValue (snd (ea_exact_verified a))))\<rparr>"

lemma matches_clause_holds: "matches_clause clause holds = clause_holds clause holds"
  by (cases "(clause, holds)" rule: clause_holds.cases) (auto simp: matches_clause_def list_ex_iff list_all_iff)

lemma authorizes_satisfies: "authorizes test guard a = satisfies test guard a"
  by (auto simp: authorizes_def satisfies_def matches_clause_holds list_all_iff split: option.splits)

lemma install_exact:
  "install_extensions a (rq_extensions request) =
     (if well_typed a then (True, rq_extensions (with_identity a request)) else (False, rq_extensions request))"
  by (simp add: install_extensions_def principal_as_def verified_as_def well_typed_def with_identity_def)

lemma with_identity_update: "request\<lparr>rq_extensions := rq_extensions (with_identity a request)\<rparr> = with_identity a request"
  by (simp add: with_identity_def)

lemma authentication_new_typed [simp]: "well_typed (authentication_new P ct cn p w)"
  by (simp add: well_typed_def authentication_new_def)

text \<open>A handler extracts the principal and the token its strategy returned.\<close>

lemma handler_extracts:
  "authenticated_from_request (pt_id P) (rq_extensions (with_identity (authentication_new P ct cn p w) request)) = Inr p"
  "verified_from_request ct (rq_extensions (with_identity (authentication_new P ct cn p w) request)) = Inr w"
  by (simp_all add: authenticated_from_request_def verified_from_request_def with_identity_def authentication_new_def)

lemma presented_unique: "presented L source headers t \<Longrightarrow> presented L source headers u \<Longrightarrow> t = u"
  by (cases source) (auto simp flip: bearer_token_exact(1))

lemma authenticate_exact:
  "authenticate_request L source adapter (rq_headers request) (rq_method request) (rq_uri request) (rq_connect_info request) =
     Inr a \<longleftrightarrow> (\<exists>token. presented L source (rq_headers request) token \<and> adapter (passport_view L source request) token = Inr a)"
proof (cases source)
  case Bearer
  then show ?thesis
    by (auto simp: authenticate_request_def and_then_eq_Inr passport_view_def bearer_token_exact(1))
next
  case (CookieSource name)
  show ?thesis
  proof (cases "cookie_names L (rq_headers request)")
    case None
    with from_headers_exact [of L "rq_headers request"] CookieSource show ?thesis
      by (simp add: authenticate_request_def)
  next
    case (Some names)
    with from_headers_exact [of L "rq_headers request"] obtain jar where jar:
      "from_headers L (rq_headers request) = Inr jar" "cj_inner jar = hl_jar_from_headers L (rq_headers request)"
      "\<forall>n. jar_occurrences jar n = count (mset names) n" by auto
    with Some CookieSource show ?thesis
      by (cases "hl_jar_get L (hl_jar_from_headers L (rq_headers request)) name")
        (auto simp: authenticate_request_def passport_view_def jar_get_def)
  qed
qed

lemma guard_authorize_exact:
  "guard_authorize L run test st request = Inr request' \<longleftrightarrow>
     (\<exists>token a. presented L (gd_source (gs_guard st)) (rq_headers request) token \<and>
        run (gs_adapter st) (passport_view L (gd_source (gs_guard st)) request) token = Inr a \<and>
        satisfies test (gs_guard st) a \<and> well_typed a \<and> request' = with_identity a request)"
proof -
  have "guard_authorize L run test st request = Inr request' \<longleftrightarrow>
    (\<exists>a. authenticate_request L (gd_source (gs_guard st)) (run (gs_adapter st)) (rq_headers request)
         (rq_method request) (rq_uri request) (rq_connect_info request) = Inr a \<and>
       satisfies test (gs_guard st) a \<and> well_typed a \<and> request' = with_identity a request)"
    unfolding guard_authorize_def and_then_eq_Inr
    by (auto simp: authorizes_satisfies install_exact with_identity_update split: if_splits)
  then show ?thesis unfolding authenticate_exact by blast
qed

text \<open>Why a request is turned away.\<close>

lemma authenticate_rejects:
  "(\<nexists>token. presented L source (rq_headers request) token) \<Longrightarrow>
   authenticate_request L source adapter (rq_headers request) (rq_method request) (rq_uri request) (rq_connect_info request) =
     Inl passport_reject"
proof (cases source)
  case Bearer
  moreover assume "\<nexists>token. presented L source (rq_headers request) token"
  ultimately obtain e where "bearer_token L (rq_headers request) = Inl e"
    by (cases "bearer_token L (rq_headers request)") (auto simp: bearer_token_exact(1))
  with bearer_token_exact(2) [OF this] Bearer show ?thesis by (simp add: authenticate_request_def)
next
  case (CookieSource name)
  moreover assume none: "\<nexists>token. presented L source (rq_headers request) token"
  show ?thesis
  proof (cases "cookie_names L (rq_headers request)")
    case None
    with from_headers_exact [of L "rq_headers request"] CookieSource show ?thesis
      by (simp add: authenticate_request_def)
  next
    case (Some names)
    with from_headers_exact [of L "rq_headers request"] obtain jar where jar:
      "from_headers L (rq_headers request) = Inr jar" "cj_inner jar = hl_jar_from_headers L (rq_headers request)"
      "\<forall>n. jar_occurrences jar n = count (mset names) n" by auto
    with Some CookieSource none show ?thesis
      by (cases "hl_jar_get L (hl_jar_from_headers L (rq_headers request)) name")
        (auto simp: authenticate_request_def jar_get_def)
  qed
qed


section \<open>What a strategy sees\<close>

text \<open>Removing a header removes its values and no others: the documented behaviour of header maps.\<close>

definition header_laws :: "('h, 'v, 'j, 'c) http_library \<Rightarrow> bool" where
  "header_laws L \<longleftrightarrow>
     (\<forall>h n m. hl_get_all L (hl_remove L h n) m = (if m = n then [] else hl_get_all L h m))"

definition credential_headers :: "string set" where
  "credential_headers = {''authorization'', ''proxy-authorization'', ''cookie''}"

lemma safe_headers_get:
  "header_laws L \<Longrightarrow> hl_get_all L (safe_headers L headers) n =
     (if n \<in> credential_headers then [] else hl_get_all L headers n)"
  by (auto simp: safe_headers_def header_laws_def credential_headers_def)

lemma view_headers: "px_headers (passport_view L source request) = safe_headers L (rq_headers request)"
  by (cases source) (auto simp: passport_view_def passport_context_new_def with_cookie_token_def
      context_from_parts_def Let_def split: sum.splits)

lemma view_cookies:
  "px_cookies (passport_view L source request) = Some k \<Longrightarrow>
     \<exists>name jar. source = CookieSource name \<and> k = \<lparr>pk_cookies = jar, pk_excluded_name = Some name\<rparr> \<and>
       from_headers L (rq_headers request) = Inr jar"
  by (cases source) (auto simp: passport_view_def passport_context_new_def with_cookie_token_def
      context_from_parts_def Let_def split: sum.splits)

lemma from_headers_inner: "from_headers L headers = Inr jar \<Longrightarrow> cj_inner jar = hl_jar_from_headers L headers"
  by (auto simp: from_headers_def and_then_eq_Inr)

lemma view_redacts:
  assumes "px_cookies (passport_view L source request) = Some k"
  shows "\<exists>name. source = CookieSource name \<and> name \<notin> hl_cookie_name L ` set (context_cookie_iter L k) \<and>
    (\<forall>m. context_cookie L k m =
       (if m = name then None else hl_jar_get L (hl_jar_from_headers L (rq_headers request)) m)) \<and>
    context_occurrences k name = 0"
proof -
  from view_cookies [OF assms] obtain name jar where k: "source = CookieSource name"
    "k = \<lparr>pk_cookies = jar, pk_excluded_name = Some name\<rparr>" "from_headers L (rq_headers request) = Inr jar" by blast
  then show ?thesis
    using from_headers_inner [OF k(3)]
    by (auto simp: context_cookie_def context_occurrences_def context_cookie_iter_def is_excluded_def jar_get_def)
qed

section \<open>Native and generated guards\<close>

text \<open>A native guard and a generated one with the same policy, over the principal type \<open>t\<close>.\<close>

definition same_policy ::
    "(predicate_ref \<Rightarrow> ('p, 'w) authentication \<Rightarrow> bool) \<Rightarrow> 'p principal_type \<Rightarrow> guard_state \<Rightarrow>
     'p native_guard_state \<Rightarrow> bool" where
  "same_policy test t st nt \<longleftrightarrow>
     gd_source (gs_guard st) = ns_source nt \<and> gs_adapter st = ns_adapter nt \<and>
     gd_roles (gs_guard st) = ns_roles nt \<and> gd_permissions (gs_guard st) = ns_permissions nt \<and>
     list_all2 (\<lambda>p f. \<exists>r. gp_adapter p = Some r \<and>
         (\<forall>a v. principal_as (pt_id t) a = Some v \<longrightarrow> test r a = f v))
       (gd_predicates (gs_guard st)) (ns_predicates nt)"

text \<open>An adapter of strategies whose principal is of type \<open>t\<close>: it builds its results with the constructor.\<close>

definition returns_principals ::
    "'p principal_type \<Rightarrow> ('h, 'j, 'c, 'p, 'w) strategy_adapter \<Rightarrow> bool" where
  "returns_principals t adapter \<longleftrightarrow>
     (\<forall>view token a. adapter view token = Inr a \<longrightarrow> (\<exists>ct cn v w. a = authentication_new t ct cn v w))"

lemma predicates_agree:
  assumes "list_all2 (\<lambda>p f. \<exists>r. gp_adapter p = Some r \<and> (\<forall>a v. principal_as i a = Some v \<longrightarrow> test r a = f v)) ps fs"
    "principal_as i a = Some v"
  shows "list_all (\<lambda>p. case gp_adapter p of None \<Rightarrow> False | Some adapter \<Rightarrow> test adapter a) ps = list_all (\<lambda>f. f v) fs"
  using assms by (induction ps fs rule: list_all2_induct) auto

lemma native_agrees:
  assumes "same_policy test t st nt" "returns_principals t (run (gs_adapter st))"
  shows "guard_call L run test st inner request = native_call L run t nt inner request"
proof -
  have same: "gd_source (gs_guard st) = ns_source nt" "gs_adapter st = ns_adapter nt"
    "gd_roles (gs_guard st) = ns_roles nt" "gd_permissions (gs_guard st) = ns_permissions nt"
    using assms(1) by (simp_all add: same_policy_def)
  have "guard_authorize L run test st request = native_authorize L run t nt request"
  proof (cases "authenticate_request L (ns_source nt) (run (ns_adapter nt)) (rq_headers request)
      (rq_method request) (rq_uri request) (rq_connect_info request)")
    case (Inl e)
    then show ?thesis by (simp add: guard_authorize_def native_authorize_def same)
  next
    case (Inr a)
    then obtain token where "run (gs_adapter st) (passport_view L (ns_source nt) request) token = Inr a"
      unfolding authenticate_exact same by blast
    then obtain ct cn v w where a: "a = authentication_new t ct cn v w"
      using assms(2) unfolding returns_principals_def by blast
    have v: "principal_as (pt_id t) a = Some v" by (simp add: a authentication_new_def principal_as_def)
    have roles: "ea_has_role a = pt_has_role t v" "ea_has_permission a = pt_has_permission t v"
      by (simp_all add: a authentication_new_def)
    have "authorizes test (gs_guard st) a \<longleftrightarrow> matches_clause (ns_roles nt) (pt_has_role t v) \<and>
        matches_clause (ns_permissions nt) (pt_has_permission t v) \<and> list_all (\<lambda>f. f v) (ns_predicates nt)"
    proof -
      have "list_all2 (\<lambda>p f. \<exists>r. gp_adapter p = Some r \<and>
          (\<forall>a v. principal_as (pt_id t) a = Some v \<longrightarrow> test r a = f v))
        (gd_predicates (gs_guard st)) (ns_predicates nt)"
        using assms(1) by (simp add: same_policy_def)
      from predicates_agree [OF this v] show ?thesis
        by (auto simp: authorizes_def same roles)
    qed
    moreover obtain x where "install_extensions a (rq_extensions request) = (True, x)"
      by (simp add: install_extensions_def a authentication_new_def principal_as_def verified_as_def)
    ultimately show ?thesis
      using Inr v by (auto simp: guard_authorize_def native_authorize_def same)
  qed
  then show ?thesis by (simp add: guard_call_def native_call_def)
qed

section \<open>Claims\<close>


text \<open>
  C32: A strategy never sees the raw credential. The headers it is given are those of the request
  without the authorization, proxy-authorization and cookie headers, and of the cookies it is given
  every one but the token's: neither looking it up, counting it nor listing the cookies shows it.
\<close>

theorem credentials_redacted:
  assumes "header_laws L"
  shows "hl_get_all L (px_headers (passport_view L source request)) n =
      (if n \<in> credential_headers then [] else hl_get_all L (rq_headers request) n) \<and>
    (case px_cookies (passport_view L source request) of
       None \<Rightarrow> True
     | Some k \<Rightarrow> \<exists>name. source = CookieSource name \<and> name \<notin> hl_cookie_name L ` set (context_cookie_iter L k) \<and>
         (\<forall>m. context_cookie L k m =
            (if m = name then None else hl_jar_get L (hl_jar_from_headers L (rq_headers request)) m)) \<and>
         context_occurrences k name = 0)"
  using view_redacts [of L source request]
  by (auto simp: view_headers safe_headers_get [OF assms] split: option.splits)

text \<open>A library over lists of headers, with cookies of the form name=value.\<close>

definition sample_cookie :: "string \<Rightarrow> (string \<times> string) option" where
  "sample_cookie s = (case split_on (CHR ''='') s of [n, v] \<Rightarrow> Some (n, v) | _ \<Rightarrow> None)"

definition sample_cookies :: "(string \<times> string) list \<Rightarrow> (string \<times> string) list" where
  "sample_cookies headers = List.map_filter (sample_cookie \<circ> trim)
     (concat (map (split_on (CHR '';'') \<circ> snd) (filter (\<lambda>h. fst h = ''cookie'') headers)))"

definition sample_library ::
    "((string \<times> string) list, string, (string \<times> string) list, string \<times> string) http_library" where
  "sample_library =
     \<lparr>hl_get_all = (\<lambda>h n. map snd (filter (\<lambda>e. fst e = n) h)), hl_remove = (\<lambda>h n. filter (\<lambda>e. fst e \<noteq> n) h),
      hl_to_str = Some, hl_parse_encoded = sample_cookie, hl_cookie_name = fst, hl_cookie_value = snd,
      hl_same_site = (\<lambda>_. None), hl_secure = (\<lambda>_. None), hl_encoded = (\<lambda>c. fst c @ ''='' @ snd c),
      hl_value_from_str = Some, hl_jar_new = [], hl_jar_from_headers = sample_cookies,
      hl_jar_get = (\<lambda>j n. find (\<lambda>c. fst c = n) j), hl_jar_iter = (\<lambda>j. j),
      hl_jar_add = (\<lambda>j c. j @ [c]), hl_jar_remove = (\<lambda>j c. filter (\<lambda>d. fst d \<noteq> fst c) j)\<rparr>"

definition sample_request :: "((string \<times> string) list, nat, nat) request" where
  "sample_request = \<lparr>rq_headers = [(''cookie'', ''sid=secret; theme=dark''), (''accept'', ''any'')],
     rq_method = ''GET'', rq_uri = ''/'', rq_connect_info = None, rq_extensions = (\<lambda>_. None)\<rparr>"

theorem credentials_redacted_witness:
  "px_headers (passport_view sample_library (CookieSource ''sid'') sample_request) = [(''accept'', ''any'')] \<and>
   hl_get_all sample_library (px_headers (passport_view sample_library (CookieSource ''sid'') sample_request)) ''cookie'' = []"
proof -
  have laws: "header_laws sample_library"
    by (auto simp: header_laws_def sample_library_def intro!: arg_cong [of _ _ "map snd"] filter_cong)
  have "hl_get_all sample_library (px_headers (passport_view sample_library (CookieSource ''sid'') sample_request)) ''cookie'' = []"
    using credentials_redacted [OF laws, of "CookieSource ''sid''" sample_request "''cookie''"]
    by (simp add: credential_headers_def)
  moreover have "px_headers (passport_view sample_library (CookieSource ''sid'') sample_request) = [(''accept'', ''any'')]"
    by code_simp
  ultimately show ?thesis by blast
qed

text \<open>
  A native guard and a generated guard with the same source, strategy and policy give the same
  answer to every request.
\<close>

theorem native_guards_agree:
  assumes "same_policy test t st nt" "returns_principals t (run (gs_adapter st))"
  shows "guard_call L run test st inner request = native_call L run t nt inner request"
  using assms by (rule native_agrees)


definition sample_type :: "nat principal_type" where
  "sample_type = \<lparr>pt_id = 4, pt_name = ''User'', pt_has_role = (\<lambda>p r. r = ''admin''),
     pt_has_permission = (\<lambda>p r. False)\<rparr>"

definition sample_adapter ::
    "((string \<times> string) list, (string \<times> string) list, string \<times> string, nat, nat) strategy_adapter" where
  "sample_adapter view token =
     (if token = ''secret'' then Inr (authentication_new sample_type 5 ''Claims'' 7 8) else Inl passport_reject)"

definition sample_native :: "nat native_guard_state" where
  "sample_native = \<lparr>ns_source = CookieSource ''sid'', ns_adapter = 2, ns_roles = Some (PolicyClause AnyOf [''admin'']),
     ns_permissions = None, ns_predicates = [\<lambda>p. p = 7]\<rparr>"

definition sample_guard :: guard_state where
  "sample_guard = \<lparr>gs_guard = (guard_descriptor_new 1 ''Api'' ''get'' ''jwt'' (Some 4) (Some ''User'') (CookieSource ''sid'')
     (Some (PolicyClause AnyOf [''admin''])) None [GuardPredicate ''seven'' (Some 3)]
     (SourceLocation ''a.rs'' 1 1) None), gs_adapter = 2\<rparr>"

theorem native_guards_agree_witness:
  "guard_call sample_library (\<lambda>_. sample_adapter) (\<lambda>r a. snd (ea_exact_principal a) = 7) sample_guard
     (\<lambda>request. Inr (rq_method request) :: unit + string) sample_request =
   native_call sample_library (\<lambda>_. sample_adapter) sample_type sample_native
     (\<lambda>request. Inr (rq_method request)) sample_request"
proof -
  have same: "same_policy (\<lambda>r a. snd (ea_exact_principal a) = 7) sample_type sample_guard sample_native"
    by (auto simp: same_policy_def sample_guard_def sample_native_def guard_descriptor_new_def principal_as_def
        split: if_splits)
  have adapter: "returns_principals sample_type sample_adapter"
    by (auto simp: returns_principals_def sample_adapter_def split: if_splits)
  show ?thesis by (rule native_guards_agree [OF same adapter])
qed

end
