(* ===== verification/Http_Router.thy ===== *)
theory Http_Router
  imports Passport_Request
begin

text \<open>
  Building the router (\<open>build_router\<close> of \<open>crates/mads-common/src/router.rs\<close>): the selection of the
  application's controllers and guards, the preflight of the guards, the validation of the routes and
  the registrars, which \<open>#[controller]\<close> and \<open>#[routes]\<close> generate
  (\<open>crates/mads-common-macros/src/controller.rs\<close>, \<open>routes.rs\<close>).

  The router of the web framework is the list of the \<open>route\<close> calls made on it, each with the state of
  the guard layer put around its handler. \<open>build_router_correct\<close> states that a route which declares a
  guard is only ever installed behind that guard.
\<close>

section \<open>Guard layers\<close>

definition missing_scoped_binding_error :: "guard_descriptor \<Rightarrow> error" where
  "missing_scoped_binding_error guard =
     error_new (with_suggestion ''build the router from complete selected Passport guard metadata''
       (with_location (gd_location guard) (with_subject (gd_requirement_subject guard)
         (diagnostic_new MADS130 ''missing scoped Passport binding''
           ''the selected HTTP application has no preflight Passport strategy binding for this guard''))))"

definition passport_guard_state ::
    "strategy_binding list \<Rightarrow> guard_descriptor \<Rightarrow> type_id option \<Rightarrow> error + guard_state" where
  "passport_guard_state passport guard context_module =
     and_then (ok_or (missing_scoped_binding_error guard) (binding_for passport guard context_module))
       (\<lambda>binding. Inr (from_binding binding))"

section \<open>Generated registrars\<close>

record installed_route =
  ir_method :: http_method
  ir_path :: string
  ir_handler :: string
  ir_guard :: "guard_state option"

type_synonym router = "installed_route list"

definition register_route ::
    "strategy_binding list \<Rightarrow> route_descriptor \<Rightarrow> router \<times> validated_route_iter \<Rightarrow>
     failure + router \<times> validated_route_iter" where
  "register_route passport r = (\<lambda>(router, routes).
     and_then (iter_next (rt_method r) (rt_handler r) routes) (\<lambda>(path, routes).
     case path of
       None \<Rightarrow> Inr (router, routes)
     | Some path \<Rightarrow>
         and_then (case rt_guard r of
             None \<Rightarrow> Inr None
           | Some guard \<Rightarrow>
               and_then (or_error (passport_guard_state passport guard (vi_passport_context_module routes)))
                 (\<lambda>st. Inr (Some st))) (\<lambda>layer.
         Inr (router @ [\<lparr>ir_method = rt_method r, ir_path = path, ir_handler = rt_handler r, ir_guard = layer\<rparr>],
              routes))))"

definition mads_register ::
    "strategy_binding list \<Rightarrow> route_contract \<Rightarrow> router \<times> validated_route_iter \<Rightarrow>
     failure + router \<times> validated_route_iter" where
  "mads_register passport contract = try_fold (register_route passport) (ct_routes contract)"

type_synonym controller_registrar =
  "strategy_binding list \<Rightarrow> router \<Rightarrow> validated_route_iter \<Rightarrow> failure + router \<times> validated_route_iter"

text \<open>\<open>resolvable_type\<close> is whether the application can resolvable_type the controller.\<close>

definition generated_registrar :: "(type_id \<Rightarrow> error + unit) \<Rightarrow> controller_descriptor \<Rightarrow> controller_registrar" where
  "generated_registrar resolvable_type c passport router routes =
     and_then (or_error (resolvable_type (cn_type_id c))) (\<lambda>_.
     and_then (try_fold (mads_register passport) (cn_contracts c) (router, routes)) (\<lambda>(router, routes).
     and_then (or_error (iter_finish routes)) (\<lambda>_. Inr (router, routes))))"

section \<open>The router\<close>

text \<open>The body of its loop.\<close>

definition register_controller ::
    "(registrar_ref \<Rightarrow> controller_registrar) \<Rightarrow> strategy_binding list \<Rightarrow> validated_controller \<Rightarrow> router \<Rightarrow> failure + router" where
  "register_controller registrar passport controller router =
     and_then (registrar (vc_registrar controller) passport router (controller_routes controller)) (\<lambda>(router, routes).
     and_then (or_error (iter_finish routes)) (\<lambda>_. Inr router))"

definition build_router ::
    "(type_id \<Rightarrow> string) \<Rightarrow> (registrar_ref \<Rightarrow> controller_registrar) \<Rightarrow> passport_program \<Rightarrow> module_graph option \<Rightarrow>
     failure + router" where
  "build_router debug_type_id registrar P module_graph =
     (let http_scope = for_module_graph (pp_http P) module_graph in
      and_then (preflight_scoped debug_type_id P module_graph (hs_guards http_scope)) (\<lambda>passport.
      and_then (or_error (validate_scoped_descriptors (hs_controllers http_scope))) (\<lambda>controllers.
      try_fold (register_controller registrar passport) controllers [])))"

section \<open>What is linked\<close>

text \<open>
  Every guard of a linked route is a linked guard, every registrar is the generated one, and the
  application resolves its controllers.
\<close>

definition guards_linked :: "http_program \<Rightarrow> bool" where
  "guards_linked P \<longleftrightarrow> (\<forall>c\<in>set (hp_controllers P). \<forall>r\<in>set (routes_for_descriptor c). \<forall>g.
     rt_guard r = Some g \<longrightarrow> g \<in> set (hp_guards P))"

definition generated :: "(registrar_ref \<Rightarrow> controller_registrar) \<Rightarrow> (type_id \<Rightarrow> error + unit) \<Rightarrow> http_program \<Rightarrow> bool" where
  "generated registrar resolvable_type P \<longleftrightarrow>
     (\<forall>c\<in>set (hp_controllers P). resolvable_type (cn_type_id c) = Inr () \<and>
        (\<forall>n. cn_registrar c = Some n \<longrightarrow> registrar n = generated_registrar resolvable_type c))"

text \<open>The selection of routes that the scope of the application makes.\<close>

definition scope_selector :: "http_program \<Rightarrow> module_graph option \<Rightarrow> selector" where
  "scope_selector P module_graph = scoped_selection (hs_controllers (for_module_graph P module_graph))"

definition scope_descriptors :: "http_program \<Rightarrow> module_graph option \<Rightarrow> controller_descriptor list" where
  "scope_descriptors P module_graph = map sd_descriptor (hs_controllers (for_module_graph P module_graph))"

text \<open>The installation of a selected route: its path, and its own guard with the adapter chosen for it.\<close>

definition installed :: "passport_program \<Rightarrow> module_graph option \<Rightarrow> controller_descriptor \<Rightarrow> route_descriptor \<Rightarrow> installed_route" where
  "installed P module_graph c r =
     \<lparr>ir_method = rt_method r, ir_path = to_axum_path (rt_full_path r), ir_handler = rt_handler r,
      ir_guard = (case rt_guard r of
          None \<Rightarrow> None
        | Some g \<Rightarrow>
            let sg = \<lparr>sg_guard = g, sg_context_module =
                rs_passport_context_module (scope_selector (pp_http P) module_graph c r)\<rparr> in
            Some \<lparr>gs_guard = g, gs_adapter = sb_adapter (chosen P module_graph sg)\<rparr>)\<rparr>"

definition all_installed :: "passport_program \<Rightarrow> module_graph option \<Rightarrow> controller_descriptor \<Rightarrow> installed_route list" where
  "all_installed P module_graph c =
     map (installed P module_graph c) (selected_routes (scope_selector (pp_http P) module_graph) c)"

lemma complete_addresses:
  "linked P \<Longrightarrow> distinct (map (cn_address \<circ> sd_descriptor) (complete_controllers P))"
  by (simp add: complete_controllers_def linked_def controller_cache_def comp_def)

lemma scope_addresses:
  "linked P \<Longrightarrow> distinct (map (cn_address \<circ> sd_descriptor) (hs_controllers (for_module_graph P module_graph)))"
  by (cases module_graph) (simp_all add: for_module_graph_def Let_def complete_addresses rooted_addresses)

lemma scope_descriptor_linked:
  "c \<in> set (scope_descriptors P module_graph) \<Longrightarrow> c \<in> set (hp_controllers P)"
  by (cases module_graph)
    (auto simp: scope_descriptors_def for_module_graph_def Let_def rooted_descriptors complete_controllers_def
      controller_cache_def comp_def simp flip: set_map)

text \<open>Every selected guarded route has its guard in the scope, with the module the route is selected with.\<close>

lemma guard_in_scope:
  assumes "linked P" "guards_linked P" "c \<in> set (scope_descriptors P module_graph)"
    "r \<in> set (routes_for_descriptor c)" "rs_selected (scope_selector P module_graph c r)" "rt_guard r = Some g"
  shows "\<lparr>sg_guard = g, sg_context_module = rs_passport_context_module (scope_selector P module_graph c r)\<rparr>
    \<in> set (hs_guards (for_module_graph P module_graph))"
proof -
  let ?scope = "hs_controllers (for_module_graph P module_graph)"
  obtain sc where sc: "sc \<in> set ?scope" "sd_descriptor sc = c"
    using assms(3) by (auto simp: scope_descriptors_def)
  have sel: "scope_selector P module_graph c r = \<lparr>rs_selected = scoped_selects sc r,
      rs_passport_context_module = (if scoped_selects sc r then scoped_passport_context_module sc r else None)\<rparr>"
    unfolding scope_selector_def
    by (rule scoped_selection_member [OF scope_addresses [OF assms(1)] sc(1), unfolded sc(2)])
  have selects: "scoped_selects sc r" using assms(5) by (simp add: sel)
  show ?thesis
  proof (cases module_graph)
    case None
    have "g \<in> set (hp_guards P)"
      using assms(2,4,6) scope_descriptor_linked [OF assms(3)] by (auto simp: guards_linked_def)
    moreover have "scoped_passport_context_module sc r = None"
      using sc(1) unfolding None
      by (auto simp: for_module_graph_def Let_def complete_controllers_def scoped_passport_context_module_def
          route_identity_new_def dest!: find_SomeD split: option.splits)
    ultimately show ?thesis
      unfolding sel by (simp add: selects None for_module_graph_def Let_def selected_guards_def guard_cache_def)
  next
    case (Some gr)
    have hs: "hs_guards (for_module_graph P (Some gr)) = selected_guards P (Some gr) (hs_controllers (for_module_graph P (Some gr)))"
      by (simp add: for_module_graph_def Let_def)
    show ?thesis
      unfolding sel using guards_listed [of sc _ r g P gr] sc selects assms(4,6)
      by (simp add: selects Some hs)
  qed
qed

lemma scope_guards_linked:
  assumes "guards_linked P" "sg \<in> set (hs_guards (for_module_graph P module_graph))"
  shows "sg_guard sg \<in> set (hp_guards P)"
proof (cases module_graph)
  case None
  with assms(2) show ?thesis
    by (auto simp: for_module_graph_def Let_def selected_guards_def guard_cache_def)
next
  case (Some g)
  with assms(2) obtain sc r where sc: "sc \<in> set (hs_controllers (for_module_graph P module_graph))"
    "r \<in> set (routes_for_descriptor (sd_descriptor sc))" "rt_guard r = Some (sg_guard sg)"
    by (auto simp: for_module_graph_def Let_def selected_guards_def set_filter_map)
  then have "sd_descriptor sc \<in> set (hp_controllers P)"
    using scope_descriptor_linked [of "sd_descriptor sc" P module_graph] by (simp add: scope_descriptors_def)
  with sc assms(1) show ?thesis by (auto simp: guards_linked_def)
qed

lemma same_guard:
  assumes "linked P" "g \<in> set (hp_guards P)" "h \<in> set (hp_guards P)" "gd_address g = gd_address h"
  shows "g = h"
  using assms by (auto simp: linked_def distinct_map dest: inj_onD)


section \<open>Registration\<close>

lemma try_fold_concat: "try_fold (\<lambda>c. try_fold f (g c)) cs s = try_fold f (concat (map g cs)) s"
proof (induction cs arbitrary: s)
  case (Cons c cs)
  then show ?case by (cases "try_fold f (g c) s") (simp_all add: try_fold_append)
qed simp

text \<open>Bindings that a controller's selected guarded routes find.\<close>

definition binds :: "passport_program \<Rightarrow> module_graph option \<Rightarrow> strategy_binding list \<Rightarrow> controller_descriptor \<Rightarrow> bool" where
  "binds P module_graph passport c \<longleftrightarrow>
     (\<forall>r\<in>set (routes_for_descriptor c). \<forall>g.
        rs_selected (scope_selector (pp_http P) module_graph c r) \<longrightarrow> rt_guard r = Some g \<longrightarrow>
        binding_for passport g (rs_passport_context_module (scope_selector (pp_http P) module_graph c r)) =
          Some (chosen P module_graph \<lparr>sg_guard = g, sg_context_module =
            rs_passport_context_module (scope_selector (pp_http P) module_graph c r)\<rparr>))"

lemma chosen_guard [simp]: "sb_guard (chosen P module_graph sg) = sg_guard sg"
  by (simp add: chosen_def split: list.splits)

lemma register_one:
  assumes binds: "binds P module_graph passport c" and r: "r \<in> set (routes_for_descriptor c)"
  shows "\<exists>m'. register_route passport r
      (router, \<lparr>vi_routes = validated_route_of (scope_selector (pp_http P) module_graph) c r # rest, vi_passport_context_module = m\<rparr>) =
    Inr (router @ (if rs_selected (scope_selector (pp_http P) module_graph c r) then [installed P module_graph c r] else []),
      \<lparr>vi_routes = rest, vi_passport_context_module = m'\<rparr>)"
proof (cases "rs_selected (scope_selector (pp_http P) module_graph c r)")
  case False
  then show ?thesis by (simp add: register_route_def iter_next_def validated_route_of_def Let_def)
next
  case True
  show ?thesis
  proof (cases "rt_guard r")
    case None
    with True show ?thesis
      by (simp add: register_route_def iter_next_def validated_route_of_def Let_def installed_def)
  next
    case (Some g)
    with binds r True have "binding_for passport g (rs_passport_context_module (scope_selector (pp_http P) module_graph c r)) =
        Some (chosen P module_graph \<lparr>sg_guard = g, sg_context_module =
          rs_passport_context_module (scope_selector (pp_http P) module_graph c r)\<rparr>)"
      by (simp add: binds_def)
    with True Some show ?thesis
      by (simp add: register_route_def iter_next_def validated_route_of_def Let_def installed_def
          passport_guard_state_def from_binding_def)
  qed
qed

lemma register_routes:
  assumes "binds P module_graph passport c" "set rs \<subseteq> set (routes_for_descriptor c)"
  shows "\<exists>m'. try_fold (register_route passport) rs
      (router, \<lparr>vi_routes = map (validated_route_of (scope_selector (pp_http P) module_graph) c) rs, vi_passport_context_module = m\<rparr>) =
    Inr (router @ map (installed P module_graph c) (filter (\<lambda>r. rs_selected (scope_selector (pp_http P) module_graph c r)) rs),
      \<lparr>vi_routes = [], vi_passport_context_module = m'\<rparr>)"
  using assms(2)
proof (induction rs arbitrary: router m)
  case (Cons r rs)
  then have r: "r \<in> set (routes_for_descriptor c)" "set rs \<subseteq> set (routes_for_descriptor c)" by simp_all
  obtain m' where step: "register_route passport r
      (router, \<lparr>vi_routes = validated_route_of (scope_selector (pp_http P) module_graph) c r #
         map (validated_route_of (scope_selector (pp_http P) module_graph) c) rs, vi_passport_context_module = m\<rparr>) =
    Inr (router @ (if rs_selected (scope_selector (pp_http P) module_graph c r) then [installed P module_graph c r] else []),
      \<lparr>vi_routes = map (validated_route_of (scope_selector (pp_http P) module_graph) c) rs, vi_passport_context_module = m'\<rparr>)"
    using register_one [OF assms(1) r(1)] by blast
  from Cons.IH [OF r(2), of "router @ (if rs_selected (scope_selector (pp_http P) module_graph c r) then
    [installed P module_graph c r] else [])" m'] show ?case
    by (simp add: step split: if_splits)
qed simp

lemma registrar_installs:
  assumes "binds P module_graph passport c" "resolvable_type (cn_type_id c) = Inr ()"
  shows "\<exists>m'. generated_registrar resolvable_type c passport router
      \<lparr>vi_routes = map (validated_route_of (scope_selector (pp_http P) module_graph) c) (routes_for_descriptor c),
       vi_passport_context_module = m\<rparr> =
    Inr (router @ all_installed P module_graph c, \<lparr>vi_routes = [], vi_passport_context_module = m'\<rparr>)"
proof -
  obtain m' where "try_fold (register_route passport) (routes_for_descriptor c)
      (router, \<lparr>vi_routes = map (validated_route_of (scope_selector (pp_http P) module_graph) c) (routes_for_descriptor c),
        vi_passport_context_module = m\<rparr>) =
    Inr (router @ all_installed P module_graph c, \<lparr>vi_routes = [], vi_passport_context_module = m'\<rparr>)"
    using register_routes [OF assms(1) order_refl, of router m] by (auto simp: all_installed_def selected_routes_def)
  moreover have "try_fold (mads_register passport) (cn_contracts c) = try_fold (register_route passport) (routes_for_descriptor c)"
    by (simp add: fun_eq_iff mads_register_def [abs_def] try_fold_concat routes_for_descriptor_def)
  ultimately show ?thesis by (simp add: generated_registrar_def assms(2) iter_finish_def)
qed

lemma controllers_install:
  assumes "\<And>c. c \<in> set cs \<Longrightarrow> binds P module_graph passport c \<and> controller_ok c \<and>
    resolvable_type (cn_type_id c) = Inr () \<and> (\<forall>n. cn_registrar c = Some n \<longrightarrow> registrar n = generated_registrar resolvable_type c)"
  shows "try_fold (register_controller registrar passport)
    (map (validated_of (scope_selector (pp_http P) module_graph)) cs) router =
    Inr (router @ concat (map (all_installed P module_graph) cs))"
  using assms
proof (induction cs arbitrary: router)
  case (Cons c cs)
  then have c: "binds P module_graph passport c" "controller_ok c" "resolvable_type (cn_type_id c) = Inr ()"
    "\<forall>n. cn_registrar c = Some n \<longrightarrow> registrar n = generated_registrar resolvable_type c" by simp_all
  from c(2) obtain n where n: "cn_registrar c = Some n" by (auto simp: controller_ok_def)
  obtain m' where "generated_registrar resolvable_type c passport router
      \<lparr>vi_routes = map (validated_route_of (scope_selector (pp_http P) module_graph) c) (routes_for_descriptor c),
       vi_passport_context_module = None\<rparr> =
    Inr (router @ all_installed P module_graph c, \<lparr>vi_routes = [], vi_passport_context_module = m'\<rparr>)"
    using registrar_installs [of P module_graph passport c resolvable_type, OF c(1) c(3)] by blast
  with n c(4) have step: "register_controller registrar passport (validated_of (scope_selector (pp_http P) module_graph) c) router =
      Inr (router @ all_installed P module_graph c)"
    by (simp add: register_controller_def validated_of_def controller_routes_def iter_finish_def)
  have "try_fold (register_controller registrar passport)
      (map (validated_of (scope_selector (pp_http P) module_graph)) cs) (router @ all_installed P module_graph c) =
    Inr ((router @ all_installed P module_graph c) @ concat (map (all_installed P module_graph) cs))"
    by (rule Cons.IH) (use Cons.prems in simp)
  then show ?case by (simp add: step)
qed simp

lemma scope_binds:
  assumes "linked (pp_http P)" "guards_linked (pp_http P)"
    "preflight_scoped debug P module_graph (hs_guards (for_module_graph (pp_http P) module_graph)) = Inr passport"
    "c \<in> set (scope_descriptors (pp_http P) module_graph)"
  shows "binds P module_graph passport c"
  unfolding binds_def
proof (intro ballI allI impI)
  fix r g assume r: "r \<in> set (routes_for_descriptor c)" "rs_selected (scope_selector (pp_http P) module_graph c r)"
    "rt_guard r = Some g"
  let ?sg = "\<lparr>sg_guard = g, sg_context_module = rs_passport_context_module (scope_selector (pp_http P) module_graph c r)\<rparr>"
  have mem: "?sg \<in> set (hs_guards (for_module_graph (pp_http P) module_graph))"
    by (rule guard_in_scope [OF assms(1,2,4) r])
  have "sg_guard sg' = sg_guard ?sg"
    if "sg' \<in> set (hs_guards (for_module_graph (pp_http P) module_graph))"
      "gd_address (sg_guard sg') = gd_address (sg_guard ?sg)" for sg'
    by (rule same_guard [OF assms(1) scope_guards_linked [OF assms(2) that(1)] scope_guards_linked [OF assms(2) mem] that(2)])
  from binding_for_chosen [OF assms(3) mem this]
  show "binding_for passport g (rs_passport_context_module (scope_selector (pp_http P) module_graph c r)) =
      Some (chosen P module_graph ?sg)" by simp
qed

text \<open>The router is built exactly for valid applications, and holds the selected routes behind their guards.\<close>

lemma build_router_correct:
  assumes "linked (pp_http P)" "guards_linked (pp_http P)" "generated registrar resolvable_type (pp_http P)"
  shows "if preflight_ok P module_graph (hs_guards (for_module_graph (pp_http P) module_graph)) \<and>
      application_ok (scope_selector (pp_http P) module_graph) (scope_descriptors (pp_http P) module_graph)
    then build_router debug registrar P module_graph =
      Inr (concat (map (all_installed P module_graph) (controllers_in_order (scope_descriptors (pp_http P) module_graph))))
    else \<exists>e. build_router debug registrar P module_graph = Inl (Failed e)"
proof -
  let ?guards = "hs_guards (for_module_graph (pp_http P) module_graph)"
  let ?sel = "scope_selector (pp_http P) module_graph" and ?ds = "scope_descriptors (pp_http P) module_graph"
  have valid: "validate_scoped_descriptors (hs_controllers (for_module_graph (pp_http P) module_graph)) =
      validate_with_selection ?ds ?sel"
    by (simp add: validate_scoped_descriptors_def scope_selector_def scope_descriptors_def)
  note preflight = preflight_exact [of P module_graph ?guards debug]
  show ?thesis
  proof (cases "preflight_ok P module_graph ?guards")
    case False
    with preflight obtain e where "preflight_scoped debug P module_graph ?guards = Inl (Failed e)"
      by (auto simp: fails_with_def)
    with False show ?thesis by (simp add: build_router_def Let_def)
  next
    case True
    then obtain passport where passport: "preflight_scoped debug P module_graph ?guards = Inr passport"
      using preflight by simp
    show ?thesis
    proof (cases "application_ok ?sel ?ds")
      case False
      with validate_correct [of ?sel ?ds] obtain e where "validate_with_selection ?ds ?sel = Inl e" by auto
      with False passport show ?thesis by (simp add: build_router_def Let_def valid)
    next
      case ok: True
      have "c \<in> set (controllers_in_order ?ds) \<Longrightarrow> binds P module_graph passport c \<and> controller_ok c \<and>
          resolvable_type (cn_type_id c) = Inr () \<and>
          (\<forall>n. cn_registrar c = Some n \<longrightarrow> registrar n = generated_registrar resolvable_type c)" for c
        using scope_binds [OF assms(1,2) passport, of c] scope_descriptor_linked [of c "pp_http P" module_graph]
          ok assms(3) by (simp add: controllers_in_order_def application_ok_def list_all_iff generated_def)
      from controllers_install [OF this] show ?thesis
        using validate_correct [of ?sel ?ds] ok True passport by (simp add: build_router_def Let_def valid)
    qed
  qed
qed


section \<open>Claims\<close>


definition orders_guard :: guard_descriptor where
  "orders_guard = guard_descriptor_new 1 ''Orders'' ''all'' ''jwt'' (Some 4) (Some ''User'') Bearer None None []
     (SourceLocation ''o.rs'' 3 1) (Some 9)"

definition orders_controller :: controller_descriptor where
  "orders_controller =
     \<lparr>cn_address = 1, cn_type_name = ''Orders'', cn_type_id = 7, cn_namespace = None,
      cn_contracts = [\<lparr>ct_trait_name = ''Api'', ct_routes =
        [\<lparr>rt_method = Get, rt_prefix = ''/o'', rt_path = ''/'', rt_full_path = ''/o'', rt_handler = ''all'',
          rt_namespace = None, rt_location = SourceLocation ''o.rs'' 3 1, rt_guard = Some orders_guard\<rparr>]\<rparr>],
      cn_registrar = Some 0\<rparr>"

definition orders_program :: passport_program where
  "orders_program = \<lparr>pp_http = \<lparr>hp_controllers = [orders_controller], hp_guards = [orders_guard], hp_modules = []\<rparr>,
     pp_strategies = [], pp_providers = []\<rparr>"

definition orders_registrar :: "registrar_ref \<Rightarrow> controller_registrar" where
  "orders_registrar _ = generated_registrar (\<lambda>_. Inr ()) orders_controller"


end
