(* ===== verification/Jwt_Token.thy ===== *)
theory Jwt_Token
  imports Passport_Request
begin

text \<open>
  JSON Web Tokens (\<open>jwt/claims.rs\<close>, \<open>jwt/error.rs\<close>, \<open>jwt/keyring.rs\<close> and \<open>jwt/service.rs\<close> under
  \<open>crates/mads-common/src/\<close>): signing, strict verification and untrusted decoding.

  Cryptography, base64, the JSON parser and the serialisation of application claims are libraries:
  the record \<open>jwt_library\<close>. The parser yields the syntax of a text, objects as the list of their
  entries; the visitor of the code, which refuses duplicate keys, is modelled. Times are \<open>64 word\<close>,
  and the clock is an argument. \<open>claims_valid\<close> states the rules on natural numbers.
\<close>

section \<open>Errors\<close>

datatype jwt_error_kind =
  InvalidConfiguration | InvalidKeyMaterial | UnavailableSigningKey | Serialization | Deserialization |
  MalformedToken | TokenTooLarge | DisallowedAlgorithm | AlgorithmMismatch | MissingKeyId | UnknownKeyId |
  InvalidSignature | MissingExpiration | Expired | MissingIssuedAt | InvalidNotBefore | IssuerMismatch |
  AudienceMismatch | SubjectMismatch | JwtIdMismatch | TokenKindMismatch

datatype jwt_error = JwtError (je_kind: jwt_error_kind) (je_source: "string option")

definition jwt_error_new :: "jwt_error_kind \<Rightarrow> jwt_error" where
  "jwt_error_new kind = JwtError kind None"

definition jwt_error_with_source :: "jwt_error_kind \<Rightarrow> string \<Rightarrow> jwt_error" where
  "jwt_error_with_source kind cause = JwtError kind (Some cause)"

fun show_jwt_error_kind :: "jwt_error_kind \<Rightarrow> string" where
  "show_jwt_error_kind InvalidConfiguration = ''JWT configuration is invalid''"
| "show_jwt_error_kind InvalidKeyMaterial = ''JWT key material is invalid''"
| "show_jwt_error_kind UnavailableSigningKey = ''JWT signing key is unavailable''"
| "show_jwt_error_kind Serialization = ''JWT claims could not be serialized''"
| "show_jwt_error_kind Deserialization = ''JWT claims could not be deserialized''"
| "show_jwt_error_kind MalformedToken = ''JWT is malformed''"
| "show_jwt_error_kind TokenTooLarge = ''JWT exceeds the allowed size''"
| "show_jwt_error_kind DisallowedAlgorithm = ''JWT algorithm is not allowed''"
| "show_jwt_error_kind AlgorithmMismatch = ''JWT algorithm does not match the key''"
| "show_jwt_error_kind MissingKeyId = ''JWT key identifier is required''"
| "show_jwt_error_kind UnknownKeyId = ''JWT key identifier is not recognized''"
| "show_jwt_error_kind InvalidSignature = ''JWT signature is invalid''"
| "show_jwt_error_kind MissingExpiration = ''JWT expiration is required''"
| "show_jwt_error_kind Expired = ''JWT has expired''"
| "show_jwt_error_kind MissingIssuedAt = ''JWT issued-at time is required''"
| "show_jwt_error_kind InvalidNotBefore = ''JWT is not currently valid''"
| "show_jwt_error_kind IssuerMismatch = ''JWT issuer does not match''"
| "show_jwt_error_kind AudienceMismatch = ''JWT audience does not match''"
| "show_jwt_error_kind SubjectMismatch = ''JWT subject does not match''"
| "show_jwt_error_kind JwtIdMismatch = ''JWT identifier does not match''"
| "show_jwt_error_kind TokenKindMismatch = ''JWT token kind does not match''"

definition passport_error_of_jwt :: "jwt_error \<Rightarrow> passport_error" where
  "passport_error_of_jwt error =
     (if je_kind error \<in> {InvalidConfiguration, InvalidKeyMaterial, UnavailableSigningKey, Serialization}
      then passport_internal (show_jwt_error_kind (je_kind error)) else passport_reject)"

section \<open>Algorithms and claims\<close>

datatype jwt_algorithm = Hs256 | Hs384 | Hs512 | Rs256 | Rs384 | Rs512 | Es256 | Es384

fun algorithm_str :: "jwt_algorithm \<Rightarrow> string" where
  "algorithm_str Hs256 = ''HS256''"
| "algorithm_str Hs384 = ''HS384''"
| "algorithm_str Hs512 = ''HS512''"
| "algorithm_str Rs256 = ''RS256''"
| "algorithm_str Rs384 = ''RS384''"
| "algorithm_str Rs512 = ''RS512''"
| "algorithm_str Es256 = ''ES256''"
| "algorithm_str Es384 = ''ES384''"

definition algorithm_from_str :: "string \<Rightarrow> jwt_error + jwt_algorithm" where
  "algorithm_from_str value =
     (if value = ''HS256'' then Inr Hs256 else if value = ''HS384'' then Inr Hs384
      else if value = ''HS512'' then Inr Hs512 else if value = ''RS256'' then Inr Rs256
      else if value = ''RS384'' then Inr Rs384 else if value = ''RS512'' then Inr Rs512
      else if value = ''ES256'' then Inr Es256 else if value = ''ES384'' then Inr Es384
      else Inl (jwt_error_new DisallowedAlgorithm))"

fun header_type :: "jwt_token_kind \<Rightarrow> string" where
  "header_type Access = ''mads-access+jwt''"
| "header_type Refresh = ''mads-refresh+jwt''"

record registered_claims =
  rc_issuer :: "string option"
  rc_subject :: "string option"
  rc_audiences :: "string list"
  rc_expires_at :: u64
  rc_not_before :: "u64 option"
  rc_issued_at :: u64
  rc_jwt_id :: "string option"
  rc_token_kind :: jwt_token_kind

record 'c jwt_claims =
  cl_registered :: registered_claims
  cl_custom :: 'c

record jwt_header =
  hd_algorithm :: jwt_algorithm
  hd_key_id :: "string option"
  hd_token_type :: "string option"

record 'c verified_jwt =
  vj_header :: jwt_header
  vj_claims :: "'c jwt_claims"

text \<open>A duration is its whole seconds and its nanoseconds.\<close>

type_synonym duration = "u64 \<times> u32"

definition as_secs :: "duration \<Rightarrow> u64" where
  "as_secs d = fst d"

record sign_options =
  so_kind :: jwt_token_kind
  so_lifetime :: duration
  so_not_before :: "u64 option"
  so_subject :: "string option"
  so_jwt_id :: "string option"

definition sign_options_new :: "jwt_token_kind \<Rightarrow> duration \<Rightarrow> sign_options" where
  "sign_options_new kind lifetime =
     \<lparr>so_kind = kind, so_lifetime = lifetime, so_not_before = None, so_subject = None, so_jwt_id = None\<rparr>"

definition sign_access :: "duration \<Rightarrow> sign_options" where
  "sign_access lifetime = sign_options_new Access lifetime"

definition sign_refresh :: "duration \<Rightarrow> sign_options" where
  "sign_refresh lifetime = sign_options_new Refresh lifetime"

definition sign_not_before :: "u64 \<Rightarrow> sign_options \<Rightarrow> sign_options" where
  "sign_not_before timestamp options = options\<lparr>so_not_before := Some timestamp\<rparr>"

definition sign_subject :: "string \<Rightarrow> sign_options \<Rightarrow> sign_options" where
  "sign_subject subject options = options\<lparr>so_subject := Some subject\<rparr>"

definition sign_jwt_id :: "string \<Rightarrow> sign_options \<Rightarrow> sign_options" where
  "sign_jwt_id jwt_id options = options\<lparr>so_jwt_id := Some jwt_id\<rparr>"

record jwt_validation =
  va_kind :: jwt_token_kind
  va_require_subject :: bool
  va_subject :: "string option"
  va_issuer :: "string option"
  va_audience :: "string option"
  va_require_jwt_id :: bool
  va_jwt_id :: "string option"

definition validation_new :: "jwt_token_kind \<Rightarrow> jwt_validation" where
  "validation_new kind =
     \<lparr>va_kind = kind, va_require_subject = False, va_subject = None, va_issuer = None, va_audience = None,
      va_require_jwt_id = False, va_jwt_id = None\<rparr>"

definition validation_access :: jwt_validation where
  "validation_access = validation_new Access"

definition validation_refresh :: jwt_validation where
  "validation_refresh = validation_new Refresh"

definition validation_require_subject :: "jwt_validation \<Rightarrow> jwt_validation" where
  "validation_require_subject v = v\<lparr>va_require_subject := True\<rparr>"

definition validation_require_jwt_id :: "jwt_validation \<Rightarrow> jwt_validation" where
  "validation_require_jwt_id v = v\<lparr>va_require_jwt_id := True\<rparr>"

definition validation_subject :: "string \<Rightarrow> jwt_validation \<Rightarrow> jwt_validation" where
  "validation_subject expected v = v\<lparr>va_require_subject := True, va_subject := Some expected\<rparr>"

definition validation_issuer :: "string \<Rightarrow> jwt_validation \<Rightarrow> jwt_validation" where
  "validation_issuer expected v = v\<lparr>va_issuer := Some expected\<rparr>"

definition validation_audience :: "string \<Rightarrow> jwt_validation \<Rightarrow> jwt_validation" where
  "validation_audience expected v = v\<lparr>va_audience := Some expected\<rparr>"

definition validation_jwt_id :: "string \<Rightarrow> jwt_validation \<Rightarrow> jwt_validation" where
  "validation_jwt_id expected v = v\<lparr>va_require_jwt_id := True, va_jwt_id := Some expected\<rparr>"

section \<open>JSON\<close>

text \<open>A number is unsigned, negative, or the text of a floating-point number.\<close>

datatype json_number = Unsigned u64 | Negative int | Float string

datatype json = JNull | JBool bool | JNumber json_number | JString string | JArray "json list" |
  JObject "(string \<times> json) list"

type_synonym json_map = "(string, json) btree_map"

text \<open>What the parser reads; objects keep every entry.\<close>

datatype json_syntax = SNull | SBool bool | SNumber json_number | SString string | SArray "json_syntax list" |
  SObject "(string \<times> json_syntax) list"

definition number_as_u64 :: "json \<Rightarrow> u64 option" where
  "number_as_u64 v = (case v of JNumber (Unsigned n) \<Rightarrow> Some n | _ \<Rightarrow> None)"

text \<open>\<open>StrictJsonVisitor\<close>: a value, unless some object in it has a key twice.\<close>

definition insert_entry :: "string \<Rightarrow> json \<Rightarrow> json_map \<Rightarrow> json_map option" where
  "insert_entry key v m = (if bmap_get key m = None then Some (bmap_insert key v m) else None)"

fun strict_value :: "json_syntax \<Rightarrow> json option"
  and strict_list :: "json_syntax list \<Rightarrow> json list option"
  and strict_entries :: "(string \<times> json_syntax) list \<Rightarrow> json_map \<Rightarrow> json_map option" where
  "strict_value SNull = Some JNull"
| "strict_value (SBool b) = Some (JBool b)"
| "strict_value (SNumber n) = Some (JNumber n)"
| "strict_value (SString s) = Some (JString s)"
| "strict_value (SArray xs) = map_option JArray (strict_list xs)"
| "strict_value (SObject es) = map_option JObject (strict_entries es [])"
| "strict_list [] = Some []"
| "strict_list (x # xs) =
     (case strict_value x of None \<Rightarrow> None | Some v \<Rightarrow> map_option ((#) v) (strict_list xs))"
| "strict_entries [] m = Some m"
| "strict_entries ((key, x) # es) m =
     (case strict_value x of
        None \<Rightarrow> None
      | Some v \<Rightarrow> (case insert_entry key v m of None \<Rightarrow> None | Some m \<Rightarrow> strict_entries es m))"

section \<open>The libraries\<close>

datatype crypto_error =
  BadSignature | BadAlgorithm | MissingAlgorithm | BadKeyFormat | BadBase64 | BadJson | BadUtf8 | BadToken | OtherCrypto

text \<open>
  \<open>'e\<close> is an encoding key, \<open>'d\<close> a decoding key and \<open>'c\<close> the claims of the application.
\<close>

record ('e, 'd, 'c) jwt_library =
  jl_encode :: "jwt_header \<Rightarrow> json_map \<Rightarrow> 'e \<Rightarrow> crypto_error + string"
  jl_verify :: "string \<Rightarrow> string \<Rightarrow> 'd \<Rightarrow> jwt_algorithm \<Rightarrow> crypto_error + bool"
  jl_base64_decode :: "string \<Rightarrow> string option"
  jl_parse_json :: "string \<Rightarrow> json_syntax option"
  jl_to_value :: "'c \<Rightarrow> json option"
  jl_from_value :: "json \<Rightarrow> 'c option"

fun map_signing_error :: "crypto_error \<Rightarrow> jwt_error" where
  "map_signing_error BadAlgorithm = jwt_error_new UnavailableSigningKey"
| "map_signing_error BadKeyFormat = jwt_error_new UnavailableSigningKey"
| "map_signing_error _ = jwt_error_new Serialization"

fun map_verification_error :: "crypto_error \<Rightarrow> jwt_error" where
  "map_verification_error BadSignature = jwt_error_new InvalidSignature"
| "map_verification_error BadAlgorithm = jwt_error_new AlgorithmMismatch"
| "map_verification_error MissingAlgorithm = jwt_error_new AlgorithmMismatch"
| "map_verification_error _ = jwt_error_new MalformedToken"

section \<open>Keys\<close>

record ('e, 'd) cached_key =
  ck_algorithm :: jwt_algorithm
  ck_encoding_key :: "'e option"
  ck_decoding_key :: 'd

datatype ('e, 'd) key_ring =
  SimpleRing jwt_algorithm 'e 'd
| NamedRing string "(string, ('e, 'd) cached_key) btree_map"

definition active_signer :: "('e, 'd) key_ring \<Rightarrow> jwt_error + 'e \<times> jwt_algorithm \<times> string option" where
  "active_signer ring =
     (case ring of
        SimpleRing algorithm encoding_key _ \<Rightarrow> Inr (encoding_key, algorithm, None)
      | NamedRing active_key keys \<Rightarrow>
          and_then (ok_or (jwt_error_new UnavailableSigningKey) (bmap_get active_key keys)) (\<lambda>key.
          and_then (ok_or (jwt_error_new UnavailableSigningKey) (ck_encoding_key key)) (\<lambda>encoding_key.
          Inr (encoding_key, ck_algorithm key, Some active_key))))"

definition verifier :: "('e, 'd) key_ring \<Rightarrow> string option \<Rightarrow> jwt_error + 'd \<times> jwt_algorithm" where
  "verifier ring key_id =
     (case ring of
        SimpleRing algorithm _ decoding_key \<Rightarrow> Inr (decoding_key, algorithm)
      | NamedRing _ keys \<Rightarrow>
          and_then (ok_or (jwt_error_new MissingKeyId) key_id) (\<lambda>key_id.
          and_then (ok_or (jwt_error_new UnknownKeyId) (bmap_get key_id keys)) (\<lambda>key.
          Inr (ck_decoding_key key, ck_algorithm key))))"

section \<open>Arithmetic on times\<close>

definition u64_saturating_sub :: "u64 \<Rightarrow> u64 \<Rightarrow> u64" where
  "u64_saturating_sub a b = (if b \<le> a then a - b else 0)"

definition u64_saturating_add :: "u64 \<Rightarrow> u64 \<Rightarrow> u64" where
  "u64_saturating_add a b = (if a \<le> a + b then a + b else - 1)"

definition u64_checked_add :: "u64 \<Rightarrow> u64 \<Rightarrow> u64 option" where
  "u64_checked_add a b = (if a \<le> a + b then Some (a + b) else None)"

lemma unat_saturating_sub: "unat (u64_saturating_sub a b) = unat a - unat b"
  by (simp add: u64_saturating_sub_def unat_sub word_le_nat_alt)

lemma no_overflow: "(a :: u64) \<le> a + b \<longleftrightarrow> unat a + unat b < 2 ^ 64"
  using no_olen_add_nat [of a b] by simp

lemma unat_saturating_add: "unat (u64_saturating_add a b) = min (unat a + unat b) (2 ^ 64 - 1)"
proof (cases "a \<le> a + b")
  case True
  then have "unat a + unat b < 2 ^ 64" by (simp add: no_overflow)
  with True show ?thesis by (simp add: u64_saturating_add_def unat_add_lem [THEN iffD1])
next
  case False
  then have "2 ^ 64 \<le> unat a + unat b" by (simp add: no_overflow)
  with False show ?thesis by (simp add: u64_saturating_add_def unsigned_minus_1_eq_mask mask_eq_exp_minus_1)
qed

lemma checked_add_exact:
  "u64_checked_add a b = Some c \<longleftrightarrow> unat a + unat b < 2 ^ 64 \<and> unat c = unat a + unat b"
proof (cases "a \<le> a + b")
  case True
  then have "unat a + unat b < 2 ^ 64" by (simp add: no_overflow)
  moreover from this have "unat (a + b) = unat a + unat b" by (simp add: unat_add_lem [THEN iffD1])
  ultimately show ?thesis using True by (auto simp: u64_checked_add_def word_unat_eq_iff)
next
  case False
  then show ?thesis by (simp add: u64_checked_add_def no_overflow)
qed

section \<open>The service\<close>

record ('e, 'd) jwt_service =
  js_key_ring :: "('e, 'd) key_ring"
  js_issuer :: "string option"
  js_audiences :: "string list"
  js_clock_skew_seconds :: u64
  js_max_token_bytes :: nat

definition reserved_claims :: "string list" where
  "reserved_claims = [''iss'', ''sub'', ''aud'', ''exp'', ''nbf'', ''iat'', ''jti'', ''token_use'']"

text \<open>The clock: \<open>None\<close> when it stands before 1970.\<close>

definition unix_now :: "u64 option \<Rightarrow> jwt_error + u64" where
  "unix_now clock = ok_or (jwt_error_new Serialization) clock"

definition object_custom_claims :: "('e, 'd, 'c) jwt_library \<Rightarrow> 'c \<Rightarrow> jwt_error + json_map" where
  "object_custom_claims L custom_claims =
     and_then (ok_or (jwt_error_new Serialization) (jl_to_value L custom_claims)) (\<lambda>value.
     case value of
       JObject object \<Rightarrow>
         if list_ex (\<lambda>key. key \<in> set reserved_claims) (bmap_keys object)
         then Inl (jwt_error_new Serialization) else Inr object
     | _ \<Rightarrow> Inl (jwt_error_new Serialization))"

definition insert_some :: "string \<Rightarrow> json option \<Rightarrow> json_map \<Rightarrow> json_map" where
  "insert_some key v m = (case v of None \<Rightarrow> m | Some v \<Rightarrow> bmap_insert key v m)"

definition insert_registered_claims :: "registered_claims \<Rightarrow> json_map \<Rightarrow> json_map" where
  "insert_registered_claims r claims =
     bmap_insert ''token_use'' (JString (claim_value (rc_token_kind r)))
      (insert_some ''jti'' (map_option JString (rc_jwt_id r))
       (bmap_insert ''iat'' (JNumber (Unsigned (rc_issued_at r)))
        (insert_some ''nbf'' (map_option (JNumber \<circ> Unsigned) (rc_not_before r))
         (bmap_insert ''exp'' (JNumber (Unsigned (rc_expires_at r)))
          (insert_some ''aud'' (if rc_audiences r = [] then None else Some (JArray (map JString (rc_audiences r))))
           (insert_some ''sub'' (map_option JString (rc_subject r))
            (insert_some ''iss'' (map_option JString (rc_issuer r)) claims)))))))"

definition jwt_sign ::
    "('e, 'd, 'c) jwt_library \<Rightarrow> ('e, 'd) jwt_service \<Rightarrow> u64 option \<Rightarrow> 'c \<Rightarrow> sign_options \<Rightarrow> jwt_error + string" where
  "jwt_sign L svc clock custom_claims options =
     (let lifetime = as_secs (so_lifetime options) in
      if lifetime = 0 then Inl (jwt_error_new Serialization)
      else and_then (unix_now clock) (\<lambda>issued_at.
      and_then (ok_or (jwt_error_new Serialization) (u64_checked_add issued_at lifetime)) (\<lambda>expires_at.
      and_then (object_custom_claims L custom_claims) (\<lambda>claims.
      let claims = insert_registered_claims
            \<lparr>rc_issuer = js_issuer svc, rc_subject = so_subject options, rc_audiences = js_audiences svc,
             rc_expires_at = expires_at, rc_not_before = so_not_before options, rc_issued_at = issued_at,
             rc_jwt_id = so_jwt_id options, rc_token_kind = so_kind options\<rparr> claims in
      and_then (active_signer (js_key_ring svc)) (\<lambda>(key, algorithm, key_id).
      let header = \<lparr>hd_algorithm = algorithm, hd_key_id = key_id,
            hd_token_type = Some (header_type (so_kind options))\<rparr> in
      case jl_encode L header claims key of
        Inl error \<Rightarrow> Inl (map_signing_error error)
      | Inr token \<Rightarrow> Inr token)))))"

definition ensure_token_size :: "('e, 'd) jwt_service \<Rightarrow> string \<Rightarrow> jwt_error + unit" where
  "ensure_token_size svc token =
     (if length token > js_max_token_bytes svc then Inl (jwt_error_new TokenTooLarge) else Inr ())"

definition jwt_parts :: "string \<Rightarrow> jwt_error + string \<times> string \<times> string" where
  "jwt_parts token =
     (case split_on (CHR ''.'') token of
        [header, payload, signature] \<Rightarrow>
          if header = [] \<or> payload = [] \<or> signature = [] then Inl (jwt_error_new MalformedToken)
          else Inr (header, payload, signature)
      | _ \<Rightarrow> Inl (jwt_error_new MalformedToken))"

definition take_required_u64 :: "json_map \<Rightarrow> string \<Rightarrow> jwt_error_kind \<Rightarrow> jwt_error + u64 \<times> json_map" where
  "take_required_u64 object name missing =
     and_then (ok_or (jwt_error_new missing) (bmap_get name object)) (\<lambda>value.
     and_then (ok_or (jwt_error_new MalformedToken) (number_as_u64 value)) (\<lambda>n.
     Inr (n, bmap_remove name object)))"

definition take_optional_u64 :: "json_map \<Rightarrow> string \<Rightarrow> jwt_error + u64 option \<times> json_map" where
  "take_optional_u64 object name =
     (case bmap_get name object of
        None \<Rightarrow> Inr (None, object)
      | Some value \<Rightarrow> and_then (ok_or (jwt_error_new MalformedToken) (number_as_u64 value))
          (\<lambda>n. Inr (Some n, bmap_remove name object)))"

fun json_string :: "json \<Rightarrow> jwt_error + string" where
  "json_string (JString s) = Inr s"
| "json_string _ = Inl (jwt_error_new MalformedToken)"

definition take_string :: "json_map \<Rightarrow> string \<Rightarrow> jwt_error + string option \<times> json_map" where
  "take_string object name =
     (case bmap_get name object of
        None \<Rightarrow> Inr (None, object)
      | Some value \<Rightarrow> and_then (json_string value) (\<lambda>s. Inr (Some s, bmap_remove name object)))"

definition take_audiences :: "json_map \<Rightarrow> jwt_error + string list \<times> json_map" where
  "take_audiences object =
     (case bmap_get ''aud'' object of
        None \<Rightarrow> Inr ([], object)
      | Some value \<Rightarrow>
          (case value of
             JString audience \<Rightarrow> Inr ([audience], bmap_remove ''aud'' object)
           | JArray audiences \<Rightarrow>
               and_then (try_map json_string audiences) (\<lambda>audiences. Inr (audiences, bmap_remove ''aud'' object))
           | _ \<Rightarrow> Inl (jwt_error_new MalformedToken)))"

definition decode_json_object :: "('e, 'd, 'c) jwt_library \<Rightarrow> string \<Rightarrow> jwt_error + json_map" where
  "decode_json_object L encoded =
     and_then (ok_or (jwt_error_new MalformedToken) (jl_base64_decode L encoded)) (\<lambda>bytes.
     and_then (ok_or (jwt_error_new MalformedToken) (Option.bind (jl_parse_json L bytes) strict_value)) (\<lambda>value.
     case value of JObject object \<Rightarrow> Inr object | _ \<Rightarrow> Inl (jwt_error_new MalformedToken)))"

definition decode_jwt_header :: "('e, 'd, 'c) jwt_library \<Rightarrow> string \<Rightarrow> jwt_error + jwt_header" where
  "decode_jwt_header L encoded_header =
     and_then (decode_json_object L encoded_header) (\<lambda>object.
     if list_ex (\<lambda>key. key \<notin> {''alg'', ''kid'', ''typ''}) (bmap_keys object)
     then Inl (jwt_error_new MalformedToken)
     else and_then (take_string object ''alg'') (\<lambda>(alg, object).
     and_then (case alg of
         Some value \<Rightarrow> (case algorithm_from_str value of
             Inl _ \<Rightarrow> Inl (jwt_error_new DisallowedAlgorithm) | Inr algorithm \<Rightarrow> Inr algorithm)
       | None \<Rightarrow> Inl (jwt_error_new MalformedToken)) (\<lambda>algorithm.
     and_then (take_string object ''kid'') (\<lambda>(key_id, object).
     and_then (take_string object ''typ'') (\<lambda>(token_type, object).
     Inr \<lparr>hd_algorithm = algorithm, hd_key_id = key_id, hd_token_type = token_type\<rparr>)))))"

definition decode_claims :: "('e, 'd, 'c) jwt_library \<Rightarrow> string \<Rightarrow> jwt_error + 'c jwt_claims" where
  "decode_claims L encoded_payload =
     and_then (decode_json_object L encoded_payload) (\<lambda>claims.
     and_then (take_required_u64 claims ''exp'' MissingExpiration) (\<lambda>(expires_at, claims).
     and_then (take_required_u64 claims ''iat'' MissingIssuedAt) (\<lambda>(issued_at, claims).
     and_then (take_optional_u64 claims ''nbf'') (\<lambda>(not_before, claims).
     and_then (take_string claims ''iss'') (\<lambda>(issuer, claims).
     and_then (take_string claims ''sub'') (\<lambda>(subject, claims).
     and_then (take_audiences claims) (\<lambda>(audiences, claims).
     and_then (take_string claims ''jti'') (\<lambda>(jwt_id, claims).
     and_then (take_string claims ''token_use'') (\<lambda>(token_use, claims).
     and_then (if token_use = Some (claim_value Access) then Inr Access
         else if token_use = Some (claim_value Refresh) then Inr Refresh
         else Inl (jwt_error_new TokenKindMismatch)) (\<lambda>token_kind.
     and_then (ok_or (jwt_error_new Deserialization) (jl_from_value L (JObject claims))) (\<lambda>custom.
     Inr \<lparr>cl_registered = \<lparr>rc_issuer = issuer, rc_subject = subject, rc_audiences = audiences,
            rc_expires_at = expires_at, rc_not_before = not_before, rc_issued_at = issued_at,
            rc_jwt_id = jwt_id, rc_token_kind = token_kind\<rparr>, cl_custom = custom\<rparr>)))))))))))"

definition rsplit_once :: "char \<Rightarrow> string \<Rightarrow> (string \<times> string) option" where
  "rsplit_once c s =
     (if c \<in> set s
      then Some (rev (tl (dropWhile (\<lambda>x. x \<noteq> c) (rev s))), rev (takeWhile (\<lambda>x. x \<noteq> c) (rev s)))
      else None)"

definition verify_signature ::
    "('e, 'd, 'c) jwt_library \<Rightarrow> string \<Rightarrow> 'd \<Rightarrow> jwt_algorithm \<Rightarrow> jwt_error + unit" where
  "verify_signature L token key algorithm =
     and_then (ok_or (jwt_error_new MalformedToken) (rsplit_once (CHR ''.'') token)) (\<lambda>(message, signature).
     case jl_verify L signature message key algorithm of
       Inl error \<Rightarrow> Inl (map_verification_error error)
     | Inr valid \<Rightarrow> if valid then Inr () else Inl (jwt_error_new InvalidSignature))"

definition check :: "bool \<Rightarrow> jwt_error_kind \<Rightarrow> jwt_error + unit" where
  "check holds kind = (if holds then Inr () else Inl (jwt_error_new kind))"

definition validate_claims ::
    "('e, 'd) jwt_service \<Rightarrow> jwt_header \<Rightarrow> registered_claims \<Rightarrow> jwt_validation \<Rightarrow> u64 \<Rightarrow> jwt_error + unit" where
  "validate_claims svc header claims validation now =
     and_then (check (\<not> (hd_token_type header \<noteq> Some (header_type (va_kind validation)) \<or>
         rc_token_kind claims \<noteq> va_kind validation)) TokenKindMismatch) (\<lambda>_.
     and_then (check (\<not> rc_expires_at claims \<le> u64_saturating_sub now (js_clock_skew_seconds svc)) Expired) (\<lambda>_.
     and_then (case rc_not_before claims of
         Some not_before \<Rightarrow> check (\<not> not_before > u64_saturating_add now (js_clock_skew_seconds svc)) InvalidNotBefore
       | None \<Rightarrow> Inr ()) (\<lambda>_.
     and_then (case js_issuer svc of
         Some expected \<Rightarrow> check (rc_issuer claims = Some expected) IssuerMismatch | None \<Rightarrow> Inr ()) (\<lambda>_.
     and_then (case va_issuer validation of
         Some expected \<Rightarrow> check (rc_issuer claims = Some expected) IssuerMismatch | None \<Rightarrow> Inr ()) (\<lambda>_.
     and_then (check (\<not> (js_audiences svc \<noteq> [] \<and>
         \<not> list_ex (\<lambda>audience. list_ex (\<lambda>expected. expected = audience) (js_audiences svc)) (rc_audiences claims)))
         AudienceMismatch) (\<lambda>_.
     and_then (case va_audience validation of
         Some expected \<Rightarrow> check (list_ex (\<lambda>audience. audience = expected) (rc_audiences claims)) AudienceMismatch
       | None \<Rightarrow> Inr ()) (\<lambda>_.
     and_then (check (\<not> (va_require_subject validation \<and> rc_subject claims = None)) SubjectMismatch) (\<lambda>_.
     and_then (case va_subject validation of
         Some expected \<Rightarrow> check (rc_subject claims = Some expected) SubjectMismatch | None \<Rightarrow> Inr ()) (\<lambda>_.
     and_then (check (\<not> (va_require_jwt_id validation \<and> rc_jwt_id claims = None)) JwtIdMismatch) (\<lambda>_.
     case va_jwt_id validation of
       Some expected \<Rightarrow> check (rc_jwt_id claims = Some expected) JwtIdMismatch
     | None \<Rightarrow> Inr ()))))))))))"

definition decode_header :: "('e, 'd, 'c) jwt_library \<Rightarrow> ('e, 'd) jwt_service \<Rightarrow> string \<Rightarrow> jwt_error + jwt_header" where
  "decode_header L svc token =
     and_then (ensure_token_size svc token) (\<lambda>_.
     and_then (jwt_parts token) (\<lambda>(header, _, _). decode_jwt_header L header))"

definition decode_unverified ::
    "('e, 'd, 'c) jwt_library \<Rightarrow> ('e, 'd) jwt_service \<Rightarrow> string \<Rightarrow> jwt_error + 'c jwt_claims" where
  "decode_unverified L svc token =
     and_then (ensure_token_size svc token) (\<lambda>_.
     and_then (jwt_parts token) (\<lambda>(header, payload, _).
     and_then (decode_jwt_header L header) (\<lambda>_. decode_claims L payload)))"

definition jwt_verify ::
    "('e, 'd, 'c) jwt_library \<Rightarrow> ('e, 'd) jwt_service \<Rightarrow> u64 option \<Rightarrow> string \<Rightarrow> jwt_validation \<Rightarrow>
     jwt_error + 'c verified_jwt" where
  "jwt_verify L svc clock token validation =
     and_then (ensure_token_size svc token) (\<lambda>_.
     and_then (jwt_parts token) (\<lambda>(encoded_header, encoded_payload, _).
     and_then (decode_jwt_header L encoded_header) (\<lambda>header.
     and_then (verifier (js_key_ring svc) (hd_key_id header)) (\<lambda>(key, key_algorithm).
     if hd_algorithm header \<noteq> key_algorithm then Inl (jwt_error_new AlgorithmMismatch)
     else and_then (verify_signature L token key key_algorithm) (\<lambda>_.
     and_then (decode_claims L encoded_payload) (\<lambda>claims.
     and_then (unix_now clock) (\<lambda>now.
     and_then (validate_claims svc header (cl_registered claims) validation now) (\<lambda>_.
     Inr \<lparr>vj_header = header, vj_claims = claims\<rparr>))))))))"

section \<open>The built-in strategy\<close>

text \<open>The adapter of plain \<open>jwt\<close> guards; \<open>service\<close> is what resolving the service gives.\<close>

definition builtin_claims_adapter ::
    "('e, 'd, 'c) jwt_library \<Rightarrow> 'c principal_type \<Rightarrow> type_id \<Rightarrow> type_id \<Rightarrow> string \<Rightarrow> string +
     ('e, 'd) jwt_service \<Rightarrow> u64 option \<Rightarrow>
     ('h, 'j, 'k, 'c verified_jwt, 'c verified_jwt) strategy_adapter" where
  "builtin_claims_adapter L t principal_id claims_id claims_name service clock view token =
     (case service of
        Inl cause \<Rightarrow> Inl (passport_internal cause)
      | Inr svc \<Rightarrow>
          (case jwt_verify L svc clock token (validation_new Access) of
             Inl error \<Rightarrow> Inl (passport_error_of_jwt error)
           | Inr verified \<Rightarrow>
               Inr (authentication_new
                 \<lparr>pt_id = principal_id, pt_name = ''ClaimsPrincipal'',
                  pt_has_role = (\<lambda>v. pt_has_role t (cl_custom (vj_claims v))),
                  pt_has_permission = (\<lambda>v. pt_has_permission t (cl_custom (vj_claims v)))\<rparr>
                 claims_id claims_name verified verified)))"

section \<open>The rules of validation\<close>

definition in_window :: "u64 \<Rightarrow> u64 \<Rightarrow> registered_claims \<Rightarrow> bool" where
  "in_window skew now claims \<longleftrightarrow>
     0 < unat (rc_expires_at claims) \<and> unat now < unat (rc_expires_at claims) + unat skew \<and>
     (\<forall>n. rc_not_before claims = Some n \<longrightarrow> unat n \<le> unat now + unat skew)"

definition claims_valid ::
    "('e, 'd) jwt_service \<Rightarrow> jwt_header \<Rightarrow> registered_claims \<Rightarrow> jwt_validation \<Rightarrow> u64 \<Rightarrow> bool" where
  "claims_valid svc header claims v now \<longleftrightarrow>
     hd_token_type header = Some (header_type (va_kind v)) \<and> rc_token_kind claims = va_kind v \<and>
     in_window (js_clock_skew_seconds svc) now claims \<and>
     (\<forall>i. js_issuer svc = Some i \<longrightarrow> rc_issuer claims = Some i) \<and>
     (\<forall>i. va_issuer v = Some i \<longrightarrow> rc_issuer claims = Some i) \<and>
     (js_audiences svc = [] \<or> set (js_audiences svc) \<inter> set (rc_audiences claims) \<noteq> {}) \<and>
     (\<forall>a. va_audience v = Some a \<longrightarrow> a \<in> set (rc_audiences claims)) \<and>
     (va_require_subject v \<longrightarrow> rc_subject claims \<noteq> None) \<and>
     (\<forall>s. va_subject v = Some s \<longrightarrow> rc_subject claims = Some s) \<and>
     (va_require_jwt_id v \<longrightarrow> rc_jwt_id claims \<noteq> None) \<and>
     (\<forall>j. va_jwt_id v = Some j \<longrightarrow> rc_jwt_id claims = Some j)"

lemma check_simps [simp]:
  "check b k = Inr () \<longleftrightarrow> b" "check b k = Inl e \<longleftrightarrow> \<not> b \<and> e = jwt_error_new k"
  by (auto simp: check_def)

lemma not_expired: "\<not> e \<le> u64_saturating_sub now skew \<longleftrightarrow> 0 < unat e \<and> unat now < unat e + unat skew"
  by (auto simp: word_le_nat_alt unat_saturating_sub)

lemma begun: "\<not> n > u64_saturating_add now skew \<longleftrightarrow> unat n \<le> unat now + unat skew"
proof -
  have "unat n < 2 ^ LENGTH(64)" by (rule unsigned_less)
  then have "unat n \<le> 2 ^ 64 - 1" by simp
  then show ?thesis by (simp add: word_less_nat_alt unat_saturating_add not_less)
qed

lemma and_then_unit: "and_then r (\<lambda>_. k) = Inr () \<longleftrightarrow> r = Inr () \<and> k = Inr ()" for r :: "jwt_error + unit"
  by (cases r) auto

lemma option_check:
  "(case x of Some y \<Rightarrow> check (P y) k | None \<Rightarrow> Inr ()) = Inr () \<longleftrightarrow> (\<forall>y. x = Some y \<longrightarrow> P y)"
  by (cases x) auto

lemma validate_claims_exact: "validate_claims svc header claims v now = Inr () \<longleftrightarrow> claims_valid svc header claims v now"
proof -
  have audience: "\<not> (js_audiences svc \<noteq> [] \<and>
      \<not> list_ex (\<lambda>audience. list_ex (\<lambda>expected. expected = audience) (js_audiences svc)) (rc_audiences claims)) \<longleftrightarrow>
      js_audiences svc = [] \<or> set (js_audiences svc) \<inter> set (rc_audiences claims) \<noteq> {}"
    by (auto simp: list_ex_iff)
  have listed: "list_ex (\<lambda>audience. audience = a) (rc_audiences claims) \<longleftrightarrow> a \<in> set (rc_audiences claims)" for a
    by (auto simp: list_ex_iff)
  show ?thesis
    unfolding validate_claims_def and_then_unit option_check check_simps audience not_expired begun listed
      claims_valid_def in_window_def
    by argo
qed

section \<open>Verification\<close>

lemma rsplit_once_last: "c \<notin> set b \<Longrightarrow> rsplit_once c (a @ c # b) = Some (a, b)"
proof -
  assume c: "c \<notin> set b"
  then have "\<forall>x\<in>set (rev b). x \<noteq> c" by auto
  then have "takeWhile (\<lambda>x. x \<noteq> c) (rev b @ c # rev a) = rev b"
    and "dropWhile (\<lambda>x. x \<noteq> c) (rev b @ c # rev a) = c # rev a"
    using takeWhile_append2 [of "rev b" "\<lambda>x. x \<noteq> c" "c # rev a"]
      dropWhile_append2 [of "rev b" "\<lambda>x. x \<noteq> c" "c # rev a"] by auto
  then show ?thesis by (simp add: rsplit_once_def)
qed

text \<open>A token in compact form: three parts between dots.\<close>

definition compact :: "string \<Rightarrow> string \<Rightarrow> string \<Rightarrow> string \<Rightarrow> bool" where
  "compact token header payload signature \<longleftrightarrow>
     token = header @ ''.'' @ payload @ ''.'' @ signature \<and>
     header \<noteq> [] \<and> payload \<noteq> [] \<and> signature \<noteq> [] \<and>
     CHR ''.'' \<notin> set header \<and> CHR ''.'' \<notin> set payload \<and> CHR ''.'' \<notin> set signature"

lemma split_three:
  "split_on c s = [x, y, z] \<longleftrightarrow> s = x @ c # y @ c # z \<and> c \<notin> set x \<and> c \<notin> set y \<and> c \<notin> set z"
proof
  assume split: "split_on c s = [x, y, z]"
  have "c \<notin> set p" if "p \<in> {x, y, z}" for p using split_on_pieces [of p c s] split that by simp
  moreover have "s = x @ c # y @ c # z" using join_split_on [of c s] split by simp
  ultimately show "s = x @ c # y @ c # z \<and> c \<notin> set x \<and> c \<notin> set y \<and> c \<notin> set z" by blast
next
  assume "s = x @ c # y @ c # z \<and> c \<notin> set x \<and> c \<notin> set y \<and> c \<notin> set z"
  then show "split_on c s = [x, y, z]" by (simp add: split_on_append split_on_free)
qed

lemma jwt_parts_exact: "jwt_parts token = Inr (h, p, s) \<longleftrightarrow> compact token h p s"
proof -
  have "jwt_parts token = Inr (h, p, s) \<longleftrightarrow> split_on (CHR ''.'') token = [h, p, s] \<and> h \<noteq> [] \<and> p \<noteq> [] \<and> s \<noteq> []"
    by (auto simp: jwt_parts_def split: list.splits if_splits)
  then show ?thesis unfolding split_three compact_def by auto
qed

lemma verify_signature_exact:
  assumes "compact token h p s"
  shows "verify_signature L token key algorithm = Inr () \<longleftrightarrow> jl_verify L s (h @ ''.'' @ p) key algorithm = Inr True"
proof -
  have "rsplit_once (CHR ''.'') token = Some (h @ ''.'' @ p, s)"
    using rsplit_once_last [of "CHR ''.''" s "h @ ''.'' @ p"] assms by (simp add: compact_def)
  then show ?thesis
    by (auto simp: verify_signature_def split: sum.splits if_splits)
qed

text \<open>When a token is accepted, and what is then known of it.\<close>

lemma jwt_verify_exact:
  "jwt_verify L svc (Some now) token v = Inr jwt \<longleftrightarrow>
     (\<exists>h p s key. length token \<le> js_max_token_bytes svc \<and> compact token h p s \<and>
        decode_jwt_header L h = Inr (vj_header jwt) \<and>
        verifier (js_key_ring svc) (hd_key_id (vj_header jwt)) = Inr (key, hd_algorithm (vj_header jwt)) \<and>
        jl_verify L s (h @ ''.'' @ p) key (hd_algorithm (vj_header jwt)) = Inr True \<and>
        decode_claims L p = Inr (vj_claims jwt) \<and>
        claims_valid svc (vj_header jwt) (cl_registered (vj_claims jwt)) v now)"
proof
  assume ok: "jwt_verify L svc (Some now) token v = Inr jwt"
  then obtain h p s header key alg claims where steps:
    "ensure_token_size svc token = Inr ()" "jwt_parts token = Inr (h, p, s)" "decode_jwt_header L h = Inr header"
    "verifier (js_key_ring svc) (hd_key_id header) = Inr (key, alg)" "hd_algorithm header = alg"
    "verify_signature L token key alg = Inr ()" "decode_claims L p = Inr claims"
    "validate_claims svc header (cl_registered claims) v now = Inr ()" "jwt = \<lparr>vj_header = header, vj_claims = claims\<rparr>"
    by (auto simp: jwt_verify_def and_then_eq_Inr unix_now_def split: if_splits)
  note compact = steps(2) [unfolded jwt_parts_exact]
  have "length token \<le> js_max_token_bytes svc" using steps(1) by (simp add: ensure_token_size_def split: if_splits)
  with compact steps(3-5,7,9) steps(6) [unfolded verify_signature_exact [OF compact]]
    steps(8) [unfolded validate_claims_exact]
  show "\<exists>h p s key. length token \<le> js_max_token_bytes svc \<and> compact token h p s \<and>
        decode_jwt_header L h = Inr (vj_header jwt) \<and>
        verifier (js_key_ring svc) (hd_key_id (vj_header jwt)) = Inr (key, hd_algorithm (vj_header jwt)) \<and>
        jl_verify L s (h @ ''.'' @ p) key (hd_algorithm (vj_header jwt)) = Inr True \<and>
        decode_claims L p = Inr (vj_claims jwt) \<and>
        claims_valid svc (vj_header jwt) (cl_registered (vj_claims jwt)) v now"
    by (intro exI [of _ h] exI [of _ p] exI [of _ s] exI [of _ key]) simp
next
  assume "\<exists>h p s key. length token \<le> js_max_token_bytes svc \<and> compact token h p s \<and>
        decode_jwt_header L h = Inr (vj_header jwt) \<and>
        verifier (js_key_ring svc) (hd_key_id (vj_header jwt)) = Inr (key, hd_algorithm (vj_header jwt)) \<and>
        jl_verify L s (h @ ''.'' @ p) key (hd_algorithm (vj_header jwt)) = Inr True \<and>
        decode_claims L p = Inr (vj_claims jwt) \<and>
        claims_valid svc (vj_header jwt) (cl_registered (vj_claims jwt)) v now"
  then obtain h p s key where known: "length token \<le> js_max_token_bytes svc" "compact token h p s"
    "decode_jwt_header L h = Inr (vj_header jwt)"
    "verifier (js_key_ring svc) (hd_key_id (vj_header jwt)) = Inr (key, hd_algorithm (vj_header jwt))"
    "jl_verify L s (h @ ''.'' @ p) key (hd_algorithm (vj_header jwt)) = Inr True"
    "decode_claims L p = Inr (vj_claims jwt)"
    "claims_valid svc (vj_header jwt) (cl_registered (vj_claims jwt)) v now" by blast
  have "jwt_parts token = Inr (h, p, s)" using known(2) by (simp add: jwt_parts_exact)
  moreover have "verify_signature L token key (hd_algorithm (vj_header jwt)) = Inr ()"
    using known(5) by (simp add: verify_signature_exact [OF known(2)])
  moreover have "validate_claims svc (vj_header jwt) (cl_registered (vj_claims jwt)) v now = Inr ()"
    using known(7) by (simp add: validate_claims_exact)
  ultimately show "jwt_verify L svc (Some now) token v = Inr jwt"
    using known by (simp add: jwt_verify_def ensure_token_size_def unix_now_def)
qed

end
