(* ===== verification/Jwt_Roundtrip.thy ===== *)
theory Jwt_Roundtrip
  imports Jwt_Token
begin

text \<open>
  What a service signs, it verifies. The laws of the libraries are stated in \<open>encode_law\<close> and
  \<open>claims_law\<close>: a token is the three parts of the compact form, which decode to the header and the
  claims it was made of, its signature is accepted by the matching key, and reading back what was
  written of an application's claims gives those claims.
\<close>

section \<open>Registered claims in a JSON object\<close>

lemma bmap_ext:
  assumes "bmap_ok m" "bmap_ok n" "\<And>k. bmap_get k m = bmap_get k n"
  shows "m = n"
  using bmap.entries_ext [OF assms] .

lemma insert_some_ok [simp]: "bmap_ok m \<Longrightarrow> bmap_ok (insert_some k v m)"
  by (simp add: insert_some_def bmap_ok_insert split: option.splits)

lemma insert_some_get:
  "bmap_ok m \<Longrightarrow> bmap_get j (insert_some k v m) = (if j = k \<and> v \<noteq> None then v else bmap_get j m)"
  by (auto simp: insert_some_def bmap_get_insert split: option.splits)

definition registered_values :: "registered_claims \<Rightarrow> string \<Rightarrow> json option" where
  "registered_values r k =
     (if k = ''token_use'' then Some (JString (claim_value (rc_token_kind r)))
      else if k = ''jti'' then map_option JString (rc_jwt_id r)
      else if k = ''iat'' then Some (JNumber (Unsigned (rc_issued_at r)))
      else if k = ''nbf'' then map_option (JNumber \<circ> Unsigned) (rc_not_before r)
      else if k = ''exp'' then Some (JNumber (Unsigned (rc_expires_at r)))
      else if k = ''aud'' then (if rc_audiences r = [] then None else Some (JArray (map JString (rc_audiences r))))
      else if k = ''sub'' then map_option JString (rc_subject r)
      else if k = ''iss'' then map_option JString (rc_issuer r)
      else None)"

lemma insert_registered_ok: "bmap_ok m \<Longrightarrow> bmap_ok (insert_registered_claims r m)"
  by (simp add: insert_registered_claims_def bmap_ok_insert)

text \<open>An object an application may write: none of its keys is a registered claim.\<close>

definition unreserved :: "json_map \<Rightarrow> bool" where
  "unreserved m \<longleftrightarrow> bmap_ok m \<and> (\<forall>k\<in>set reserved_claims. bmap_get k m = None)"

lemma unreserved_ok: "unreserved m \<Longrightarrow> bmap_ok m"
  by (simp add: unreserved_def)

lemma unreserved_get: "unreserved m \<Longrightarrow> k \<in> set reserved_claims \<Longrightarrow> bmap_get k m = None"
  by (simp add: unreserved_def)

lemma insert_registered_get:
  assumes m: "unreserved m"
  shows "bmap_get k (insert_registered_claims r m) =
    (if k \<in> set reserved_claims then registered_values r k else bmap_get k m)"
proof (cases "k \<in> set reserved_claims")
  case True
  have get: "bmap_get k m = None" by (rule unreserved_get [OF m True])
  from True have "k = ''iss'' \<or> k = ''sub'' \<or> k = ''aud'' \<or> k = ''exp'' \<or> k = ''nbf'' \<or> k = ''iat'' \<or>
    k = ''jti'' \<or> k = ''token_use''"
    by (simp add: reserved_claims_def)
  then have "bmap_get k (insert_registered_claims r m) = registered_values r k"
    by (elim disjE) (use get in \<open>simp_all add: insert_registered_claims_def bmap_get_insert insert_some_get bmap_ok_insert
      unreserved_ok [OF m] registered_values_def\<close>)
  with True show ?thesis by simp
next
  case False
  then show ?thesis
    by (simp add: insert_registered_claims_def bmap_get_insert insert_some_get bmap_ok_insert unreserved_ok [OF m]
        reserved_claims_def)
qed

text \<open>Reading a claim that is there, or is not, removes it.\<close>

lemma remove_absent: "bmap_get k m = None \<Longrightarrow> bmap_remove k m = m"
  by (induction m) (auto simp: bmap_get_def bmap_remove_def split: if_splits)

lemma take_string_present:
  "bmap_get name object = map_option JString v \<Longrightarrow> take_string object name = Inr (v, bmap_remove name object)"
  by (cases v) (simp_all add: take_string_def remove_absent)

lemma take_u64_present:
  "bmap_get name object = map_option (JNumber \<circ> Unsigned) v \<Longrightarrow>
     take_optional_u64 object name = Inr (v, bmap_remove name object)"
  by (cases v) (simp_all add: take_optional_u64_def remove_absent number_as_u64_def)

lemma take_required_present:
  "bmap_get name object = Some (JNumber (Unsigned n)) \<Longrightarrow>
     take_required_u64 object name missing = Inr (n, bmap_remove name object)"
  by (simp add: take_required_u64_def number_as_u64_def)

lemma try_map_strings: "try_map json_string (map JString xs) = Inr xs"
  by (induction xs) auto

lemma take_audiences_present:
  "bmap_get ''aud'' object = (if xs = [] then None else Some (JArray (map JString xs))) \<Longrightarrow>
     take_audiences object = Inr (xs, bmap_remove ''aud'' object)"
  by (cases xs) (simp_all add: take_audiences_def remove_absent try_map_strings [of "_ # _", simplified])

lemma removed_ok: "bmap_ok m \<Longrightarrow> bmap_ok (foldr bmap_remove ks m)"
  by (induction ks) (simp_all add: bmap_ok_remove)

lemma removed_get: "bmap_get k (foldr bmap_remove ks m) = (if k \<in> set ks then None else bmap_get k m)"
  by (induction ks) (auto simp: bmap_get_remove)

text \<open>Removing the registered claims leaves the custom ones.\<close>

lemma removed_registered:
  assumes "unreserved m" "set ks = set reserved_claims"
  shows "foldr bmap_remove ks (insert_registered_claims r m) = m"
  by (rule bmap_ext)
    (use assms in \<open>simp_all add: removed_ok removed_get insert_registered_ok insert_registered_get unreserved_ok
      unreserved_get\<close>)

lemma decode_registered:
  assumes m: "unreserved m"
    and object: "decode_json_object L payload = Inr (insert_registered_claims r m)"
    and custom: "jl_from_value L (JObject m) = Some c"
  shows "decode_claims L payload = Inr \<lparr>cl_registered = r, cl_custom = c\<rparr>"
proof -
  let ?m = "insert_registered_claims r m"
  note get = insert_registered_get [OF m]
  have vals: "bmap_get ''exp'' ?m = Some (JNumber (Unsigned (rc_expires_at r)))"
    "bmap_get ''iat'' ?m = Some (JNumber (Unsigned (rc_issued_at r)))"
    "bmap_get ''nbf'' ?m = map_option (JNumber \<circ> Unsigned) (rc_not_before r)"
    "bmap_get ''iss'' ?m = map_option JString (rc_issuer r)"
    "bmap_get ''sub'' ?m = map_option JString (rc_subject r)"
    "bmap_get ''aud'' ?m = (if rc_audiences r = [] then None else Some (JArray (map JString (rc_audiences r))))"
    "bmap_get ''jti'' ?m = map_option JString (rc_jwt_id r)"
    "bmap_get ''token_use'' ?m = map_option JString (Some (claim_value (rc_token_kind r)))"
    by (simp_all add: get registered_values_def reserved_claims_def)
  have rest: "bmap_remove ''token_use'' (bmap_remove ''jti'' (bmap_remove ''aud'' (bmap_remove ''sub''
      (bmap_remove ''iss'' (bmap_remove ''nbf'' (bmap_remove ''iat'' (bmap_remove ''exp'' ?m))))))) = m"
    using removed_registered [OF m, of "[''token_use'', ''jti'', ''aud'', ''sub'', ''iss'', ''nbf'', ''iat'', ''exp'']" r]
    by (simp add: reserved_claims_def insert_commute)
  have take:
    "take_required_u64 ?m ''exp'' MissingExpiration = Inr (rc_expires_at r, bmap_remove ''exp'' ?m)"
    "\<And>n. bmap_get ''iat'' n = bmap_get ''iat'' ?m \<Longrightarrow>
       take_required_u64 n ''iat'' MissingIssuedAt = Inr (rc_issued_at r, bmap_remove ''iat'' n)"
    "\<And>n. bmap_get ''nbf'' n = bmap_get ''nbf'' ?m \<Longrightarrow>
       take_optional_u64 n ''nbf'' = Inr (rc_not_before r, bmap_remove ''nbf'' n)"
    "\<And>n. bmap_get ''iss'' n = bmap_get ''iss'' ?m \<Longrightarrow> take_string n ''iss'' = Inr (rc_issuer r, bmap_remove ''iss'' n)"
    "\<And>n. bmap_get ''sub'' n = bmap_get ''sub'' ?m \<Longrightarrow> take_string n ''sub'' = Inr (rc_subject r, bmap_remove ''sub'' n)"
    "\<And>n. bmap_get ''aud'' n = bmap_get ''aud'' ?m \<Longrightarrow> take_audiences n = Inr (rc_audiences r, bmap_remove ''aud'' n)"
    "\<And>n. bmap_get ''jti'' n = bmap_get ''jti'' ?m \<Longrightarrow> take_string n ''jti'' = Inr (rc_jwt_id r, bmap_remove ''jti'' n)"
    "\<And>n. bmap_get ''token_use'' n = bmap_get ''token_use'' ?m \<Longrightarrow>
       take_string n ''token_use'' = Inr (Some (claim_value (rc_token_kind r)), bmap_remove ''token_use'' n)"
    unfolding vals
    by (simp_all only: take_required_present take_u64_present take_string_present take_audiences_present vals)
  show ?thesis
    unfolding decode_claims_def object
    by (cases "rc_token_kind r") (simp_all add: take bmap_get_remove rest custom)
qed

section \<open>Values and their text\<close>

text \<open>The syntax of a value, and the values a program can have: no object has a key twice.\<close>

fun syntax_of :: "json \<Rightarrow> json_syntax"
  and syntax_list :: "json list \<Rightarrow> json_syntax list"
  and syntax_entries :: "(string \<times> json) list \<Rightarrow> (string \<times> json_syntax) list" where
  "syntax_of JNull = SNull"
| "syntax_of (JBool b) = SBool b"
| "syntax_of (JNumber n) = SNumber n"
| "syntax_of (JString s) = SString s"
| "syntax_of (JArray xs) = SArray (syntax_list xs)"
| "syntax_of (JObject es) = SObject (syntax_entries es)"
| "syntax_list [] = []"
| "syntax_list (x # xs) = syntax_of x # syntax_list xs"
| "syntax_entries [] = []"
| "syntax_entries ((k, x) # es) = (k, syntax_of x) # syntax_entries es"

fun json_ok :: "json \<Rightarrow> bool"
  and list_ok :: "json list \<Rightarrow> bool"
  and entries_ok :: "(string \<times> json) list \<Rightarrow> bool" where
  "json_ok (JArray xs) \<longleftrightarrow> list_ok xs"
| "json_ok (JObject es) \<longleftrightarrow> bmap_ok es \<and> entries_ok es"
| "json_ok _ \<longleftrightarrow> True"
| "list_ok [] \<longleftrightarrow> True"
| "list_ok (x # xs) \<longleftrightarrow> json_ok x \<and> list_ok xs"
| "entries_ok [] \<longleftrightarrow> True"
| "entries_ok ((k, x) # es) \<longleftrightarrow> json_ok x \<and> entries_ok es"

lemma insert_last: "\<forall>j\<in>fst ` set m. j < k \<Longrightarrow> bmap_insert k v m = m @ [(k, v)]"
  by (induction m) auto

lemma get_smaller: "\<forall>j\<in>fst ` set m. j < (k :: 'k :: linorder) \<Longrightarrow> bmap_get k m = None"
  by (auto simp: bmap_get_def map_of_eq_None_iff)

lemma strict_syntax:
  "json_ok v \<Longrightarrow> strict_value (syntax_of v) = Some v"
  "list_ok vs \<Longrightarrow> strict_list (syntax_list vs) = Some vs"
  "entries_ok es \<Longrightarrow> bmap_ok (m @ es) \<Longrightarrow> strict_entries (syntax_entries es) m = Some (m @ es)"
proof (induction v and vs and es arbitrary: m and m and m rule: syntax_of_syntax_list_syntax_entries.induct)
  case (6 es)
  then show ?case using 6(1) [of "[]"] by simp
next
  case (10 k x es)
  have "\<forall>j\<in>fst ` set m. j < k" using 10(4) by (auto simp: bmap_ok_def sorted_wrt_append)
  then have "insert_entry k x m = Some (m @ [(k, x)])" by (simp add: insert_entry_def get_smaller insert_last)
  moreover have "bmap_ok ((m @ [(k, x)]) @ es)" using 10(4) by simp
  ultimately show ?case using 10(1,3) 10(2) [of "m @ [(k, x)]"] by simp
qed simp_all

lemma entries_ok_all: "entries_ok es \<longleftrightarrow> (\<forall>e\<in>set es. json_ok (snd e))"
  by (induction es) auto

lemma list_ok_strings: "list_ok (map JString xs)"
  by (induction xs) auto

lemma set_bmap_insert: "set (bmap_insert k v m) \<subseteq> insert (k, v) (set m)"
  by (induction m) auto

lemma entries_ok_insert: "json_ok v \<Longrightarrow> entries_ok m \<Longrightarrow> entries_ok (bmap_insert k v m)"
  using set_bmap_insert [of k v m] by (auto simp: entries_ok_all)

lemma entries_ok_insert_some:
  "(\<forall>x. v = Some x \<longrightarrow> json_ok x) \<Longrightarrow> entries_ok m \<Longrightarrow> entries_ok (insert_some k v m)"
  by (auto simp: insert_some_def entries_ok_insert split: option.splits)

lemma registered_json_ok: "json_ok (JObject m) \<Longrightarrow> json_ok (JObject (insert_registered_claims r m))"
  by (auto simp: insert_registered_ok) (auto simp: insert_registered_claims_def list_ok_strings
      intro!: entries_ok_insert entries_ok_insert_some)

section \<open>The laws of the libraries\<close>

definition header_object :: "jwt_header \<Rightarrow> json_map" where
  "header_object h =
     insert_some ''typ'' (map_option JString (hd_token_type h))
      (insert_some ''kid'' (map_option JString (hd_key_id h))
       (bmap_insert ''alg'' (JString (algorithm_str (hd_algorithm h))) []))"

text \<open>
  \<open>jsonwebtoken::encode\<close> writes the base64 of the header, of the claims and of a signature, which a
  key \<open>matching\<close> the signing one accepts; base64 and JSON text read back as what was written.
\<close>

definition encode_law :: "('e, 'd, 'c) jwt_library \<Rightarrow> ('e \<Rightarrow> 'd \<Rightarrow> bool) \<Rightarrow> bool" where
  "encode_law L matching \<longleftrightarrow> (\<forall>header claims e d token.
     jl_encode L header claims e = Inr token \<longrightarrow> matching e d \<longrightarrow>
     (\<exists>h p s hb pb. compact token h p s \<and>
        jl_base64_decode L h = Some hb \<and> jl_parse_json L hb = Some (syntax_of (JObject (header_object header))) \<and>
        jl_base64_decode L p = Some pb \<and> jl_parse_json L pb = Some (syntax_of (JObject claims)) \<and>
        jl_verify L s (h @ ''.'' @ p) d (hd_algorithm header) = Inr True))"

text \<open>\<open>serde\<close>: the value of some claims is one a program can have, and reads back as those claims.\<close>

definition claims_law :: "('e, 'd, 'c) jwt_library \<Rightarrow> bool" where
  "claims_law L \<longleftrightarrow> (\<forall>c v. jl_to_value L c = Some v \<longrightarrow> json_ok v \<and> jl_from_value L v = Some c)"

text \<open>A ring whose signing key is accepted by the key it verifies with.\<close>

definition ring_paired :: "('e \<Rightarrow> 'd \<Rightarrow> bool) \<Rightarrow> ('e, 'd) key_ring \<Rightarrow> bool" where
  "ring_paired matching ring \<longleftrightarrow>
     (case ring of
        SimpleRing _ e d \<Rightarrow> matching e d
      | NamedRing _ keys \<Rightarrow> \<forall>(k, key)\<in>set keys. \<forall>e. ck_encoding_key key = Some e \<longrightarrow> matching e (ck_decoding_key key))"

lemma paired_signer:
  assumes "ring_paired matching ring" "active_signer ring = Inr (e, algorithm, key_id)"
  shows "\<exists>d. verifier ring key_id = Inr (d, algorithm) \<and> matching e d"
proof (cases ring)
  case (SimpleRing a e' d)
  with assms show ?thesis by (simp add: ring_paired_def active_signer_def verifier_def)
next
  case (NamedRing active keys)
  from assms(2) obtain key where "bmap_get active keys = Some key" "ck_encoding_key key = Some e"
    "algorithm = ck_algorithm key" "key_id = Some active"
    by (auto simp: NamedRing active_signer_def and_then_eq_Inr ok_or_eq_Inr)
  moreover from this have "(active, key) \<in> set keys" by (auto simp: bmap_get_def dest: map_of_SomeD)
  ultimately show ?thesis using assms(1) by (auto simp: NamedRing ring_paired_def verifier_def)
qed

lemma decode_object:
  assumes "jl_base64_decode L part = Some bytes" "jl_parse_json L bytes = Some (syntax_of (JObject m))"
    "json_ok (JObject m)"
  shows "decode_json_object L part = Inr m"
  using assms strict_syntax(1) [OF assms(3)] by (simp add: decode_json_object_def)

lemma algorithm_from_str_str: "algorithm_from_str (algorithm_str a) = Inr a"
  by (cases a) (simp_all add: algorithm_from_str_def)

lemma header_object_ok: "json_ok (JObject (header_object h))"
proof -
  have "bmap_ok (header_object h)"
    using bmap.ok_insert [OF bmap.ok_empty, of "''alg''" "JString (algorithm_str (hd_algorithm h))"]
    by (simp add: header_object_def)
  moreover have "entries_ok (header_object h)"
    unfolding header_object_def
    by (intro entries_ok_insert_some entries_ok_insert) auto
  ultimately show ?thesis by simp
qed

lemma decode_header_object:
  assumes "decode_json_object L part = Inr (header_object h)"
  shows "decode_jwt_header L part = Inr h"
proof -
  let ?o = "header_object h"
  have ok: "bmap_ok ?o" using header_object_ok by simp
  have base: "bmap_ok [(''alg'', JString (algorithm_str (hd_algorithm h)))]" by (simp add: bmap_ok_def)
  have get: "bmap_get k ?o =
      (if k = ''typ'' \<and> hd_token_type h \<noteq> None then map_option JString (hd_token_type h)
       else if k = ''kid'' \<and> hd_key_id h \<noteq> None then map_option JString (hd_key_id h)
       else if k = ''alg'' then Some (JString (algorithm_str (hd_algorithm h))) else None)" for k
    by (simp add: header_object_def insert_some_get base) (simp add: bmap_get_def)
  have keys: "set (bmap_keys ?o) \<subseteq> {''alg'', ''kid'', ''typ''}"
  proof
    fix k assume "k \<in> set (bmap_keys ?o)"
    then have "bmap_get k ?o \<noteq> None" by (simp add: bmap_keys_def bmap_get_def map_of_eq_None_iff)
    then show "k \<in> {''alg'', ''kid'', ''typ''}" by (simp add: get split: if_splits)
  qed
  have "take_string ?o ''alg'' = Inr (Some (algorithm_str (hd_algorithm h)), bmap_remove ''alg'' ?o)"
    by (rule take_string_present) (simp add: get)
  moreover have "take_string (bmap_remove ''alg'' ?o) ''kid'' =
      Inr (hd_key_id h, bmap_remove ''kid'' (bmap_remove ''alg'' ?o))"
    by (rule take_string_present) (simp add: get bmap_get_remove)
  moreover have "take_string (bmap_remove ''kid'' (bmap_remove ''alg'' ?o)) ''typ'' =
      Inr (hd_token_type h, bmap_remove ''typ'' (bmap_remove ''kid'' (bmap_remove ''alg'' ?o)))"
    by (rule take_string_present) (simp add: get bmap_get_remove)
  moreover have "\<not> list_ex (\<lambda>key. key \<notin> {''alg'', ''kid'', ''typ''}) (bmap_keys ?o)"
    using keys by (auto simp: list_ex_iff)
  ultimately show ?thesis
    by (simp add: decode_jwt_header_def assms algorithm_from_str_str)
qed

section \<open>Signed tokens\<close>

text \<open>What \<open>sign\<close> puts into a token.\<close>

definition signed_claims :: "('e, 'd) jwt_service \<Rightarrow> u64 \<Rightarrow> sign_options \<Rightarrow> registered_claims" where
  "signed_claims svc issued_at options =
     \<lparr>rc_issuer = js_issuer svc, rc_subject = so_subject options, rc_audiences = js_audiences svc,
      rc_expires_at = issued_at + as_secs (so_lifetime options), rc_not_before = so_not_before options,
      rc_issued_at = issued_at, rc_jwt_id = so_jwt_id options, rc_token_kind = so_kind options\<rparr>"

lemma signed_token:
  "(case r of Inl error \<Rightarrow> Inl (map_signing_error error) | Inr token \<Rightarrow> Inr token) = Inr t \<longleftrightarrow> r = Inr t"
  by (cases r) auto

lemma custom_claims_unreserved:
  assumes "object_custom_claims L c = Inr m"
  shows "jl_to_value L c = Some (JObject m) \<and> (\<forall>k\<in>set reserved_claims. k \<notin> set (bmap_keys m))"
proof -
  obtain v where v: "jl_to_value L c = Some v"
    using assms by (cases "jl_to_value L c") (simp_all add: object_custom_claims_def)
  with assms show ?thesis
    by (cases v) (auto simp: object_custom_claims_def list_ex_iff split: if_splits)
qed

lemma jwt_sign_parts:
  assumes "jwt_sign L svc (Some now) c options = Inr token"
  shows "\<exists>m e algorithm key_id. 0 < as_secs (so_lifetime options) \<and>
    unat now + unat (as_secs (so_lifetime options)) < 2 ^ 64 \<and>
    jl_to_value L c = Some (JObject m) \<and> (\<forall>k\<in>set reserved_claims. k \<notin> set (bmap_keys m)) \<and>
    active_signer (js_key_ring svc) = Inr (e, algorithm, key_id) \<and>
    jl_encode L \<lparr>hd_algorithm = algorithm, hd_key_id = key_id, hd_token_type = Some (header_type (so_kind options))\<rparr>
      (insert_registered_claims (signed_claims svc now options) m) e = Inr token"
proof -
  let ?lifetime = "as_secs (so_lifetime options)"
  from assms obtain expires m e algorithm key_id where steps: "?lifetime \<noteq> 0"
    "u64_checked_add now ?lifetime = Some expires" "object_custom_claims L c = Inr m"
    "active_signer (js_key_ring svc) = Inr (e, algorithm, key_id)"
    "jl_encode L \<lparr>hd_algorithm = algorithm, hd_key_id = key_id, hd_token_type = Some (header_type (so_kind options))\<rparr>
      (insert_registered_claims \<lparr>rc_issuer = js_issuer svc, rc_subject = so_subject options,
         rc_audiences = js_audiences svc, rc_expires_at = expires, rc_not_before = so_not_before options,
         rc_issued_at = now, rc_jwt_id = so_jwt_id options, rc_token_kind = so_kind options\<rparr> m) e = Inr token"
    by (auto simp: jwt_sign_def Let_def unix_now_def and_then_eq_Inr ok_or_eq_Inr signed_token split: if_splits)
  have "expires = now + ?lifetime" using steps(2) by (simp add: u64_checked_add_def split: if_splits)
  moreover have "unat now + unat ?lifetime < 2 ^ 64" using steps(2) by (simp add: checked_add_exact)
  moreover have "jl_to_value L c = Some (JObject m) \<and> (\<forall>k\<in>set reserved_claims. k \<notin> set (bmap_keys m))"
    using steps(3) by (rule custom_claims_unreserved)
  ultimately show ?thesis using steps by (auto simp: signed_claims_def word_neq_0_conv)
qed

lemma jwt_sign_decodes:
  assumes laws: "encode_law L matching" "claims_law L" and paired: "ring_paired matching (js_key_ring svc)"
    and sign: "jwt_sign L svc (Some now) c options = Inr token"
  shows "\<exists>h p s d algorithm key_id. compact token h p s \<and>
    decode_jwt_header L h = Inr \<lparr>hd_algorithm = algorithm, hd_key_id = key_id,
      hd_token_type = Some (header_type (so_kind options))\<rparr> \<and>
    verifier (js_key_ring svc) key_id = Inr (d, algorithm) \<and>
    jl_verify L s (h @ ''.'' @ p) d algorithm = Inr True \<and>
    decode_claims L p = Inr \<lparr>cl_registered = signed_claims svc now options, cl_custom = c\<rparr>"
proof -
  obtain m e algorithm key_id where known: "jl_to_value L c = Some (JObject m)"
    "\<forall>k\<in>set reserved_claims. k \<notin> set (bmap_keys m)" "active_signer (js_key_ring svc) = Inr (e, algorithm, key_id)"
    "jl_encode L \<lparr>hd_algorithm = algorithm, hd_key_id = key_id, hd_token_type = Some (header_type (so_kind options))\<rparr>
      (insert_registered_claims (signed_claims svc now options) m) e = Inr token"
    using jwt_sign_parts [OF sign] by blast
  let ?header = "\<lparr>hd_algorithm = algorithm, hd_key_id = key_id, hd_token_type = Some (header_type (so_kind options))\<rparr>"
  let ?claims = "insert_registered_claims (signed_claims svc now options) m"
  have val: "json_ok (JObject m)" "jl_from_value L (JObject m) = Some c"
    using laws(2) [unfolded claims_law_def, rule_format, OF known(1)] by simp_all
  have free: "unreserved m"
    using val(1) known(2) by (simp add: unreserved_def bmap_keys_def bmap_get_def map_of_eq_None_iff)
  obtain d where d: "verifier (js_key_ring svc) key_id = Inr (d, algorithm)" "matching e d"
    using paired_signer [OF paired known(3)] by blast
  obtain h p s hb pb where token: "compact token h p s" "jl_base64_decode L h = Some hb"
    "jl_parse_json L hb = Some (syntax_of (JObject (header_object ?header)))"
    "jl_base64_decode L p = Some pb" "jl_parse_json L pb = Some (syntax_of (JObject ?claims))"
    "jl_verify L s (h @ ''.'' @ p) d (hd_algorithm ?header) = Inr True"
    using laws(1) known(4) d(2) unfolding encode_law_def by blast
  have "decode_jwt_header L h = Inr ?header"
    by (rule decode_header_object) (rule decode_object [OF token(2,3) header_object_ok])
  moreover have "decode_claims L p = Inr \<lparr>cl_registered = signed_claims svc now options, cl_custom = c\<rparr>"
    by (rule decode_registered [OF free decode_object [OF token(4,5) registered_json_ok [OF val(1)]] val(2)])
  ultimately show ?thesis using token(1,6) d(1) by (intro exI conjI) simp_all
qed

text \<open>What a service answers to its own tokens.\<close>

lemma own_claims_valid:
  assumes lifetime: "0 < as_secs (so_lifetime options)" "unat issued + unat (as_secs (so_lifetime options)) < 2 ^ 64"
    and header: "hd_token_type header = Some (header_type (so_kind options))"
  shows "validate_claims svc header (signed_claims svc issued options) (validation_new kind) now =
    (if so_kind options \<noteq> kind then Inl (jwt_error_new TokenKindMismatch)
     else if unat issued + unat (as_secs (so_lifetime options)) + unat (js_clock_skew_seconds svc) \<le> unat now
     then Inl (jwt_error_new Expired)
     else if \<exists>n. so_not_before options = Some n \<and> unat now + unat (js_clock_skew_seconds svc) < unat n
     then Inl (jwt_error_new InvalidNotBefore) else Inr ())"
proof -
  let ?claims = "signed_claims svc issued options"
  have "unat (issued + as_secs (so_lifetime options)) = unat issued + unat (as_secs (so_lifetime options))"
    using lifetime(2) by (simp add: unat_add_lem [THEN iffD1])
  moreover have "0 < unat (as_secs (so_lifetime options))" using lifetime(1) by (simp add: word_less_nat_alt)
  ultimately have expired: "\<not> issued + as_secs (so_lifetime options) \<le> u64_saturating_sub now (js_clock_skew_seconds svc) \<longleftrightarrow>
      \<not> unat issued + unat (as_secs (so_lifetime options)) + unat (js_clock_skew_seconds svc) \<le> unat now"
    unfolding not_expired by (simp add: not_le)
  have fields: "rc_token_kind ?claims = so_kind options" "rc_not_before ?claims = so_not_before options"
    "rc_expires_at ?claims = issued + as_secs (so_lifetime options)"
    by (simp_all add: signed_claims_def)
  have audience: "check (\<not> (js_audiences svc \<noteq> [] \<and> \<not> list_ex (\<lambda>audience. list_ex (\<lambda>expected. expected = audience)
      (js_audiences svc)) (rc_audiences ?claims))) AudienceMismatch = Inr ()"
    by (cases "js_audiences svc") (simp_all add: check_def signed_claims_def)
  have issuer: "(case js_issuer svc of Some expected \<Rightarrow> check (rc_issuer ?claims = Some expected) IssuerMismatch
      | None \<Rightarrow> Inr ()) = Inr ()"
    by (cases "js_issuer svc") (simp_all add: check_def signed_claims_def)
  have unasked: "va_kind (validation_new kind) = kind" "va_issuer (validation_new kind) = None"
    "va_audience (validation_new kind) = None" "\<not> va_require_subject (validation_new kind)"
    "va_subject (validation_new kind) = None" "\<not> va_require_jwt_id (validation_new kind)"
    "va_jwt_id (validation_new kind) = None"
    by (simp_all add: validation_new_def)
  have kind: "\<not> (hd_token_type header \<noteq> Some (header_type kind) \<or> so_kind options \<noteq> kind) \<longleftrightarrow> so_kind options = kind"
    by (auto simp: header)
  have start: "(case so_not_before options of
      Some not_before \<Rightarrow> check (\<not> not_before > u64_saturating_add now (js_clock_skew_seconds svc)) InvalidNotBefore
      | None \<Rightarrow> Inr ()) =
    (if \<exists>n. so_not_before options = Some n \<and> unat now + unat (js_clock_skew_seconds svc) < unat n
     then Inl (jwt_error_new InvalidNotBefore) else Inr ())"
    by (cases "so_not_before options") (simp_all add: begun check_def not_le del: not_less)
  show ?thesis
    unfolding validate_claims_def unasked fields kind expired start issuer audience
    by (simp add: check_def unasked)
qed

lemma own_token_answer:
  assumes "encode_law L matching" "claims_law L" "ring_paired matching (js_key_ring svc)"
    and "jwt_sign L svc (Some issued) c options = Inr token"
  shows "map_sum id vj_claims (jwt_verify L svc (Some now) token (validation_new kind)) =
    (if js_max_token_bytes svc < length token then Inl (jwt_error_new TokenTooLarge)
     else if so_kind options \<noteq> kind then Inl (jwt_error_new TokenKindMismatch)
     else if unat issued + unat (as_secs (so_lifetime options)) + unat (js_clock_skew_seconds svc) \<le> unat now
     then Inl (jwt_error_new Expired)
     else if \<exists>n. so_not_before options = Some n \<and> unat now + unat (js_clock_skew_seconds svc) < unat n
     then Inl (jwt_error_new InvalidNotBefore)
     else Inr \<lparr>cl_registered = signed_claims svc issued options, cl_custom = c\<rparr>)"
proof (cases "js_max_token_bytes svc < length token")
  case True
  then show ?thesis by (simp add: jwt_verify_def ensure_token_size_def)
next
  case False
  obtain h p s d algorithm key_id where token: "compact token h p s"
    "decode_jwt_header L h = Inr \<lparr>hd_algorithm = algorithm, hd_key_id = key_id,
      hd_token_type = Some (header_type (so_kind options))\<rparr>"
    "verifier (js_key_ring svc) key_id = Inr (d, algorithm)"
    "jl_verify L s (h @ ''.'' @ p) d algorithm = Inr True"
    "decode_claims L p = Inr \<lparr>cl_registered = signed_claims svc issued options, cl_custom = c\<rparr>"
    using jwt_sign_decodes [OF assms] by blast
  have parts: "jwt_parts token = Inr (h, p, s)" using token(1) by (simp add: jwt_parts_exact)
  have signature: "verify_signature L token d algorithm = Inr ()"
    unfolding verify_signature_exact [OF token(1)] by (rule token(4))
  have lifetime: "0 < as_secs (so_lifetime options)" "unat issued + unat (as_secs (so_lifetime options)) < 2 ^ 64"
    using jwt_sign_parts [OF assms(4)] by blast+
  show ?thesis
    by (simp add: jwt_verify_def ensure_token_size_def False parts token(2,3,5) signature unix_now_def
        own_claims_valid [OF lifetime] del: not_less not_le) (blast | simp)?
qed

end
