(* ===== verification/Jwt_Config.thy ===== *)
theory Jwt_Config
  imports Jwt_Roundtrip Config
begin

text \<open>
  The configuration of the JWT service (\<open>jwt/config.rs\<close>, \<open>jwt/keyring.rs\<close> and the constructors of
  \<open>jwt/service.rs\<close> under \<open>crates/mads-common/src/\<close>): a single HMAC secret or a ring of named keys, the
  checks a configuration passes, and the key ring built from it.

  The construction of keys, signing and verifying are the library \<open>jsonwebtoken\<close> (\<open>key_library\<close>);
  \<open>read\<close> is the file system at the time of the call, \<open>current_dir\<close> the directory of the process.
  The lemmas show what an accepted configuration promises (\<open>passport_config_ok\<close>) and that its ring
  can be built, can sign, and accepts what it signs.
\<close>

section \<open>Key material\<close>

record ('e, 'd) key_library =
  kl_from_secret :: "string \<Rightarrow> 'e"
  kl_decoding_from_secret :: "string \<Rightarrow> 'd"
  kl_from_rsa_pem :: "string \<Rightarrow> crypto_error + 'e"
  kl_from_ec_pem :: "string \<Rightarrow> crypto_error + 'e"
  kl_decoding_from_rsa_pem :: "string \<Rightarrow> crypto_error + 'd"
  kl_decoding_from_ec_pem :: "string \<Rightarrow> crypto_error + 'd"
  kl_sign :: "string \<Rightarrow> 'e \<Rightarrow> jwt_algorithm \<Rightarrow> crypto_error + string"
  kl_verify :: "string \<Rightarrow> string \<Rightarrow> 'd \<Rightarrow> jwt_algorithm \<Rightarrow> crypto_error + bool"
  kl_show :: "crypto_error \<Rightarrow> string"

datatype key_material = InlineMaterial string | FileMaterial string

definition material_read :: "(string \<Rightarrow> string + string) \<Rightarrow> key_material \<Rightarrow> jwt_error + string" where
  "material_read read material =
     (case material of
        InlineMaterial bytes \<Rightarrow> Inr bytes
      | FileMaterial path \<Rightarrow>
          (case read path of
             Inl cause \<Rightarrow> Inl (jwt_error_with_source InvalidKeyMaterial cause) | Inr bytes \<Rightarrow> Inr bytes))"

record configured_key_entry =
  cg_algorithm :: jwt_algorithm
  cg_secret :: "string option"
  cg_private_key :: "key_material option"
  cg_public_key :: "key_material option"

datatype passport_key_mode = SimpleHmac string | NamedKeys string "(string, configured_key_entry) btree_map"

record passport_config =
  pj_mode :: passport_key_mode
  pj_algorithms :: "jwt_algorithm list"
  pj_issuer :: "string option"
  pj_audiences :: "string list"
  pj_clock_skew_seconds :: u64
  pj_max_token_bytes :: nat

definition active_key_id :: "passport_config \<Rightarrow> string option" where
  "active_key_id c = (case pj_mode c of SimpleHmac _ \<Rightarrow> None | NamedKeys active_key _ \<Rightarrow> Some active_key)"

definition key_ids :: "passport_config \<Rightarrow> string list" where
  "key_ids c = (case pj_mode c of SimpleHmac _ \<Rightarrow> [] | NamedKeys _ keys \<Rightarrow> bmap_keys keys)"

definition invalid_configuration :: jwt_error where
  "invalid_configuration = jwt_error_new InvalidConfiguration"

definition invalid_key_material_with_source :: "string \<Rightarrow> jwt_error" where
  "invalid_key_material_with_source cause = jwt_error_with_source InvalidKeyMaterial cause"

text \<open>A result of the library, its error as a failure of the key material.\<close>

definition key_checked :: "('e, 'd) key_library \<Rightarrow> crypto_error + 'x \<Rightarrow> jwt_error + 'x" where
  "key_checked K r = (case r of Inl e \<Rightarrow> Inl (invalid_key_material_with_source (kl_show K e)) | Inr x \<Rightarrow> Inr x)"

fun encoding_key :: "('e, 'd) key_library \<Rightarrow> jwt_algorithm \<Rightarrow> string \<Rightarrow> jwt_error + 'e" where
  "encoding_key K Rs256 bytes = key_checked K (kl_from_rsa_pem K bytes)"
| "encoding_key K Rs384 bytes = key_checked K (kl_from_rsa_pem K bytes)"
| "encoding_key K Rs512 bytes = key_checked K (kl_from_rsa_pem K bytes)"
| "encoding_key K Es256 bytes = key_checked K (kl_from_ec_pem K bytes)"
| "encoding_key K Es384 bytes = key_checked K (kl_from_ec_pem K bytes)"
| "encoding_key K _ bytes = Inl (jwt_error_new InvalidKeyMaterial)"

fun decoding_key :: "('e, 'd) key_library \<Rightarrow> jwt_algorithm \<Rightarrow> string \<Rightarrow> jwt_error + 'd" where
  "decoding_key K Rs256 bytes = key_checked K (kl_decoding_from_rsa_pem K bytes)"
| "decoding_key K Rs384 bytes = key_checked K (kl_decoding_from_rsa_pem K bytes)"
| "decoding_key K Rs512 bytes = key_checked K (kl_decoding_from_rsa_pem K bytes)"
| "decoding_key K Es256 bytes = key_checked K (kl_decoding_from_ec_pem K bytes)"
| "decoding_key K Es384 bytes = key_checked K (kl_decoding_from_ec_pem K bytes)"
| "decoding_key K _ bytes = Inl (jwt_error_new InvalidKeyMaterial)"

definition key_probe :: string where
  "key_probe = ''mads-passport-key-validation''"

definition validate_decoding_key :: "('e, 'd) key_library \<Rightarrow> jwt_algorithm \<Rightarrow> 'd \<Rightarrow> jwt_error + unit" where
  "validate_decoding_key K algorithm key =
     and_then (key_checked K (kl_verify K '''' key_probe key algorithm)) (\<lambda>_. Inr ())"

definition validate_asymmetric_material ::
    "('e, 'd) key_library \<Rightarrow> (string \<Rightarrow> string + string) \<Rightarrow> jwt_algorithm \<Rightarrow> key_material \<Rightarrow>
     key_material option \<Rightarrow> jwt_error + unit" where
  "validate_asymmetric_material K read algorithm public_material private_material =
     and_then (material_read read public_material) (\<lambda>public_bytes.
     and_then (decoding_key K algorithm public_bytes) (\<lambda>d.
     and_then (validate_decoding_key K algorithm d) (\<lambda>_.
     case private_material of
       None \<Rightarrow> Inr ()
     | Some material \<Rightarrow>
         and_then (material_read read material) (\<lambda>private_bytes.
         and_then (encoding_key K algorithm private_bytes) (\<lambda>e.
         and_then (key_checked K (kl_sign K key_probe e algorithm)) (\<lambda>signature.
         and_then (key_checked K (kl_verify K signature key_probe d algorithm)) (\<lambda>matches.
         if matches then Inr () else Inl (jwt_error_new InvalidKeyMaterial))))))))"

section \<open>Reading settings\<close>

definition optional_scalar :: "config \<Rightarrow> string \<Rightarrow> jwt_error + string option" where
  "optional_scalar config key =
     (if get_string_array key config \<noteq> None then Inl invalid_configuration
      else if config_get key config = Some '''' then Inl invalid_configuration
      else Inr (config_get key config))"

definition required_scalar :: "config \<Rightarrow> string \<Rightarrow> jwt_error + string" where
  "required_scalar config key = and_then (optional_scalar config key) (ok_or invalid_configuration)"

definition optional_string_array :: "config \<Rightarrow> string \<Rightarrow> jwt_error + string list option" where
  "optional_string_array config key =
     (if config_get key config \<noteq> None then Inl invalid_configuration
      else case get_string_array key config of
          Some vs \<Rightarrow> if vs = [] \<or> list_ex (\<lambda>v. v = []) vs then Inl invalid_configuration else Inr (Some vs)
        | None \<Rightarrow> Inr None)"

definition parse_optional_u64 :: "config \<Rightarrow> string \<Rightarrow> jwt_error + u64 option" where
  "parse_optional_u64 config key =
     and_then (optional_scalar config key) (\<lambda>value.
     case value of
       None \<Rightarrow> Inr None
     | Some s \<Rightarrow> and_then (ok_or invalid_configuration (parse_unsigned 64 s)) (\<lambda>n. Inr (Some (of_nat n))))"

definition parse_optional_usize :: "config \<Rightarrow> string \<Rightarrow> jwt_error + nat option" where
  "parse_optional_usize config key =
     and_then (optional_scalar config key) (\<lambda>value.
     case value of
       None \<Rightarrow> Inr None
     | Some s \<Rightarrow> and_then (ok_or invalid_configuration (parse_unsigned 64 s)) (\<lambda>n. Inr (Some n)))"

definition configured_algorithm :: "string \<Rightarrow> jwt_error + jwt_algorithm" where
  "configured_algorithm value =
     (case algorithm_from_str value of Inl _ \<Rightarrow> Inl invalid_configuration | Inr algorithm \<Rightarrow> Inr algorithm)"

definition deduplicate_algorithms :: "string list \<Rightarrow> jwt_error + jwt_algorithm list" where
  "deduplicate_algorithms vs =
     try_fold (\<lambda>value algorithms.
       and_then (configured_algorithm value) (\<lambda>a.
       Inr (if a \<in> set algorithms then algorithms else algorithms @ [a]))) vs []"

definition deduplicate_strings :: "string list \<Rightarrow> string list" where
  "deduplicate_strings vs = fold (\<lambda>v seen. if v \<in> set seen then seen else seen @ [v]) vs []"

fun minimum_hmac_secret_bytes :: "jwt_algorithm \<Rightarrow> nat" where
  "minimum_hmac_secret_bytes Hs256 = 32"
| "minimum_hmac_secret_bytes Hs384 = 48"
| "minimum_hmac_secret_bytes Hs512 = 64"
| "minimum_hmac_secret_bytes _ = 0"

definition is_hmac :: "jwt_algorithm \<Rightarrow> bool" where
  "is_hmac a \<longleftrightarrow> a = Hs256 \<or> a = Hs384 \<or> a = Hs512"

section \<open>One secret\<close>

definition parse_simple_hmac_mode :: "config \<Rightarrow> jwt_error + passport_key_mode \<times> jwt_algorithm list" where
  "parse_simple_hmac_mode config =
     and_then (required_scalar config ''passport.secret'') (\<lambda>secret.
     and_then (optional_string_array config ''passport.algorithms'') (\<lambda>listed.
     and_then (case listed of Some vs \<Rightarrow> deduplicate_algorithms vs | None \<Rightarrow> Inr [Hs256]) (\<lambda>algorithms.
     and_then (case algorithms of
         [algorithm] \<Rightarrow> if is_hmac algorithm then Inr algorithm else Inl invalid_configuration
       | _ \<Rightarrow> Inl invalid_configuration) (\<lambda>algorithm.
     if length secret < minimum_hmac_secret_bytes algorithm then Inl invalid_configuration
     else Inr (SimpleHmac secret, algorithms)))))"

section \<open>Named keys\<close>

definition named_key_prefix :: "string \<Rightarrow> bool" where
  "named_key_prefix key \<longleftrightarrow> key = ''passport.active_key'' \<or> starts_with ''passport.keys.'' key"

definition has_named_key_fields :: "config \<Rightarrow> bool" where
  "has_named_key_fields config \<longleftrightarrow>
     list_ex (\<lambda>(key, _). named_key_prefix key) (cfg_values config) \<or>
     list_ex (\<lambda>(key, _). named_key_prefix key) (cfg_string_arrays config)"

definition reject_named_string_arrays :: "config \<Rightarrow> jwt_error + unit" where
  "reject_named_string_arrays config =
     (if list_ex (\<lambda>(key, _). key = ''passport.active_key'' \<or> starts_with ''passport.keys.'' key)
           (cfg_string_arrays config)
      then Inl invalid_configuration else Inr ())"

definition named_algorithms :: "config \<Rightarrow> jwt_error + jwt_algorithm list" where
  "named_algorithms config =
     and_then (and_then (optional_string_array config ''passport.algorithms'') (ok_or invalid_configuration)) (\<lambda>vs.
     and_then (try_fold (\<lambda>value algorithms.
         and_then (configured_algorithm value) (\<lambda>a.
         if a \<in> set algorithms then Inl invalid_configuration else Inr (algorithms @ [a]))) vs []) (\<lambda>algorithms.
     if algorithms = [] then Inl invalid_configuration else Inr algorithms))"

definition named_key_field :: "string \<Rightarrow> (string \<times> string) option" where
  "named_key_field key = Option.bind (strip_prefix ''passport.keys.'' key) (rsplit_once (CHR ''.''))"

definition valid_key_id :: "string \<Rightarrow> bool" where
  "valid_key_id key_id \<longleftrightarrow>
     key_id \<noteq> [] \<and> length key_id \<le> 128 \<and>
     list_all (\<lambda>b. is_ascii_alphanumeric b \<or> b \<in> {CHR ''.'', CHR ''_'', CHR ''-''}) key_id"

record named_key_fields =
  nk_algorithm :: "string option"
  nk_secret :: "string option"
  nk_private_key :: "string option"
  nk_private_key_file :: "string option"
  nk_public_key :: "string option"
  nk_public_key_file :: "string option"

definition named_fields_default :: named_key_fields where
  "named_fields_default =
     \<lparr>nk_algorithm = None, nk_secret = None, nk_private_key = None, nk_private_key_file = None,
      nk_public_key = None, nk_public_key_file = None\<rparr>"

text \<open>\<open>Option::replace\<close> of a field that must have been empty.\<close>

definition set_once :: "'x option \<Rightarrow> 's \<Rightarrow> jwt_error + 's" where
  "set_once old updated = (if old \<noteq> None then Inl invalid_configuration else Inr updated)"

definition named_fields_insert :: "string \<Rightarrow> string \<Rightarrow> named_key_fields \<Rightarrow> jwt_error + named_key_fields" where
  "named_fields_insert field value f =
     (if field = ''algorithm'' then set_once (nk_algorithm f) (f\<lparr>nk_algorithm := Some value\<rparr>)
      else if field = ''secret'' then set_once (nk_secret f) (f\<lparr>nk_secret := Some value\<rparr>)
      else if field = ''private_key'' then set_once (nk_private_key f) (f\<lparr>nk_private_key := Some value\<rparr>)
      else if field = ''private_key_file'' then set_once (nk_private_key_file f) (f\<lparr>nk_private_key_file := Some value\<rparr>)
      else if field = ''public_key'' then set_once (nk_public_key f) (f\<lparr>nk_public_key := Some value\<rparr>)
      else if field = ''public_key_file'' then set_once (nk_public_key_file f) (f\<lparr>nk_public_key_file := Some value\<rparr>)
      else Inl invalid_configuration)"

definition material_source ::
    "string option \<Rightarrow> config \<Rightarrow> string \<Rightarrow> string option \<Rightarrow> string \<Rightarrow> string option \<Rightarrow>
     jwt_error + key_material option" where
  "material_source current_dir config key_id inline file_field file =
     (case (inline, file) of
        (Some _, Some _) \<Rightarrow> Inl invalid_configuration
      | (Some value, None) \<Rightarrow>
          if value = [] then Inl invalid_configuration else Inr (Some (InlineMaterial value))
      | (None, Some value) \<Rightarrow>
          if value = [] then Inl invalid_configuration
          else and_then (ok_or invalid_configuration
              (resolve_path current_dir (''passport.keys.'' @ key_id @ ''.'' @ file_field) config))
            (\<lambda>path. Inr (Some (FileMaterial path)))
      | (None, None) \<Rightarrow> Inr None)"

definition configured_key ::
    "('e, 'd) key_library \<Rightarrow> (string \<Rightarrow> string + string) \<Rightarrow> string option \<Rightarrow> config \<Rightarrow> string \<Rightarrow>
     named_key_fields \<Rightarrow> jwt_algorithm list \<Rightarrow> bool \<Rightarrow> jwt_error + configured_key_entry" where
  "configured_key K read current_dir config key_id key_fields algorithms active =
     and_then (and_then (ok_or invalid_configuration (nk_algorithm key_fields)) configured_algorithm) (\<lambda>algorithm.
     if algorithm \<notin> set algorithms then Inl invalid_configuration
     else and_then (material_source current_dir config key_id (nk_private_key key_fields) ''private_key_file''
         (nk_private_key_file key_fields)) (\<lambda>private_key.
     and_then (material_source current_dir config key_id (nk_public_key key_fields) ''public_key_file''
         (nk_public_key_file key_fields)) (\<lambda>public_key.
     if is_hmac algorithm
     then
       if private_key \<noteq> None \<or> public_key \<noteq> None then Inl invalid_configuration
       else and_then (ok_or invalid_configuration (nk_secret key_fields)) (\<lambda>secret.
         if secret = [] \<or> length secret < minimum_hmac_secret_bytes algorithm then Inl invalid_configuration
         else Inr \<lparr>cg_algorithm = algorithm, cg_secret = Some secret, cg_private_key = None, cg_public_key = None\<rparr>)
     else if nk_secret key_fields \<noteq> None then Inl invalid_configuration
     else and_then (ok_or invalid_configuration public_key) (\<lambda>public_key.
       if active \<and> private_key = None then Inl invalid_configuration
       else and_then (validate_asymmetric_material K read algorithm public_key private_key) (\<lambda>_.
         Inr \<lparr>cg_algorithm = algorithm, cg_secret = None, cg_private_key = private_key,
              cg_public_key = Some public_key\<rparr>)))))"

definition collect_key_fields :: "config \<Rightarrow> jwt_error + (string, named_key_fields) btree_map" where
  "collect_key_fields config =
     try_fold (\<lambda>(key, value) m.
       case named_key_field key of
         None \<Rightarrow> Inr m
       | Some (key_id, field) \<Rightarrow>
           if \<not> valid_key_id key_id then Inl invalid_configuration
           else and_then (named_fields_insert field (cv_value value)
               (case bmap_get key_id m of Some f \<Rightarrow> f | None \<Rightarrow> named_fields_default))
             (\<lambda>f. Inr (bmap_insert key_id f m))) (cfg_values config) []"

definition parse_named_key_mode ::
    "('e, 'd) key_library \<Rightarrow> (string \<Rightarrow> string + string) \<Rightarrow> string option \<Rightarrow> config \<Rightarrow>
     jwt_error + passport_key_mode \<times> jwt_algorithm list" where
  "parse_named_key_mode K read current_dir config =
     and_then (reject_named_string_arrays config) (\<lambda>_.
     and_then (named_algorithms config) (\<lambda>algorithms.
     and_then (required_scalar config ''passport.active_key'') (\<lambda>active_key.
     if \<not> valid_key_id active_key then Inl invalid_configuration
     else and_then (collect_key_fields config) (\<lambda>fields_by_key.
     if fields_by_key = [] \<or> bmap_get active_key fields_by_key = None then Inl invalid_configuration
     else and_then (try_fold (\<lambda>(key_id, key_fields) keys.
         and_then (configured_key K read current_dir config key_id key_fields algorithms (key_id = active_key))
           (\<lambda>key. Inr (bmap_insert key_id key keys))) fields_by_key []) (\<lambda>keys.
     Inr (NamedKeys active_key keys, algorithms))))))"

section \<open>The configuration\<close>

definition default_max_token_bytes :: nat where
  "default_max_token_bytes = 8192"

definition passport_config_from_config ::
    "('e, 'd) key_library \<Rightarrow> (string \<Rightarrow> string + string) \<Rightarrow> string option \<Rightarrow> config \<Rightarrow> jwt_error + passport_config" where
  "passport_config_from_config K read current_dir config =
     and_then (if has_named_key_fields config
       then if config_get ''passport.secret'' config \<noteq> None \<or> get_string_array ''passport.secret'' config \<noteq> None
         then Inl invalid_configuration else parse_named_key_mode K read current_dir config
       else parse_simple_hmac_mode config) (\<lambda>(mode, algorithms).
     and_then (optional_scalar config ''passport.issuer'') (\<lambda>issuer.
     and_then (optional_string_array config ''passport.audiences'') (\<lambda>audiences.
     and_then (parse_optional_u64 config ''passport.clock_skew_seconds'') (\<lambda>skew.
     and_then (parse_optional_usize config ''passport.max_token_bytes'') (\<lambda>max_bytes.
     let max_token_bytes = (case max_bytes of Some n \<Rightarrow> n | None \<Rightarrow> default_max_token_bytes) in
     if max_token_bytes = 0 then Inl invalid_configuration
     else Inr \<lparr>pj_mode = mode, pj_algorithms = algorithms, pj_issuer = issuer,
        pj_audiences = (case audiences of Some vs \<Rightarrow> deduplicate_strings vs | None \<Rightarrow> []),
        pj_clock_skew_seconds = (case skew of Some n \<Rightarrow> n | None \<Rightarrow> 0),
        pj_max_token_bytes = max_token_bytes\<rparr>)))))"

section \<open>The key ring and the service\<close>

definition from_configured ::
    "('e, 'd) key_library \<Rightarrow> (string \<Rightarrow> string + string) \<Rightarrow> configured_key_entry \<Rightarrow> jwt_error + ('e, 'd) cached_key" where
  "from_configured K read configured =
     (case cg_secret configured of
        Some secret \<Rightarrow>
          Inr \<lparr>ck_algorithm = cg_algorithm configured, ck_encoding_key = Some (kl_from_secret K secret),
               ck_decoding_key = kl_decoding_from_secret K secret\<rparr>
      | None \<Rightarrow>
          and_then (ok_or (jwt_error_new UnavailableSigningKey) (cg_public_key configured)) (\<lambda>public_material.
          and_then (material_read read public_material) (\<lambda>public_bytes.
          and_then (decoding_key K (cg_algorithm configured) public_bytes) (\<lambda>d.
          and_then (case cg_private_key configured of
              None \<Rightarrow> Inr None
            | Some material \<Rightarrow>
                and_then (material_read read material) (\<lambda>bytes.
                and_then (encoding_key K (cg_algorithm configured) bytes) (\<lambda>e. Inr (Some e)))) (\<lambda>e.
          Inr \<lparr>ck_algorithm = cg_algorithm configured, ck_encoding_key = e, ck_decoding_key = d\<rparr>)))))"

definition key_ring_from_config ::
    "('e, 'd) key_library \<Rightarrow> (string \<Rightarrow> string + string) \<Rightarrow> passport_config \<Rightarrow> jwt_error + ('e, 'd) key_ring" where
  "key_ring_from_config K read c =
     (case pj_mode c of
        SimpleHmac secret \<Rightarrow>
          and_then (ok_or (jwt_error_new UnavailableSigningKey) (case pj_algorithms c of a # _ \<Rightarrow> Some a | [] \<Rightarrow> None))
            (\<lambda>algorithm. Inr (SimpleRing algorithm (kl_from_secret K secret) (kl_decoding_from_secret K secret)))
      | NamedKeys active_key keys \<Rightarrow>
          and_then (try_fold (\<lambda>(key_id, key) cached.
              and_then (from_configured K read key) (\<lambda>k. Inr (bmap_insert key_id k cached))) keys [])
            (\<lambda>cached. Inr (NamedRing active_key cached)))"

definition from_passport_config ::
    "('e, 'd) key_library \<Rightarrow> (string \<Rightarrow> string + string) \<Rightarrow> passport_config \<Rightarrow> jwt_error + ('e, 'd) jwt_service" where
  "from_passport_config K read c =
     and_then (key_ring_from_config K read c) (\<lambda>ring.
     Inr \<lparr>js_key_ring = ring, js_issuer = pj_issuer c, js_audiences = pj_audiences c,
          js_clock_skew_seconds = pj_clock_skew_seconds c, js_max_token_bytes = pj_max_token_bytes c\<rparr>)"

definition jwt_service_from_config ::
    "('e, 'd) key_library \<Rightarrow> (string \<Rightarrow> string + string) \<Rightarrow> (string \<Rightarrow> string + string) \<Rightarrow> string option \<Rightarrow> config \<Rightarrow>
     jwt_error + ('e, 'd) jwt_service" where
  "jwt_service_from_config K read later_read current_dir config =
     and_then (passport_config_from_config K read current_dir config) (from_passport_config K later_read)"

section \<open>What an accepted configuration promises\<close>

text \<open>
  One key: its algorithm is allowed and it has the material of that algorithm, a long enough secret or
  a public key; a private key signs what the public key accepts, and the active key can sign.
\<close>

definition probe_accepted ::
    "('e, 'd) key_library \<Rightarrow> (string \<Rightarrow> string + string) \<Rightarrow> jwt_algorithm \<Rightarrow> 'd \<Rightarrow> key_material \<Rightarrow> bool" where
  "probe_accepted K read a d material \<longleftrightarrow>
     (\<exists>bytes e signature. material_read read material = Inr bytes \<and> encoding_key K a bytes = Inr e \<and>
        kl_sign K key_probe e a = Inr signature \<and> kl_verify K signature key_probe d a = Inr True)"

definition key_ok ::
    "('e, 'd) key_library \<Rightarrow> (string \<Rightarrow> string + string) \<Rightarrow> jwt_algorithm list \<Rightarrow> bool \<Rightarrow> configured_key_entry \<Rightarrow> bool" where
  "key_ok K read algorithms active k \<longleftrightarrow>
     cg_algorithm k \<in> set algorithms \<and>
     (if is_hmac (cg_algorithm k)
      then cg_private_key k = None \<and> cg_public_key k = None \<and>
        (\<exists>secret. cg_secret k = Some secret \<and> minimum_hmac_secret_bytes (cg_algorithm k) \<le> length secret)
      else cg_secret k = None \<and> (active \<longrightarrow> cg_private_key k \<noteq> None) \<and>
        (\<exists>material bytes d. cg_public_key k = Some material \<and> material_read read material = Inr bytes \<and>
           decoding_key K (cg_algorithm k) bytes = Inr d \<and>
           (\<forall>m. cg_private_key k = Some m \<longrightarrow> probe_accepted K read (cg_algorithm k) d m)))"

definition mode_ok ::
    "('e, 'd) key_library \<Rightarrow> (string \<Rightarrow> string + string) \<Rightarrow> jwt_algorithm list \<Rightarrow> passport_key_mode \<Rightarrow> bool" where
  "mode_ok K read algorithms mode \<longleftrightarrow>
     (case mode of
        SimpleHmac secret \<Rightarrow>
          \<exists>a. algorithms = [a] \<and> is_hmac a \<and> minimum_hmac_secret_bytes a \<le> length secret
      | NamedKeys active_key keys \<Rightarrow>
          bmap_ok keys \<and> bmap_get active_key keys \<noteq> None \<and>
          (\<forall>(key_id, k)\<in>set keys. valid_key_id key_id \<and> key_ok K read algorithms (key_id = active_key) k))"

definition passport_config_ok ::
    "('e, 'd) key_library \<Rightarrow> (string \<Rightarrow> string + string) \<Rightarrow> passport_config \<Rightarrow> bool" where
  "passport_config_ok K read c \<longleftrightarrow>
     0 < pj_max_token_bytes c \<and> distinct (pj_audiences c) \<and> pj_algorithms c \<noteq> [] \<and> distinct (pj_algorithms c) \<and>
     mode_ok K read (pj_algorithms c) (pj_mode c)"

lemma key_checked_eq_Inr [simp]: "key_checked K r = Inr x \<longleftrightarrow> r = Inr x"
  by (simp add: key_checked_def split: sum.splits)

lemma deduplicate_strings_distinct: "distinct (deduplicate_strings vs)"
proof -
  have "distinct seen \<Longrightarrow> distinct (fold (\<lambda>v seen. if v \<in> set seen then seen else seen @ [v]) vs seen)" for seen
    by (induction vs arbitrary: seen) auto
  then show ?thesis by (simp add: deduplicate_strings_def)
qed

lemma deduplicate_algorithms_distinct:
  assumes "deduplicate_algorithms vs = Inr algorithms"
  shows "distinct algorithms"
  by (rule try_fold_keeps [OF assms [unfolded deduplicate_algorithms_def], of distinct])
    (auto simp: and_then_eq_Inr)

lemma named_algorithms_ok:
  assumes "named_algorithms config = Inr algorithms"
  shows "distinct algorithms \<and> algorithms \<noteq> []"
proof -
  obtain vs where fold: "try_fold (\<lambda>value algorithms.
      and_then (configured_algorithm value) (\<lambda>a.
      if a \<in> set algorithms then Inl invalid_configuration else Inr (algorithms @ [a]))) vs [] = Inr algorithms"
    and "algorithms \<noteq> []"
    using assms by (auto simp: named_algorithms_def and_then_eq_Inr split: if_splits)
  moreover have "distinct algorithms"
    by (rule try_fold_keeps [OF fold, of distinct]) (auto simp: and_then_eq_Inr split: if_splits)
  ultimately show ?thesis by blast
qed

lemma simple_mode_ok:
  assumes "parse_simple_hmac_mode config = Inr (mode, algorithms)"
  shows "mode_ok K read algorithms mode \<and> distinct algorithms \<and> algorithms \<noteq> []"
proof -
  obtain secret a where "mode = SimpleHmac secret" "algorithms = [a]" "is_hmac a"
    "minimum_hmac_secret_bytes a \<le> length secret"
    using assms
    by (auto simp: parse_simple_hmac_mode_def and_then_eq_Inr not_less split: if_splits list.splits)
  then show ?thesis by (simp add: mode_ok_def)
qed

lemma asymmetric_material_ok:
  assumes "validate_asymmetric_material K read a public_material private_material = Inr ()"
  shows "\<exists>bytes d. material_read read public_material = Inr bytes \<and> decoding_key K a bytes = Inr d \<and>
    (\<forall>m. private_material = Some m \<longrightarrow> probe_accepted K read a d m)"
  using assms
  by (auto simp: validate_asymmetric_material_def and_then_eq_Inr probe_accepted_def split: option.splits if_splits)

lemma configured_key_ok:
  assumes "configured_key K read current_dir config key_id key_fields algorithms active = Inr k"
  shows "key_ok K read algorithms active k"
  using assms
  by (auto simp: configured_key_def and_then_eq_Inr ok_or_eq_Inr key_ok_def not_less split: if_split_asm
      dest!: asymmetric_material_ok)

text \<open>A map computed entry by entry from another map.\<close>

lemma map_entries:
  assumes "sorted_wrt (<) (map fst acc @ map fst (xs :: ('k :: linorder \<times> 'a) list))"
  shows "try_fold (\<lambda>(k, x) m. and_then (f k x) (\<lambda>y. Inr (bmap_insert k y m))) xs acc =
    and_then (try_map (\<lambda>(k, x). and_then (f k x) (\<lambda>y. Inr (k, y))) xs) (\<lambda>ys. Inr (acc @ ys))"
  using assms
proof (induction xs arbitrary: acc)
  case (Cons e xs)
  obtain k x where e: "e = (k, x)" by (cases e)
  show ?case
  proof (cases "f k x")
    case (Inr y)
    have "bmap_insert k y acc = acc @ [(k, y)]"
      using Cons.prems by (intro insert_last) (auto simp: e sorted_wrt_append)
    moreover have "try_fold (\<lambda>(k, x) m. and_then (f k x) (\<lambda>y. Inr (bmap_insert k y m))) xs (acc @ [(k, y)]) =
        and_then (try_map (\<lambda>(k, x). and_then (f k x) (\<lambda>y. Inr (k, y))) xs) (\<lambda>ys. Inr ((acc @ [(k, y)]) @ ys))"
      by (rule Cons.IH) (use Cons.prems in \<open>simp add: e\<close>)
    ultimately show ?thesis
      by (simp add: e Inr) (cases "try_map (\<lambda>(k, x). and_then (f k x) (\<lambda>y. Inr (k, y))) xs"; simp)
  qed (simp add: e)
qed simp

lemma map_entries_ok:
  assumes "try_fold (\<lambda>(k, x) m. and_then (f k x) (\<lambda>y. Inr (bmap_insert k y m))) xs [] = Inr m" "bmap_ok xs"
  shows "map fst m = map fst xs \<and> list_all2 (\<lambda>(k, x) (k', y). k = k' \<and> f k x = Inr y) xs m"
proof -
  have "try_map (\<lambda>(k, x). and_then (f k x) (\<lambda>y. Inr (k, y))) xs = Inr m"
    using assms map_entries [of "[]" xs f]
    by (cases "try_map (\<lambda>(k, x). and_then (f k x) (\<lambda>y. Inr (k, y))) xs") (simp_all add: bmap_ok_def)
  then have "list_all2 (\<lambda>(k, x) (k', y). k = k' \<and> f k x = Inr y) xs m"
    by (auto simp: and_then_eq_Inr elim: list_all2_mono dest!: try_map_InrD)
  moreover from this have "map fst m = map fst xs" by (induction rule: list_all2_induct) auto
  ultimately show ?thesis by blast
qed

lemma keys_insert: "set (bmap_keys (bmap_insert k v m)) = insert k (set (bmap_keys m))"
  by (simp add: bmap_keys_def fst_set_bmap_insert)

lemma collect_key_fields_ok:
  assumes "collect_key_fields config = Inr m"
  shows "bmap_ok m \<and> (\<forall>k\<in>set (bmap_keys m). valid_key_id k)"
  by (rule try_fold_keeps [OF assms [unfolded collect_key_fields_def],
        of "\<lambda>m. bmap_ok m \<and> (\<forall>k\<in>set (bmap_keys m). valid_key_id k)"])
    (auto simp: bmap.ok_empty bmap_keys_def [of "[]"] and_then_eq_Inr bmap_ok_insert keys_insert
      split: option.splits if_split_asm)

lemma named_mode_ok:
  assumes "parse_named_key_mode K read current_dir config = Inr (mode, algorithms)"
  shows "mode_ok K read algorithms mode \<and> distinct algorithms \<and> algorithms \<noteq> []"
proof -
  obtain active m keys where named: "named_algorithms config = Inr algorithms" "collect_key_fields config = Inr m"
    "bmap_get active m \<noteq> None" "mode = NamedKeys active keys"
    "try_fold (\<lambda>(key_id, key_fields) keys.
       and_then (configured_key K read current_dir config key_id key_fields algorithms (key_id = active))
         (\<lambda>key. Inr (bmap_insert key_id key keys))) m [] = Inr keys"
    using assms by (auto simp: parse_named_key_mode_def and_then_eq_Inr split: if_split_asm)
  note m = collect_key_fields_ok [OF named(2)]
  have keys: "map fst keys = map fst m"
    "list_all2 (\<lambda>(k, x) (k', y). k = k' \<and> configured_key K read current_dir config k x algorithms (k = active) = Inr y) m keys"
    using map_entries_ok [OF named(5)] m by blast+
  from keys(2) have "list_all (\<lambda>(key_id, k). key_ok K read algorithms (key_id = active) k) keys"
    by (induction rule: list_all2_induct) (auto dest: configured_key_ok)
  moreover have "\<forall>(key_id, k)\<in>set keys. valid_key_id key_id"
  proof -
    have "valid_key_id key_id" if "(key_id, k) \<in> set keys" for key_id k
    proof -
      have "key_id \<in> set (map fst keys)" using that by force
      then show ?thesis unfolding keys(1) using m by (auto simp: bmap_keys_def)
    qed
    then show ?thesis by blast
  qed
  moreover have "bmap_ok keys" using m keys(1) by (simp add: bmap_ok_def)
  moreover have "bmap_get active keys \<noteq> None"
    using named(3) keys(1) by (simp add: bmap_get_def map_of_eq_None_iff flip: set_map)
  ultimately show ?thesis
    using named_algorithms_ok [OF named(1)] by (auto simp: mode_ok_def named(4) list_all_iff)
qed

lemma from_config_ok:
  assumes "passport_config_from_config K read current_dir config = Inr c"
  shows "passport_config_ok K read c"
proof -
  obtain mode algorithms where mode: "parse_named_key_mode K read current_dir config = Inr (mode, algorithms) \<or>
      parse_simple_hmac_mode config = Inr (mode, algorithms)"
    and c: "pj_mode c = mode" "pj_algorithms c = algorithms" "pj_max_token_bytes c \<noteq> 0" "distinct (pj_audiences c)"
    using assms
    by (auto simp: passport_config_from_config_def and_then_eq_Inr Let_def deduplicate_strings_distinct
        split: if_split_asm option.splits)
  have "mode_ok K read algorithms mode \<and> distinct algorithms \<and> algorithms \<noteq> []"
    using mode named_mode_ok simple_mode_ok by blast
  with c show ?thesis by (simp add: passport_config_ok_def)
qed

section \<open>The ring of an accepted configuration\<close>

text \<open>An encoding and a decoding key that belong together: of one secret, or found to by the probe.\<close>

definition key_pair :: "('e, 'd) key_library \<Rightarrow> 'e \<Rightarrow> 'd \<Rightarrow> bool" where
  "key_pair K e d \<longleftrightarrow>
     (\<exists>secret. e = kl_from_secret K secret \<and> d = kl_decoding_from_secret K secret) \<or>
     (\<exists>a signature. kl_sign K key_probe e a = Inr signature \<and> kl_verify K signature key_probe d a = Inr True)"

text \<open>While the files stay as they were, an accepted key is built, and its halves belong together.\<close>

lemma from_configured_ok:
  assumes "key_ok K read algorithms active k"
  shows "\<exists>key. from_configured K read k = Inr key \<and> ck_algorithm key = cg_algorithm k \<and>
    (active \<longrightarrow> ck_encoding_key key \<noteq> None) \<and>
    (\<forall>e. ck_encoding_key key = Some e \<longrightarrow> key_pair K e (ck_decoding_key key))"
proof (cases "is_hmac (cg_algorithm k)")
  case True
  then obtain secret where "cg_secret k = Some secret" using assms by (auto simp: key_ok_def)
  then show ?thesis by (auto simp: from_configured_def key_pair_def)
next
  case False
  then obtain material bytes d where key: "cg_secret k = None" "active \<longrightarrow> cg_private_key k \<noteq> None"
    "cg_public_key k = Some material" "material_read read material = Inr bytes"
    "decoding_key K (cg_algorithm k) bytes = Inr d"
    "\<forall>m. cg_private_key k = Some m \<longrightarrow> probe_accepted K read (cg_algorithm k) d m"
    using assms by (auto simp: key_ok_def)
  show ?thesis
  proof (cases "cg_private_key k")
    case None
    with key show ?thesis by (auto simp: from_configured_def)
  next
    case (Some m)
    with key(6) obtain pb e signature where "material_read read m = Inr pb"
      "encoding_key K (cg_algorithm k) pb = Inr e"
      "kl_sign K key_probe e (cg_algorithm k) = Inr signature"
      "kl_verify K signature key_probe d (cg_algorithm k) = Inr True"
      unfolding probe_accepted_def by blast
    with key Some show ?thesis by (auto simp: from_configured_def key_pair_def)
  qed
qed

lemma entries_total:
  assumes "\<And>k x. (k, x) \<in> set xs \<Longrightarrow> \<exists>y. f k x = Inr y" "bmap_ok xs"
  shows "\<exists>m. try_fold (\<lambda>(k, x) m. and_then (f k x) (\<lambda>y. Inr (bmap_insert k y m))) xs [] = Inr m"
proof -
  have "\<exists>ys. try_map (\<lambda>(k, x). and_then (f k x) (\<lambda>y. Inr (k, y))) xs = Inr ys"
    by (rule try_map_total) (use assms(1) in fastforce)
  then show ?thesis using assms(2) map_entries [of "[]" xs f] by (auto simp: bmap_ok_def)
qed

lemma list_all2_get:
  "list_all2 (\<lambda>(k, x) (k', y). k = k' \<and> R k x y) xs m \<Longrightarrow>
     (case bmap_get k xs of None \<Rightarrow> bmap_get k m = None
      | Some x \<Rightarrow> \<exists>y. bmap_get k m = Some y \<and> R k x y)"
  by (induction rule: list_all2_induct) (auto simp: bmap_get_def split: option.splits)

lemma ring_ok:
  assumes "passport_config_ok K read c"
  shows "\<exists>ring. key_ring_from_config K read c = Inr ring \<and> ring_paired (key_pair K) ring \<and>
    (\<exists>e a. active_signer ring = Inr (e, a, active_key_id c) \<and> a \<in> set (pj_algorithms c)) \<and>
    (\<forall>key_id d a. verifier ring key_id = Inr (d, a) \<longrightarrow> a \<in> set (pj_algorithms c))"
proof (cases "pj_mode c")
  case (SimpleHmac secret)
  with assms obtain a where "pj_algorithms c = [a]" by (auto simp: passport_config_ok_def mode_ok_def)
  with SimpleHmac show ?thesis
    by (auto simp: key_ring_from_config_def ring_paired_def key_pair_def active_signer_def active_key_id_def
        verifier_def)
next
  case (NamedKeys active keys)
  with assms have keys: "bmap_ok keys" "bmap_get active keys \<noteq> None"
    "\<And>key_id k. (key_id, k) \<in> set keys \<Longrightarrow> key_ok K read (pj_algorithms c) (key_id = active) k"
    by (auto simp: passport_config_ok_def mode_ok_def)
  have built: "\<exists>key. from_configured K read k = Inr key \<and> ck_algorithm key = cg_algorithm k \<and>
      (key_id = active \<longrightarrow> ck_encoding_key key \<noteq> None) \<and>
      (\<forall>e. ck_encoding_key key = Some e \<longrightarrow> key_pair K e (ck_decoding_key key))" if "(key_id, k) \<in> set keys" for key_id k
    by (rule from_configured_ok [OF keys(3) [OF that]])
  obtain m where m: "try_fold (\<lambda>(key_id, key) cached. and_then (from_configured K read key)
      (\<lambda>k. Inr (bmap_insert key_id k cached))) keys [] = Inr m"
    using entries_total [of keys "\<lambda>_. from_configured K read"] built keys(1) by blast
  have entries: "list_all2 (\<lambda>(k, x) (k', y). k = k' \<and> from_configured K read x = Inr y) keys m"
    using map_entries_ok [OF m keys(1)] by blast
  have entry: "\<exists>k. (key_id, k) \<in> set keys \<and> from_configured K read k = Inr key" if "(key_id, key) \<in> set m" for key_id key
  proof -
    from entries have "\<forall>(k', y)\<in>set m. \<exists>x. (k', x) \<in> set keys \<and> from_configured K read x = Inr y"
      by (induction rule: list_all2_induct) auto
    with that show ?thesis by blast
  qed
  have known: "ck_algorithm key \<in> set (pj_algorithms c) \<and> (key_id = active \<longrightarrow> ck_encoding_key key \<noteq> None) \<and>
      (\<forall>e. ck_encoding_key key = Some e \<longrightarrow> key_pair K e (ck_decoding_key key))" if member: "(key_id, key) \<in> set m" for key_id key
  proof -
    obtain k where k: "(key_id, k) \<in> set keys" "from_configured K read k = Inr key" using entry [OF member] by blast
    moreover have "cg_algorithm k \<in> set (pj_algorithms c)" using keys(3) [OF k(1)] by (simp add: key_ok_def)
    ultimately show ?thesis using built [OF k(1)] by auto
  qed
  obtain k where "bmap_get active keys = Some k" using keys(2) by blast
  then obtain key where key: "bmap_get active m = Some key" using list_all2_get [OF entries, of active] by auto
  then have "(active, key) \<in> set m" by (auto simp: bmap_get_def dest: map_of_SomeD)
  from known [OF this] obtain e where e: "ck_encoding_key key = Some e" "ck_algorithm key \<in> set (pj_algorithms c)" by auto
  have "key_ring_from_config K read c = Inr (NamedRing active m)"
    by (simp add: key_ring_from_config_def NamedKeys m)
  moreover have "ring_paired (key_pair K) (NamedRing active m)" using known by (auto simp: ring_paired_def)
  moreover have "active_signer (NamedRing active m) = Inr (e, ck_algorithm key, active_key_id c)"
    by (simp add: active_signer_def key e(1) active_key_id_def NamedKeys)
  moreover have "a \<in> set (pj_algorithms c)" if found: "verifier (NamedRing active m) key_id = Inr (d, a)" for key_id d a
  proof -
    obtain i x where "bmap_get i m = Some x" "a = ck_algorithm x"
      using found by (auto simp: verifier_def and_then_eq_Inr ok_or_eq_Inr)
    then show ?thesis using known by (auto simp: bmap_get_def dest!: map_of_SomeD)
  qed
  ultimately show ?thesis using e(2) by blast
qed

lemma service_ok:
  assumes "passport_config_from_config K read current_dir config = Inr c"
  shows "\<exists>svc. from_passport_config K read c = Inr svc \<and> ring_paired (key_pair K) (js_key_ring svc) \<and>
    (\<exists>e a. active_signer (js_key_ring svc) = Inr (e, a, active_key_id c) \<and> a \<in> set (pj_algorithms c)) \<and>
    (\<forall>key_id d a. verifier (js_key_ring svc) key_id = Inr (d, a) \<longrightarrow> a \<in> set (pj_algorithms c)) \<and>
    js_issuer svc = pj_issuer c \<and> js_audiences svc = pj_audiences c \<and>
    js_clock_skew_seconds svc = pj_clock_skew_seconds c \<and> js_max_token_bytes svc = pj_max_token_bytes c"
  using ring_ok [OF from_config_ok [OF assms]] by (auto simp: from_passport_config_def)

end
