(* ===== verification/Jwt_Auto.thy ===== *)
theory Jwt_Auto
  imports Jwt_Config Auto_Configuration
begin

text \<open>
  The auto-configuration of the JWT service (\<open>crates/mads-common/src/jwt/auto_configuration.rs\<close>, with
  the feature \<open>http\<close>): when the default service is provided, skipped, overridden or refused, and how it
  is built. The evaluator runs the preflight of the guards the application serves, so it is
  \<open>failure\<close>-valued like it; the service is embedded into the providers by \<open>as_provider\<close>.
\<close>

section \<open>The evaluator\<close>

definition "MADS121 = DiagnosticCode ''MADS121''"

definition JWT_AUTO_CONFIGURATION_ID :: string where
  "JWT_AUTO_CONFIGURATION_ID = ''mads.common.passport.jwt''"

definition JWT_SERVICE_TYPE_NAME :: string where
  "JWT_SERVICE_TYPE_NAME = ''mads_common::jwt::service::JwtService''"

definition PASSPORT_CONFIGURATION_KEYS :: "string list" where
  "PASSPORT_CONFIGURATION_KEYS =
     [''passport.secret'', ''passport.algorithms'', ''passport.active_key'', ''passport.issuer'',
      ''passport.audiences'', ''passport.clock_skew_seconds'', ''passport.max_token_bytes'']"

definition guard_requirements ::
    "(type_id \<Rightarrow> string) \<Rightarrow> passport_program \<Rightarrow> 'v auto_context \<Rightarrow> failure + auto_requirement list" where
  "guard_requirements debug_type_id P c =
     (let http = for_module_graph (pp_http P) (ctx_module_graph c) in
      and_then (preflight_scoped debug_type_id P (ctx_module_graph c) (hs_guards http)) (\<lambda>bindings.
      Inr (map (\<lambda>binding. \<lparr>ar_provider_type_name = gd_requirement_subject (sb_guard binding),
        ar_location = Some (gd_location (sb_guard binding))\<rparr>) bindings)))"

definition jwt_requirement_order :: "auto_requirement \<Rightarrow> auto_requirement \<Rightarrow> ordering" where
  "jwt_requirement_order left right =
     then_with (cmp (ar_provider_type_name left) (ar_provider_type_name right))
       (case (ar_location left, ar_location right) of
          (Some l, Some r) \<Rightarrow>
            then_with (cmp (loc_file l) (loc_file r))
              (then_with (cmp (loc_line l) (loc_line r)) (cmp (loc_column l) (loc_column r)))
        | (None, Some _) \<Rightarrow> Less
        | (Some _, None) \<Rightarrow> Greater
        | (None, None) \<Rightarrow> Equal)"

definition signing_configuration_is_missing :: "config \<Rightarrow> bool" where
  "signing_configuration_is_missing config \<longleftrightarrow>
     config_get ''passport.secret'' config = None \<and> get_string_array ''passport.secret'' config = None \<and>
     config_get ''passport.active_key'' config = None \<and> get_string_array ''passport.active_key'' config = None \<and>
     \<not> list_ex (\<lambda>(key, _). starts_with ''passport.keys.'' key) (cfg_values config) \<and>
     \<not> list_ex (\<lambda>(key, _). starts_with ''passport.keys.'' key) (cfg_string_arrays config)"

definition show_requirement :: "auto_requirement \<Rightarrow> string" where
  "show_requirement r =
     (case ar_location r of
        Some l \<Rightarrow> ar_provider_type_name r @ '' at '' @ loc_file l @ '':'' @ show_u32 (loc_line l) @ '':'' @
          show_u32 (loc_column l)
      | None \<Rightarrow> ar_provider_type_name r)"

definition configuration_error :: "bool \<Rightarrow> auto_requirement list \<Rightarrow> error" where
  "configuration_error missing reqs =
     (let (subject, message) =
        (if missing then (''passport.secret'', ''passport.secret is missing'')
         else (''passport'', ''Passport JWT configuration is invalid'')) in
      error_new
        (with_suggestion ''provide an explicit `JwtService` to override the default''
          (with_suggestion ''configure `passport.secret` or a valid named Passport key ring''
            (with_subject subject
              (diagnostic_new MADS121 ''JWT auto-configuration is invalid''
                (message @ ''; required by '' @ join_with '', '' (map show_requirement reqs)))))))"

definition configuration_evidence :: "'v auto_context \<Rightarrow> auto_evidence list" where
  "configuration_evidence c =
     List.map_filter (\<lambda>key.
       map_option (\<lambda>label. evidence_new key (Some label))
         (case source_of key (ctx_config c) of
            Some label \<Rightarrow> Some label | None \<Rightarrow> source_of_string_array key (ctx_config c)))
       PASSPORT_CONFIGURATION_KEYS"

definition jwt_evaluate ::
    "('e, 'd) key_library \<Rightarrow> (string \<Rightarrow> string + string) \<Rightarrow> string option \<Rightarrow> (type_id \<Rightarrow> string) \<Rightarrow>
     passport_program \<Rightarrow> type_id \<Rightarrow> 'v auto_context \<Rightarrow> panic + evaluation" where
  "jwt_evaluate K read current_dir debug_type_id P service_id c =
     (case guard_requirements debug_type_id P c of
        Inl (Panicked p) \<Rightarrow> Inl p
      | Inl (Failed e) \<Rightarrow>
          Inr (evaluation_failed (ReasonCode ''passport_preflight_failed'') ''Passport guard and strategy preflight failed'' [] [] e)
      | Inr guards \<Rightarrow>
          let reqs = sort_by jwt_requirement_order (requirements service_id c @ guards) in
          Inr (if has_provider service_id JWT_SERVICE_TYPE_NAME c
            then evaluation_overridden (ReasonCode ''user_override'')
              ''an application provider overrides the Passport JWT default'' reqs []
            else if reqs = []
            then evaluation_skipped (ReasonCode ''requirement_absent'') ''no provider requires the Passport JWT default'' reqs []
            else
              let configuration = configuration_evidence c in
              case passport_config_from_config K read current_dir (ctx_config c) of
                Inr _ \<Rightarrow> evaluation_active (ReasonCode ''conditions_matched'') ''Passport JWT is required and configured'' reqs configuration
              | Inl _ \<Rightarrow>
                  let missing = signing_configuration_is_missing (ctx_config c) in
                  evaluation_failed (ReasonCode (if missing then ''missing_configuration'' else ''invalid_configuration''))
                    ''Passport JWT auto-configuration could not read its configuration'' reqs configuration
                    (configuration_error missing reqs)))"

section \<open>The applier\<close>

definition provisioning_error :: error where
  "provisioning_error =
     error_new
       (with_suggestion ''provide an explicit `JwtService` to override the default''
         (with_suggestion ''verify the configured Passport key material is available''
           (with_subject ''passport''
             (diagnostic_new MADS121 ''JWT auto-configuration failed'' ''Passport JWT key provisioning failed''))))"

text \<open>\<open>read\<close> and \<open>later_read\<close> are the file system when keys are checked and when they are loaded.\<close>

definition jwt_apply ::
    "('e, 'd) key_library \<Rightarrow> (string \<Rightarrow> string + string) \<Rightarrow> (string \<Rightarrow> string + string) \<Rightarrow> string option \<Rightarrow>
     (('e, 'd) jwt_service \<Rightarrow> 'v erased_provider) \<Rightarrow> 'v apply_context \<Rightarrow> error + ('v, 'w) contribution" where
  "jwt_apply K read later_read current_dir as_provider c =
     (case passport_config_from_config K read current_dir (ap_config c) of
        Inl _ \<Rightarrow> Inl provisioning_error
      | Inr config \<Rightarrow>
          (case from_passport_config K later_read config of
             Inl _ \<Rightarrow> Inl provisioning_error
           | Inr service \<Rightarrow> Inr (contribution_new (as_provider service))))"

section \<open>When the service is provided\<close>

lemma jwt_requirement_order_eq: "jwt_requirement_order left right = requirement_order left right"
  by (cases "ar_location left"; cases "ar_location right")
    (simp_all add: jwt_requirement_order_def requirement_order_def optional_location_order_def location_order_def)

text \<open>What requires the service: the providers that depend on it, then the guards the application serves.\<close>

definition served_guards :: "passport_program \<Rightarrow> 'v auto_context \<Rightarrow> scoped_guard list" where
  "served_guards P c = hs_guards (for_module_graph (pp_http P) (ctx_module_graph c))"

definition service_required :: "passport_program \<Rightarrow> type_id \<Rightarrow> 'v auto_context \<Rightarrow> bool" where
  "service_required P service_id c \<longleftrightarrow> served_guards P c \<noteq> [] \<or>
     (\<exists>p\<in>set (ctx_providers c). \<exists>d\<in>set (pd_dependencies p). dep_type_id d = service_id)"

lemma jwt_evaluate_exact:
  assumes "jwt_evaluate K read current_dir debug P service_id c = r"
  shows "\<exists>v. r = Inr v \<and> ev_status v =
      (if \<not> preflight_ok P (ctx_module_graph c) (served_guards P c) then FailedStatus
       else if has_provider service_id JWT_SERVICE_TYPE_NAME c then Overridden
       else if \<not> service_required P service_id c then Skipped
       else if \<exists>config. passport_config_from_config K read current_dir (ctx_config c) = Inr config then Active
       else FailedStatus)"
proof -
  let ?guards = "served_guards P c"
  let ?preflight = "preflight_scoped debug P (ctx_module_graph c) ?guards"
  note exact = preflight_exact [of P "ctx_module_graph c" ?guards debug]
  note status = evaluation_failed_def evaluation_overridden_def evaluation_skipped_def evaluation_active_def
    evaluation_new_def
  show ?thesis
  proof (cases "preflight_ok P (ctx_module_graph c) ?guards")
    case False
    with exact obtain e where "?preflight = Inl (Failed e)" by (auto simp: fails_with_def)
    then have "guard_requirements debug P c = Inl (Failed e)"
      by (simp add: guard_requirements_def served_guards_def Let_def)
    with assms False show ?thesis by (auto simp: jwt_evaluate_def status)
  next
    case True
    with exact have "?preflight = Inr (map (chosen P (ctx_module_graph c)) (in_guard_order ?guards))" by simp
    then obtain gs where gs: "guard_requirements debug P c = Inr gs" "gs = [] \<longleftrightarrow> ?guards = []"
      by (auto simp: guard_requirements_def served_guards_def in_guard_order_def sort_by_eq_Nil Let_def)
    have "requirements service_id c = [] \<longleftrightarrow>
        \<not> (\<exists>p\<in>set (ctx_providers c). \<exists>d\<in>set (pd_dependencies p). dep_type_id d = service_id)"
      by (auto simp: requirements_def sort_by_eq_Nil filter_empty_conv list_ex_iff)
    with gs(2) have "sort_by jwt_requirement_order (requirements service_id c @ gs) = [] \<longleftrightarrow>
        \<not> service_required P service_id c"
      by (auto simp: service_required_def sort_by_eq_Nil)
    with assms True gs(1) show ?thesis
      by (cases "passport_config_from_config K read current_dir (ctx_config c)") (auto simp: jwt_evaluate_def Let_def status)
  qed
qed

text \<open>An answer that says active can be kept, while the files stay as they were.\<close>

lemma jwt_apply_active:
  assumes "passport_config_from_config K read current_dir (ap_config c) = Inr config"
  shows "\<exists>svc. jwt_apply K read read current_dir as_provider c = Inr (contribution_new (as_provider svc)) \<and>
    from_passport_config K read config = Inr svc"
  using service_ok [OF assms] assms by (auto simp: jwt_apply_def)

end
