(* ===== verification/Jwt_Service.thy ===== *)
theory Jwt_Service
  imports Jwt_Auto
begin

text \<open>
  The properties of the JWT service as applications use it: which tokens it accepts, for how long, that
  it accepts its own, what a guard of the built-in strategy lets through, and when the service is
  provided at all.
\<close>

section \<open>Genuine tokens\<close>

text \<open>
  A token in compact form within the size limit, whose header names the algorithm of the key it selects
  from the ring, whose signature that key accepts over exactly its header and payload, and whose payload
  decodes to the claims.
\<close>

definition genuine ::
    "('e, 'd, 'c) jwt_library \<Rightarrow> ('e, 'd) jwt_service \<Rightarrow> string \<Rightarrow> 'c verified_jwt \<Rightarrow> bool" where
  "genuine L svc token jwt \<longleftrightarrow>
     (\<exists>h p s key. length token \<le> js_max_token_bytes svc \<and> compact token h p s \<and>
        decode_jwt_header L h = Inr (vj_header jwt) \<and>
        verifier (js_key_ring svc) (hd_key_id (vj_header jwt)) = Inr (key, hd_algorithm (vj_header jwt)) \<and>
        jl_verify L s (h @ ''.'' @ p) key (hd_algorithm (vj_header jwt)) = Inr True \<and>
        decode_claims L p = Inr (vj_claims jwt))"

lemma jwt_verify_genuine:
  "jwt_verify L svc (Some now) token v = Inr jwt \<longleftrightarrow>
     genuine L svc token jwt \<and> claims_valid svc (vj_header jwt) (cl_registered (vj_claims jwt)) v now"
  unfolding jwt_verify_exact genuine_def by blast

lemma jwt_verify_clock: "jwt_verify L svc clock token v = Inr jwt \<Longrightarrow> clock \<noteq> None"
  by (auto simp: jwt_verify_def and_then_eq_Inr unix_now_def ok_or_eq_Inr split: if_splits)

lemma jwt_verify_at:
  "jwt_verify L svc clock token v = Inr jwt \<longleftrightarrow>
     (\<exists>now. clock = Some now \<and> genuine L svc token jwt \<and>
        claims_valid svc (vj_header jwt) (cl_registered (vj_claims jwt)) v now)"
  using jwt_verify_clock [of L svc clock token v jwt] jwt_verify_genuine [of L svc _ token v jwt]
  by (cases clock) auto

text \<open>
  C33: \<open>verify\<close> accepts a token exactly when it is genuine (in compact form, no longer than the limit,
  its header naming the algorithm of the ring's key it selects, signed with that key over its own header
  and payload) and its claims pass every rule: the kind in header and claims, the time window, and the
  issuer, audiences, subject and identifier that the service and the caller demand. What it returns are
  the header and the claims of that token.
\<close>

theorem verify_accepts_exactly:
  "jwt_verify L svc (Some now) token v = Inr jwt \<longleftrightarrow>
     genuine L svc token jwt \<and> claims_valid svc (vj_header jwt) (cl_registered (vj_claims jwt)) v now"
  by (rule jwt_verify_genuine)

section \<open>The time window\<close>

lemma jwt_error_new_eq [simp]: "jwt_error_new e = jwt_error_new k \<longleftrightarrow> e = k"
  by (simp add: jwt_error_new_def)

lemma and_then_kind:
  "and_then r (\<lambda>_. k) = Inl (jwt_error_new e) \<longleftrightarrow>
     r = Inl (jwt_error_new e) \<or> r = Inr () \<and> k = Inl (jwt_error_new e)" for r :: "jwt_error + unit"
  by (cases r) auto

lemma check_kind: "check b k = Inl (jwt_error_new e) \<longleftrightarrow> \<not> b \<and> e = k"
  by (auto simp: check_def jwt_error_new_def)

lemma option_check_kind:
  "(case x of Some y \<Rightarrow> check (P y) k | None \<Rightarrow> Inr ()) = Inl (jwt_error_new e) \<longleftrightarrow>
     (\<exists>y. x = Some y \<and> \<not> P y) \<and> e = k"
  by (cases x) (auto simp: check_kind)

lemma expired_exact:
  "validate_claims svc header claims v now = Inl (jwt_error_new Expired) \<longleftrightarrow>
     hd_token_type header = Some (header_type (va_kind v)) \<and> rc_token_kind claims = va_kind v \<and>
     (unat (rc_expires_at claims) = 0 \<or>
      unat (rc_expires_at claims) + unat (js_clock_skew_seconds svc) \<le> unat now)"
  unfolding validate_claims_def and_then_kind check_kind option_check_kind check_simps(1) not_expired
  by (simp only: jwt_error_kind.distinct jwt_error_kind.simps simp_thms de_Morgan_conj de_Morgan_disj not_less not_not
      neq0_conv le_zero_eq) blast

lemma too_early_exact:
  "validate_claims svc header claims v now = Inl (jwt_error_new InvalidNotBefore) \<longleftrightarrow>
     hd_token_type header = Some (header_type (va_kind v)) \<and> rc_token_kind claims = va_kind v \<and>
     0 < unat (rc_expires_at claims) \<and>
     unat now < unat (rc_expires_at claims) + unat (js_clock_skew_seconds svc) \<and>
     (\<exists>n. rc_not_before claims = Some n \<and> unat now + unat (js_clock_skew_seconds svc) < unat n)"
  unfolding validate_claims_def and_then_kind check_kind option_check_kind check_simps(1) option_check not_expired begun
  by (simp only: jwt_error_kind.distinct jwt_error_kind.simps simp_thms de_Morgan_conj de_Morgan_disj not_le not_not) blast

lemma sign_overflow:
  assumes "2 ^ 64 \<le> unat now + unat (as_secs (so_lifetime options))"
  shows "jwt_sign L svc (Some now) c options = Inl (jwt_error_new Serialization)"
proof -
  have "u64_checked_add now (as_secs (so_lifetime options)) = None"
    using assms checked_add_exact [of now "as_secs (so_lifetime options)"]
    by (cases "u64_checked_add now (as_secs (so_lifetime options))") auto
  then show ?thesis by (simp add: jwt_sign_def Let_def unix_now_def)
qed

text \<open>
  C34: the 64-bit arithmetic on times decides the window of the natural numbers. A token of the right
  kind is refused as expired exactly when its expiry plus the skew is not after the clock (or it expires
  at zero), and otherwise as not yet valid exactly when its start is after the clock plus the skew, also
  where one of the sums does not fit in 64 bits. No token is issued whose expiry would wrap around:
  where the clock plus the lifetime does not fit, signing fails.
\<close>

theorem time_window_exact:
  "(validate_claims svc header claims v now = Inl (jwt_error_new Expired) \<longleftrightarrow>
      hd_token_type header = Some (header_type (va_kind v)) \<and> rc_token_kind claims = va_kind v \<and>
      (unat (rc_expires_at claims) = 0 \<or>
       unat (rc_expires_at claims) + unat (js_clock_skew_seconds svc) \<le> unat now)) \<and>
   (validate_claims svc header claims v now = Inl (jwt_error_new InvalidNotBefore) \<longleftrightarrow>
      hd_token_type header = Some (header_type (va_kind v)) \<and> rc_token_kind claims = va_kind v \<and>
      0 < unat (rc_expires_at claims) \<and>
      unat now < unat (rc_expires_at claims) + unat (js_clock_skew_seconds svc) \<and>
      (\<exists>n. rc_not_before claims = Some n \<and> unat now + unat (js_clock_skew_seconds svc) < unat n)) \<and>
   (2 ^ 64 \<le> unat now + unat (as_secs (so_lifetime options)) \<longrightarrow>
      jwt_sign L svc (Some now) c options = Inl (jwt_error_new Serialization))"
  by (intro conjI impI, rule expired_exact, rule too_early_exact, rule sign_overflow)

section \<open>Guards of the built-in strategy\<close>

text \<open>Verification never fails in a way that counts as an error of the server.\<close>

definition refuses :: "jwt_error + 'x \<Rightarrow> bool" where
  "refuses r \<longleftrightarrow>
     (case r of Inl e \<Rightarrow> passport_error_of_jwt e = passport_reject | Inr _ \<Rightarrow> True)"

lemma refuses_Inr [simp]: "refuses (Inr x)"
  by (simp add: refuses_def)

lemma refuses_new [simp]:
  "refuses (Inl (jwt_error_new kind)) \<longleftrightarrow>
     kind \<notin> {InvalidConfiguration, InvalidKeyMaterial, UnavailableSigningKey, Serialization}"
  by (auto simp: refuses_def passport_error_of_jwt_def jwt_error_new_def passport_reject_def passport_internal_def)

lemma refuses_and_then: "refuses r \<Longrightarrow> (\<And>x. refuses (k x)) \<Longrightarrow> refuses (and_then r k)"
  by (cases r) (auto simp: refuses_def)

lemma refuses_ok_or [simp]: "refuses (Inl e :: jwt_error + 'x) \<Longrightarrow> refuses (ok_or e x :: jwt_error + 'x)"
  by (cases x) simp_all

lemma refuses_try_map: "(\<And>x. refuses (f x)) \<Longrightarrow> refuses (try_map f xs)"
proof (induction xs)
  case (Cons x xs)
  then have "refuses (f x)" "refuses (try_map f xs)" by blast+
  then show ?case by (cases "f x"; cases "try_map f xs") (simp_all add: refuses_def)
qed simp

lemma refuses_if: "refuses a \<Longrightarrow> refuses b \<Longrightarrow> refuses (if P then a else b)"
  by simp

lemma refuses_json_string: "refuses (json_string v)"
  by (cases v) simp_all

lemmas refusing = refuses_and_then refuses_if refuses_json_string refuses_try_map

lemma refuses_decoding:
  "refuses (decode_json_object L part)" "refuses (take_string object name)"
  "refuses (take_optional_u64 object name)" "refuses (take_audiences object)"
  "missing = MissingExpiration \<or> missing = MissingIssuedAt \<Longrightarrow> refuses (take_required_u64 object name missing)"
  unfolding decode_json_object_def take_string_def take_optional_u64_def take_audiences_def take_required_u64_def
  by (auto intro!: refusing split: json.splits option.splits)

lemma refuses_header: "refuses (decode_jwt_header L part)"
  unfolding decode_jwt_header_def
  by (auto intro!: refusing refuses_decoding split: option.splits sum.splits)

lemma refuses_claims: "refuses (decode_claims L part)"
  unfolding decode_claims_def
  by (auto intro!: refusing refuses_decoding)

lemma refuses_signature: "refuses (verify_signature L token key algorithm)"
proof -
  have "refuses (Inl (map_verification_error e))" for e by (cases e) simp_all
  then show ?thesis
    unfolding verify_signature_def by (auto intro!: refusing split: sum.splits)
qed

lemma refuses_validation: "refuses (validate_claims svc header claims v now)"
  unfolding validate_claims_def
  by (auto intro!: refusing simp: check_def split: option.splits)

lemma refuses_verifier: "refuses (verifier ring key_id)"
  by (auto simp: verifier_def intro!: refusing split: key_ring.splits)

lemma verify_refuses: "refuses (jwt_verify L svc (Some now) token v)"
proof -
  have "refuses (jwt_parts token)"
    by (auto simp: jwt_parts_def split: list.splits)
  then show ?thesis
    unfolding jwt_verify_def
    by (auto intro!: refusing refuses_header refuses_claims refuses_signature refuses_validation
          refuses_verifier
        simp: ensure_token_size_def unix_now_def)
qed

text \<open>What the built-in strategy makes of a verified token.\<close>

definition claims_authentication ::
    "'c principal_type \<Rightarrow> type_id \<Rightarrow> type_id \<Rightarrow> string \<Rightarrow> 'c verified_jwt \<Rightarrow>
     ('c verified_jwt, 'c verified_jwt) authentication" where
  "claims_authentication t principal_id claims_id claims_name jwt =
     authentication_new
       \<lparr>pt_id = principal_id, pt_name = ''ClaimsPrincipal'',
        pt_has_role = (\<lambda>v. pt_has_role t (cl_custom (vj_claims v))),
        pt_has_permission = (\<lambda>v. pt_has_permission t (cl_custom (vj_claims v)))\<rparr>
       claims_id claims_name jwt jwt"

lemma builtin_adapter_exact:
  "builtin_claims_adapter L t principal_id claims_id claims_name (Inr svc) (Some now) view token = Inr a \<longleftrightarrow>
     (\<exists>jwt. genuine L svc token jwt \<and>
        claims_valid svc (vj_header jwt) (cl_registered (vj_claims jwt)) (validation_new Access) now \<and>
        a = claims_authentication t principal_id claims_id claims_name jwt)"
proof -
  have "builtin_claims_adapter L t principal_id claims_id claims_name (Inr svc) (Some now) view token = Inr a \<longleftrightarrow>
     (\<exists>jwt. jwt_verify L svc (Some now) token (validation_new Access) = Inr jwt \<and>
        a = claims_authentication t principal_id claims_id claims_name jwt)"
    unfolding claims_authentication_def builtin_claims_adapter_def
    by (cases "jwt_verify L svc (Some now) token (validation_new Access)") auto
  then show ?thesis unfolding jwt_verify_genuine conj_assoc .
qed

lemma builtin_adapter_error:
  "builtin_claims_adapter L t principal_id claims_id claims_name (Inr svc) (Some now) view token = Inl e \<Longrightarrow>
     e = passport_reject"
  using verify_refuses [of L svc now token "validation_new Access"]
  by (auto simp: builtin_claims_adapter_def refuses_def split: sum.splits)

lemma claims_authentication_typed: "well_typed (claims_authentication t principal_id claims_id claims_name jwt)"
  by (simp add: well_typed_def claims_authentication_def authentication_new_def)

lemma authenticate_error:
  assumes "authenticate_request H source adapter headers method uri remote_addr = Inl e"
    "\<And>view token e. adapter view token = Inl e \<Longrightarrow> e = passport_reject"
  shows "e = passport_reject"
proof (cases source)
  case Bearer
  have "e' = passport_reject" if error: "bearer_token H headers = Inl e'" for e'
  proof (cases "\<exists>v s. hl_get_all H headers ''authorization'' = [v] \<and> hl_to_str H v = Some s")
    case True
    then obtain v s where "hl_get_all H headers ''authorization'' = [v]" "hl_to_str H v = Some s" by blast
    with error show ?thesis
      by (cases "split_whitespace s"; cases "tl (split_whitespace s)") (simp_all add: bearer_token_def split: if_splits)
  next
    case False
    with error show ?thesis
      by (cases "hl_get_all H headers ''authorization''"; cases "hl_to_str H (hd (hl_get_all H headers ''authorization''))")
        (simp_all add: bearer_token_def split: if_splits)
  qed
  with assms Bearer show ?thesis by (auto simp: authenticate_request_def and_then_eq_Inl)
next
  case (CookieSource name)
  with assms show ?thesis
    by (auto simp: authenticate_request_def and_then_eq_Inl ok_or_eq_Inl split: sum.splits if_splits)
qed

text \<open>
  C35: behind a guard of the built-in strategy a handler runs exactly for the requests that present one
  credential which is a genuine token of the service, inside its time window, marked as an access token
  in header and claims, and whose claims satisfy the policy of the guard; a refresh token is never
  enough. The handler gets the verified claims. Every other request is answered as unauthorized or
  forbidden, never as an error of the server, whatever the token is.
\<close>

theorem jwt_guard_exact:
  "(guard_authorize H (\<lambda>_. builtin_claims_adapter L t principal_id claims_id claims_name (Inr svc) (Some now))
        test st request = Inr request' \<longleftrightarrow>
     (\<exists>token jwt. presented H (gd_source (gs_guard st)) (rq_headers request) token \<and> genuine L svc token jwt \<and>
        claims_valid svc (vj_header jwt) (cl_registered (vj_claims jwt)) (validation_new Access) now \<and>
        satisfies test (gs_guard st) (claims_authentication t principal_id claims_id claims_name jwt) \<and>
        request' = with_identity (claims_authentication t principal_id claims_id claims_name jwt) request)) \<and>
    (case guard_authorize H (\<lambda>_. builtin_claims_adapter L t principal_id claims_id claims_name (Inr svc) (Some now))
        test st request of Inl e \<Rightarrow> e \<in> {passport_reject, passport_forbidden} | Inr _ \<Rightarrow> True)"
proof
  show "guard_authorize H (\<lambda>_. builtin_claims_adapter L t principal_id claims_id claims_name (Inr svc) (Some now))
        test st request = Inr request' \<longleftrightarrow>
     (\<exists>token jwt. presented H (gd_source (gs_guard st)) (rq_headers request) token \<and> genuine L svc token jwt \<and>
        claims_valid svc (vj_header jwt) (cl_registered (vj_claims jwt)) (validation_new Access) now \<and>
        satisfies test (gs_guard st) (claims_authentication t principal_id claims_id claims_name jwt) \<and>
        request' = with_identity (claims_authentication t principal_id claims_id claims_name jwt) request)"
    unfolding guard_authorize_exact builtin_adapter_exact 
    using claims_authentication_typed by blast
  show "case guard_authorize H (\<lambda>_. builtin_claims_adapter L t principal_id claims_id claims_name (Inr svc) (Some now))
      test st request of Inl e \<Rightarrow> e \<in> {passport_reject, passport_forbidden} | Inr _ \<Rightarrow> True"
  proof (cases "authenticate_request H (gd_source (gs_guard st))
      (builtin_claims_adapter L t principal_id claims_id claims_name (Inr svc) (Some now)) (rq_headers request)
      (rq_method request) (rq_uri request) (rq_connect_info request)")
    case (Inl e)
    have "e = passport_reject" by (rule authenticate_error [OF Inl]) (rule builtin_adapter_error)
    with Inl show ?thesis by (simp add: guard_authorize_def)
  next
    case (Inr a)
    then obtain jwt where "a = claims_authentication t principal_id claims_id claims_name jwt"
      unfolding authenticate_exact builtin_adapter_exact by blast
    then have "well_typed a" by (simp add: claims_authentication_typed)
    with Inr show ?thesis by (simp add: guard_authorize_def install_exact)
  qed
qed

section \<open>A sample application\<close>

text \<open>
  One secret of 32 bytes, and libraries that know one token: the header and the claims of an access
  token issued at 1000 for a minute.
\<close>

definition sample_secret :: string where
  "sample_secret = replicate 32 (CHR ''k'')"

definition sample_config :: config where
  "sample_config = config_empty\<lparr>cfg_values := [(''passport.secret'', \<lparr>cv_value = sample_secret,
     cv_origin = \<lparr>co_label = ''application'', co_relative_path_base = None\<rparr>\<rparr>)]\<rparr>"

definition sample_key_library :: "(string, string) key_library" where
  "sample_key_library =
     \<lparr>kl_from_secret = (\<lambda>s. s), kl_decoding_from_secret = (\<lambda>s. s),
      kl_from_rsa_pem = (\<lambda>_. Inl BadKeyFormat), kl_from_ec_pem = (\<lambda>_. Inl BadKeyFormat),
      kl_decoding_from_rsa_pem = (\<lambda>_. Inl BadKeyFormat), kl_decoding_from_ec_pem = (\<lambda>_. Inl BadKeyFormat),
      kl_sign = (\<lambda>_ _ _. Inl BadAlgorithm), kl_verify = (\<lambda>_ _ _ _. Inl BadAlgorithm),
      kl_show = (\<lambda>_. ''key error'')\<rparr>"

definition sample_passport_config :: passport_config where
  "sample_passport_config =
     \<lparr>pj_mode = SimpleHmac sample_secret, pj_algorithms = [Hs256], pj_issuer = None, pj_audiences = [],
      pj_clock_skew_seconds = 0, pj_max_token_bytes = 8192\<rparr>"

definition sample_jwt_service :: "(string, string) jwt_service" where
  "sample_jwt_service =
     \<lparr>js_key_ring = SimpleRing Hs256 sample_secret sample_secret, js_issuer = None, js_audiences = [],
      js_clock_skew_seconds = 0, js_max_token_bytes = 8192\<rparr>"

definition sample_options :: sign_options where
  "sample_options = sign_options_new Access (60, 0)"

definition sample_object :: "u64 \<Rightarrow> json_map" where
  "sample_object n = [(''user'', JNumber (Unsigned n))]"

definition sample_jwt_header :: jwt_header where
  "sample_jwt_header = \<lparr>hd_algorithm = Hs256, hd_key_id = None, hd_token_type = Some ''mads-access+jwt''\<rparr>"

definition sample_payload :: json_map where
  "sample_payload = insert_registered_claims (signed_claims sample_jwt_service 1000 sample_options) (sample_object 7)"

definition sample_jwt_library :: "(string, string, u64) jwt_library" where
  "sample_jwt_library =
     \<lparr>jl_encode = (\<lambda>header claims _.
        if header = sample_jwt_header \<and> claims = sample_payload then Inr ''h.p.s'' else Inl OtherCrypto),
      jl_verify = (\<lambda>signature message _ _. Inr (signature = ''s'' \<and> message = ''h.p'')),
      jl_base64_decode = Some,
      jl_parse_json = (\<lambda>bytes.
        if bytes = ''h'' then Some (syntax_of (JObject (header_object sample_jwt_header)))
        else if bytes = ''p'' then Some (syntax_of (JObject sample_payload)) else None),
      jl_to_value = (\<lambda>n. Some (JObject (sample_object n))),
      jl_from_value = (\<lambda>v. case v of JObject [(_, JNumber (Unsigned n))] \<Rightarrow> Some n | _ \<Rightarrow> None)\<rparr>"

definition no_files :: "string \<Rightarrow> string + string" where
  "no_files path = Inl ''no such file''"

lemma sample_laws: "encode_law sample_jwt_library matching" "claims_law sample_jwt_library"
proof -
  have "compact ''h.p.s'' ''h'' ''p'' ''s''" by (simp add: compact_def)
  then have "\<exists>h p s hb pb. compact token h p s \<and> jl_base64_decode sample_jwt_library h = Some hb \<and>
      jl_parse_json sample_jwt_library hb = Some (syntax_of (JObject (header_object header))) \<and>
      jl_base64_decode sample_jwt_library p = Some pb \<and>
      jl_parse_json sample_jwt_library pb = Some (syntax_of (JObject claims)) \<and>
      jl_verify sample_jwt_library s (h @ ''.'' @ p) d (hd_algorithm header) = Inr True"
    if "jl_encode sample_jwt_library header claims e = Inr token" for header claims e token d
    using that
    by (intro exI [of _ "''h''"] exI [of _ "''p''"] exI [of _ "''s''"])
      (simp add: sample_jwt_library_def split: if_splits)
  then show "encode_law sample_jwt_library matching" unfolding encode_law_def by blast
  show "claims_law sample_jwt_library"
    by (simp add: claims_law_def sample_jwt_library_def sample_object_def bmap_ok_def)
qed

lemma sample_accepted:
  "passport_config_from_config sample_key_library no_files None sample_config = Inr sample_passport_config"
  by (simp add: passport_config_from_config_def sample_config_def config_empty_def sample_passport_config_def
      sample_secret_def has_named_key_fields_def named_key_prefix_def starts_with_def parse_simple_hmac_mode_def
      required_scalar_def optional_scalar_def optional_string_array_def parse_optional_u64_def
      parse_optional_usize_def config_get_def get_string_array_def bmap_get_def is_hmac_def Let_def
      default_max_token_bytes_def)

lemma sample_service_built:
  "from_passport_config sample_key_library no_files sample_passport_config = Inr sample_jwt_service"
  by (simp add: from_passport_config_def key_ring_from_config_def sample_passport_config_def sample_jwt_service_def
      sample_key_library_def)

lemma sample_signed: "jwt_sign sample_jwt_library sample_jwt_service (Some 1000) 7 sample_options = Inr ''h.p.s''"
proof -
  have "object_custom_claims sample_jwt_library 7 = Inr (sample_object 7)"
    by (simp add: object_custom_claims_def sample_jwt_library_def sample_object_def bmap_keys_def reserved_claims_def)
  then show ?thesis
    by (simp add: jwt_sign_def unix_now_def u64_checked_add_def active_signer_def sample_jwt_service_def Let_def
        sample_options_def sign_options_new_def as_secs_def)
      (simp add: sample_jwt_library_def sample_jwt_header_def sample_payload_def sample_jwt_service_def
        signed_claims_def sample_options_def sign_options_new_def as_secs_def)
qed

text \<open>A minute that does not fit in 64 bits any more.\<close>

theorem time_window_exact_witness:
  "2 ^ 64 \<le> unat (18446744073709551615 :: u64) + unat (as_secs (so_lifetime sample_options)) \<and>
   jwt_sign sample_jwt_library sample_jwt_service (Some 18446744073709551615) 7 sample_options =
     Inl (jwt_error_new Serialization)"
  using time_window_exact [of sample_jwt_service sample_jwt_header "signed_claims sample_jwt_service 1000 sample_options"
      "validation_new Access" 18446744073709551615 sample_options sample_jwt_library 7]
  by (simp add: sample_options_def sign_options_new_def as_secs_def)

section \<open>Configured services\<close>

text \<open>
  C36: a configuration that is accepted is sound, and its service can sign: the token limit is positive,
  no algorithm and no audience is listed twice, a single secret comes with one HMAC algorithm and is long
  enough for it, and of a ring of named keys every identifier is valid, every key is of an allowed
  algorithm and has the material of that algorithm (a long enough secret, or a public key and a private
  key that signs what it accepts), and the active key is in the ring. While the key files stay as they
  are, the service is built; it signs with the active key and an allowed algorithm, and it only ever
  verifies with allowed algorithms.
\<close>

theorem accepted_configuration_sound:
  assumes "passport_config_from_config K read current_dir config = Inr c"
  shows "passport_config_ok K read c \<and> (\<exists>svc. from_passport_config K read c = Inr svc \<and>
    (\<exists>e a. active_signer (js_key_ring svc) = Inr (e, a, active_key_id c) \<and> a \<in> set (pj_algorithms c)) \<and>
    (\<forall>key_id d a. verifier (js_key_ring svc) key_id = Inr (d, a) \<longrightarrow> a \<in> set (pj_algorithms c)))"
  using from_config_ok [OF assms] service_ok [OF assms] by blast

theorem accepted_configuration_sound_witness:
  "passport_config_from_config sample_key_library no_files None sample_config = Inr sample_passport_config \<and>
   passport_config_ok sample_key_library no_files sample_passport_config \<and>
   active_signer (js_key_ring sample_jwt_service) = Inr (sample_secret, Hs256, None)"
proof -
  have "passport_config_ok sample_key_library no_files sample_passport_config"
    using accepted_configuration_sound [OF sample_accepted] by blast
  then show ?thesis
    using sample_accepted by (simp add: active_signer_def sample_jwt_service_def)
qed

text \<open>
  C37: what a configured service signs, it verifies. At any later or earlier time the token comes back with
  its claims exactly when it is asked for as the kind it was signed as, its lifetime (and the skew) have
  not passed and its not-before time has come; otherwise the error says which rule failed. A token longer
  than the limit is refused by the very service that signed it: signing does not check the limit.
\<close>

theorem configured_service_verifies_its_tokens:
  assumes "passport_config_from_config K read current_dir config = Inr c"
    and "encode_law L (key_pair K)" "claims_law L"
  shows "\<exists>svc. from_passport_config K read c = Inr svc \<and>
    (\<forall>issued custom options token now kind. jwt_sign L svc (Some issued) custom options = Inr token \<longrightarrow>
       map_sum id vj_claims (jwt_verify L svc (Some now) token (validation_new kind)) =
       (if js_max_token_bytes svc < length token then Inl (jwt_error_new TokenTooLarge)
        else if so_kind options \<noteq> kind then Inl (jwt_error_new TokenKindMismatch)
        else if unat issued + unat (as_secs (so_lifetime options)) + unat (js_clock_skew_seconds svc) \<le> unat now
        then Inl (jwt_error_new Expired)
        else if \<exists>n. so_not_before options = Some n \<and> unat now + unat (js_clock_skew_seconds svc) < unat n
        then Inl (jwt_error_new InvalidNotBefore)
        else Inr \<lparr>cl_registered = signed_claims svc issued options, cl_custom = custom\<rparr>))"
  using service_ok [OF assms(1)] own_token_answer [OF assms(2,3)] by blast

theorem configured_service_verifies_its_tokens_witness:
  "map_sum id vj_claims (jwt_verify sample_jwt_library sample_jwt_service (Some 1059) ''h.p.s'' (validation_new Access)) =
     Inr \<lparr>cl_registered = signed_claims sample_jwt_service 1000 sample_options, cl_custom = 7\<rparr> \<and>
   map_sum id vj_claims (jwt_verify sample_jwt_library sample_jwt_service (Some 1060) ''h.p.s'' (validation_new Access)) =
     Inl (jwt_error_new Expired) \<and>
   map_sum id vj_claims (jwt_verify sample_jwt_library sample_jwt_service (Some 1059) ''h.p.s'' (validation_new Refresh)) =
     Inl (jwt_error_new TokenKindMismatch)"
proof -
  have "\<forall>issued custom options token now kind.
      jwt_sign sample_jwt_library sample_jwt_service (Some issued) custom options = Inr token \<longrightarrow>
      map_sum id vj_claims (jwt_verify sample_jwt_library sample_jwt_service (Some now) token (validation_new kind)) =
      (if js_max_token_bytes sample_jwt_service < length token then Inl (jwt_error_new TokenTooLarge)
       else if so_kind options \<noteq> kind then Inl (jwt_error_new TokenKindMismatch)
       else if unat issued + unat (as_secs (so_lifetime options)) + unat (js_clock_skew_seconds sample_jwt_service)
         \<le> unat now
       then Inl (jwt_error_new Expired)
       else if \<exists>n. so_not_before options = Some n \<and>
         unat now + unat (js_clock_skew_seconds sample_jwt_service) < unat n
       then Inl (jwt_error_new InvalidNotBefore)
       else Inr \<lparr>cl_registered = signed_claims sample_jwt_service issued options, cl_custom = custom\<rparr>)"
    using configured_service_verifies_its_tokens [OF sample_accepted sample_laws] sample_service_built by simp
  from this [rule_format, OF sample_signed] show ?thesis
    by (simp add: sample_options_def sign_options_new_def as_secs_def sample_jwt_service_def)
qed

section \<open>The service as a provider\<close>

text \<open>
  C38: the evaluator of the auto-configuration never panics, and answers: failed when the guards the
  application serves have no strategies; else overridden when the application provides the service
  itself; else skipped when no provider and no guard needs it; else active when the configuration is
  accepted, and failed when it is not. Once the configuration is accepted the applier provides the
  configured service, as long as the key files stay as they are.
\<close>

theorem service_provided_exactly:
  "(\<exists>v. jwt_evaluate K read current_dir debug P service_id c = Inr v \<and> ev_status v =
      (if \<not> preflight_ok P (ctx_module_graph c) (served_guards P c) then FailedStatus
       else if has_provider service_id JWT_SERVICE_TYPE_NAME c then Overridden
       else if \<not> service_required P service_id c then Skipped
       else if \<exists>config. passport_config_from_config K read current_dir (ctx_config c) = Inr config then Active
       else FailedStatus)) \<and>
   (case passport_config_from_config K read current_dir (ctx_config c) of
      Inl _ \<Rightarrow> True
    | Inr config \<Rightarrow> \<exists>svc. from_passport_config K read config = Inr svc \<and>
        jwt_apply K read read current_dir as_provider
          (apply_context_new identifier (ctx_config c) inputs (ctx_module_graph c)) =
          Inr (contribution_new (as_provider svc)))"
proof
  show "\<exists>v. jwt_evaluate K read current_dir debug P service_id c = Inr v \<and> ev_status v =
      (if \<not> preflight_ok P (ctx_module_graph c) (served_guards P c) then FailedStatus
       else if has_provider service_id JWT_SERVICE_TYPE_NAME c then Overridden
       else if \<not> service_required P service_id c then Skipped
       else if \<exists>config. passport_config_from_config K read current_dir (ctx_config c) = Inr config then Active
       else FailedStatus)"
    using jwt_evaluate_exact [OF refl] .
  show "case passport_config_from_config K read current_dir (ctx_config c) of
      Inl _ \<Rightarrow> True
    | Inr config \<Rightarrow> \<exists>svc. from_passport_config K read config = Inr svc \<and>
        jwt_apply K read read current_dir as_provider
          (apply_context_new identifier (ctx_config c) inputs (ctx_module_graph c)) =
          Inr (contribution_new (as_provider svc))"
  proof (cases "passport_config_from_config K read current_dir (ctx_config c)")
    case (Inr config)
    then have "passport_config_from_config K read current_dir
        (ap_config (apply_context_new identifier (ctx_config c) inputs (ctx_module_graph c))) = Inr config"
      by (simp add: apply_context_new_def)
    from jwt_apply_active [OF this] Inr show ?thesis by auto
  qed simp
qed

end
