(* ===== verification/Server_Config.thy ===== *)
theory Server_Config
  imports Http_Scope Http_Text Auto_Configuration
begin

text \<open>
  The configuration of the HTTP server (\<open>server_config.rs\<close> and \<open>cors.rs\<close> under
  \<open>crates/mads-common/src/\<close>): the address it binds, the plan of cross-origin requests, and the
  evaluators and appliers of their auto-configuration.

  IP addresses of the standard library and the URIs, methods, header names and header values of the
  library \<open>http\<close> are the record \<open>http_syntax\<close>: how their texts are read. A value of the latter is its text.
\<close>

section \<open>Libraries\<close>

text \<open>A parsed URI; the authority is its host and its whole text.\<close>

record parsed_uri =
  pu_scheme :: "string option"
  pu_authority :: "(string \<times> string) option"
  pu_path_and_query :: "string option"

record http_syntax =
  hx_ip_address :: "string \<Rightarrow> string option"
  hx_uri :: "string \<Rightarrow> parsed_uri option"
  hx_header_value :: "string \<Rightarrow> bool"
  hx_method :: "string \<Rightarrow> bool"
  hx_header_name :: "string \<Rightarrow> string option"

section \<open>The address\<close>

definition SERVER_AUTO_CONFIGURATION_ID :: string where
  "SERVER_AUTO_CONFIGURATION_ID = ''mads.common.http.server''"

definition SERVER_BINDING_TYPE_NAME :: string where
  "SERVER_BINDING_TYPE_NAME = ''mads_common::server_config::ServerBinding''"

record server_binding =
  bd_host :: string
  bd_port :: "16 word"

definition server_source_label :: "string option \<Rightarrow> string" where
  "server_source_label source =
     (case source of
        None \<Rightarrow> ''defaults''
      | Some label \<Rightarrow>
          if label \<in> {''defaults'', ''environment'', ''mads.toml'', ''test''} then label
          else if path_file_name label = Some ''mads.toml'' then ''mads.toml''
          else ''[REDACTED]'')"

definition invalid_server_configuration :: "string \<Rightarrow> string option \<Rightarrow> string \<Rightarrow> error" where
  "invalid_server_configuration key source rule =
     error_new (with_suggestion ''configure a valid automatic HTTP server address''
       (with_subject key (diagnostic_new MADS020 ''automatic HTTP server configuration is invalid''
         (key @ '' '' @ rule @ ''; source: '' @ server_source_label source))))"

definition is_valid_hostname :: "string \<Rightarrow> bool" where
  "is_valid_hostname host \<longleftrightarrow>
     (let hostname = (case strip_suffix ''.'' host of Some s \<Rightarrow> s | None \<Rightarrow> host) in
      hostname \<noteq> [] \<and> length hostname \<le> 253 \<and>
      list_all (\<lambda>label.
        label \<noteq> [] \<and> length label \<le> 63 \<and> \<not> starts_with ''-'' label \<and> strip_suffix ''-'' label = None \<and>
        list_all (\<lambda>c. is_ascii_alphanumeric c \<or> c = CHR ''-'') label) (split_on (CHR ''.'') hostname))"

definition parse_host :: "http_syntax \<Rightarrow> string \<Rightarrow> string option \<Rightarrow> error + string" where
  "parse_host X host source =
     (if split_whitespace host = []
      then Inl (invalid_server_configuration ''server.host'' source ''must not be empty or whitespace-only'')
      else if list_ex (\<lambda>c. byte c < 32 \<or> byte c = 127) host
      then Inl (invalid_server_configuration ''server.host'' source ''must not contain ASCII control characters'')
      else case hx_ip_address X host of
          Some address \<Rightarrow> Inr address
        | None \<Rightarrow>
            if \<not> is_valid_hostname host
            then Inl (invalid_server_configuration ''server.host'' source
              ''must be an IPv4 address, IPv6 address, or valid hostname'')
            else Inr host)"

definition parse_port :: "string \<Rightarrow> string option \<Rightarrow> error + 16 word" where
  "parse_port port source =
     (case parse_unsigned 16 port of
        None \<Rightarrow> Inl (invalid_server_configuration ''server.port'' source ''must be an integer in the range 1..=65535'')
      | Some n \<Rightarrow>
          if n = 0
          then Inl (invalid_server_configuration ''server.port'' source ''must be an integer in the range 1..=65535'')
          else Inr (of_nat n))"

definition binding_from_config :: "http_syntax \<Rightarrow> config \<Rightarrow> error + server_binding" where
  "binding_from_config X config =
     (let host = (case config_get ''server.host'' config of Some h \<Rightarrow> h | None \<Rightarrow> ''127.0.0.1'') in
      and_then (parse_host X host (source_of ''server.host'' config)) (\<lambda>host.
      let port = (case config_get ''server.port'' config of Some p \<Rightarrow> p | None \<Rightarrow> ''3000'') in
      and_then (parse_port port (source_of ''server.port'' config)) (\<lambda>port.
      Inr \<lparr>bd_host = host, bd_port = port\<rparr>)))"

definition server_evidence :: "'v auto_context \<Rightarrow> auto_evidence list" where
  "server_evidence c =
     map (\<lambda>key. evidence_new key (source_of key (ctx_config c))) [''server.host'', ''server.port'']"

text \<open>\<open>mode\<close> is the type of the private input that the automatic runtime registers.\<close>

definition server_evaluate ::
    "http_syntax \<Rightarrow> http_program \<Rightarrow> type_id \<Rightarrow> 'v auto_context \<Rightarrow> evaluation" where
  "server_evaluate X P mode c =
     (if ctx_input mode c = None
      then evaluation_overridden (ReasonCode ''explicit_listener'')
        ''the low-level runtime owns its listener address'' [] (server_evidence c)
      else case ctx_module_graph c of
          None \<Rightarrow> evaluation_skipped (ReasonCode ''no_managed_routes'')
            ''the selected application has no managed HTTP routes'' [] (server_evidence c)
        | Some g \<Rightarrow>
            if \<not> scope_has_routes (for_module_graph P (Some g))
            then evaluation_skipped (ReasonCode ''no_managed_routes'')
              ''the selected application has no managed HTTP routes'' [] (server_evidence c)
            else (case binding_from_config X (ctx_config c) of
                Inr _ \<Rightarrow> evaluation_active (ReasonCode ''conditions_matched'')
                  ''automatic HTTP server conditions matched'' [] (server_evidence c)
              | Inl e \<Rightarrow> evaluation_failed (ReasonCode ''invalid_configuration'')
                  ''automatic HTTP server configuration is invalid'' [] (server_evidence c) e))"

definition server_apply ::
    "http_syntax \<Rightarrow> (server_binding \<Rightarrow> 'v erased_provider) \<Rightarrow> 'v apply_context \<Rightarrow> error + ('v, 'w) contribution" where
  "server_apply X as_provider c =
     and_then (binding_from_config X (ap_config c)) (\<lambda>b. Inr (contribution_new (as_provider b)))"

section \<open>Cross-origin requests\<close>

definition CORS_AUTO_CONFIGURATION_ID :: string where
  "CORS_AUTO_CONFIGURATION_ID = ''mads.common.http.cors''"

definition CORS_PLAN_TYPE_NAME :: string where
  "CORS_PLAN_TYPE_NAME = ''mads_common::cors::CorsPlan''"

definition CORS_KEYS :: "string list" where
  "CORS_KEYS =
     [''server.cors.origins'', ''server.cors.methods'', ''server.cors.allowed_headers'',
      ''server.cors.exposed_headers'', ''server.cors.credentials'', ''server.cors.max_age_seconds'']"

datatype 'a cors_values = AnyValue | ListValues "'a list"

definition is_any :: "'a cors_values \<Rightarrow> bool" where
  "is_any v \<longleftrightarrow> (case v of AnyValue \<Rightarrow> True | ListValues _ \<Rightarrow> False)"

record cors_plan =
  cp_origins :: "string cors_values"
  cp_methods :: "string list"
  cp_allowed_headers :: "string cors_values"
  cp_exposed_headers :: "string cors_values"
  cp_credentials :: bool
  cp_max_age :: "u64 option"

definition source_for_key :: "config \<Rightarrow> string \<Rightarrow> string option" where
  "source_for_key config key =
     (case source_of key config of Some s \<Rightarrow> Some s | None \<Rightarrow> source_of_string_array key config)"

definition cors_source_label :: "string option \<Rightarrow> string" where
  "cors_source_label source =
     (case source of
        None \<Rightarrow> ''[REDACTED]''
      | Some label \<Rightarrow>
          if label \<in> {''defaults'', ''environment'', ''mads.toml'', ''test''} then label
          else if path_file_name label = Some ''mads.toml'' then ''mads.toml''
          else ''[REDACTED]'')"

definition invalid_cors_configuration :: "string \<Rightarrow> string option \<Rightarrow> string \<Rightarrow> error" where
  "invalid_cors_configuration key source rule =
     error_new (with_suggestion ''configure valid application-wide CORS settings''
       (with_subject key (diagnostic_new MADS020 ''CORS configuration is invalid''
         (key @ '' '' @ rule @ ''; source: '' @ cors_source_label source))))"

definition invalid_cors_array_element :: "string \<Rightarrow> string option \<Rightarrow> nat \<Rightarrow> string \<Rightarrow> error" where
  "invalid_cors_array_element key source index rule =
     invalid_cors_configuration key source (''element at position '' @ nat_digits index @ '' '' @ rule)"

definition is_valid_origin_host :: "http_syntax \<Rightarrow> string \<Rightarrow> bool" where
  "is_valid_origin_host X host \<longleftrightarrow>
     (case strip_prefix ''['' host of
        Some bracketed \<Rightarrow>
          (case strip_suffix '']'' bracketed of None \<Rightarrow> False | Some address \<Rightarrow> hx_ip_address X address \<noteq> None)
      | None \<Rightarrow> hx_ip_address X host \<noteq> None \<or> is_valid_hostname host)"

definition has_valid_optional_port :: "string \<times> string \<Rightarrow> bool" where
  "has_valid_optional_port authority \<longleftrightarrow>
     (let port = drop (length (fst authority)) (snd authority) in
      port = [] \<or>
      (case strip_prefix '':'' port of
         None \<Rightarrow> False
       | Some port \<Rightarrow> port \<noteq> [] \<and> list_all is_ascii_digit port \<and> parse_unsigned 16 port \<noteq> None))"

definition is_valid_origin_authority :: "http_syntax \<Rightarrow> string \<times> string \<Rightarrow> bool" where
  "is_valid_origin_authority X authority \<longleftrightarrow>
     is_valid_origin_host X (fst authority) \<and> has_valid_optional_port authority"

definition has_explicit_path_or_query :: "string \<Rightarrow> parsed_uri \<Rightarrow> bool" where
  "has_explicit_path_or_query raw uri \<longleftrightarrow>
     (case pu_path_and_query uri of
        None \<Rightarrow> False | Some path_and_query \<Rightarrow> path_and_query \<noteq> ''/'' \<or> strip_suffix ''/'' raw \<noteq> None)"

definition parse_origin :: "http_syntax \<Rightarrow> string \<Rightarrow> string \<Rightarrow> string option \<Rightarrow> nat \<Rightarrow> error + string" where
  "parse_origin X raw key source index =
     and_then (ok_or (invalid_cors_array_element key source index ''must be a canonical HTTP origin'') (hx_uri X raw)) (\<lambda>uri.
     if pu_scheme uri \<notin> {Some ''http'', Some ''https''} \<or>
        \<not> (case pu_authority uri of None \<Rightarrow> False | Some a \<Rightarrow> is_valid_origin_authority X a) \<or>
        has_explicit_path_or_query raw uri \<or> CHR ''#'' \<in> set raw \<or> CHR ''@'' \<in> set raw \<or>
        eq_ignore_ascii_case raw ''null''
     then Inl (invalid_cors_array_element key source index
       ''must be a canonical HTTP or HTTPS origin without paths, queries, fragments, or user information'')
     else if hx_header_value X raw then Inr raw
     else Inl (invalid_cors_array_element key source index ''must be a valid HTTP header value''))"

text \<open>The loop over the elements of an array, numbered from 1; duplicates are dropped.\<close>

definition parse_elements ::
    "(string \<Rightarrow> string \<Rightarrow> string option \<Rightarrow> nat \<Rightarrow> error + string) \<Rightarrow> string \<Rightarrow> string \<Rightarrow> string option \<Rightarrow>
     string list \<Rightarrow> error + string list" where
  "parse_elements parse wildcard_rule key source raws =
     try_fold (\<lambda>(index, raw) vs.
       if raw = ''*'' then Inl (invalid_cors_array_element key source (index + 1) wildcard_rule)
       else and_then (parse raw key source (index + 1)) (\<lambda>v. Inr (if v \<in> set vs then vs else vs @ [v])))
       (enumerate 0 raws) []"

definition parse_wildcard_or_list ::
    "config \<Rightarrow> string \<Rightarrow> bool \<Rightarrow> (string \<Rightarrow> string \<Rightarrow> string option \<Rightarrow> nat \<Rightarrow> error + string) \<Rightarrow>
     error + string cors_values" where
  "parse_wildcard_or_list config key required parse =
     (case config_get key config of
        Some value \<Rightarrow>
          if value = ''*'' then Inr AnyValue
          else Inl (invalid_cors_configuration key (source_for_key config key)
            ''must be the scalar wildcard \"*\" or a string array'')
      | None \<Rightarrow>
          (case get_string_array key config of
             None \<Rightarrow>
               if required
               then Inl (invalid_cors_configuration key (source_for_key config key)
                 ''must be the scalar wildcard \"*\" or a nonempty string array'')
               else Inr (ListValues [])
           | Some raws \<Rightarrow>
               if required \<and> raws = []
               then Inl (invalid_cors_configuration key (source_for_key config key)
                 ''must be the scalar wildcard \"*\" or a nonempty string array'')
               else and_then (parse_elements parse ''must not contain a wildcard inside a string array'' key
                   (source_for_key config key) raws) (\<lambda>vs. Inr (ListValues vs))))"

definition parse_origins :: "http_syntax \<Rightarrow> config \<Rightarrow> error + string cors_values" where
  "parse_origins X config = parse_wildcard_or_list config ''server.cors.origins'' True (parse_origin X)"

definition to_ascii_uppercase :: "char \<Rightarrow> char" where
  "to_ascii_uppercase c = (if is_ascii_lowercase c then char_of (byte c - 32) else c)"

definition parse_method :: "http_syntax \<Rightarrow> string \<Rightarrow> string \<Rightarrow> string option \<Rightarrow> nat \<Rightarrow> error + string" where
  "parse_method X raw key source index =
     (let normalized = map to_ascii_uppercase raw in
      if hx_method X normalized then Inr normalized
      else Inl (invalid_cors_array_element key source index ''must contain valid HTTP methods''))"

definition parse_methods :: "http_syntax \<Rightarrow> config \<Rightarrow> error + string list" where
  "parse_methods X config =
     (let key = ''server.cors.methods'' in
      case get_string_array key config of
        None \<Rightarrow> Inl (invalid_cors_configuration key (source_of key config) ''must be a nonempty string array'')
      | Some raws \<Rightarrow>
          if raws = []
          then Inl (invalid_cors_configuration key (source_for_key config key) ''must be a nonempty string array'')
          else parse_elements (parse_method X) ''must not contain a wildcard method'' key (source_for_key config key) raws)"

definition parse_headers :: "http_syntax \<Rightarrow> config \<Rightarrow> string \<Rightarrow> error + string cors_values" where
  "parse_headers X config key =
     parse_wildcard_or_list config key False (\<lambda>raw key source index.
       ok_or (invalid_cors_array_element key source index ''must contain valid HTTP header names'') (hx_header_name X raw))"

definition parse_credentials :: "config \<Rightarrow> error + bool" where
  "parse_credentials config =
     (let key = ''server.cors.credentials'';
          failed = Inl (invalid_cors_configuration key (source_for_key config key) ''must be exactly true or false'') in
      if get_string_array key config \<noteq> None then failed
      else case config_get key config of
          None \<Rightarrow> Inr False
        | Some v \<Rightarrow> if v = ''true'' then Inr True else if v = ''false'' then Inr False else failed)"

definition parse_max_age :: "config \<Rightarrow> error + u64 option" where
  "parse_max_age config =
     (let key = ''server.cors.max_age_seconds'';
          failed = invalid_cors_configuration key (source_for_key config key)
            ''must be an unsigned integer number of seconds'' in
      if get_string_array key config \<noteq> None then Inl failed
      else case config_get key config of
          None \<Rightarrow> Inr None
        | Some v \<Rightarrow> and_then (ok_or failed (parse_unsigned 64 v)) (\<lambda>n. Inr (Some (of_nat n))))"

definition plan_from_config :: "http_syntax \<Rightarrow> config \<Rightarrow> error + cors_plan" where
  "plan_from_config X config =
     and_then (parse_origins X config) (\<lambda>origins.
     and_then (parse_methods X config) (\<lambda>methods.
     and_then (parse_headers X config ''server.cors.allowed_headers'') (\<lambda>allowed_headers.
     and_then (parse_headers X config ''server.cors.exposed_headers'') (\<lambda>exposed_headers.
     and_then (parse_credentials config) (\<lambda>credentials.
     and_then (parse_max_age config) (\<lambda>max_age.
     if credentials \<and> (is_any origins \<or> is_any allowed_headers \<or> is_any exposed_headers)
     then Inl (invalid_cors_configuration ''server.cors.credentials'' (source_of ''server.cors.credentials'' config)
       ''must not enable credentials with wildcard origins or headers'')
     else Inr \<lparr>cp_origins = origins, cp_methods = methods, cp_allowed_headers = allowed_headers,
        cp_exposed_headers = exposed_headers, cp_credentials = credentials, cp_max_age = max_age\<rparr>))))))"

definition cors_is_present :: "config \<Rightarrow> bool" where
  "cors_is_present config \<longleftrightarrow>
     contains_table ''server.cors'' config \<or>
     list_ex (\<lambda>(key, _). starts_with ''server.cors.'' key) (cfg_values config) \<or>
     list_ex (\<lambda>(key, _). starts_with ''server.cors.'' key) (cfg_string_arrays config)"

definition cors_evidence :: "'v auto_context \<Rightarrow> auto_evidence list" where
  "cors_evidence c = map (\<lambda>key. evidence_new key (source_for_key (ctx_config c) key)) CORS_KEYS"

definition no_managed_routes :: "'v auto_context \<Rightarrow> evaluation" where
  "no_managed_routes c =
     evaluation_skipped (ReasonCode ''no_managed_routes'')
       ''the selected application has no managed HTTP routes'' [] (cors_evidence c)"

definition cors_evaluate ::
    "http_syntax \<Rightarrow> http_program \<Rightarrow> type_id \<Rightarrow> 'v auto_context \<Rightarrow> evaluation" where
  "cors_evaluate X P mode c =
     (if \<not> cors_is_present (ctx_config c)
      then evaluation_skipped (ReasonCode ''configuration_absent'') ''CORS configuration is absent'' [] (cors_evidence c)
      else if ctx_input mode c \<noteq> None \<and>
         (case ctx_module_graph c of None \<Rightarrow> True | Some g \<Rightarrow> \<not> scope_has_routes (for_module_graph P (Some g)))
      then no_managed_routes c
      else case plan_from_config X (ctx_config c) of
          Inr _ \<Rightarrow> evaluation_active (ReasonCode ''conditions_matched'')
            ''CORS configuration conditions matched'' [] (cors_evidence c)
        | Inl e \<Rightarrow> evaluation_failed (ReasonCode ''invalid_configuration'')
            ''CORS configuration is invalid'' [] (cors_evidence c) e)"

definition cors_apply ::
    "http_syntax \<Rightarrow> (cors_plan \<Rightarrow> 'v erased_provider) \<Rightarrow> 'v apply_context \<Rightarrow> error + ('v, 'w) contribution" where
  "cors_apply X as_provider c =
     and_then (plan_from_config X (ap_config c)) (\<lambda>p. Inr (contribution_new (as_provider p)))"

section \<open>The layer\<close>

text \<open>
  The layer of the library \<open>tower-http\<close> is the sequence of calls that configure it. The library
  documents that a layer panics which allows credentials together with a wildcard, and that a list of
  origins must not contain the wildcard.
\<close>

datatype cors_call =
  AllowMethods "string list" | AllowCredentials bool | AllowOrigin "string cors_values"
  | AllowHeaders "string cors_values" | ExposeHeaders "string cors_values" | MaxAge u64

definition cors_layer :: "cors_plan \<Rightarrow> cors_call list" where
  "cors_layer p =
     [AllowMethods (cp_methods p), AllowCredentials (cp_credentials p), AllowOrigin (cp_origins p),
      AllowHeaders (cp_allowed_headers p), ExposeHeaders (cp_exposed_headers p)] @
     (case cp_max_age p of Some max_age \<Rightarrow> [MaxAge max_age] | None \<Rightarrow> [])"

definition is_wildcard :: "string cors_values \<Rightarrow> bool" where
  "is_wildcard v \<longleftrightarrow> v = AnyValue \<or> v = ListValues [''*'']"

fun wildcard_call :: "cors_call \<Rightarrow> bool" where
  "wildcard_call (AllowMethods ms) \<longleftrightarrow> ms = [''*'']"
| "wildcard_call (AllowOrigin v) \<longleftrightarrow> is_wildcard v"
| "wildcard_call (AllowHeaders v) \<longleftrightarrow> is_wildcard v"
| "wildcard_call (ExposeHeaders v) \<longleftrightarrow> is_wildcard v"
| "wildcard_call _ \<longleftrightarrow> False"

definition cors_calls_usable :: "cors_call list \<Rightarrow> bool" where
  "cors_calls_usable calls \<longleftrightarrow>
     list_all (\<lambda>c. case c of AllowOrigin (ListValues vs) \<Rightarrow> ''*'' \<notin> set vs | _ \<Rightarrow> True) calls \<and>
     \<not> (AllowCredentials True \<in> set calls \<and> list_ex wildcard_call calls)"

section \<open>The descriptors\<close>

text \<open>\<open>t\<close> is the type of the value and \<open>erase\<close> puts a value into the store.\<close>

definition server_descriptor ::
    "http_syntax \<Rightarrow> http_program \<Rightarrow> type_id \<Rightarrow> type_id \<Rightarrow> (server_binding \<Rightarrow> 'v) \<Rightarrow> source_location \<Rightarrow>
     ('v, 'w) auto_descriptor" where
  "server_descriptor X P mode t erase location =
     \<lparr>ad_identifier = SERVER_AUTO_CONFIGURATION_ID, ad_output_type_name = SERVER_BINDING_TYPE_NAME,
      ad_output_type_id = t, ad_location = location, ad_evaluator = server_evaluate X P mode,
      ad_applier = (\<lambda>c w. (w, server_apply X (\<lambda>b. \<lparr>er_type_id = t, er_value = erase b\<rparr>) c))\<rparr>"

definition cors_descriptor ::
    "http_syntax \<Rightarrow> http_program \<Rightarrow> type_id \<Rightarrow> type_id \<Rightarrow> (cors_plan \<Rightarrow> 'v) \<Rightarrow> source_location \<Rightarrow>
     ('v, 'w) auto_descriptor" where
  "cors_descriptor X P mode t erase location =
     \<lparr>ad_identifier = CORS_AUTO_CONFIGURATION_ID, ad_output_type_name = CORS_PLAN_TYPE_NAME,
      ad_output_type_id = t, ad_location = location, ad_evaluator = cors_evaluate X P mode,
      ad_applier = (\<lambda>c w. (w, cors_apply X (\<lambda>p. \<lparr>er_type_id = t, er_value = erase p\<rparr>) c))\<rparr>"

section \<open>What is accepted\<close>

lemma server_error_code [simp]:
  "error_code (invalid_server_configuration key source rule) = Inr MADS020"
  "error_code (invalid_cors_configuration key source rule) = Inr MADS020"
  "error_code (invalid_cors_array_element key source index rule) = Inr MADS020"
  by (simp_all add: invalid_server_configuration_def invalid_cors_configuration_def invalid_cors_array_element_def
      diagnostic_builders)

text \<open>The texts of host and port, and the host a text stands for: an address as it is printed, or a name.\<close>

definition host_text :: "config \<Rightarrow> string" where
  "host_text config = (case config_get ''server.host'' config of Some h \<Rightarrow> h | None \<Rightarrow> ''127.0.0.1'')"

definition port_text :: "config \<Rightarrow> string" where
  "port_text config = (case config_get ''server.port'' config of Some p \<Rightarrow> p | None \<Rightarrow> ''3000'')"

definition host_ok :: "http_syntax \<Rightarrow> string \<Rightarrow> string \<Rightarrow> bool" where
  "host_ok X s host \<longleftrightarrow>
     split_whitespace s \<noteq> [] \<and> (\<forall>c\<in>set s. 32 \<le> byte c \<and> byte c \<noteq> 127) \<and>
     (hx_ip_address X s = Some host \<or> hx_ip_address X s = None \<and> is_valid_hostname s \<and> host = s)"

lemma parse_host_exact:
  "parse_host X s source = Inr host \<longleftrightarrow> host_ok X s host"
proof -
  have "list_ex (\<lambda>c. byte c < 32 \<or> byte c = 127) s \<longleftrightarrow> \<not> (\<forall>c\<in>set s. 32 \<le> byte c \<and> byte c \<noteq> 127)"
    by (auto simp: list_ex_iff not_le)
  then show ?thesis
    by (cases "hx_ip_address X s") (simp_all add: parse_host_def host_ok_def conj_ac eq_commute [of host])
qed

lemma parse_host_error: "parse_host X s source = Inl e \<Longrightarrow> error_code e = Inr MADS020"
  by (auto simp: parse_host_def split: if_splits option.splits)

lemma parse_port_exact:
  "parse_port s source = Inr port \<longleftrightarrow> parse_unsigned 16 s = Some (unat port) \<and> 0 < unat port"
proof (cases "parse_unsigned 16 s")
  case (Some n)
  then have n: "n < 2 ^ 16" by (rule parse_unsigned_below)
  then have "unat (of_nat n :: 16 word) = n" by (simp add: unat_of_nat take_bit_nat_eq_self_iff)
  with Some show ?thesis by (auto simp: parse_port_def word_unat_eq_iff)
qed (simp add: parse_port_def)

lemma parse_port_error: "parse_port s source = Inl e \<Longrightarrow> error_code e = Inr MADS020"
  by (auto simp: parse_port_def split: if_splits option.splits)

lemma binding_exact:
  "binding_from_config X config = Inr b \<longleftrightarrow>
     host_ok X (host_text config) (bd_host b) \<and>
     parse_unsigned 16 (port_text config) = Some (unat (bd_port b)) \<and> 0 < unat (bd_port b)"
  by (cases b) (auto simp: binding_from_config_def Let_def and_then_eq_Inr parse_host_exact parse_port_exact
      simp flip: host_text_def port_text_def)

lemma binding_error: "binding_from_config X config = Inl e \<Longrightarrow> error_code e = Inr MADS020"
  by (auto simp: binding_from_config_def Let_def and_then_eq_Inl intro: parse_host_error parse_port_error)

text \<open>An origin a browser can send, and a plan that never combines credentials with a wildcard.\<close>

definition origin_ok :: "http_syntax \<Rightarrow> string \<Rightarrow> bool" where
  "origin_ok X raw \<longleftrightarrow>
     raw \<noteq> ''*'' \<and> hx_header_value X raw \<and> CHR ''#'' \<notin> set raw \<and> CHR ''@'' \<notin> set raw \<and>
     (\<exists>uri authority. hx_uri X raw = Some uri \<and> pu_scheme uri \<in> {Some ''http'', Some ''https''} \<and>
        pu_authority uri = Some authority \<and> is_valid_origin_authority X authority \<and>
        \<not> has_explicit_path_or_query raw uri)"

definition no_wildcard_with_credentials :: "cors_plan \<Rightarrow> bool" where
  "no_wildcard_with_credentials p \<longleftrightarrow>
     \<not> (cp_credentials p \<and>
        (cp_origins p = AnyValue \<or> cp_allowed_headers p = AnyValue \<or> cp_exposed_headers p = AnyValue)) \<and>
     (\<forall>vs. cp_origins p = ListValues vs \<longrightarrow> ''*'' \<notin> set vs) \<and> ''*'' \<notin> set (cp_methods p)"

definition plan_ok :: "http_syntax \<Rightarrow> cors_plan \<Rightarrow> bool" where
  "plan_ok X p \<longleftrightarrow>
     no_wildcard_with_credentials p \<and>
     (\<forall>vs. cp_origins p = ListValues vs \<longrightarrow> vs \<noteq> [] \<and> distinct vs \<and> (\<forall>v\<in>set vs. origin_ok X v)) \<and>
     cp_methods p \<noteq> [] \<and> distinct (cp_methods p) \<and> (\<forall>m\<in>set (cp_methods p). hx_method X m) \<and>
     (\<forall>vs. cp_allowed_headers p = ListValues vs \<or> cp_exposed_headers p = ListValues vs \<longrightarrow>
        distinct vs \<and> (\<forall>v\<in>set vs. \<exists>raw. raw \<noteq> ''*'' \<and> hx_header_name X raw = Some v))"

lemma parse_origin_ok: "parse_origin X raw key source index = Inr v \<Longrightarrow> raw \<noteq> ''*'' \<Longrightarrow> v = raw \<and> origin_ok X raw"
  by (auto simp: parse_origin_def and_then_eq_Inr ok_or_eq_Inr origin_ok_def split: if_splits option.splits)

lemma parse_elements_ok:
  assumes "parse_elements parse rule key source raws = Inr vs"
  shows "distinct vs \<and> (raws \<noteq> [] \<longrightarrow> vs \<noteq> []) \<and>
    (\<forall>v\<in>set vs. \<exists>raw index. raw \<noteq> ''*'' \<and> parse raw key source index = Inr v)"
proof -
  let ?step = "\<lambda>(index, raw) vs.
       if raw = ''*'' then Inl (invalid_cors_array_element key source (index + 1) rule)
       else and_then (parse raw key source (index + 1)) (\<lambda>v. Inr (if v \<in> set vs then vs else vs @ [v]))"
  note fold = assms [unfolded parse_elements_def]
  let ?parsed = "\<lambda>v. \<exists>raw index. raw \<noteq> ''*'' \<and> parse raw key source index = Inr v"
  have "distinct vs \<and> (\<forall>v\<in>set vs. ?parsed v)"
  proof (rule try_fold_keeps [OF fold, of "\<lambda>vs. distinct vs \<and> (\<forall>v\<in>set vs. ?parsed v)"])
    fix x t t'
    assume "?step x t = Inr t'" and kept: "distinct t \<and> (\<forall>v\<in>set t. ?parsed v)"
    then obtain index raw v where v: "raw \<noteq> ''*''" "parse raw key source (index + 1) = Inr v"
      "t' = (if v \<in> set t then t else t @ [v])"
      by (cases x) (auto simp: and_then_eq_Inr split: if_splits)
    from v(1,2) have "?parsed v" by blast
    with kept v(3) show "distinct t' \<and> (\<forall>v\<in>set t'. ?parsed v)" by simp
  qed simp
  moreover have "vs \<noteq> []" if "raws \<noteq> []"
  proof -
    obtain raw rest where "raws = raw # rest" using \<open>raws \<noteq> []\<close> by (cases raws) auto
    then have "\<exists>v. try_fold ?step (enumerate 1 rest) [v] = Inr vs"
      using fold by (auto simp: and_then_eq_Inr split: if_splits)
    then obtain v where rest: "try_fold ?step (enumerate 1 rest) [v] = Inr vs" by blast
    show ?thesis
      by (rule try_fold_keeps [OF rest, of "\<lambda>vs. vs \<noteq> []"]) (auto simp: and_then_eq_Inr split: if_splits)
  qed
  ultimately show ?thesis by blast
qed

lemma parse_wildcard_or_list_ok:
  assumes "parse_wildcard_or_list config key required parse = Inr (ListValues vs)"
  shows "distinct vs \<and> (required \<longrightarrow> vs \<noteq> []) \<and>
    (\<forall>v\<in>set vs. \<exists>raw index. raw \<noteq> ''*'' \<and> parse raw key (source_for_key config key) index = Inr v)"
proof -
  consider "vs = []" "\<not> required" | raws rule where "parse_elements parse rule key (source_for_key config key) raws = Inr vs"
    "\<not> (required \<and> raws = [])"
    using assms by (auto simp: parse_wildcard_or_list_def and_then_eq_Inr split: option.splits if_splits)
  then show ?thesis
  proof cases
    case 2
    from parse_elements_ok [OF 2(1)] 2(2) show ?thesis by blast
  qed simp
qed

lemma uppercase_star: "map to_ascii_uppercase raw = ''*'' \<Longrightarrow> raw = ''*''"
proof -
  have "c = CHR ''*''" if "to_ascii_uppercase c = CHR ''*''" for c
  proof (rule ccontr)
    assume "c \<noteq> CHR ''*''"
    with that have low: "is_ascii_lowercase c" and star: "char_of (byte c - 32) = CHR ''*''"
      by (auto simp: to_ascii_uppercase_def split: if_splits)
    from low have "97 \<le> byte c" "byte c \<le> 122" by (auto simp: is_ascii_lowercase_def)
    moreover have "byte (char_of (byte c - 32)) = 42" unfolding star by (simp add: byte_def)
    then have "(byte c - 32) mod 256 = 42" by (simp add: byte_def)
    ultimately show False by simp
  qed
  then show "map to_ascii_uppercase raw = ''*'' \<Longrightarrow> raw = ''*''" by auto
qed

lemma parse_methods_ok:
  assumes "parse_methods X config = Inr methods"
  shows "methods \<noteq> [] \<and> distinct methods \<and> (\<forall>m\<in>set methods. hx_method X m \<and> m \<noteq> ''*'')"
proof -
  obtain raws rule key source where "raws \<noteq> []" "parse_elements (parse_method X) rule key source raws = Inr methods"
    using assms by (auto simp: parse_methods_def Let_def split: option.splits if_splits)
  from parse_elements_ok [OF this(2)] this(1) show ?thesis
    by (auto simp: parse_method_def Let_def dest: uppercase_star split: if_splits)
qed

lemma plan_accepted:
  assumes "plan_from_config X config = Inr p"
  shows "plan_ok X p"
proof -
  obtain origins methods allowed exposed credentials max_age where parts:
    "parse_origins X config = Inr origins" "parse_methods X config = Inr methods"
    "parse_headers X config ''server.cors.allowed_headers'' = Inr allowed"
    "parse_headers X config ''server.cors.exposed_headers'' = Inr exposed"
    "\<not> (credentials \<and> (is_any origins \<or> is_any allowed \<or> is_any exposed))"
    "p = \<lparr>cp_origins = origins, cp_methods = methods, cp_allowed_headers = allowed,
      cp_exposed_headers = exposed, cp_credentials = credentials, cp_max_age = max_age\<rparr>"
    using assms by (auto simp: plan_from_config_def and_then_eq_Inr split: if_splits)
  have origins: "vs \<noteq> [] \<and> distinct vs \<and> (\<forall>v\<in>set vs. origin_ok X v)" if "origins = ListValues vs" for vs
    using parse_wildcard_or_list_ok [OF parts(1) [unfolded parse_origins_def that]] by (auto dest: parse_origin_ok)
  have headers: "distinct vs \<and> (\<forall>v\<in>set vs. \<exists>raw. raw \<noteq> ''*'' \<and> hx_header_name X raw = Some v)"
    if "parse_headers X config key = Inr (ListValues vs)" for key vs
    using parse_wildcard_or_list_ok [OF that [unfolded parse_headers_def]] by (auto simp: ok_or_eq_Inr)
  have methods: "methods \<noteq> [] \<and> distinct methods \<and> (\<forall>m\<in>set methods. hx_method X m \<and> m \<noteq> ''*'')"
    by (rule parse_methods_ok [OF parts(2)])
  have "is_any v \<longleftrightarrow> v = AnyValue" for v :: "string cors_values" by (cases v) (simp_all add: is_any_def)
  with parts(5) have "no_wildcard_with_credentials p"
    using origins methods by (auto simp: no_wildcard_with_credentials_def parts(6) origin_ok_def)
  then show ?thesis
    using origins methods headers parts(3,4) by (auto simp: plan_ok_def parts(6))
qed

text \<open>What \<open>HeaderName\<close> documents: it lowers the letters of a name.\<close>

definition header_names_lowered :: "http_syntax \<Rightarrow> bool" where
  "header_names_lowered X \<longleftrightarrow> (\<forall>raw v. hx_header_name X raw = Some v \<longrightarrow> v = map ascii_lowercase raw)"

lemma lowercase_star: "map ascii_lowercase raw = ''*'' \<Longrightarrow> raw = ''*''"
proof -
  have "c = CHR ''*''" if "ascii_lowercase c = CHR ''*''" for c
  proof (rule ccontr)
    assume "c \<noteq> CHR ''*''"
    with that have c: "65 \<le> (of_char c :: nat)" "(of_char c :: nat) \<le> 90"
      and star: "char_of ((of_char c :: nat) + 32) = CHR ''*''"
      by (auto simp: ascii_lowercase_def split: if_splits)
    have "(of_char (char_of ((of_char c :: nat) + 32) :: char) :: nat) = 42" unfolding star by simp
    then have "((of_char c :: nat) + 32) mod 256 = 42" by simp
    with c show False by simp
  qed
  then show "map ascii_lowercase raw = ''*'' \<Longrightarrow> raw = ''*''" by auto
qed

lemma cors_layer_usable:
  assumes "header_names_lowered X" "plan_ok X p"
  shows "cors_calls_usable (cors_layer p)"
proof -
  have headers: "''*'' \<notin> set vs" if "cp_allowed_headers p = ListValues vs \<or> cp_exposed_headers p = ListValues vs" for vs
    using assms that unfolding plan_ok_def header_names_lowered_def by (metis lowercase_star)
  have methods: "''*'' \<notin> set (cp_methods p)" using assms(2) by (simp add: plan_ok_def no_wildcard_with_credentials_def)
  have origins: "''*'' \<notin> set vs" if "cp_origins p = ListValues vs" for vs
    using assms(2) that by (simp add: plan_ok_def no_wildcard_with_credentials_def)
  have "\<not> (is_wildcard (cp_origins p) \<or> is_wildcard (cp_allowed_headers p) \<or> is_wildcard (cp_exposed_headers p))"
    if "cp_credentials p"
    using assms(2) that headers [of "[''*'']"] origins [of "[''*'']"]
    by (auto simp: plan_ok_def no_wildcard_with_credentials_def is_wildcard_def)
  moreover have "cp_methods p \<noteq> [''*'']" using methods by auto
  ultimately show ?thesis
    using origins by (auto simp: cors_calls_usable_def cors_layer_def split: cors_values.splits option.splits)
qed

lemma parse_elements_error:
  assumes "\<And>raw index e. parse raw key source index = Inl e \<Longrightarrow> error_code e = Inr MADS020"
    and "parse_elements parse rule key source raws = Inl e"
  shows "error_code e = Inr MADS020"
  using try_fold_failed [OF assms(2) [unfolded parse_elements_def]] assms(1)
  by (auto simp: and_then_eq_Inl split: if_splits)

lemma parse_wildcard_or_list_error:
  assumes "\<And>raw index e. parse raw key (source_for_key config key) index = Inl e \<Longrightarrow> error_code e = Inr MADS020"
    and "parse_wildcard_or_list config key required parse = Inl e"
  shows "error_code e = Inr MADS020"
  using assms(2) parse_elements_error [of parse key "source_for_key config key", OF assms(1)]
  by (auto simp: parse_wildcard_or_list_def and_then_eq_Inl split: option.splits if_splits)

lemma parse_parts_error:
  "parse_origins X config = Inl e \<Longrightarrow> error_code e = Inr MADS020"
  "parse_methods X config = Inl e \<Longrightarrow> error_code e = Inr MADS020"
  "parse_headers X config key = Inl e \<Longrightarrow> error_code e = Inr MADS020"
  "parse_credentials config = Inl e \<Longrightarrow> error_code e = Inr MADS020"
  "parse_max_age config = Inl e \<Longrightarrow> error_code e = Inr MADS020"
proof -
  have origin: "parse_origin X raw key source index = Inl e \<Longrightarrow> error_code e = Inr MADS020" for raw key source index e
    by (auto simp: parse_origin_def and_then_eq_Inl ok_or_eq_Inl split: if_splits)
  have one_method: "parse_method X raw key source index = Inl e \<Longrightarrow> error_code e = Inr MADS020" for raw key source index e
    by (auto simp: parse_method_def Let_def split: if_splits)
  show "parse_origins X config = Inl e \<Longrightarrow> error_code e = Inr MADS020"
    unfolding parse_origins_def by (rule parse_wildcard_or_list_error [OF origin])
  show "parse_headers X config key = Inl e \<Longrightarrow> error_code e = Inr MADS020"
    unfolding parse_headers_def by (rule parse_wildcard_or_list_error) (auto simp: ok_or_eq_Inl)
  show "parse_methods X config = Inl e \<Longrightarrow> error_code e = Inr MADS020"
    by (auto simp: parse_methods_def Let_def intro: parse_elements_error [OF one_method] split: option.splits if_splits)
  show "parse_credentials config = Inl e \<Longrightarrow> error_code e = Inr MADS020"
    by (auto simp: parse_credentials_def Let_def split: option.splits if_splits)
  show "parse_max_age config = Inl e \<Longrightarrow> error_code e = Inr MADS020"
    by (auto simp: parse_max_age_def Let_def and_then_eq_Inl ok_or_eq_Inl split: option.splits if_splits)
qed

lemma plan_error: "plan_from_config X config = Inl e \<Longrightarrow> error_code e = Inr MADS020"
  by (auto simp: plan_from_config_def and_then_eq_Inl split: if_splits intro: parse_parts_error)

lemma error_ok_coded: "error_code e = Inr c \<Longrightarrow> error_ok e"
  by (auto simp: error_ok_def error_code_def error_diagnostic_def)

lemma evaluators_well_formed:
  "evaluation_ok (server_evaluate X P mode c)" "evaluation_ok (cors_evaluate X P mode c)"
proof -
  show "evaluation_ok (server_evaluate X P mode c)"
    by (cases "binding_from_config X (ctx_config c)")
      (auto simp: server_evaluate_def dest!: binding_error intro: error_ok_coded split: option.splits)
  show "evaluation_ok (cors_evaluate X P mode c)"
    by (cases "plan_from_config X (ctx_config c)")
      (auto simp: cors_evaluate_def no_managed_routes_def dest!: plan_error intro: error_ok_coded split: option.splits)
qed

section \<open>The properties\<close>


text \<open>
  C40: A configured plan of cross-origin requests names origins without paths, queries, fragments or
  user information, valid methods and header names, each once, never combines credentials with a
  wildcard, and configures a layer that the library accepts.
\<close>

theorem cors_plan_sound:
  assumes "header_names_lowered X" "plan_from_config X config = Inr p"
  shows "plan_ok X p \<and> cors_calls_usable (cors_layer p)"
  using plan_accepted [OF assms(2)] cors_layer_usable [OF assms(1)] by blast

definition sample_syntax :: http_syntax where
  "sample_syntax =
     \<lparr>hx_ip_address = (\<lambda>s. if s = ''127.0.0.1'' then Some s else None),
      hx_uri = (\<lambda>raw. map_option (\<lambda>host. \<lparr>pu_scheme = Some ''https'', pu_authority = Some (host, host),
        pu_path_and_query = None\<rparr>) (strip_prefix ''https://'' raw)),
      hx_header_value = (\<lambda>_. True), hx_method = list_all is_ascii_alphanumeric,
      hx_header_name = (\<lambda>raw. Some (map ascii_lowercase raw))\<rparr>"

definition sample_cors_config :: config where
  "sample_cors_config =
     (let origin = \<lparr>co_label = ''mads.toml'', co_relative_path_base = None\<rparr> in
      \<lparr>cfg_values = [(''server.cors.credentials'', \<lparr>cv_value = ''true'', cv_origin = origin\<rparr>)],
       cfg_string_arrays =
         [(''server.cors.allowed_headers'', \<lparr>ca_value = [''X-Id''], ca_origin = origin\<rparr>),
          (''server.cors.methods'', \<lparr>ca_value = [''get'', ''PUT'', ''Get''], ca_origin = origin\<rparr>),
          (''server.cors.origins'', \<lparr>ca_value = [''https://a.example''], ca_origin = origin\<rparr>)],
       cfg_tables = []\<rparr>)"

theorem cors_plan_sound_witness:
  "\<exists>p. plan_from_config sample_syntax sample_cors_config = Inr p \<and> cp_credentials p \<and>
     cp_methods p = [''GET'', ''PUT''] \<and> cp_allowed_headers p = ListValues [''x-id''] \<and>
     plan_ok sample_syntax p \<and> cors_calls_usable (cors_layer p)"
proof -
  have lowered: "header_names_lowered sample_syntax" by (simp add: header_names_lowered_def sample_syntax_def)
  have "case plan_from_config sample_syntax sample_cors_config of Inl _ \<Rightarrow> False
    | Inr p \<Rightarrow> cp_credentials p \<and> cp_methods p = [''GET'', ''PUT''] \<and> cp_allowed_headers p = ListValues [''x-id'']"
    by code_simp
  then obtain p where "plan_from_config sample_syntax sample_cors_config = Inr p" "cp_credentials p"
    "cp_methods p = [''GET'', ''PUT'']" "cp_allowed_headers p = ListValues [''x-id'']"
    by (auto split: sum.splits)
  with cors_plan_sound [OF lowered] show ?thesis by blast
qed

end
