(* ===== verification/Spec2Isabelle.thy ===== *)
theory Spec2Isabelle
  imports Builder Dev_Supervisor Db_Plan Http_Router Jwt_Service Server_Config
begin

text \<open>
  Verification of the core of the \<open>mads\<close> framework (\<open>src/crates/mads-core\<close>), from the static
  descriptors that macros register to the running application, of its command-line tool
  (\<open>src/crates/mads-cli\<close>): the development supervisor and the migration planner, and of the HTTP
  adapter with its Passport guards (\<open>src/crates/mads-common\<close>).

  The program. Modules, providers and auto-configuration integrations are linked into the
  executable as static descriptors. A builder (\<open>builder.rs\<close>) collects a root module, values,
  configuration inputs and lifecycle hooks. Building analyses the whole application first: the
  module graph below the root (\<open>graph/module.rs\<close>), the integrations that become active
  (\<open>auto_configuration/\<close>), the providers visible to each module (\<open>graph/scope.rs\<close>), the resolved
  provider graph (\<open>graph/analysis.rs\<close>), its cycles (\<open>graph/cycle.rs\<close>) and its construction order
  (\<open>graph/plan.rs\<close>). Only a valid application is constructed, into a registry of one value per
  type; then the hooks are started and stopped as one state machine (\<open>lifecycle.rs\<close>).

  Theories and the files under \<open>src/crates/mads-core/src\<close> they model:

    \<^item> \<open>Rust_Prelude\<close>, \<open>BTree\<close>: what the code uses of the Rust standard library. Three-way
      comparison, the stable sort, results with panics as values (type \<open>run\<close>), ordered maps and
      sets. The locales \<open>comparator\<close>, \<open>strict_comparator\<close>, \<open>ordered_map\<close> and \<open>min_queue\<close> are the
      contracts the components rely on; each is interpreted on the comparators, maps and queues of
      the code.
    \<^item> \<open>Diagnostics\<close>: \<open>diagnostic.rs\<close>. \<open>Catalog\<close>: \<open>descriptor.rs\<close>, \<open>catalog.rs\<close>, \<open>registry.rs\<close>.
    \<^item> \<open>Graph_Model\<close>: \<open>graph/model.rs\<close>. Edges of a graph are indices into its provider list;
      \<open>graph_ok\<close> is the invariant that they are in range.
    \<^item> \<open>Graph_Cycle\<close>: \<open>graph/cycle.rs\<close>. The depth-first search is recursion with fuel, and the fuel
      (one step per provider) is proved to be enough; the reports are exact.
    \<^item> \<open>Graph_Plan\<close>: \<open>graph/plan.rs\<close>. Kahn's loop with fuel, proved to return the unique least-first
      topological order, or the assertion failure on cyclic graphs.
    \<^item> \<open>Module_Graph\<close>: \<open>graph/module.rs\<close>. The recursive visit with fuel (one more than the number of
      modules in the catalog, proved to be enough), exact against reachability.
    \<^item> \<open>Graph_Analysis\<close>: \<open>graph/analysis.rs\<close>, \<open>graph/mod.rs\<close>. Exactness against an abstract
      specification of a constructible application; independence of the input order.
    \<^item> \<open>Scope\<close>: \<open>graph/scope.rs\<close>. The worklist refines the inductive relation \<open>visible\<close>.
    \<^item> \<open>Lifecycle\<close>: \<open>lifecycle.rs\<close>. Hooks are functions of the world they act on; a run records every
      call, so order and number of the calls are statements about the record.
    \<^item> \<open>Config\<close>: \<open>config.rs\<close>. Documents, sources, precedence, interpolation.
    \<^item> \<open>Auto_Report\<close>, \<open>Auto_Configuration\<close>: \<open>auto_configuration/\<close>.
    \<^item> \<open>Builder\<close>: \<open>builder.rs\<close>, \<open>context.rs\<close>: the composition of all of the above. What is linked
      into the executable is the record \<open>mads_program\<close>.

  The command-line tool, files under \<open>src/crates/mads-cli/src\<close>. \<open>mads dev\<close> resolves the package and
  binary to run, watches the files they are made of, and drives builds and the application process
  from one event loop; \<open>mads migrate\<close> compares the schema declared in Rust sources with the catalog
  of the database and plans reversible operations.

    \<^item> \<open>Cli_Project\<close>: \<open>diagnostic.rs\<close>, \<open>project.rs\<close>. The metadata of Cargo is the input.
    \<^item> \<open>Watch\<close>: \<open>watch.rs\<close> and the debouncing of \<open>dev.rs\<close>. Events are the input.
    \<^item> \<open>Cargo_Build\<close>: \<open>cargo.rs\<close>, \<open>process.rs\<close>. System calls are functions of the world.
    \<^item> \<open>Dev_Supervisor\<close>: \<open>dev_state.rs\<close>, \<open>dev.rs\<close>. A turn of the event loop is a step on the state
      machine and the processes; the schedule of \<open>tokio::select\<close> is an argument.
    \<^item> \<open>Db_Schema\<close>, \<open>Db_Catalog\<close>: \<open>database/schema.rs\<close>, \<open>database/catalog.rs\<close>. Parsed Rust files and
      catalog rows are the inputs.
    \<^item> \<open>Db_Diff\<close>, \<open>Db_Drop_Order\<close>, \<open>Db_Plan\<close>: \<open>database/diff.rs\<close>. The plan is verified against a
      semantics of its operations on abstract schemas (\<open>apply_op\<close>); the bound of the ordering loop is
      the number of dropped tables, proved to be enough.

  The HTTP adapter, files under \<open>src/crates/mads-common/src\<close>. Routes and guards are static
  descriptors too. Building a router selects those of the application's modules, resolves every guard
  to one strategy before anything is served, validates the routes, and lets generated registrars
  install them; a request to a guarded route passes the guard's middleware first.

    \<^item> \<open>Http_Text\<close>: characters and words of Rust strings.
    \<^item> \<open>Passport_Guard\<close>: the metadata half of \<open>passport/guard.rs\<close>. \<open>guard_ok\<close> is what validation accepts.
    \<^item> \<open>Http_Route\<close>, \<open>Http_Route_Valid\<close>, \<open>Http_Route_Match\<close>: \<open>route.rs\<close>. Validation is exact against
      \<open>application_ok\<close>; patterns are compared with the requests they match (\<open>route_matches\<close>).
    \<^item> \<open>Http_Scope\<close>: \<open>http_scope.rs\<close>. The selection by what routes look like is proved to be the rule
      \<open>rule_selection\<close> on the module graph.
    \<^item> \<open>Passport_Strategy\<close>: \<open>passport/strategy.rs\<close>. \<open>preflight_ok\<close> and \<open>chosen\<close> are the specification of
      the preflight.
    \<^item> \<open>Http_Cookie\<close>, \<open>Passport_Request\<close>: \<open>cookie.rs\<close>, \<open>passport/context.rs\<close>, \<open>passport/error.rs\<close>,
      \<open>passport/principal.rs\<close> and the request half of \<open>passport/guard.rs\<close>. Header maps and the cookie
      library are a record of functions; adapters and predicates are functions of the application.
    \<^item> \<open>Http_Router\<close>: \<open>router.rs\<close> with the registrars that \<open>mads-common-macros\<close> generates.

    \<^item> \<open>Jwt_Token\<close>, \<open>Jwt_Roundtrip\<close>: \<open>jwt/claims.rs\<close>, \<open>jwt/error.rs\<close> and \<open>jwt/service.rs\<close>: signing and
      verifying access and refresh tokens. Cryptography, base64, the JSON grammar and serde are the record
      \<open>jwt_library\<close>; what the round trip needs of them are \<open>encode_law\<close> and \<open>claims_law\<close>.
    \<^item> \<open>Jwt_Config\<close>: \<open>jwt/config.rs\<close>, \<open>jwt/keyring.rs\<close>: secrets, named keys and the ring built of them.
      \<open>passport_config_ok\<close> is what an accepted configuration promises.
    \<^item> \<open>Jwt_Auto\<close>: \<open>jwt/auto_configuration.rs\<close>. \<open>Jwt_Service\<close> holds the properties of the service: exact
      verification, the time window on 64-bit words, the round trip, guards of the built-in strategy.

  Integers. Line numbers are \<open>32 word\<close>; \<open>usize\<close> indices and sequence numbers are \<open>nat\<close>, since they
  count elements in memory. Times of tokens are \<open>64 word\<close>, with the saturating and checked
  operations written out. A \<open>TypeId\<close> is a natural number, equality and order being all that is
  used of it.

  Parameters. Files, environment and TOML syntax trees are arguments of the configuration model;
  constructors, evaluators, appliers and hooks are functions in the descriptors. The file system, the
  clock and the libraries for HTTP headers, cookies and tokens are arguments of the HTTP adapter.

  Not modelled: the procedural macros, except for the registrars they generate; the text of generated
  migrations and of inspection reports; database drivers, the HTTP server's sockets and tasks, the
  facade crate, examples and tests.
\<close>

end
